(* ===== verification/Flonum.thy ===== *)
theory Flonum
  imports Prelude
begin

text \<open>
  The C type double of flonum cells, as IEEE 754 binary64: a finite nonzero value is an odd
  integer times a power of two, which is a unique representation.  Every operation computes the
  exact result and rounds it to nearest, ties to even, as the hardware does.  The conversion to a
  64-bit long gives the smallest long for a value out of range, which is what x86-64 does.
\<close>

datatype double = DNaN | DInf bool | DZero bool | DFin int int

section \<open>Normal form and rounding\<close>

function dnorm :: "int \<Rightarrow> int \<Rightarrow> double" where
  "dnorm m e = (if m = 0 then DZero False
                else if even m then dnorm (m div 2) (e + 1)
                else DFin m e)"
  by pat_completeness auto
termination by (relation "measure (\<lambda>(m, e). nat \<bar>m\<bar>)") auto

declare dnorm.simps [simp del]

definition half_even :: "nat \<Rightarrow> nat \<Rightarrow> nat" where
  "half_even m sh =
     (let q = m div 2 ^ sh; r = m mod 2 ^ sh; h = 2 ^ (sh - 1)
      in if h < r \<or> (r = h \<and> odd q) then q + 1 else q)"

definition dround :: "bool \<Rightarrow> int \<Rightarrow> int \<Rightarrow> double" where
  "dround neg m e =
     (if m = 0 then DZero neg
      else let b = nbits (nat \<bar>m\<bar>);
               sh = max (int b - 53) (- 1074 - e)
           in if sh \<le> 0 then (if e + int b > 1024 then DInf (m < 0) else dnorm m e)
              else let q = half_even (nat \<bar>m\<bar>) (nat sh)
                   in if q = 0 then DZero (m < 0)
                      else if e + sh + int (nbits q) > 1024 then DInf (m < 0)
                      else dnorm (sgn m * int q) (e + sh))"

section \<open>Operations\<close>

definition pow2 :: "int \<Rightarrow> int" where
  "pow2 k = 2 ^ nat k"

fun dneg :: "double \<Rightarrow> double" where
  "dneg DNaN = DNaN"
| "dneg (DInf s) = DInf (\<not> s)"
| "dneg (DZero s) = DZero (\<not> s)"
| "dneg (DFin m e) = DFin (- m) e"

fun dadd :: "double \<Rightarrow> double \<Rightarrow> double" where
  "dadd DNaN y = DNaN"
| "dadd x DNaN = DNaN"
| "dadd (DInf s) (DInf t) = (if s = t then DInf s else DNaN)"
| "dadd (DInf s) y = DInf s"
| "dadd x (DInf t) = DInf t"
| "dadd (DZero s) (DZero t) = DZero (s \<and> t)"
| "dadd (DZero s) y = y"
| "dadd x (DZero t) = x"
| "dadd (DFin m1 e1) (DFin m2 e2) =
     (let e = min e1 e2 in dround False (m1 * pow2 (e1 - e) + m2 * pow2 (e2 - e)) e)"

definition dsub :: "double \<Rightarrow> double \<Rightarrow> double" where
  "dsub x y = dadd x (dneg y)"

fun dsign :: "double \<Rightarrow> bool" where
  "dsign DNaN = False"
| "dsign (DInf s) = s"
| "dsign (DZero s) = s"
| "dsign (DFin m e) = (m < 0)"

fun dmul :: "double \<Rightarrow> double \<Rightarrow> double" where
  "dmul DNaN y = DNaN"
| "dmul x DNaN = DNaN"
| "dmul (DInf s) (DZero t) = DNaN"
| "dmul (DZero s) (DInf t) = DNaN"
| "dmul (DInf s) y = DInf (s \<noteq> dsign y)"
| "dmul x (DInf t) = DInf (dsign x \<noteq> t)"
| "dmul (DZero s) y = DZero (s \<noteq> dsign y)"
| "dmul x (DZero t) = DZero (dsign x \<noteq> t)"
| "dmul (DFin m1 e1) (DFin m2 e2) = dround False (m1 * m2) (e1 + e2)"

text \<open>
  The quotient is computed to at least 55 significant bits, with a last bit that records whether
  anything is left over, so that rounding it rounds the exact quotient.
\<close>

fun ddiv :: "double \<Rightarrow> double \<Rightarrow> double" where
  "ddiv DNaN y = DNaN"
| "ddiv x DNaN = DNaN"
| "ddiv (DInf s) (DInf t) = DNaN"
| "ddiv (DZero s) (DZero t) = DNaN"
| "ddiv (DInf s) y = DInf (s \<noteq> dsign y)"
| "ddiv x (DInf t) = DZero (dsign x \<noteq> t)"
| "ddiv (DZero s) y = DZero (s \<noteq> dsign y)"
| "ddiv x (DZero t) = DInf (dsign x \<noteq> t)"
| "ddiv (DFin m1 e1) (DFin m2 e2) =
     (let n = \<bar>m1\<bar> * 2 ^ 110; q = n div \<bar>m2\<bar>; r = n mod \<bar>m2\<bar>
      in dround False (sgn m1 * sgn m2 * (2 * q + (if r = 0 then 0 else 1))) (e1 - e2 - 111))"

fun dlt :: "double \<Rightarrow> double \<Rightarrow> bool" where
  "dlt DNaN y = False"
| "dlt x DNaN = False"
| "dlt (DInf s) (DInf t) = (s \<and> \<not> t)"
| "dlt (DInf s) y = s"
| "dlt x (DInf t) = (\<not> t)"
| "dlt (DZero s) (DZero t) = False"
| "dlt (DZero s) (DFin m e) = (0 < m)"
| "dlt (DFin m e) (DZero s) = (m < 0)"
| "dlt (DFin m1 e1) (DFin m2 e2) =
     (let e = min e1 e2 in m1 * pow2 (e1 - e) < m2 * pow2 (e2 - e))"

fun deq :: "double \<Rightarrow> double \<Rightarrow> bool" where
  "deq DNaN y = False"
| "deq x DNaN = False"
| "deq (DZero s) (DZero t) = True"
| "deq x y = (x = y)"

definition dle :: "double \<Rightarrow> double \<Rightarrow> bool" where
  "dle x y = (dlt x y \<or> deq x y)"

fun dtrunc :: "double \<Rightarrow> int option" where
  "dtrunc DNaN = None"
| "dtrunc (DInf s) = None"
| "dtrunc (DZero s) = Some 0"
| "dtrunc (DFin m e) =
     Some (if 0 \<le> e then m * pow2 e else sgn m * (\<bar>m\<bar> div pow2 (- e)))"

definition of_long :: "int \<Rightarrow> double" where
  "of_long n = dround False n 0"

fun dfloor :: "double \<Rightarrow> double" where
  "dfloor (DFin m e) = (if 0 \<le> e then DFin m e else dround (m < 0) (m div pow2 (- e)) 0)"
| "dfloor x = x"

definition c_int_of :: "nat \<Rightarrow> double \<Rightarrow> int" where
  "c_int_of w x = (case dtrunc x of
       None \<Rightarrow> - (2 ^ (w - 1))
     | Some i \<Rightarrow> if - (2 ^ (w - 1)) \<le> i \<and> i < 2 ^ (w - 1) then i else - (2 ^ (w - 1)))"

abbreviation c_long :: "double \<Rightarrow> int" where "c_long \<equiv> c_int_of 64"
abbreviation c_int :: "double \<Rightarrow> int" where "c_int \<equiv> c_int_of 32"

section \<open>Small integers are exact\<close>

lemma dnorm_0 [simp]: "dnorm 0 e = DZero False"
  by (simp add: dnorm.simps)

lemma dnorm_double: "dnorm (2 * m) e = dnorm m (e + 1)"
  by (cases "m = 0") (simp_all add: dnorm.simps [of "2 * m"])

lemma dnorm_shift: "dnorm (m * 2 ^ k) e = dnorm m (e + int k)"
proof (induction k arbitrary: e)
  case (Suc k)
  have "dnorm (m * 2 ^ Suc k) e = dnorm (2 * (m * 2 ^ k)) e" by (simp add: ac_simps)
  also have "\<dots> = dnorm m (e + int (Suc k))" by (simp add: dnorm_double Suc add.assoc)
  finally show ?case .
qed simp

lemma dnorm_cases:
  assumes "m \<noteq> 0"
  shows "\<exists>m' k. dnorm m e = DFin m' (e + int k) \<and> m = m' * 2 ^ k \<and> odd m'"
  using assms
proof (induction m e rule: dnorm.induct)
  case (1 m e)
  show ?case
  proof (cases "even m")
    case True
    with "1.prems" have "m div 2 \<noteq> 0" by auto
    with True "1.prems" "1.IH" obtain m' k where
      "dnorm (m div 2) (e + 1) = DFin m' (e + 1 + int k)" "m div 2 = m' * 2 ^ k" "odd m'"
      by blast
    moreover have "m = m' * 2 ^ Suc k" using True calculation(2) by auto
    moreover have "dnorm m e = dnorm (m div 2) (e + 1)"
      using True "1.prems" by (simp add: dnorm.simps [of m])
    ultimately have "dnorm m e = DFin m' (e + int (Suc k)) \<and> m = m' * 2 ^ Suc k \<and> odd m'"
      by (simp only: of_nat_Suc add.assoc) simp
    then show ?thesis by blast
  next
    case False
    with "1.prems" show ?thesis
      by (intro exI [of _ m] exI [of _ 0]) (simp add: dnorm.simps [of m])
  qed
qed

lemma dround_exact:
  assumes "\<bar>m\<bar> < 2 ^ 53" "- 1074 \<le> e" "e \<le> 971" "m \<noteq> 0"
  shows "dround neg m e = dnorm m e"
proof -
  have "nat \<bar>m\<bar> < 2 ^ 53" using assms(1) by (simp add: nat_less_iff)
  then have "nbits (nat \<bar>m\<bar>) \<le> 53" by (rule nbits_le)
  then show ?thesis using assms by (simp add: dround_def Let_def)
qed

lemma dround_0 [simp]: "dround neg 0 e = DZero neg"
  by (simp add: dround_def)

lemma of_long_0 [simp]: "of_long 0 = DZero False"
  by (simp add: of_long_def)

lemma of_long_eq: "\<bar>n\<bar> < 2 ^ 53 \<Longrightarrow> of_long n = dnorm n 0"
  by (cases "n = 0") (simp_all add: of_long_def dround_exact)

lemma of_long_DFin:
  assumes "\<bar>n\<bar> < 2 ^ 53" "n \<noteq> 0"
  obtains m k where "of_long n = DFin m (int k)" "n = m * 2 ^ k" "odd m"
  using dnorm_cases [OF assms(2), of 0] of_long_eq [OF assms(1)] by auto

lemma of_long_cases [consumes 1, case_names zero fin]:
  assumes n: "\<bar>n\<bar> < 2 ^ 53"
  obtains "n = 0" "of_long n = DZero False"
    | m k where "n \<noteq> 0" "of_long n = DFin m (int k)" "n = m * 2 ^ k" "odd m"
proof (cases "n = 0")
  case False
  with n obtain m k where "of_long n = DFin m (int k)" "n = m * 2 ^ k" "odd m"
    by (rule of_long_DFin)
  with False show ?thesis by (rule that(2))
qed (rule that(1), simp_all)

lemma dadd_0:
  assumes b: "\<bar>b\<bar> < 2 ^ 53"
  shows "dadd (DZero False) (of_long b) = of_long b" "dadd (of_long b) (DZero False) = of_long b"
proof -
  from b have "dadd (DZero False) (of_long b) = of_long b \<and> dadd (of_long b) (DZero False) = of_long b"
  proof (cases rule: of_long_cases)
    case zero
    then show ?thesis by simp
  next
    case (fin m k)
    show ?thesis by (simp add: fin(2))
  qed
  then show "dadd (DZero False) (of_long b) = of_long b" "dadd (of_long b) (DZero False) = of_long b"
    by simp_all
qed

lemma abs_less_pow2_mult: "\<bar>m * 2 ^ k\<bar> < (2 ^ 53 :: int) \<Longrightarrow> \<bar>m\<bar> < 2 ^ 53"
proof -
  have "\<bar>m\<bar> * 1 \<le> \<bar>m\<bar> * (2 ^ k :: int)" by (rule mult_left_mono) simp_all
  then show "\<bar>m * 2 ^ k\<bar> < (2 ^ 53 :: int) \<Longrightarrow> \<bar>m\<bar> < 2 ^ 53" by (simp add: abs_mult)
qed

lemma pow2_less_exp:
  assumes "m \<noteq> 0" "\<bar>m * 2 ^ k\<bar> < (2 ^ 53 :: int)"
  shows "k < 53"
proof (rule ccontr)
  assume "\<not> k < 53"
  then have "(2 ^ 53 :: int) \<le> 2 ^ k" by (intro power_increasing) auto
  moreover have "1 * 2 ^ k \<le> \<bar>m\<bar> * (2 ^ k :: int)" using assms(1) by (intro mult_right_mono) auto
  ultimately have "2 ^ 53 \<le> \<bar>m\<bar> * (2 ^ k :: int)" by linarith
  then show False using assms(2) by (simp add: abs_mult)
qed

lemma dround_shifted:
  assumes "M * 2 ^ k = n" "\<bar>n\<bar> < 2 ^ 53"
  shows "dround False M (int k) = of_long n"
proof (cases "M = 0")
  case True
  with assms show ?thesis by (simp add: dround_def)
next
  case False
  have "\<bar>M\<bar> < 2 ^ 53" using assms abs_less_pow2_mult by blast
  moreover have "k < 53" using False assms pow2_less_exp by blast
  ultimately have "dround False M (int k) = dnorm M (int k)"
    using False by (intro dround_exact) auto
  also have "\<dots> = dnorm n 0" using dnorm_shift [of M k 0] assms(1) by simp
  finally show ?thesis using assms(2) by (simp add: of_long_eq)
qed

lemma min_int: "min (int a) (int b) = int (min a b)"
  by (simp add: min_def)

lemma dadd_of_long:
  assumes a: "\<bar>a\<bar> < 2 ^ 53" and b: "\<bar>b\<bar> < 2 ^ 53" and s: "\<bar>a + b\<bar> < 2 ^ 53"
  shows "dadd (of_long a) (of_long b) = of_long (a + b)"
proof (cases "a = 0 \<or> b = 0")
  case True
  then show ?thesis
    using a b by (auto simp: dadd_0)
next
  case False
  then obtain ma ka mb kb where
      A: "of_long a = DFin ma (int ka)" "a = ma * 2 ^ ka"
    and B: "of_long b = DFin mb (int kb)" "b = mb * 2 ^ kb"
    using of_long_DFin [OF a] of_long_DFin [OF b] by metis
  let ?k = "min ka kb"
  let ?M = "ma * pow2 (int ka - int ?k) + mb * pow2 (int kb - int ?k)"
  have "pow2 (int ka - int ?k) * 2 ^ ?k = 2 ^ ka" "pow2 (int kb - int ?k) * 2 ^ ?k = 2 ^ kb"
    by (simp_all add: pow2_def power_add [symmetric] nat_diff_distrib')
  then have "?M * 2 ^ ?k = a + b"
    by (simp add: distrib_right mult.assoc A(2) B(2))
  then have "dround False ?M (int ?k) = of_long (a + b)" using s by (rule dround_shifted)
  then show ?thesis by (simp add: A(1) B(1) Let_def min_int)
qed

lemma dneg_of_long:
  assumes n: "\<bar>n\<bar> < 2 ^ 53" "n \<noteq> 0"
  shows "dneg (of_long n) = of_long (- n)"
proof -
  obtain m k where A: "of_long n = DFin m (int k)" "n = m * 2 ^ k" "odd m"
    using n by (rule of_long_DFin)
  have "of_long (- n) = dnorm (- m * 2 ^ k) 0" using n A(2) by (simp add: of_long_eq)
  also have "\<dots> = dnorm (- m) (int k)" using dnorm_shift [of "- m" k 0] by simp
  also have "\<dots> = DFin (- m) (int k)" using A(3) by (subst dnorm.simps) auto
  finally show ?thesis by (simp add: A(1))
qed

lemma dmul_of_long:
  assumes a: "\<bar>a\<bar> < 2 ^ 53" "a \<noteq> 0" and b: "\<bar>b\<bar> < 2 ^ 53" "b \<noteq> 0" and p: "\<bar>a * b\<bar> < 2 ^ 53"
  shows "dmul (of_long a) (of_long b) = of_long (a * b)"
proof -
  obtain ma ka where A: "of_long a = DFin ma (int ka)" "a = ma * 2 ^ ka"
    using a by (rule of_long_DFin)
  obtain mb kb where B: "of_long b = DFin mb (int kb)" "b = mb * 2 ^ kb"
    using b by (rule of_long_DFin)
  have "(ma * mb) * 2 ^ (ka + kb) = a * b" by (simp add: A(2) B(2) power_add)
  then have "dround False (ma * mb) (int (ka + kb)) = of_long (a * b)"
    using p by (rule dround_shifted)
  then show ?thesis by (simp add: A(1) B(1))
qed

lemma dsub_of_long:
  assumes "\<bar>a\<bar> < 2 ^ 53" "\<bar>b\<bar> < 2 ^ 53" "\<bar>a - b\<bar> < 2 ^ 53"
  shows "dsub (of_long a) (of_long b) = of_long (a - b)"
proof (cases "b = 0")
  case True
  from assms(1) have "dadd (of_long a) (DZero True) = of_long a"
    by (cases rule: of_long_cases) simp_all
  then show ?thesis by (simp add: dsub_def True)
next
  case False
  then show ?thesis using assms by (simp add: dsub_def dneg_of_long dadd_of_long)
qed

lemma dmul_0:
  assumes "\<bar>a\<bar> < 2 ^ 53" "\<bar>b\<bar> < 2 ^ 53" "a = 0 \<or> b = 0"
  shows "dmul (of_long a) (of_long b) = DZero ((a < 0) \<noteq> (b < 0))"
  using assms(1)
proof (cases rule: of_long_cases)
  case zero
  from assms(2) show ?thesis
    by (cases rule: of_long_cases) (simp_all add: zero mult_less_0_iff)
next
  case (fin m k)
  then show ?thesis using assms(3) by (simp add: mult_less_0_iff)
qed

lemma sgn_mult_pow2: "(0 < m * 2 ^ k) = (0 < (m::int))" "(m * 2 ^ k < 0) = ((m::int) < 0)"
  by (simp_all add: zero_less_mult_iff mult_less_0_iff)

lemma dlt_of_long:
  assumes a: "\<bar>a\<bar> < 2 ^ 53" and b: "\<bar>b\<bar> < 2 ^ 53"
  shows "dlt (of_long a) (of_long b) = (a < b)"
  using a
proof (cases rule: of_long_cases)
  case zero
  from b show ?thesis
  proof (cases rule: of_long_cases)
    case (fin m k)
    then show ?thesis using zero by (simp add: fin(2)) (simp add: fin(3) sgn_mult_pow2)
  qed (simp add: zero)
next
  case (fin ma ka)
  note A = fin
  from b show ?thesis
  proof (cases rule: of_long_cases)
    case zero
    then show ?thesis by (simp add: A(2)) (simp add: A(3) sgn_mult_pow2)
  next
    case (fin mb kb)
    let ?k = "min ka kb"
    have "pow2 (int ka - int ?k) * 2 ^ ?k = 2 ^ ka" "pow2 (int kb - int ?k) * 2 ^ ?k = 2 ^ kb"
      by (simp_all add: pow2_def power_add [symmetric] nat_diff_distrib')
    then have "(ma * pow2 (int ka - int ?k)) * 2 ^ ?k = a" "(mb * pow2 (int kb - int ?k)) * 2 ^ ?k = b"
      by (simp_all add: A(3) fin(3) mult.assoc)
    then have "(a < b) = (ma * pow2 (int ka - int ?k) < mb * pow2 (int kb - int ?k))"
      by (metis mult_less_cancel_right_pos zero_less_numeral zero_less_power)
    then show ?thesis by (simp add: A(2) fin(2) Let_def min_int)
  qed
qed

lemma dtrunc_of_long:
  assumes "\<bar>n\<bar> < 2 ^ 53"
  shows "dtrunc (of_long n) = Some n"
  using assms
proof (cases rule: of_long_cases)
  case (fin m k)
  show ?thesis by (simp add: fin(2) pow2_def) (simp add: fin(3))
qed simp

lemma deq_of_long:
  assumes a: "\<bar>a\<bar> < 2 ^ 53" and b: "\<bar>b\<bar> < 2 ^ 53"
  shows "deq (of_long a) (of_long b) = (a = b)"
  using a
proof (cases rule: of_long_cases)
  case zero
  from b show ?thesis
  proof (cases rule: of_long_cases)
    case (fin m k)
    then show ?thesis using zero by (simp add: fin(2))
  qed (simp add: zero)
next
  case (fin ma ka)
  note A = fin
  from b show ?thesis
  proof (cases rule: of_long_cases)
    case zero
    then show ?thesis using A(1) by (simp add: A(2))
  next
    case (fin mb kb)
    have "deq (of_long a) (of_long b) = (of_long a = of_long b)" by (simp add: A(2) fin(2))
    also have "\<dots> = (a = b)"
      by (metis dtrunc_of_long [OF a] dtrunc_of_long [OF b] option.inject)
    finally show ?thesis .
  qed
qed

lemma c_long_of_long:
  assumes "\<bar>n\<bar> < 2 ^ 53"
  shows "c_long (of_long n) = n"
  using assms by (simp add: c_int_of_def dtrunc_of_long abs_less_iff)

lemma c_int_range: "- (2 ^ (w - 1)) \<le> c_int_of w x \<and> c_int_of w x < 2 ^ (w - 1)"
  by (auto simp: c_int_of_def split: option.split)

end
