(* ===== verification/Lisp.thy ===== *)
theory Lisp
  imports Flonum
begin

text \<open>
  The Lisp object, the interpreter state and the effects of the C code (ulsiod.h, the globals at
  the head of slib.c).  A pointer is NIL or an index into the heap; a cell is its type tag with the
  members of the union the tag selects.  The heap is the allocated part of the current space, so
  the C pointer heap is its length and heap_end is heap_size.  A C function that may leave by
  longjmp is a function from the state to an outcome and the new state.
\<close>

section \<open>Objects\<close>

datatype siod_LISP = NIL | Ref nat

text \<open>
  The C functions that subr cells point to, by the type of the function pointer.  A function that the evaluator does
  not need for its own work is given by its name in the C code.
\<close>

datatype fn0 = F_get_eof_val | F_quit | C_fn0 string

datatype fn1 =
    F_car | F_cdr | F_ClosureP | F_lllabs | F_consp | F_symbolp | F_numberp | F_nullp | F_stringp
  | F_let_macro | F_letstar_macro | F_letrec_macro
  | F_reverse | F_nreverse | F_copy_list | F_last | F_butlast | F_llength
  | F_intern | F_closure_code | F_closure_env
  | F_caar | F_cadr | F_cdar | F_cddr | F_caaar | F_caadr | F_cadar | F_caddr
  | F_cdaar | F_cdadr | F_cddar | F_cdddr
  | F_llist | F_append | F_mapcar | C_fn1 string

datatype fn2 =
    F_cons | F_setcar | F_setcdr | F_plus | F_difference | F_ltimes | F_Quotient | F_IntQuotient
  | F_Remainder | F_lmin | F_lmax | F_greaterp | F_lessp | F_greaterEp | F_lessEp | F_eq | F_eql
  | F_assq | F_assv | F_memq | F_memv | F_delq | F_nth | F_nconc | F_append2 | F_make_list
  | F_symbol_boundp | F_symbol_value | F_lerr | F_envlookup | F_closure | F_lthrow
  | F_leval | F_lapply | F_mapcar1
  | F_leval_define | F_leval_lambda | F_leval_while | F_leval_set | F_leval_setq | F_leval_catch
  | F_leval_quote | F_leval_tenv | F_lwhile | F_leval_prog1 | C_fn2 string

datatype fn3 = F_setvar | F_mapcar2 | F_ass | C_fn3 string

datatype fn4 = C_fn4 string

datatype fn5 = C_fn5 string

datatype fnm = F_leval_if | F_leval_progn | F_leval_or | F_leval_and | F_leval_let | F_leval_cond

text \<open>A cell of a file holds its name and its FILE, which is an index into the streams; both are null in a closed one.\<close>

datatype obj =
    Tc_cons siod_LISP siod_LISP
  | Tc_flonum double
  | Tc_symbol string siod_LISP
  | Tc_subr_0 string fn0
  | Tc_subr_1 string fn1
  | Tc_subr_2 string fn2
  | Tc_subr_3 string fn3
  | Tc_subr_4 string fn4
  | Tc_subr_5 string fn5
  | Tc_subr_2n string fn2
  | Tc_lsubr string fn1
  | Tc_fsubr string fn2
  | Tc_msubr string fnm
  | Tc_closure siod_LISP siod_LISP
  | Tc_free_cell siod_LISP
  | Tc_string nat "char list"
  | Tc_double_array "double list"
  | Tc_long_array "int list"
  | Tc_lisp_array "siod_LISP list"
  | Tc_byte_array nat "char list"
  | Tc_c_file "string option" "nat option"

text \<open>The tags of ulsiod.h.\<close>

fun type_code :: "obj \<Rightarrow> nat" where
  "type_code (Tc_cons _ _) = 1"
| "type_code (Tc_flonum _) = 2"
| "type_code (Tc_symbol _ _) = 3"
| "type_code (Tc_subr_0 _ _) = 4"
| "type_code (Tc_subr_1 _ _) = 5"
| "type_code (Tc_subr_2 _ _) = 6"
| "type_code (Tc_subr_3 _ _) = 7"
| "type_code (Tc_lsubr _ _) = 8"
| "type_code (Tc_fsubr _ _) = 9"
| "type_code (Tc_msubr _ _) = 10"
| "type_code (Tc_closure _ _) = 11"
| "type_code (Tc_free_cell _) = 12"
| "type_code (Tc_string _ _) = 13"
| "type_code (Tc_double_array _) = 14"
| "type_code (Tc_long_array _) = 15"
| "type_code (Tc_lisp_array _) = 16"
| "type_code (Tc_c_file _ _) = 17"
| "type_code (Tc_byte_array _ _) = 18"
| "type_code (Tc_subr_4 _ _) = 19"
| "type_code (Tc_subr_5 _ _) = 20"
| "type_code (Tc_subr_2n _ _) = 21"

text \<open>The pointers a cell holds.\<close>

fun obj_refs :: "obj \<Rightarrow> siod_LISP list" where
  "obj_refs (Tc_cons a d) = [a, d]"
| "obj_refs (Tc_symbol p v) = [v]"
| "obj_refs (Tc_closure e c) = [e, c]"
| "obj_refs (Tc_free_cell n) = [n]"
| "obj_refs (Tc_lisp_array xs) = xs"
| "obj_refs _ = []"

section \<open>State\<close>

text \<open>
  A FILE of the C library: the path it was opened with, the position, the characters that were pushed back, and whether
  it reads, writes, writes at the end, and is open.
\<close>

record stream =
  st_path :: string
  st_pos :: nat
  st_back :: "char list"
  st_reads :: bool
  st_writes :: bool
  st_appends :: bool
  st_open :: bool

text \<open>
  The globals, the files (disk), what the system permits to open (may_open) and its message for what it does not
  (errno_text), and the streams, of which the first three are those of the standard input, output and errors.
  The last five are those of siod_repl_c_string, with the position in the output buffer that the
  struct siod_rcsp_puts keeps while a result is printed to it.
\<close>

record siod =
  cells :: "obj list"
  heap_size :: nat
  obarray_dim :: nat
  obarray :: "siod_LISP list"
  oblistvar :: siod_LISP
  inums :: "siod_LISP list"
  unbound_marker :: siod_LISP
  eof_val :: siod_LISP
  sym_t :: siod_LISP
  sym_errobj :: siod_LISP
  sym_catchall :: siod_LISP
  sym_progn :: siod_LISP
  sym_lambda :: siod_LISP
  sym_quote :: siod_LISP
  sym_dot :: siod_LISP
  sym_after_gc :: siod_LISP
  sym_eval_history_ptr :: siod_LISP
  catch_framep :: "siod_LISP list"
  errjmp_ok :: bool
  inside_err :: bool
  siod_verbose_level :: int
  console :: string
  disk :: "string \<Rightarrow> string option"
  may_open :: "string \<Rightarrow> string \<Rightarrow> bool"
  errno_text :: string
  streams :: "stream list"
  repl_c_string_arg :: "string option"
  repl_c_string_out :: "char list option"
  repl_c_string_flag :: bool
  repl_c_string_print_len :: int
  rcsp_pos :: nat

definition standard_streams :: "stream list" where
  "standard_streams = map (\<lambda>(p, r). \<lparr>st_path = p, st_pos = 0, st_back = [], st_reads = r, st_writes = \<not> r,
     st_appends = True, st_open = True\<rparr>) [(''stdin'', True), (''stdout'', False), (''stderr'', False)]"

definition obj_at :: "siod \<Rightarrow> siod_LISP \<Rightarrow> obj option" where
  "obj_at s r = (case r of NIL \<Rightarrow> None
                 | Ref a \<Rightarrow> if a < length (cells s) then Some (cells s ! a) else None)"

definition set_cell :: "nat \<Rightarrow> obj \<Rightarrow> siod \<Rightarrow> siod" where
  "set_cell a ob s = s\<lparr>cells := (cells s)[a := ob]\<rparr>"

definition TYPE_of :: "siod \<Rightarrow> siod_LISP \<Rightarrow> nat" where
  "TYPE_of s r = (case obj_at s r of None \<Rightarrow> 0 | Some ob \<Rightarrow> type_code ob)"

section \<open>Outcomes\<close>

text \<open>
  Ret is a return.  Jump k v is a longjmp to the catch frame that has k frames outside it, with v
  stored in its retval.  Errjmp k is a longjmp to the read-eval-print loop with code k (2 for quit).
  Undef is behaviour the C standard leaves undefined.  Nofuel is a computation that has not ended
  within the fuel it was given.
\<close>

datatype 'a outcome =
  Ret 'a | Jump nat siod_LISP | Errjmp nat | Fatal_exit | Undef | Nofuel

type_synonym 'a act = "siod \<Rightarrow> 'a outcome \<times> siod"

definition ret :: "'a \<Rightarrow> 'a act" where
  "ret a s = (Ret a, s)"

definition undef :: "'a act" where
  "undef s = (Undef, s)"

definition nofuel :: "'a act" where
  "nofuel s = (Nofuel, s)"

fun relay :: "'a outcome \<Rightarrow> 'b outcome" where
  "relay (Jump k v) = Jump k v"
| "relay (Errjmp k) = Errjmp k"
| "relay Fatal_exit = Fatal_exit"
| "relay Undef = Undef"
| "relay Nofuel = Nofuel"
| "relay (Ret a) = Undef"

definition bindM :: "'a act \<Rightarrow> ('a \<Rightarrow> 'b act) \<Rightarrow> 'b act" where
  "bindM m f s = (case m s of (r, s') \<Rightarrow> (case r of Ret a \<Rightarrow> f a s' | _ \<Rightarrow> (relay r, s')))"

definition gets :: "(siod \<Rightarrow> 'a) \<Rightarrow> 'a act" where
  "gets f s = (Ret (f s), s)"

definition modifyM :: "(siod \<Rightarrow> siod) \<Rightarrow> unit act" where
  "modifyM f s = (Ret (), f s)"

text \<open>
  Dereferencing: the tag of NIL is tc_nil, a dangling pointer is undefined behaviour.
\<close>

definition look :: "siod_LISP \<Rightarrow> obj option act" where
  "look r s = (case r of NIL \<Rightarrow> (Ret None, s)
               | Ref a \<Rightarrow> if a < length (cells s) then (Ret (Some (cells s ! a)), s) else (Undef, s))"

text \<open>Storing into a cell.\<close>

definition store :: "siod_LISP \<Rightarrow> obj \<Rightarrow> unit act" where
  "store r ob s = (case r of NIL \<Rightarrow> (Undef, s)
               | Ref a \<Rightarrow> if a < length (cells s) then (Ret (), set_cell a ob s) else (Undef, s))"

definition put_st :: "string \<Rightarrow> unit act" where
  "put_st st = modifyM (\<lambda>s. s\<lparr>console := console s @ st\<rparr>)"

lemma bindM_cong [cong]: "m = m' \<Longrightarrow> s = s' \<Longrightarrow> bindM m f s = bindM m' f s'"
  by simp

lemma bindM_assoc: "bindM (bindM m f) g = bindM m (\<lambda>a. bindM (f a) g)"
  by (rule ext) (simp add: bindM_def split: prod.split outcome.split)

lemma run_simps [heap_simps]:
  "ret a s = (Ret a, s)"
  "undef s = (Undef, s)"
  "nofuel s = (Nofuel, s)"
  "gets h s = (Ret (h s), s)"
  "modifyM g s = (Ret (), g s)"
  "look NIL s = (Ret None, s)"
  by (simp_all add: ret_def undef_def nofuel_def gets_def modifyM_def look_def)

lemma bindM_ret [simp]: "bindM (ret a) f = f a"
  by (rule ext) (simp add: bindM_def ret_def)

lemma bindM_Ret: "m s = (Ret a, s') \<Longrightarrow> bindM m f s = f a s'"
  by (simp add: bindM_def)

end
