(* ===== verification/Store.thy ===== *)
theory Store
  imports Lisp
begin

text \<open>
  Errors and cell allocation (slib.c): err with its search for a catch frame, newcell in the
  stop-and-copy mode, the constructors and selectors of conses, flonums, symbols, closures and
  strings.  In this mode newcell takes the next cell of the space and never collects; collection
  happens between two top-level evaluations.
\<close>

section \<open>Strings of objects\<close>

definition c_string_of :: "siod \<Rightarrow> siod_LISP \<Rightarrow> string option" where
  "c_string_of s r = (case obj_at s r of
       Some (Tc_symbol p v) \<Rightarrow> Some p
     | Some (Tc_string n buf) \<Rightarrow> Some (cstr buf)
     | _ \<Rightarrow> None)"

definition string_cell :: "char list \<Rightarrow> obj" where
  "string_cell str = Tc_string (length str) (str @ [NUL])"

section \<open>Allocation and errors\<close>

text \<open>Taking the next cell; none when the space is full.\<close>

definition alloc :: "obj \<Rightarrow> siod \<Rightarrow> (siod_LISP \<times> siod) option" where
  "alloc ob s = (if length (cells s) < heap_size s
                 then Some (Ref (length (cells s)), s\<lparr>cells := cells s @ [ob]\<rparr>) else None)"

text \<open>
  The innermost frame whose tag satisfies a predicate, as the number of frames outside it.
\<close>

fun catch_target :: "(siod_LISP \<Rightarrow> bool) \<Rightarrow> siod_LISP list \<Rightarrow> nat option" where
  "catch_target P [] = None"
| "catch_target P (t # ts) = (if P t then Some (length ts) else catch_target P ts)"

definition set_errobj :: "siod_LISP \<Rightarrow> siod \<Rightarrow> siod" where
  "set_errobj nx s = (case sym_errobj s of NIL \<Rightarrow> s
     | Ref a \<Rightarrow> (case obj_at s (Ref a) of Some (Tc_symbol p v) \<Rightarrow> set_cell a (Tc_symbol p nx) s
                | _ \<Rightarrow> s))"

definition err_print :: "string option \<Rightarrow> siod_LISP \<Rightarrow> siod \<Rightarrow> siod" where
  "err_print msg nx s =
     (case msg of None \<Rightarrow> s
      | Some m \<Rightarrow>
        if siod_verbose_level s < 1 then s
        else s\<lparr>console := console s @ ''ERROR: '' @ m @
          (if nx = NIL then [CHR 0x0A]
           else case c_string_of s nx of
               Some e \<Rightarrow> if length e < 80 then '' (errobj '' @ e @ '')'' @ [CHR 0x0A]
                         else '' (see errobj)'' @ [CHR 0x0A]
             | None \<Rightarrow> '' (see errobj)'' @ [CHR 0x0A])\<rparr>)"

text \<open>
  The value handed to the catch frame: the message as a string consed onto the object.  If the
  storage runs out while it is built, the nested error reports that and hands over NIL.
\<close>

definition err_retval :: "string \<Rightarrow> siod_LISP \<Rightarrow> siod \<Rightarrow> siod_LISP \<times> siod" where
  "err_retval msg nx s =
     (let nested = (\<lambda>s. (NIL, set_errobj NIL (err_print (Some ''ran out of storage'') NIL s)))
      in case alloc (string_cell msg) s of
           None \<Rightarrow> nested s
         | Some (str, s1) \<Rightarrow> (case alloc (Tc_cons str nx) s1 of
             None \<Rightarrow> nested s1
           | Some (p, s2) \<Rightarrow> (p, s2)))"

definition err_split :: "string option \<Rightarrow> siod_LISP \<Rightarrow> siod \<Rightarrow> string option \<times> siod_LISP \<times> siod_LISP" where
  "err_split message x s =
     (case message of Some m \<Rightarrow> (Some m, x, NIL)
      | None \<Rightarrow> (case obj_at s x of
          Some (Tc_cons a d) \<Rightarrow> (case obj_at s a of
              Some (Tc_string n buf) \<Rightarrow> (Some (cstr buf), d, x)
            | _ \<Rightarrow> (None, x, NIL))
        | _ \<Rightarrow> (None, x, NIL)))"

definition err :: "string option \<Rightarrow> siod_LISP \<Rightarrow> 'a act" where
  "err message x s =
     (let was_inside = inside_err s;
          (msg, nx, retval) = err_split message x s;
          s1 = err_print msg nx s
      in if errjmp_ok s1 then
           let s2 = set_errobj nx (s1\<lparr>inside_err := True\<rparr>)
           in case catch_target (\<lambda>t. t = sym_errobj s2 \<or> t = sym_catchall s2) (catch_framep s2) of
                Some k \<Rightarrow>
                  (let (v, s3) = (if retval \<noteq> NIL then (retval, s2)
                                  else if was_inside then (NIL, s2)
                                  else err_retval (case msg of None \<Rightarrow> ''siod_quit'' | Some m \<Rightarrow> m) nx s2)
                   in (Jump k v, s3\<lparr>inside_err := False\<rparr>))
              | None \<Rightarrow> (Errjmp (if msg = None then 2 else 1), s2\<lparr>inside_err := False\<rparr>)
         else (Fatal_exit, if siod_verbose_level s1 < 1 then s1
               else s1\<lparr>console := console s1 @
                 ''FATAL ERROR DURING STARTUP OR CRITICAL CODE SECTION'' @ [CHR 0x0A]\<rparr>))"

abbreviation errm :: "string \<Rightarrow> siod_LISP \<Rightarrow> 'a act" where
  "errm m x \<equiv> err (Some m) x"

definition newcell :: "obj \<Rightarrow> siod_LISP act" where
  "newcell ob s = (case alloc ob s of Some (r, s') \<Rightarrow> (Ret r, s')
                   | None \<Rightarrow> errm ''ran out of storage'' NIL s)"

definition siod_quit :: "siod_LISP act" where
  "siod_quit = err None NIL"

definition get_c_string :: "siod_LISP \<Rightarrow> string act" where
  "get_c_string x = bindM (look x) (\<lambda>ob. case ob of
       Some (Tc_symbol p v) \<Rightarrow> ret p
     | Some (Tc_string n buf) \<Rightarrow> ret (cstr buf)
     | _ \<Rightarrow> errm ''not a symbol or string'' x)"

definition siod_lerr :: "siod_LISP \<Rightarrow> siod_LISP \<Rightarrow> siod_LISP act" where
  "siod_lerr message x = bindM (gets (\<lambda>s. case obj_at s message of
         Some (Tc_cons a d) \<Rightarrow> (case obj_at s a of Some (Tc_string n buf) \<Rightarrow> True | _ \<Rightarrow> False)
       | _ \<Rightarrow> False)) (\<lambda>b.
     if b then err None message
     else bindM (get_c_string message) (\<lambda>m. errm m x))"

section \<open>Conses\<close>

definition siod_cons :: "siod_LISP \<Rightarrow> siod_LISP \<Rightarrow> siod_LISP act" where
  "siod_cons x y = newcell (Tc_cons x y)"

definition siod_consp :: "siod_LISP \<Rightarrow> siod_LISP act" where
  "siod_consp x = bindM (look x) (\<lambda>ob. case ob of
       Some (Tc_cons a d) \<Rightarrow> gets sym_t | _ \<Rightarrow> ret NIL)"

definition siod_car :: "siod_LISP \<Rightarrow> siod_LISP act" where
  "siod_car x = bindM (look x) (\<lambda>ob. case ob of
       None \<Rightarrow> ret NIL
     | Some (Tc_cons a d) \<Rightarrow> ret a
     | _ \<Rightarrow> errm ''wta to car'' x)"

definition siod_cdr :: "siod_LISP \<Rightarrow> siod_LISP act" where
  "siod_cdr x = bindM (look x) (\<lambda>ob. case ob of
       None \<Rightarrow> ret NIL
     | Some (Tc_cons a d) \<Rightarrow> ret d
     | _ \<Rightarrow> errm ''wta to cdr'' x)"

definition siod_setcar :: "siod_LISP \<Rightarrow> siod_LISP \<Rightarrow> siod_LISP act" where
  "siod_setcar cell v = bindM (look cell) (\<lambda>ob. case ob of
       Some (Tc_cons a d) \<Rightarrow> bindM (store cell (Tc_cons v d)) (\<lambda>_. ret v)
     | _ \<Rightarrow> errm ''wta to siod_setcar'' cell)"

definition siod_setcdr :: "siod_LISP \<Rightarrow> siod_LISP \<Rightarrow> siod_LISP act" where
  "siod_setcdr cell v = bindM (look cell) (\<lambda>ob. case ob of
       Some (Tc_cons a d) \<Rightarrow> bindM (store cell (Tc_cons a v)) (\<lambda>_. ret v)
     | _ \<Rightarrow> errm ''wta to siod_setcdr'' cell)"

text \<open>The macros CAR and CDR do not check the tag; on another type they read a different member.\<close>

definition CAR :: "siod_LISP \<Rightarrow> siod_LISP act" where
  "CAR x = bindM (look x) (\<lambda>ob. case ob of Some (Tc_cons a d) \<Rightarrow> ret a | _ \<Rightarrow> undef)"

definition CDR :: "siod_LISP \<Rightarrow> siod_LISP act" where
  "CDR x = bindM (look x) (\<lambda>ob. case ob of Some (Tc_cons a d) \<Rightarrow> ret d | _ \<Rightarrow> undef)"

definition SET_CDR :: "siod_LISP \<Rightarrow> siod_LISP \<Rightarrow> unit act" where
  "SET_CDR x v = bindM (look x) (\<lambda>ob. case ob of
       Some (Tc_cons a d) \<Rightarrow> store x (Tc_cons a v) | _ \<Rightarrow> undef)"

definition SET_CAR :: "siod_LISP \<Rightarrow> siod_LISP \<Rightarrow> unit act" where
  "SET_CAR x v = bindM (look x) (\<lambda>ob. case ob of
       Some (Tc_cons a d) \<Rightarrow> store x (Tc_cons v d) | _ \<Rightarrow> undef)"

definition siod_caar :: "siod_LISP \<Rightarrow> siod_LISP act" where
  "siod_caar x = bindM (siod_car x) siod_car"

definition siod_cadr :: "siod_LISP \<Rightarrow> siod_LISP act" where
  "siod_cadr x = bindM (siod_cdr x) siod_car"

definition siod_cdar :: "siod_LISP \<Rightarrow> siod_LISP act" where
  "siod_cdar x = bindM (siod_car x) siod_cdr"

definition siod_cddr :: "siod_LISP \<Rightarrow> siod_LISP act" where
  "siod_cddr x = bindM (siod_cdr x) siod_cdr"

definition siod_caaar :: "siod_LISP \<Rightarrow> siod_LISP act" where
  "siod_caaar x = bindM (siod_car x) (\<lambda>y. bindM (siod_car y) siod_car)"

definition siod_caadr :: "siod_LISP \<Rightarrow> siod_LISP act" where
  "siod_caadr x = bindM (siod_cdr x) (\<lambda>y. bindM (siod_car y) siod_car)"

definition siod_cadar :: "siod_LISP \<Rightarrow> siod_LISP act" where
  "siod_cadar x = bindM (siod_car x) (\<lambda>y. bindM (siod_cdr y) siod_car)"

definition siod_caddr :: "siod_LISP \<Rightarrow> siod_LISP act" where
  "siod_caddr x = bindM (siod_cdr x) (\<lambda>y. bindM (siod_cdr y) siod_car)"

definition siod_cdaar :: "siod_LISP \<Rightarrow> siod_LISP act" where
  "siod_cdaar x = bindM (siod_car x) (\<lambda>y. bindM (siod_car y) siod_cdr)"

definition siod_cdadr :: "siod_LISP \<Rightarrow> siod_LISP act" where
  "siod_cdadr x = bindM (siod_cdr x) (\<lambda>y. bindM (siod_car y) siod_cdr)"

definition siod_cddar :: "siod_LISP \<Rightarrow> siod_LISP act" where
  "siod_cddar x = bindM (siod_car x) (\<lambda>y. bindM (siod_cdr y) siod_cdr)"

definition siod_cdddr :: "siod_LISP \<Rightarrow> siod_LISP act" where
  "siod_cdddr x = bindM (siod_cdr x) (\<lambda>y. bindM (siod_cdr y) siod_cdr)"

section \<open>Other cells\<close>

definition siod_flocons :: "double \<Rightarrow> siod_LISP act" where
  "siod_flocons x = bindM (gets inums) (\<lambda>nums.
     let n = c_long x
     in if 0 < length nums \<and> deq (dsub x (of_long n)) (DZero False) \<and> dle (DZero False) x
           \<and> n < int (length nums)
        then ret (nums ! nat n) else newcell (Tc_flonum x))"

definition siod_symcons :: "string \<Rightarrow> siod_LISP \<Rightarrow> siod_LISP act" where
  "siod_symcons pname vcell = newcell (Tc_symbol pname vcell)"

definition siod_closure :: "siod_LISP \<Rightarrow> siod_LISP \<Rightarrow> siod_LISP act" where
  "siod_closure env code = newcell (Tc_closure env code)"

text \<open>These two selectors do not check that their argument is a closure.\<close>

definition siod_closure_code :: "siod_LISP \<Rightarrow> siod_LISP act" where
  "siod_closure_code x = bindM (look x) (\<lambda>ob. case ob of
       Some (Tc_closure e c) \<Rightarrow> ret c | _ \<Rightarrow> undef)"

definition siod_closure_env :: "siod_LISP \<Rightarrow> siod_LISP act" where
  "siod_closure_env x = bindM (look x) (\<lambda>ob. case ob of
       Some (Tc_closure e c) \<Rightarrow> ret e | _ \<Rightarrow> undef)"

definition siod_strcons :: "char list \<Rightarrow> siod_LISP act" where
  "siod_strcons str = newcell (string_cell str)"

definition truth :: "(obj option \<Rightarrow> bool) \<Rightarrow> siod_LISP \<Rightarrow> siod_LISP act" where
  "truth P x = bindM (look x) (\<lambda>ob. if P ob then gets sym_t else ret NIL)"

definition siod_ClosureP :: "siod_LISP \<Rightarrow> siod_LISP act" where
  "siod_ClosureP = truth (\<lambda>ob. case ob of Some (Tc_closure e c) \<Rightarrow> True | _ \<Rightarrow> False)"

definition siod_symbolp :: "siod_LISP \<Rightarrow> siod_LISP act" where
  "siod_symbolp = truth (\<lambda>ob. case ob of Some (Tc_symbol p v) \<Rightarrow> True | _ \<Rightarrow> False)"

definition siod_numberp :: "siod_LISP \<Rightarrow> siod_LISP act" where
  "siod_numberp = truth (\<lambda>ob. case ob of Some (Tc_flonum x) \<Rightarrow> True | _ \<Rightarrow> False)"

definition siod_stringp :: "siod_LISP \<Rightarrow> siod_LISP act" where
  "siod_stringp = truth (\<lambda>ob. case ob of Some (Tc_string n b) \<Rightarrow> True | _ \<Rightarrow> False)"

definition siod_nullp :: "siod_LISP \<Rightarrow> siod_LISP act" where
  "siod_nullp x = (if x = NIL then gets sym_t else ret NIL)"

definition siod_get_eof_val :: "siod_LISP act" where
  "siod_get_eof_val = gets eof_val"

end
