(* ===== verification/Wellformed.thy ===== *)
theory Wellformed
  imports Store
begin

text \<open>
  The well-formedness invariant of the interpreter state and the judgement that an operation keeps
  it: no cell and no global holds a dangling pointer, the distinguished symbols are symbols, and
  the preallocated small integers are what they should be.  Cells are never deallocated between
  two collections and never change their tag, the name of a symbol or the value of a number.
\<close>

section \<open>The invariant\<close>

definition ref_ok :: "siod \<Rightarrow> siod_LISP \<Rightarrow> bool" where
  "ref_ok s r = (case r of NIL \<Rightarrow> True | Ref a \<Rightarrow> a < length (cells s))"

definition constants :: "siod \<Rightarrow> siod_LISP list" where
  "constants s = [unbound_marker s, eof_val s, sym_t s, sym_errobj s, sym_catchall s, sym_progn s,
     sym_lambda s, sym_quote s, sym_dot s, sym_after_gc s, sym_eval_history_ptr s]"

definition globals :: "siod \<Rightarrow> siod_LISP list" where
  "globals s = constants s @ inums s @ obarray s @ oblistvar s # catch_framep s"

definition symbol_at :: "siod \<Rightarrow> siod_LISP \<Rightarrow> bool" where
  "symbol_at s r = (case obj_at s r of Some (Tc_symbol p v) \<Rightarrow> True | _ \<Rightarrow> False)"

definition refs_ok :: "siod \<Rightarrow> bool" where
  "refs_ok s = ((\<forall>ob\<in>set (cells s). list_all (ref_ok s) (obj_refs ob)) \<and>
                list_all (ref_ok s) (globals s))"

definition inums_ok :: "siod \<Rightarrow> bool" where
  "inums_ok s = (\<forall>i<length (inums s). obj_at s (inums s ! i) = Some (Tc_flonum (of_long (int i))))"

definition obarray_ok :: "siod \<Rightarrow> bool" where
  "obarray_ok s = (if 1 < obarray_dim s then length (obarray s) = obarray_dim s else True)"

definition wf_state :: "siod \<Rightarrow> bool" where
  "wf_state s = (refs_ok s \<and> inums_ok s \<and> obarray_ok s \<and>
           list_all (symbol_at s) [sym_errobj s, sym_t s, sym_eval_history_ptr s])"

text \<open>What no operation changes: the part of a cell that is fixed when it is allocated.\<close>

fun shape :: "obj \<Rightarrow> obj" where
  "shape (Tc_cons a d) = Tc_cons NIL NIL"
| "shape (Tc_symbol p v) = Tc_symbol p NIL"
| "shape (Tc_closure e c) = Tc_closure NIL NIL"
| "shape (Tc_free_cell n) = Tc_free_cell NIL"
| "shape (Tc_string n b) = Tc_string 0 []"
| "shape (Tc_double_array xs) = Tc_double_array []"
| "shape (Tc_long_array xs) = Tc_long_array []"
| "shape (Tc_lisp_array xs) = Tc_lisp_array []"
| "shape (Tc_byte_array n b) = Tc_byte_array 0 []"
| "shape (Tc_c_file n f) = Tc_c_file None None"
| "shape ob = ob"

text \<open>The globals of the read-eval-print loop, which only that loop sets.\<close>

definition top_level :: "siod \<Rightarrow> string option \<times> char list option \<times> bool \<times> int \<times> nat \<times> bool" where
  "top_level s = (repl_c_string_arg s, repl_c_string_out s, repl_c_string_flag s, repl_c_string_print_len s,
     rcsp_pos s, errjmp_ok s)"

definition later :: "siod \<Rightarrow> siod \<Rightarrow> bool" where
  "later s s' = (take (length (cells s)) (map shape (cells s')) = map shape (cells s) \<and>
                 constants s' = constants s \<and> inums s' = inums s \<and>
                 heap_size s' = heap_size s \<and> obarray_dim s' = obarray_dim s \<and>
                 length (obarray s') = length (obarray s) \<and> top_level s' = top_level s)"

section \<open>The order of states\<close>

lemma later_refl [simp]: "later s s"
  by (simp add: later_def)

lemma later_length: "later s s' \<Longrightarrow> length (cells s) \<le> length (cells s')"
  unfolding later_def by (metis length_map length_take min.cobounded1)

lemma later_nth:
  assumes "later s s'" "a < length (cells s)"
  shows "shape (cells s' ! a) = shape (cells s ! a)"
proof -
  have "a < length (cells s')" using assms later_length by (meson le_trans not_le)
  moreover have "take (length (cells s)) (map shape (cells s')) ! a = map shape (cells s) ! a"
    using assms(1) by (simp add: later_def)
  ultimately show ?thesis using assms(2) by simp
qed

lemma laterI:
  assumes "length (cells s) \<le> length (cells s')"
    and "\<And>a. a < length (cells s) \<Longrightarrow> shape (cells s' ! a) = shape (cells s ! a)"
    and "constants s' = constants s" "inums s' = inums s" "heap_size s' = heap_size s"
    and "obarray_dim s' = obarray_dim s" "length (obarray s') = length (obarray s)" "top_level s' = top_level s"
  shows "later s s'"
proof -
  have "take (length (cells s)) (map shape (cells s')) = map shape (cells s)"
    using assms(1,2) by (intro nth_equalityI) simp_all
  then show ?thesis using assms by (simp add: later_def)
qed

lemma later_trans [trans]:
  assumes "later s1 s2" "later s2 s3" shows "later s1 s3"
proof (rule laterI)
  show "length (cells s1) \<le> length (cells s3)"
    using assms later_length le_trans by blast
  fix a assume "a < length (cells s1)"
  moreover from this have "a < length (cells s2)" using assms(1) later_length by (meson le_trans not_le)
  ultimately show "shape (cells s3 ! a) = shape (cells s1 ! a)"
    using assms later_nth by metis
qed (use assms in \<open>simp_all add: later_def\<close>)

lemma ref_ok_later: "later s s' \<Longrightarrow> ref_ok s r \<Longrightarrow> ref_ok s' r"
  by (auto simp: ref_ok_def split: siod_LISP.splits dest: later_length)

lemma shape_symbol [simp]: "shape ob = Tc_symbol p v \<longleftrightarrow> (\<exists>w. ob = Tc_symbol p w \<and> v = NIL)"
  by (cases ob) auto

lemma shape_flonum [simp]: "shape ob = Tc_flonum x \<longleftrightarrow> ob = Tc_flonum x"
  by (cases ob) auto

lemma obj_at_shape:
  assumes "later s s'" "obj_at s r = Some ob"
  shows "\<exists>ob'. obj_at s' r = Some ob' \<and> shape ob' = shape ob"
  using assms later_length [OF assms(1)] later_nth [OF assms(1)]
  by (auto simp: obj_at_def split: siod_LISP.splits if_splits)

lemma symbol_at_later: "later s s' \<Longrightarrow> symbol_at s r \<Longrightarrow> symbol_at s' r"
  using obj_at_shape [of s s' r] by (force simp: symbol_at_def split: option.splits obj.splits)

lemma inums_ok_later: "later s s' \<Longrightarrow> inums_ok s \<Longrightarrow> inums_ok s'"
  using obj_at_shape [of s s'] by (fastforce simp: inums_ok_def later_def)

lemma obarray_ok_later: "later s s' \<Longrightarrow> obarray_ok s \<Longrightarrow> obarray_ok s'"
  by (simp add: obarray_ok_def later_def)

lemma constants_eq:
  "constants s' = constants s \<longleftrightarrow>
   unbound_marker s' = unbound_marker s \<and> eof_val s' = eof_val s \<and> sym_t s' = sym_t s \<and>
   sym_errobj s' = sym_errobj s \<and> sym_catchall s' = sym_catchall s \<and> sym_progn s' = sym_progn s \<and>
   sym_lambda s' = sym_lambda s \<and> sym_quote s' = sym_quote s \<and> sym_dot s' = sym_dot s \<and>
   sym_after_gc s' = sym_after_gc s \<and> sym_eval_history_ptr s' = sym_eval_history_ptr s"
  by (simp add: constants_def)

lemma wf_later:
  assumes "wf_state s" "later s s'" "refs_ok s'" shows "wf_state s'"
proof -
  have "sym_errobj s' = sym_errobj s" "sym_t s' = sym_t s"
       "sym_eval_history_ptr s' = sym_eval_history_ptr s"
    using assms(2) by (simp_all add: later_def constants_def)
  with assms show ?thesis
    by (auto simp: wf_state_def intro: inums_ok_later symbol_at_later obarray_ok_later)
qed

section \<open>Operations that keep the invariant\<close>

text \<open>
  okM s m Q: run from a well-formed state s, the operation m ends in a later well-formed state.
  If it returns, the value satisfies Q and the stack of catch frames is as before; if it throws, the
  value is a valid pointer and the frame it jumps to is one that was there before.
\<close>

definition okM :: "siod \<Rightarrow> 'a act \<Rightarrow> ('a \<Rightarrow> siod \<Rightarrow> bool) \<Rightarrow> bool" where
  "okM s m Q = (wf_state s \<longrightarrow> (case m s of (r, s') \<Rightarrow> wf_state s' \<and> later s s' \<and>
     (case r of Ret a \<Rightarrow> Q a s' \<and> catch_framep s' = catch_framep s
      | Jump k v \<Rightarrow> ref_ok s' v \<and> k < length (catch_framep s) | _ \<Rightarrow> True)))"

abbreviation okR :: "siod \<Rightarrow> siod_LISP act \<Rightarrow> bool" where
  "okR s m \<equiv> okM s m (\<lambda>v s'. ref_ok s' v)"

abbreviation okU :: "siod \<Rightarrow> 'a act \<Rightarrow> bool" where
  "okU s m \<equiv> okM s m (\<lambda>_ _. True)"

lemma okM_bind:
  assumes "okM s m Q"
    and "\<And>a s'. wf_state s' \<Longrightarrow> later s s' \<Longrightarrow> Q a s' \<Longrightarrow> okM s' (f a) R"
  shows "okM s (bindM m f) R"
proof -
  have "okM s (bindM m f) R" if w: "wf_state s"
  proof -
    obtain r s1 where m: "m s = (r, s1)" by fastforce
    with w assms(1) have 1: "wf_state s1" "later s s1"
      and 2: "case r of Ret a \<Rightarrow> Q a s1 \<and> catch_framep s1 = catch_framep s
        | Jump k v \<Rightarrow> ref_ok s1 v \<and> k < length (catch_framep s) | _ \<Rightarrow> True"
      by (auto simp: okM_def)
    show ?thesis
    proof (cases r)
      case (Ret a)
      obtain r2 s2 where f: "f a s1 = (r2, s2)" by fastforce
      have "okM s1 (f a) R" using assms(2) 1 2 Ret by simp
      with 1 f have "wf_state s2" "later s s2"
        "case r2 of Ret a \<Rightarrow> R a s2 \<and> catch_framep s2 = catch_framep s
          | Jump k v \<Rightarrow> ref_ok s2 v \<and> k < length (catch_framep s) | _ \<Rightarrow> True"
        using 2 Ret by (auto split: outcome.splits simp: okM_def intro: later_trans)
      then show ?thesis by (simp add: okM_def bindM_def m f Ret)
    qed (use 1 2 in \<open>simp_all add: okM_def bindM_def m\<close>)
  qed
  then show ?thesis by (auto simp: okM_def)
qed

lemma okR_bind:
  assumes "okR s m" and "\<And>a s'. wf_state s' \<Longrightarrow> later s s' \<Longrightarrow> ref_ok s' a \<Longrightarrow> okM s' (f a) R"
  shows "okM s (bindM m f) R"
  using assms by (rule okM_bind)

lemma okU_bind:
  assumes "okU s m" and "\<And>a s'. wf_state s' \<Longrightarrow> later s s' \<Longrightarrow> okM s' (f a) R"
  shows "okM s (bindM m f) R"
  using assms(1) by (rule okM_bind) (rule assms(2))

lemma okM_wf: "(wf_state s \<Longrightarrow> okM s m Q) \<Longrightarrow> okM s m Q"
  by (auto simp: okM_def)

lemma okM_weaken: "okM s m Q \<Longrightarrow> (\<And>a s'. later s s' \<Longrightarrow> Q a s' \<Longrightarrow> R a s') \<Longrightarrow> okM s m R"
  by (auto simp: okM_def split: prod.splits outcome.splits)

lemma okM_ret [sound_rules]: "(wf_state s \<Longrightarrow> Q a s) \<Longrightarrow> okM s (ret a) Q"
  by (auto simp: okM_def ret_def)

lemma okM_stop [sound_rules]: "okM s undef Q" "okM s nofuel Q"
  by (simp_all add: okM_def undef_def nofuel_def)

lemma okM_gets [sound_rules]: "(wf_state s \<Longrightarrow> Q (f s) s) \<Longrightarrow> okM s (gets f) Q"
  by (auto simp: okM_def gets_def)

lemma okM_if [sound_rules]: "(b \<Longrightarrow> okM s m Q) \<Longrightarrow> (\<not> b \<Longrightarrow> okM s n Q) \<Longrightarrow> okM s (if b then m else n) Q"
  by simp

section \<open>Cells\<close>

lemma ref_ok_NIL [simp]: "ref_ok s NIL"
  by (simp add: ref_ok_def)

lemma ref_ok_cells: "ref_ok s r \<Longrightarrow> length (cells s) \<le> length (cells s') \<Longrightarrow> ref_ok s' r"
  by (auto simp: ref_ok_def split: siod_LISP.splits)

lemma wf_obj_at: "wf_state s \<Longrightarrow> obj_at s r = Some ob \<Longrightarrow> list_all (ref_ok s) (obj_refs ob)"
  by (auto simp: wf_state_def refs_ok_def obj_at_def split: siod_LISP.splits if_splits)

lemma wf_globals: "wf_state s \<Longrightarrow> r \<in> set (globals s) \<Longrightarrow> ref_ok s r"
  by (auto simp: wf_state_def refs_ok_def list_all_iff)

lemma wf_global_refs:
  assumes "wf_state s"
  shows "ref_ok s (unbound_marker s)" "ref_ok s (eof_val s)" "ref_ok s (sym_t s)"
    "ref_ok s (sym_errobj s)" "ref_ok s (sym_catchall s)" "ref_ok s (sym_progn s)"
    "ref_ok s (sym_lambda s)" "ref_ok s (sym_quote s)" "ref_ok s (sym_dot s)"
    "ref_ok s (sym_after_gc s)" "ref_ok s (sym_eval_history_ptr s)" "ref_ok s (oblistvar s)"
  using assms by (auto intro!: wf_globals simp: globals_def constants_def)

lemma look_eq: "ref_ok s r \<Longrightarrow> look r s = (Ret (obj_at s r), s)"
  by (auto simp: look_def obj_at_def ref_ok_def split: siod_LISP.splits)

lemma look_cases: "look r s = (if ref_ok s r then (Ret (obj_at s r), s) else (Undef, s))"
  by (auto simp: look_def obj_at_def ref_ok_def split: siod_LISP.splits)

lemma okM_look:
  assumes "\<And>ob. wf_state s \<Longrightarrow> ref_ok s r \<Longrightarrow> obj_at s r = ob \<Longrightarrow>
             (\<And>x. ob = Some x \<Longrightarrow> list_all (ref_ok s) (obj_refs x)) \<Longrightarrow> okM s (f ob) Q"
  shows "okM s (bindM (look r) f) Q"
proof (rule okM_wf)
  assume w: "wf_state s"
  show ?thesis
  proof (cases "ref_ok s r")
    case True
    have "okM s (f (obj_at s r)) Q" using w True by (intro assms) (auto intro: wf_obj_at)
    with True show ?thesis by (simp add: okM_def bindM_def look_eq)
  next
    case False
    then show ?thesis by (simp add: okM_def bindM_def look_cases)
  qed
qed

lemma okM_bind_gets: "(wf_state s \<Longrightarrow> okM s (f (g s)) Q) \<Longrightarrow> okM s (bindM (gets g) f) Q"
  by (auto simp: okM_def bindM_def gets_def)

lemma refs_ok_set_cell:
  assumes "refs_ok s" "list_all (ref_ok s) (obj_refs ob)"
  shows "refs_ok (set_cell a ob s)"
proof -
  have r: "ref_ok (set_cell a ob s) = ref_ok s"
    by (rule ext) (auto simp: set_cell_def ref_ok_def split: siod_LISP.splits)
  have g: "globals (set_cell a ob s) = globals s"
    by (simp add: set_cell_def globals_def constants_def)
  show ?thesis
    using assms set_update_subset_insert [of "cells s" a ob]
    unfolding refs_ok_def r g by (auto simp: set_cell_def)
qed

lemma later_set_cell:
  assumes "a < length (cells s) \<Longrightarrow> shape ob = shape (cells s ! a)"
  shows "later s (set_cell a ob s)"
proof (rule laterI)
  fix i assume "i < length (cells s)"
  with assms show "shape (cells (set_cell a ob s) ! i) = shape (cells s ! i)"
    by (cases "i = a") (simp_all add: set_cell_def)
qed (simp_all add: set_cell_def constants_def top_level_def)

lemma wf_set_cell:
  assumes "wf_state s" "list_all (ref_ok s) (obj_refs ob)" "a < length (cells s) \<Longrightarrow> shape ob = shape (cells s ! a)"
  shows "wf_state (set_cell a ob s)"
  using assms by (intro wf_later [OF assms(1) later_set_cell] refs_ok_set_cell) (auto simp: wf_state_def)

lemma store_cell:
  assumes "obj_at s r = Some ob0"
  shows "\<exists>a. r = Ref a \<and> a < length (cells s) \<and> cells s ! a = ob0 \<and> store r ob s = (Ret (), set_cell a ob s)"
  using assms by (auto simp: obj_at_def store_def split: siod_LISP.splits if_splits)

text \<open>The stack of catch frames.\<close>

lemma catch_framep_same [simp]:
  "catch_framep (set_cell a ob s) = catch_framep s"
  "catch_framep (err_print m nx s) = catch_framep s"
  "catch_framep (set_errobj nx s) = catch_framep s"
  by (simp_all add: set_cell_def err_print_def set_errobj_def split: option.split siod_LISP.split obj.split)

lemma catch_framep_alloc: "alloc ob s = Some (r, s') \<Longrightarrow> catch_framep s' = catch_framep s"
  by (auto simp: alloc_def split: if_splits)

lemma catch_target_less: "catch_target P ts = Some k \<Longrightarrow> k < length ts"
  by (induction ts) (auto split: if_splits intro: less_SucI)

lemma okM_store:
  assumes "obj_at s r = Some ob0" "shape ob = shape ob0" "list_all (ref_ok s) (obj_refs ob)"
    and "\<And>s'. wf_state s' \<Longrightarrow> later s s' \<Longrightarrow> Q () s'"
  shows "okM s (store r ob) Q"
proof -
  obtain a where a: "r = Ref a" "a < length (cells s)" "cells s ! a = ob0"
    "store r ob s = (Ret (), set_cell a ob s)"
    using store_cell [OF assms(1)] by blast
  show ?thesis
    using assms(2-4) a by (auto simp: okM_def intro!: wf_set_cell later_set_cell)
qed

lemma alloc_props:
  assumes "wf_state s" "list_all (ref_ok s) (obj_refs ob)" "alloc ob s = Some (r, s')"
  shows "wf_state s' \<and> later s s' \<and> ref_ok s' r \<and> r \<noteq> NIL \<and> obj_at s' r = Some ob"
proof -
  have s': "s' = s\<lparr>cells := cells s @ [ob]\<rparr>" and r: "r = Ref (length (cells s))"
    using assms(3) by (auto simp: alloc_def split: if_splits)
  have l: "later s s'"
    by (rule laterI) (auto simp: s' nth_append constants_def top_level_def)
  have "ref_ok s' x" if "ref_ok s x" for x using l that by (rule ref_ok_later)
  moreover have "globals s' = globals s" by (simp add: s' globals_def constants_def)
  ultimately have "refs_ok s'"
    using assms(1,2) by (auto simp: wf_state_def refs_ok_def list_all_iff s')
  with assms(1) l have "wf_state s'" by (rule wf_later)
  with l show ?thesis by (simp add: r s' ref_ok_def obj_at_def)
qed

lemma symbol_slot:
  "symbol_at s r \<Longrightarrow> \<exists>a p v. r = Ref a \<and> a < length (cells s) \<and> cells s ! a = Tc_symbol p v"
  by (auto simp: symbol_at_def obj_at_def split: siod_LISP.splits if_splits obj.splits)

lemma set_errobj_props:
  assumes "wf_state s" "ref_ok s nx"
  shows "wf_state (set_errobj nx s) \<and> later s (set_errobj nx s)"
proof -
  have "symbol_at s (sym_errobj s)" using assms(1) by (simp add: wf_state_def)
  then obtain a p v where "sym_errobj s = Ref a" "a < length (cells s)" "cells s ! a = Tc_symbol p v"
    using symbol_slot by blast
  then show ?thesis
    using assms by (auto simp: set_errobj_def obj_at_def intro!: wf_set_cell later_set_cell)
qed

text \<open>Fields that hold no pointer do not matter.\<close>

lemma wf_frame:
  assumes "cells s' = cells s" "globals s' = globals s" "constants s' = constants s"
    "inums s' = inums s" "heap_size s' = heap_size s" "obarray_dim s' = obarray_dim s"
    "length (obarray s') = length (obarray s)"
  shows "wf_state s' = wf_state s" "top_level s' = top_level s \<Longrightarrow> later s s'"
proof -
  have r: "ref_ok s' = ref_ok s" by (rule ext) (simp add: ref_ok_def assms split: siod_LISP.split)
  have o: "obj_at s' = obj_at s" by (rule ext) (simp add: obj_at_def assms split: siod_LISP.split)
  show "top_level s' = top_level s \<Longrightarrow> later s s'" by (rule laterI) (simp_all add: assms)
  have y: "symbol_at s' = symbol_at s" by (rule ext) (simp add: symbol_at_def o)
  have c: "sym_errobj s' = sym_errobj s" "sym_t s' = sym_t s"
     "sym_eval_history_ptr s' = sym_eval_history_ptr s"
    using assms(3) by (simp_all add: constants_eq)
  show "wf_state s' = wf_state s"
    by (simp only: wf_state_def refs_ok_def inums_ok_def obarray_ok_def r o assms y c)
qed

lemma wf_print [simp]:
  "wf_state (s\<lparr>console := c\<rparr>) = wf_state s" "later s (s\<lparr>console := c\<rparr>)"
  "wf_state (s\<lparr>inside_err := b\<rparr>) = wf_state s" "later s (s\<lparr>inside_err := b\<rparr>)"
  by (rule wf_frame; simp add: globals_def constants_def top_level_def)+

lemma err_print_frame: "\<exists>c. err_print m x s = s\<lparr>console := c\<rparr>"
  by (rule exI [of _ "console (err_print m x s)"]) (simp add: err_print_def split: option.split)

lemma err_print_props: "wf_state (err_print m nx s) = wf_state s \<and> later s (err_print m nx s)"
  by (simp add: err_print_def split: option.split)

section \<open>The operations of the store\<close>

lemma ref_ok_printed [simp]: "ref_ok (s\<lparr>console := c\<rparr>) = ref_ok s" "ref_ok (s\<lparr>inside_err := b\<rparr>) = ref_ok s"
  by (rule ext, simp add: ref_ok_def split: siod_LISP.split)+

lemma err_retval_props:
  assumes "wf_state s" "ref_ok s nx" "err_retval msg nx s = (v, s')"
  shows "wf_state s' \<and> later s s' \<and> ref_ok s' v"
proof -
  have nested: "wf_state t' \<and> later t t'"
    if "wf_state t" "t' = set_errobj NIL (err_print (Some ''ran out of storage'') NIL t)" for t t'
    using that err_print_props [of "Some ''ran out of storage''" NIL t]
      set_errobj_props [of "err_print (Some ''ran out of storage'') NIL t" NIL]
    by (auto intro: later_trans)
  show ?thesis
  proof (cases "alloc (string_cell msg) s")
    case None
    then have "v = NIL" "s' = set_errobj NIL (err_print (Some ''ran out of storage'') NIL s)"
      using assms(3) by (simp_all add: err_retval_def Let_def)
    with nested [OF assms(1)] show ?thesis by simp
  next
    case (Some p)
    obtain str s1 where p: "p = (str, s1)" by fastforce
    have 1: "wf_state s1 \<and> later s s1 \<and> ref_ok s1 str"
      using alloc_props [OF assms(1) _ Some [unfolded p]] by (simp add: string_cell_def)
    then have nx: "ref_ok s1 nx" using assms(2) ref_ok_later by blast
    show ?thesis
    proof (cases "alloc (Tc_cons str nx) s1")
      case None
      then have "v = NIL" "s' = set_errobj NIL (err_print (Some ''ran out of storage'') NIL s1)"
        using assms(3) Some p by (simp_all add: err_retval_def Let_def)
      with nested [of s1 s'] 1 show ?thesis by (auto intro: later_trans)
    next
      case (Some q)
      obtain v2 s2 where q: "q = (v2, s2)" by fastforce
      have "wf_state s2 \<and> later s1 s2 \<and> ref_ok s2 v2"
        using alloc_props [of s1 "Tc_cons str nx" v2 s2] 1 nx Some q by simp
      then show ?thesis
        using assms(3) \<open>alloc (string_cell msg) s = Some p\<close> p q Some 1
        by (auto simp: err_retval_def Let_def intro: later_trans)
    qed
  qed
qed

lemma err_split_ok:
  assumes "wf_state s" "ref_ok s x" "err_split message x s = (msg, nx, rv)"
  shows "ref_ok s nx \<and> ref_ok s rv"
  using assms wf_obj_at [OF assms(1), of x]
  by (auto simp: err_split_def split: option.splits obj.splits)

lemma okM_err [sound_rules]:
  assumes x: "ref_ok s x"
  shows "okM s (err message x :: 'a act) Q"
proof (rule okM_wf)
  assume w: "wf_state s"
  obtain msg nx rv where sp: "err_split message x s = (msg, nx, rv)" by (metis prod_cases3)
  have nx: "ref_ok s nx" and rv: "ref_ok s rv" using err_split_ok [OF w x sp] by auto
  let ?s1 = "err_print msg nx s"
  have 1: "wf_state ?s1" "later s ?s1" using w by (simp_all add: err_print_props)
  let ?t1 = "?s1\<lparr>inside_err := True\<rparr>"
  have p1: "wf_state ?t1" "later s ?t1" using 1 by (auto intro: later_trans)
  let ?s2 = "set_errobj nx ?t1"
  have 2: "wf_state ?s2" "later s ?s2"
    using set_errobj_props [OF p1(1) ref_ok_later [OF p1(2) nx]] later_trans [OF p1(2)] by blast+
  have nx2: "ref_ok ?s2 nx" and rv2: "ref_ok ?s2 rv" using 2 nx rv ref_ok_later by blast+
  let ?m = "case msg of None \<Rightarrow> ''siod_quit'' | Some m \<Rightarrow> m"
  let ?h = "if rv \<noteq> NIL then (rv, ?s2) else if inside_err s then (NIL, ?s2) else err_retval ?m nx ?s2"
  obtain v s3 where h: "?h = (v, s3)" by fastforce
  have 3: "wf_state s3 \<and> later s s3 \<and> ref_ok s3 v"
    using h 2 rv2 err_retval_props [OF 2(1) nx2, of ?m v s3]
    by (auto split: if_splits intro: later_trans)
  have 4: "wf_state (s3\<lparr>inside_err := False\<rparr>)" "later s (s3\<lparr>inside_err := False\<rparr>)"
    "wf_state (?s2\<lparr>inside_err := False\<rparr>)" "later s (?s2\<lparr>inside_err := False\<rparr>)"
    using 2 3 by (auto intro: later_trans)
  let ?k = "catch_target (\<lambda>t. t = sym_errobj ?s2 \<or> t = sym_catchall ?s2) (catch_framep ?s2)"
  have run: "(err message x :: 'a act) s =
      (if errjmp_ok ?s1
       then (case ?k of Some k \<Rightarrow> (Jump k v, s3\<lparr>inside_err := False\<rparr>)
             | None \<Rightarrow> (Errjmp (if msg = None then 2 else 1), ?s2\<lparr>inside_err := False\<rparr>))
       else (Fatal_exit, if siod_verbose_level ?s1 < 1 then ?s1
               else ?s1\<lparr>console := console ?s1 @
                 ''FATAL ERROR DURING STARTUP OR CRITICAL CODE SECTION'' @ [CHR 0x0A]\<rparr>))"
    by (simp only: err_def Let_def sp prod.case h)
  have 5: "later s (?s1\<lparr>console := c\<rparr>)" for c using 1 by (auto intro: later_trans)
  have k: "?k = Some j \<Longrightarrow> j < length (catch_framep s)" for j
    using catch_target_less [of _ "catch_framep ?s2" j] by simp
  show "okM s (err message x :: 'a act) Q"
    unfolding okM_def run using 1 3 4 5 k by (cases ?k) simp_all
qed

lemma okR_newcell [sound_rules]:
  assumes "list_all (ref_ok s) (obj_refs ob)"
  shows "okR s (newcell ob)"
  using alloc_props [OF _ assms] okM_err [of s NIL "Some ''ran out of storage''" "\<lambda>v s'. ref_ok s' v"]
  by (auto simp: okM_def newcell_def catch_framep_alloc split: option.split)

lemma okM_newcell:
  assumes "list_all (ref_ok s) (obj_refs ob)"
  shows "okM s (newcell ob) (\<lambda>v s'. ref_ok s' v \<and> obj_at s' v = Some ob)"
  using alloc_props [OF _ assms]
    okM_err [of s NIL "Some ''ran out of storage''" "\<lambda>v s'. ref_ok s' v \<and> obj_at s' v = Some ob"]
  by (auto simp: okM_def newcell_def catch_framep_alloc split: option.split)

lemma ok_cons [sound_rules]: "ref_ok s x \<Longrightarrow> ref_ok s y \<Longrightarrow> okR s (siod_cons x y)"
  unfolding siod_cons_def by (rule okR_newcell) simp

lemma ok_car [sound_rules]: "okR s (siod_car x)"
  unfolding siod_car_def
  by (rule okM_look) (auto split: option.split obj.split intro!: sound_rules)

lemma ok_cdr [sound_rules]: "okR s (siod_cdr x)"
  unfolding siod_cdr_def
  by (rule okM_look) (auto split: option.split obj.split intro!: sound_rules)

lemma ok_CAR [sound_rules]: "okR s (CAR x)"
  unfolding CAR_def
  by (rule okM_look) (auto split: option.split obj.split intro!: sound_rules)

lemma ok_CDR [sound_rules]: "okR s (CDR x)"
  unfolding CDR_def
  by (rule okM_look) (auto split: option.split obj.split intro!: sound_rules)

lemma ok_setcar [sound_rules]: "ref_ok s v \<Longrightarrow> okR s (siod_setcar c v)"
  unfolding siod_setcar_def
  by (rule okM_look)
     (auto split: option.split obj.split
        intro!: sound_rules okM_bind [OF okM_store [where Q = "\<lambda>_ s'. ref_ok s' v"]] intro: ref_ok_later)

lemma ok_setcdr [sound_rules]: "ref_ok s v \<Longrightarrow> okR s (siod_setcdr c v)"
  unfolding siod_setcdr_def
  by (rule okM_look)
     (auto split: option.split obj.split
        intro!: sound_rules okM_bind [OF okM_store [where Q = "\<lambda>_ s'. ref_ok s' v"]] intro: ref_ok_later)

lemma ok_SET_CDR [sound_rules]: "ref_ok s v \<Longrightarrow> okU s (SET_CDR c v)"
  unfolding SET_CDR_def
  by (rule okM_look) (auto split: option.split obj.split intro!: sound_rules okM_store)

lemma ok_SET_CAR [sound_rules]: "ref_ok s v \<Longrightarrow> okU s (SET_CAR c v)"
  unfolding SET_CAR_def
  by (rule okM_look) (auto split: option.split obj.split intro!: sound_rules okM_store)

text \<open>The rules that take a sequence of operations apart.\<close>

lemmas act_intros = okM_look okM_bind_gets okR_bind okU_bind

text \<open>
  The same with the pointers in use carried along as a list, for long sequences: they stay valid,
  and the result of the step joins them.
\<close>

lemma list_ok_later: "later s s' \<Longrightarrow> list_all (ref_ok s) xs \<Longrightarrow> list_all (ref_ok s') xs"
  by (auto simp: list_all_iff intro: ref_ok_later)

lemma okR_seq:
  assumes "list_all (ref_ok s) xs" "list_all (ref_ok s) xs \<Longrightarrow> okR s m"
    and "\<And>a s'. list_all (ref_ok s') (a # xs) \<Longrightarrow> okM s' (f a) R"
  shows "okM s (bindM m f) R"
  using assms(2) [OF assms(1)] by (rule okR_bind) (auto intro!: assms(3) list_ok_later [OF _ assms(1)])

lemma okU_seq:
  assumes "list_all (ref_ok s) xs" "list_all (ref_ok s) xs \<Longrightarrow> okU s m"
    and "\<And>a s'. list_all (ref_ok s') xs \<Longrightarrow> okM s' (f a) R"
  shows "okM s (bindM m f) R"
  using assms(2) [OF assms(1)] by (rule okU_bind) (auto intro!: assms(3) list_ok_later [OF _ assms(1)])

lemma okM_sym_seq:
  assumes "list_all (ref_ok s) xs" "\<And>t. list_all (ref_ok s) (t # xs) \<Longrightarrow> okM s (f t) Q"
  shows "okM s (bindM (gets sym_t) f) Q" "okM s (bindM (gets sym_progn) f) Q"
    "okM s (bindM (gets sym_lambda) f) Q" "okM s (bindM (gets sym_quote) f) Q"
    "okM s (bindM (gets oblistvar) f) Q" "okM s (bindM (gets unbound_marker) f) Q"
    "okM s (bindM (gets sym_eval_history_ptr) f) Q"
  by (rule okM_bind_gets; use assms(1) in \<open>auto intro!: assms(2) simp: wf_global_refs\<close>)+

section \<open>A small state\<close>

text \<open>A well-formed state to run examples on: one symbol stands for all of them.\<close>

definition small_state :: "obj list \<Rightarrow> siod" where
  "small_state obs = \<lparr>cells = Tc_symbol ''t'' (Ref 0) # obs, heap_size = 40, obarray_dim = 1, obarray = [],
     oblistvar = NIL, inums = [], unbound_marker = NIL, eof_val = NIL, sym_t = Ref 0, sym_errobj = Ref 0,
     sym_catchall = NIL, sym_progn = NIL, sym_lambda = NIL, sym_quote = NIL, sym_dot = NIL,
     sym_after_gc = NIL, sym_eval_history_ptr = Ref 0, catch_framep = [], errjmp_ok = True,
     inside_err = False, siod_verbose_level = 0, console = [],
     disk = (\<lambda>_. None), may_open = (\<lambda>_ _. True), errno_text = [], streams = standard_streams,
     repl_c_string_arg = None, repl_c_string_out = None, repl_c_string_flag = False,
     repl_c_string_print_len = 0, rcsp_pos = 0\<rparr>"

lemma wf_small_state:
  assumes "\<forall>ob\<in>set obs. list_all (\<lambda>r. r = NIL \<or> (\<exists>a\<le>length obs. r = Ref a)) (obj_refs ob)"
  shows "wf_state (small_state obs)"
  using assms
  by (fastforce simp: wf_state_def refs_ok_def inums_ok_def obarray_ok_def small_state_def symbol_at_def
      obj_at_def ref_ok_def globals_def constants_def list_all_iff split: siod_LISP.splits)

end
