(* ===== verification/Numbers.thy ===== *)
theory Numbers
  imports Wellformed
begin

text \<open>
  The arithmetic of slib.c on flonum cells.  The subr_2n functions treat a missing second argument
  as NIL.  A division of C ints by zero, or of the smallest int by minus one, is undefined.
\<close>

section \<open>The operations\<close>

text \<open>FLONM after the test NFLONUMP, which reports the given message.\<close>

definition flonm :: "string \<Rightarrow> siod_LISP \<Rightarrow> double act" where
  "flonm msg x = bindM (look x) (\<lambda>ob. case ob of Some (Tc_flonum d) \<Rightarrow> ret d | _ \<Rightarrow> errm msg x)"

definition siod_plus :: "siod_LISP \<Rightarrow> siod_LISP \<Rightarrow> siod_LISP act" where
  "siod_plus x y =
     (if y = NIL then (if x = NIL then siod_flocons (of_long 0) else ret x)
      else bindM (flonm ''wta(1st) to siod_plus'' x) (\<lambda>a.
           bindM (flonm ''wta(2nd) to siod_plus'' y) (\<lambda>b. siod_flocons (dadd a b))))"

definition siod_ltimes :: "siod_LISP \<Rightarrow> siod_LISP \<Rightarrow> siod_LISP act" where
  "siod_ltimes x y =
     (if y = NIL then (if x = NIL then siod_flocons (of_long 1) else ret x)
      else bindM (flonm ''wta(1st) to times'' x) (\<lambda>a.
           bindM (flonm ''wta(2nd) to times'' y) (\<lambda>b. siod_flocons (dmul a b))))"

definition siod_difference :: "siod_LISP \<Rightarrow> siod_LISP \<Rightarrow> siod_LISP act" where
  "siod_difference x y =
     bindM (flonm ''wta(1st) to siod_difference'' x) (\<lambda>a.
       if y = NIL then siod_flocons (dneg a)
       else bindM (flonm ''wta(2nd) to siod_difference'' y) (\<lambda>b. siod_flocons (dsub a b)))"

definition siod_Quotient :: "siod_LISP \<Rightarrow> siod_LISP \<Rightarrow> siod_LISP act" where
  "siod_Quotient x y =
     bindM (flonm ''wta(1st) to quotient'' x) (\<lambda>a.
       if y = NIL then siod_flocons (ddiv (of_long 1) a)
       else bindM (flonm ''wta(2nd) to quotient'' y) (\<lambda>b. siod_flocons (ddiv a b)))"

definition c_quot :: "int \<Rightarrow> int \<Rightarrow> int" where
  "c_quot a b = sgn a * sgn b * (\<bar>a\<bar> div \<bar>b\<bar>)"

definition c_rem :: "int \<Rightarrow> int \<Rightarrow> int" where
  "c_rem a b = a - b * c_quot a b"

text \<open>Division of C ints.\<close>

definition int_division :: "(int \<Rightarrow> int \<Rightarrow> int) \<Rightarrow> int \<Rightarrow> int \<Rightarrow> siod_LISP act" where
  "int_division f a b =
     (if b = 0 \<or> (a = - (2 ^ 31) \<and> b = - 1) then undef else siod_flocons (of_long (f a b)))"

definition siod_IntQuotient :: "siod_LISP \<Rightarrow> siod_LISP \<Rightarrow> siod_LISP act" where
  "siod_IntQuotient x y =
     bindM (flonm ''wta(1st) to quotient'' x) (\<lambda>a.
       if y = NIL then siod_flocons (ddiv (of_long 1) (dfloor a))
       else bindM (flonm ''wta(2nd) to intquotient'' y) (\<lambda>b.
            int_division c_quot (c_int (dfloor a)) (c_int (dfloor b))))"

definition siod_Remainder :: "siod_LISP \<Rightarrow> siod_LISP \<Rightarrow> siod_LISP act" where
  "siod_Remainder x y =
     bindM (flonm ''wta(1st) to remainder'' x) (\<lambda>a.
       if y = NIL then int_division c_quot 1 (c_int (dfloor a))
       else bindM (flonm ''wta(2nd) to remainder'' y) (\<lambda>b.
            int_division c_rem (c_int (dfloor a)) (c_int (dfloor b))))"

definition siod_lllabs :: "siod_LISP \<Rightarrow> siod_LISP act" where
  "siod_lllabs x = bindM (flonm ''wta to abs'' x) (\<lambda>v.
     if dlt v (of_long 0) then siod_flocons (dneg v) else ret x)"

definition num_test :: "string \<Rightarrow> string \<Rightarrow> (double \<Rightarrow> double \<Rightarrow> bool) \<Rightarrow> siod_LISP \<Rightarrow> siod_LISP \<Rightarrow> siod_LISP act" where
  "num_test m1 m2 f x y = bindM (flonm m1 x) (\<lambda>a. bindM (flonm m2 y) (\<lambda>b.
     if f a b then gets sym_t else ret NIL))"

definition siod_greaterp :: "siod_LISP \<Rightarrow> siod_LISP \<Rightarrow> siod_LISP act" where
  "siod_greaterp = num_test ''wta(1st) to siod_greaterp'' ''wta(2nd) to siod_greaterp'' (\<lambda>a b. dlt b a)"

definition siod_lessp :: "siod_LISP \<Rightarrow> siod_LISP \<Rightarrow> siod_LISP act" where
  "siod_lessp = num_test ''wta(1st) to siod_lessp'' ''wta(2nd) to siod_lessp'' dlt"

definition siod_greaterEp :: "siod_LISP \<Rightarrow> siod_LISP \<Rightarrow> siod_LISP act" where
  "siod_greaterEp = num_test ''wta(1st) to siod_greaterp'' ''wta(2nd) to siod_greaterp'' (\<lambda>a b. dle b a)"

definition siod_lessEp :: "siod_LISP \<Rightarrow> siod_LISP \<Rightarrow> siod_LISP act" where
  "siod_lessEp = num_test ''wta(1st) to siod_lessp'' ''wta(2nd) to siod_lessp'' dle"

definition siod_lmax :: "siod_LISP \<Rightarrow> siod_LISP \<Rightarrow> siod_LISP act" where
  "siod_lmax x y =
     (if y = NIL then ret x
      else bindM (flonm ''wta(1st) to max'' x) (\<lambda>a. bindM (flonm ''wta(2nd) to max'' y) (\<lambda>b.
           ret (if dlt b a then x else y))))"

definition siod_lmin :: "siod_LISP \<Rightarrow> siod_LISP \<Rightarrow> siod_LISP act" where
  "siod_lmin x y =
     (if y = NIL then ret x
      else bindM (flonm ''wta(1st) to min'' x) (\<lambda>a. bindM (flonm ''wta(2nd) to min'' y) (\<lambda>b.
           ret (if dlt a b then x else y))))"

definition siod_eq :: "siod_LISP \<Rightarrow> siod_LISP \<Rightarrow> siod_LISP act" where
  "siod_eq x y = (if x = y then gets sym_t else ret NIL)"

definition siod_eql :: "siod_LISP \<Rightarrow> siod_LISP \<Rightarrow> siod_LISP act" where
  "siod_eql x y =
     (if x = y then gets sym_t
      else bindM (look x) (\<lambda>ob. case ob of
          Some (Tc_flonum a) \<Rightarrow> bindM (look y) (\<lambda>ob'. case ob' of
              Some (Tc_flonum b) \<Rightarrow> if deq a b then gets sym_t else ret NIL
            | _ \<Rightarrow> ret NIL)
        | _ \<Rightarrow> ret NIL))"

definition siod_get_c_long :: "siod_LISP \<Rightarrow> int act" where
  "siod_get_c_long x = bindM (flonm ''not a number'' x) (\<lambda>d. ret (c_long d))"

section \<open>They keep the invariant\<close>

lemma ok_flonm [sound_rules]: "okU s (flonm m x)"
  unfolding flonm_def
  by (rule okM_look) (auto split: option.split obj.split intro!: sound_rules)

lemma ok_flocons [sound_rules]: "okR s (siod_flocons x)"
  unfolding siod_flocons_def Let_def
proof (rule okM_bind_gets)
  let ?n = "c_long x"
  have i: "nat ?n < length (inums s)" if "0 < length (inums s)" "?n < int (length (inums s))"
    using that by linarith
  show "okR s (if 0 < length (inums s) \<and> deq (dsub x (of_long ?n)) (DZero False) \<and>
      dle (DZero False) x \<and> ?n < int (length (inums s))
    then ret (inums s ! nat ?n) else newcell (Tc_flonum x))"
    using i by (auto intro!: sound_rules wf_globals simp: globals_def)
qed



lemma ok_plus [sound_rules]: "ref_ok s x \<Longrightarrow> okR s (siod_plus x y)"
  unfolding siod_plus_def by (intro act_intros sound_rules)

lemma ok_times [sound_rules]: "ref_ok s x \<Longrightarrow> okR s (siod_ltimes x y)"
  unfolding siod_ltimes_def by (intro act_intros sound_rules)

lemma ok_difference [sound_rules]: "okR s (siod_difference x y)"
  unfolding siod_difference_def by (intro act_intros sound_rules)

lemma ok_Quotient [sound_rules]: "okR s (siod_Quotient x y)"
  unfolding siod_Quotient_def by (intro act_intros sound_rules)

lemma ok_int_division [sound_rules]: "okR s (int_division f a b)"
  unfolding int_division_def by (intro act_intros sound_rules)

lemma ok_IntQuotient [sound_rules]: "okR s (siod_IntQuotient x y)"
  unfolding siod_IntQuotient_def by (intro act_intros sound_rules)

lemma ok_Remainder [sound_rules]: "okR s (siod_Remainder x y)"
  unfolding siod_Remainder_def by (intro act_intros sound_rules)

lemma ok_abs [sound_rules]: "ref_ok s x \<Longrightarrow> okR s (siod_lllabs x)"
  unfolding siod_lllabs_def by (intro act_intros sound_rules) (auto intro: ref_ok_later)

lemma ok_num_test [sound_rules]: "okR s (num_test m1 m2 f x y)"
  unfolding num_test_def by (intro act_intros sound_rules) (auto intro: wf_global_refs)

lemma ok_comparisons [sound_rules]:
  "okR s (siod_greaterp x y)" "okR s (siod_lessp x y)" "okR s (siod_greaterEp x y)" "okR s (siod_lessEp x y)"
  by (simp_all add: siod_greaterp_def siod_lessp_def siod_greaterEp_def siod_lessEp_def ok_num_test)

lemma ok_max [sound_rules]: "ref_ok s x \<Longrightarrow> ref_ok s y \<Longrightarrow> okR s (siod_lmax x y)"
  unfolding siod_lmax_def by (intro act_intros sound_rules) (auto intro: ref_ok_later)

lemma ok_min [sound_rules]: "ref_ok s x \<Longrightarrow> ref_ok s y \<Longrightarrow> okR s (siod_lmin x y)"
  unfolding siod_lmin_def by (intro act_intros sound_rules) (auto intro: ref_ok_later)

lemma ok_eq [sound_rules]: "okR s (siod_eq x y)"
  unfolding siod_eq_def by (intro act_intros sound_rules) (auto intro: wf_global_refs)

lemma ok_eql [sound_rules]: "okR s (siod_eql x y)"
  unfolding siod_eql_def
  by (auto split: option.split obj.split intro!: act_intros sound_rules simp: wf_global_refs)

lemma ok_get_c_long [sound_rules]: "okU s (siod_get_c_long x)"
  unfolding siod_get_c_long_def by (intro act_intros sound_rules) simp

lemma ok_symcons [sound_rules]: "ref_ok s v \<Longrightarrow> okR s (siod_symcons p v)"
  unfolding siod_symcons_def by (rule okR_newcell) simp

lemma ok_closure [sound_rules]: "ref_ok s e \<Longrightarrow> ref_ok s c \<Longrightarrow> okR s (siod_closure e c)"
  unfolding siod_closure_def by (rule okR_newcell) simp

lemma ok_strcons [sound_rules]: "okR s (siod_strcons str)"
  unfolding siod_strcons_def string_cell_def by (rule okR_newcell) simp

lemma ok_truth [sound_rules]: "okR s (truth P x)"
  unfolding truth_def by (intro act_intros sound_rules) (auto intro: wf_global_refs)

lemma ok_predicates [sound_rules]:
  "okR s (siod_ClosureP x)" "okR s (siod_symbolp x)" "okR s (siod_numberp x)" "okR s (siod_stringp x)"
  by (simp_all add: siod_ClosureP_def siod_symbolp_def siod_numberp_def siod_stringp_def ok_truth)

lemma ok_nullp [sound_rules]: "okR s (siod_nullp x)"
  unfolding siod_nullp_def by (intro act_intros sound_rules) (auto intro: wf_global_refs)

lemma ok_get_eof_val [sound_rules]: "okR s siod_get_eof_val"
  unfolding siod_get_eof_val_def by (intro act_intros sound_rules) (auto intro: wf_global_refs)

lemma ok_consp [sound_rules]: "okR s (siod_consp x)"
  unfolding siod_consp_def
  by (rule okM_look) (auto split: option.split obj.split intro!: sound_rules intro: wf_global_refs)

lemma ok_closure_parts [sound_rules]: "okR s (siod_closure_code x)" "okR s (siod_closure_env x)"
  unfolding siod_closure_code_def siod_closure_env_def
  by (rule okM_look; auto split: option.split obj.split intro!: sound_rules)+

lemma ok_cxr [sound_rules]:
  "okR s (siod_caar x)" "okR s (siod_cadr x)" "okR s (siod_cdar x)" "okR s (siod_cddr x)"
  "okR s (siod_caaar x)" "okR s (siod_caadr x)" "okR s (siod_cadar x)" "okR s (siod_caddr x)"
  "okR s (siod_cdaar x)" "okR s (siod_cdadr x)" "okR s (siod_cddar x)" "okR s (siod_cdddr x)"
  unfolding siod_caar_def siod_cadr_def siod_cdar_def siod_cddr_def siod_caaar_def siod_caadr_def
    siod_cadar_def siod_caddr_def siod_cdaar_def siod_cdadr_def siod_cddar_def siod_cdddr_def
  by (intro act_intros sound_rules)+

lemma ok_get_c_string [sound_rules]: "okU s (get_c_string x)"
  unfolding get_c_string_def
  by (rule okM_look) (auto split: option.split obj.split intro!: sound_rules)

lemma ok_lerr [sound_rules]: "ref_ok s m \<Longrightarrow> ref_ok s x \<Longrightarrow> okR s (siod_lerr m x)"
  unfolding siod_lerr_def by (intro act_intros sound_rules) (auto intro: ref_ok_later)

lemma ok_quit [sound_rules]: "okR s siod_quit"
  unfolding siod_quit_def by (rule okM_err) simp

end
