(* ===== verification/Symbols.thy ===== *)
theory Symbols
  imports Numbers
begin

text \<open>
  Symbols (slib.c): the hash table obarray of lists of symbols, the list oblistvar of all symbols,
  and the function that finds or makes the symbol of a name.  The C type char is signed.
\<close>

unbundle bit_operations_syntax

section \<open>The operations\<close>

definition schar :: "char \<Rightarrow> int" where
  "schar c = (if (of_char c :: int) < 128 then of_char c else of_char c - 256)"

fun intern_hash :: "int \<Rightarrow> int \<Rightarrow> char list \<Rightarrow> int" where
  "intern_hash n hash [] = hash"
| "intern_hash n hash (c # cs) = intern_hash n (c_rem ((hash * 17) XOR schar c) n) cs"

text \<open>The search of one list; a list longer than the store has a cycle and is searched for ever.\<close>

fun intern_find :: "nat \<Rightarrow> string \<Rightarrow> siod_LISP \<Rightarrow> siod_LISP option act" where
  "intern_find 0 name l = nofuel"
| "intern_find (Suc k) name l =
     (if l = NIL then ret None
      else bindM (CAR l) (\<lambda>sy. bindM (look sy) (\<lambda>ob. case ob of
          Some (Tc_symbol p v) \<Rightarrow>
            if name = p then ret (Some sy) else bindM (CDR l) (intern_find k name)
        | _ \<Rightarrow> undef)))"

text \<open>
  Making a symbol and entering it in the table and in the list of all symbols.  The C variable hash
  is a long; with a signed char it can be negative, an access in front of obarray.
\<close>

definition intern_new :: "string \<Rightarrow> bool \<Rightarrow> nat \<Rightarrow> siod_LISP \<Rightarrow> siod_LISP act" where
  "intern_new name tab i sl =
     bindM (gets unbound_marker) (\<lambda>u.
     bindM (siod_symcons name u) (\<lambda>sy.
     bindM (if tab then bindM (siod_cons sy sl) (\<lambda>p.
              modifyM (\<lambda>s. s\<lparr>obarray := (obarray s)[i := p]\<rparr>)) else ret ()) (\<lambda>_.
     bindM (gets oblistvar) (\<lambda>ol.
     bindM (siod_cons sy ol) (\<lambda>p.
     bindM (modifyM (\<lambda>s. s\<lparr>oblistvar := p\<rparr>)) (\<lambda>_. ret sy))))))"

definition siod_gen_siod_intern :: "string \<Rightarrow> siod_LISP act" where
  "siod_gen_siod_intern name =
     bindM (gets (\<lambda>s. (1 < obarray_dim s, intern_hash (int (obarray_dim s)) 0 name))) (\<lambda>(tab, hash).
     if tab \<and> hash < 0 then undef
     else
       bindM (gets (\<lambda>s. if tab then obarray s ! nat hash else oblistvar s)) (\<lambda>sl.
       bindM (gets (\<lambda>s. Suc (length (cells s)))) (\<lambda>k.
       bindM (intern_find k name sl) (\<lambda>found. case found of
         Some sy \<Rightarrow> ret sy
       | None \<Rightarrow> intern_new name tab (nat hash) sl))))"

definition siod_cintern :: "string \<Rightarrow> siod_LISP act" where
  "siod_cintern name = siod_gen_siod_intern name"

definition siod_rintern :: "string \<Rightarrow> siod_LISP act" where
  "siod_rintern name = siod_gen_siod_intern name"

definition siod_intern :: "siod_LISP \<Rightarrow> siod_LISP act" where
  "siod_intern name = bindM (get_c_string name) siod_rintern"

section \<open>They keep the invariant\<close>

lemma ok_intern_find:
  "ref_ok s l \<Longrightarrow> okM s (intern_find k name l) (\<lambda>v s'. \<forall>r. v = Some r \<longrightarrow> ref_ok s' r)"
proof (induction k arbitrary: l s)
  case (Suc k)
  show ?case
    using Suc.prems
    by (auto split: option.split obj.split
        intro!: sound_rules okM_look okR_bind [OF ok_CAR] okR_bind [OF ok_CDR] Suc.IH)
qed (simp add: sound_rules)

lemma wf_state_obarray:
  assumes "wf_state s" "ref_ok s p"
  shows "wf_state (s\<lparr>obarray := (obarray s)[i := p]\<rparr>)" "later s (s\<lparr>obarray := (obarray s)[i := p]\<rparr>)"
    and "wf_state (s\<lparr>oblistvar := p\<rparr>)" "later s (s\<lparr>oblistvar := p\<rparr>)"
proof -
  have l: "later s (s\<lparr>obarray := (obarray s)[i := p]\<rparr>)" "later s (s\<lparr>oblistvar := p\<rparr>)"
    by (rule laterI; simp add: constants_def top_level_def)+
  have r: "ref_ok (s\<lparr>obarray := b\<rparr>) = ref_ok s" "ref_ok (s\<lparr>oblistvar := q\<rparr>) = ref_ok s" for b q
    by (rule ext, simp add: ref_ok_def split: siod_LISP.split)+
  have "set ((obarray s)[i := p]) \<subseteq> insert p (set (obarray s))" by (rule set_update_subset_insert)
  then have "refs_ok (s\<lparr>obarray := (obarray s)[i := p]\<rparr>)" "refs_ok (s\<lparr>oblistvar := p\<rparr>)"
    using assms unfolding wf_state_def refs_ok_def r
    by (auto simp: globals_def constants_def list_all_iff)
  with l assms(1) show "wf_state (s\<lparr>obarray := (obarray s)[i := p]\<rparr>)" "wf_state (s\<lparr>oblistvar := p\<rparr>)"
    by (blast intro: wf_later)+
  show "later s (s\<lparr>obarray := (obarray s)[i := p]\<rparr>)" "later s (s\<lparr>oblistvar := p\<rparr>)" by (fact l)+
qed

lemma okM_modify:
  "(wf_state s \<Longrightarrow> wf_state (f s) \<and> later s (f s) \<and> Q () (f s)) \<Longrightarrow> catch_framep (f s) = catch_framep s \<Longrightarrow> okM s (modifyM f) Q"
  by (auto simp: okM_def modifyM_def)

lemma hash_in_range: "0 < n \<Longrightarrow> \<bar>h\<bar> < n \<Longrightarrow> \<bar>intern_hash n h cs\<bar> < n"
proof (induction cs arbitrary: h)
  case (Cons c cs)
  have "\<bar>c_rem a n\<bar> < n" if "0 < n" for a
  proof -
    have "c_rem a n = sgn a * (\<bar>a\<bar> mod n)"
      using that by (simp add: c_rem_def c_quot_def minus_div_mult_eq_mod [symmetric] algebra_simps sgn_if abs_if)
    then show ?thesis using that by (simp add: abs_mult sgn_if)
  qed
  with Cons show ?case by simp
qed simp

lemma ok_set_obarray: "ref_ok s p \<Longrightarrow> okU s (modifyM (\<lambda>s. s\<lparr>obarray := (obarray s)[i := p]\<rparr>))"
  by (rule okM_modify) (simp_all add: wf_state_obarray)

lemma ok_set_oblist: "ref_ok s p \<Longrightarrow> okU s (modifyM (\<lambda>s. s\<lparr>oblistvar := p\<rparr>))"
  by (rule okM_modify) (simp_all add: wf_state_obarray)

lemma ok_intern_new: "ref_ok s sl \<Longrightarrow> okR s (intern_new name tab i sl)"
  unfolding intern_new_def
  by (intro okM_bind_gets okR_bind [OF ok_symcons] okU_bind [OF okM_if] okR_bind [OF ok_cons]
        okU_bind [OF ok_set_oblist] ok_set_obarray okM_ret)
     (auto simp: wf_global_refs intro: ref_ok_later later_trans)

lemma obarray_slot_ok:
  assumes "wf_state s" "1 < obarray_dim s" "0 \<le> intern_hash (int (obarray_dim s)) 0 name"
  shows "ref_ok s (obarray s ! nat (intern_hash (int (obarray_dim s)) 0 name))"
proof -
  have "nat (intern_hash (int (obarray_dim s)) 0 name) < length (obarray s)"
    using assms hash_in_range [of "int (obarray_dim s)" 0 name]
    by (simp add: wf_state_def obarray_ok_def)
  then show ?thesis using assms(1) by (auto intro!: wf_globals simp: globals_def)
qed

lemma ok_gen_intern [sound_rules]: "okR s (siod_gen_siod_intern name)"
proof (rule okM_wf)
  assume w: "wf_state s"
  let ?tab = "1 < obarray_dim s" and ?h = "intern_hash (int (obarray_dim s)) 0 name"
  let ?sl = "if ?tab then obarray s ! nat ?h else oblistvar s"
  show ?thesis
  proof (cases "?tab \<and> ?h < 0")
    case True
    then show ?thesis
      unfolding siod_gen_siod_intern_def by (intro okM_bind_gets) (simp add: okM_stop)
  next
    case False
    then have sl: "ref_ok s ?sl" using w obarray_slot_ok wf_global_refs by auto
    show ?thesis
      unfolding siod_gen_siod_intern_def
      apply (intro okM_bind_gets)
      using False sl
      apply (simp only: prod.case if_False)
      apply (intro okM_bind_gets okM_bind [OF ok_intern_find])
       apply assumption
      apply (auto split: option.split intro!: okM_ret ok_intern_new intro: ref_ok_later)
      done
  qed
qed

lemma ok_interns [sound_rules]:
  "okR s (siod_cintern name)" "okR s (siod_rintern name)" "okR s (siod_intern x)"
  unfolding siod_cintern_def siod_rintern_def siod_intern_def
  by (intro act_intros sound_rules)+

end
