(* ===== verification/Lists.thy ===== *)
theory Lists
  imports Symbols
begin

text \<open>
  The list library of slib.c and sliba.c.  A for or while loop over a list is one of the two
  combinators below, with fuel.  A list that has more conses than the store has cells has a
  cycle, so the fuel of a loop that only reads runs out exactly when the C loop does not end; a loop
  that conses on each turn ends in an error when the storage is used up.  A recursive C function
  recurses on the same bound, where the C code ends in its check of the stack depth.
\<close>

section \<open>Loops\<close>

text \<open>The loop for(l=x;CONSP(l);l=CDR(l)); its body may return from the function.\<close>

fun for_cons :: "nat \<Rightarrow> (siod_LISP \<Rightarrow> siod_LISP \<Rightarrow> 'r option act) \<Rightarrow> siod_LISP \<Rightarrow> ('r + siod_LISP) act" where
  "for_cons 0 body l = nofuel"
| "for_cons (Suc k) body l = bindM (look l) (\<lambda>ob. case ob of
       Some (Tc_cons a d) \<Rightarrow> bindM (body a l) (\<lambda>r. case r of
           Some v \<Rightarrow> ret (Inl v)
         | None \<Rightarrow> bindM (CDR l) (for_cons k body))
     | _ \<Rightarrow> ret (Inr l))"

text \<open>The loop for(l=x;NNULLP(l);l=siod_cdr(l)), with the variables its body assigns.\<close>

fun for_list :: "nat \<Rightarrow> (siod_LISP \<Rightarrow> 'a \<Rightarrow> 'a act) \<Rightarrow> 'a \<Rightarrow> siod_LISP \<Rightarrow> 'a act" where
  "for_list 0 body acc l = nofuel"
| "for_list (Suc k) body acc l =
     (if l = NIL then ret acc
      else bindM (body l acc) (\<lambda>acc'. bindM (siod_cdr l) (for_list k body acc')))"

text \<open>A bound on the conses a list can have, and on the turns of a loop that conses.\<close>

definition bound :: "siod \<Rightarrow> nat" where
  "bound s = Suc (length (cells s) + heap_size s)"

definition is_cons :: "obj option \<Rightarrow> bool" where
  "is_cons ob = (case ob of Some (Tc_cons a d) \<Rightarrow> True | _ \<Rightarrow> False)"

text \<open>The searches of association lists and of lists end the same way.\<close>

definition search_end :: "string \<Rightarrow> siod_LISP \<Rightarrow> (siod_LISP + siod_LISP) \<Rightarrow> siod_LISP act" where
  "search_end msg list r = (case r of Inl v \<Rightarrow> ret v
     | Inr l \<Rightarrow> if l = NIL then ret NIL else errm msg list)"

definition assoc_by :: "(siod_LISP \<Rightarrow> bool act) \<Rightarrow> string \<Rightarrow> siod_LISP \<Rightarrow> siod_LISP act" where
  "assoc_by test msg alist = bindM (gets bound) (\<lambda>k.
     bindM (for_cons k (\<lambda>tmp l. bindM (look tmp) (\<lambda>ob. case ob of
         Some (Tc_cons a d) \<Rightarrow> bindM (test a) (\<lambda>b. ret (if b then Some tmp else None))
       | _ \<Rightarrow> ret None)) alist) (search_end msg alist))"

definition member_by :: "(siod_LISP \<Rightarrow> bool act) \<Rightarrow> string \<Rightarrow> siod_LISP \<Rightarrow> siod_LISP act" where
  "member_by test msg il = bindM (gets bound) (\<lambda>k.
     bindM (for_cons k (\<lambda>tmp l. bindM (test tmp) (\<lambda>b. ret (if b then Some l else None))) il)
       (search_end msg il))"

section \<open>Searching\<close>

definition siod_assq :: "siod_LISP \<Rightarrow> siod_LISP \<Rightarrow> siod_LISP act" where
  "siod_assq x alist = assoc_by (\<lambda>a. ret (a = x)) ''improper list to siod_assq'' alist"

definition siod_assv :: "siod_LISP \<Rightarrow> siod_LISP \<Rightarrow> siod_LISP act" where
  "siod_assv x alist =
     assoc_by (\<lambda>a. bindM (siod_eql a x) (\<lambda>r. ret (r \<noteq> NIL))) ''improper list to assv'' alist"

definition siod_memq :: "siod_LISP \<Rightarrow> siod_LISP \<Rightarrow> siod_LISP act" where
  "siod_memq x il = member_by (\<lambda>tmp. ret (x = tmp)) ''improper list to memq'' il"

definition siod_memv :: "siod_LISP \<Rightarrow> siod_LISP \<Rightarrow> siod_LISP act" where
  "siod_memv x il =
     member_by (\<lambda>tmp. bindM (siod_eql x tmp) (\<lambda>r. ret (r \<noteq> NIL))) ''improper list to memv'' il"

section \<open>Length and position\<close>

fun cons_count :: "nat \<Rightarrow> nat \<Rightarrow> siod_LISP \<Rightarrow> (nat \<times> siod_LISP) act" where
  "cons_count 0 n l = nofuel"
| "cons_count (Suc k) n l = bindM (look l) (\<lambda>ob. case ob of
       Some (Tc_cons a d) \<Rightarrow> bindM (CDR l) (cons_count k (Suc n))
     | _ \<Rightarrow> ret (n, l))"

definition siod_nlength :: "siod_LISP \<Rightarrow> nat act" where
  "siod_nlength x = bindM (look x) (\<lambda>ob. case ob of
       None \<Rightarrow> ret 0
     | Some (Tc_string n buf) \<Rightarrow> ret (length (cstr buf))
     | Some (Tc_byte_array n buf) \<Rightarrow> ret n
     | Some (Tc_double_array xs) \<Rightarrow> ret (length xs)
     | Some (Tc_long_array xs) \<Rightarrow> ret (length xs)
     | Some (Tc_lisp_array xs) \<Rightarrow> ret (length xs)
     | Some (Tc_cons a d) \<Rightarrow> bindM (gets bound) (\<lambda>k. bindM (cons_count k 0 x) (\<lambda>(n, l).
         if l \<noteq> NIL then errm ''improper list to length'' x else ret n))
     | _ \<Rightarrow> errm ''wta to length'' x)"

definition siod_llength :: "siod_LISP \<Rightarrow> siod_LISP act" where
  "siod_llength x = bindM (siod_nlength x) (\<lambda>n. siod_flocons (of_long (int n)))"

text \<open>At most n steps along the conses of a list.\<close>

fun cdr_down :: "nat \<Rightarrow> int \<Rightarrow> siod_LISP \<Rightarrow> siod_LISP act" where
  "cdr_down 0 n l = nofuel"
| "cdr_down (Suc k) n l = bindM (look l) (\<lambda>ob.
     if 0 < n \<and> is_cons ob then bindM (CDR l) (cdr_down k (n - 1)) else ret l)"

text \<open>The loop ends after n steps or at the end of the list, on a circular list after n steps.\<close>

definition siod_nth :: "siod_LISP \<Rightarrow> siod_LISP \<Rightarrow> siod_LISP act" where
  "siod_nth x li = bindM (siod_get_c_long x) (\<lambda>n.
     bindM (cdr_down (Suc (nat n)) n li) (\<lambda>l.
     bindM (look l) (\<lambda>ob. case ob of
         Some (Tc_cons a d) \<Rightarrow> ret a
       | _ \<Rightarrow> errm ''bad arg to nth'' x)))"

fun last_loop :: "nat \<Rightarrow> siod_LISP \<Rightarrow> siod_LISP \<Rightarrow> siod_LISP act" where
  "last_loop 0 v1 v2 = nofuel"
| "last_loop (Suc k) v1 v2 = bindM (look v2) (\<lambda>ob.
     if is_cons ob then bindM (CDR v2) (last_loop k v2) else ret v1)"

definition siod_last :: "siod_LISP \<Rightarrow> siod_LISP act" where
  "siod_last l = bindM (look l) (\<lambda>ob. case ob of
       Some (Tc_cons a d) \<Rightarrow> bindM (gets bound) (\<lambda>k. last_loop k l d)
     | _ \<Rightarrow> errm ''bad arg to last'' l)"

section \<open>Building\<close>

definition siod_reverse :: "siod_LISP \<Rightarrow> siod_LISP act" where
  "siod_reverse l = bindM (gets bound) (\<lambda>k.
     for_list k (\<lambda>p n. bindM (siod_car p) (\<lambda>x. siod_cons x n)) NIL l)"

text \<open>The variables oldp and newp; a circular list is walked twice.\<close>

fun nreverse_loop :: "nat \<Rightarrow> siod_LISP \<Rightarrow> siod_LISP \<Rightarrow> siod_LISP act" where
  "nreverse_loop 0 oldp newp = nofuel"
| "nreverse_loop (Suc k) oldp newp = bindM (look oldp) (\<lambda>ob. case ob of
       Some (Tc_cons a nextp) \<Rightarrow> bindM (SET_CDR oldp newp) (\<lambda>_. nreverse_loop k nextp oldp)
     | _ \<Rightarrow> ret newp)"

definition siod_nreverse :: "siod_LISP \<Rightarrow> siod_LISP act" where
  "siod_nreverse x = bindM (gets (\<lambda>s. 2 * bound s)) (\<lambda>k. nreverse_loop k x NIL)"

fun copy_list_rec :: "nat \<Rightarrow> siod_LISP \<Rightarrow> siod_LISP act" where
  "copy_list_rec 0 x = nofuel"
| "copy_list_rec (Suc k) x =
     (if x = NIL then ret NIL
      else bindM (siod_car x) (\<lambda>a. bindM (siod_cdr x) (\<lambda>d.
           bindM (copy_list_rec k d) (siod_cons a))))"

definition siod_copy_list :: "siod_LISP \<Rightarrow> siod_LISP act" where
  "siod_copy_list x = bindM (gets bound) (\<lambda>k. copy_list_rec k x)"

fun delq_rec :: "nat \<Rightarrow> siod_LISP \<Rightarrow> siod_LISP \<Rightarrow> siod_LISP act" where
  "delq_rec 0 elem l = nofuel"
| "delq_rec (Suc k) elem l =
     (if l = NIL then ret l
      else bindM (siod_car l) (\<lambda>a.
        if elem = a then bindM (siod_cdr l) (delq_rec k elem)
        else bindM (siod_cdr l) (\<lambda>d. bindM (delq_rec k elem d) (\<lambda>r.
             bindM (siod_setcdr l r) (\<lambda>_. ret l)))))"

definition siod_delq :: "siod_LISP \<Rightarrow> siod_LISP \<Rightarrow> siod_LISP act" where
  "siod_delq elem l = bindM (gets bound) (\<lambda>k. delq_rec k elem l)"

text \<open>Consing v onto a list n times; on a full store it ends in the error of newcell.\<close>

fun cons_times :: "nat \<Rightarrow> siod_LISP \<Rightarrow> siod_LISP \<Rightarrow> siod_LISP act" where
  "cons_times 0 v l = ret l"
| "cons_times (Suc n) v l = bindM (siod_cons v l) (cons_times n v)"

definition siod_make_list :: "siod_LISP \<Rightarrow> siod_LISP \<Rightarrow> siod_LISP act" where
  "siod_make_list x v = bindM (siod_get_c_long x) (\<lambda>n. cons_times (nat n) v NIL)"

fun butlast_rec :: "nat \<Rightarrow> siod_LISP \<Rightarrow> siod_LISP act" where
  "butlast_rec 0 l = nofuel"
| "butlast_rec (Suc k) l =
     (if l = NIL then errm ''list is empty'' l
      else bindM (look l) (\<lambda>ob. case ob of
          Some (Tc_cons a d) \<Rightarrow>
            if d = NIL then ret NIL else bindM (butlast_rec k d) (siod_cons a)
        | _ \<Rightarrow> errm ''not a list'' l))"

definition siod_butlast :: "siod_LISP \<Rightarrow> siod_LISP act" where
  "siod_butlast l = bindM (gets bound) (\<lambda>k. butlast_rec k l)"

definition siod_nconc :: "siod_LISP \<Rightarrow> siod_LISP \<Rightarrow> siod_LISP act" where
  "siod_nconc a b =
     (if a = NIL then ret b
      else bindM (siod_last a) (\<lambda>l. bindM (siod_setcdr l b) (\<lambda>_. ret a)))"

text \<open>The copy loop of append2: it stores the elements of one list into the conses at p1.\<close>

definition append2_step :: "siod_LISP \<Rightarrow> siod_LISP \<Rightarrow> siod_LISP act" where
  "append2_step p2 p1 = bindM (siod_car p2) (\<lambda>a. bindM (siod_setcar p1 a) (\<lambda>_. siod_cdr p1))"

definition siod_append2 :: "siod_LISP \<Rightarrow> siod_LISP \<Rightarrow> siod_LISP act" where
  "siod_append2 l1 l2 =
     bindM (siod_nlength l1) (\<lambda>n1. bindM (siod_nlength l2) (\<lambda>n2.
     bindM (cons_times (n1 + n2) NIL NIL) (\<lambda>result.
     bindM (gets bound) (\<lambda>k.
     bindM (for_list k append2_step result l1) (\<lambda>p1.
     bindM (for_list k append2_step p1 l2) (\<lambda>_. ret result))))))"

fun append_rec :: "nat \<Rightarrow> siod_LISP \<Rightarrow> siod_LISP act" where
  "append_rec 0 l = nofuel"
| "append_rec (Suc k) l =
     (if l = NIL then ret NIL
      else bindM (siod_cdr l) (\<lambda>d. if d = NIL then siod_car l
      else bindM (siod_cddr l) (\<lambda>dd. if dd = NIL then
             bindM (siod_car l) (\<lambda>a. bindM (siod_cadr l) (siod_append2 a))
      else bindM (siod_car l) (\<lambda>a. bindM (siod_cdr l) (\<lambda>d'.
             bindM (append_rec k d') (siod_append2 a))))))"

definition siod_append :: "siod_LISP \<Rightarrow> siod_LISP act" where
  "siod_append l = bindM (gets bound) (\<lambda>k. append_rec k l)"

definition siod_llist :: "siod_LISP \<Rightarrow> siod_LISP act" where
  "siod_llist l = ret l"

text \<open>The variadic constructor, with its arguments as a list.\<close>

fun listn_fill :: "siod_LISP list \<Rightarrow> siod_LISP \<Rightarrow> unit act" where
  "listn_fill [] ptr = ret ()"
| "listn_fill (x # xs) ptr =
     bindM (siod_setcar ptr x) (\<lambda>_. bindM (siod_cdr ptr) (listn_fill xs))"

definition siod_listn :: "siod_LISP list \<Rightarrow> siod_LISP act" where
  "siod_listn xs = bindM (cons_times (length xs) NIL NIL) (\<lambda>result.
     bindM (listn_fill xs result) (\<lambda>_. ret result))"

section \<open>They keep the invariant\<close>

lemma ok_for_cons:
  assumes "\<And>s a l. ref_ok s a \<Longrightarrow> ref_ok s l \<Longrightarrow> G s \<Longrightarrow>
      okM s (body a l) (\<lambda>r s'. \<forall>v. r = Some v \<longrightarrow> P v s')"
    and G: "\<And>s s'. later s s' \<Longrightarrow> G s \<Longrightarrow> G s'"
  shows "ref_ok s l \<Longrightarrow> G s \<Longrightarrow>
    okM s (for_cons k body l) (\<lambda>r s'. (\<forall>v. r = Inl v \<longrightarrow> P v s') \<and> (\<forall>l. r = Inr l \<longrightarrow> ref_ok s' l))"
proof (induction k arbitrary: s l)
  case (Suc k)
  have step: "okM s1 (bindM (body a l) (\<lambda>r. case r of Some v \<Rightarrow> ret (Inl v)
        | None \<Rightarrow> bindM (CDR l) (for_cons k body)))
      (\<lambda>r s'. (\<forall>v. r = Inl v \<longrightarrow> P v s') \<and> (\<forall>l. r = Inr l \<longrightarrow> ref_ok s' l))"
    if "ref_ok s1 a" "ref_ok s1 l" "G s1" for s1 a
    using that by (intro okM_bind [OF assms(1)])
      (auto split: option.split intro!: okM_ret okR_bind [OF ok_CDR] Suc.IH intro: ref_ok_later G)
  show ?case
    using Suc.prems
    by (auto split: option.split obj.split intro!: okM_look okM_ret step)
qed (simp add: sound_rules)

lemma ok_for_list:
  assumes "\<And>s l acc. ref_ok s l \<Longrightarrow> P acc s \<Longrightarrow> okM s (body l acc) P"
    and P: "\<And>s s' acc. later s s' \<Longrightarrow> P acc s \<Longrightarrow> P acc s'"
  shows "ref_ok s l \<Longrightarrow> P acc s \<Longrightarrow> okM s (for_list k body acc l) P"
proof (induction k arbitrary: s l acc)
  case (Suc k)
  then show ?case
    by (auto intro!: okM_ret okM_bind [OF assms(1)] okR_bind [OF ok_cdr] Suc.IH intro: P)
qed (simp add: sound_rules)

lemma ok_search_end: "(\<And>v. r = Inl v \<Longrightarrow> ref_ok s v) \<Longrightarrow> ref_ok s l \<Longrightarrow> okR s (search_end m l r)"
  by (cases r) (auto simp: search_end_def intro!: sound_rules)

lemma ok_assoc_by:
  assumes "\<And>s a. G s \<Longrightarrow> okU s (test a)" "\<And>s s'. later s s' \<Longrightarrow> G s \<Longrightarrow> G s'"
    and "ref_ok s al" "G s"
  shows "okR s (assoc_by test m al)"
  unfolding assoc_by_def
proof (rule okM_bind_gets)
  show "okR s (bindM (for_cons (bound s) (\<lambda>tmp l. bindM (look tmp) (\<lambda>ob. case ob of
         Some (Tc_cons a d) \<Rightarrow> bindM (test a) (\<lambda>b. ret (if b then Some tmp else None))
       | _ \<Rightarrow> ret None)) al) (search_end m al))"
    using assms(3,4)
    apply (intro okM_bind [OF ok_for_cons [where G = G and P = "\<lambda>v s. ref_ok s v"]])
    subgoal by (auto split: option.split obj.split intro!: okM_look okM_ret okU_bind [OF assms(1)])
        (auto split: if_splits intro: ref_ok_later)
    by (auto intro!: ok_search_end intro: assms(2) ref_ok_later)
qed

lemma ok_member_by:
  assumes "\<And>s a. G s \<Longrightarrow> okU s (test a)" "\<And>s s'. later s s' \<Longrightarrow> G s \<Longrightarrow> G s'"
    and "ref_ok s al" "G s"
  shows "okR s (member_by test m al)"
  unfolding member_by_def
proof (rule okM_bind_gets)
  show "okR s (bindM (for_cons (bound s) (\<lambda>tmp l. bindM (test tmp) (\<lambda>b. ret (if b then Some l else None))) al)
     (search_end m al))"
    using assms(3,4)
    by (intro okM_bind [OF ok_for_cons [where G = G and P = "\<lambda>v s. ref_ok s v"]])
      (auto split: if_splits intro!: okM_ret okU_bind [OF assms(1)] ok_search_end intro: assms(2) ref_ok_later)
qed

lemma ok_searches [sound_rules]:
  assumes "ref_ok s al"
  shows "okR s (siod_assq x al)" "okR s (siod_assv x al)" "okR s (siod_memq x al)" "okR s (siod_memv x al)"
  unfolding siod_assq_def siod_assv_def siod_memq_def siod_memv_def
  by (rule ok_assoc_by [where G = "\<lambda>_. True"] ok_member_by [where G = "\<lambda>_. True"];
      (intro okR_bind [OF ok_eql] okM_ret)?; simp add: assms)+

lemma ok_cons_count:
  "ref_ok s l \<Longrightarrow> okM s (cons_count k n l) (\<lambda>r s'. ref_ok s' (snd r))"
proof (induction k arbitrary: s l n)
  case (Suc k)
  then show ?case
    by (auto split: option.split obj.split intro!: okM_look okM_ret okR_bind [OF ok_CDR] Suc.IH)
qed (simp add: sound_rules)

lemma ok_nlength [sound_rules]: "ref_ok s x \<Longrightarrow> okU s (siod_nlength x)"
  unfolding siod_nlength_def
  by (auto split: option.split obj.split
      intro!: okM_look okM_ret okM_bind_gets okM_err okM_bind [OF ok_cons_count] intro: ref_ok_later)
     (blast intro: ref_ok_later)+

lemma ok_llength [sound_rules]: "ref_ok s x \<Longrightarrow> okR s (siod_llength x)"
  unfolding siod_llength_def by (intro okU_bind [OF ok_nlength] sound_rules)

lemma ok_cdr_down [sound_rules]: "ref_ok s l \<Longrightarrow> okR s (cdr_down k n l)"
proof (induction k arbitrary: s l n)
  case (Suc k)
  then show ?case by (auto intro!: okM_look okM_ret okR_bind [OF ok_CDR] Suc.IH)
qed (simp add: sound_rules)

lemma ok_nth [sound_rules]: "ref_ok s x \<Longrightarrow> ref_ok s l \<Longrightarrow> okR s (siod_nth x l)"
  unfolding siod_nth_def
  by (intro okU_bind [OF ok_get_c_long] okR_bind [OF ok_cdr_down] okM_look,
      auto split: option.split obj.split intro!: okM_ret okM_err intro: ref_ok_later later_trans)

lemma ok_last_loop [sound_rules]: "ref_ok s v1 \<Longrightarrow> ref_ok s v2 \<Longrightarrow> okR s (last_loop k v1 v2)"
proof (induction k arbitrary: s v1 v2)
  case (Suc k)
  then show ?case by (auto intro!: okM_look okM_ret okR_bind [OF ok_CDR] Suc.IH intro: ref_ok_later)
qed (simp add: sound_rules)

lemma ok_last [sound_rules]: "ref_ok s l \<Longrightarrow> okR s (siod_last l)"
  unfolding siod_last_def
  by (auto split: option.split obj.split intro!: okM_look okM_bind_gets okM_err ok_last_loop)

lemma ok_reverse [sound_rules]: "ref_ok s l \<Longrightarrow> okR s (siod_reverse l)"
  unfolding siod_reverse_def
  by (intro okM_bind_gets ok_for_list [where P = "\<lambda>v s. ref_ok s v"] okR_bind [OF ok_car] ok_cons)
     (auto intro: ref_ok_later)

lemma ok_nreverse_loop [sound_rules]:
  "ref_ok s oldp \<Longrightarrow> ref_ok s newp \<Longrightarrow> okR s (nreverse_loop k oldp newp)"
proof (induction k arbitrary: s oldp newp)
  case (Suc k)
  then show ?case
    by (auto split: option.split obj.split
        intro!: okM_look okM_ret okU_bind [OF ok_SET_CDR] Suc.IH; blast intro: ref_ok_later)
qed (simp add: sound_rules)

lemma ok_nreverse [sound_rules]: "ref_ok s x \<Longrightarrow> okR s (siod_nreverse x)"
  unfolding siod_nreverse_def by (intro okM_bind_gets ok_nreverse_loop) simp_all

lemma ok_copy_list_rec: "ref_ok s x \<Longrightarrow> okR s (copy_list_rec k x)"
proof (induction k arbitrary: s x)
  case (Suc k)
  then show ?case
    by (auto intro!: okM_ret okR_bind [OF ok_car] okR_bind [OF ok_cdr] okR_bind [OF Suc.IH] ok_cons)
      (meson ref_ok_later)
qed (simp add: sound_rules)

lemma ok_copy_list [sound_rules]: "ref_ok s x \<Longrightarrow> okR s (siod_copy_list x)"
  unfolding siod_copy_list_def by (intro okM_bind_gets ok_copy_list_rec)

lemma ok_delq_rec: "ref_ok s l \<Longrightarrow> okR s (delq_rec k e l)"
proof (induction k arbitrary: s l)
  case (Suc k)
  then show ?case
    by (auto intro!: okM_ret okR_bind [OF ok_car] okR_bind [OF ok_cdr] okR_bind [OF Suc.IH]
        okR_bind [OF ok_setcdr] Suc.IH okM_if)
       (meson ref_ok_later)+
qed (simp add: sound_rules)

lemma ok_delq [sound_rules]: "ref_ok s l \<Longrightarrow> okR s (siod_delq e l)"
  unfolding siod_delq_def by (intro okM_bind_gets ok_delq_rec)

lemma ok_cons_times [sound_rules]: "ref_ok s v \<Longrightarrow> ref_ok s l \<Longrightarrow> okR s (cons_times n v l)"
proof (induction n arbitrary: s l)
  case (Suc n)
  then show ?case by (auto intro!: okR_bind [OF ok_cons] Suc.IH intro: ref_ok_later)
qed (simp add: sound_rules)

lemma ok_make_list [sound_rules]: "ref_ok s v \<Longrightarrow> okR s (siod_make_list x v)"
  unfolding siod_make_list_def
  by (intro okU_bind [OF ok_get_c_long] ok_cons_times) (auto intro: ref_ok_later)

lemma ok_butlast_rec: "ref_ok s x \<Longrightarrow> okR s (butlast_rec k x)"
proof (induction k arbitrary: s x)
  case (Suc k)
  then show ?case
    by (auto split: option.split obj.split
        intro!: okM_ret okM_err okM_look okR_bind [OF Suc.IH] ok_cons; blast intro: ref_ok_later)
qed (simp add: sound_rules)

lemma ok_butlast [sound_rules]: "ref_ok s x \<Longrightarrow> okR s (siod_butlast x)"
  unfolding siod_butlast_def by (intro okM_bind_gets ok_butlast_rec)

lemma ok_nconc [sound_rules]: "ref_ok s a \<Longrightarrow> ref_ok s b \<Longrightarrow> okR s (siod_nconc a b)"
  unfolding siod_nconc_def
  by (auto intro!: okM_if okM_ret okR_bind [OF ok_last] okR_bind [OF ok_setcdr]
      intro: ref_ok_later later_trans)

lemma ok_append2_step: "okR s (append2_step p2 p1)"
  unfolding append2_step_def
  by (intro okR_bind [OF ok_car] okR_bind [OF ok_setcar] ok_cdr)

lemma ok_append2 [sound_rules]:
  assumes "ref_ok s a" "ref_ok s b" shows "okR s (siod_append2 a b)"
proof -
  have step: "okR s (for_list k append2_step p l)" if "ref_ok s l" "ref_ok s p" for s k p l
    using that by (intro ok_for_list [where P = "\<lambda>v s. ref_ok s v"] ok_append2_step) (auto intro: ref_ok_later)
  show ?thesis
    unfolding siod_append2_def using assms
    by (intro okU_bind [OF ok_nlength] okR_bind [OF ok_cons_times] okM_bind_gets okR_bind [OF step] okM_ret)
       (auto intro: ref_ok_later later_trans)
qed

lemma ok_append_rec: "ref_ok s x \<Longrightarrow> okR s (append_rec k x)"
proof (induction k arbitrary: s x)
  case (Suc k)
  then show ?case
    by (auto intro!: okM_ret okM_if okR_bind [OF ok_cdr] okR_bind [OF ok_car] okR_bind [OF ok_cxr(4)]
        okR_bind [OF ok_cxr(2)] okR_bind [OF Suc.IH] ok_append2 ok_car intro: ref_ok_later)
qed (simp add: sound_rules)

lemma ok_append [sound_rules]: "ref_ok s x \<Longrightarrow> okR s (siod_append x)"
  unfolding siod_append_def by (intro okM_bind_gets ok_append_rec)

lemma ok_llist [sound_rules]: "ref_ok s x \<Longrightarrow> okR s (siod_llist x)"
  unfolding siod_llist_def by (rule okM_ret)

lemma ok_listn_fill [sound_rules]: "list_all (ref_ok s) xs \<Longrightarrow> okU s (listn_fill xs p)"
proof (induction xs arbitrary: s p)
  case (Cons x xs)
  then show ?case
    by (auto intro!: okR_bind [OF ok_setcar] okR_bind [OF ok_cdr] Cons.IH simp: list_all_iff)
      (meson ref_ok_later)
qed (simp add: sound_rules)

lemma ok_listn [sound_rules]: "list_all (ref_ok s) xs \<Longrightarrow> okR s (siod_listn xs)"
  unfolding siod_listn_def
  by (intro okR_bind [OF ok_cons_times] okU_bind [OF ok_listn_fill] okM_ret)
     (auto simp: list_all_iff intro: ref_ok_later)

end
