(* ===== verification/List_Facts.thy ===== *)
theory List_Facts
  imports Lists
begin

text \<open>
  What the list operations compute.  list_on s l as xs says that in the store of s the pointer l
  leads through the conses at the addresses as, whose cars are xs, to NIL.  The searches are proved
  once for every equality test that neither fails nor changes the state.
\<close>

section \<open>Lists in the store\<close>

fun list_seg :: "siod \<Rightarrow> siod_LISP \<Rightarrow> nat list \<Rightarrow> siod_LISP list \<Rightarrow> siod_LISP \<Rightarrow> bool" where
  "list_seg s r [] xs e = (r = e \<and> xs = [])"
| "list_seg s r (a # as) [] e = False"
| "list_seg s r (a # as) (x # xs) e = (r = Ref a \<and> a < length (cells s) \<and>
     (case cells s ! a of Tc_cons y d \<Rightarrow> y = x \<and> list_seg s d as xs e | _ \<Rightarrow> False))"

abbreviation list_on :: "siod \<Rightarrow> siod_LISP \<Rightarrow> nat list \<Rightarrow> siod_LISP list \<Rightarrow> bool" where
  "list_on s r as xs \<equiv> list_seg s r as xs NIL"

definition grow :: "obj list \<Rightarrow> siod \<Rightarrow> siod" where
  "grow obs s = s\<lparr>cells := cells s @ obs\<rparr>"

definition room :: "nat \<Rightarrow> siod \<Rightarrow> bool" where
  "room n s = (length (cells s) + n \<le> heap_size s)"

lemma list_seg_length: "list_seg s r as xs e \<Longrightarrow> length as = length xs"
  by (induction s r as xs e rule: list_seg.induct) (auto split: obj.splits)

lemma list_seg_Cons:
  "list_seg s r (a # as) ys e \<longleftrightarrow> (\<exists>x xs d. ys = x # xs \<and> r = Ref a \<and> a < length (cells s) \<and>
     cells s ! a = Tc_cons x d \<and> list_seg s d as xs e)"
  by (cases ys) (auto split: obj.splits)

lemma list_seg_Cons_vals:
  "list_seg s r as (x # xs) e \<longleftrightarrow> (\<exists>a as' d. as = a # as' \<and> r = Ref a \<and> a < length (cells s) \<and>
     cells s ! a = Tc_cons x d \<and> list_seg s d as' xs e)"
  by (cases as) (auto split: obj.splits)

lemma list_on_NIL [simp]: "list_on s NIL as xs \<longleftrightarrow> as = [] \<and> xs = []"
  by (cases as; cases xs) auto

lemma list_on_Ref:
  "list_on s (Ref a) as ys \<longleftrightarrow> (\<exists>as' x xs d. as = a # as' \<and> ys = x # xs \<and> a < length (cells s) \<and>
     cells s ! a = Tc_cons x d \<and> list_on s d as' xs)"
  by (cases as; cases ys) (auto split: obj.splits)

lemma list_seg_frame:
  assumes "list_seg s r as xs e" "\<And>a. a \<in> set as \<Longrightarrow> a < length (cells s) \<Longrightarrow>
     a < length (cells s') \<and> cells s' ! a = cells s ! a"
  shows "list_seg s' r as xs e"
  using assms
proof (induction as arbitrary: r xs)
  case (Cons a as)
  then show ?case by (auto simp: list_seg_Cons)
qed simp

lemma list_seg_addrs: "list_seg s r as xs e \<Longrightarrow> set as \<subseteq> {..<length (cells s)}"
  by (induction as arbitrary: r xs) (auto simp: list_seg_Cons)

lemma list_seg_grow: "list_seg s r as xs e \<Longrightarrow> list_seg (grow obs s) r as xs e"
  by (erule list_seg_frame) (simp add: grow_def nth_append)

lemma list_on_unique: "list_on s r as xs \<Longrightarrow> list_on s r bs ys \<Longrightarrow> as = bs \<and> xs = ys"
proof (induction as arbitrary: r xs bs ys)
  case (Cons a as)
  then show ?case by (cases bs) (auto simp: list_seg_Cons)
qed auto

lemma list_seg_append:
  "list_seg s r (as @ bs) ys e \<longleftrightarrow>
     (\<exists>d. list_seg s r as (take (length as) ys) d \<and> list_seg s d bs (drop (length as) ys) e)"
proof (induction as arbitrary: r ys)
  case (Cons a as)
  show ?case by (cases ys) (auto simp: Cons.IH split: obj.splits)
qed auto

lemma list_seg_appendI:
  "list_seg s r as xs d \<Longrightarrow> list_seg s d bs ys e \<Longrightarrow> list_seg s r (as @ bs) (xs @ ys) e"
  using list_seg_length [of s r as xs d] by (auto simp: list_seg_append)

text \<open>A list that ends in NIL visits no cell twice, so it is not longer than the store.\<close>

lemma list_on_distinct: "list_on s r as xs \<Longrightarrow> distinct as"
proof (induction as arbitrary: r xs)
  case (Cons a as)
  from Cons.prems obtain x ys d where c: "xs = x # ys" "cells s ! a = Tc_cons x d" "list_on s d as ys"
    "a < length (cells s)" "r = Ref a" by (auto simp: list_seg_Cons)
  have "a \<notin> set as"
  proof
    assume "a \<in> set as"
    then obtain us vs where as: "as = us @ a # vs" by (auto simp: in_set_conv_decomp)
    with c(3) obtain e where "list_on s e (a # vs) (drop (length us) ys)"
      by (auto simp: list_seg_append)
    moreover from this have "e = Ref a" by (auto simp: list_seg_Cons)
    ultimately have "a # vs = a # as" using Cons.prems c(5) list_on_unique by blast
    with as show False by (metis append_Cons length_append length_Cons not_add_less2 lessI list.inject)
  qed
  with Cons.IH c(3) show ?case by auto
qed simp

lemma list_on_bound: "list_on s r as xs \<Longrightarrow> length as < bound s"
proof -
  assume l: "list_on s r as xs"
  then have "card (set as) \<le> card {..<length (cells s)}" by (intro card_mono list_seg_addrs) auto
  moreover have "card (set as) = length as" using list_on_distinct [OF l] by (rule distinct_card)
  ultimately show ?thesis by (simp add: bound_def)
qed

lemma list_on_ok:
  assumes "wf_state s" "list_on s r as xs" shows "ref_ok s r" "list_all (ref_ok s) xs"
proof -
  show "ref_ok s r" using assms(2) by (cases as) (auto simp: list_seg_Cons ref_ok_def)
  show "list_all (ref_ok s) xs"
    using assms(2)
  proof (induction as arbitrary: r xs)
    case (Cons a as)
    then obtain x ys d where "xs = x # ys" "a < length (cells s)" "cells s ! a = Tc_cons x d"
      "list_on s d as ys" by (auto simp: list_seg_Cons)
    moreover from this have "ref_ok s x"
      using wf_obj_at [OF assms(1), of "Ref a"] by (simp add: obj_at_def)
    ultimately show ?case using Cons.IH by simp
  qed simp
qed

section \<open>Single steps\<close>

lemma grow_simps [simp]:
  "cells (grow obs s) = cells s @ obs" "heap_size (grow obs s) = heap_size s"
  "grow obs (grow obs' s) = grow (obs' @ obs) s" "grow [] s = s"
  by (simp_all add: grow_def)

lemma room_grow [simp]: "room n (grow obs s) = room (length obs + n) s"
  by (auto simp: room_def)

lemma newcell_run: "room (Suc n) s \<Longrightarrow> newcell ob s = (Ret (Ref (length (cells s))), grow [ob] s)"
  by (simp add: newcell_def alloc_def room_def grow_def)

lemma cons_run: "room (Suc n) s \<Longrightarrow>
    siod_cons x y s = (Ret (Ref (length (cells s))), grow [Tc_cons x y] s)"
  unfolding siod_cons_def by (rule newcell_run)

lemma bind_run: "m s = (Ret a, s') \<Longrightarrow> bindM m f s = f a s'"
  by (rule bindM_Ret)

lemma look_run [simp]: "a < length (cells s) \<Longrightarrow> look (Ref a) s = (Ret (Some (cells s ! a)), s)"
  by (simp add: look_def)

lemma obj_at_look: "obj_at s r = Some ob \<Longrightarrow> look r s = (Ret (Some ob), s)"
  by (auto simp: obj_at_def look_def split: siod_LISP.splits if_splits)

lemma gets_run [simp]: "bindM (gets f) g s = g (f s) s"
  by (simp add: bindM_def gets_def)

lemma look_NIL [simp]: "look NIL s = (Ret None, s)"
  by (simp add: look_def)

lemma ret_run [simp]: "ret a s = (Ret a, s)"
  by (simp add: ret_def)

lemma cons_cell_run:
  assumes "a < length (cells s)" "cells s ! a = Tc_cons x d"
  shows "siod_car (Ref a) s = (Ret x, s)" "siod_cdr (Ref a) s = (Ret d, s)"
    "CAR (Ref a) s = (Ret x, s)" "CDR (Ref a) s = (Ret d, s)"
    "siod_setcar (Ref a) v s = (Ret v, set_cell a (Tc_cons v d) s)"
    "siod_setcdr (Ref a) v s = (Ret v, set_cell a (Tc_cons x v) s)"
    "SET_CDR (Ref a) v s = (Ret (), set_cell a (Tc_cons x v) s)"
  using assms
  by (simp_all add: siod_car_def siod_cdr_def CAR_def CDR_def siod_setcar_def siod_setcdr_def
      SET_CDR_def bind_run store_def)

section \<open>Searches\<close>

text \<open>
  An equality test a search can be given: on valid pointers it answers without failing and
  without changing the state.
\<close>

locale pure_test =
  fixes test :: "siod_LISP \<Rightarrow> bool act"
    and holds :: "siod \<Rightarrow> siod_LISP \<Rightarrow> bool"
    and good :: "siod \<Rightarrow> bool"
  assumes test_run: "good s \<Longrightarrow> ref_ok s a \<Longrightarrow> test a s = (Ret (holds s a), s)"
begin

definition entry_key :: "siod \<Rightarrow> siod_LISP \<Rightarrow> bool" where
  "entry_key s t = (case obj_at s t of Some (Tc_cons a d) \<Rightarrow> holds s a | _ \<Rightarrow> False)"

lemma assoc_loop:
  assumes "wf_state s" "good s"
  shows "list_on s l as xs \<Longrightarrow> length as < k \<Longrightarrow>
    for_cons k (\<lambda>tmp l. bindM (look tmp) (\<lambda>ob. case ob of
         Some (Tc_cons a d) \<Rightarrow> bindM (test a) (\<lambda>b. ret (if b then Some tmp else None))
       | _ \<Rightarrow> ret None)) l s
    = (Ret (case List.find (entry_key s) xs of Some t \<Rightarrow> Inl t | None \<Rightarrow> Inr NIL), s)"
proof (induction as arbitrary: l xs k)
  case Nil
  then show ?case by (cases k) (auto simp: bind_run)
next
  case (Cons c as)
  then obtain x ys d k' where 1: "xs = x # ys" "l = Ref c" "c < length (cells s)"
    "cells s ! c = Tc_cons x d" "list_on s d as ys" "k = Suc k'" "length as < k'"
    by (cases k) (auto simp: list_seg_Cons)
  have x: "ref_ok s x" using list_on_ok(2) [OF assms(1) Cons.prems(1)] 1 by simp
  have body: "bindM (look x) (\<lambda>ob. case ob of
         Some (Tc_cons a d) \<Rightarrow> bindM (test a) (\<lambda>b. ret (if b then Some x else None))
       | _ \<Rightarrow> ret None) s = (Ret (if entry_key s x then Some x else None), s)"
    using wf_obj_at [OF assms(1), of x]
    by (auto simp: bind_run look_eq [OF x] entry_key_def test_run [OF assms(2)]
        split: option.split obj.split)
  show ?case
    using Cons.IH [OF 1(5,7)] by (simp add: 1 bind_run body cons_cell_run [OF 1(3,4)])
qed

lemma assoc_by_run:
  assumes "wf_state s" "good s" "list_on s l as xs"
  shows "assoc_by test msg l s = (Ret (case List.find (entry_key s) xs of Some t \<Rightarrow> t | None \<Rightarrow> NIL), s)"
  using assoc_loop [OF assms list_on_bound [OF assms(3)]]
  by (simp add: assoc_by_def bind_run search_end_def split: option.split)

lemma member_loop:
  assumes "wf_state s" "good s"
  shows "list_on s l as xs \<Longrightarrow> length as < k \<Longrightarrow>
    \<exists>r n. for_cons k (\<lambda>tmp l. bindM (test tmp) (\<lambda>b. ret (if b then Some l else None))) l s
        = (Ret (if r = NIL then Inr NIL else Inl r), s) \<and>
      list_on s r (drop n as) (dropWhile (\<lambda>x. \<not> holds s x) xs)"
proof (induction as arbitrary: l xs k)
  case Nil
  then show ?case by (cases k) (auto simp: bind_run intro!: exI [of _ NIL])
next
  case (Cons c as)
  then obtain x ys d k' where 1: "xs = x # ys" "l = Ref c" "c < length (cells s)"
    "cells s ! c = Tc_cons x d" "list_on s d as ys" "k = Suc k'" "length as < k'"
    by (cases k) (auto simp: list_seg_Cons)
  have x: "ref_ok s x" using list_on_ok(2) [OF assms(1) Cons.prems(1)] 1 by simp
  show ?case
  proof (cases "holds s x")
    case True
    have "list_on s (Ref c) (drop 0 (c # as)) xs" using Cons.prems 1(2) by simp
    then show ?thesis
      using True by (intro exI [of _ "Ref c"] exI [of _ 0])
        (simp add: 1 bind_run test_run [OF assms(2) x])
  next
    case False
    obtain r n where "for_cons k' (\<lambda>tmp l. bindM (test tmp) (\<lambda>b. ret (if b then Some l else None))) d s
        = (Ret (if r = NIL then Inr NIL else Inl r), s)"
      and "list_on s r (drop n as) (dropWhile (\<lambda>x. \<not> holds s x) ys)"
      using Cons.IH [OF 1(5,7)] by blast
    then show ?thesis
      using False by (intro exI [of _ r] exI [of _ "Suc n"])
        (simp add: 1 bind_run test_run [OF assms(2) x] cons_cell_run [OF 1(3,4)])
  qed
qed

lemma member_by_run:
  assumes "wf_state s" "good s" "list_on s l as xs"
  shows "\<exists>r n. member_by test msg l s = (Ret r, s) \<and>
     list_on s r (drop n as) (dropWhile (\<lambda>x. \<not> holds s x) xs)"
proof -
  obtain r n where "for_cons (bound s) (\<lambda>tmp l. bindM (test tmp) (\<lambda>b. ret (if b then Some l else None))) l s
        = (Ret (if r = NIL then Inr NIL else Inl r), s)"
    and "list_on s r (drop n as) (dropWhile (\<lambda>x. \<not> holds s x) xs)"
    using member_loop [OF assms list_on_bound [OF assms(3)]] by blast
  then show ?thesis
    by (intro exI [of _ r] exI [of _ n]) (simp add: member_by_def bind_run search_end_def)
qed

end

text \<open>Identity, and eqv with its comparison of the values of numbers.\<close>

definition eql_value :: "siod \<Rightarrow> siod_LISP \<Rightarrow> siod_LISP \<Rightarrow> bool" where
  "eql_value s x y = (x = y \<or> (case (obj_at s x, obj_at s y) of
     (Some (Tc_flonum a), Some (Tc_flonum b)) \<Rightarrow> deq a b | _ \<Rightarrow> False))"

lemma eql_run:
  assumes "wf_state s" "ref_ok s x" "ref_ok s y"
  shows "siod_eql x y s = (Ret (if eql_value s x y then sym_t s else NIL), s)"
  using assms
  by (auto simp: siod_eql_def eql_value_def bind_run look_eq gets_def
      split: option.split obj.split)

lemma wf_sym_t: "wf_state s \<Longrightarrow> sym_t s \<noteq> NIL"
  by (auto simp: wf_state_def symbol_at_def obj_at_def)

lemma eql_test_run:
  assumes "wf_state s" "ref_ok s x" "ref_ok s y"
  shows "bindM (siod_eql x y) (\<lambda>r. ret (r \<noteq> NIL)) s = (Ret (eql_value s x y), s)"
  using wf_sym_t [OF assms(1)] by (simp add: bind_run eql_run [OF assms])

interpretation eq_assoc: pure_test "\<lambda>a. ret (a = x)" "\<lambda>s a. a = x" "\<lambda>s. True" for x
  by unfold_locales simp

interpretation eq_member: pure_test "\<lambda>a. ret (x = a)" "\<lambda>s a. x = a" "\<lambda>s. True" for x
  by unfold_locales simp

interpretation eql_assoc: pure_test "\<lambda>a. bindM (siod_eql a x) (\<lambda>r. ret (r \<noteq> NIL))"
    "\<lambda>s a. eql_value s a x" "\<lambda>s. wf_state s \<and> ref_ok s x" for x
  by unfold_locales (simp add: eql_test_run)

interpretation eql_member: pure_test "\<lambda>a. bindM (siod_eql x a) (\<lambda>r. ret (r \<noteq> NIL))"
    "\<lambda>s a. eql_value s x a" "\<lambda>s. wf_state s \<and> ref_ok s x" for x
  by unfold_locales (simp add: eql_test_run)

section \<open>Lists that are built\<close>

lemma list_seg_new_cons:
  assumes "list_seg s r as xs e" "s' = grow [Tc_cons x r] s"
  shows "list_seg s' (Ref (length (cells s))) (length (cells s) # as) (x # xs) e"
  using list_seg_grow [OF assms(1), of "[Tc_cons x r]"] by (simp add: assms(2))

lemma car_cdr_step:
  assumes "list_on s l (a # as) ys"
  shows "\<exists>x xs d. ys = x # xs \<and> l = Ref a \<and> a < length (cells s) \<and> cells s ! a = Tc_cons x d \<and>
    list_on s d as xs \<and> siod_car l s = (Ret x, s) \<and> siod_cdr l s = (Ret d, s)"
  using assms by (auto simp: list_seg_Cons cons_cell_run)

lemma rev_upt_Suc: "rev [n..<n + Suc m] = rev [Suc n..<Suc n + m] @ [n]"
  by (simp add: upt_conv_Cons del: upt_Suc)

lemma reverse_loop:
  "list_on s l as xs \<Longrightarrow> list_on s acc cs ys \<Longrightarrow> length as < k \<Longrightarrow> room (length as) s \<Longrightarrow>
   \<exists>r obs. for_list k (\<lambda>p n. bindM (siod_car p) (\<lambda>x. siod_cons x n)) acc l s = (Ret r, grow obs s) \<and>
     length obs = length as \<and>
     list_on (grow obs s) r (rev [length (cells s)..<length (cells s) + length as] @ cs) (rev xs @ ys)"
proof (induction as arbitrary: s l xs acc cs ys k)
  case Nil
  then show ?case by (cases k) (auto intro: exI [of _ "[]"])
next
  case (Cons a as)
  then obtain x zs d k' where 1: "xs = x # zs" "l = Ref a" "a < length (cells s)" "cells s ! a = Tc_cons x d"
    "list_on s d as zs" "k = Suc k'" "length as < k'"
    by (cases k) (auto simp: list_seg_Cons)
  let ?s = "grow [Tc_cons x acc] s"
  have a: "a < length (cells ?s)" "cells ?s ! a = Tc_cons x d" using 1 by (simp_all add: nth_append)
  have "room (Suc (length as)) s" "room (length as) ?s" using Cons.prems(4) by simp_all
  moreover obtain r obs where "for_list k' (\<lambda>p n. bindM (siod_car p) (\<lambda>x. siod_cons x n))
        (Ref (length (cells s))) d ?s = (Ret r, grow obs ?s)" "length obs = length as"
    "list_on (grow obs ?s) r (rev [length (cells ?s)..<length (cells ?s) + length as] @ length (cells s) # cs)
        (rev zs @ x # ys)"
    using Cons.IH [OF list_seg_grow [OF 1(5)] list_seg_new_cons [OF Cons.prems(2) refl] 1(7)] calculation
    by blast
  moreover have "rev [length (cells s)..<length (cells s) + length (a # as)] =
      rev [length (cells ?s)..<length (cells ?s) + length as] @ [length (cells s)]"
    using rev_upt_Suc [of "length (cells s)" "length as"] by simp
  ultimately show ?case
    using 1 by (intro exI [of _ r] exI [of _ "Tc_cons x acc # obs"])
      (simp add: bind_run cons_cell_run [OF 1(3,4)] cons_cell_run [OF a] cons_run)
qed

lemma reverse_run:
  assumes "list_on s l as xs" "room (length xs) s"
  shows "\<exists>r obs. siod_reverse l s = (Ret r, grow obs s) \<and> length obs = length xs \<and>
    list_on (grow obs s) r (rev [length (cells s)..<length (cells s) + length xs]) (rev xs)"
  using reverse_loop [OF assms(1), of NIL "[]" "[]" "bound s"] list_on_bound [OF assms(1)] assms
    list_seg_length [OF assms(1)]
  by (auto simp: siod_reverse_def)

lemma copy_list_loop:
  "list_on s l as xs \<Longrightarrow> length as < k \<Longrightarrow> room (length as) s \<Longrightarrow>
   \<exists>r obs bs. copy_list_rec k l s = (Ret r, grow obs s) \<and> length obs = length as \<and>
     list_on (grow obs s) r bs xs \<and> set bs \<subseteq> {length (cells s)..<length (cells s) + length as}"
proof (induction as arbitrary: l xs k)
  case Nil
  then show ?case by (cases k) (auto intro: exI [of _ "[]"])
next
  case (Cons a as)
  then obtain x zs d k' where 1: "xs = x # zs" "l = Ref a" "a < length (cells s)" "cells s ! a = Tc_cons x d"
    "list_on s d as zs" "k = Suc k'" "length as < k'" "room (Suc (length as)) s"
    by (cases k) (auto simp: list_seg_Cons)
  then have "room (length as) s" by (simp add: room_def)
  from Cons.IH [OF 1(5,7) this] obtain r obs bs where
    2: "copy_list_rec k' d s = (Ret r, grow obs s)" "length obs = length as" "list_on (grow obs s) r bs zs"
    "set bs \<subseteq> {length (cells s)..<length (cells s) + length as}" by blast
  have "room (Suc 0) (grow obs s)" using 1 2 by simp
  from cons_run [OF this] have "siod_cons x r (grow obs s) = (Ret (Ref (length (cells s) + length as)),
      grow (obs @ [Tc_cons x r]) s)" using 2 by simp
  then show ?case
    using 1 2 list_seg_new_cons [OF 2(3) refl, of x]
    by (intro exI [of _ "Ref (length (cells s) + length as)"] exI [of _ "obs @ [Tc_cons x r]"]
        exI [of _ "(length (cells s) + length as) # bs"])
      (auto simp: bind_run cons_cell_run [OF 1(3,4)])
qed

lemma copy_list_run:
  assumes "list_on s l as xs" "room (length xs) s"
  shows "\<exists>r obs bs. siod_copy_list l s = (Ret r, grow obs s) \<and> list_on (grow obs s) r bs xs \<and>
    set bs \<inter> set as = {}"
proof -
  have n: "length as = length xs" using assms(1) by (rule list_seg_length)
  obtain r obs bs where "copy_list_rec (bound s) l s = (Ret r, grow obs s)" "list_on (grow obs s) r bs xs"
    "set bs \<subseteq> {length (cells s)..<length (cells s) + length as}"
    using copy_list_loop [OF assms(1) list_on_bound [OF assms(1)]] assms(2) n by auto
  moreover from this have "set bs \<inter> set as = {}" using list_seg_addrs [OF assms(1)] by force
  ultimately show ?thesis by (auto simp: siod_copy_list_def)
qed

lemma cons_times_run:
  "list_on s l as xs \<Longrightarrow> room n s \<Longrightarrow> \<exists>r obs.
     cons_times n v l s = (Ret r, grow obs s) \<and> length obs = n \<and>
     list_on (grow obs s) r (rev [length (cells s)..<length (cells s) + n] @ as) (replicate n v @ xs)"
proof (induction n arbitrary: s l as xs)
  case 0
  then show ?case by (auto intro: exI [of _ "[]"])
next
  case (Suc n)
  let ?s = "grow [Tc_cons v l] s"
  have "room n ?s" using Suc.prems(2) by simp
  from Suc.IH [OF list_seg_new_cons [OF Suc.prems(1) refl] this] obtain r obs where
    "cons_times n v (Ref (length (cells s))) ?s = (Ret r, grow obs ?s)" "length obs = n"
    "list_on (grow obs ?s) r (rev [length (cells ?s)..<length (cells ?s) + n] @ length (cells s) # as)
       (replicate n v @ v # xs)" by blast
  moreover have "rev [length (cells s)..<length (cells s) + Suc n] =
      rev [length (cells ?s)..<length (cells ?s) + n] @ [length (cells s)]"
    using rev_upt_Suc [of "length (cells s)" n] by simp
  moreover have "replicate n v @ v # xs = replicate (Suc n) v @ xs"
    by (simp add: replicate_app_Cons_same)
  ultimately show ?case
    by (intro exI [of _ r] exI [of _ "Tc_cons v l # obs"]) (simp add: bind_run cons_run [OF Suc.prems(2)])
qed

section \<open>Length and position\<close>

lemma cons_count_run:
  "list_on s l as xs \<Longrightarrow> length as < k \<Longrightarrow> cons_count k n l s = (Ret (n + length xs, NIL), s)"
proof (induction as arbitrary: l xs k n)
  case Nil
  then show ?case by (cases k) (auto simp: bind_run)
next
  case (Cons a as)
  then show ?case by (cases k) (auto simp: bind_run list_seg_Cons cons_cell_run)
qed

lemma nlength_run:
  assumes "list_on s l as xs" shows "siod_nlength l s = (Ret (length xs), s)"
  using assms cons_count_run [OF assms list_on_bound [OF assms], of 0]
  by (cases as) (auto simp: siod_nlength_def bind_run list_seg_Cons)

lemma cdr_down_run:
  "list_on s l as xs \<Longrightarrow> nat n < k \<Longrightarrow>
     \<exists>r. cdr_down k n l s = (Ret r, s) \<and> list_on s r (drop (nat n) as) (drop (nat n) xs)"
proof (induction as arbitrary: l xs k n)
  case Nil
  then show ?case by (cases k) (auto simp: bind_run is_cons_def)
next
  case (Cons a as)
  then obtain x zs d k' where 1: "xs = x # zs" "l = Ref a" "a < length (cells s)" "cells s ! a = Tc_cons x d"
    "list_on s d as zs" "k = Suc k'"
    by (cases k) (auto simp: list_seg_Cons)
  show ?case
  proof (cases "0 < n")
    case True
    then have m: "nat n = Suc (nat (n - 1))" by simp
    then have "nat (n - 1) < k'" using Cons.prems(2) 1(6) by simp
    with Cons.IH [OF 1(5) this] show ?thesis
      using True by (auto simp: 1 bind_run is_cons_def cons_cell_run [OF 1(3,4)] m)
  next
    case False
    then show ?thesis using Cons.prems(1) by (simp add: 1 bind_run is_cons_def)
  qed
qed

lemma last_loop_run:
  "list_seg s (Ref b) bs ys d \<Longrightarrow> bs \<noteq> [] \<Longrightarrow> list_on s d as xs \<Longrightarrow> length as < k \<Longrightarrow>
     last_loop k (Ref (last bs)) d s = (Ret (Ref (last (bs @ as))), s)"
proof (induction as arbitrary: bs ys d xs k)
  case Nil
  then show ?case by (cases k) (auto simp: bind_run is_cons_def)
next
  case (Cons a as)
  then obtain x zs d' k' where 1: "xs = x # zs" "d = Ref a" "a < length (cells s)" "cells s ! a = Tc_cons x d'"
    "list_on s d' as zs" "k = Suc k'" "length as < k'"
    by (cases k) (auto simp: list_seg_Cons)
  have "list_seg s (Ref b) (bs @ [a]) (ys @ [x]) d'"
    using Cons.prems(1) 1 by (auto intro: list_seg_appendI)
  from Cons.IH [OF this _ 1(5,7)] show ?case
    by (simp add: 1 bind_run is_cons_def cons_cell_run [OF 1(3,4)])
qed

lemma last_run:
  assumes "list_on s l as xs" "as \<noteq> []"
  shows "siod_last l s = (Ret (Ref (last as)), s)"
proof -
  obtain a bs where as: "as = a # bs" using assms(2) by (cases as) auto
  obtain x zs d where 1: "xs = x # zs" "l = Ref a" "a < length (cells s)" "cells s ! a = Tc_cons x d"
    "list_on s d bs zs" using assms(1) as by (auto simp: list_seg_Cons)
  have "length bs < bound s" using list_on_bound [OF 1(5)] .
  with 1 have "last_loop (bound s) (Ref a) d s = (Ret (Ref (last as)), s)"
    using last_loop_run [of s a "[a]" "[x]" d bs zs "bound s"] as by simp
  with 1 show ?thesis by (simp add: siod_last_def bind_run)
qed

section \<open>Lists that are changed in place\<close>

text \<open>Nothing but the cells in A has changed.\<close>

definition only_changes :: "nat set \<Rightarrow> siod \<Rightarrow> siod \<Rightarrow> bool" where
  "only_changes A s s' = (length (cells s') = length (cells s) \<and>
     (\<forall>a. a \<notin> A \<longrightarrow> cells s' ! a = cells s ! a) \<and> s' = s\<lparr>cells := cells s'\<rparr>)"

lemma only_changes_refl [simp]: "only_changes A s s"
  by (simp add: only_changes_def)

lemma only_changes_set_cell: "a \<in> A \<Longrightarrow> only_changes A s (set_cell a ob s)"
  by (simp add: only_changes_def set_cell_def) (metis nth_list_update_neq)

lemma only_changes_trans:
  assumes "only_changes A s1 s2" "only_changes B s2 s3"
  shows "only_changes (A \<union> B) s1 s3"
proof -
  have "s3 = s2\<lparr>cells := cells s3\<rparr>" "s2 = s1\<lparr>cells := cells s2\<rparr>" using assms by (simp_all add: only_changes_def)
  then have "s3 = s1\<lparr>cells := cells s3\<rparr>" by (metis siod.update_convs(1) siod.surjective)
  with assms show ?thesis by (simp add: only_changes_def)
qed

lemma only_changes_mono: "only_changes A s s' \<Longrightarrow> A \<subseteq> B \<Longrightarrow> only_changes B s s'"
  by (auto simp: only_changes_def)

lemma list_seg_only_changes:
  "list_seg s r as xs e \<Longrightarrow> only_changes A s s' \<Longrightarrow> set as \<inter> A = {} \<Longrightarrow> list_seg s' r as xs e"
  by (erule list_seg_frame) (auto simp: only_changes_def)

lemma set_cell_simps [simp]:
  "length (cells (set_cell a ob s)) = length (cells s)"
  "a < length (cells s) \<Longrightarrow> cells (set_cell a ob s) ! a = ob"
  "a \<noteq> b \<Longrightarrow> cells (set_cell a ob s) ! b = cells s ! b"
  by (simp_all add: set_cell_def)

lemma list_seg_set_cell: "list_seg s r as xs e \<Longrightarrow> a \<notin> set as \<Longrightarrow> list_seg (set_cell a ob s) r as xs e"
  by (rule list_seg_only_changes [where A = "{a}"]) (auto intro: only_changes_set_cell)

lemma nreverse_loop_run:
  "list_on s oldp as xs \<Longrightarrow> list_on s newp bs ys \<Longrightarrow> set as \<inter> set bs = {} \<Longrightarrow> length as < k \<Longrightarrow>
   \<exists>r s'. nreverse_loop k oldp newp s = (Ret r, s') \<and> only_changes (set as) s s' \<and>
     list_on s' r (rev as @ bs) (rev xs @ ys)"
proof (induction as arbitrary: s oldp xs newp bs ys k)
  case Nil
  then show ?case by (cases k) (auto simp: bind_run)
next
  case (Cons a as)
  then obtain x zs d k' where 1: "xs = x # zs" "oldp = Ref a" "a < length (cells s)"
    "cells s ! a = Tc_cons x d" "list_on s d as zs" "k = Suc k'" "length as < k'"
    by (cases k) (auto simp: list_seg_Cons)
  let ?s = "set_cell a (Tc_cons x newp) s"
  have a: "a \<notin> set as" using list_on_distinct [OF Cons.prems(1)] by simp
  have b: "a \<notin> set bs" using Cons.prems(3) by simp
  have "list_on ?s d as zs" using 1(5) a by (rule list_seg_set_cell)
  moreover have "list_on ?s (Ref a) (a # bs) (x # ys)"
    using list_seg_set_cell [OF Cons.prems(2) b] 1 by simp
  moreover have "set as \<inter> set (a # bs) = {}" using Cons.prems(3) a by auto
  ultimately obtain r s' where 2: "nreverse_loop k' d (Ref a) ?s = (Ret r, s')"
    "only_changes (set as) ?s s'" "list_on s' r (rev as @ a # bs) (rev zs @ x # ys)"
    using Cons.IH [of ?s d zs "Ref a" "a # bs" "x # ys" k'] 1(7) by blast
  have "only_changes (insert a (set as)) s s'"
    using only_changes_trans [OF only_changes_set_cell [of a "{a}"] 2(2)] by simp
  with 1 2 show ?case
    by (intro exI [of _ r] exI [of _ s']) (simp add: bind_run cons_cell_run [OF 1(3,4)])
qed

lemma nconc_run:
  assumes "list_on s a as xs" "as \<noteq> []"
  shows "\<exists>s'. siod_nconc a b s = (Ret a, s') \<and> only_changes {last as} s s' \<and> list_seg s' a as xs b"
proof -
  obtain us c where as: "as = us @ [c]" using assms(2) by (metis append_butlast_last_id)
  obtain vs x d where seg: "xs = vs @ [x]" "list_seg s a us vs d" "list_on s d [c] [x]"
    "length us = length vs"
    using assms(1) list_seg_length [OF assms(1)] unfolding as
    by (cases xs rule: rev_cases) (auto simp: list_seg_append)
  then have c: "d = Ref c" "c < length (cells s)" "cells s ! c = Tc_cons x NIL"
    by (auto simp: list_seg_Cons)
  let ?s = "set_cell c (Tc_cons x b) s"
  have "c \<notin> set us" using list_on_distinct [OF assms(1)] as by simp
  then have "list_seg ?s a us vs (Ref c)" using seg(2) c(1) by (simp add: list_seg_set_cell)
  moreover have "list_seg ?s (Ref c) [c] [x] b" using c by simp
  ultimately have "list_seg ?s a as xs b" unfolding as seg(1) by (rule list_seg_appendI)
  moreover have "a \<noteq> NIL" using assms by auto
  moreover have "siod_last a s = (Ret (Ref c), s)" using last_run [OF assms] as by simp
  ultimately show ?thesis
    using only_changes_set_cell [of c "{c}"] as
    by (intro exI [of _ ?s]) (simp add: siod_nconc_def bind_run cons_cell_run [OF c(2,3)])
qed

lemma delq_loop:
  "list_on s l as xs \<Longrightarrow> length as < k \<Longrightarrow>
   \<exists>r s' bs. delq_rec k e l s = (Ret r, s') \<and> only_changes (set as) s s' \<and>
     list_on s' r bs (removeAll e xs) \<and> set bs \<subseteq> set as"
proof (induction as arbitrary: l xs k)
  case Nil
  then show ?case by (cases k) (auto intro: exI [of _ "[]"])
next
  case (Cons a as)
  then obtain x zs d k' where 1: "xs = x # zs" "l = Ref a" "a < length (cells s)"
    "cells s ! a = Tc_cons x d" "list_on s d as zs" "k = Suc k'" "length as < k'"
    by (cases k) (auto simp: list_seg_Cons)
  have a: "a \<notin> set as" using list_on_distinct [OF Cons.prems(1)] by simp
  obtain r s' bs where 2: "delq_rec k' e d s = (Ret r, s')" "only_changes (set as) s s'"
    "list_on s' r bs (removeAll e zs)" "set bs \<subseteq> set as"
    using Cons.IH [OF 1(5,7)] by blast
  show ?case
  proof (cases "e = x")
    case True
    then show ?thesis
      using 1 2 only_changes_mono [OF 2(2), of "insert a (set as)"]
      by (intro exI [of _ r] exI [of _ s'] exI [of _ bs])
        (auto simp: bind_run cons_cell_run [OF 1(3,4)])
  next
    case False
    have a': "a < length (cells s')" "cells s' ! a = Tc_cons x d"
      using 1(3,4) 2(2) a by (simp_all add: only_changes_def)
    let ?s = "set_cell a (Tc_cons x r) s'"
    have "list_on ?s (Ref a) (a # bs) (x # removeAll e zs)"
      using list_seg_set_cell [OF 2(3), of a] a 2(4) a' by auto
    moreover have "only_changes (insert a (set as)) s ?s"
      using only_changes_trans [OF 2(2) only_changes_set_cell [of a "{a}"]] by simp
    ultimately show ?thesis
      using False 1 2(1,4) by (intro exI [of _ "Ref a"] exI [of _ ?s] exI [of _ "a # bs"])
        (auto simp: bind_run cons_cell_run [OF 1(3,4)] cons_cell_run [OF a'])
  qed
qed

text \<open>The copy loops of append2 fill the fresh conses from the front.\<close>

lemma append2_fill:
  "list_on s l as xs \<Longrightarrow> list_on s p bs ys \<Longrightarrow> length as \<le> length bs \<Longrightarrow> set as \<inter> set bs = {} \<Longrightarrow>
   length as < k \<Longrightarrow>
   \<exists>q s'. for_list k append2_step p l s = (Ret q, s') \<and> only_changes (set bs) s s' \<and>
     list_seg s' p (take (length as) bs) xs q \<and>
     list_on s' q (drop (length as) bs) (drop (length as) ys)"
proof (induction as arbitrary: s l xs p bs ys k)
  case Nil
  then show ?case by (cases k) auto
next
  case (Cons a as)
  then obtain x zs d k' b bs' where 1: "xs = x # zs" "l = Ref a" "a < length (cells s)"
    "cells s ! a = Tc_cons x d" "list_on s d as zs" "k = Suc k'" "length as < k'" "bs = b # bs'"
    by (cases k; cases bs) (auto simp: list_seg_Cons)
  then obtain y ys' d' where 2: "ys = y # ys'" "p = Ref b" "b < length (cells s)" "cells s ! b = Tc_cons y d'"
    "list_on s d' bs' ys'" using Cons.prems(2) by (auto simp: list_seg_Cons)
  let ?s = "set_cell b (Tc_cons x d') s"
  have ab: "b \<noteq> a" "b \<notin> set as" "b \<notin> set bs'" using Cons.prems(2,4) 1(8) list_on_distinct by fastforce+
  have a': "a < length (cells ?s)" "cells ?s ! a = Tc_cons x d" using 1 ab by simp_all
  have b': "b < length (cells ?s)" "cells ?s ! b = Tc_cons x d'" using 2 by simp_all
  have "list_on ?s d as zs" using 1(5) ab by (simp add: list_seg_set_cell)
  moreover have "list_on ?s d' bs' ys'" using 2(5) ab by (simp add: list_seg_set_cell)
  moreover have "set as \<inter> set bs' = {}" "length as \<le> length bs'" using Cons.prems(3,4) 1(8) by auto
  ultimately obtain q s' where 3: "for_list k' append2_step d' d ?s = (Ret q, s')"
    "only_changes (set bs') ?s s'" "list_seg s' d' (take (length as) bs') zs q"
    "list_on s' q (drop (length as) bs') (drop (length as) ys')"
    using Cons.IH [of ?s d zs d' bs' ys' k'] 1(7) by blast
  have "only_changes (insert b (set bs')) s s'"
    using only_changes_trans [OF only_changes_set_cell [of b "{b}"] 3(2)] by simp
  moreover have "list_seg s' p (take (length (a # as)) bs) xs q"
    using 3(2,3) b' ab(3) 1(1,8) 2(2) by (simp add: only_changes_def)
  moreover have "append2_step (Ref a) (Ref b) s = (Ret d', ?s)"
    by (simp add: bind_run append2_step_def cons_cell_run [OF 1(3,4)] cons_cell_run [OF 2(3,4)]
        cons_cell_run [OF b'])
  ultimately show ?case
    using 1 2 3 by (intro exI [of _ q] exI [of _ s']) (simp add: bind_run cons_cell_run [OF a'])
qed

lemma append2_run:
  assumes "list_on s a as xs" "list_on s b bs ys" "room (length xs + length ys) s"
  shows "\<exists>r s' cs. siod_append2 a b s = (Ret r, s') \<and> list_on s' r cs (xs @ ys) \<and>
    (\<forall>c<length (cells s). cells s' ! c = cells s ! c) \<and> length (cells s) \<le> length (cells s') \<and>
    set cs \<inter> {..<length (cells s)} = {}"
proof -
  let ?n = "length xs + length ys"
  let ?cs = "rev [length (cells s)..<length (cells s) + ?n]"
  have n: "length as = length xs" "length bs = length ys" using assms(1,2) list_seg_length by blast+
  obtain r obs where 1: "cons_times ?n NIL NIL s = (Ret r, grow obs s)"
    "list_on (grow obs s) r ?cs (replicate ?n NIL)"
    using cons_times_run [of s NIL "[]" "[]" ?n NIL] assms(3) by auto
  let ?s = "grow obs s" and ?k = "bound (grow obs s)"
  have l: "list_on ?s a as xs" "list_on ?s b bs ys" using assms(1,2) by (simp_all add: list_seg_grow)
  have dj: "set as \<inter> set ?cs = {}" "set bs \<inter> set ?cs = {}"
    using list_seg_addrs [OF assms(1)] list_seg_addrs [OF assms(2)] by force+
  obtain q s1 where 2: "for_list ?k append2_step r a ?s = (Ret q, s1)" "only_changes (set ?cs) ?s s1"
    "list_seg s1 r (take (length as) ?cs) xs q"
    "list_on s1 q (drop (length as) ?cs) (drop (length as) (replicate ?n NIL))"
    using append2_fill [OF l(1) 1(2) _ dj(1) list_on_bound [OF l(1)]] n by auto
  have l2: "list_on s1 b bs ys" using l(2) 2(2) dj(2) by (rule list_seg_only_changes)
  have dj2: "set bs \<inter> set (drop (length as) ?cs) = {}" using dj(2) set_drop_subset by fastforce
  obtain e s2 where 3: "for_list ?k append2_step q b s1 = (Ret e, s2)"
    "only_changes (set (drop (length as) ?cs)) s1 s2"
    "list_seg s2 q (take (length bs) (drop (length as) ?cs)) ys e"
    "list_on s2 e (drop (length bs) (drop (length as) ?cs)) (drop (length bs) (drop (length as) (replicate ?n NIL)))"
    using append2_fill [OF l2 2(4) _ dj2, of ?k] n list_on_bound [OF l(2)] by auto
  have "e = NIL" "take (length bs) (drop (length as) ?cs) = drop (length as) ?cs" using 3(4) n by simp_all
  moreover have "set (take (length as) ?cs) \<inter> set (drop (length as) ?cs) = {}"
    by (rule set_take_disj_set_drop_if_distinct) simp_all
  ultimately have "list_seg s2 r (take (length as) ?cs) xs q" "list_on s2 q (drop (length as) ?cs) ys"
    using list_seg_only_changes [OF 2(3) 3(2)] 3(3) by auto
  then have "list_on s2 r (take (length as) ?cs @ drop (length as) ?cs) (xs @ ys)"
    by (rule list_seg_appendI)
  then have "list_on s2 r ?cs (xs @ ys)" by (simp only: append_take_drop_id)
  moreover have "only_changes (set ?cs) ?s s2"
    using only_changes_trans [OF 2(2) 3(2)]
    by (rule only_changes_mono) (meson Un_least order_refl set_drop_subset)
  moreover have "siod_append2 a b s = (Ret r, s2)"
    by (simp add: siod_append2_def bind_run nlength_run [OF assms(1)] nlength_run [OF assms(2)] 1(1) 2(1) 3(1))
  ultimately show ?thesis
    by (intro exI [of _ r] exI [of _ s2] exI [of _ ?cs]) (auto simp: only_changes_def nth_append)
qed

end
