(* ===== verification/Symbol_Facts.thy ===== *)
theory Symbol_Facts
  imports List_Facts
begin

text \<open>
  Interning: the result is a symbol of the given name, and a second call with that name finds it
  and changes nothing.
\<close>


lemma intern_find_props:
  assumes "intern_find k name l s = (Ret found, s')"
  shows "s' = s \<and> (\<forall>r. found = Some r \<longrightarrow> (\<exists>v. obj_at s r = Some (Tc_symbol name v)))"
  using assms
proof (induction k arbitrary: l)
  case (Suc k)
  show ?case
  proof (cases l)
    case NIL
    with Suc.prems show ?thesis by simp
  next
    case (Ref a)
    show ?thesis
    proof (cases "a < length (cells s) \<and> (\<exists>x d. cells s ! a = Tc_cons x d)")
      case True
      then obtain x d where a: "a < length (cells s)" "cells s ! a = Tc_cons x d" by blast
      show ?thesis
      proof (cases "ref_ok s x \<and> (\<exists>p v. obj_at s x = Some (Tc_symbol p v))")
        case True
        then obtain p v where x: "ref_ok s x" "obj_at s x = Some (Tc_symbol p v)" by blast
        show ?thesis
          using Suc.prems Ref Suc.IH [of d] x
          by (auto simp: bind_run cons_cell_run [OF a] look_eq [OF x(1)] split: if_splits)
      next
        case False
        then show ?thesis
          using Suc.prems Ref
          by (auto simp: bind_run cons_cell_run [OF a] look_cases undef_def split: option.splits obj.splits if_splits)
            (auto simp: bindM_def look_cases undef_def split: option.splits obj.splits if_splits)
      qed
    next
      case False
      then show ?thesis
        using Suc.prems Ref
        by (auto simp: CAR_def bindM_def look_def undef_def split: option.splits obj.splits if_splits)
    qed
  qed
qed (simp add: nofuel_def)

lemma bindM_RetE:
  assumes "bindM m f s = (Ret b, s2)"
  obtains a s1 where "m s = (Ret a, s1)" "f a s1 = (Ret b, s2)"
  using assms by (cases "m s"; cases "fst (m s)") (auto simp: bindM_def)

lemma newcell_Ret: "newcell ob s = (Ret r, s') \<longleftrightarrow>
    length (cells s) < heap_size s \<and> r = Ref (length (cells s)) \<and> s' = grow [ob] s"
proof (cases "length (cells s) < heap_size s")
  case False
  have "\<nexists>r s'. (errm m x :: siod_LISP act) s = (Ret r, s')" for m x
    by (auto simp: err_def Let_def split: prod.splits option.splits if_splits)
  with False show ?thesis by (auto simp: newcell_def alloc_def)
qed (auto simp: newcell_def alloc_def grow_def)

lemma intern_new_props:
  assumes "intern_new name tab i sl s = (Ret r, s')" "tab \<Longrightarrow> i < length (obarray s)"
  shows "\<exists>v p. length (cells s) < length (cells s') \<and> r = Ref (length (cells s)) \<and>
    obj_at s' r = Some (Tc_symbol name v) \<and>
    (if tab then obarray s' ! i = p else oblistvar s' = p) \<and> obarray_dim s' = obarray_dim s \<and>
    (\<exists>d. obj_at s' p = Some (Tc_cons r d))"
  using assms
  by (auto simp: intern_new_def gets_def modifyM_def siod_symcons_def siod_cons_def newcell_Ret
      obj_at_def grow_def nth_append elim!: bindM_RetE split: if_splits)

lemma intern_facts:
  assumes "wf_state s" "siod_gen_siod_intern name s = (Ret r, s1)"
  shows "(\<exists>v. obj_at s1 r = Some (Tc_symbol name v)) \<and> siod_gen_siod_intern name s1 = (Ret r, s1)"
proof -
  let ?tab = "1 < obarray_dim s" and ?h = "intern_hash (int (obarray_dim s)) 0 name"
  let ?sl = "if ?tab then obarray s ! nat ?h else oblistvar s"
  have h: "\<not> (?tab \<and> ?h < 0)"
    using assms(2) by (auto simp: siod_gen_siod_intern_def bindM_def gets_def undef_def)
  then have "bindM (intern_find (Suc (length (cells s))) name ?sl)
      (\<lambda>found. case found of Some sy \<Rightarrow> ret sy | None \<Rightarrow> intern_new name ?tab (nat ?h) ?sl) s = (Ret r, s1)"
    using assms(2) by (simp only: siod_gen_siod_intern_def gets_run prod.case h if_False)
  then obtain found s2 where f: "intern_find (Suc (length (cells s))) name ?sl s = (Ret found, s2)"
    and rest: "(case found of Some sy \<Rightarrow> ret sy | None \<Rightarrow> intern_new name ?tab (nat ?h) ?sl) s2 = (Ret r, s1)"
    by (rule bindM_RetE)
  have s2: "s2 = s" and sy: "found = Some q \<Longrightarrow> \<exists>v. obj_at s q = Some (Tc_symbol name v)" for q
    using intern_find_props [OF f] by auto
  show ?thesis
  proof (cases found)
    case (Some q)
    then have "r = q" "s1 = s" using rest s2 by simp_all
    with Some assms(2) sy show ?thesis by auto
  next
    case None
    then have new: "intern_new name ?tab (nat ?h) ?sl s = (Ret r, s1)" using rest s2 by simp
    have i: "nat ?h < length (obarray s)" if "?tab"
      using assms(1) that h hash_in_range [of "int (obarray_dim s)" 0 name]
      by (simp add: wf_state_def obarray_ok_def)
    obtain v p d where 1: "obj_at s1 r = Some (Tc_symbol name v)" "obarray_dim s1 = obarray_dim s"
      "(if ?tab then obarray s1 ! nat ?h else oblistvar s1) = p" "obj_at s1 p = Some (Tc_cons r d)"
      using intern_new_props [OF new i] by (auto split: if_splits)
    have p: "ref_ok s1 p" "p \<noteq> NIL" "ref_ok s1 r"
      using 1 by (auto simp: obj_at_def ref_ok_def split: siod_LISP.splits if_splits)
    then obtain a where a: "p = Ref a" "a < length (cells s1)" "cells s1 ! a = Tc_cons r d"
      using 1(4) by (auto simp: obj_at_def split: siod_LISP.splits if_splits)
    have "intern_find (Suc (length (cells s1))) name p s1 = (Ret (Some r), s1)"
      using 1(1) p(3) a by (simp add: bind_run cons_cell_run look_eq)
    then have "siod_gen_siod_intern name s1 = (Ret r, s1)"
      using h 1(2,3) by (auto simp: siod_gen_siod_intern_def bind_run gets_def)
    with 1(1) show ?thesis by blast
  qed
qed

end
