(* ===== verification/Env.thy ===== *)
theory Env
  imports Symbol_Facts
begin

text \<open>
  Environments (slib.c): a list of frames, each a cons of the formal parameters and the values.  A
  lookup gives the cons whose car is the value; for a rest parameter, where there is no such cons,
  it makes a fresh one.  A variable with no binding has its value in its symbol.
\<close>

section \<open>The operations\<close>

definition siod_extend_env :: "siod_LISP \<Rightarrow> siod_LISP \<Rightarrow> siod_LISP \<Rightarrow> siod_LISP act" where
  "siod_extend_env actuals formals env = bindM (look formals) (\<lambda>ob. case ob of
       Some (Tc_symbol p v) \<Rightarrow>
         bindM (siod_cons formals NIL) (\<lambda>f. bindM (siod_cons actuals NIL) (\<lambda>a.
         bindM (siod_cons f a) (\<lambda>fr. siod_cons fr env)))
     | _ \<Rightarrow> bindM (siod_cons formals actuals) (\<lambda>fr. siod_cons fr env))"

text \<open>The inner loop, over the formals and actuals of the frame tmp: the cons found, or where it ended.\<close>

fun frame_scan :: "nat \<Rightarrow> siod_LISP \<Rightarrow> siod_LISP \<Rightarrow> siod_LISP \<Rightarrow> siod_LISP \<Rightarrow>
    (siod_LISP + siod_LISP \<times> siod_LISP) act" where
  "frame_scan 0 var tmp fl al = nofuel"
| "frame_scan (Suc k) var tmp fl al = bindM (look fl) (\<lambda>ob. case ob of
       Some (Tc_cons f fl') \<Rightarrow> bindM (look al) (\<lambda>ob'. case ob' of
           Some (Tc_cons a al') \<Rightarrow>
             if f = var then ret (Inl al) else frame_scan k var tmp fl' al'
         | _ \<Rightarrow> errm ''too few arguments'' tmp)
     | _ \<Rightarrow> ret (Inr (fl, al)))"

fun env_scan :: "nat \<Rightarrow> siod_LISP \<Rightarrow> siod_LISP \<Rightarrow> siod_LISP \<Rightarrow> siod_LISP act" where
  "env_scan 0 var env frame = nofuel"
| "env_scan (Suc k) var env frame = bindM (look frame) (\<lambda>ob. case ob of
       Some (Tc_cons tmp next) \<Rightarrow> bindM (look tmp) (\<lambda>ob'. case ob' of
           Some (Tc_cons fl al) \<Rightarrow>
             bindM (gets bound) (\<lambda>n. bindM (frame_scan n var tmp fl al) (\<lambda>r. case r of
                 Inl al' \<Rightarrow> ret al'
               | Inr (fl', al') \<Rightarrow> bindM (look fl') (\<lambda>ob''. case ob'' of
                   Some (Tc_symbol p v) \<Rightarrow>
                     if fl' = var then siod_cons al' NIL else env_scan k var env next
                 | _ \<Rightarrow> env_scan k var env next)))
         | _ \<Rightarrow> errm ''damaged frame'' tmp)
     | _ \<Rightarrow> if frame \<noteq> NIL then errm ''damaged env'' env else ret NIL)"

definition siod_envlookup :: "siod_LISP \<Rightarrow> siod_LISP \<Rightarrow> siod_LISP act" where
  "siod_envlookup var env = bindM (gets bound) (\<lambda>k. env_scan k var env env)"

definition siod_err_ubv :: "siod_LISP \<Rightarrow> siod_LISP act" where
  "siod_err_ubv v = errm ''unbound variable'' v"

text \<open>Storing into the value cell of a symbol.\<close>

definition SET_VCELL :: "siod_LISP \<Rightarrow> siod_LISP \<Rightarrow> unit act" where
  "SET_VCELL var val = bindM (look var) (\<lambda>ob. case ob of
       Some (Tc_symbol p v) \<Rightarrow> store var (Tc_symbol p val) | _ \<Rightarrow> undef)"

definition VCELL :: "siod_LISP \<Rightarrow> siod_LISP act" where
  "VCELL var = bindM (look var) (\<lambda>ob. case ob of Some (Tc_symbol p v) \<Rightarrow> ret v | _ \<Rightarrow> undef)"

definition is_symbol :: "obj option \<Rightarrow> bool" where
  "is_symbol ob = (case ob of Some (Tc_symbol p v) \<Rightarrow> True | _ \<Rightarrow> False)"

definition siod_setvar :: "siod_LISP \<Rightarrow> siod_LISP \<Rightarrow> siod_LISP \<Rightarrow> siod_LISP act" where
  "siod_setvar var val env = bindM (look var) (\<lambda>ob.
     if \<not> is_symbol ob then errm ''wta(non-symbol) to siod_setvar'' var
     else bindM (siod_envlookup var env) (\<lambda>tmp.
       if tmp = NIL then bindM (SET_VCELL var val) (\<lambda>_. ret val)
       else bindM (SET_CAR tmp val) (\<lambda>_. ret val)))"

definition siod_symbol_boundp :: "siod_LISP \<Rightarrow> siod_LISP \<Rightarrow> siod_LISP act" where
  "siod_symbol_boundp x env = bindM (look x) (\<lambda>ob.
     if \<not> is_symbol ob then errm ''not a symbol'' x
     else bindM (siod_envlookup x env) (\<lambda>tmp.
       if tmp \<noteq> NIL then gets sym_t
       else bindM (VCELL x) (\<lambda>v. bindM (gets unbound_marker) (\<lambda>u.
            if v = u then ret NIL else gets sym_t))))"

text \<open>The value of a symbol: the tail of symbol-value, and of the case of symbols in the evaluator.\<close>

definition variable_value :: "siod_LISP \<Rightarrow> siod_LISP \<Rightarrow> siod_LISP act" where
  "variable_value x env = bindM (siod_envlookup x env) (\<lambda>tmp.
     if tmp \<noteq> NIL then CAR tmp
     else bindM (VCELL x) (\<lambda>v. bindM (gets unbound_marker) (\<lambda>u.
          if v = u then siod_err_ubv x else ret v)))"

definition siod_symbol_value :: "siod_LISP \<Rightarrow> siod_LISP \<Rightarrow> siod_LISP act" where
  "siod_symbol_value x env = bindM (look x) (\<lambda>ob.
     if \<not> is_symbol ob then errm ''not a symbol'' x else variable_value x env)"

section \<open>They keep the invariant\<close>

lemma ok_extend_env [sound_rules]:
  assumes "ref_ok s a" "ref_ok s f" "ref_ok s e" shows "okR s (siod_extend_env a f e)"
proof -
  have 1: "okR s (bindM (siod_cons f NIL) (\<lambda>f. bindM (siod_cons a NIL) (\<lambda>a.
         bindM (siod_cons f a) (\<lambda>fr. siod_cons fr e))))"
    using assms by (intro okR_bind [OF ok_cons] ok_cons) (auto intro: ref_ok_later later_trans)
  have 2: "okR s (bindM (siod_cons f a) (\<lambda>fr. siod_cons fr e))"
    using assms by (intro okR_bind [OF ok_cons] ok_cons) (auto intro: ref_ok_later)
  show ?thesis
    unfolding siod_extend_env_def by (rule okM_look) (auto split: option.split obj.split intro: 1 2)
qed

lemma ok_frame_scan:
  "ref_ok s tmp \<Longrightarrow> ref_ok s fl \<Longrightarrow> ref_ok s al \<Longrightarrow>
   okM s (frame_scan k var tmp fl al) (\<lambda>r s'. (\<forall>c. r = Inl c \<longrightarrow> ref_ok s' c) \<and>
     (\<forall>f a. r = Inr (f, a) \<longrightarrow> ref_ok s' f \<and> ref_ok s' a))"
proof (induction k arbitrary: fl al)
  case (Suc k)
  then show ?case
    by (auto split: option.split obj.split intro!: okM_look okM_ret okM_err Suc.IH)
qed (simp add: sound_rules)

lemma ok_env_scan: "ref_ok s env \<Longrightarrow> ref_ok s frame \<Longrightarrow> okR s (env_scan k var env frame)"
proof (induction k arbitrary: s frame)
  case (Suc k)
  have inner: "okR s' (case r of Inl al' \<Rightarrow> ret al'
     | Inr (fl', al') \<Rightarrow> bindM (look fl') (\<lambda>ob''. case ob'' of
         Some (Tc_symbol p v) \<Rightarrow> if fl' = var then siod_cons al' NIL else env_scan k var env next
       | _ \<Rightarrow> env_scan k var env next))"
    if "ref_ok s' env" "ref_ok s' next" "(\<forall>c. r = Inl c \<longrightarrow> ref_ok s' c) \<and>
     (\<forall>f a. r = Inr (f, a) \<longrightarrow> ref_ok s' f \<and> ref_ok s' a)" for r s' "next"
    using that
    by (auto split: sum.split option.split obj.split intro!: okM_look okM_ret okM_if ok_cons Suc.IH)
  have frame: "okR s1 (bindM (gets bound) (\<lambda>n. bindM (frame_scan n var tmp fl al) (\<lambda>r. case r of
        Inl al' \<Rightarrow> ret al'
      | Inr (fl', al') \<Rightarrow> bindM (look fl') (\<lambda>ob''. case ob'' of
          Some (Tc_symbol p v) \<Rightarrow> if fl' = var then siod_cons al' NIL else env_scan k var env next
        | _ \<Rightarrow> env_scan k var env next))))"
    if "ref_ok s1 env" "ref_ok s1 next" "ref_ok s1 tmp" "ref_ok s1 fl" "ref_ok s1 al" for s1 tmp "next" fl al
    by (intro okM_bind_gets okM_bind [OF ok_frame_scan] inner) (use that in \<open>auto intro: ref_ok_later\<close>)
  show ?case
    using Suc.prems
    by (auto split: option.split obj.split intro!: okM_look okM_ret okM_err frame simp del: gets_run)
qed (simp add: sound_rules)

lemma ok_envlookup [sound_rules]: "ref_ok s env \<Longrightarrow> okR s (siod_envlookup var env)"
  unfolding siod_envlookup_def by (intro okM_bind_gets ok_env_scan)

lemma ok_SET_VCELL [sound_rules]: "ref_ok s v \<Longrightarrow> okU s (SET_VCELL x v)"
  unfolding SET_VCELL_def
  by (rule okM_look) (auto split: option.split obj.split intro!: sound_rules okM_store)

lemma ok_VCELL [sound_rules]: "okR s (VCELL x)"
  unfolding VCELL_def
  by (rule okM_look) (auto split: option.split obj.split intro!: sound_rules)

lemma ok_setvar [sound_rules]:
  assumes "ref_ok s env" "ref_ok s v" "ref_ok s x" shows "okR s (siod_setvar x v env)"
  unfolding siod_setvar_def
  by (intro okM_look okM_if okM_err okR_bind [OF ok_envlookup] okU_bind [OF ok_SET_VCELL]
      okU_bind [OF ok_SET_CAR] okM_ret)
    (use assms in \<open>auto intro: ref_ok_later later_trans\<close>)

lemma ok_symbol_boundp [sound_rules]: "ref_ok s x \<Longrightarrow> ref_ok s env \<Longrightarrow> okR s (siod_symbol_boundp x env)"
  unfolding siod_symbol_boundp_def
  by (intro okM_look okM_if okM_err okR_bind [OF ok_envlookup] okR_bind [OF ok_VCELL]
      okM_bind_gets okM_gets okM_ret)
    (auto simp: wf_global_refs intro: ref_ok_later)

lemma ok_variable_value [sound_rules]: "ref_ok s x \<Longrightarrow> ref_ok s env \<Longrightarrow> okR s (variable_value x env)"
  unfolding variable_value_def siod_err_ubv_def
  by (intro okM_if okM_err okR_bind [OF ok_envlookup] okR_bind [OF ok_VCELL] okM_bind_gets okM_ret ok_CAR)
    (auto intro: ref_ok_later later_trans)

lemma ok_symbol_value [sound_rules]: "ref_ok s x \<Longrightarrow> ref_ok s env \<Longrightarrow> okR s (siod_symbol_value x env)"
  unfolding siod_symbol_value_def
  by (intro okM_look okM_if okM_err ok_variable_value) auto

end
