(* ===== verification/Eval.thy ===== *)
theory Eval
  imports Env
begin

text \<open>
  The evaluator (slib.c, and mapcar, funcall, cond, prog1 of sliba.c).  Every C function that may
  call the evaluator is a definition over rc, the function that serves its recursive calls, and
  over a bound k on the turns of its loops.  The function run closes the recursion with fuel; a
  computation of the C code that ends is one that ends for some fuel, and then for every larger one.
  Arguments of a C call are evaluated from left to right.
\<close>

section \<open>Requests\<close>

datatype request =
    Eval siod_LISP siod_LISP
  | Apply siod_LISP siod_LISP
  | Call1 fn1 siod_LISP
  | Call2 fn2 siod_LISP siod_LISP
  | Call_C string "siod_LISP list"

type_synonym server = "request \<Rightarrow> siod_LISP act"

abbreviation ev :: "server \<Rightarrow> siod_LISP \<Rightarrow> siod_LISP \<Rightarrow> siod_LISP act" where
  "ev rc x env \<equiv> rc (Eval x env)"

text \<open>The call siod_leval(siod_car(l),env).\<close>

definition ev_car :: "server \<Rightarrow> siod_LISP \<Rightarrow> siod_LISP \<Rightarrow> siod_LISP act" where
  "ev_car rc l env = bindM (siod_car l) (\<lambda>x. ev rc x env)"

section \<open>Argument lists and calls\<close>

fun args_loop :: "nat \<Rightarrow> server \<Rightarrow> siod_LISP \<Rightarrow> siod_LISP \<Rightarrow> siod_LISP \<Rightarrow> siod_LISP act" where
  "args_loop 0 rc env v1 v2 = nofuel"
| "args_loop (Suc k) rc env v1 v2 = bindM (look v2) (\<lambda>ob. case ob of
       Some (Tc_cons a d) \<Rightarrow> bindM (ev rc a env) (\<lambda>v. bindM (siod_cons v NIL) (\<lambda>tmp.
         bindM (SET_CDR v1 tmp) (\<lambda>_. bindM (CDR v2) (args_loop k rc env tmp))))
     | _ \<Rightarrow> ret v2)"

definition siod_leval_args :: "nat \<Rightarrow> server \<Rightarrow> siod_LISP \<Rightarrow> siod_LISP \<Rightarrow> siod_LISP act" where
  "siod_leval_args k rc l env = bindM (look l) (\<lambda>ob. case ob of
       None \<Rightarrow> ret NIL
     | Some (Tc_cons a d) \<Rightarrow> bindM (ev rc a env) (\<lambda>v. bindM (siod_cons v NIL) (\<lambda>result.
         bindM (CDR l) (\<lambda>v2. bindM (args_loop k rc env result v2) (\<lambda>v2'.
         if v2' \<noteq> NIL then errm ''bad syntax argument list'' l else ret result))))
     | _ \<Rightarrow> errm ''bad syntax argument list'' l)"

definition siod_funcall1 :: "server \<Rightarrow> siod_LISP \<Rightarrow> siod_LISP \<Rightarrow> siod_LISP act" where
  "siod_funcall1 rc fcn a1 = bindM (look fcn) (\<lambda>ob. case ob of
       Some (Tc_subr_1 name f) \<Rightarrow> rc (Call1 f a1)
     | Some (Tc_closure env code) \<Rightarrow> bindM (look code) (\<lambda>ob'. case ob' of
           Some (Tc_subr_2 name f) \<Rightarrow> rc (Call2 f env a1)
         | _ \<Rightarrow> bindM (siod_cons a1 NIL) (\<lambda>l. rc (Apply fcn l)))
     | _ \<Rightarrow> bindM (siod_cons a1 NIL) (\<lambda>l. rc (Apply fcn l)))"

definition siod_funcall2 :: "server \<Rightarrow> siod_LISP \<Rightarrow> siod_LISP \<Rightarrow> siod_LISP \<Rightarrow> siod_LISP act" where
  "siod_funcall2 rc fcn a1 a2 = bindM (look fcn) (\<lambda>ob. case ob of
       Some (Tc_subr_2 name f) \<Rightarrow> rc (Call2 f a1 a2)
     | Some (Tc_subr_2n name f) \<Rightarrow> rc (Call2 f a1 a2)
     | _ \<Rightarrow> bindM (siod_cons a2 NIL) (\<lambda>l2. bindM (siod_cons a1 l2) (\<lambda>l. rc (Apply fcn l))))"

fun mapcar1_loop :: "nat \<Rightarrow> server \<Rightarrow> siod_LISP \<Rightarrow> siod_LISP \<Rightarrow> siod_LISP \<Rightarrow> unit act" where
  "mapcar1_loop 0 rc fcn ptr l = nofuel"
| "mapcar1_loop (Suc k) rc fcn ptr l = bindM (look l) (\<lambda>ob. case ob of
       Some (Tc_cons a d) \<Rightarrow> bindM (siod_funcall1 rc fcn a) (\<lambda>v. bindM (CDR ptr) (\<lambda>pd.
         bindM (siod_cons v pd) (\<lambda>p. bindM (SET_CDR ptr p) (\<lambda>_.
         bindM (CDR l) (mapcar1_loop k rc fcn p)))))
     | _ \<Rightarrow> ret ())"

definition siod_mapcar1 :: "nat \<Rightarrow> server \<Rightarrow> siod_LISP \<Rightarrow> siod_LISP \<Rightarrow> siod_LISP act" where
  "siod_mapcar1 k rc fcn inp =
     (if inp = NIL then ret NIL
      else bindM (siod_car inp) (\<lambda>a. bindM (siod_funcall1 rc fcn a) (\<lambda>v.
           bindM (siod_cons v NIL) (\<lambda>res. bindM (siod_cdr inp) (\<lambda>l.
           bindM (mapcar1_loop k rc fcn res l) (\<lambda>_. ret res))))))"

fun mapcar2_loop :: "nat \<Rightarrow> server \<Rightarrow> siod_LISP \<Rightarrow> siod_LISP \<Rightarrow> siod_LISP \<Rightarrow> siod_LISP \<Rightarrow> unit act" where
  "mapcar2_loop 0 rc fcn ptr l1 l2 = nofuel"
| "mapcar2_loop (Suc k) rc fcn ptr l1 l2 = bindM (look l1) (\<lambda>ob. case ob of
       Some (Tc_cons a1 d1) \<Rightarrow> bindM (look l2) (\<lambda>ob'. case ob' of
           Some (Tc_cons a2 d2) \<Rightarrow> bindM (siod_funcall2 rc fcn a1 a2) (\<lambda>v. bindM (CDR ptr) (\<lambda>pd.
             bindM (siod_cons v pd) (\<lambda>p. bindM (SET_CDR ptr p) (\<lambda>_.
             bindM (CDR l1) (\<lambda>l1'. bindM (CDR l2) (mapcar2_loop k rc fcn p l1'))))))
         | _ \<Rightarrow> ret ())
     | _ \<Rightarrow> ret ())"

definition siod_mapcar2 :: "nat \<Rightarrow> server \<Rightarrow> siod_LISP \<Rightarrow> siod_LISP \<Rightarrow> siod_LISP \<Rightarrow> siod_LISP act" where
  "siod_mapcar2 k rc fcn in1 in2 =
     (if in1 = NIL \<or> in2 = NIL then ret NIL
      else bindM (siod_car in1) (\<lambda>a1. bindM (siod_car in2) (\<lambda>a2.
           bindM (siod_funcall2 rc fcn a1 a2) (\<lambda>v. bindM (siod_cons v NIL) (\<lambda>res.
           bindM (siod_cdr in1) (\<lambda>l1. bindM (siod_cdr in2) (\<lambda>l2.
           bindM (mapcar2_loop k rc fcn res l1 l2) (\<lambda>_. ret res))))))))"

definition siod_mapcar :: "nat \<Rightarrow> server \<Rightarrow> siod_LISP \<Rightarrow> siod_LISP act" where
  "siod_mapcar k rc l = bindM (siod_car l) (\<lambda>fcn. bindM (siod_llength l) (\<lambda>len.
     bindM (siod_get_c_long len) (\<lambda>n.
       if n = 2 then bindM (siod_cdr l) (\<lambda>d. bindM (siod_car d) (siod_mapcar1 k rc fcn))
       else if n = 3 then
         bindM (siod_cdr l) (\<lambda>d. bindM (siod_car d) (\<lambda>in1.
         bindM (siod_cdr l) (\<lambda>d. bindM (siod_cdr d) (\<lambda>dd. bindM (siod_car dd) (siod_mapcar2 k rc fcn in1)))))
       else errm ''siod_mapcar case not handled'' l)))"

definition siod_ass :: "nat \<Rightarrow> server \<Rightarrow> siod_LISP \<Rightarrow> siod_LISP \<Rightarrow> siod_LISP \<Rightarrow> siod_LISP act" where
  "siod_ass k rc x alist fcn =
     bindM (for_cons k (\<lambda>tmp l. bindM (look tmp) (\<lambda>ob. case ob of
         Some (Tc_cons a d) \<Rightarrow> bindM (siod_funcall2 rc fcn a x) (\<lambda>v. ret (if v \<noteq> NIL then Some tmp else None))
       | _ \<Rightarrow> ret None)) alist) (search_end ''improper list to ass'' alist)"

section \<open>Special forms\<close>

definition siod_leval_set :: "server \<Rightarrow> siod_LISP \<Rightarrow> siod_LISP \<Rightarrow> siod_LISP act" where
  "siod_leval_set rc args env = bindM (ev_car rc args env) (\<lambda>var.
     bindM (siod_cdr args) (\<lambda>d. bindM (ev_car rc d env) (\<lambda>val. siod_setvar var val env)))"

definition siod_leval_setq :: "server \<Rightarrow> siod_LISP \<Rightarrow> siod_LISP \<Rightarrow> siod_LISP act" where
  "siod_leval_setq rc args env = bindM (siod_car args) (\<lambda>var.
     bindM (siod_cdr args) (\<lambda>d. bindM (ev_car rc d env) (\<lambda>val. siod_setvar var val env)))"

fun syntax_define_rec :: "nat \<Rightarrow> siod_LISP \<Rightarrow> siod_LISP act" where
  "syntax_define_rec 0 args = nofuel"
| "syntax_define_rec (Suc k) args = bindM (siod_car args) (\<lambda>a. bindM (look a) (\<lambda>ob.
     if is_symbol ob then ret args
     else bindM (siod_caar args) (\<lambda>name. bindM (gets sym_lambda) (\<lambda>lam.
          bindM (siod_cdar args) (\<lambda>formals. bindM (siod_cdr args) (\<lambda>body.
          bindM (siod_cons formals body) (\<lambda>c1. bindM (siod_cons lam c1) (\<lambda>c2.
          bindM (siod_cons c2 NIL) (\<lambda>c3. bindM (siod_cons name c3) (syntax_define_rec k))))))))))"

definition siod_syntax_define :: "siod_LISP \<Rightarrow> siod_LISP act" where
  "siod_syntax_define args = bindM (gets bound) (\<lambda>k. syntax_define_rec k args)"

definition siod_leval_define :: "server \<Rightarrow> siod_LISP \<Rightarrow> siod_LISP \<Rightarrow> siod_LISP act" where
  "siod_leval_define rc args env = bindM (siod_syntax_define args) (\<lambda>tmp.
     bindM (siod_car tmp) (\<lambda>var. bindM (look var) (\<lambda>ob.
     if \<not> is_symbol ob then errm ''wta(non-symbol) to define'' var
     else bindM (siod_cdr tmp) (\<lambda>d. bindM (ev_car rc d env) (\<lambda>val.
          bindM (siod_envlookup var env) (\<lambda>slot.
          if slot \<noteq> NIL then bindM (SET_CAR slot val) (\<lambda>_. ret val)
          else if env = NIL then bindM (SET_VCELL var val) (\<lambda>_. ret val)
          else bindM (siod_car env) (\<lambda>fr.
               bindM (siod_car fr) (\<lambda>fl. bindM (siod_cons var fl) (\<lambda>fl'. bindM (siod_setcar fr fl') (\<lambda>_.
               bindM (siod_cdr fr) (\<lambda>al. bindM (siod_cons val al) (\<lambda>al'. bindM (siod_setcdr fr al') (\<lambda>_.
               ret val)))))))))))))"

definition siod_leval_lambda :: "siod_LISP \<Rightarrow> siod_LISP \<Rightarrow> siod_LISP act" where
  "siod_leval_lambda args env = bindM (siod_cdr args) (\<lambda>d. bindM (siod_cdr d) (\<lambda>dd.
     bindM (if dd = NIL then siod_car d
            else bindM (gets sym_progn) (\<lambda>p. siod_cons p d)) (\<lambda>body.
     bindM (siod_car args) (\<lambda>formals. bindM (siod_cons formals body) (\<lambda>code. siod_closure env code)))))"

text \<open>
  The result of a special form that gives the evaluator a new expression: whether to go on with it
  or to return it, and the contents of *pform and *penv.
\<close>

type_synonym msubr_result = "bool \<times> siod_LISP \<times> siod_LISP"

definition siod_leval_if :: "server \<Rightarrow> siod_LISP \<Rightarrow> siod_LISP \<Rightarrow> msubr_result act" where
  "siod_leval_if rc form env = bindM (siod_cdr form) (\<lambda>args. bindM (ev_car rc args env) (\<lambda>v.
     bindM (if v \<noteq> NIL then bindM (siod_cdr args) siod_car
            else bindM (siod_cdr args) (\<lambda>d. bindM (siod_cdr d) siod_car)) (\<lambda>form'.
     ret (True, form', env))))"

text \<open>The loop over the forms but the last, and the last form.\<close>

fun progn_tail :: "nat \<Rightarrow> server \<Rightarrow> siod_LISP \<Rightarrow> siod_LISP \<Rightarrow> siod_LISP \<Rightarrow> siod_LISP act" where
  "progn_tail 0 rc env l next = nofuel"
| "progn_tail (Suc k) rc env l next =
     (if next = NIL then siod_car l
      else bindM (ev_car rc l env) (\<lambda>_. bindM (siod_cdr next) (progn_tail k rc env next)))"

definition siod_leval_progn :: "nat \<Rightarrow> server \<Rightarrow> siod_LISP \<Rightarrow> siod_LISP \<Rightarrow> msubr_result act" where
  "siod_leval_progn k rc form env = bindM (siod_cdr form) (\<lambda>l. bindM (siod_cdr l) (\<lambda>next.
     bindM (progn_tail k rc env l next) (\<lambda>form'. ret (True, form', env))))"

fun or_loop :: "nat \<Rightarrow> server \<Rightarrow> siod_LISP \<Rightarrow> siod_LISP \<Rightarrow> siod_LISP \<Rightarrow> msubr_result act" where
  "or_loop 0 rc env l next = nofuel"
| "or_loop (Suc k) rc env l next =
     (if next = NIL then bindM (siod_car l) (\<lambda>form'. ret (True, form', env))
      else bindM (ev_car rc l env) (\<lambda>val.
           if val \<noteq> NIL then ret (False, val, env)
           else bindM (siod_cdr next) (or_loop k rc env next)))"

definition siod_leval_or :: "nat \<Rightarrow> server \<Rightarrow> siod_LISP \<Rightarrow> siod_LISP \<Rightarrow> msubr_result act" where
  "siod_leval_or k rc form env = bindM (siod_cdr form) (\<lambda>l. bindM (siod_cdr l) (or_loop k rc env l))"

fun and_loop :: "nat \<Rightarrow> server \<Rightarrow> siod_LISP \<Rightarrow> siod_LISP \<Rightarrow> siod_LISP \<Rightarrow> msubr_result act" where
  "and_loop 0 rc env l next = nofuel"
| "and_loop (Suc k) rc env l next =
     (if next = NIL then bindM (siod_car l) (\<lambda>form'. ret (True, form', env))
      else bindM (ev_car rc l env) (\<lambda>val.
           if val = NIL then ret (False, NIL, env)
           else bindM (siod_cdr next) (and_loop k rc env next)))"

definition siod_leval_and :: "nat \<Rightarrow> server \<Rightarrow> siod_LISP \<Rightarrow> siod_LISP \<Rightarrow> msubr_result act" where
  "siod_leval_and k rc form env = bindM (siod_cdr form) (\<lambda>l.
     if l = NIL then bindM (gets sym_t) (\<lambda>t. ret (False, t, env))
     else bindM (siod_cdr l) (and_loop k rc env l))"

definition siod_leval_let :: "nat \<Rightarrow> server \<Rightarrow> siod_LISP \<Rightarrow> siod_LISP \<Rightarrow> msubr_result act" where
  "siod_leval_let k rc form env = bindM (siod_cdr form) (\<lambda>l.
     bindM (siod_cdr l) (\<lambda>d. bindM (siod_car d) (\<lambda>al.
     bindM (siod_leval_args k rc al env) (\<lambda>actuals. bindM (siod_car l) (\<lambda>formals.
     bindM (siod_extend_env actuals formals env) (\<lambda>env'.
     bindM (siod_cdr l) (\<lambda>d. bindM (siod_cdr d) (\<lambda>dd. bindM (siod_car dd) (\<lambda>form'.
     ret (True, form', env'))))))))))"

fun cond_loop :: "nat \<Rightarrow> server \<Rightarrow> siod_LISP \<Rightarrow> siod_LISP \<Rightarrow> siod_LISP \<Rightarrow> msubr_result act" where
  "cond_loop 0 rc env args next = nofuel"
| "cond_loop (Suc k) rc env args next =
     (if next \<noteq> NIL then
        bindM (siod_car args) (\<lambda>clause. bindM (ev_car rc clause env) (\<lambda>val.
        if val \<noteq> NIL then
          bindM (siod_cdr clause) (\<lambda>clause'.
          if clause' = NIL then ret (False, val, env)
          else bindM (siod_cdr clause') (\<lambda>next'.
               bindM (progn_tail k rc env clause' next') (\<lambda>form'. ret (True, form', env))))
        else bindM (siod_cdr next) (cond_loop k rc env next)))
      else
        bindM (siod_car args) (\<lambda>clause. bindM (siod_cdr clause) (\<lambda>next'.
        if next' = NIL then bindM (siod_car clause) (\<lambda>form'. ret (True, form', env))
        else bindM (ev_car rc clause env) (\<lambda>val.
             if val = NIL then ret (False, NIL, env)
             else bindM (siod_cdr next') (\<lambda>next''.
                  bindM (progn_tail k rc env next' next'') (\<lambda>form'. ret (True, form', env)))))))"

definition siod_leval_cond :: "nat \<Rightarrow> server \<Rightarrow> siod_LISP \<Rightarrow> siod_LISP \<Rightarrow> msubr_result act" where
  "siod_leval_cond k rc form env = bindM (siod_cdr form) (\<lambda>args.
     if args = NIL then ret (False, NIL, env)
     else bindM (siod_cdr args) (cond_loop k rc env args))"

text \<open>Evaluating every form of a list, for the value of the last one.\<close>

definition eval_forms :: "nat \<Rightarrow> server \<Rightarrow> siod_LISP \<Rightarrow> siod_LISP \<Rightarrow> siod_LISP \<Rightarrow> siod_LISP act" where
  "eval_forms k rc env v l = for_list k (\<lambda>p _. ev_car rc p env) v l"

definition siod_leval_prog1 :: "nat \<Rightarrow> server \<Rightarrow> siod_LISP \<Rightarrow> siod_LISP \<Rightarrow> siod_LISP act" where
  "siod_leval_prog1 k rc args env = bindM (ev_car rc args env) (\<lambda>retval.
     bindM (siod_cdr args) (\<lambda>l. bindM (eval_forms k rc env NIL l) (\<lambda>_. ret retval)))"

fun siod_leval_while :: "nat \<Rightarrow> server \<Rightarrow> siod_LISP \<Rightarrow> siod_LISP \<Rightarrow> siod_LISP act" where
  "siod_leval_while 0 rc args env = nofuel"
| "siod_leval_while (Suc k) rc args env = bindM (ev_car rc args env) (\<lambda>v.
     if v = NIL then ret NIL
     else bindM (siod_cdr args) (\<lambda>l. bindM (eval_forms k rc env NIL l) (\<lambda>_.
          siod_leval_while k rc args env)))"

definition siod_lwhile :: "nat \<Rightarrow> server \<Rightarrow> siod_LISP \<Rightarrow> siod_LISP \<Rightarrow> siod_LISP act" where
  "siod_lwhile k rc form env = siod_leval_while k rc form env"

definition siod_leval_quote :: "siod_LISP \<Rightarrow> siod_LISP \<Rightarrow> siod_LISP act" where
  "siod_leval_quote args env = siod_car args"

definition siod_leval_tenv :: "siod_LISP \<Rightarrow> siod_LISP \<Rightarrow> siod_LISP act" where
  "siod_leval_tenv args env = ret env"

section \<open>Catch and throw\<close>

text \<open>
  The frame is named by the number of frames outside it.  A jump to it restores the list of frames
  and returns the thrown value; a jump to a frame outside it goes on.
\<close>

definition siod_leval_catch_1 :: "nat \<Rightarrow> server \<Rightarrow> siod_LISP \<Rightarrow> siod_LISP \<Rightarrow> siod_LISP act" where
  "siod_leval_catch_1 k rc forms env = bindM (eval_forms k rc env NIL forms) (\<lambda>val.
     bindM (modifyM (\<lambda>s. s\<lparr>catch_framep := tl (catch_framep s)\<rparr>)) (\<lambda>_. ret val))"

definition setjmp_frame :: "siod_LISP \<Rightarrow> siod_LISP act \<Rightarrow> siod_LISP act" where
  "setjmp_frame tag m s =
     (let outer = catch_framep s
      in case m (s\<lparr>catch_framep := tag # outer\<rparr>) of
           (Jump j v, s') \<Rightarrow>
             if j = length outer then (Ret v, s'\<lparr>catch_framep := outer\<rparr>) else (Jump j v, s')
         | (r, s') \<Rightarrow> (r, s'))"

definition siod_leval_catch :: "nat \<Rightarrow> server \<Rightarrow> siod_LISP \<Rightarrow> siod_LISP \<Rightarrow> siod_LISP act" where
  "siod_leval_catch k rc args env = bindM (ev_car rc args env) (\<lambda>tag.
     setjmp_frame tag (bindM (siod_cdr args) (\<lambda>forms. siod_leval_catch_1 k rc forms env)))"

definition siod_lthrow :: "siod_LISP \<Rightarrow> siod_LISP \<Rightarrow> siod_LISP act" where
  "siod_lthrow tag v s =
     (case catch_target (\<lambda>t. t = tag \<or> t = sym_catchall s) (catch_framep s) of
        Some j \<Rightarrow> (Jump j v, s)
      | None \<Rightarrow> errm ''no *catch found with this tag'' tag s)"

section \<open>Macros\<close>

text \<open>The loop body of let: it collects the variables and the forms of their values.\<close>

definition let_binding :: "siod_LISP \<Rightarrow> siod_LISP \<times> siod_LISP \<Rightarrow> (siod_LISP \<times> siod_LISP) act" where
  "let_binding p acc = (case acc of (fl, al) \<Rightarrow>
     bindM (siod_car p) (\<lambda>tmp. bindM (look tmp) (\<lambda>ob.
       if is_symbol ob then
         bindM (siod_cons tmp fl) (\<lambda>fl'. bindM (siod_cons NIL al) (\<lambda>al'. ret (fl', al')))
       else
         bindM (siod_car tmp) (\<lambda>a. bindM (siod_cons a fl) (\<lambda>fl'.
         bindM (siod_cdr tmp) (\<lambda>d. bindM (siod_car d) (\<lambda>b. bindM (siod_cons b al) (\<lambda>al'.
         ret (fl', al')))))))))"

definition siod_let_macro :: "siod_LISP \<Rightarrow> siod_LISP act" where
  "siod_let_macro form = bindM (siod_cdr form) (\<lambda>d. bindM (siod_car d) (\<lambda>bs.
     bindM (gets bound) (\<lambda>k. bindM (for_list k let_binding (NIL, NIL) bs) (\<lambda>(fl, al).
     bindM (siod_cdr form) (\<lambda>d. bindM (siod_cdr d) (\<lambda>p. bindM (siod_cdr p) (\<lambda>pd.
     bindM (if pd = NIL then siod_car p else bindM (gets sym_progn) (\<lambda>pr. siod_cons pr p)) (\<lambda>body.
     bindM (siod_reverse fl) (\<lambda>rfl. bindM (siod_reverse al) (\<lambda>ral.
     bindM (siod_cons body NIL) (\<lambda>c1. bindM (siod_cons ral c1) (\<lambda>c2. bindM (siod_cons rfl c2) (\<lambda>c3.
     bindM (siod_setcdr form c3) (\<lambda>_. bindM (siod_cintern ''let-siod_internal'') (\<lambda>sy.
     bindM (siod_setcar form sy) (\<lambda>_. ret form))))))))))))))))"

definition siod_letstar_macro :: "siod_LISP \<Rightarrow> siod_LISP act" where
  "siod_letstar_macro form = bindM (siod_cadr form) (\<lambda>bindings.
     bindM (if bindings = NIL then ret NIL else siod_cdr bindings) (\<lambda>more.
     bindM (if bindings \<noteq> NIL \<and> more \<noteq> NIL then
              bindM (siod_car bindings) (\<lambda>b. bindM (siod_cons b NIL) (\<lambda>c1.
              bindM (siod_cintern ''let*'') (\<lambda>sy. bindM (siod_cdr bindings) (\<lambda>rest.
              bindM (siod_cddr form) (\<lambda>body. bindM (siod_cons rest body) (\<lambda>c2.
              bindM (siod_cons sy c2) (\<lambda>c3. bindM (siod_cons c3 NIL) (\<lambda>c4.
              bindM (siod_cons c1 c4) (\<lambda>c5. siod_setcdr form c5)))))))))
            else ret NIL) (\<lambda>_.
     bindM (siod_cintern ''let'') (\<lambda>sy. bindM (siod_setcar form sy) (\<lambda>_. ret form)))))"

definition letrec_binding :: "siod_LISP \<Rightarrow> siod_LISP \<times> siod_LISP \<Rightarrow> (siod_LISP \<times> siod_LISP) act" where
  "letrec_binding l acc = (case acc of (letb, setb) \<Rightarrow>
     bindM (siod_caar l) (\<lambda>v. bindM (siod_cons v NIL) (\<lambda>c. bindM (siod_cons c letb) (\<lambda>letb'.
     bindM (siod_cintern ''set!'') (\<lambda>sy. bindM (siod_caar l) (\<lambda>v. bindM (siod_cadar l) (\<lambda>e.
     bindM (siod_listn [sy, v, e]) (\<lambda>st. bindM (siod_cons st setb) (\<lambda>setb'.
     ret (letb', setb'))))))))))"

definition siod_letrec_macro :: "siod_LISP \<Rightarrow> siod_LISP act" where
  "siod_letrec_macro form = bindM (siod_cddr form) (\<lambda>setb0. bindM (siod_cadr form) (\<lambda>l.
     bindM (gets bound) (\<lambda>k. bindM (for_list k letrec_binding (NIL, setb0) l) (\<lambda>(letb, setb).
     bindM (siod_cons letb setb) (\<lambda>c. bindM (siod_setcdr form c) (\<lambda>_.
     bindM (siod_cintern ''let'') (\<lambda>sy. bindM (siod_setcar form sy) (\<lambda>_. ret form))))))))"

section \<open>Calling a C function\<close>

definition SUBR0 :: "server \<Rightarrow> fn0 \<Rightarrow> siod_LISP act" where
  "SUBR0 rc f = (case f of F_get_eof_val \<Rightarrow> siod_get_eof_val | F_quit \<Rightarrow> siod_quit | C_fn0 name \<Rightarrow> rc (Call_C name []))"

fun SUBR1 :: "nat \<Rightarrow> server \<Rightarrow> fn1 \<Rightarrow> siod_LISP \<Rightarrow> siod_LISP act" where
  "SUBR1 k rc F_car = siod_car"
| "SUBR1 k rc F_cdr = siod_cdr"
| "SUBR1 k rc F_ClosureP = siod_ClosureP"
| "SUBR1 k rc F_lllabs = siod_lllabs"
| "SUBR1 k rc F_consp = siod_consp"
| "SUBR1 k rc F_symbolp = siod_symbolp"
| "SUBR1 k rc F_numberp = siod_numberp"
| "SUBR1 k rc F_nullp = siod_nullp"
| "SUBR1 k rc F_stringp = siod_stringp"
| "SUBR1 k rc F_let_macro = siod_let_macro"
| "SUBR1 k rc F_letstar_macro = siod_letstar_macro"
| "SUBR1 k rc F_letrec_macro = siod_letrec_macro"
| "SUBR1 k rc F_reverse = siod_reverse"
| "SUBR1 k rc F_nreverse = siod_nreverse"
| "SUBR1 k rc F_copy_list = siod_copy_list"
| "SUBR1 k rc F_last = siod_last"
| "SUBR1 k rc F_butlast = siod_butlast"
| "SUBR1 k rc F_llength = siod_llength"
| "SUBR1 k rc F_intern = siod_intern"
| "SUBR1 k rc F_closure_code = siod_closure_code"
| "SUBR1 k rc F_closure_env = siod_closure_env"
| "SUBR1 k rc F_caar = siod_caar"
| "SUBR1 k rc F_cadr = siod_cadr"
| "SUBR1 k rc F_cdar = siod_cdar"
| "SUBR1 k rc F_cddr = siod_cddr"
| "SUBR1 k rc F_caaar = siod_caaar"
| "SUBR1 k rc F_caadr = siod_caadr"
| "SUBR1 k rc F_cadar = siod_cadar"
| "SUBR1 k rc F_caddr = siod_caddr"
| "SUBR1 k rc F_cdaar = siod_cdaar"
| "SUBR1 k rc F_cdadr = siod_cdadr"
| "SUBR1 k rc F_cddar = siod_cddar"
| "SUBR1 k rc F_cdddr = siod_cdddr"
| "SUBR1 k rc F_llist = siod_llist"
| "SUBR1 k rc F_append = siod_append"
| "SUBR1 k rc F_mapcar = siod_mapcar k rc"
| "SUBR1 k rc (C_fn1 name) = (\<lambda>a. rc (Call_C name [a]))"

fun SUBR2 :: "nat \<Rightarrow> server \<Rightarrow> fn2 \<Rightarrow> siod_LISP \<Rightarrow> siod_LISP \<Rightarrow> siod_LISP act" where
  "SUBR2 k rc F_cons = siod_cons"
| "SUBR2 k rc F_setcar = siod_setcar"
| "SUBR2 k rc F_setcdr = siod_setcdr"
| "SUBR2 k rc F_plus = siod_plus"
| "SUBR2 k rc F_difference = siod_difference"
| "SUBR2 k rc F_ltimes = siod_ltimes"
| "SUBR2 k rc F_Quotient = siod_Quotient"
| "SUBR2 k rc F_IntQuotient = siod_IntQuotient"
| "SUBR2 k rc F_Remainder = siod_Remainder"
| "SUBR2 k rc F_lmin = siod_lmin"
| "SUBR2 k rc F_lmax = siod_lmax"
| "SUBR2 k rc F_greaterp = siod_greaterp"
| "SUBR2 k rc F_lessp = siod_lessp"
| "SUBR2 k rc F_greaterEp = siod_greaterEp"
| "SUBR2 k rc F_lessEp = siod_lessEp"
| "SUBR2 k rc F_eq = siod_eq"
| "SUBR2 k rc F_eql = siod_eql"
| "SUBR2 k rc F_assq = siod_assq"
| "SUBR2 k rc F_assv = siod_assv"
| "SUBR2 k rc F_memq = siod_memq"
| "SUBR2 k rc F_memv = siod_memv"
| "SUBR2 k rc F_delq = siod_delq"
| "SUBR2 k rc F_nth = siod_nth"
| "SUBR2 k rc F_nconc = siod_nconc"
| "SUBR2 k rc F_append2 = siod_append2"
| "SUBR2 k rc F_make_list = siod_make_list"
| "SUBR2 k rc F_symbol_boundp = siod_symbol_boundp"
| "SUBR2 k rc F_symbol_value = siod_symbol_value"
| "SUBR2 k rc F_lerr = siod_lerr"
| "SUBR2 k rc F_envlookup = siod_envlookup"
| "SUBR2 k rc F_closure = siod_closure"
| "SUBR2 k rc F_lthrow = siod_lthrow"
| "SUBR2 k rc F_leval = (\<lambda>x env. rc (Eval x env))"
| "SUBR2 k rc F_lapply = (\<lambda>fcn args. rc (Apply fcn args))"
| "SUBR2 k rc F_mapcar1 = siod_mapcar1 k rc"
| "SUBR2 k rc F_leval_define = siod_leval_define rc"
| "SUBR2 k rc F_leval_lambda = siod_leval_lambda"
| "SUBR2 k rc F_leval_while = siod_leval_while k rc"
| "SUBR2 k rc F_leval_set = siod_leval_set rc"
| "SUBR2 k rc F_leval_setq = siod_leval_setq rc"
| "SUBR2 k rc F_leval_catch = siod_leval_catch k rc"
| "SUBR2 k rc F_leval_quote = siod_leval_quote"
| "SUBR2 k rc F_leval_tenv = siod_leval_tenv"
| "SUBR2 k rc F_lwhile = siod_lwhile k rc"
| "SUBR2 k rc F_leval_prog1 = siod_leval_prog1 k rc"
| "SUBR2 k rc (C_fn2 name) = (\<lambda>a b. rc (Call_C name [a, b]))"

fun SUBR3 :: "nat \<Rightarrow> server \<Rightarrow> fn3 \<Rightarrow> siod_LISP \<Rightarrow> siod_LISP \<Rightarrow> siod_LISP \<Rightarrow> siod_LISP act" where
  "SUBR3 k rc F_setvar = siod_setvar"
| "SUBR3 k rc F_mapcar2 = siod_mapcar2 k rc"
| "SUBR3 k rc F_ass = siod_ass k rc"
| "SUBR3 k rc (C_fn3 name) = (\<lambda>a b c. rc (Call_C name [a, b, c]))"

fun SUBR4 :: "server \<Rightarrow> fn4 \<Rightarrow> siod_LISP \<Rightarrow> siod_LISP \<Rightarrow> siod_LISP \<Rightarrow> siod_LISP \<Rightarrow> siod_LISP act" where
  "SUBR4 rc (C_fn4 name) a b c d = rc (Call_C name [a, b, c, d])"

fun SUBR5 :: "server \<Rightarrow> fn5 \<Rightarrow> siod_LISP \<Rightarrow> siod_LISP \<Rightarrow> siod_LISP \<Rightarrow> siod_LISP \<Rightarrow> siod_LISP \<Rightarrow> siod_LISP act" where
  "SUBR5 rc (C_fn5 name) a b c d e = rc (Call_C name [a, b, c, d, e])"

fun SUBRM :: "nat \<Rightarrow> server \<Rightarrow> fnm \<Rightarrow> siod_LISP \<Rightarrow> siod_LISP \<Rightarrow> msubr_result act" where
  "SUBRM k rc F_leval_if = siod_leval_if rc"
| "SUBRM k rc F_leval_progn = siod_leval_progn k rc"
| "SUBRM k rc F_leval_or = siod_leval_or k rc"
| "SUBRM k rc F_leval_and = siod_leval_and k rc"
| "SUBRM k rc F_leval_let = siod_leval_let k rc"
| "SUBRM k rc F_leval_cond = siod_leval_cond k rc"

section \<open>The evaluator\<close>

text \<open>The ring buffer of expressions, if *eval-history-ptr* is bound to a cons.\<close>

definition eval_history :: "siod_LISP \<Rightarrow> unit act" where
  "eval_history x = bindM (gets sym_eval_history_ptr) (\<lambda>p. bindM (VCELL p) (\<lambda>tmp.
     bindM (look tmp) (\<lambda>ob.
       if is_cons ob then bindM (SET_CAR tmp x) (\<lambda>_. bindM (CDR tmp) (SET_VCELL p)) else ret ())))"

text \<open>The value of the operator position.\<close>

definition eval_operator :: "server \<Rightarrow> siod_LISP \<Rightarrow> siod_LISP \<Rightarrow> siod_LISP act" where
  "eval_operator rc op env = bindM (look op) (\<lambda>ob. case ob of
       Some (Tc_symbol p v) \<Rightarrow> variable_value op env
     | Some (Tc_cons a d) \<Rightarrow> ev rc op env
     | _ \<Rightarrow> ret op)"

text \<open>Further arguments of a subr_2n, evaluated and given.\<close>

fun fold_args :: "nat \<Rightarrow> server \<Rightarrow> fn2 \<Rightarrow> siod_LISP \<Rightarrow> siod_LISP \<Rightarrow> siod_LISP \<Rightarrow> siod_LISP act" where
  "fold_args 0 rc f env arg1 x = nofuel"
| "fold_args (Suc k) rc f env arg1 x = bindM (look x) (\<lambda>ob. case ob of
       Some (Tc_cons a d) \<Rightarrow> bindM (ev rc a env) (\<lambda>v. bindM (SUBR2 k rc f arg1 v) (\<lambda>arg1'.
         bindM (CDR x) (fold_args k rc f env arg1')))
     | _ \<Rightarrow> ret arg1)"

fun fold_given :: "nat \<Rightarrow> server \<Rightarrow> fn2 \<Rightarrow> siod_LISP \<Rightarrow> siod_LISP \<Rightarrow> siod_LISP act" where
  "fold_given 0 rc f acc args = nofuel"
| "fold_given (Suc k) rc f acc args = bindM (look args) (\<lambda>ob. case ob of
       Some (Tc_cons a d) \<Rightarrow> bindM (SUBR2 k rc f acc a) (\<lambda>acc'. bindM (CDR args) (fold_given k rc f acc'))
     | _ \<Rightarrow> ret acc)"

text \<open>The macro CDR after the test for NIL.\<close>

definition tail_of :: "siod_LISP \<Rightarrow> siod_LISP act" where
  "tail_of x = (if x = NIL then ret NIL else CDR x)"

definition leval_closure :: "nat \<Rightarrow> server \<Rightarrow> siod_LISP \<Rightarrow> siod_LISP \<Rightarrow> siod_LISP \<Rightarrow> siod_LISP \<Rightarrow> siod_LISP \<Rightarrow>
    siod_LISP act" where
  "leval_closure k rc tmp cenv code x env = bindM (look code) (\<lambda>ob. case ob of
       Some (Tc_cons formals body) \<Rightarrow>
         bindM (CDR x) (\<lambda>l. bindM (siod_leval_args k rc l env) (\<lambda>actuals.
         bindM (CAR code) (\<lambda>formals'. bindM (siod_extend_env actuals formals' cenv) (\<lambda>env'.
         bindM (CDR code) (\<lambda>body'. rc (Eval body' env'))))))
     | Some (Tc_subr_1 name f) \<Rightarrow> SUBR1 k rc f cenv
     | Some (Tc_subr_2 name f) \<Rightarrow>
         bindM (CDR x) (\<lambda>x1. bindM (ev_car rc x1 env) (\<lambda>arg1. SUBR2 k rc f cenv arg1))
     | Some (Tc_subr_3 name f) \<Rightarrow>
         bindM (CDR x) (\<lambda>x1. bindM (ev_car rc x1 env) (\<lambda>arg1. bindM (tail_of x1) (\<lambda>x2.
         bindM (ev_car rc x2 env) (\<lambda>arg2. SUBR3 k rc f cenv arg1 arg2))))
     | Some (Tc_subr_4 name f) \<Rightarrow>
         bindM (CDR x) (\<lambda>x1. bindM (ev_car rc x1 env) (\<lambda>arg1. bindM (tail_of x1) (\<lambda>x2.
         bindM (ev_car rc x2 env) (\<lambda>arg2. bindM (siod_cdr x2) (\<lambda>x3.
         bindM (ev_car rc x3 env) (\<lambda>arg3. SUBR4 rc f cenv arg1 arg2 arg3))))))
     | Some (Tc_subr_5 name f) \<Rightarrow>
         bindM (CDR x) (\<lambda>x1. bindM (ev_car rc x1 env) (\<lambda>arg1. bindM (tail_of x1) (\<lambda>x2.
         bindM (ev_car rc x2 env) (\<lambda>arg2. bindM (siod_cdr x2) (\<lambda>x3.
         bindM (ev_car rc x3 env) (\<lambda>arg3. bindM (siod_cdr x3) (\<lambda>x4.
         bindM (ev_car rc x4 env) (\<lambda>arg4. SUBR5 rc f cenv arg1 arg2 arg3 arg4))))))))
     | Some (Tc_lsubr name f) \<Rightarrow>
         bindM (CDR x) (\<lambda>l. bindM (siod_leval_args k rc l env) (\<lambda>args.
         bindM (siod_cons cenv args) (SUBR1 k rc f)))
     | _ \<Rightarrow> errm ''siod_closure code type not valid'' tmp)"

text \<open>
  The switch on the type of the operator.  Going on with a new expression is a new request.
\<close>

definition leval_call :: "nat \<Rightarrow> server \<Rightarrow> siod_LISP \<Rightarrow> siod_LISP \<Rightarrow> siod_LISP \<Rightarrow> siod_LISP act" where
  "leval_call k rc tmp x env = bindM (look tmp) (\<lambda>ob. case ob of
       Some (Tc_subr_0 name f) \<Rightarrow> SUBR0 rc f
     | Some (Tc_subr_1 name f) \<Rightarrow>
         bindM (CDR x) (\<lambda>d. bindM (ev_car rc d env) (SUBR1 k rc f))
     | Some (Tc_subr_2 name f) \<Rightarrow>
         bindM (CDR x) (\<lambda>x1. bindM (ev_car rc x1 env) (\<lambda>arg1. bindM (tail_of x1) (\<lambda>x2.
         bindM (ev_car rc x2 env) (\<lambda>arg2. SUBR2 k rc f arg1 arg2))))
     | Some (Tc_subr_2n name f) \<Rightarrow>
         bindM (CDR x) (\<lambda>x1. bindM (ev_car rc x1 env) (\<lambda>arg1. bindM (tail_of x1) (\<lambda>x2.
         bindM (ev_car rc x2 env) (\<lambda>arg2. bindM (SUBR2 k rc f arg1 arg2) (\<lambda>acc.
         bindM (siod_cdr x2) (fold_args k rc f env acc))))))
     | Some (Tc_subr_3 name f) \<Rightarrow>
         bindM (CDR x) (\<lambda>x1. bindM (ev_car rc x1 env) (\<lambda>arg1. bindM (tail_of x1) (\<lambda>x2.
         bindM (ev_car rc x2 env) (\<lambda>arg2. bindM (siod_cdr x2) (\<lambda>x3.
         bindM (ev_car rc x3 env) (\<lambda>arg3. SUBR3 k rc f arg1 arg2 arg3))))))
     | Some (Tc_subr_4 name f) \<Rightarrow>
         bindM (CDR x) (\<lambda>x1. bindM (ev_car rc x1 env) (\<lambda>arg1. bindM (tail_of x1) (\<lambda>x2.
         bindM (ev_car rc x2 env) (\<lambda>arg2. bindM (siod_cdr x2) (\<lambda>x3.
         bindM (ev_car rc x3 env) (\<lambda>arg3. bindM (siod_cdr x3) (\<lambda>x4.
         bindM (ev_car rc x4 env) (\<lambda>arg4. SUBR4 rc f arg1 arg2 arg3 arg4))))))))
     | Some (Tc_subr_5 name f) \<Rightarrow>
         bindM (CDR x) (\<lambda>x1. bindM (ev_car rc x1 env) (\<lambda>arg1. bindM (tail_of x1) (\<lambda>x2.
         bindM (ev_car rc x2 env) (\<lambda>arg2. bindM (siod_cdr x2) (\<lambda>x3.
         bindM (ev_car rc x3 env) (\<lambda>arg3. bindM (siod_cdr x3) (\<lambda>x4.
         bindM (ev_car rc x4 env) (\<lambda>arg4. bindM (siod_cdr x4) (\<lambda>x5.
         bindM (ev_car rc x5 env) (\<lambda>arg5. SUBR5 rc f arg1 arg2 arg3 arg4 arg5))))))))))
     | Some (Tc_lsubr name f) \<Rightarrow>
         bindM (CDR x) (\<lambda>l. bindM (siod_leval_args k rc l env) (SUBR1 k rc f))
     | Some (Tc_fsubr name f) \<Rightarrow> bindM (CDR x) (\<lambda>args. SUBR2 k rc f args env)
     | Some (Tc_msubr name f) \<Rightarrow>
         bindM (SUBRM k rc f x env) (\<lambda>(again, x', env'). if again then rc (Eval x' env') else ret x')
     | Some (Tc_closure cenv code) \<Rightarrow> leval_closure k rc tmp cenv code x env
     | Some (Tc_symbol p v) \<Rightarrow>
         bindM (siod_cons x NIL) (\<lambda>c1. bindM (gets sym_quote) (\<lambda>q. bindM (siod_cons q c1) (\<lambda>c2.
         bindM (siod_cons c2 NIL) (\<lambda>c3. bindM (siod_cons tmp c3) (\<lambda>call.
         bindM (ev rc call NIL) (\<lambda>x'. rc (Eval x' env)))))))
     | _ \<Rightarrow> errm ''bad function'' tmp)"

definition leval_body :: "nat \<Rightarrow> server \<Rightarrow> siod_LISP \<Rightarrow> siod_LISP \<Rightarrow> siod_LISP act" where
  "leval_body k rc x env = bindM (eval_history x) (\<lambda>_. bindM (look x) (\<lambda>ob. case ob of
       Some (Tc_symbol p v) \<Rightarrow> variable_value x env
     | Some (Tc_cons op args) \<Rightarrow> bindM (eval_operator rc op env) (\<lambda>tmp. leval_call k rc tmp x env)
     | _ \<Rightarrow> ret x))"

definition lapply_closure :: "nat \<Rightarrow> server \<Rightarrow> siod_LISP \<Rightarrow> siod_LISP \<Rightarrow> siod_LISP \<Rightarrow> siod_LISP \<Rightarrow> siod_LISP act" where
  "lapply_closure k rc fcn cenv code args = bindM (look code) (\<lambda>ob. case ob of
       Some (Tc_cons formals body) \<Rightarrow>
         bindM (siod_cdr code) (\<lambda>body'. bindM (siod_car code) (\<lambda>formals'.
         bindM (siod_extend_env args formals' cenv) (\<lambda>env'. rc (Eval body' env'))))
     | Some (Tc_subr_1 name f) \<Rightarrow> SUBR1 k rc f cenv
     | Some (Tc_subr_2 name f) \<Rightarrow> bindM (siod_car args) (SUBR2 k rc f cenv)
     | Some (Tc_subr_3 name f) \<Rightarrow>
         bindM (siod_car args) (\<lambda>a1. bindM (siod_cadr args) (SUBR3 k rc f cenv a1))
     | Some (Tc_subr_4 name f) \<Rightarrow>
         bindM (siod_car args) (\<lambda>a1. bindM (siod_cadr args) (\<lambda>a2. bindM (siod_caddr args) (SUBR4 rc f cenv a1 a2)))
     | Some (Tc_subr_5 name f) \<Rightarrow>
         bindM (siod_car args) (\<lambda>a1. bindM (siod_cadr args) (\<lambda>a2. bindM (siod_caddr args) (\<lambda>a3.
         bindM (siod_cdddr args) (\<lambda>l. bindM (siod_car l) (SUBR5 rc f cenv a1 a2 a3)))))
     | Some (Tc_lsubr name f) \<Rightarrow> bindM (siod_cons cenv args) (SUBR1 k rc f)
     | _ \<Rightarrow> errm ''siod_closure code type not valid'' fcn)"

definition lapply_body :: "nat \<Rightarrow> server \<Rightarrow> siod_LISP \<Rightarrow> siod_LISP \<Rightarrow> siod_LISP act" where
  "lapply_body k rc fcn args = bindM (look fcn) (\<lambda>ob. case ob of
       Some (Tc_subr_0 name f) \<Rightarrow> SUBR0 rc f
     | Some (Tc_subr_1 name f) \<Rightarrow> bindM (siod_car args) (SUBR1 k rc f)
     | Some (Tc_subr_2 name f) \<Rightarrow>
         bindM (siod_car args) (\<lambda>a1. bindM (siod_cadr args) (SUBR2 k rc f a1))
     | Some (Tc_subr_2n name f) \<Rightarrow>
         bindM (siod_car args) (\<lambda>a1. bindM (siod_cadr args) (\<lambda>a2. bindM (SUBR2 k rc f a1 a2) (\<lambda>acc.
         bindM (siod_cddr args) (fold_given k rc f acc))))
     | Some (Tc_subr_3 name f) \<Rightarrow>
         bindM (siod_car args) (\<lambda>a1. bindM (siod_cadr args) (\<lambda>a2. bindM (siod_caddr args) (SUBR3 k rc f a1 a2)))
     | Some (Tc_subr_4 name f) \<Rightarrow>
         bindM (siod_car args) (\<lambda>a1. bindM (siod_cadr args) (\<lambda>a2. bindM (siod_caddr args) (\<lambda>a3.
         bindM (siod_cdddr args) (\<lambda>l. bindM (siod_car l) (SUBR4 rc f a1 a2 a3)))))
     | Some (Tc_subr_5 name f) \<Rightarrow>
         bindM (siod_car args) (\<lambda>a1. bindM (siod_cadr args) (\<lambda>a2. bindM (siod_caddr args) (\<lambda>a3.
         bindM (siod_cdddr args) (\<lambda>l. bindM (siod_car l) (\<lambda>a4. bindM (siod_cadr l) (SUBR5 rc f a1 a2 a3 a4))))))
     | Some (Tc_lsubr name f) \<Rightarrow> SUBR1 k rc f args
     | Some (Tc_closure cenv code) \<Rightarrow> lapply_closure k rc fcn cenv code args
     | _ \<Rightarrow> errm ''cannot be applied'' fcn)"

text \<open>
  The requests of the evaluator itself.  A C function that is given by its name is served by an interpreter that knows it.
\<close>

definition serve :: "nat \<Rightarrow> server \<Rightarrow> request \<Rightarrow> siod_LISP act" where
  "serve k rc req = (case req of
       Eval x env \<Rightarrow> leval_body k rc x env
     | Apply fcn args \<Rightarrow> lapply_body k rc fcn args
     | Call1 f a \<Rightarrow> SUBR1 k rc f a
     | Call2 f a b \<Rightarrow> SUBR2 k rc f a b
     | Call_C name args \<Rightarrow> undef)"

fun run :: "nat \<Rightarrow> request \<Rightarrow> siod_LISP act" where
  "run 0 req = nofuel"
| "run (Suc k) req = serve k (run k) req"

definition siod_leval :: "nat \<Rightarrow> siod_LISP \<Rightarrow> siod_LISP \<Rightarrow> siod_LISP act" where
  "siod_leval n x env = run n (Eval x env)"

definition siod_lapply :: "nat \<Rightarrow> siod_LISP \<Rightarrow> siod_LISP \<Rightarrow> siod_LISP act" where
  "siod_lapply n fcn args = run n (Apply fcn args)"

end
