(* ===== verification/Eval_Sound.thy ===== *)
theory Eval_Sound
  imports Eval
begin

text \<open>
  The evaluator keeps the invariant: whatever is evaluated, the state stays well formed, results
  are valid pointers, the stack of catch frames is restored, and a throw reaches a live frame.
\<close>

definition request_ok :: "siod \<Rightarrow> request \<Rightarrow> bool" where
  "request_ok s req = (case req of
       Eval x env \<Rightarrow> ref_ok s x \<and> ref_ok s env
     | Apply f args \<Rightarrow> ref_ok s f \<and> ref_ok s args
     | Call1 f a \<Rightarrow> ref_ok s a
     | Call2 f a b \<Rightarrow> ref_ok s a \<and> ref_ok s b
     | Call_C name args \<Rightarrow> list_all (ref_ok s) args)"

text \<open>What the C functions rely on in the function that serves their recursive calls.\<close>

locale sound_server =
  fixes rc :: server
  assumes rc_ok: "request_ok s req \<Longrightarrow> okR s (rc req)"
begin

lemma ok_ev: "ref_ok s x \<Longrightarrow> ref_ok s env \<Longrightarrow> okR s (ev rc x env)"
  by (rule rc_ok) (simp add: request_ok_def)

lemma ok_apply: "ref_ok s f \<Longrightarrow> ref_ok s l \<Longrightarrow> okR s (rc (Apply f l))"
  by (rule rc_ok) (simp add: request_ok_def)

lemma ok_call1: "ref_ok s a \<Longrightarrow> okR s (rc (Call1 f a))"
  by (rule rc_ok) (simp add: request_ok_def)

lemma ok_call2: "ref_ok s a \<Longrightarrow> ref_ok s b \<Longrightarrow> okR s (rc (Call2 f a b))"
  by (rule rc_ok) (simp add: request_ok_def)

lemma ok_call_C: "list_all (ref_ok s) args \<Longrightarrow> okR s (rc (Call_C name args))"
  by (rule rc_ok) (simp add: request_ok_def)

lemma ok_ev_car: "ref_ok s env \<Longrightarrow> okR s (ev_car rc l env)"
  unfolding ev_car_def by (intro okR_bind [OF ok_car] ok_ev) (auto intro: ref_ok_later)

lemma ok_args_loop:
  "ref_ok s env \<Longrightarrow> ref_ok s v2 \<Longrightarrow> okR s (args_loop k rc env v1 v2)"
proof (induction k arbitrary: s v1 v2)
  case (Suc k)
  have step: "okR s (bindM (ev rc a env) (\<lambda>v. bindM (siod_cons v NIL) (\<lambda>tmp.
         bindM (SET_CDR v1 tmp) (\<lambda>_. bindM (CDR v2) (args_loop k rc env tmp)))))"
    if "ref_ok s a" for a
    by (intro okR_bind [OF ok_ev] okR_bind [OF ok_cons] okU_bind [OF ok_SET_CDR] okR_bind [OF ok_CDR] Suc.IH)
      (use that Suc.prems in \<open>(meson ref_ok_later ref_ok_NIL)+\<close>)
  show ?case
    using Suc.prems by (auto split: option.split obj.split intro!: okM_look okM_ret step)
qed (simp add: sound_rules)

lemma ok_leval_args:
  assumes "ref_ok s l" "ref_ok s env"
  shows "okR s (siod_leval_args k rc l env)"
proof -
  have step: "okR s (bindM (ev rc a env) (\<lambda>v. bindM (siod_cons v NIL) (\<lambda>result.
         bindM (CDR l) (\<lambda>v2. bindM (args_loop k rc env result v2) (\<lambda>v2'.
         if v2' \<noteq> NIL then errm ''bad syntax argument list'' l else ret result)))))"
    if "ref_ok s a" for a
    by (intro okR_bind [OF ok_ev] okR_bind [OF ok_cons] okR_bind [OF ok_CDR] okR_bind [OF ok_args_loop]
        okM_if okM_err okM_ret)
      (use that assms in \<open>(meson ref_ok_later ref_ok_NIL)+\<close>)
  show ?thesis
    unfolding siod_leval_args_def using assms
    by (auto split: option.split obj.split intro!: okM_look okM_ret okM_err step)
qed

lemma ok_funcall1:
  assumes "ref_ok s fcn" "ref_ok s a" shows "okR s (siod_funcall1 rc fcn a)"
proof -
  have 1: "okR s (bindM (siod_cons a NIL) (\<lambda>l. rc (Apply fcn l)))"
    using assms by (intro okR_bind [OF ok_cons] ok_apply) (auto intro: ref_ok_later)
  show ?thesis
    unfolding siod_funcall1_def using assms
    by (auto split: option.split obj.split intro!: okM_look ok_call1 ok_call2 1)
qed

lemma ok_funcall2:
  assumes "ref_ok s fcn" "ref_ok s a" "ref_ok s b" shows "okR s (siod_funcall2 rc fcn a b)"
proof -
  have 1: "okR s (bindM (siod_cons b NIL) (\<lambda>l2. bindM (siod_cons a l2) (\<lambda>l. rc (Apply fcn l))))"
    using assms by (intro okR_bind [OF ok_cons] ok_apply) (auto intro: ref_ok_later)
  show ?thesis
    unfolding siod_funcall2_def using assms
    by (auto split: option.split obj.split intro!: okM_look ok_call2 1)
qed

lemma ok_mapcar1_loop:
  "ref_ok s fcn \<Longrightarrow> ref_ok s l \<Longrightarrow> okU s (mapcar1_loop k rc fcn ptr l)"
proof (induction k arbitrary: s ptr l)
  case (Suc k)
  have step: "okU s (bindM (siod_funcall1 rc fcn a) (\<lambda>v. bindM (CDR ptr) (\<lambda>pd.
         bindM (siod_cons v pd) (\<lambda>p. bindM (SET_CDR ptr p) (\<lambda>_.
         bindM (CDR l) (mapcar1_loop k rc fcn p))))))"
    if "ref_ok s a" for a
    by (intro okR_bind [OF ok_funcall1] okR_bind [OF ok_cons] okU_bind [OF ok_SET_CDR] okR_bind [OF ok_CDR] Suc.IH)
      (use that Suc.prems in \<open>(meson ref_ok_later ref_ok_NIL)+\<close>)
  show ?case
    using Suc.prems by (auto split: option.split obj.split intro!: okM_look okM_ret step)
qed (simp add: sound_rules)

lemma ok_mapcar1:
  assumes "ref_ok s fcn" shows "okR s (siod_mapcar1 k rc fcn inp)"
  unfolding siod_mapcar1_def
  by (intro okM_if okM_ret okR_bind [OF ok_car] okR_bind [OF ok_funcall1] okR_bind [OF ok_cons]
      okR_bind [OF ok_cdr] okU_bind [OF ok_mapcar1_loop])
    (use assms in \<open>(meson ref_ok_later ref_ok_NIL)+\<close>)

lemma ok_mapcar2_loop:
  "ref_ok s fcn \<Longrightarrow> ref_ok s l1 \<Longrightarrow> ref_ok s l2 \<Longrightarrow> okU s (mapcar2_loop k rc fcn ptr l1 l2)"
proof (induction k arbitrary: s ptr l1 l2)
  case (Suc k)
  have step: "okU s (bindM (siod_funcall2 rc fcn a1 a2) (\<lambda>v. bindM (CDR ptr) (\<lambda>pd.
         bindM (siod_cons v pd) (\<lambda>p. bindM (SET_CDR ptr p) (\<lambda>_.
         bindM (CDR l1) (\<lambda>l1'. bindM (CDR l2) (mapcar2_loop k rc fcn p l1')))))))"
    if "ref_ok s a1" "ref_ok s a2" for a1 a2
    by (intro okR_bind [OF ok_funcall2] okR_bind [OF ok_cons] okU_bind [OF ok_SET_CDR] okR_bind [OF ok_CDR] Suc.IH)
      (use that Suc.prems in \<open>(meson ref_ok_later ref_ok_NIL)+\<close>)
  show ?case
    using Suc.prems by (auto split: option.split obj.split intro!: okM_look okM_ret step)
qed (simp add: sound_rules)

lemma ok_mapcar2:
  assumes "ref_ok s fcn" shows "okR s (siod_mapcar2 k rc fcn in1 in2)"
  unfolding siod_mapcar2_def
  by (intro okM_if okM_ret okR_bind [OF ok_car] okR_bind [OF ok_funcall2] okR_bind [OF ok_cons]
      okR_bind [OF ok_cdr] okU_bind [OF ok_mapcar2_loop])
    (use assms in \<open>(meson ref_ok_later ref_ok_NIL)+\<close>)

lemma ok_mapcar:
  assumes "ref_ok s l" shows "okR s (siod_mapcar k rc l)"
  unfolding siod_mapcar_def
  by (intro okM_if okM_err okR_bind [OF ok_car] okR_bind [OF ok_llength] okU_bind [OF ok_get_c_long]
      okR_bind [OF ok_cdr] ok_mapcar1 ok_mapcar2)
    (use assms in \<open>(meson ref_ok_later ref_ok_NIL)+\<close>)

lemma ok_ass:
  assumes "ref_ok s fcn" "ref_ok s al" "ref_ok s x" shows "okR s (siod_ass k rc x al fcn)"
  unfolding siod_ass_def
proof (rule okM_bind [OF ok_for_cons [where G = "\<lambda>s. ref_ok s fcn \<and> ref_ok s x"
      and P = "\<lambda>v s. ref_ok s v"]])
  fix s a l assume "ref_ok s a" "ref_ok s fcn \<and> ref_ok s x"
  moreover have "okM s (bindM (siod_funcall2 rc fcn b x) (\<lambda>v. ret (if v \<noteq> NIL then Some a else None)))
      (\<lambda>r s'. \<forall>v. r = Some v \<longrightarrow> ref_ok s' v)" if "ref_ok s b" for b
    by (intro okR_bind [OF ok_funcall2] okM_ret)
      (use that calculation in \<open>auto split: if_splits intro: ref_ok_later\<close>)
  ultimately show "okM s (bindM (look a) (\<lambda>ob. case ob of
         Some (Tc_cons b d) \<Rightarrow> bindM (siod_funcall2 rc fcn b x) (\<lambda>v. ret (if v \<noteq> NIL then Some a else None))
       | _ \<Rightarrow> ret None)) (\<lambda>r s'. \<forall>v. r = Some v \<longrightarrow> ref_ok s' v)"
    by (auto split: option.split obj.split intro!: okM_look okM_ret)
qed (use assms in \<open>auto intro!: ok_search_end intro: ref_ok_later\<close>)

end

section \<open>Special forms\<close>

definition msubr_ok :: "msubr_result \<Rightarrow> siod \<Rightarrow> bool" where
  "msubr_ok r s = (ref_ok s (fst (snd r)) \<and> ref_ok s (snd (snd r)))"

lemma okM_msubr: "ref_ok s x \<Longrightarrow> ref_ok s e \<Longrightarrow> okM s (ret (b, x, e)) msubr_ok"
  by (rule okM_ret) (simp add: msubr_ok_def)

lemma ok_sym_t: "(\<And>t. ref_ok s t \<Longrightarrow> okM s (f t) Q) \<Longrightarrow> okM s (bindM (gets sym_t) f) Q"
  by (rule okM_bind_gets) (simp add: wf_global_refs)

lemma ok_sym_progn: "(\<And>t. ref_ok s t \<Longrightarrow> okM s (f t) Q) \<Longrightarrow> okM s (bindM (gets sym_progn) f) Q"
  by (rule okM_bind_gets) (simp add: wf_global_refs)

lemma ok_sym_lambda: "(\<And>t. ref_ok s t \<Longrightarrow> okM s (f t) Q) \<Longrightarrow> okM s (bindM (gets sym_lambda) f) Q"
  by (rule okM_bind_gets) (simp add: wf_global_refs)

lemma ok_sym_quote: "(\<And>t. ref_ok s t \<Longrightarrow> okM s (f t) Q) \<Longrightarrow> okM s (bindM (gets sym_quote) f) Q"
  by (rule okM_bind_gets) (simp add: wf_global_refs)

lemma ok_syntax_define_rec: "ref_ok s args \<Longrightarrow> okR s (syntax_define_rec k args)"
proof (induction k arbitrary: s args)
  case (Suc k)
  have step: "okR s (bindM (siod_caar args) (\<lambda>name. bindM (gets sym_lambda) (\<lambda>lam.
          bindM (siod_cdar args) (\<lambda>formals. bindM (siod_cdr args) (\<lambda>body.
          bindM (siod_cons formals body) (\<lambda>c1. bindM (siod_cons lam c1) (\<lambda>c2.
          bindM (siod_cons c2 NIL) (\<lambda>c3. bindM (siod_cons name c3) (syntax_define_rec k)))))))))" for s
    by (intro okR_bind [OF ok_cxr(1)] ok_sym_lambda okR_bind [OF ok_cxr(3)] okR_bind [OF ok_cdr]
        okR_bind [OF ok_cons] Suc.IH) (meson ref_ok_later ref_ok_NIL)+
  show ?case
    unfolding syntax_define_rec.simps using Suc.prems
    by (intro okR_bind [OF ok_car] okM_look okM_if okM_ret step) (auto intro: ref_ok_later)
qed (simp add: sound_rules)

lemma ok_syntax_define: "ref_ok s args \<Longrightarrow> okR s (siod_syntax_define args)"
  unfolding siod_syntax_define_def by (intro okM_bind_gets ok_syntax_define_rec)

lemma ok_leval_lambda: "ref_ok s env \<Longrightarrow> okR s (siod_leval_lambda args env)"
  unfolding siod_leval_lambda_def
  by (intro okR_bind [OF ok_cdr] okR_bind [OF okM_if] okR_bind [OF ok_car] ok_sym_progn ok_car ok_cons
      okR_bind [OF ok_cons] ok_closure) (meson ref_ok_later)+

context sound_server
begin

lemma ok_leval_set: "ref_ok s env \<Longrightarrow> okR s (siod_leval_set rc args env)"
  unfolding siod_leval_set_def
  by (intro okR_bind [OF ok_ev_car] okR_bind [OF ok_cdr] ok_setvar) (meson ref_ok_later)+

lemma ok_leval_setq: "ref_ok s env \<Longrightarrow> okR s (siod_leval_setq rc args env)"
  unfolding siod_leval_setq_def
  by (intro okR_bind [OF ok_ev_car] okR_bind [OF ok_car] okR_bind [OF ok_cdr] ok_setvar) (meson ref_ok_later)+

lemma ok_leval_define:
  assumes "ref_ok s args" "ref_ok s env" shows "okR s (siod_leval_define rc args env)"
proof -
  have store: "okR s (if slot \<noteq> NIL then bindM (SET_CAR slot val) (\<lambda>_. ret val)
          else if env = NIL then bindM (SET_VCELL var val) (\<lambda>_. ret val)
          else bindM (siod_car env) (\<lambda>fr.
               bindM (siod_car fr) (\<lambda>fl. bindM (siod_cons var fl) (\<lambda>fl'. bindM (siod_setcar fr fl') (\<lambda>_.
               bindM (siod_cdr fr) (\<lambda>al. bindM (siod_cons val al) (\<lambda>al'. bindM (siod_setcdr fr al') (\<lambda>_.
               ret val))))))))"
    if "ref_ok s val" "ref_ok s var" for s slot val var
    by (intro okM_if okU_bind [OF ok_SET_CAR] okU_bind [OF ok_SET_VCELL] okR_bind [OF ok_car]
        okR_bind [OF ok_cons] okR_bind [OF ok_setcar] okR_bind [OF ok_cdr] okR_bind [OF ok_setcdr] okM_ret)
      (use that in \<open>(meson ref_ok_later)+\<close>)
  show ?thesis
    unfolding siod_leval_define_def
    by (intro okR_bind [OF ok_syntax_define] okR_bind [OF ok_car] okM_look okM_if okM_err
        okR_bind [OF ok_cdr] okR_bind [OF ok_ev_car] okR_bind [OF ok_envlookup] store)
      (use assms in \<open>(meson ref_ok_later)+\<close>)
qed

lemma ok_leval_if: "ref_ok s env \<Longrightarrow> okM s (siod_leval_if rc form env) msubr_ok"
  unfolding siod_leval_if_def
  by (intro okR_bind [OF ok_cdr] okR_bind [OF ok_ev_car] okR_bind [OF okM_if] ok_car okM_msubr)
    (meson ref_ok_later)+

lemma ok_progn_tail: "ref_ok s env \<Longrightarrow> okR s (progn_tail k rc env l nx)"
proof (induction k arbitrary: s l nx)
  case (Suc k)
  then show ?case
    unfolding progn_tail.simps
    by (intro okM_if ok_car okR_bind [OF ok_ev_car] okR_bind [OF ok_cdr] Suc.IH) (meson ref_ok_later)+
qed (simp add: sound_rules)

lemma ok_leval_progn: "ref_ok s env \<Longrightarrow> okM s (siod_leval_progn k rc form env) msubr_ok"
  unfolding siod_leval_progn_def
  by (intro okR_bind [OF ok_cdr] okR_bind [OF ok_progn_tail] okM_msubr) (meson ref_ok_later)+

lemma ok_or_loop: "ref_ok s env \<Longrightarrow> okM s (or_loop k rc env l nx) msubr_ok"
proof (induction k arbitrary: s l nx)
  case (Suc k)
  then show ?case
    unfolding or_loop.simps
    by (intro okM_if okR_bind [OF ok_car] okR_bind [OF ok_ev_car] okR_bind [OF ok_cdr] Suc.IH okM_msubr)
      (meson ref_ok_later)+
qed (simp add: sound_rules)

lemma ok_leval_or: "ref_ok s env \<Longrightarrow> okM s (siod_leval_or k rc form env) msubr_ok"
  unfolding siod_leval_or_def
  by (intro okR_bind [OF ok_cdr] ok_or_loop) (meson ref_ok_later)+

lemma ok_and_loop: "ref_ok s env \<Longrightarrow> okM s (and_loop k rc env l nx) msubr_ok"
proof (induction k arbitrary: s l nx)
  case (Suc k)
  then show ?case
    unfolding and_loop.simps
    by (intro okM_if okR_bind [OF ok_car] okR_bind [OF ok_ev_car] okR_bind [OF ok_cdr] Suc.IH okM_msubr)
      (meson ref_ok_later ref_ok_NIL)+
qed (simp add: sound_rules)

lemma ok_leval_and: "ref_ok s env \<Longrightarrow> okM s (siod_leval_and k rc form env) msubr_ok"
  unfolding siod_leval_and_def
  by (intro okR_bind [OF ok_cdr] okM_if ok_sym_t okM_msubr ok_and_loop) (meson ref_ok_later)+

lemma ok_leval_let: "ref_ok s env \<Longrightarrow> okM s (siod_leval_let k rc form env) msubr_ok"
  unfolding siod_leval_let_def
  by (intro okR_bind [OF ok_cdr] okR_bind [OF ok_car] okR_bind [OF ok_leval_args]
      okR_bind [OF ok_extend_env] okM_msubr) (meson ref_ok_later)+

lemma ok_cond_loop: "ref_ok s env \<Longrightarrow> okM s (cond_loop k rc env args nx) msubr_ok"
proof (induction k arbitrary: s args nx)
  case (Suc k)
  show ?case
    unfolding cond_loop.simps
    by (intro okM_if okR_bind [OF ok_car] okR_bind [OF ok_ev_car] okR_bind [OF ok_cdr]
        okR_bind [OF ok_progn_tail] Suc.IH okM_msubr)
      (use Suc.prems in \<open>(meson ref_ok_later ref_ok_NIL)+\<close>)
qed (simp add: sound_rules)

lemma ok_leval_cond: "ref_ok s env \<Longrightarrow> okM s (siod_leval_cond k rc form env) msubr_ok"
  unfolding siod_leval_cond_def
  by (intro okR_bind [OF ok_cdr] okM_if okM_msubr ok_cond_loop) (meson ref_ok_later ref_ok_NIL)+

lemma ok_eval_forms:
  assumes "ref_ok s env" "ref_ok s v" "ref_ok s l" shows "okR s (eval_forms k rc env v l)"
proof -
  have "okM s (for_list k (\<lambda>p _. ev_car rc p env) v l) (\<lambda>v s. ref_ok s v \<and> ref_ok s env)"
  proof (rule ok_for_list)
    fix s l acc assume "ref_ok s acc \<and> ref_ok s env"
    then have e: "ref_ok s env" ..
    show "okM s (ev_car rc l env) (\<lambda>v s. ref_ok s v \<and> ref_ok s env)"
      using ok_ev_car [OF e, of l] e
      by (auto simp: okM_def intro: ref_ok_later split: outcome.splits prod.splits)
  qed (use assms in \<open>auto intro: ref_ok_later\<close>)
  then show ?thesis unfolding eval_forms_def by (rule okM_weaken) simp
qed

lemma ok_leval_prog1: "ref_ok s env \<Longrightarrow> okR s (siod_leval_prog1 k rc args env)"
  unfolding siod_leval_prog1_def
  by (intro okR_bind [OF ok_ev_car] okR_bind [OF ok_cdr] okR_bind [OF ok_eval_forms] okM_ret)
    (meson ref_ok_later ref_ok_NIL)+

lemma ok_leval_while: "ref_ok s env \<Longrightarrow> okR s (siod_leval_while k rc args env)"
proof (induction k arbitrary: s)
  case (Suc k)
  show ?case
    unfolding siod_leval_while.simps
    by (intro okM_if okR_bind [OF ok_ev_car] okR_bind [OF ok_cdr] okR_bind [OF ok_eval_forms] okM_ret Suc.IH)
      (use Suc.prems in \<open>(meson ref_ok_later ref_ok_NIL)+\<close>)
qed (simp add: sound_rules)

end

section \<open>Catch and throw\<close>

lemma ref_ok_frames [simp]: "ref_ok (s\<lparr>catch_framep := c\<rparr>) = ref_ok s"
  by (rule ext) (simp add: ref_ok_def split: siod_LISP.split)

lemma later_frames: "later s (s\<lparr>catch_framep := c\<rparr>)"
  by (rule laterI) (simp_all add: constants_def top_level_def)

lemma wf_state_frames:
  assumes "wf_state s" "list_all (ref_ok s) c" shows "wf_state (s\<lparr>catch_framep := c\<rparr>)"
proof -
  have "refs_ok (s\<lparr>catch_framep := c\<rparr>)"
    using assms by (auto simp: wf_state_def refs_ok_def list_all_iff globals_def constants_def)
  with assms(1) later_frames show ?thesis by (rule wf_later)
qed

lemma wf_frames_ok: "wf_state s \<Longrightarrow> list_all (ref_ok s) (catch_framep s)"
  by (auto simp: list_all_iff intro: wf_globals simp: globals_def)

lemma ok_setjmp:
  assumes tag: "ref_ok s tag" and m: "okR (s\<lparr>catch_framep := tag # catch_framep s\<rparr>) m"
  shows "okR s (setjmp_frame tag
    (bindM m (\<lambda>val. bindM (modifyM (\<lambda>s. s\<lparr>catch_framep := tl (catch_framep s)\<rparr>)) (\<lambda>_. ret val))))"
proof (rule okM_wf)
  assume w: "wf_state s"
  let ?s1 = "s\<lparr>catch_framep := tag # catch_framep s\<rparr>"
  have w1: "wf_state ?s1" using w tag wf_frames_ok [OF w] by (intro wf_state_frames) simp_all
  obtain r s2 where run: "m ?s1 = (r, s2)" by fastforce
  have 2: "wf_state s2" "later ?s1 s2" "case r of Ret a \<Rightarrow> ref_ok s2 a \<and> catch_framep s2 = catch_framep ?s1
      | Jump k v \<Rightarrow> ref_ok s2 v \<and> k < length (catch_framep ?s1) | _ \<Rightarrow> True"
    using m w1 run by (simp_all add: okM_def)
  have l: "later s s2" using later_frames 2(2) by (rule later_trans)
  then have "list_all (ref_ok s2) (catch_framep s)"
    using wf_frames_ok [OF w] by (auto simp: list_all_iff intro: ref_ok_later)
  with 2(1) have w3: "wf_state (s2\<lparr>catch_framep := catch_framep s\<rparr>)" by (rule wf_state_frames)
  have l3: "later s (s2\<lparr>catch_framep := catch_framep s\<rparr>)" using l later_frames by (rule later_trans)
  show ?thesis
  proof (cases r)
    case (Ret v)
    then show ?thesis
      using 2(3) w3 l3
      by (simp add: okM_def setjmp_frame_def run bindM_def modifyM_def ret_def)
  next
    case (Jump j v)
    then show ?thesis
      using 2 w3 l l3
      by (auto simp: okM_def setjmp_frame_def run bindM_def Let_def)
  qed (use 2 l in \<open>simp_all add: okM_def setjmp_frame_def run bindM_def\<close>)
qed

lemma ok_lthrow:
  assumes "ref_ok s v" "ref_ok s tag" shows "okR s (siod_lthrow tag v)"
proof (cases "catch_target (\<lambda>t. t = tag \<or> t = sym_catchall s) (catch_framep s)")
  case None
  then show ?thesis
    using okM_err [OF assms(2), of "Some ''no *catch found with this tag''" "\<lambda>v s'. ref_ok s' v"]
    by (simp add: okM_def siod_lthrow_def)
next
  case (Some j)
  then show ?thesis
    using assms catch_target_less [OF Some] by (simp add: okM_def siod_lthrow_def)
qed

lemma catch_unfold: "siod_leval_catch k rc args env = bindM (ev_car rc args env) (\<lambda>tag.
     setjmp_frame tag (bindM (bindM (siod_cdr args) (eval_forms k rc env NIL))
       (\<lambda>val. bindM (modifyM (\<lambda>s. s\<lparr>catch_framep := tl (catch_framep s)\<rparr>)) (\<lambda>_. ret val))))"
  by (simp add: siod_leval_catch_def siod_leval_catch_1_def bindM_assoc)

section \<open>Macros\<close>

definition pair_ok :: "siod_LISP \<times> siod_LISP \<Rightarrow> siod \<Rightarrow> bool" where
  "pair_ok r s = (ref_ok s (fst r) \<and> ref_ok s (snd r))"

lemma pair_ok_later: "later s s' \<Longrightarrow> pair_ok r s \<Longrightarrow> pair_ok r s'"
  by (auto simp: pair_ok_def intro: ref_ok_later)

lemma ok_let_binding: "pair_ok acc s \<Longrightarrow> okM s (let_binding p acc) pair_ok"
proof (cases acc)
  case (Pair fl al)
  assume "pair_ok acc s"
  then have "list_all (ref_ok s) [fl, al]" by (simp add: Pair pair_ok_def)
  then show ?thesis
    unfolding let_binding_def Pair prod.case
    by - (rule okM_look okM_if ok_car ok_cdr ok_cons okM_ret | erule okR_seq | (simp add: pair_ok_def; fail))+
qed

lemma ok_let_macro [sound_rules]:
  assumes "ref_ok s form" shows "okR s (siod_let_macro form)"
proof -
  have loop: "okM s (for_list k let_binding (NIL, NIL) bs) pair_ok" if "ref_ok s bs" for s k bs
    using that by (intro ok_for_list ok_let_binding) (auto simp: pair_ok_def intro: ref_ok_later)
  have rest: "okR s (case r of (fl, al) \<Rightarrow>
     bindM (siod_cdr form) (\<lambda>d. bindM (siod_cdr d) (\<lambda>p. bindM (siod_cdr p) (\<lambda>pd.
     bindM (if pd = NIL then siod_car p else bindM (gets sym_progn) (\<lambda>pr. siod_cons pr p)) (\<lambda>body.
     bindM (siod_reverse fl) (\<lambda>rfl. bindM (siod_reverse al) (\<lambda>ral.
     bindM (siod_cons body NIL) (\<lambda>c1. bindM (siod_cons ral c1) (\<lambda>c2. bindM (siod_cons rfl c2) (\<lambda>c3.
     bindM (siod_setcdr form c3) (\<lambda>_. bindM (siod_cintern ''let-siod_internal'') (\<lambda>sy.
     bindM (siod_setcar form sy) (\<lambda>_. ret form)))))))))))))"
    if "ref_ok s form" "pair_ok r s" for s r
  proof -
    have "list_all (ref_ok s) [form, fst r, snd r]" using that by (simp add: pair_ok_def)
    then show ?thesis
      unfolding case_prod_beta
      by - (rule okM_if ok_car ok_cdr ok_cons ok_setcar ok_setcdr ok_reverse ok_interns okM_ret | erule okM_sym_seq okR_seq | (simp; fail))+
  qed
  show ?thesis
    unfolding siod_let_macro_def
    by (intro okR_bind [OF ok_cdr] okR_bind [OF ok_car] okM_bind_gets okM_bind [OF loop] rest)
      (use assms in \<open>(meson ref_ok_later pair_ok_later)+\<close>)
qed

lemma ok_letstar_macro [sound_rules]:
  assumes "ref_ok s form" shows "okR s (siod_letstar_macro form)"
proof -
  have "list_all (ref_ok s) [form]" using assms by simp
  then show ?thesis
    unfolding siod_letstar_macro_def
    by - (rule okM_if ok_cxr ok_car ok_cdr ok_cons ok_setcar ok_setcdr ok_interns okM_ret | erule okR_seq | (simp; fail))+
qed

lemma ok_letrec_binding: "pair_ok acc s \<Longrightarrow> okM s (letrec_binding p acc) pair_ok"
proof (cases acc)
  case (Pair fl al)
  assume "pair_ok acc s"
  then have "list_all (ref_ok s) [fl, al]" by (simp add: Pair pair_ok_def)
  then show ?thesis
    unfolding letrec_binding_def Pair prod.case
    by - (rule ok_cxr ok_cons ok_interns ok_listn okM_ret | erule okR_seq | (simp add: pair_ok_def; fail))+
qed

lemma ok_letrec_macro [sound_rules]:
  assumes "ref_ok s form" shows "okR s (siod_letrec_macro form)"
proof -
  have loop: "okM s (for_list k letrec_binding (NIL, sb) bs) pair_ok" if "ref_ok s bs" "ref_ok s sb" for s k bs sb
    using that by (intro ok_for_list ok_letrec_binding) (auto simp: pair_ok_def intro: ref_ok_later)
  have rest: "okR s (case r of (letb, setb) \<Rightarrow>
     bindM (siod_cons letb setb) (\<lambda>c. bindM (siod_setcdr form c) (\<lambda>_.
     bindM (siod_cintern ''let'') (\<lambda>sy. bindM (siod_setcar form sy) (\<lambda>_. ret form)))))"
    if "ref_ok s form" "pair_ok r s" for s r
  proof -
    have "list_all (ref_ok s) [form, fst r, snd r]" using that by (simp add: pair_ok_def)
    then show ?thesis
      unfolding case_prod_beta
      by - (rule ok_cons ok_setcar ok_setcdr ok_interns okM_ret | erule okR_seq | (simp; fail))+
  qed
  show ?thesis
    unfolding siod_letrec_macro_def
    by (intro okR_bind [OF ok_cxr(2)] okR_bind [OF ok_cxr(4)] okM_bind_gets okM_bind [OF loop] rest)
      (use assms in \<open>(meson ref_ok_later pair_ok_later)+\<close>)
qed

section \<open>Calls of C functions\<close>

lemma ok_quote [sound_rules]: "okR s (siod_leval_quote args env)"
  unfolding siod_leval_quote_def by (rule ok_car)

lemma ok_tenv [sound_rules]: "ref_ok s env \<Longrightarrow> okR s (siod_leval_tenv args env)"
  unfolding siod_leval_tenv_def by (rule okM_ret)

lemma ok_eval_history [sound_rules]:
  assumes "ref_ok s x" shows "okU s (eval_history x)"
proof -
  have "list_all (ref_ok s) [x]" using assms by simp
  then show ?thesis
    unfolding eval_history_def
    by - (rule okM_look okM_if ok_VCELL ok_SET_CAR ok_CDR ok_SET_VCELL okM_ret
        | erule okM_sym_seq okR_seq okU_seq | (simp; fail))+
qed

context sound_server
begin

lemma ok_leval_catch: "ref_ok s env \<Longrightarrow> okR s (siod_leval_catch k rc args env)"
  unfolding catch_unfold
  by (intro okR_bind [OF ok_ev_car] ok_setjmp okR_bind [OF ok_cdr] ok_eval_forms)
    (auto intro: ref_ok_later, metis ref_ok_later ref_ok_frames)

lemma ok_SUBR0: "okR s (SUBR0 rc f)"
  by (cases f) (simp_all add: SUBR0_def ok_get_eof_val ok_quit ok_call_C)

lemma ok_SUBR1: "ref_ok s a \<Longrightarrow> okR s (SUBR1 k rc f a)"
  by (cases f) (simp_all add: sound_rules ok_mapcar ok_call_C)

lemma ok_SUBR2: "ref_ok s a \<Longrightarrow> ref_ok s b \<Longrightarrow> okR s (SUBR2 k rc f a b)"
  by (cases f) (simp_all add: sound_rules ok_lthrow ok_ev ok_apply ok_mapcar1 ok_leval_define ok_leval_lambda
      ok_leval_while ok_leval_set ok_leval_setq ok_leval_catch siod_lwhile_def ok_leval_prog1 ok_call_C)

lemma ok_SUBR3: "ref_ok s a \<Longrightarrow> ref_ok s b \<Longrightarrow> ref_ok s c \<Longrightarrow> okR s (SUBR3 k rc f a b c)"
  by (cases f) (simp_all add: sound_rules ok_mapcar2 ok_ass ok_call_C)

lemma ok_SUBR4: "list_all (ref_ok s) [a, b, c, d] \<Longrightarrow> okR s (SUBR4 rc f a b c d)"
  by (cases f) (simp add: ok_call_C)

lemma ok_SUBR5: "list_all (ref_ok s) [a, b, c, d, e] \<Longrightarrow> okR s (SUBR5 rc f a b c d e)"
  by (cases f) (simp add: ok_call_C)

lemma ok_SUBRM: "ref_ok s env \<Longrightarrow> okM s (SUBRM k rc f form env) msubr_ok"
  by (cases f) (simp_all add: ok_leval_if ok_leval_progn ok_leval_or ok_leval_and ok_leval_let ok_leval_cond)

lemma ok_eval_operator: "ref_ok s op \<Longrightarrow> ref_ok s env \<Longrightarrow> okR s (eval_operator rc op env)"
  unfolding eval_operator_def
  by (auto split: option.split obj.split intro!: okM_look okM_ret ok_variable_value ok_ev)

lemma ok_fold_args:
  "ref_ok s env \<Longrightarrow> ref_ok s arg1 \<Longrightarrow> ref_ok s x \<Longrightarrow> okR s (fold_args k rc f env arg1 x)"
proof (induction k arbitrary: s arg1 x)
  case (Suc k)
  have step: "okR s (bindM (ev rc a env) (\<lambda>v. bindM (SUBR2 k rc f arg1 v) (\<lambda>arg1'.
         bindM (CDR x) (fold_args k rc f env arg1'))))" if "ref_ok s a" for a
    by (intro okR_bind [OF ok_ev] okR_bind [OF ok_SUBR2] okR_bind [OF ok_CDR] Suc.IH)
      (use that Suc.prems in \<open>(meson ref_ok_later)+\<close>)
  show ?case
    using Suc.prems by (auto split: option.split obj.split intro!: okM_look okM_ret step)
qed (simp add: sound_rules)

lemma ok_fold_given:
  "ref_ok s acc \<Longrightarrow> ref_ok s args \<Longrightarrow> okR s (fold_given k rc f acc args)"
proof (induction k arbitrary: s acc args)
  case (Suc k)
  have step: "okR s (bindM (SUBR2 k rc f acc a) (\<lambda>acc'. bindM (CDR args) (fold_given k rc f acc')))"
    if "ref_ok s a" for a
    by (intro okR_bind [OF ok_SUBR2] okR_bind [OF ok_CDR] Suc.IH)
      (use that Suc.prems in \<open>(meson ref_ok_later)+\<close>)
  show ?case
    using Suc.prems by (auto split: option.split obj.split intro!: okM_look okM_ret step)
qed (simp add: sound_rules)

lemma ok_tail_of: "okR s (tail_of x)"
  unfolding tail_of_def by (intro okM_if okM_ret ok_CDR) simp

text \<open>The ways arguments are passed, for the types of C functions.\<close>

lemma ok_call_args:
  assumes "list_all (ref_ok s) [x, env, cenv]"
  shows "okR s (bindM (CDR x) (\<lambda>d. bindM (ev_car rc d env) (SUBR1 k rc f1)))"
    "okR s (bindM (CDR x) (\<lambda>x1. bindM (ev_car rc x1 env) (\<lambda>arg1. bindM (tail_of x1) (\<lambda>x2.
         bindM (ev_car rc x2 env) (\<lambda>arg2. SUBR2 k rc f2 arg1 arg2)))))"
    "okR s (bindM (CDR x) (\<lambda>x1. bindM (ev_car rc x1 env) (\<lambda>arg1. bindM (tail_of x1) (\<lambda>x2.
         bindM (ev_car rc x2 env) (\<lambda>arg2. bindM (SUBR2 k rc f2 arg1 arg2) (\<lambda>acc.
         bindM (siod_cdr x2) (fold_args k rc f2 env acc)))))))"
    "okR s (bindM (CDR x) (\<lambda>x1. bindM (ev_car rc x1 env) (\<lambda>arg1. bindM (tail_of x1) (\<lambda>x2.
         bindM (ev_car rc x2 env) (\<lambda>arg2. bindM (siod_cdr x2) (\<lambda>x3.
         bindM (ev_car rc x3 env) (\<lambda>arg3. SUBR3 k rc f3 arg1 arg2 arg3)))))))"
    "okR s (bindM (CDR x) (\<lambda>l. bindM (siod_leval_args k rc l env) (SUBR1 k rc f1)))"
    "okR s (bindM (CDR x) (\<lambda>args. SUBR2 k rc f2 args env))"
    "okR s (bindM (CDR x) (\<lambda>x1. bindM (ev_car rc x1 env) (\<lambda>arg1. SUBR2 k rc f2 cenv arg1)))"
    "okR s (bindM (CDR x) (\<lambda>x1. bindM (ev_car rc x1 env) (\<lambda>arg1. bindM (tail_of x1) (\<lambda>x2.
         bindM (ev_car rc x2 env) (\<lambda>arg2. SUBR3 k rc f3 cenv arg1 arg2)))))"
    "okR s (bindM (CDR x) (\<lambda>l. bindM (siod_leval_args k rc l env) (\<lambda>args.
         bindM (siod_cons cenv args) (SUBR1 k rc f1))))"
    "okR s (bindM (CDR x) (\<lambda>x1. bindM (ev_car rc x1 env) (\<lambda>arg1. bindM (tail_of x1) (\<lambda>x2.
         bindM (ev_car rc x2 env) (\<lambda>arg2. bindM (siod_cdr x2) (\<lambda>x3.
         bindM (ev_car rc x3 env) (\<lambda>arg3. bindM (siod_cdr x3) (\<lambda>x4.
         bindM (ev_car rc x4 env) (\<lambda>arg4. SUBR4 rc f4 arg1 arg2 arg3 arg4)))))))))"
    "okR s (bindM (CDR x) (\<lambda>x1. bindM (ev_car rc x1 env) (\<lambda>arg1. bindM (tail_of x1) (\<lambda>x2.
         bindM (ev_car rc x2 env) (\<lambda>arg2. bindM (siod_cdr x2) (\<lambda>x3.
         bindM (ev_car rc x3 env) (\<lambda>arg3. bindM (siod_cdr x3) (\<lambda>x4.
         bindM (ev_car rc x4 env) (\<lambda>arg4. bindM (siod_cdr x4) (\<lambda>x5.
         bindM (ev_car rc x5 env) (\<lambda>arg5. SUBR5 rc f5 arg1 arg2 arg3 arg4 arg5)))))))))))"
    "okR s (bindM (CDR x) (\<lambda>x1. bindM (ev_car rc x1 env) (\<lambda>arg1. bindM (tail_of x1) (\<lambda>x2.
         bindM (ev_car rc x2 env) (\<lambda>arg2. bindM (siod_cdr x2) (\<lambda>x3.
         bindM (ev_car rc x3 env) (\<lambda>arg3. SUBR4 rc f4 cenv arg1 arg2 arg3)))))))"
    "okR s (bindM (CDR x) (\<lambda>x1. bindM (ev_car rc x1 env) (\<lambda>arg1. bindM (tail_of x1) (\<lambda>x2.
         bindM (ev_car rc x2 env) (\<lambda>arg2. bindM (siod_cdr x2) (\<lambda>x3.
         bindM (ev_car rc x3 env) (\<lambda>arg3. bindM (siod_cdr x3) (\<lambda>x4.
         bindM (ev_car rc x4 env) (\<lambda>arg4. SUBR5 rc f5 cenv arg1 arg2 arg3 arg4)))))))))"
  using assms
  by - (rule ok_CDR ok_ev_car ok_SUBR1 ok_SUBR2 ok_SUBR3 ok_SUBR4 ok_SUBR5 ok_tail_of ok_cdr ok_fold_args ok_leval_args ok_cons
      | erule okR_seq | (simp; fail))+

lemma ok_leval_closure:
  assumes "list_all (ref_ok s) [x, env, cenv]" "ref_ok s tmp" "ref_ok s code"
  shows "okR s (leval_closure k rc tmp cenv code x env)"
proof -
  have l: "list_all (ref_ok s) [x, env, cenv, code]" using assms by simp
  have 1: "okR s (bindM (CDR x) (\<lambda>l. bindM (siod_leval_args k rc l env) (\<lambda>actuals.
         bindM (CAR code) (\<lambda>formals'. bindM (siod_extend_env actuals formals' cenv) (\<lambda>env'.
         bindM (CDR code) (\<lambda>body'. rc (Eval body' env')))))))"
    using l by - (rule ok_CDR ok_CAR ok_leval_args ok_extend_env ok_ev | erule okR_seq | (simp; fail))+
  show ?thesis
    unfolding leval_closure_def using assms
    by (auto split: option.split obj.split intro!: okM_look okM_err ok_SUBR1 1 ok_call_args)
qed

lemma ok_leval_call:
  assumes "list_all (ref_ok s) [x, env]" "ref_ok s tmp"
  shows "okR s (leval_call k rc tmp x env)"
proof -
  have 1: "okR s (bindM (SUBRM k rc f x env) (\<lambda>(again, x', env'). if again then rc (Eval x' env') else ret x'))" for f
    using assms
    by (intro okM_bind [OF ok_SUBRM]) (auto simp: msubr_ok_def intro!: ok_ev okM_ret)
  have l: "list_all (ref_ok s) [x, env, tmp]" using assms by simp
  have 2: "okR s (bindM (siod_cons x NIL) (\<lambda>c1. bindM (gets sym_quote) (\<lambda>q. bindM (siod_cons q c1) (\<lambda>c2.
         bindM (siod_cons c2 NIL) (\<lambda>c3. bindM (siod_cons tmp c3) (\<lambda>call.
         bindM (ev rc call NIL) (\<lambda>x'. rc (Eval x' env))))))))"
    using l by - (rule ok_cons ok_ev | erule okR_seq okM_sym_seq | (simp; fail))+
  show ?thesis
    unfolding leval_call_def using assms
    by (auto split: option.split obj.split
        intro!: okM_look okM_err ok_SUBR0 1 2 ok_call_args [where cenv = NIL] ok_leval_closure)
qed

lemma ok_leval_body:
  assumes "ref_ok s x" "ref_ok s env"
  shows "okR s (leval_body k rc x env)"
proof -
  have 1: "okR s (bindM (eval_operator rc op env) (\<lambda>tmp. leval_call k rc tmp x env))"
    if "ref_ok s op" "ref_ok s x" "ref_ok s env" for s op
    using that by (intro okR_bind [OF ok_eval_operator] ok_leval_call) (auto intro: ref_ok_later)
  have 2: "okR s (bindM (look x) (\<lambda>ob. case ob of
       Some (Tc_symbol p v) \<Rightarrow> variable_value x env
     | Some (Tc_cons op args) \<Rightarrow> bindM (eval_operator rc op env) (\<lambda>tmp. leval_call k rc tmp x env)
     | _ \<Rightarrow> ret x))" if "ref_ok s x" "ref_ok s env" for s
    using that by (auto split: option.split obj.split intro!: okM_look okM_ret ok_variable_value 1)
  show ?thesis
    unfolding leval_body_def using assms
    by (intro okU_bind [OF ok_eval_history] 2) (auto intro: ref_ok_later)
qed

lemma ok_lapply_closure:
  assumes "list_all (ref_ok s) [fcn, cenv, code, args]"
  shows "okR s (lapply_closure k rc fcn cenv code args)"
proof -
  have 1: "okR s (bindM (siod_cdr code) (\<lambda>body'. bindM (siod_car code) (\<lambda>formals'.
         bindM (siod_extend_env args formals' cenv) (\<lambda>env'. rc (Eval body' env')))))"
    "okR s (bindM (siod_car args) (SUBR2 k rc f2 cenv))"
    "okR s (bindM (siod_car args) (\<lambda>a1. bindM (siod_cadr args) (SUBR3 k rc f3 cenv a1)))"
    "okR s (bindM (siod_cons cenv args) (SUBR1 k rc f1))"
    "okR s (bindM (siod_car args) (\<lambda>a1. bindM (siod_cadr args) (\<lambda>a2. bindM (siod_caddr args) (SUBR4 rc f4 cenv a1 a2))))"
    "okR s (bindM (siod_car args) (\<lambda>a1. bindM (siod_cadr args) (\<lambda>a2. bindM (siod_caddr args) (\<lambda>a3.
         bindM (siod_cdddr args) (\<lambda>l. bindM (siod_car l) (SUBR5 rc f5 cenv a1 a2 a3))))))" for f1 f2 f3 f4 f5
    using assms
    by - (rule ok_cdr ok_car ok_cxr ok_cons ok_extend_env ok_ev ok_SUBR1 ok_SUBR2 ok_SUBR3 ok_SUBR4 ok_SUBR5
        | erule okR_seq | (simp; fail))+
  show ?thesis
    unfolding lapply_closure_def using assms
    by (auto split: option.split obj.split intro!: okM_look okM_err ok_SUBR1 1)
qed

lemma ok_lapply_body:
  assumes "ref_ok s fcn" "ref_ok s args"
  shows "okR s (lapply_body k rc fcn args)"
proof -
  have l: "list_all (ref_ok s) [fcn, args]" using assms by simp
  have 1: "okR s (bindM (siod_car args) (SUBR1 k rc f1))"
    "okR s (bindM (siod_car args) (\<lambda>a1. bindM (siod_cadr args) (SUBR2 k rc f2 a1)))"
    "okR s (bindM (siod_car args) (\<lambda>a1. bindM (siod_cadr args) (\<lambda>a2. bindM (SUBR2 k rc f2 a1 a2) (\<lambda>acc.
         bindM (siod_cddr args) (fold_given k rc f2 acc)))))"
    "okR s (bindM (siod_car args) (\<lambda>a1. bindM (siod_cadr args) (\<lambda>a2. bindM (siod_caddr args) (SUBR3 k rc f3 a1 a2))))"
    "okR s (bindM (siod_car args) (\<lambda>a1. bindM (siod_cadr args) (\<lambda>a2. bindM (siod_caddr args) (\<lambda>a3.
         bindM (siod_cdddr args) (\<lambda>l. bindM (siod_car l) (SUBR4 rc f4 a1 a2 a3))))))"
    "okR s (bindM (siod_car args) (\<lambda>a1. bindM (siod_cadr args) (\<lambda>a2. bindM (siod_caddr args) (\<lambda>a3.
         bindM (siod_cdddr args) (\<lambda>l. bindM (siod_car l) (\<lambda>a4. bindM (siod_cadr l) (SUBR5 rc f5 a1 a2 a3 a4)))))))"
    for f1 f2 f3 f4 f5
    using l
    by - (rule ok_car ok_cxr ok_SUBR1 ok_SUBR2 ok_SUBR3 ok_SUBR4 ok_SUBR5 ok_fold_given | erule okR_seq | (simp; fail))+
  show ?thesis
    unfolding lapply_body_def using assms
    by (auto split: option.split obj.split intro!: okM_look okM_err ok_SUBR0 ok_SUBR1 1 ok_lapply_closure)
qed

lemma ok_serve: "request_ok s req \<Longrightarrow> okR s (serve k rc req)"
  unfolding serve_def
  by (auto simp: request_ok_def split: request.splits
      intro!: ok_leval_body ok_lapply_body ok_SUBR1 ok_SUBR2 okM_stop)

end

section \<open>The interpreter serves its own calls\<close>

interpretation interpreter: sound_server "run n" for n
proof (unfold_locales)
  show "request_ok s req \<Longrightarrow> okR s (run n req)" for s req
  proof (induction n arbitrary: s req)
    case (Suc n)
    then have "sound_server (run n)" by (intro sound_server.intro)
    from sound_server.ok_serve [OF this Suc.prems] show ?case by simp
  qed (simp add: sound_rules)
qed

end
