(* ===== verification/Eval_Fuel.thy ===== *)
theory Eval_Fuel
  imports Eval_Sound
begin

text \<open>
  Fuel does not matter: a computation of the evaluator that ends with some fuel ends in the same
  outcome and state with any larger fuel.
\<close>

section \<open>Better approximations\<close>

definition approx :: "'a act \<Rightarrow> 'a act \<Rightarrow> bool" where
  "approx m m' = (\<forall>s. fst (m s) = Nofuel \<or> m' s = m s)"

lemma approx_refl [approx_rules]: "approx m m"
  by (simp add: approx_def)

lemma approx_nofuel [approx_rules]: "approx nofuel m"
  by (simp add: approx_def nofuel_def)

lemma approx_bind [approx_rules]:
  assumes "approx m m'" "\<And>a. approx (f a) (f' a)"
  shows "approx (bindM m f) (bindM m' f')"
proof -
  have "fst (bindM m f s) = Nofuel \<or> bindM m' f' s = bindM m f s" for s
  proof (cases "fst (m s) = Nofuel")
    case True
    then obtain s1 where "m s = (Nofuel, s1)" by (metis prod.collapse)
    then show ?thesis by (simp add: bindM_def)
  next
    case False
    then have eq: "m' s = m s" using assms(1) by (auto simp: approx_def)
    obtain r s1 where m: "m s = (r, s1)" by fastforce
    show ?thesis
      using assms(2) by (cases r) (simp_all add: bindM_def eq m approx_def)
  qed
  then show ?thesis by (simp add: approx_def)
qed

lemma approx_if [approx_rules]:
  "(b \<Longrightarrow> approx m m') \<Longrightarrow> (\<not> b \<Longrightarrow> approx n n') \<Longrightarrow> approx (if b then m else n) (if b then m' else n')"
  by simp

lemma approx_setjmp [approx_rules]: "approx m m' \<Longrightarrow> approx (setjmp_frame t m) (setjmp_frame t m')"
proof -
  assume m: "approx m m'"
  have "fst (setjmp_frame t m s) = Nofuel \<or> setjmp_frame t m' s = setjmp_frame t m s" for s
  proof -
    let ?s = "s\<lparr>catch_framep := t # catch_framep s\<rparr>"
    have "fst (m ?s) = Nofuel \<or> m' ?s = m ?s" using m by (simp only: approx_def)
    then show ?thesis
    proof
      assume "fst (m ?s) = Nofuel"
      then obtain s1 where "m ?s = (Nofuel, s1)" by (metis prod.collapse)
      then show ?thesis by (simp add: setjmp_frame_def Let_def)
    qed (simp add: setjmp_frame_def)
  qed
  then show ?thesis by (simp add: approx_def)
qed

lemma approx_for_cons:
  assumes "k \<le> k'" "\<And>a l. approx (body a l) (body' a l)"
  shows "approx (for_cons k body l) (for_cons k' body' l)"
  using assms(1)
proof (induction k arbitrary: k' l)
  case (Suc k)
  then obtain j where "k' = Suc j" "k \<le> j" by (cases k') auto
  with Suc.IH assms(2) show ?case
    by (auto split: option.split obj.split intro!: approx_rules)
qed (simp add: approx_nofuel)

lemma approx_for_list:
  assumes "k \<le> k'" "\<And>l acc. approx (body l acc) (body' l acc)"
  shows "approx (for_list k body acc l) (for_list k' body' acc l)"
  using assms(1)
proof (induction k arbitrary: k' l acc)
  case (Suc k)
  then obtain j where "k' = Suc j" "k \<le> j" by (cases k') auto
  with Suc.IH assms(2) show ?case by (auto simp del: ret_run intro!: approx_rules)
qed (simp add: approx_nofuel)

section \<open>The C functions over a better server\<close>

locale better_server =
  fixes rc rc' :: server and k k' :: nat
  assumes rc_le: "approx (rc req) (rc' req)" and k_le: "k \<le> k'"
begin

lemma ev_car_le: "approx (ev_car rc l env) (ev_car rc' l env)"
  unfolding ev_car_def by (intro approx_rules rc_le)

lemma args_loop_le: "n \<le> n' \<Longrightarrow> approx (args_loop n rc env v1 v2) (args_loop n' rc' env v1 v2)"
proof (induction n arbitrary: n' v1 v2)
  case (Suc n)
  then obtain j where "n' = Suc j" "n \<le> j" by (cases n') auto
  with Suc.IH show ?case by (auto split: option.split obj.split intro!: approx_rules rc_le)
qed (simp add: approx_nofuel)

lemma leval_args_le: "approx (siod_leval_args k rc l env) (siod_leval_args k' rc' l env)"
  unfolding siod_leval_args_def
  by (auto split: option.split obj.split intro!: approx_rules rc_le args_loop_le k_le)

lemma funcall1_le: "approx (siod_funcall1 rc fcn a) (siod_funcall1 rc' fcn a)"
  unfolding siod_funcall1_def by (auto split: option.split obj.split intro!: approx_rules rc_le)

lemma funcall2_le: "approx (siod_funcall2 rc fcn a b) (siod_funcall2 rc' fcn a b)"
  unfolding siod_funcall2_def by (auto split: option.split obj.split intro!: approx_rules rc_le)

lemma mapcar1_loop_le: "n \<le> n' \<Longrightarrow> approx (mapcar1_loop n rc f p l) (mapcar1_loop n' rc' f p l)"
proof (induction n arbitrary: n' p l)
  case (Suc n)
  then obtain j where "n' = Suc j" "n \<le> j" by (cases n') auto
  with Suc.IH show ?case by (auto split: option.split obj.split intro!: approx_rules funcall1_le)
qed (simp add: approx_nofuel)

lemma mapcar1_le: "approx (siod_mapcar1 k rc f l) (siod_mapcar1 k' rc' f l)"
  unfolding siod_mapcar1_def by (intro approx_rules funcall1_le mapcar1_loop_le k_le)

lemma mapcar2_loop_le: "n \<le> n' \<Longrightarrow> approx (mapcar2_loop n rc f p l1 l2) (mapcar2_loop n' rc' f p l1 l2)"
proof (induction n arbitrary: n' p l1 l2)
  case (Suc n)
  then obtain j where "n' = Suc j" "n \<le> j" by (cases n') auto
  with Suc.IH show ?case by (auto split: option.split obj.split intro!: approx_rules funcall2_le)
qed (simp add: approx_nofuel)

lemma mapcar2_le: "approx (siod_mapcar2 k rc f l1 l2) (siod_mapcar2 k' rc' f l1 l2)"
  unfolding siod_mapcar2_def by (intro approx_rules funcall2_le mapcar2_loop_le k_le)

lemma mapcar_le: "approx (siod_mapcar k rc l) (siod_mapcar k' rc' l)"
  unfolding siod_mapcar_def by (intro approx_rules mapcar1_le mapcar2_le)

lemma ass_le: "approx (siod_ass k rc x al f) (siod_ass k' rc' x al f)"
  unfolding siod_ass_def
  by (intro approx_bind approx_for_cons k_le)
    (auto split: option.split obj.split intro!: approx_rules funcall2_le)

lemma set_le: "approx (siod_leval_set rc args env) (siod_leval_set rc' args env)"
  "approx (siod_leval_setq rc args env) (siod_leval_setq rc' args env)"
  unfolding siod_leval_set_def siod_leval_setq_def by (intro approx_rules ev_car_le)+

lemma define_le: "approx (siod_leval_define rc args env) (siod_leval_define rc' args env)"
  unfolding siod_leval_define_def by (intro approx_rules ev_car_le)

lemma if_le: "approx (siod_leval_if rc form env) (siod_leval_if rc' form env)"
  unfolding siod_leval_if_def by (intro approx_rules ev_car_le)

lemma progn_tail_le: "n \<le> n' \<Longrightarrow> approx (progn_tail n rc env l nx) (progn_tail n' rc' env l nx)"
proof (induction n arbitrary: n' l nx)
  case (Suc n)
  then obtain j where "n' = Suc j" "n \<le> j" by (cases n') auto
  with Suc.IH show ?case by (auto intro!: approx_rules ev_car_le)
qed (simp add: approx_nofuel)

lemma progn_le: "approx (siod_leval_progn k rc form env) (siod_leval_progn k' rc' form env)"
  unfolding siod_leval_progn_def by (intro approx_rules progn_tail_le k_le)

lemma or_loop_le: "n \<le> n' \<Longrightarrow> approx (or_loop n rc env l nx) (or_loop n' rc' env l nx)"
proof (induction n arbitrary: n' l nx)
  case (Suc n)
  then obtain j where "n' = Suc j" "n \<le> j" by (cases n') auto
  with Suc.IH show ?case by (auto intro!: approx_rules ev_car_le)
qed (simp add: approx_nofuel)

lemma and_loop_le: "n \<le> n' \<Longrightarrow> approx (and_loop n rc env l nx) (and_loop n' rc' env l nx)"
proof (induction n arbitrary: n' l nx)
  case (Suc n)
  then obtain j where "n' = Suc j" "n \<le> j" by (cases n') auto
  with Suc.IH show ?case by (auto intro!: approx_rules ev_car_le)
qed (simp add: approx_nofuel)

lemma or_and_le: "approx (siod_leval_or k rc form env) (siod_leval_or k' rc' form env)"
  "approx (siod_leval_and k rc form env) (siod_leval_and k' rc' form env)"
  unfolding siod_leval_or_def siod_leval_and_def
  by (intro approx_rules or_loop_le and_loop_le k_le)+

lemma let_le: "approx (siod_leval_let k rc form env) (siod_leval_let k' rc' form env)"
  unfolding siod_leval_let_def by (intro approx_rules leval_args_le)

lemma cond_loop_le: "n \<le> n' \<Longrightarrow> approx (cond_loop n rc env l nx) (cond_loop n' rc' env l nx)"
proof (induction n arbitrary: n' l nx)
  case (Suc n)
  then obtain j where j: "n' = Suc j" "n \<le> j" by (cases n') auto
  show ?case
    unfolding j(1) cond_loop.simps
    by (intro approx_rules ev_car_le progn_tail_le Suc.IH j(2))
qed (simp add: approx_nofuel)

lemma cond_le: "approx (siod_leval_cond k rc form env) (siod_leval_cond k' rc' form env)"
  unfolding siod_leval_cond_def by (intro approx_rules cond_loop_le k_le)

lemma eval_forms_le: "n \<le> n' \<Longrightarrow> approx (eval_forms n rc env v l) (eval_forms n' rc' env v l)"
  unfolding eval_forms_def by (intro approx_for_list ev_car_le)

lemma prog1_le: "approx (siod_leval_prog1 k rc args env) (siod_leval_prog1 k' rc' args env)"
  unfolding siod_leval_prog1_def by (intro approx_rules ev_car_le eval_forms_le k_le)

lemma while_le: "n \<le> n' \<Longrightarrow> approx (siod_leval_while n rc args env) (siod_leval_while n' rc' args env)"
proof (induction n arbitrary: n')
  case (Suc n)
  then obtain j where "n' = Suc j" "n \<le> j" by (cases n') auto
  with Suc.IH show ?case by (auto intro!: approx_rules ev_car_le eval_forms_le)
qed (simp add: approx_nofuel)

lemma catch_le: "approx (siod_leval_catch k rc args env) (siod_leval_catch k' rc' args env)"
  unfolding siod_leval_catch_def siod_leval_catch_1_def
  by (intro approx_rules ev_car_le eval_forms_le k_le)

lemma SUBR0_le: "approx (SUBR0 rc f) (SUBR0 rc' f)"
  by (cases f) (simp_all add: SUBR0_def approx_refl rc_le)

lemma SUBR1_le: "approx (SUBR1 k rc f a) (SUBR1 k' rc' f a)"
  by (cases f) (simp_all add: approx_refl mapcar_le rc_le)

lemma SUBR2_le: "approx (SUBR2 k rc f a b) (SUBR2 k' rc' f a b)"
  by (cases f) (simp_all add: approx_refl rc_le mapcar1_le define_le set_le while_le k_le catch_le
      siod_lwhile_def prog1_le)

lemma SUBR3_le: "approx (SUBR3 k rc f a b c) (SUBR3 k' rc' f a b c)"
  by (cases f) (simp_all add: approx_refl mapcar2_le ass_le rc_le)

lemma SUBR4_le: "approx (SUBR4 rc f a b c d) (SUBR4 rc' f a b c d)"
  by (cases f) (simp add: rc_le)

lemma SUBR5_le: "approx (SUBR5 rc f a b c d e) (SUBR5 rc' f a b c d e)"
  by (cases f) (simp add: rc_le)

lemma SUBRM_le: "approx (SUBRM k rc f a b) (SUBRM k' rc' f a b)"
  by (cases f) (simp_all add: if_le progn_le or_and_le let_le cond_le)

text \<open>The loops over arguments call C functions with the bound of the turn they are in.\<close>

end

lemma fold_args_le:
  assumes "\<And>req. approx (rc req) (rc' req)"
  shows "k \<le> k' \<Longrightarrow> approx (fold_args k rc f env a x) (fold_args k' rc' f env a x)"
proof (induction k arbitrary: k' a x)
  case (Suc k)
  then obtain j where j: "k' = Suc j" "k \<le> j" by (cases k') auto
  have "better_server rc rc' k j" using assms j(2) by (rule better_server.intro)
  from better_server.SUBR2_le [OF this] Suc.IH j assms show ?case
    by (auto split: option.split obj.split intro!: approx_rules)
qed (simp add: approx_nofuel)

lemma fold_given_le:
  assumes "\<And>req. approx (rc req) (rc' req)"
  shows "k \<le> k' \<Longrightarrow> approx (fold_given k rc f a x) (fold_given k' rc' f a x)"
proof (induction k arbitrary: k' a x)
  case (Suc k)
  then obtain j where j: "k' = Suc j" "k \<le> j" by (cases k') auto
  have "better_server rc rc' k j" using assms j(2) by (rule better_server.intro)
  from better_server.SUBR2_le [OF this] Suc.IH j show ?case
    by (auto split: option.split obj.split intro!: approx_rules)
qed (simp add: approx_nofuel)

context better_server
begin

lemma leval_closure_le: "approx (leval_closure k rc tmp cenv code x env) (leval_closure k' rc' tmp cenv code x env)"
  unfolding leval_closure_def
  by (auto split: option.split obj.split intro!: approx_rules leval_args_le rc_le ev_car_le SUBR1_le SUBR2_le SUBR3_le
      SUBR4_le SUBR5_le)

lemma leval_call_le: "approx (leval_call k rc tmp x env) (leval_call k' rc' tmp x env)"
  unfolding leval_call_def
  by (auto split: option.split obj.split intro!: approx_rules leval_args_le rc_le ev_car_le SUBR1_le SUBR2_le
      SUBR0_le SUBR3_le SUBR4_le SUBR5_le SUBRM_le leval_closure_le fold_args_le k_le)

lemma leval_body_le: "approx (leval_body k rc x env) (leval_body k' rc' x env)"
  unfolding leval_body_def eval_operator_def
  by (auto split: option.split obj.split intro!: approx_rules rc_le leval_call_le)

lemma lapply_body_le: "approx (lapply_body k rc fcn args) (lapply_body k' rc' fcn args)"
  unfolding lapply_body_def lapply_closure_def
  by (auto split: option.split obj.split intro!: approx_rules rc_le SUBR0_le SUBR1_le SUBR2_le SUBR3_le
      SUBR4_le SUBR5_le fold_given_le k_le)

lemma serve_le: "approx (serve k rc req) (serve k' rc' req)"
  unfolding serve_def
  by (auto split: request.split intro: leval_body_le lapply_body_le SUBR1_le SUBR2_le approx_refl)

end

section \<open>More fuel\<close>

lemma run_le: "k \<le> k' \<Longrightarrow> approx (run k req) (run k' req)"
proof (induction k arbitrary: k' req)
  case (Suc k)
  then obtain j where j: "k' = Suc j" "k \<le> j" by (cases k') auto
  have "better_server (run k) (run j) k j" using Suc.IH [OF j(2)] j(2) by (rule better_server.intro)
  from better_server.serve_le [OF this] show ?case by (simp add: j)
qed (simp add: approx_nofuel)

interpretation fuel: better_server "run k" "run (k + d)" k "k + d" for k d
  by unfold_locales (simp_all add: run_le)

end
