(* ===== verification/Init.thy ===== *)
theory Init
  imports Eval_Fuel
begin

text \<open>
  The initial state (slib.c, siod_init_storage_1): the obarray, the distinguished symbols, their
  values, and the preallocated small integers.
\<close>

definition blank :: "nat \<Rightarrow> nat \<Rightarrow> siod" where
  "blank hsize dim = \<lparr>cells = [], heap_size = hsize, obarray_dim = dim, obarray = [], oblistvar = NIL,
     inums = [], unbound_marker = NIL, eof_val = NIL, sym_t = NIL, sym_errobj = NIL, sym_catchall = NIL,
     sym_progn = NIL, sym_lambda = NIL, sym_quote = NIL, sym_dot = NIL, sym_after_gc = NIL,
     sym_eval_history_ptr = NIL, catch_framep = [], errjmp_ok = False, inside_err = False,
     siod_verbose_level = 4, console = [],
     disk = (\<lambda>_. None), may_open = (\<lambda>_ _. True), errno_text = [], streams = standard_streams,
     repl_c_string_arg = None, repl_c_string_out = None, repl_c_string_flag = False,
     repl_c_string_print_len = 0, rcsp_pos = 0\<rparr>"

definition siod_gc_protect_sym :: "(siod_LISP \<Rightarrow> siod \<Rightarrow> siod) \<Rightarrow> string \<Rightarrow> siod_LISP act" where
  "siod_gc_protect_sym upd st = bindM (siod_cintern st) (\<lambda>sy. bindM (modifyM (upd sy)) (\<lambda>_. ret sy))"

text \<open>A global that holds a fresh cons of a symbol and NIL.\<close>

definition marker :: "(siod_LISP \<Rightarrow> siod \<Rightarrow> siod) \<Rightarrow> string \<Rightarrow> unit act" where
  "marker upd st = bindM (siod_cintern st) (\<lambda>sy. bindM (siod_cons sy NIL) (\<lambda>c. modifyM (upd c)))"

definition set_global :: "string \<Rightarrow> siod_LISP act \<Rightarrow> unit act" where
  "set_global st m = bindM (siod_cintern st) (\<lambda>sy. bindM m (\<lambda>v. bindM (siod_setvar sy v NIL) (\<lambda>_. ret ())))"

definition self_value :: "siod_LISP \<Rightarrow> siod_LISP \<Rightarrow> unit act" where
  "self_value sy v = bindM (siod_setvar sy v NIL) (\<lambda>_. ret ())"

fun init_inums :: "nat \<Rightarrow> nat \<Rightarrow> unit act" where
  "init_inums 0 j = ret ()"
| "init_inums (Suc n) j = bindM (newcell (Tc_flonum (of_long (int j)))) (\<lambda>ptr.
     bindM (modifyM (\<lambda>s. s\<lparr>inums := inums s @ [ptr]\<rparr>)) (\<lambda>_. init_inums n (Suc j)))"

definition init_symbols :: "unit act" where
  "init_symbols =
     bindM (modifyM (\<lambda>s. s\<lparr>obarray := if 1 < obarray_dim s then replicate (obarray_dim s) NIL else []\<rparr>)) (\<lambda>_.
     bindM (marker (\<lambda>c s. s\<lparr>unbound_marker := c\<rparr>) ''**unbound-marker**'') (\<lambda>_.
     bindM (marker (\<lambda>c s. s\<lparr>eof_val := c\<rparr>) ''eof'') (\<lambda>_.
     bindM (siod_gc_protect_sym (\<lambda>y s. s\<lparr>sym_t := y\<rparr>) ''t'') (\<lambda>t. bindM (self_value t t) (\<lambda>_.
     bindM (set_global ''nil'' (ret NIL)) (\<lambda>_.
     bindM (set_global ''let'' (siod_cintern ''let-siod_internal-macro'')) (\<lambda>_.
     bindM (set_global ''let*'' (siod_cintern ''let*-macro'')) (\<lambda>_.
     bindM (set_global ''letrec'' (siod_cintern ''letrec-macro'')) (\<lambda>_.
     bindM (siod_gc_protect_sym (\<lambda>y s. s\<lparr>sym_errobj := y\<rparr>) ''errobj'') (\<lambda>y. bindM (self_value y NIL) (\<lambda>_.
     bindM (siod_gc_protect_sym (\<lambda>y s. s\<lparr>sym_catchall := y\<rparr>) ''all'') (\<lambda>_.
     bindM (siod_gc_protect_sym (\<lambda>y s. s\<lparr>sym_progn := y\<rparr>) ''begin'') (\<lambda>_.
     bindM (siod_gc_protect_sym (\<lambda>y s. s\<lparr>sym_lambda := y\<rparr>) ''lambda'') (\<lambda>_.
     bindM (siod_gc_protect_sym (\<lambda>y s. s\<lparr>sym_quote := y\<rparr>) ''quote'') (\<lambda>_.
     bindM (siod_gc_protect_sym (\<lambda>y s. s\<lparr>sym_dot := y\<rparr>) ''.'') (\<lambda>_.
     bindM (siod_gc_protect_sym (\<lambda>y s. s\<lparr>sym_after_gc := y\<rparr>) ''*after-gc*'') (\<lambda>y. bindM (self_value y NIL) (\<lambda>_.
     bindM (siod_gc_protect_sym (\<lambda>y s. s\<lparr>sym_eval_history_ptr := y\<rparr>) ''*eval-history-ptr*'') (\<lambda>y.
     self_value y NIL)))))))))))))))))))"

definition siod_init_storage_1 :: "nat \<Rightarrow> unit act" where
  "siod_init_storage_1 inums_dim = bindM init_symbols (\<lambda>_. init_inums inums_dim 0)"

text \<open>The entry of a C function in the global environment (siod_init_subr).\<close>

definition siod_init_subr :: "string \<Rightarrow> obj \<Rightarrow> unit act" where
  "siod_init_subr name ob = set_global name (newcell ob)"

section \<open>It establishes the invariant\<close>

lemma wf_state_add_inum:
  assumes "wf_state s" "obj_at s r = Some (Tc_flonum (of_long (int (length (inums s)))))"
  shows "wf_state (s\<lparr>inums := inums s @ [r]\<rparr>)"
proof -
  let ?s = "s\<lparr>inums := inums s @ [r]\<rparr>"
  have o: "obj_at ?s = obj_at s" by (rule ext) (simp add: obj_at_def split: siod_LISP.split)
  have k: "ref_ok ?s = ref_ok s" by (rule ext) (simp add: ref_ok_def split: siod_LISP.split)
  have r: "ref_ok s r" using assms(2) by (auto simp: obj_at_def ref_ok_def split: siod_LISP.splits if_splits)
  have "refs_ok ?s"
    using assms(1) r by (auto simp: wf_state_def refs_ok_def k globals_def constants_def)
  moreover have "inums_ok ?s"
    using assms by (auto simp: wf_state_def inums_ok_def o nth_append less_Suc_eq)
  ultimately show ?thesis
    using assms(1) by (simp add: wf_state_def symbol_at_def o obarray_ok_def)
qed

lemma init_inums_run:
  "wf_state s \<Longrightarrow> room n s \<Longrightarrow> length (inums s) = j \<Longrightarrow>
   \<exists>s'. init_inums n j s = (Ret (), s') \<and> wf_state s' \<and> length (inums s') = j + n \<and>
     catch_framep s' = catch_framep s"
proof (induction n arbitrary: s j)
  case (Suc n)
  let ?ob = "Tc_flonum (of_long (int j))"
  let ?s1 = "grow [?ob] s" and ?r = "Ref (length (cells s))"
  let ?s2 = "?s1\<lparr>inums := inums ?s1 @ [?r]\<rparr>"
  have new: "newcell ?ob s = (Ret ?r, ?s1)" using Suc.prems(2) by (rule newcell_run)
  have al: "alloc ?ob s = Some (?r, ?s1)" using Suc.prems(2) by (simp add: alloc_def room_def grow_def)
  have "wf_state ?s1 \<and> obj_at ?s1 ?r = Some ?ob" using alloc_props [OF Suc.prems(1) _ al] by simp
  moreover have i: "inums ?s1 = inums s" by (simp add: grow_def)
  ultimately have "wf_state ?s2" using wf_state_add_inum [of ?s1 ?r] Suc.prems(3) by simp
  moreover have "room n ?s2" using Suc.prems(2) by (simp add: room_def)
  moreover have "length (inums ?s2) = Suc j" using Suc.prems(3) i by simp
  ultimately obtain s' where "init_inums n (Suc j) ?s2 = (Ret (), s')" "wf_state s'"
    "length (inums s') = Suc j + n" "catch_framep s' = catch_framep ?s2"
    using Suc.IH by blast
  then show ?case
    by (intro exI [of _ s']) (simp add: bind_run new modifyM_def grow_def)
qed simp

end
