(* ===== verification/List_Theorems.thy ===== *)
theory List_Theorems
  imports List_Facts
begin

text \<open>
  The functional correctness of the list operations, over lists in the store: what is returned, that
  errors are reported where they should be, and which cells the operations that work in place change.
\<close>

section \<open>A list to try them on\<close>

text \<open>The list (t t 1) at the conses 1, 2 and 3, the list (t) at the cons 5 and ((t)) at the cons 6.\<close>

abbreviation three :: siod where
  "three \<equiv> small_state [Tc_cons (Ref 0) (Ref 2), Tc_cons (Ref 0) (Ref 3), Tc_cons (Ref 4) NIL,
     Tc_flonum (of_long 1), Tc_cons (Ref 0) NIL, Tc_cons (Ref 5) NIL]"

lemma three_simps [simp]:
  "length (cells three) = 7" "heap_size three = 40" "cells three ! 0 = Tc_symbol ''t'' (Ref 0)"
  "cells three ! Suc 0 = Tc_cons (Ref 0) (Ref 2)"
  "cells three ! 2 = Tc_cons (Ref 0) (Ref 3)" "cells three ! 3 = Tc_cons (Ref 4) NIL"
  "cells three ! 4 = Tc_flonum (of_long 1)" "cells three ! 5 = Tc_cons (Ref 0) NIL"
  "cells three ! 6 = Tc_cons (Ref 5) NIL"
  by (simp_all add: small_state_def)

lemma wf_three: "wf_state three"
  by (rule wf_small_state) simp

lemma three_lists:
  "list_on three (Ref 1) [1, 2, 3] [Ref 0, Ref 0, Ref 4]" "list_on three (Ref 5) [5] [Ref 0]"
  "list_on three (Ref 6) [6] [Ref 5]"
  by simp_all

lemma room_three [simp]: "room n three \<longleftrightarrow> n \<le> 33"
  by (auto simp: room_def)

section \<open>Copying operations\<close>

text \<open>
  reverse returns a list of fresh conses with the elements in the opposite order; it only adds
  cells to the store, so the argument is still the list it was.
\<close>

theorem reverse_reverses:
  assumes "list_on s l as xs" "room (length xs) s"
  shows "\<exists>r obs bs. siod_reverse l s = (Ret r, grow obs s) \<and> length obs = length xs \<and>
    list_on (grow obs s) r bs (rev xs) \<and> set bs \<inter> {..<length (cells s)} = {} \<and>
    list_on (grow obs s) l as xs"
proof -
  obtain r obs where "siod_reverse l s = (Ret r, grow obs s)" "length obs = length xs"
    "list_on (grow obs s) r (rev [length (cells s)..<length (cells s) + length xs]) (rev xs)"
    using reverse_run [OF assms] by blast
  moreover have "set (rev [length (cells s)..<length (cells s) + length xs]) \<inter> {..<length (cells s)} = {}"
    by auto
  ultimately show ?thesis using list_seg_grow [OF assms(1)] by blast
qed

theorem reverse_reverses_witness:
  "\<exists>r obs bs. siod_reverse (Ref 1) three = (Ret r, grow obs three) \<and> length obs = 3 \<and>
    list_on (grow obs three) r bs [Ref 4, Ref 0, Ref 0]"
  using reverse_reverses [OF three_lists(1)] by (fastforce simp del: list_seg.simps)

text \<open>
  C21. append2 returns a list of fresh conses with the elements of the first and then of the second
  argument, and changes no cell that was there before.
\<close>

theorem append2_appends:
  assumes "list_on s a as xs" "list_on s b bs ys" "room (length xs + length ys) s"
  shows "\<exists>r s' cs. siod_append2 a b s = (Ret r, s') \<and> list_on s' r cs (xs @ ys) \<and>
    (\<forall>c<length (cells s). cells s' ! c = cells s ! c) \<and> length (cells s) \<le> length (cells s') \<and>
    set cs \<inter> {..<length (cells s)} = {}"
  using assms by (rule append2_run)

theorem append2_appends_witness:
  "\<exists>r s' cs. siod_append2 (Ref 1) (Ref 5) three = (Ret r, s') \<and>
     list_on s' r cs [Ref 0, Ref 0, Ref 4, Ref 0]"
  using append2_appends [OF three_lists(1,2)] by (fastforce simp del: list_seg.simps)

text \<open>
  copy-list returns a list of fresh conses with the same elements and leaves every old cell alone.
\<close>

theorem copy_list_copies:
  assumes "list_on s l as xs" "room (length xs) s"
  shows "\<exists>r obs bs. siod_copy_list l s = (Ret r, grow obs s) \<and> list_on (grow obs s) r bs xs \<and>
    set bs \<inter> set as = {}"
  using assms by (rule copy_list_run)

theorem copy_list_copies_witness:
  "\<exists>r obs bs. siod_copy_list (Ref 1) three = (Ret r, grow obs three) \<and>
     list_on (grow obs three) r bs [Ref 0, Ref 0, Ref 4] \<and> set bs \<inter> {1, 2, 3} = {}"
  using copy_list_copies [OF three_lists(1)] by (fastforce simp del: list_seg.simps)

section \<open>Operations in place\<close>

text \<open>
  C20. nreverse reverses the list in place: it uses the very conses of its argument, in the opposite
  order, and changes and allocates no other cell.
\<close>

theorem nreverse_in_place:
  assumes "list_on s l as xs"
  shows "\<exists>r s'. siod_nreverse l s = (Ret r, s') \<and> list_on s' r (rev as) (rev xs) \<and>
    only_changes (set as) s s'"
proof -
  have "length as < 2 * bound s" using list_on_bound [OF assms] by simp
  then obtain r s' where "nreverse_loop (2 * bound s) l NIL s = (Ret r, s')" "only_changes (set as) s s'"
    "list_on s' r (rev as @ []) (rev xs @ [])"
    using nreverse_loop_run [OF assms, of NIL "[]" "[]" "2 * bound s"] by auto
  then show ?thesis by (auto simp: siod_nreverse_def)
qed

theorem nreverse_in_place_witness:
  "\<exists>r s'. siod_nreverse (Ref 1) three = (Ret r, s') \<and> list_on s' r [3, 2, 1] [Ref 4, Ref 0, Ref 0] \<and>
    only_changes {1, 2, 3} three s'"
  using nreverse_in_place [OF three_lists(1)] by simp

text \<open>
  nconc of a nonempty list changes its last cons alone, which then leads on to the second argument.
\<close>

theorem nconc_links:
  assumes "list_on s a as xs" "as \<noteq> []"
  shows "\<exists>s'. siod_nconc a b s = (Ret a, s') \<and> only_changes {last as} s s' \<and> list_seg s' a as xs b"
  using assms by (rule nconc_run)

theorem nconc_links_witness:
  "\<exists>s'. siod_nconc (Ref 1) (Ref 5) three = (Ret (Ref 1), s') \<and> only_changes {3} three s' \<and>
     list_seg s' (Ref 1) [1, 2, 3] [Ref 0, Ref 0, Ref 4] (Ref 5)"
  using nconc_links [OF three_lists(1)] by simp

text \<open>
  C22. delq unlinks every cons that holds the element, keeps the others in their order and changes
  no cell outside the list.
\<close>

theorem delq_deletes:
  assumes "list_on s l as xs"
  shows "\<exists>r s' bs. siod_delq e l s = (Ret r, s') \<and> list_on s' r bs (removeAll e xs) \<and>
    set bs \<subseteq> set as \<and> only_changes (set as) s s'"
  using delq_loop [OF assms list_on_bound [OF assms], of e] by (auto simp: siod_delq_def)

theorem delq_deletes_witness:
  "\<exists>r s' bs. siod_delq (Ref 0) (Ref 1) three = (Ret r, s') \<and> list_on s' r bs [Ref 4]"
  using delq_deletes [OF three_lists(1), of "Ref 0"] by auto

section \<open>Searches and selectors\<close>

text \<open>
  assq returns the first entry that is a cons whose car is the key itself, or NIL when there is
  none, and changes nothing; entries that are not conses are passed over.
\<close>

theorem assq_finds:
  assumes "wf_state s" "list_on s l as xs"
  shows "siod_assq x l s =
    (Ret (case List.find (\<lambda>t. \<exists>d. obj_at s t = Some (Tc_cons x d)) xs of Some t \<Rightarrow> t | None \<Rightarrow> NIL), s)"
proof -
  have "eq_assoc.entry_key x s = (\<lambda>t. \<exists>d. obj_at s t = Some (Tc_cons x d))"
    by (rule ext) (auto simp: eq_assoc.entry_key_def split: option.split obj.split)
  then show ?thesis
    using eq_assoc.assoc_by_run [of s l as xs x "''improper list to siod_assq''"] assms by (simp add: siod_assq_def)
qed

theorem assq_finds_witness:
  "siod_assq (Ref 0) (Ref 6) three = (Ret (Ref 5), three) \<and> siod_assq (Ref 4) (Ref 6) three = (Ret NIL, three)"
  using assq_finds [OF wf_three three_lists(3)] by (simp add: obj_at_def)

text \<open>
  assv does the same with eqv, so a number is found by its value and not only by its cell.
\<close>

theorem assv_finds:
  assumes "wf_state s" "ref_ok s x" "list_on s l as xs"
  shows "siod_assv x l s =
    (Ret (case List.find (\<lambda>t. \<exists>a d. obj_at s t = Some (Tc_cons a d) \<and> eql_value s a x) xs of
            Some t \<Rightarrow> t | None \<Rightarrow> NIL), s)"
proof -
  have "eql_assoc.entry_key x s = (\<lambda>t. \<exists>a d. obj_at s t = Some (Tc_cons a d) \<and> eql_value s a x)"
    by (rule ext) (auto simp: eql_assoc.entry_key_def split: option.split obj.split)
  then show ?thesis
    using eql_assoc.assoc_by_run [of s x l as xs "''improper list to assv''"] assms by (simp add: siod_assv_def)
qed

theorem assv_finds_witness:
  "siod_assv (Ref 0) (Ref 6) three = (Ret (Ref 5), three)"
  using assv_finds [OF wf_three _ three_lists(3), of "Ref 0"]
  by (simp add: obj_at_def ref_ok_def eql_value_def)

text \<open>
  memq returns the first tail of the list that starts with the element itself, memv the first
  that starts with an eqv one, and NIL when there is none; neither changes anything.
\<close>

theorem memq_memv_find:
  assumes "wf_state s" "ref_ok s x" "list_on s l as xs"
  shows "(\<exists>r n. siod_memq x l s = (Ret r, s) \<and> list_on s r (drop n as) (dropWhile (\<lambda>y. y \<noteq> x) xs)) \<and>
    (\<exists>r n. siod_memv x l s = (Ret r, s) \<and> list_on s r (drop n as) (dropWhile (\<lambda>y. \<not> eql_value s x y) xs))"
proof
  have eq: "(\<lambda>y. y \<noteq> x) = (\<lambda>y. \<not> x = y)" by auto
  show "\<exists>r n. siod_memq x l s = (Ret r, s) \<and> list_on s r (drop n as) (dropWhile (\<lambda>y. y \<noteq> x) xs)"
    unfolding siod_memq_def eq using assms by (intro eq_member.member_by_run) auto
  show "\<exists>r n. siod_memv x l s = (Ret r, s) \<and> list_on s r (drop n as) (dropWhile (\<lambda>y. \<not> eql_value s x y) xs)"
    unfolding siod_memv_def using assms by (intro eql_member.member_by_run) auto
qed

theorem memq_memv_find_witness:
  "(\<exists>r n. siod_memq (Ref 4) (Ref 1) three = (Ret r, three) \<and> list_on three r (drop n [1, 2, 3]) [Ref 4])"
  using memq_memv_find [OF wf_three _ three_lists(1), of "Ref 4"]
  by (simp add: ref_ok_def del: list_seg.simps)

text \<open>
  On a list of n elements length is n; nth with an index i in front of the end is element i, the
  first one for a negative index, and an error otherwise; last is the last cons, and an error for NIL.
\<close>

theorem list_selectors:
  assumes "list_on s l as xs" "obj_at s x = Some (Tc_flonum (of_long i))" "\<bar>i\<bar> < 2 ^ 53"
  shows "siod_nlength l s = (Ret (length xs), s) \<and>
    siod_nth x l s = (if nat i < length xs then (Ret (xs ! nat i), s) else errm ''bad arg to nth'' x s) \<and>
    siod_last l s = (if xs = [] then errm ''bad arg to last'' l s else (Ret (Ref (last as)), s))"
proof (intro conjI)
  show "siod_nlength l s = (Ret (length xs), s)" using assms(1) by (rule nlength_run)
  have n: "length as = length xs" using assms(1) by (rule list_seg_length)
  have "ref_ok s x" using assms(2) by (auto simp: obj_at_def ref_ok_def split: siod_LISP.splits if_splits)
  then have "flonm m x s = (Ret (of_long i), s)" for m
    using assms(2) by (simp add: flonm_def bind_run look_eq)
  then have "siod_get_c_long x s = (Ret i, s)"
    using assms(3) by (simp add: siod_get_c_long_def bind_run c_long_of_long)
  moreover obtain r where "cdr_down (Suc (nat i)) i l s = (Ret r, s)"
    "list_on s r (drop (nat i) as) (drop (nat i) xs)"
    using cdr_down_run [OF assms(1), of i "Suc (nat i)"] by blast
  moreover from this(2) have "look r s = (Ret (if nat i < length xs then Some (cells s ! (as ! nat i)) else None), s)"
    "nat i < length xs \<Longrightarrow> \<exists>d. cells s ! (as ! nat i) = Tc_cons (xs ! nat i) d"
    using n by (auto simp: list_seg_Cons Cons_nth_drop_Suc [symmetric] not_less)
  ultimately show "siod_nth x l s =
      (if nat i < length xs then (Ret (xs ! nat i), s) else errm ''bad arg to nth'' x s)"
    by (auto simp: siod_nth_def bind_run)
  show "siod_last l s = (if xs = [] then errm ''bad arg to last'' l s else (Ret (Ref (last as)), s))"
  proof (cases "xs = []")
    case True
    then have "l = NIL" using assms(1) n by simp
    with True show ?thesis by (simp add: siod_last_def bind_run)
  next
    case False
    then have "as \<noteq> []" using n by auto
    with False show ?thesis using last_run [OF assms(1)] by simp
  qed
qed

theorem list_selectors_witness:
  "siod_nlength (Ref 1) three = (Ret 3, three) \<and> siod_nth (Ref 4) (Ref 1) three = (Ret (Ref 0), three) \<and>
   siod_last (Ref 1) three = (Ret (Ref 3), three)"
  using list_selectors [OF three_lists(1), of "Ref 4" 1] by (simp add: obj_at_def del: list_seg.simps)

end
