(* ===== verification/Env_Theorems.thy ===== *)
theory Env_Theorems
  imports Env
begin

text \<open>
  Environments against their specification: a list of frames, each a list of variables, the addresses
  of the conses that hold their values, and the values.  The lookup in the store finds the binding
  the specification gives, and extending an environment adds a frame in front.
\<close>

section \<open>The specification\<close>

type_synonym frame = "siod_LISP list \<times> nat list \<times> siod_LISP list"

fun binding :: "frame list \<Rightarrow> siod_LISP \<Rightarrow> nat option" where
  "binding [] var = None"
| "binding ((fs, as, vs) # fr) var = (case map_of (zip fs as) var of None \<Rightarrow> binding fr var | Some a \<Rightarrow> Some a)"

fun frame_on :: "siod \<Rightarrow> siod_LISP \<Rightarrow> frame \<Rightarrow> bool" where
  "frame_on s fr (fs, as, vs) = (\<exists>fl al fas. obj_at s fr = Some (Tc_cons fl al) \<and>
     list_on s fl fas fs \<and> list_on s al as vs \<and> length fs = length vs)"

lemma frame_onI:
  "obj_at s fr = Some (Tc_cons fl al) \<Longrightarrow> list_on s fl fas fs \<Longrightarrow> list_on s al as vs \<Longrightarrow>
   length fs = length vs \<Longrightarrow> frame_on s fr (fs, as, vs)"
  by auto

definition env_on :: "siod \<Rightarrow> siod_LISP \<Rightarrow> frame list \<Rightarrow> bool" where
  "env_on s env frames = (\<exists>es frs. list_on s env es frs \<and> list_all2 (frame_on s) frs frames)"

section \<open>The lookup\<close>

lemma frame_scan_run:
  "list_on s fl fas fs \<Longrightarrow> list_on s al as vs \<Longrightarrow> length fs = length vs \<Longrightarrow> length fas < k \<Longrightarrow>
   frame_scan k var tmp fl al s =
     (Ret (case map_of (zip fs as) var of Some a \<Rightarrow> Inl (Ref a) | None \<Rightarrow> Inr (NIL, NIL)), s)"
proof (induction fas arbitrary: fl fs al as vs k)
  case Nil
  then have "fs = []" "vs = []" "as = []" using list_seg_length by fastforce+
  with Nil show ?case by (cases k) (auto simp: bind_run)
next
  case (Cons a fas)
  then obtain x ys d k' where 1: "fs = x # ys" "fl = Ref a" "a < length (cells s)" "cells s ! a = Tc_cons x d"
    "list_on s d fas ys" "k = Suc k'" "length fas < k'"
    by (cases k) (auto simp: list_seg_Cons)
  then obtain v vs' where "vs = v # vs'" using Cons.prems(3) by (cases vs) auto
  with Cons.prems(2) obtain c bs e where 2: "as = c # bs" "al = Ref c" "c < length (cells s)"
    "cells s ! c = Tc_cons v e" "list_on s e bs vs'" by (auto simp: list_seg_Cons_vals)
  have "length ys = length vs'" using Cons.prems(3) 1 \<open>vs = v # vs'\<close> by simp
  from Cons.IH [OF 1(5) 2(5) this 1(7)] show ?case by (simp add: 1 2 bind_run)
qed

lemma env_scan_run:
  "list_on s e es frs \<Longrightarrow> list_all2 (frame_on s) frs frames \<Longrightarrow> length es < k \<Longrightarrow>
   env_scan k var env e s = (Ret (case binding frames var of Some a \<Rightarrow> Ref a | None \<Rightarrow> NIL), s)"
proof (induction es arbitrary: e frs frames k)
  case Nil
  then show ?case by (cases k) (auto simp: bind_run)
next
  case (Cons a es)
  then obtain fr ys d k' where 1: "frs = fr # ys" "e = Ref a" "a < length (cells s)" "cells s ! a = Tc_cons fr d"
    "list_on s d es ys" "k = Suc k'" "length es < k'"
    by (cases k) (auto simp: list_seg_Cons)
  then obtain fs as vs frames' where 2: "frames = (fs, as, vs) # frames'" "frame_on s fr (fs, as, vs)"
    "list_all2 (frame_on s) ys frames'"
    using Cons.prems(2) by (cases frames) auto
  then obtain fl al fas where 3: "obj_at s fr = Some (Tc_cons fl al)" "list_on s fl fas fs" "list_on s al as vs"
    "length fs = length vs" by auto
  show ?case
    using Cons.IH [OF 1(5) 2(3) 1(7)] frame_scan_run [OF 3(2-4) list_on_bound [OF 3(2)], of var fr]
    by (simp add: 1 2(1) bind_run obj_at_look [OF 3(1)] split: option.split)
qed

lemma envlookup_run:
  assumes "env_on s env frames"
  shows "siod_envlookup var env s = (Ret (case binding frames var of Some a \<Rightarrow> Ref a | None \<Rightarrow> NIL), s)"
proof -
  obtain es frs where e: "list_on s env es frs" "list_all2 (frame_on s) frs frames"
    using assms by (auto simp: env_on_def)
  then show ?thesis using env_scan_run [OF e list_on_bound [OF e(1)]] by (simp add: siod_envlookup_def)
qed

text \<open>
  C5. Looking a variable up in an environment finds the cons of its innermost binding, or NIL when no
  frame binds it, and changes nothing.
\<close>

theorem envlookup_refines:
  assumes "env_on s env frames"
  shows "siod_envlookup var env s = (Ret (case binding frames var of Some a \<Rightarrow> Ref a | None \<Rightarrow> NIL), s)"
  using assms by (rule envlookup_run)

text \<open>The environment with one frame that binds t to 7.\<close>

definition one_frame :: siod where
  "one_frame = small_state [Tc_cons (Ref 2) NIL, Tc_cons (Ref 3) (Ref 4), Tc_cons (Ref 0) NIL,
     Tc_cons (Ref 5) NIL, Tc_flonum (of_long 7)]"

lemma one_frame_simps [simp]:
  "length (cells one_frame) = 6" "cells one_frame ! Suc 0 = Tc_cons (Ref 2) NIL"
  "cells one_frame ! 2 = Tc_cons (Ref 3) (Ref 4)" "cells one_frame ! 3 = Tc_cons (Ref 0) NIL"
  "cells one_frame ! 4 = Tc_cons (Ref 5) NIL" "cells one_frame ! 0 = Tc_symbol ''t'' (Ref 0)"
  "cells one_frame ! 5 = Tc_flonum (of_long 7)" "heap_size one_frame = 40"
  by (simp_all add: one_frame_def small_state_def)

lemma one_frame_on: "env_on one_frame (Ref 1) [([Ref 0], [4], [Ref 5])]"
proof -
  have "obj_at one_frame (Ref 2) = Some (Tc_cons (Ref 3) (Ref 4))" by (simp add: obj_at_def)
  moreover have "list_on one_frame (Ref 3) [3] [Ref 0]" "list_on one_frame (Ref 4) [4] [Ref 5]" by simp_all
  ultimately have "frame_on one_frame (Ref 2) ([Ref 0], [4], [Ref 5])" by (rule frame_onI) simp
  moreover have "list_on one_frame (Ref 1) [1] [Ref 2]" by simp
  ultimately show ?thesis unfolding env_on_def by blast
qed

theorem envlookup_refines_witness:
  "siod_envlookup (Ref 0) (Ref 1) one_frame = (Ret (Ref 4), one_frame)"
  using envlookup_refines [OF one_frame_on, of "Ref 0"] by simp

section \<open>Extending and assigning\<close>

lemma obj_at_grow: "obj_at s r = Some ob \<Longrightarrow> obj_at (grow obs s) r = Some ob"
  by (auto simp: obj_at_def nth_append split: siod_LISP.splits if_splits)

lemma frame_on_grow: "frame_on s fr f \<Longrightarrow> frame_on (grow obs s) fr f"
  by (cases f) (auto intro: obj_at_grow list_seg_grow simp del: list_seg.simps; meson obj_at_grow list_seg_grow)

lemma env_on_grow: "env_on s env frames \<Longrightarrow> env_on (grow obs s) env frames"
  unfolding env_on_def by (meson frame_on_grow list_all2_mono list_seg_grow)

text \<open>
  Extending an environment by the parameters and the values of a closure adds one frame in front, that binds them.
\<close>

lemma extend_env_refines:
  assumes "env_on s env frames" "list_on s formals fas fs" "list_on s actuals as vs"
    "length fs = length vs" "room 2 s"
  shows "\<exists>r obs. siod_extend_env actuals formals env s = (Ret r, grow obs s) \<and> length obs = 2 \<and>
    env_on (grow obs s) r ((fs, as, vs) # frames)"
proof -
  let ?n = "length (cells s)"
  let ?obs = "[Tc_cons formals actuals, Tc_cons (Ref ?n) env]"
  have "look formals s = (Ret None, s) \<or> (\<exists>a d. look formals s = (Ret (Some (Tc_cons a d)), s))"
    using assms(2) by (cases fas) (auto simp: list_seg_Cons)
  then have "siod_extend_env actuals formals env s = (Ret (Ref (Suc ?n)), grow ?obs s)"
    using cons_run [of 1 s formals actuals] cons_run [of 0 "grow [Tc_cons formals actuals] s" "Ref ?n" env] assms(5)
    by (auto simp: siod_extend_env_def bind_run numeral_2_eq_2)
  moreover have "frame_on (grow ?obs s) (Ref ?n) (fs, as, vs)"
    by (rule frame_onI [OF _ list_seg_grow [OF assms(2)] list_seg_grow [OF assms(3)] assms(4)])
      (simp add: obj_at_def nth_append)
  moreover obtain es frs where e: "list_on (grow ?obs s) env es frs" "list_all2 (frame_on (grow ?obs s)) frs frames"
    using env_on_grow [OF assms(1), of ?obs] unfolding env_on_def by blast
  moreover from e(1) have "list_on (grow ?obs s) (Ref (Suc ?n)) (Suc ?n # es) (Ref ?n # frs)"
    by (simp add: nth_append)
  ultimately have "list_all2 (frame_on (grow ?obs s)) (Ref ?n # frs) ((fs, as, vs) # frames)"
    "list_on (grow ?obs s) (Ref (Suc ?n)) (Suc ?n # es) (Ref ?n # frs)"
    "siod_extend_env actuals formals env s = (Ret (Ref (Suc ?n)), grow ?obs s)"
    by (blast intro: list_all2_Cons [THEN iffD2])+
  moreover have "length ?obs = 2" by simp
  ultimately show ?thesis unfolding env_on_def by blast
qed

text \<open>
  C7. Assigning a bound variable stores the value in its innermost binding and nowhere else; an
  unbound one gets it as the value of its symbol.
\<close>

theorem setvar_assigns:
  assumes "env_on s env frames" "obj_at s (Ref x) = Some (Tc_symbol p old)"
  shows "siod_setvar (Ref x) val env s = (Ret val,
    case binding frames (Ref x) of
      None \<Rightarrow> set_cell x (Tc_symbol p val) s
    | Some a \<Rightarrow> (case cells s ! a of Tc_cons v d \<Rightarrow> set_cell a (Tc_cons val d) s))"
proof -
  have b: "a < length (cells s) \<and> (\<exists>v d. cells s ! a = Tc_cons v d)"
    if "list_all2 (frame_on s) frs fms" "binding fms v = Some a" for a v frs fms
    using that
  proof (induction fms arbitrary: frs rule: list.induct)
    case (Cons f fms)
    obtain fs as vs where f: "f = (fs, as, vs)" by (metis prod_cases3)
    have cell: "c < length (cells s) \<and> (\<exists>v d. cells s ! c = Tc_cons v d)"
      if "list_on s l as vs" "c \<in> set as" for l c
      using that by (induction as arbitrary: l vs) (auto simp: list_seg_Cons)
    show ?case
      using Cons f cell by (auto split: option.splits dest!: map_of_SomeD set_zip_rightD simp: list_all2_Cons2)
  qed simp
  obtain es frs where "list_all2 (frame_on s) frs frames" using assms(1) by (auto simp: env_on_def)
  note b = b [OF this, of "Ref x"]
  have x: "x < length (cells s)" "cells s ! x = Tc_symbol p old"
    using assms(2) by (auto simp: obj_at_def split: if_splits)
  show ?thesis
    using b x by (auto simp: siod_setvar_def SET_VCELL_def SET_CAR_def is_symbol_def bind_run store_def
        envlookup_run [OF assms(1)] split: option.split)
qed

theorem setvar_assigns_witness:
  "siod_setvar (Ref 0) (Ref 0) (Ref 1) one_frame = (Ret (Ref 0), set_cell 4 (Tc_cons (Ref 0) NIL) one_frame)"
  using setvar_assigns [OF one_frame_on, of 0] by (simp add: obj_at_def)

end
