(* ===== verification/Interp_Theorems.thy ===== *)
theory Interp_Theorems
  imports Init
begin

text \<open>
  What the interpreter as a whole guarantees: the invariant of the store, independence of the fuel,
  non-local exits, error reports, symbols, variables and exact arithmetic on small integers.
\<close>

section \<open>A program to try them on\<close>

text \<open>The expression (*catch t (*throw t t)), with the two functions in the operator positions.\<close>

definition catching :: siod where
  "catching = small_state [Tc_cons (Ref 2) (Ref 3), Tc_fsubr ''*catch'' F_leval_catch,
     Tc_cons (Ref 0) (Ref 4), Tc_cons (Ref 5) NIL, Tc_cons (Ref 6) (Ref 7), Tc_subr_2 ''*throw'' F_lthrow,
     Tc_cons (Ref 0) (Ref 8), Tc_cons (Ref 0) NIL]"

lemma wf_catching: "wf_state catching"
  unfolding catching_def by (rule wf_small_state) simp

lemma catching_simps [simp]:
  "length (cells catching) = 9" "cells catching ! Suc 0 = Tc_cons (Ref 2) (Ref 3)"
  "cells catching ! 2 = Tc_fsubr ''*catch'' F_leval_catch" "cells catching ! 3 = Tc_cons (Ref 0) (Ref 4)"
  "cells catching ! 4 = Tc_cons (Ref 5) NIL" "cells catching ! 5 = Tc_cons (Ref 6) (Ref 7)"
  "cells catching ! 6 = Tc_subr_2 ''*throw'' F_lthrow" "cells catching ! 7 = Tc_cons (Ref 0) (Ref 8)"
  "cells catching ! 8 = Tc_cons (Ref 0) NIL" "cells catching ! 0 = Tc_symbol ''t'' (Ref 0)"
  "sym_eval_history_ptr catching = Ref 0" "unbound_marker catching = NIL" "heap_size catching = 40"
  "cells catching \<noteq> []" "catch_framep catching = []" "sym_catchall catching = NIL" "sym_errobj catching = Ref 0"
  by (simp_all add: small_state_def catching_def)

text \<open>Equations that unfold an operation only where it is given its state.\<close>

lemmas eval_steps =
  serve_def [THEN fun_cong] leval_body_def [THEN fun_cong] eval_history_def [THEN fun_cong]
  VCELL_def [THEN fun_cong] eval_operator_def [THEN fun_cong] leval_call_def [THEN fun_cong]
  siod_leval_catch_def [THEN fun_cong] siod_leval_catch_1_def [THEN fun_cong] ev_car_def [THEN fun_cong]
  siod_car_def [THEN fun_cong] siod_cdr_def [THEN fun_cong] CAR_def [THEN fun_cong] CDR_def [THEN fun_cong]
  variable_value_def [THEN fun_cong] tail_of_def [THEN fun_cong]
  eval_forms_def [THEN fun_cong] is_cons_def setjmp_frame_def siod_lthrow_def
  bindM_def gets_def look_def modifyM_def bound_def

lemma lookup_NIL: "siod_envlookup x NIL s = (Ret NIL, s)"
  by (simp add: siod_envlookup_def bound_def bind_run)

lemma run_symbol:
  "cells s ! 0 = Tc_symbol ''t'' (Ref 0) \<Longrightarrow> cells s \<noteq> [] \<Longrightarrow> sym_eval_history_ptr s = Ref 0 \<Longrightarrow>
   unbound_marker s = NIL \<Longrightarrow> run (Suc n) (Eval (Ref 0) NIL) s = (Ret (Ref 0), s)"
  by (simp add: eval_steps lookup_NIL)

lemma run_throw:
  "run (Suc (Suc n)) (Eval (Ref 5) NIL) (catching\<lparr>catch_framep := [Ref 0]\<rparr>)
     = (Jump 0 (Ref 0), catching\<lparr>catch_framep := [Ref 0]\<rparr>)"
  using run_symbol [of "catching\<lparr>catch_framep := [Ref 0]\<rparr>" n]
  by (simp add: run.simps(2) [of "Suc n"] eval_steps lookup_NIL del: run.simps)

lemma run_catch:
  "siod_leval (Suc (Suc (Suc n))) (Ref 1) NIL catching = (Ret (Ref 0), catching)"
  using run_symbol [of catching "Suc n"] run_throw [of n]
  by (simp add: siod_leval_def run.simps(2) [of "Suc (Suc n)"] eval_steps del: run.simps)


section \<open>The evaluator\<close>

text \<open>
  C1. Evaluating any expression in any environment keeps the store well formed: no dangling pointer
  appears in a cell or a global, allocated cells keep their kind, a value returned or thrown is a valid
  pointer, a return leaves the stack of catch frames as it was, and a throw goes to one of its frames.
\<close>

theorem leval_keeps_invariant:
  assumes "wf_state s" "ref_ok s x" "ref_ok s env" "siod_leval n x env s = (r, s')"
  shows "wf_state s' \<and> later s s' \<and>
    (case r of Ret v \<Rightarrow> ref_ok s' v \<and> catch_framep s' = catch_framep s
     | Jump k v \<Rightarrow> ref_ok s' v \<and> k < length (catch_framep s)
     | _ \<Rightarrow> True)"
  using interpreter.rc_ok [of s "Eval x env" n] assms
  by (simp add: okM_def request_ok_def siod_leval_def)

theorem leval_keeps_invariant_witness:
  "wf_state catching \<and> later catching catching \<and> ref_ok catching (Ref 0)"
  using leval_keeps_invariant [OF wf_catching _ _ run_catch [of 0]] by (simp add: ref_ok_def)

text \<open>
  The fuel bounds only how long the evaluator may run: an evaluation that ends with some fuel ends
  in the same outcome and the same state with any larger fuel.
\<close>

lemma leval_fuel_irrelevant:
  assumes "siod_leval n x env s = (r, s')" "r \<noteq> Nofuel" "n \<le> m"
  shows "siod_leval m x env s = (r, s')"
  using run_le [OF assms(3), of "Eval x env"] assms(1,2)
  by (metis approx_def fst_conv siod_leval_def)

text \<open>
  C2. A throw ends the innermost catch whose tag is the thrown one or the catch-all symbol: if the
  forms of a catch end by throwing to such a tag while the frames inside it have other tags, the catch
  returns the thrown value and restores the stack of frames it was entered with.
\<close>

theorem catch_receives_throw:
  assumes "ev_car rc args env s = (Ret tag, s1)"
    and "bindM (siod_cdr args) (\<lambda>forms. siod_leval_catch_1 k rc forms env)
           (s1\<lparr>catch_framep := tag # catch_framep s1\<rparr>) = siod_lthrow tag' v s2"
    and "catch_framep s2 = inner @ tag # catch_framep s1"
    and "tag = tag' \<or> tag = sym_catchall s2" "tag' \<notin> set inner" "sym_catchall s2 \<notin> set inner"
  shows "siod_leval_catch k rc args env s = (Ret v, s2\<lparr>catch_framep := catch_framep s1\<rparr>)"
proof -
  have "catch_target (\<lambda>t. t = tag' \<or> t = sym_catchall s2) (us @ tag # fs) = Some (length fs)"
    if "set us \<subseteq> set inner" for us fs
    using that assms(4-6) by (induction us) auto
  then have "siod_lthrow tag' v s2 = (Jump (length (catch_framep s1)) v, s2)"
    by (simp add: siod_lthrow_def assms(3))
  then show ?thesis
    using assms(2) by (simp add: siod_leval_catch_def bind_run [of _ _ _ s1] assms(1) setjmp_frame_def)
qed

theorem catch_receives_throw_witness:
  "siod_leval_catch 2 (run 2) (Ref 3) NIL catching = (Ret (Ref 0), catching)"
proof -
  let ?s = "catching\<lparr>catch_framep := [Ref 0]\<rparr>"
  have 1: "ev_car (run 2) (Ref 3) NIL catching = (Ret (Ref 0), catching)"
    using run_symbol [of catching 1] by (simp add: eval_steps numeral_2_eq_2 del: run.simps)
  have "run 2 (Eval (Ref 5) NIL) ?s = (Jump 0 (Ref 0), ?s)"
    using run_throw [of 0] by (simp add: numeral_2_eq_2)
  then have 2: "bindM (siod_cdr (Ref 3)) (\<lambda>forms. siod_leval_catch_1 2 (run 2) forms NIL)
      (catching\<lparr>catch_framep := Ref 0 # catch_framep catching\<rparr>) = siod_lthrow (Ref 0) (Ref 0) ?s"
    by (simp add: eval_steps numeral_2_eq_2 del: run.simps)
  from catch_receives_throw [OF 1 2, of "[]"] show ?thesis by simp
qed

text \<open>
  C9. An error leaves the offending object in the variable errobj and control at the innermost catch
  of errobj or of everything, with the message consed onto the object as the value; without such a
  catch it goes back to the read-eval-print loop.
\<close>

theorem err_reports:
  fixes r :: "siod_LISP outcome"
  assumes "wf_state s" "errjmp_ok s" "\<not> inside_err s" "room 2 s" "ref_ok s x" "errm m x s = (r, s')"
  shows "(\<exists>p. obj_at s' (sym_errobj s) = Some (Tc_symbol p x)) \<and>
    (case catch_target (\<lambda>t. t = sym_errobj s \<or> t = sym_catchall s) (catch_framep s) of
       None \<Rightarrow> r = Errjmp 1
     | Some k \<Rightarrow> (\<exists>v str. r = Jump k v \<and> obj_at s' v = Some (Tc_cons str x) \<and>
                    obj_at s' str = Some (string_cell m)))"
proof -
  obtain c where c: "err_print (Some m) x s = s\<lparr>console := c\<rparr>" using err_print_frame by blast
  obtain e p v where e: "sym_errobj s = Ref e" "e < length (cells s)" "cells s ! e = Tc_symbol p v"
    using assms(1) by (auto simp: wf_state_def symbol_at_def obj_at_def split: siod_LISP.splits if_splits obj.splits)
  let ?s1 = "s\<lparr>console := c, inside_err := True\<rparr>"
  let ?s2 = "set_cell e (Tc_symbol p x) ?s1"
  let ?n = "length (cells s)"
  have 2: "set_errobj x ?s1 = ?s2" using e by (simp add: set_errobj_def obj_at_def)
  let ?s3 = "?s2\<lparr>cells := cells ?s2 @ [string_cell m, Tc_cons (Ref ?n) x]\<rparr>"
  have 3: "err_retval m x ?s2 = (Ref (Suc ?n), ?s3)"
    using assms(4) by (simp add: err_retval_def alloc_def room_def set_cell_def)
  have s2: "sym_errobj ?s2 = sym_errobj s" "sym_catchall ?s2 = sym_catchall s" "catch_framep ?s2 = catch_framep s"
    by (simp_all add: set_cell_def)
  have run: "errm m x s = (case catch_target (\<lambda>t. t = sym_errobj s \<or> t = sym_catchall s) (catch_framep s) of
      Some k \<Rightarrow> (Jump k (Ref (Suc ?n)), ?s3\<lparr>inside_err := False\<rparr>)
    | None \<Rightarrow> (Errjmp 1, ?s2\<lparr>inside_err := False\<rparr>))"
    using assms(2,3) 3 by (simp add: err_def err_split_def c 2 s2 Let_def split: option.split)
  have "cells ?s3 ! e = Tc_symbol p x" "cells ?s2 ! e = Tc_symbol p x"
    using e(2) by (simp_all add: nth_append set_cell_def)
  then show ?thesis
    using assms(6) e by (auto simp: run obj_at_def nth_append split: option.splits)
qed

theorem err_reports_witness:
  "\<exists>r s'. (errm ''wta'' (Ref 3) :: siod_LISP act) catching = (r, s') \<and> r = Errjmp 1 \<and>
     obj_at s' (Ref 0) = Some (Tc_symbol ''t'' (Ref 3))"
proof -
  obtain r s' where e: "(errm ''wta'' (Ref 3) :: siod_LISP act) catching = (r, s')" by fastforce
  have "errjmp_ok catching" "\<not> inside_err catching" by (simp_all add: catching_def small_state_def)
  from err_reports [OF wf_catching this _ _ e] have "r = Errjmp 1" "\<exists>p. obj_at s' (Ref 0) = Some (Tc_symbol p (Ref 3))"
    by (simp_all add: room_def ref_ok_def)
  moreover have "later catching s'" using okM_err [of catching "Ref 3" "Some ''wta''" "\<lambda>(_ :: siod_LISP) _. True"] wf_catching
    by (simp add: okM_def ref_ok_def e)
  then have "\<exists>ob. obj_at s' (Ref 0) = Some ob \<and> shape ob = shape (Tc_symbol ''t'' (Ref 0))"
    by (rule obj_at_shape) (simp add: obj_at_def)
  ultimately show ?thesis using e by auto
qed

section \<open>Symbols and numbers\<close>

text \<open>
  Interning a name gives a symbol of that name, and interning it again gives the same symbol and
  leaves the state as it is.
\<close>

theorem intern_unique:
  assumes "wf_state s" "siod_cintern name s = (Ret r, s1)"
  shows "(\<exists>v. obj_at s1 r = Some (Tc_symbol name v)) \<and> siod_cintern name s1 = (Ret r, s1)"
  using intern_facts [OF assms(1), of name r s1] assms(2) unfolding siod_cintern_def by blast

definition interned :: siod where
  "interned = (small_state [Tc_cons (Ref 0) NIL])\<lparr>oblistvar := Ref 1\<rparr>"

theorem intern_unique_witness:
  "siod_cintern ''t'' interned = (Ret (Ref 0), interned) \<and> (\<exists>v. obj_at interned (Ref 0) = Some (Tc_symbol ''t'' v))"
proof -
  have w: "wf_state interned"
    unfolding interned_def
    by (intro wf_state_obarray(3) wf_small_state) (simp_all add: ref_ok_def small_state_def)
  have 1: "siod_cintern ''t'' interned = (Ret (Ref 0), interned)"
    by (simp add: siod_cintern_def siod_gen_siod_intern_def bindM_def gets_def interned_def small_state_def
        CAR_def look_def)
  from intern_unique [OF w 1] show ?thesis by blast
qed

lemma flocons_run:
  assumes "wf_state s" "room 1 s" "\<bar>n\<bar> < 2 ^ 53"
  shows "\<exists>r s'. siod_flocons (of_long n) s = (Ret r, s') \<and> obj_at s' r = Some (Tc_flonum (of_long n))"
proof (cases "n < int (length (inums s)) \<and> 0 \<le> n")
  case True
  then have "nat n < length (inums s)" by auto
  then have "obj_at s (inums s ! nat n) = Some (Tc_flonum (of_long n))"
    using assms(1) True by (simp add: wf_state_def inums_ok_def)
  moreover have "0 < length (inums s)" using True by linarith
  ultimately show ?thesis
    using True assms(3) newcell_run [of 0 s "Tc_flonum (of_long n)"] assms(2)
    by (auto simp: siod_flocons_def c_long_of_long Let_def obj_at_def)
next
  case False
  have "\<not> dle (DZero False) (of_long n)" if "n < 0"
    using dlt_of_long [of 0 n] deq_of_long [of 0 n] assms(3) that by (simp add: dle_def)
  then show ?thesis
    using False assms newcell_run [of 0 s "Tc_flonum (of_long n)"]
    by (auto simp: siod_flocons_def c_long_of_long Let_def obj_at_def not_less)
qed

lemma flocons_0:
  assumes "wf_state s" "room 1 s"
  shows "\<exists>r s' z'. siod_flocons (DZero z) s = (Ret r, s') \<and> obj_at s' r = Some (Tc_flonum (DZero (z \<and> z')))"
proof (cases "inums s = []")
  case True
  then show ?thesis using assms(2) newcell_run [of 0 s "Tc_flonum (DZero z)"]
    by (auto simp: siod_flocons_def obj_at_def intro!: exI [of _ True])
next
  case False
  then have "obj_at s (inums s ! 0) = Some (Tc_flonum (of_long 0))"
    using assms(1) by (simp add: wf_state_def inums_ok_def)
  then show ?thesis using False
    by (auto simp: siod_flocons_def Let_def dsub_def dle_def c_int_of_def intro!: exI [of _ False])
qed

text \<open>
  C19. Addition, subtraction and multiplication of numbers that hold integers give the exact integer
  result as long as it is below 2^53 in absolute value, whether it is one of the preallocated numbers
  or a new cell; a product with a zero is a zero, which has a minus sign only if one of the factors is negative.
\<close>

theorem arithmetic_exact:
  assumes "wf_state s" "room 1 s" "obj_at s x = Some (Tc_flonum (of_long a))"
    "obj_at s y = Some (Tc_flonum (of_long b))" "\<bar>a\<bar> < 2 ^ 53" "\<bar>b\<bar> < 2 ^ 53"
  shows "(\<bar>a + b\<bar> < 2 ^ 53 \<longrightarrow>
      (\<exists>r s'. siod_plus x y s = (Ret r, s') \<and> obj_at s' r = Some (Tc_flonum (of_long (a + b))))) \<and>
    (\<bar>a - b\<bar> < 2 ^ 53 \<longrightarrow>
      (\<exists>r s'. siod_difference x y s = (Ret r, s') \<and> obj_at s' r = Some (Tc_flonum (of_long (a - b))))) \<and>
    (\<bar>a * b\<bar> < 2 ^ 53 \<longrightarrow>
      (\<exists>r s' z. siod_ltimes x y s = (Ret r, s') \<and> (z \<longrightarrow> a < 0 \<or> b < 0) \<and>
        obj_at s' r = Some (Tc_flonum (if a = 0 \<or> b = 0 then DZero z else of_long (a * b)))))"
proof -
  have ok: "ref_ok s x" "ref_ok s y" "y \<noteq> NIL"
    using assms(3,4) by (auto simp: obj_at_def ref_ok_def split: siod_LISP.splits if_splits)
  then have f: "flonm m x s = (Ret (of_long a), s)" "flonm m y s = (Ret (of_long b), s)" for m
    using assms(3,4) by (simp_all add: flonm_def bind_run look_eq)
  have run: "siod_plus x y s = siod_flocons (dadd (of_long a) (of_long b)) s"
    "siod_difference x y s = siod_flocons (dsub (of_long a) (of_long b)) s"
    "siod_ltimes x y s = siod_flocons (dmul (of_long a) (of_long b)) s"
    by (simp_all add: siod_plus_def siod_difference_def siod_ltimes_def ok(3) bind_run f)
  have "\<exists>r s' z. siod_ltimes x y s = (Ret r, s') \<and> (z \<longrightarrow> a < 0 \<or> b < 0) \<and>
      obj_at s' r = Some (Tc_flonum (if a = 0 \<or> b = 0 then DZero z else of_long (a * b)))" if small: "\<bar>a * b\<bar> < 2 ^ 53"
  proof (cases "a = 0 \<or> b = 0")
    case True
    then show ?thesis
      using flocons_0 [OF assms(1,2), of "(a < 0) \<noteq> (b < 0)"] dmul_0 [OF assms(5,6) True] unfolding run by auto
  next
    case False
    then obtain r s' where "siod_ltimes x y s = (Ret r, s')" "obj_at s' r = Some (Tc_flonum (of_long (a * b)))"
      using flocons_run [OF assms(1,2) small] assms(5,6) small unfolding run by (auto simp: dmul_of_long)
    then show ?thesis using False by (intro exI [of _ r] exI [of _ s'] exI [of _ False]) simp
  qed
  then show ?thesis
    using flocons_run [OF assms(1,2)] assms(5,6) by (simp add: run dadd_of_long dsub_of_long)
qed
theorem arithmetic_exact_witness:
  "\<exists>r s'. siod_difference (Ref 1) (Ref 2) (small_state [Tc_flonum (of_long 3), Tc_flonum (of_long 5)]) = (Ret r, s') \<and>
     obj_at s' r = Some (Tc_flonum (of_long (- 2)))"
proof -
  let ?s = "small_state [Tc_flonum (of_long 3), Tc_flonum (of_long 5)]"
  have "wf_state ?s" by (rule wf_small_state) simp
  moreover have "obj_at ?s (Ref 1) = Some (Tc_flonum (of_long 3))" "obj_at ?s (Ref 2) = Some (Tc_flonum (of_long 5))" "room 1 ?s"
    by (simp_all add: obj_at_def small_state_def room_def)
  ultimately show ?thesis using arithmetic_exact [of ?s "Ref 1" 3 "Ref 2" 5] by simp
qed

end
