(* ===== verification/GC_Mark.thy ===== *)
theory GC_Mark
  imports Lisp
begin

text \<open>
  The mark-and-sweep collector (slib.c, and the hooks of sliba.c and trace.c).  The active heaps are
  one sequence of cells, each with its mark; a cell of heap j at index i is Ref (j * heap_size + i).
  The C stack and the registers are sequences of machine words, of which any that looks like the
  address of a cell counts as a pointer to it.
\<close>

section \<open>Cells and marking\<close>

datatype gobj = Core obj | Closure_traced siod_LISP siod_LISP

type_synonym gcell = "bool \<times> gobj"

text \<open>The pointers a cell holds.\<close>

fun gobj_refs :: "gobj \<Rightarrow> siod_LISP list" where
  "gobj_refs (Core (Tc_free_cell n)) = []"
| "gobj_refs (Core ob) = obj_refs ob"
| "gobj_refs (Closure_traced env code) = [env, code]"

definition mark_at :: "nat \<Rightarrow> gcell list \<Rightarrow> gcell list" where
  "mark_at a m = m[a := (True, snd (m ! a))]"

text \<open>
  The marker.  None is a pointer that leads out of the heaps, or too little fuel.  The hook of a
  traced closure marks its code and returns its environment; the marker does not follow what a hook
  returns.  The hook of the arrays marks the elements.
\<close>

fun siod_gc_mark :: "nat \<Rightarrow> siod_LISP \<Rightarrow> gcell list \<Rightarrow> gcell list option" where
  "siod_gc_mark 0 ptr m = None"
| "siod_gc_mark (Suc n) ptr m = (case ptr of NIL \<Rightarrow> Some m | Ref a \<Rightarrow>
     if length m \<le> a then None
     else if fst (m ! a) then Some m
     else let m1 = mark_at a m in
       case snd (m ! a) of
         Core (Tc_cons x y) \<Rightarrow> Option.bind (siod_gc_mark n x m1) (siod_gc_mark n y)
       | Core (Tc_symbol p v) \<Rightarrow> siod_gc_mark n v m1
       | Core (Tc_closure env code) \<Rightarrow> Option.bind (siod_gc_mark n code m1) (siod_gc_mark n env)
       | Core (Tc_lisp_array xs) \<Rightarrow>
           foldr (\<lambda>x k m. Option.bind (siod_gc_mark n x m) k) xs Some m1
       | Closure_traced env code \<Rightarrow> siod_gc_mark n code m1
       | _ \<Rightarrow> Some m1)"

text \<open>Enough fuel: one step for each unmarked cell, and one more.\<close>

definition unmarked :: "gcell list \<Rightarrow> nat" where
  "unmarked m = length (filter (\<lambda>c. \<not> fst c) m)"

definition gc_mark_full :: "siod_LISP \<Rightarrow> gcell list \<Rightarrow> gcell list option" where
  "gc_mark_full ptr m = siod_gc_mark (Suc (unmarked m)) ptr m"

fun siod_mark_protected_registers :: "siod_LISP list \<Rightarrow> gcell list \<Rightarrow> gcell list option" where
  "siod_mark_protected_registers [] m = Some m"
| "siod_mark_protected_registers (r # rs) m = Option.bind (gc_mark_full r m) (siod_mark_protected_registers rs)"

section \<open>The collector\<close>

record gcs =
  mem :: "gcell list"
  bases :: "int list"
  heap_next :: nat
  heap_sz :: nat
  nheaps :: nat
  freelist :: siod_LISP
  gc_cells_collected :: nat
  protected :: "siod_LISP list"
  jmp_ok :: bool

text \<open>The size of a cell in bytes.\<close>

definition obj_bytes :: int where
  "obj_bytes = 24"

text \<open>The test of one word, as the loop over the heaps makes it: the cell it points to, if any.\<close>

fun pointer_scan :: "int \<Rightarrow> int list \<Rightarrow> nat \<Rightarrow> gcell list \<Rightarrow> nat \<Rightarrow> nat option" where
  "pointer_scan p [] hsz m j = None"
| "pointer_scan p (h # hs) hsz m j =
     (if h \<le> p \<and> p < h + obj_bytes * int hsz \<and> (p - h) mod obj_bytes = 0
         \<and> (case snd (m ! (j * hsz + nat ((p - h) div obj_bytes))) of Core (Tc_free_cell n) \<Rightarrow> False | _ \<Rightarrow> True)
      then Some (j * hsz + nat ((p - h) div obj_bytes))
      else pointer_scan p hs hsz m (Suc j))"

definition siod_looks_pointerp :: "gcs \<Rightarrow> gcell list \<Rightarrow> int \<Rightarrow> nat option" where
  "siod_looks_pointerp st m p = pointer_scan p (bases st) (heap_sz st) m 0"

fun siod_mark_locations_array :: "gcs \<Rightarrow> int list \<Rightarrow> gcell list \<Rightarrow> gcell list option" where
  "siod_mark_locations_array st [] m = Some m"
| "siod_mark_locations_array st (w # ws) m =
     (case siod_looks_pointerp st m w of
        None \<Rightarrow> siod_mark_locations_array st ws m
      | Some a \<Rightarrow> Option.bind (gc_mark_full (Ref a) m) (siod_mark_locations_array st ws))"

text \<open>Sweeping the cells from address i on, with the new free list and the count so far.\<close>

fun siod_gc_sweep :: "nat \<Rightarrow> gcell list \<Rightarrow> siod_LISP \<Rightarrow> nat \<Rightarrow> gcell list \<times> siod_LISP \<times> nat" where
  "siod_gc_sweep i [] nfreelist n = ([], nfreelist, n)"
| "siod_gc_sweep i ((mk, ob) # cs) nfreelist n =
     (if \<not> mk then
        (case siod_gc_sweep (Suc i) cs (Ref i) (Suc n) of (cs', r) \<Rightarrow>
           ((False, Core (Tc_free_cell nfreelist)) # cs', r))
      else
        (case siod_gc_sweep (Suc i) cs nfreelist n of (cs', r) \<Rightarrow> ((False, ob) # cs', r)))"

text \<open>The cells of the first heap that were never allocated become free cells.\<close>

definition free_rest :: "gcs \<Rightarrow> gcell list" where
  "free_rest st = take (heap_next st) (mem st) @
     replicate (min (length (mem st)) (heap_sz st) - heap_next st) (False, Core (Tc_free_cell NIL)) @
     drop (max (heap_next st) (heap_sz st)) (mem st)"

definition siod_gc_mark_and_sweep :: "int list \<Rightarrow> int list \<Rightarrow> gcs \<Rightarrow> gcs option" where
  "siod_gc_mark_and_sweep save_regs stack st =
     Option.bind (siod_mark_locations_array st save_regs (free_rest st)) (\<lambda>m1.
     Option.bind (siod_mark_protected_registers (protected st) m1) (\<lambda>m2.
     Option.bind (siod_mark_locations_array st stack m2) (\<lambda>m3.
     case siod_gc_sweep 0 m3 NIL 0 of (m4, fl, n) \<Rightarrow>
       Some (st\<lparr>mem := m4, freelist := fl, gc_cells_collected := n, heap_next := heap_sz st\<rparr>))))"

text \<open>A new heap at the address malloc gives, its cells chained in front of the free list.\<close>

definition fresh_heap :: "nat \<Rightarrow> nat \<Rightarrow> siod_LISP \<Rightarrow> gcell list" where
  "fresh_heap start n fl = map (\<lambda>i. (False, Core (Tc_free_cell (if Suc i < n then Ref (start + Suc i) else fl)))) [0..<n]"

definition siod_allocate_aheap :: "int \<Rightarrow> gcs \<Rightarrow> bool \<times> gcs" where
  "siod_allocate_aheap base st =
     (if length (bases st) < nheaps st then
        (True, st\<lparr>mem := mem st @ fresh_heap (length (mem st)) (heap_sz st) (freelist st),
                 bases := bases st @ [base], freelist := Ref (length (mem st))\<rparr>)
      else (False, st))"

text \<open>The length of the free list, up to 100.\<close>

fun freelist_count :: "nat \<Rightarrow> siod_LISP \<Rightarrow> gcell list \<Rightarrow> nat" where
  "freelist_count 0 l m = 0"
| "freelist_count (Suc k) l m = (case l of NIL \<Rightarrow> 0 | Ref a \<Rightarrow>
     (case snd (m ! a) of Core (Tc_free_cell n) \<Rightarrow> Suc (freelist_count k n m) | _ \<Rightarrow> 0))"

datatype gc_result = Gc_ok gcs | Gc_after gcs | Gc_fatal gcs | Gc_undef

text \<open>
  What newcell does when the free list is empty: take the next cell of the first heap, or collect
  and then, on too little space, add a heap.  Gc_after is the point where the hook *after-gc* runs.
\<close>

definition siod_gc_for_newcell :: "int list \<Rightarrow> int list \<Rightarrow> int \<Rightarrow> bool \<Rightarrow> gcs \<Rightarrow> gc_result" where
  "siod_gc_for_newcell save_regs stack base after_gc st =
     (if heap_next st < heap_sz st then
        Gc_ok (st\<lparr>freelist := Ref (heap_next st),
                  mem := (mem st)[heap_next st := (fst (mem st ! heap_next st), Core (Tc_free_cell NIL))],
                  heap_next := Suc (heap_next st)\<rparr>)
      else if \<not> jmp_ok st then Gc_fatal st
      else case siod_gc_mark_and_sweep save_regs stack st of
             None \<Rightarrow> Gc_undef
           | Some st1 \<Rightarrow>
               let n = freelist_count 100 (freelist st1) (mem st1) in
               if n = 0 then
                 (case siod_allocate_aheap base st1 of (ok, st2) \<Rightarrow> if ok then Gc_ok st2 else Gc_fatal st2)
               else if n = 100 \<and> after_gc then Gc_after st1
               else Gc_ok (snd (siod_allocate_aheap base st1)))"

text \<open>Taking the first cell of the free list.\<close>

definition take_free :: "obj \<Rightarrow> gcs \<Rightarrow> (siod_LISP \<times> gcs) option" where
  "take_free ob st = (case freelist st of NIL \<Rightarrow> None | Ref a \<Rightarrow>
     (case snd (mem st ! a) of
        Core (Tc_free_cell next) \<Rightarrow>
          Some (Ref a, st\<lparr>freelist := next, mem := (mem st)[a := (False, Core ob)]\<rparr>)
      | _ \<Rightarrow> None))"

definition debugging_newcell :: "int list \<Rightarrow> int list \<Rightarrow> int \<Rightarrow> bool \<Rightarrow> obj \<Rightarrow> gcs \<Rightarrow> (siod_LISP \<times> gcs) option" where
  "debugging_newcell save_regs stack base after_gc ob st =
     (if freelist st = NIL then
        (case siod_gc_for_newcell save_regs stack base after_gc st of
           Gc_ok st' \<Rightarrow> take_free ob st' | Gc_after st' \<Rightarrow> take_free ob st' | _ \<Rightarrow> None)
      else take_free ob st)"

section \<open>Reachability\<close>

text \<open>The cells one can get to from a list of pointers.\<close>

inductive reach :: "gcell list \<Rightarrow> siod_LISP list \<Rightarrow> nat \<Rightarrow> bool" for m rs where
  reach_root: "Ref a \<in> set rs \<Longrightarrow> a < length m \<Longrightarrow> reach m rs a"
| reach_step: "reach m rs a \<Longrightarrow> Ref b \<in> set (gobj_refs (snd (m ! a))) \<Longrightarrow> b < length m \<Longrightarrow> reach m rs b"

inductive_cases reach_cases: "reach m rs a"

text \<open>The cells the marker gets to: through a traced closure it follows only the code.\<close>

fun followed :: "gobj \<Rightarrow> siod_LISP list" where
  "followed (Core (Tc_free_cell n)) = []"
| "followed (Core (Tc_closure env code)) = [code, env]"
| "followed (Core ob) = obj_refs ob"
| "followed (Closure_traced env code) = [code]"

inductive marker_reach :: "gcell list \<Rightarrow> siod_LISP list \<Rightarrow> nat \<Rightarrow> bool" for m rs where
  mr_root: "Ref a \<in> set rs \<Longrightarrow> marker_reach m rs a"
| mr_step: "marker_reach m rs a \<Longrightarrow> Ref b \<in> set (followed (snd (m ! a))) \<Longrightarrow> marker_reach m rs b"

section \<open>The marker\<close>

definition refs_in :: "gcell list \<Rightarrow> bool" where
  "refs_in m = (\<forall>c\<in>set m. \<forall>r\<in>set (followed (snd c)). \<forall>a. r = Ref a \<longrightarrow> a < length m)"

text \<open>Marking from rs leads from m to m'.\<close>

definition marks_to :: "gcell list \<Rightarrow> gcell list \<Rightarrow> siod_LISP list \<Rightarrow> bool" where
  "marks_to m m' rs = (map snd m' = map snd m \<and>
     (\<forall>a<length m. fst (m ! a) \<longrightarrow> fst (m' ! a)) \<and>
     (\<forall>a<length m. fst (m' ! a) \<and> \<not> fst (m ! a) \<longrightarrow> marker_reach m rs a \<and>
        (\<forall>b. Ref b \<in> set (followed (snd (m ! a))) \<longrightarrow> fst (m' ! b))) \<and>
     (\<forall>b. Ref b \<in> set rs \<longrightarrow> fst (m' ! b)))"

fun mark_list :: "nat \<Rightarrow> siod_LISP list \<Rightarrow> gcell list \<Rightarrow> gcell list option" where
  "mark_list n [] m = Some m"
| "mark_list n (r # rs) m = Option.bind (siod_gc_mark n r m) (mark_list n rs)"

lemma foldr_mark_list:
  "foldr (\<lambda>x k m. Option.bind (siod_gc_mark n x m) k) xs Some = mark_list n xs"
  by (induction xs) (auto intro!: ext)

lemma mark_list_Nil: "mark_list n [] = Some"
  by (rule ext) simp

lemma mark_list_single: "mark_list n [r] = siod_gc_mark n r"
  by (rule ext) (simp add: mark_list_Nil)

lemma mark_step:
  assumes "a < length m" "\<not> fst (m ! a)"
  shows "siod_gc_mark (Suc n) (Ref a) m = mark_list n (followed (snd (m ! a))) (mark_at a m)"
proof (cases "snd (m ! a)")
  case (Core ob)
  then show ?thesis using assms by (cases ob) (simp_all add: foldr_mark_list mark_list_single mark_list_Nil del: mark_list.simps(1))
qed (use assms in \<open>simp add: Let_def mark_list_single del: mark_list.simps\<close>)

lemma marks_to_length: "marks_to m m' rs \<Longrightarrow> length m' = length m"
  unfolding marks_to_def by (metis length_map)

lemma marks_to_snd: "marks_to m m' rs \<Longrightarrow> a < length m \<Longrightarrow> snd (m' ! a) = snd (m ! a)"
  unfolding marks_to_def by (metis length_map nth_map)

lemma marker_reach_mono: "marker_reach m rs a \<Longrightarrow> set rs \<subseteq> set rs' \<Longrightarrow> marker_reach m rs' a"
  by (induction rule: marker_reach.induct) (auto intro: marker_reach.intros)

lemma marker_reach_snd:
  assumes "marker_reach m rs a" "\<And>a. marker_reach m rs a \<Longrightarrow> snd (m' ! a) = snd (m ! a)"
  shows "marker_reach m' rs a"
  using assms(1)
proof (induction rule: marker_reach.induct)
  case (mr_step a b)
  then show ?case using assms(2) [of a] by (auto intro: marker_reach.mr_step)
qed (rule marker_reach.mr_root)

lemma refs_in_reach:
  assumes "refs_in m" "\<forall>a. Ref a \<in> set rs \<longrightarrow> a < length m" "marker_reach m rs a"
  shows "a < length m"
  using assms(3,2)
proof (induction rule: marker_reach.induct)
  case (mr_step a b)
  then have "m ! a \<in> set m" by simp
  with mr_step assms(1) show ?case by (fastforce simp: refs_in_def)
qed simp

lemma refs_in_snd: "map snd m' = map snd m \<Longrightarrow> refs_in m' = refs_in m"
proof -
  assume e: "map snd m' = map snd m"
  have "refs_in x = (\<forall>ob\<in>set (map snd x). \<forall>r\<in>set (followed ob). \<forall>a. r = Ref a \<longrightarrow> a < length (map snd x))" for x
    by (auto simp: refs_in_def)
  then show ?thesis by (simp only: e)
qed

lemma marks_to_trans:
  assumes 1: "marks_to m1 m2 [r]" and 2: "marks_to m2 m3 rs"
    and in1: "refs_in m1" "\<forall>a. Ref a \<in> set (r # rs) \<longrightarrow> a < length m1"
  shows "marks_to m1 m3 (r # rs)"
proof -
  have l: "length m2 = length m1" using 1 by (rule marks_to_length)
  have r2: "marker_reach m1 (r # rs) a" if "marker_reach m2 rs a" for a
  proof -
    have "refs_in m2" using in1(1) 1 refs_in_snd [of m2 m1] by (simp add: marks_to_def)
    moreover have "\<forall>a. Ref a \<in> set rs \<longrightarrow> a < length m2" using in1(2) l by simp
    ultimately have "\<And>a. marker_reach m2 rs a \<Longrightarrow> a < length m2" by (rule refs_in_reach)
    then have "marker_reach m1 rs a"
      using that marks_to_snd [OF 1] l by (intro marker_reach_snd [OF that]) simp
    then show ?thesis by (rule marker_reach_mono) auto
  qed
  have r1: "marker_reach m1 (r # rs) a" if "marker_reach m1 [r] a" for a
    using that by (rule marker_reach_mono) simp
  show ?thesis
    unfolding marks_to_def
  proof (intro conjI allI impI)
    show "map snd m3 = map snd m1" using 1 2 by (simp add: marks_to_def)
    fix a
    show "fst (m3 ! a)" if "a < length m1" "fst (m1 ! a)" using that 1 2 l by (simp add: marks_to_def)
    show "marker_reach m1 (r # rs) a" if "a < length m1" "fst (m3 ! a) \<and> \<not> fst (m1 ! a)"
    proof (cases "fst (m2 ! a)")
      case True
      then have "marker_reach m1 [r] a" using that 1 by (simp add: marks_to_def)
      then show ?thesis by (rule r1)
    next
      case False
      then have "marker_reach m2 rs a" using that 2 l by (simp add: marks_to_def)
      then show ?thesis by (rule r2)
    qed
    show "fst (m3 ! b)" if "a < length m1" "fst (m3 ! a) \<and> \<not> fst (m1 ! a)"
      and b: "Ref b \<in> set (followed (snd (m1 ! a)))" for b
    proof (cases "fst (m2 ! a)")
      case True
      have "m1 ! a \<in> set m1" using that(1) by simp
      then have "b < length m2" using in1(1) b l by (fastforce simp: refs_in_def)
      moreover have "fst (m2 ! b)" using that True 1 by (simp add: marks_to_def)
      ultimately show ?thesis using 2 by (simp add: marks_to_def)
    next
      case False
      then show ?thesis using that marks_to_snd [OF 1 that(1)] 2 l by (simp add: marks_to_def)
    qed
    show "fst (m3 ! a)" if "Ref a \<in> set (r # rs)"
      using that in1(2) 1 2 l by (auto simp: marks_to_def)
  qed
qed

lemma marks_to_Cons:
  assumes a: "a < length m" "\<not> fst (m ! a)" and in1: "refs_in m"
    and m': "marks_to (mark_at a m) m' (followed (snd (m ! a)))"
  shows "marks_to m m' [Ref a]"
proof -
  let ?m = "mark_at a m"
  have s: "map snd ?m = map snd m"
    using a(1) by (simp add: mark_at_def map_update) (metis list_update_id nth_map)
  have n: "snd (?m ! b) = snd (m ! b)" if "b < length m" for b
    using that by (cases "a = b") (simp_all add: mark_at_def)
  have step: "marker_reach m [Ref a] b" if "marker_reach ?m (followed (snd (m ! a))) b" for b
    using that
  proof (induction rule: marker_reach.induct)
    case (mr_root b)
    then show ?case
      by - (rule marker_reach.mr_step [of m "[Ref a]" a], simp_all add: marker_reach.mr_root)
  next
    case (mr_step b c)
    have "b < length m" using refs_in_reach [OF in1 _ mr_step.IH] a by simp
    with mr_step n show ?case by (auto intro: marker_reach.mr_step)
  qed
  have aa: "fst (m' ! a)" using m' a(1) by (simp add: marks_to_def mark_at_def)
  show ?thesis
    unfolding marks_to_def
  proof (intro conjI allI impI)
    show "map snd m' = map snd m" using m' s by (simp add: marks_to_def)
    fix b
    show "fst (m' ! b)" if "b < length m" "fst (m ! b)"
      using that m' by (cases "a = b") (simp_all add: marks_to_def mark_at_def)
    show "marker_reach m [Ref a] b" if "b < length m" "fst (m' ! b) \<and> \<not> fst (m ! b)"
    proof (cases "a = b")
      case True
      then show ?thesis by (simp add: marker_reach.mr_root)
    next
      case False
      then have "\<not> fst (?m ! b)" "b < length ?m" using that by (simp_all add: mark_at_def)
      then have "marker_reach ?m (followed (snd (m ! a))) b" using that(2) m' by (simp add: marks_to_def)
      then show ?thesis by (rule step)
    qed
    show "fst (m' ! c)" if "b < length m" "fst (m' ! b) \<and> \<not> fst (m ! b)"
      "Ref c \<in> set (followed (snd (m ! b)))" for c
    proof (cases "a = b")
      case True
      then show ?thesis using that(3) m' by (simp add: marks_to_def)
    next
      case False
      then have "\<not> fst (?m ! b)" "b < length ?m" using that(1,2) by (simp_all add: mark_at_def)
      then show ?thesis using that(2,3) m' n [OF that(1)] by (simp add: marks_to_def)
    qed
    show "fst (m' ! b)" if "Ref b \<in> set [Ref a]" using that aa by simp
  qed
qed

lemma marks_to_refl: "(\<forall>b. Ref b \<in> set rs \<longrightarrow> fst (m ! b)) \<Longrightarrow> marks_to m m rs"
  by (simp add: marks_to_def)

lemma unmarked_mark_at:
  assumes "a < length m" "\<not> fst (m ! a)"
  shows "Suc (unmarked (mark_at a m)) = unmarked m"
proof -
  have m: "m = take a m @ m ! a # drop (Suc a) m" using assms(1) by (rule id_take_nth_drop)
  have "mark_at a m = take a m @ (True, snd (m ! a)) # drop (Suc a) m"
    using assms(1) by (simp add: mark_at_def upd_conv_take_nth_drop)
  then show ?thesis
    unfolding unmarked_def using assms(2) by (subst (2) m) simp
qed

lemma unmarked_mono:
  assumes "marks_to m m' rs" shows "unmarked m' \<le> unmarked m"
proof -
  have l: "length m' = length m" using assms by (rule marks_to_length)
  have "unmarked x = card {i. i < length x \<and> \<not> fst (x ! i)}" for x
    by (simp add: unmarked_def length_filter_conv_card)
  moreover have "{i. i < length m' \<and> \<not> fst (m' ! i)} \<subseteq> {i. i < length m \<and> \<not> fst (m ! i)}"
    using assms l by (auto simp: marks_to_def)
  ultimately show ?thesis by (simp add: card_mono)
qed

lemma mark_correct:
  "unmarked m < n \<Longrightarrow> refs_in m \<Longrightarrow> (\<forall>a. ptr = Ref a \<longrightarrow> a < length m) \<Longrightarrow>
     \<exists>m'. siod_gc_mark n ptr m = Some m' \<and> marks_to m m' [ptr]"
proof (induction n arbitrary: ptr m)
  case (Suc n)
  have list: "\<exists>m'. mark_list n rs m1 = Some m' \<and> marks_to m1 m' rs"
    if "unmarked m1 < n" "refs_in m1" "\<forall>a. Ref a \<in> set rs \<longrightarrow> a < length m1" for rs m1
    using that
  proof (induction rs arbitrary: m1)
    case (Cons r rs)
    obtain m2 where 2: "siod_gc_mark n r m1 = Some m2" "marks_to m1 m2 [r]"
      using Suc.IH [OF Cons.prems(1,2), of r] Cons.prems(3) by (metis list.set_intros(1))
    have "unmarked m2 < n" using unmarked_mono [OF 2(2)] Cons.prems(1) by simp
    moreover have "refs_in m2" using 2(2) refs_in_snd [of m2 m1] Cons.prems(2) by (simp add: marks_to_def)
    moreover have "\<forall>a. Ref a \<in> set rs \<longrightarrow> a < length m2" using marks_to_length [OF 2(2)] Cons.prems(3) by simp
    ultimately obtain m3 where 3: "mark_list n rs m2 = Some m3" "marks_to m2 m3 rs" using Cons.IH by blast
    have "marks_to m1 m3 (r # rs)" using marks_to_trans [OF 2(2) 3(2) Cons.prems(2,3)] .
    with 2 3 show ?case by simp
  qed (simp add: marks_to_refl)
  show ?case
  proof (cases ptr)
    case NIL
    then show ?thesis by (simp add: marks_to_refl)
  next
    case (Ref a)
    then have a: "a < length m" using Suc.prems(3) by simp
    show ?thesis
    proof (cases "fst (m ! a)")
      case True
      then show ?thesis using Ref a by (simp add: marks_to_refl)
    next
      case False
      let ?m = "mark_at a m"
      have s: "map snd ?m = map snd m"
        using a by (simp add: mark_at_def map_update) (metis list_update_id nth_map)
      have "unmarked ?m < n" using unmarked_mark_at [OF a False] Suc.prems(1) by simp
      moreover have r: "refs_in ?m" using Suc.prems(2) refs_in_snd [OF s] by simp
      moreover have "\<forall>b. Ref b \<in> set (followed (snd (m ! a))) \<longrightarrow> b < length ?m"
        using Suc.prems(2) a by (fastforce simp: refs_in_def mark_at_def)
      ultimately obtain m' where "mark_list n (followed (snd (m ! a))) ?m = Some m'"
        "marks_to ?m m' (followed (snd (m ! a)))" using list by blast
      then show ?thesis
        using mark_step [OF a False] marks_to_Cons [OF a False Suc.prems(2)] Ref by auto
    qed
  qed
qed simp

section \<open>Marking from all roots\<close>

lemma registers_correct:
  "refs_in m \<Longrightarrow> \<forall>a. Ref a \<in> set rs \<longrightarrow> a < length m \<Longrightarrow>
     \<exists>m'. siod_mark_protected_registers rs m = Some m' \<and> marks_to m m' rs"
proof (induction rs arbitrary: m)
  case (Cons r rs)
  obtain m2 where 2: "gc_mark_full r m = Some m2" "marks_to m m2 [r]"
    using mark_correct [of m "Suc (unmarked m)" r] Cons.prems unfolding gc_mark_full_def
    by (metis lessI list.set_intros(1))
  have "refs_in m2" using 2(2) refs_in_snd [of m2 m] Cons.prems(1) by (simp add: marks_to_def)
  moreover have "\<forall>a. Ref a \<in> set rs \<longrightarrow> a < length m2" using marks_to_length [OF 2(2)] Cons.prems(2) by simp
  ultimately obtain m3 where 3: "siod_mark_protected_registers rs m2 = Some m3" "marks_to m2 m3 rs"
    using Cons.IH by blast
  have "marks_to m m3 (r # rs)" using marks_to_trans [OF 2(2) 3(2) Cons.prems] .
  with 2 3 show ?case by simp
qed (simp add: marks_to_refl)

lemma registers_append:
  "siod_mark_protected_registers (rs @ rs') m =
   Option.bind (siod_mark_protected_registers rs m) (siod_mark_protected_registers rs')"
proof (induction rs arbitrary: m)
  case (Cons r rs)
  then show ?case by (cases "gc_mark_full r m") simp_all
qed simp

text \<open>The words of a stack that look like pointers.\<close>

definition word_roots :: "gcs \<Rightarrow> gcell list \<Rightarrow> int list \<Rightarrow> siod_LISP list" where
  "word_roots st m ws = map Ref (List.map_filter (siod_looks_pointerp st m) ws)"

lemma word_roots_simps [simp]:
  "word_roots st m [] = []"
  "word_roots st m (w # ws) =
     (case siod_looks_pointerp st m w of None \<Rightarrow> word_roots st m ws | Some a \<Rightarrow> Ref a # word_roots st m ws)"
  by (simp_all add: word_roots_def map_filter_simps split: option.split)

definition sized :: "gcs \<Rightarrow> gcell list \<Rightarrow> bool" where
  "sized st m = (length m = length (bases st) * heap_sz st)"

lemma cell_index:
  assumes "h \<le> p" "p < h + obj_bytes * int hsz"
  shows "nat ((p - h) div obj_bytes) < hsz"
proof -
  have "(p - h) div 24 < int hsz" using assms by (simp add: obj_bytes_def)
  then show ?thesis using assms(1) by (simp add: obj_bytes_def)
qed

lemma pointer_scan_cong:
  "map snd m' = map snd m \<Longrightarrow> (j + length hs) * hsz = length m \<Longrightarrow>
     pointer_scan p hs hsz m' j = pointer_scan p hs hsz m j"
proof (induction hs arbitrary: j)
  case (Cons h hs)
  have l: "length m' = length m" using Cons.prems(1) by (metis length_map)
  have "snd (m' ! (j * hsz + nat ((p - h) div obj_bytes))) = snd (m ! (j * hsz + nat ((p - h) div obj_bytes)))"
    if "h \<le> p" "p < h + obj_bytes * int hsz"
  proof -
    have "j * hsz + nat ((p - h) div obj_bytes) < Suc j * hsz" using cell_index [OF that] by simp
    also have "\<dots> \<le> length m" using Cons.prems(2) by (metis add_Suc_right length_Cons le_add1 mult_le_mono1 add_Suc)
    finally show ?thesis using Cons.prems(1) l by (metis nth_map)
  qed
  then show ?case using Cons.IH [of "Suc j"] Cons.prems by auto
qed simp

lemma pointer_scan_less:
  "pointer_scan p hs hsz m j = Some a \<Longrightarrow> a < (j + length hs) * hsz"
proof (induction hs arbitrary: j)
  case (Cons h hs)
  show ?case
  proof (cases "a = j * hsz + nat ((p - h) div obj_bytes) \<and> h \<le> p \<and> p < h + obj_bytes * int hsz")
    case True
    then have "a < Suc j * hsz" using cell_index [of h p hsz] by simp
    also have "\<dots> \<le> (j + length (h # hs)) * hsz" by simp
    finally show ?thesis .
  next
    case False
    then have "pointer_scan p hs hsz m (Suc j) = Some a" using Cons.prems by (auto split: if_splits)
    from Cons.IH [OF this] show ?thesis by simp
  qed
qed simp

lemma locations_eq:
  assumes "sized st m" "refs_in m"
  shows "siod_mark_locations_array st ws m = siod_mark_protected_registers (word_roots st m ws) m"
  using assms
proof (induction ws arbitrary: m)
  case (Cons w ws)
  show ?case
  proof (cases "siod_looks_pointerp st m w")
    case (Some a)
    then have "a < length m"
      using Cons.prems(1) pointer_scan_less [of w "bases st" "heap_sz st" m 0 a]
      by (simp add: siod_looks_pointerp_def sized_def)
    then obtain m2 where 2: "gc_mark_full (Ref a) m = Some m2" "marks_to m m2 [Ref a]"
      using mark_correct [of m "Suc (unmarked m)" "Ref a"] Cons.prems(2) unfolding gc_mark_full_def by auto
    have s: "map snd m2 = map snd m" using 2(2) by (simp add: marks_to_def)
    then have "sized st m2" "refs_in m2"
      using Cons.prems refs_in_snd [OF s] marks_to_length [OF 2(2)] by (simp_all add: sized_def)
    moreover have "siod_looks_pointerp st m2 = siod_looks_pointerp st m"
      using pointer_scan_cong [OF s] Cons.prems(1) by (intro ext) (simp add: siod_looks_pointerp_def sized_def)
    then have "word_roots st m2 ws = word_roots st m ws" by (simp add: word_roots_def)
    ultimately show ?thesis using Cons.IH [of m2] Some 2(1) by simp
  next
    case None
    then show ?thesis using Cons by simp
  qed
qed simp

lemma word_roots_less: "sized st m \<Longrightarrow> Ref a \<in> set (word_roots st m ws) \<Longrightarrow> a < length m"
  by (induction ws)
    (auto simp: siod_looks_pointerp_def sized_def split: option.splits dest: pointer_scan_less)

section \<open>Sweeping\<close>

fun free_list :: "gcell list \<Rightarrow> siod_LISP \<Rightarrow> nat list \<Rightarrow> bool" where
  "free_list m l [] = (l = NIL)"
| "free_list m l (a # as) = (l = Ref a \<and> a < length m \<and>
     (case m ! a of (mk, Core (Tc_free_cell next)) \<Rightarrow> \<not> mk \<and> free_list m next as | _ \<Rightarrow> False))"

fun unmarked_addrs :: "nat \<Rightarrow> gcell list \<Rightarrow> nat list" where
  "unmarked_addrs i [] = []"
| "unmarked_addrs i (c # cs) = (if fst c then [] else [i]) @ unmarked_addrs (Suc i) cs"

lemma free_list_extend: "free_list m l as \<Longrightarrow> free_list (m @ m') l as"
  by (induction as arbitrary: l) (auto simp: nth_append split: prod.splits gobj.splits obj.splits)

text \<open>What sweeping does to a cell.\<close>

definition swept :: "gcell \<Rightarrow> gcell \<Rightarrow> bool" where
  "swept c c' = (if fst c then c' = (False, snd c)
                 else fst c' = False \<and> (case snd c' of Core (Tc_free_cell n) \<Rightarrow> True | _ \<Rightarrow> False))"

lemma sweep_correct:
  assumes "siod_gc_sweep (length pre) cs nf n = (cs', nf', n')" "free_list pre nf as"
  shows "n' = n + length (unmarked_addrs (length pre) cs) \<and> list_all2 swept cs cs' \<and>
    free_list (pre @ cs') nf' (rev (unmarked_addrs (length pre) cs) @ as)"
  using assms
proof (induction cs arbitrary: pre nf n cs' nf' n' as)
  case (Cons c cs)
  obtain mk ob where c: "c = (mk, ob)" by fastforce
  let ?c = "if mk then (False, ob) else (False, Core (Tc_free_cell nf))"
  let ?nf = "if mk then nf else Ref (length pre)" and ?n = "if mk then n else Suc n"
  let ?as = "if mk then as else length pre # as"
  obtain cs2 where 2: "siod_gc_sweep (length (pre @ [?c])) cs ?nf ?n = (cs2, nf', n')" "cs' = ?c # cs2"
    using Cons.prems(1) c by (auto split: if_splits prod.splits)
  have "free_list (pre @ [?c]) ?nf ?as"
    using free_list_extend [OF Cons.prems(2), of "[?c]"] by (cases mk) simp_all
  from Cons.IH [OF 2(1) this]
  have "n' = ?n + length (unmarked_addrs (Suc (length pre)) cs)" "list_all2 swept cs cs2"
    "free_list ((pre @ [?c]) @ cs2) nf' (rev (unmarked_addrs (Suc (length pre)) cs) @ ?as)" by simp_all
  moreover have "swept c ?c" using c by (simp add: swept_def)
  ultimately show ?case using c 2(2) by (cases mk) simp_all
qed simp

lemma unmarked_addrs_set: "set (unmarked_addrs i cs) = {a. i \<le> a \<and> a < i + length cs \<and> \<not> fst (cs ! (a - i))}"
proof (induction cs arbitrary: i)
  case (Cons c cs)
  have "a \<in> set (unmarked_addrs i (c # cs)) \<longleftrightarrow>
      i \<le> a \<and> a < i + length (c # cs) \<and> \<not> fst ((c # cs) ! (a - i))" for a
  proof (cases "a = i")
    case False
    then have "i \<le> a \<Longrightarrow> a - i = Suc (a - Suc i)" by simp
    then show ?thesis using Cons False by (auto simp: Suc_le_eq)
  qed (use Cons in auto)
  then show ?case by blast
qed simp

lemma unmarked_addrs_sorted: "sorted_wrt (<) (unmarked_addrs i cs)"
  by (induction cs arbitrary: i) (auto simp: sorted_wrt_append unmarked_addrs_set)

section \<open>The collector\<close>

definition gc_roots :: "int list \<Rightarrow> int list \<Rightarrow> gcs \<Rightarrow> siod_LISP list" where
  "gc_roots save_regs stack st =
     word_roots st (free_rest st) save_regs @ protected st @ word_roots st (free_rest st) stack"

definition gc_inv :: "gcs \<Rightarrow> bool" where
  "gc_inv st = (sized st (mem st) \<and> heap_next st \<le> heap_sz st \<and> bases st \<noteq> [] \<and>
     refs_in (free_rest st) \<and> (\<forall>c\<in>set (mem st). \<not> fst c) \<and>
     (\<forall>a. Ref a \<in> set (protected st) \<longrightarrow> a < length (mem st)))"

definition all_core :: "gcs \<Rightarrow> bool" where
  "all_core st = (\<forall>c\<in>set (mem st). case snd c of Core ob \<Rightarrow> True | _ \<Rightarrow> False)"

lemma free_rest_length:
  assumes "gc_inv st" shows "length (free_rest st) = length (mem st)"
proof -
  have "heap_sz st \<le> length (mem st)" using assms by (cases "bases st") (auto simp: gc_inv_def sized_def)
  with assms show ?thesis by (simp add: free_rest_def gc_inv_def)
qed

lemma free_rest_unmarked: "gc_inv st \<Longrightarrow> c \<in> set (free_rest st) \<Longrightarrow> \<not> fst c"
  by (auto simp: free_rest_def gc_inv_def dest!: in_set_takeD in_set_dropD)

lemma mark_phase:
  assumes inv: "gc_inv st"
  shows "\<exists>m3. marks_to (free_rest st) m3 (gc_roots save_regs stack st) \<and>
    siod_gc_mark_and_sweep save_regs stack st =
      (case siod_gc_sweep 0 m3 NIL 0 of (m4, fl, n) \<Rightarrow>
         Some (st\<lparr>mem := m4, freelist := fl, gc_cells_collected := n, heap_next := heap_sz st\<rparr>))"
proof -
  let ?m = "free_rest st"
  have s: "sized st ?m" using inv free_rest_length [OF inv] by (simp add: gc_inv_def sized_def)
  have r: "refs_in ?m" using inv by (simp add: gc_inv_def)
  have roots: "\<forall>a. Ref a \<in> set (gc_roots save_regs stack st) \<longrightarrow> a < length ?m"
    using inv word_roots_less [OF s] free_rest_length [OF inv] by (auto simp: gc_roots_def gc_inv_def)
  then obtain m1 where 1: "siod_mark_protected_registers (word_roots st ?m save_regs) ?m = Some m1"
    "marks_to ?m m1 (word_roots st ?m save_regs)"
    using registers_correct [OF r, of "word_roots st ?m save_regs"] by (auto simp: gc_roots_def)
  have l1: "length m1 = length ?m" "refs_in m1"
    using 1(2) marks_to_length [OF 1(2)] refs_in_snd [of m1 ?m] r by (simp_all add: marks_to_def)
  then obtain m2 where 2: "siod_mark_protected_registers (protected st) m1 = Some m2" "marks_to m1 m2 (protected st)"
    using registers_correct [of m1 "protected st"] roots by (auto simp: gc_roots_def)
  have sn: "map snd m2 = map snd ?m" using 1(2) 2(2) by (simp add: marks_to_def)
  have l2: "length m2 = length ?m" "refs_in m2"
    using marks_to_length [OF 2(2)] l1 refs_in_snd [OF sn] r by simp_all
  have "siod_looks_pointerp st m2 = siod_looks_pointerp st ?m"
    using pointer_scan_cong [OF sn] s by (intro ext) (simp add: siod_looks_pointerp_def sized_def)
  then have w: "word_roots st m2 stack = word_roots st ?m stack" by (simp add: word_roots_def)
  have s2: "sized st m2" using s l2(1) by (simp add: sized_def)
  obtain m3 where 3: "siod_mark_protected_registers (gc_roots save_regs stack st) ?m = Some m3"
    "marks_to ?m m3 (gc_roots save_regs stack st)"
    using registers_correct [OF r roots] by blast
  have "siod_mark_protected_registers (word_roots st ?m stack) m2 = Some m3"
    using 3(1) 1(1) 2(1) by (simp add: gc_roots_def registers_append)
  then have "siod_gc_mark_and_sweep save_regs stack st =
      (case siod_gc_sweep 0 m3 NIL 0 of (m4, fl, n) \<Rightarrow>
         Some (st\<lparr>mem := m4, freelist := fl, gc_cells_collected := n, heap_next := heap_sz st\<rparr>))"
    by (simp add: siod_gc_mark_and_sweep_def locations_eq [OF s r] locations_eq [OF s2 l2(2)] 1(1) 2(1) w)
  with 3(2) show ?thesis by blast
qed

lemma marked_iff:
  assumes "marks_to m m' rs" "\<forall>c\<in>set m. \<not> fst c" "refs_in m" "\<forall>a. Ref a \<in> set rs \<longrightarrow> a < length m" "a < length m"
  shows "fst (m' ! a) \<longleftrightarrow> marker_reach m rs a"
proof
  assume "fst (m' ! a)"
  moreover have "\<not> fst (m ! a)" using assms(2,5) by simp
  ultimately show "marker_reach m rs a" using assms(1,5) by (simp add: marks_to_def)
next
  assume "marker_reach m rs a"
  then show "fst (m' ! a)"
  proof (induction rule: marker_reach.induct)
    case (mr_step a b)
    have "a < length m" using refs_in_reach [OF assms(3,4) mr_step.hyps(1)] .
    moreover have "\<not> fst (m ! a)" using assms(2) calculation by simp
    ultimately show ?case using mr_step assms(1) by (simp add: marks_to_def)
  qed (use assms(1) in \<open>simp add: marks_to_def\<close>)
qed

lemma mark_and_sweep_correct:
  assumes inv: "gc_inv st" and m: "m = free_rest st" and R: "R = gc_roots save_regs stack st"
  shows "\<exists>st' fl. siod_gc_mark_and_sweep save_regs stack st = Some st' \<and>
    length (mem st') = length m \<and>
    (\<forall>a<length m. marker_reach m R a \<longrightarrow> mem st' ! a = m ! a) \<and>
    free_list (mem st') (freelist st') fl \<and> distinct fl \<and>
    set fl = {a. a < length m \<and> \<not> marker_reach m R a} \<and> gc_cells_collected st' = length fl"
proof -
  obtain m3 where 1: "marks_to m m3 R" and run: "siod_gc_mark_and_sweep save_regs stack st =
      (case siod_gc_sweep 0 m3 NIL 0 of (m4, fl, n) \<Rightarrow>
         Some (st\<lparr>mem := m4, freelist := fl, gc_cells_collected := n, heap_next := heap_sz st\<rparr>))"
    using mark_phase [OF inv] m R by blast
  obtain m4 fl n where sw: "siod_gc_sweep 0 m3 NIL 0 = (m4, fl, n)" by (metis prod_cases3)
  have 2: "n = length (unmarked_addrs 0 m3)" "list_all2 swept m3 m4"
    "free_list m4 fl (rev (unmarked_addrs 0 m3))"
    using sweep_correct [of "[]" m3 NIL 0 m4 fl n "[]"] sw by simp_all
  have l: "length m3 = length m" "length m4 = length m"
    using marks_to_length [OF 1] list_all2_lengthD [OF 2(2)] by simp_all
  have nm: "\<forall>c\<in>set m. \<not> fst c" using free_rest_unmarked [OF inv] m by blast
  have s: "sized st m" using inv free_rest_length [OF inv] m by (simp add: gc_inv_def sized_def)
  have r: "refs_in m" using inv m by (simp add: gc_inv_def)
  have roots: "\<forall>a. Ref a \<in> set R \<longrightarrow> a < length m"
    using inv word_roots_less [OF s] free_rest_length [OF inv] by (auto simp: R gc_roots_def gc_inv_def m)
  note iff = marked_iff [OF 1 nm r roots]
  have "m4 ! a = m ! a" if "a < length m" "marker_reach m R a" for a
  proof -
    have "swept (m3 ! a) (m4 ! a)" using 2(2) that(1) l by (simp add: list_all2_nthD)
    then have "m4 ! a = (False, snd (m3 ! a))" using iff that by (simp add: swept_def)
    moreover have "snd (m3 ! a) = snd (m ! a)" using 1 that(1) by (rule marks_to_snd)
    moreover have "fst (m ! a) = False" using nm that(1) by simp
    ultimately show ?thesis by (metis prod.collapse)
  qed
  moreover have "set (rev (unmarked_addrs 0 m3)) = {a. a < length m \<and> \<not> marker_reach m R a}"
    using iff l by (auto simp: unmarked_addrs_set)
  moreover have "distinct (rev (unmarked_addrs 0 m3))"
    using unmarked_addrs_sorted [of 0 m3] by (simp add: strict_sorted_iff)
  ultimately show ?thesis
    using run sw 2(1,3) l
    by (intro exI [of _ "st\<lparr>mem := m4, freelist := fl, gc_cells_collected := n, heap_next := heap_sz st\<rparr>"]
        exI [of _ "rev (unmarked_addrs 0 m3)"]) auto
qed

lemma followed_core: "snd c = Core ob \<Longrightarrow> set (followed (snd c)) = set (gobj_refs (snd c))"
  by (cases ob) auto

lemma reach_marker_reach:
  assumes "\<forall>c\<in>set m. case snd c of Core ob \<Rightarrow> True | _ \<Rightarrow> False" "refs_in m"
    "\<forall>a. Ref a \<in> set rs \<longrightarrow> a < length m"
  shows "reach m rs a \<longleftrightarrow> marker_reach m rs a"
proof
  have f: "set (followed (snd (m ! a))) = set (gobj_refs (snd (m ! a)))" if "a < length m" for a
  proof -
    have "case snd (m ! a) of Core ob \<Rightarrow> True | _ \<Rightarrow> False" using assms(1) nth_mem [OF that] by blast
    then show ?thesis using followed_core [of "m ! a"] by (cases "snd (m ! a)") auto
  qed
  show "marker_reach m rs a" if "reach m rs a"
    using that
  proof (induction rule: reach.induct)
    case (reach_step a b)
    have "a < length m" using refs_in_reach [OF assms(2,3) reach_step.IH] .
    then show ?case using reach_step f by (blast intro: marker_reach.mr_step)
  qed (rule marker_reach.mr_root)
  show "reach m rs a" if "marker_reach m rs a"
    using that
  proof (induction rule: marker_reach.induct)
    case (mr_root a)
    then show ?case using assms(3) by (blast intro: reach.reach_root)
  next
    case (mr_step a b)
    have "a < length m" using refs_in_reach [OF assms(2,3) mr_step.hyps(1)] .
    moreover have "b < length m"
      using refs_in_reach [OF assms(2,3) marker_reach.mr_step [OF mr_step.hyps(1,2)]] .
    ultimately show ?case using mr_step f by (blast intro: reach.reach_step)
  qed
qed

section \<open>Properties\<close>

text \<open>
  C3. Mark and sweep collects exactly the garbage.  Without traced closures, a collection keeps every
  cell that can be reached from the registers, the protected locations and the stack as it was, and
  the free list afterwards is the chain, without repetition, of all the other cells; the count of
  collected cells is its length.
\<close>

theorem mark_sweep_collects_garbage:
  assumes "gc_inv st" "all_core st"
  shows "\<exists>st' fl. siod_gc_mark_and_sweep save_regs stack st = Some st' \<and>
    length (mem st') = length (mem st) \<and>
    (\<forall>a. reach (free_rest st) (gc_roots save_regs stack st) a \<longrightarrow> mem st' ! a = free_rest st ! a) \<and>
    free_list (mem st') (freelist st') fl \<and> distinct fl \<and>
    set fl = {a. a < length (mem st) \<and> \<not> reach (free_rest st) (gc_roots save_regs stack st) a} \<and>
    gc_cells_collected st' = length fl"
proof -
  let ?m = "free_rest st" and ?R = "gc_roots save_regs stack st"
  have l: "length ?m = length (mem st)" using assms(1) by (rule free_rest_length)
  have s: "sized st ?m" using assms(1) l by (simp add: gc_inv_def sized_def)
  have r: "refs_in ?m" using assms(1) by (simp add: gc_inv_def)
  have roots: "\<forall>a. Ref a \<in> set ?R \<longrightarrow> a < length ?m"
    using assms(1) word_roots_less [OF s] l by (auto simp: gc_roots_def gc_inv_def)
  have core: "\<forall>c\<in>set ?m. case snd c of Core ob \<Rightarrow> True | _ \<Rightarrow> False"
    using assms(2) by (auto simp: free_rest_def all_core_def dest!: in_set_takeD in_set_dropD)
  have eq: "reach ?m ?R = marker_reach ?m ?R"
    using reach_marker_reach [OF core r roots] by blast
  have "a < length ?m" if "reach ?m ?R a" for a using that eq refs_in_reach [OF r roots] by simp
  then show ?thesis
    using mark_and_sweep_correct [OF assms(1) refl refl, of save_regs stack] l eq by auto
qed

text \<open>Three cells: one on the stack, one it points to, and one that is garbage.\<close>

definition small_gcs :: gcs where
  "small_gcs = \<lparr>mem = [(False, Core (Tc_cons (Ref 1) NIL)), (False, Core (Tc_flonum DNaN)),
       (False, Core (Tc_cons (Ref 2) (Ref 0)))], bases = [4096], heap_next = 3, heap_sz = 3, nheaps = 1,
     freelist = NIL, gc_cells_collected = 0, protected = [], jmp_ok = True\<rparr>"

theorem mark_sweep_collects_garbage_witness:
  "gc_inv small_gcs \<and> all_core small_gcs \<and>
   (\<exists>st' fl. siod_gc_mark_and_sweep [] [4096] small_gcs = Some st' \<and>
     free_list (mem st') (freelist st') fl \<and> gc_cells_collected st' = length fl)"
proof -
  have inv: "gc_inv small_gcs"
    by (auto simp: gc_inv_def small_gcs_def sized_def refs_in_def free_rest_def less_Suc_eq)
  have core: "all_core small_gcs" by (simp add: all_core_def small_gcs_def)
  from mark_sweep_collects_garbage [OF inv core, of "[]" "[4096]"] show ?thesis
  proof (elim exE conjE)
    fix st' fl
    assume "siod_gc_mark_and_sweep [] [4096] small_gcs = Some st'"
      "free_list (mem st') (freelist st') fl"
      "gc_cells_collected st' = length fl"
    then show ?thesis using inv core by blast
  qed
qed

section \<open>Traced closures\<close>

text \<open>The heap as the marker sees it: the environments of traced closures are cut off.\<close>

fun cut_env :: "gcell \<Rightarrow> gcell" where
  "cut_env (mk, Closure_traced env code) = (mk, Closure_traced NIL code)"
| "cut_env c = c"

abbreviation cut_envs :: "gcell list \<Rightarrow> gcell list" where
  "cut_envs \<equiv> map cut_env"

lemma cut_env_refs: "Ref b \<in> set (gobj_refs (snd (cut_env c))) \<longleftrightarrow> Ref b \<in> set (followed (snd c))"
proof (cases c rule: cut_env.cases)
  case (2 mk ob)
  then show ?thesis using followed_core [of c ob] by simp
qed simp

lemma reach_cut_envs:
  assumes "refs_in m" "\<forall>a. Ref a \<in> set rs \<longrightarrow> a < length m"
  shows "reach (cut_envs m) rs a \<longleftrightarrow> marker_reach m rs a"
proof
  show "marker_reach m rs a" if "reach (cut_envs m) rs a"
    using that
  proof (induction rule: reach.induct)
    case (reach_step a b)
    have "a < length m" using refs_in_reach [OF assms reach_step.IH] .
    then show ?case using reach_step by (auto simp: cut_env_refs intro: marker_reach.mr_step)
  qed (rule marker_reach.mr_root)
  show "reach (cut_envs m) rs a" if "marker_reach m rs a"
    using that
  proof (induction rule: marker_reach.induct)
    case (mr_root a)
    then show ?case using assms(2) by (auto intro: reach.reach_root)
  next
    case (mr_step a b)
    have "a < length m" using refs_in_reach [OF assms mr_step.hyps(1)] .
    moreover have "b < length m" using refs_in_reach [OF assms marker_reach.mr_step [OF mr_step.hyps(1,2)]] .
    ultimately show ?case using mr_step by (auto simp: cut_env_refs intro: reach.reach_step)
  qed
qed

text \<open>
  C18. The environment of a traced closure is lost.  In any heap, a collection keeps just the cells that can be
  reached without going from a traced closure to its environment, since the marker does not follow what the hook of such a
  closure returns; the environment of a reachable traced closure is put on the free list, though
  it is reachable itself, unless there is such another way to it.
\<close>

theorem traced_closure_loses_env:
  assumes "gc_inv st" "m = free_rest st" "R = gc_roots save_regs stack st"
  shows "\<exists>st' fl. siod_gc_mark_and_sweep save_regs stack st = Some st' \<and>
    (\<forall>a. reach (cut_envs m) R a \<longrightarrow> mem st' ! a = m ! a) \<and>
    free_list (mem st') (freelist st') fl \<and> set fl = {a. a < length m \<and> \<not> reach (cut_envs m) R a} \<and>
    (\<forall>c e code. reach m R c \<and> snd (m ! c) = Closure_traced (Ref e) code \<and> e < length m \<longrightarrow>
       reach m R e \<and> (\<not> reach (cut_envs m) R e \<longrightarrow> e \<in> set fl))"
proof -
  have l: "length m = length (mem st)" unfolding assms(2) using assms(1) by (rule free_rest_length)
  have s: "sized st m" using assms(1) l by (simp add: gc_inv_def sized_def)
  have r: "refs_in m" using assms(1,2) by (simp add: gc_inv_def)
  have roots: "\<forall>a. Ref a \<in> set R \<longrightarrow> a < length m"
    using assms(1) word_roots_less [OF s] l by (auto simp: assms(2,3) gc_roots_def gc_inv_def)
  note eq = reach_cut_envs [OF r roots]
  obtain st' fl where "siod_gc_mark_and_sweep save_regs stack st = Some st'"
    "\<forall>a<length m. marker_reach m R a \<longrightarrow> mem st' ! a = m ! a" "free_list (mem st') (freelist st') fl"
    "set fl = {a. a < length m \<and> \<not> marker_reach m R a}"
    using mark_and_sweep_correct [OF assms(1-3)] by blast
  moreover have "reach m R e" if "reach m R c" "snd (m ! c) = Closure_traced (Ref e) code" "e < length m" for c e code
    using reach_step [OF that(1) _ that(3)] that(2) by simp
  ultimately show ?thesis using refs_in_reach [OF r roots] by (auto simp: eq)
qed

text \<open>A traced closure, its environment, and its code, with a word on the stack that points to the closure.\<close>

definition traced_gcs :: gcs where
  "traced_gcs = \<lparr>mem = [(False, Closure_traced (Ref 1) (Ref 2)), (False, Core (Tc_cons NIL NIL)), (False, Core (Tc_cons NIL NIL))],
     bases = [4096], heap_next = 3, heap_sz = 3, nheaps = 1, freelist = NIL, gc_cells_collected = 0,
     protected = [], jmp_ok = True\<rparr>"

theorem traced_closure_loses_env_witness:
  "\<exists>st' fl. siod_gc_mark_and_sweep [] [4096] traced_gcs = Some st' \<and> free_list (mem st') (freelist st') fl \<and>
     reach (mem traced_gcs) [Ref 0] 1 \<and> 1 \<in> set fl"
proof -
  let ?m = "mem traced_gcs"
  have inv: "gc_inv traced_gcs"
    by (auto simp: gc_inv_def traced_gcs_def sized_def refs_in_def free_rest_def less_Suc_eq)
  have m: "?m = free_rest traced_gcs" "[Ref 0] = gc_roots [] [4096] traced_gcs"
    by (simp_all add: traced_gcs_def free_rest_def gc_roots_def word_roots_def siod_looks_pointerp_def obj_bytes_def)
  have "a = 0 \<or> a = 2" if "reach (cut_envs ?m) [Ref 0] a" for a
    using that by (induction rule: reach.induct) (auto simp: traced_gcs_def)
  then have "\<not> reach (cut_envs ?m) [Ref 0] 1" by force
  moreover have "reach ?m [Ref 0] 0" by (rule reach_root) (simp_all add: traced_gcs_def)
  moreover have "snd (?m ! 0) = Closure_traced (Ref 1) (Ref 2)" "1 < length ?m" by (simp_all add: traced_gcs_def)
  ultimately show ?thesis using traced_closure_loses_env [OF inv m] by blast
qed

end
