(* ===== verification/GC_Copy.thy ===== *)
theory GC_Copy
  imports Wellformed
begin

text \<open>
  The stop-and-copy collector (slib.c, and the hooks of the arrays in sliba.c).  A cell of the old
  space that has been copied holds the address of its copy.  The collector runs between two forms of
  the read-eval-print loop, when no catch frame is open, and copies what the protected registers lead
  to.  The interpreter after a collection is the interpreter before it with its cells renamed.
\<close>

section \<open>The collector\<close>

datatype ocell = Live obj | Moved nat

record gcc =
  oldsp :: "ocell list"
  newsp :: "obj list"
  hend :: nat

text \<open>
  Copying one cell.  None is a full new space, a fatal error, or a dangling pointer.
\<close>

definition siod_gc_relocate :: "siod_LISP \<Rightarrow> gcc \<Rightarrow> (siod_LISP \<times> gcc) option" where
  "siod_gc_relocate x g = (case x of NIL \<Rightarrow> Some (NIL, g) | Ref a \<Rightarrow>
     if length (oldsp g) \<le> a then None
     else case oldsp g ! a of
            Moved b \<Rightarrow> Some (Ref b, g)
          | Live ob \<Rightarrow>
              if hend g \<le> length (newsp g) then None
              else Some (Ref (length (newsp g)),
                g\<lparr>newsp := newsp g @ [ob], oldsp := (oldsp g)[a := Moved (length (newsp g))]\<rparr>))"

text \<open>Relocating a sequence of locations: the registers, or the elements of an array.\<close>

fun siod_scan_registers :: "siod_LISP list \<Rightarrow> gcc \<Rightarrow> (siod_LISP list \<times> gcc) option" where
  "siod_scan_registers [] g = Some ([], g)"
| "siod_scan_registers (x # xs) g = (case siod_gc_relocate x g of None \<Rightarrow> None
     | Some (y, g1) \<Rightarrow> (case siod_scan_registers xs g1 of None \<Rightarrow> None
         | Some (ys, g2) \<Rightarrow> Some (y # ys, g2)))"

text \<open>One turn of the scan: the cell with its pointers relocated.\<close>

fun scan_cell :: "obj \<Rightarrow> gcc \<Rightarrow> (obj \<times> gcc) option" where
  "scan_cell (Tc_cons a d) g = (case siod_scan_registers [a, d] g of
       Some ([a', d'], g') \<Rightarrow> Some (Tc_cons a' d', g') | _ \<Rightarrow> None)"
| "scan_cell (Tc_closure e c) g = (case siod_scan_registers [e, c] g of
       Some ([e', c'], g') \<Rightarrow> Some (Tc_closure e' c', g') | _ \<Rightarrow> None)"
| "scan_cell (Tc_symbol p v) g = (case siod_gc_relocate v g of
       Some (v', g') \<Rightarrow> Some (Tc_symbol p v', g') | None \<Rightarrow> None)"
| "scan_cell (Tc_lisp_array xs) g = (case siod_scan_registers xs g of
       Some (ys, g') \<Rightarrow> Some (Tc_lisp_array ys, g') | None \<Rightarrow> None)"
| "scan_cell ob g = Some (ob, g)"

fun siod_scan_newspace :: "nat \<Rightarrow> nat \<Rightarrow> gcc \<Rightarrow> gcc option" where
  "siod_scan_newspace 0 i g = None"
| "siod_scan_newspace (Suc n) i g =
     (if i < length (newsp g) then
        (case scan_cell (newsp g ! i) g of None \<Rightarrow> None
         | Some (ob, g') \<Rightarrow> siod_scan_newspace n (Suc i) (g'\<lparr>newsp := (newsp g')[i := ob]\<rparr>))
      else Some g)"

text \<open>The cells of the old space that are given to a hook, to array_gc_free or file_gc_free, to free their data.\<close>

fun has_data :: "obj \<Rightarrow> bool" where
  "has_data (Tc_string n b) = True"
| "has_data (Tc_byte_array n b) = True"
| "has_data (Tc_double_array xs) = True"
| "has_data (Tc_long_array xs) = True"
| "has_data (Tc_lisp_array xs) = True"
| "has_data (Tc_c_file n f) = True"
| "has_data ob = False"

definition siod_free_oldspace :: "ocell list \<Rightarrow> nat list" where
  "siod_free_oldspace old =
     filter (\<lambda>a. case old ! a of Live ob \<Rightarrow> has_data ob | Moved b \<Rightarrow> False) [0..<length old]"

text \<open>
  The registers, in the order of the list protected_registers, which is the reverse of the order in
  which siod_init_storage_1 protects them; in front of them those that other files protect.
\<close>

definition registers :: "siod \<Rightarrow> siod_LISP list" where
  "registers s = inums s @ [sym_eval_history_ptr s, sym_after_gc s, sym_dot s, sym_quote s, sym_lambda s,
     sym_progn s, sym_catchall s, sym_errobj s, sym_t s, eof_val s, unbound_marker s] @
     obarray s @ [oblistvar s]"

definition set_registers :: "siod_LISP list \<Rightarrow> siod \<Rightarrow> siod" where
  "set_registers rs s =
     (let n = length (inums s); m = length (obarray s); c = drop n rs in
      s\<lparr>inums := take n rs, sym_eval_history_ptr := c ! 0, sym_after_gc := c ! 1, sym_dot := c ! 2,
        sym_quote := c ! 3, sym_lambda := c ! 4, sym_progn := c ! 5, sym_catchall := c ! 6,
        sym_errobj := c ! 7, sym_t := c ! 8, eof_val := c ! 9, unbound_marker := c ! 10,
        obarray := take m (drop 11 c), oblistvar := c ! (11 + m)\<rparr>)"

text \<open>The result: the other registers, the state, and the cells whose data was freed.\<close>

definition siod_gc_stop_and_copy :: "siod_LISP list \<Rightarrow> siod \<Rightarrow> (siod_LISP list \<times> siod \<times> nat list) option" where
  "siod_gc_stop_and_copy others s =
     (let g0 = \<lparr>oldsp = map Live (cells s), newsp = [], hend = heap_size s\<rparr> in
      case siod_scan_registers (others @ registers s) g0 of None \<Rightarrow> None
      | Some (rs, g1) \<Rightarrow> (case siod_scan_newspace (Suc (heap_size s)) 0 g1 of None \<Rightarrow> None
          | Some g2 \<Rightarrow> Some (take (length others) rs,
              set_registers (drop (length others) rs) (s\<lparr>cells := newsp g2, errjmp_ok := True\<rparr>),
              siod_free_oldspace (oldsp g2))))"

section \<open>The specification\<close>

inductive live :: "obj list \<Rightarrow> siod_LISP list \<Rightarrow> nat \<Rightarrow> bool" for obs rs where
  live_root: "Ref a \<in> set rs \<Longrightarrow> live obs rs a"
| live_step: "live obs rs a \<Longrightarrow> Ref b \<in> set (obj_refs (obs ! a)) \<Longrightarrow> live obs rs b"

text \<open>Renaming the pointers of a cell.\<close>

fun rename :: "(nat \<Rightarrow> nat) \<Rightarrow> siod_LISP \<Rightarrow> siod_LISP" where
  "rename f NIL = NIL"
| "rename f (Ref a) = Ref (f a)"

fun rename_obj :: "(nat \<Rightarrow> nat) \<Rightarrow> obj \<Rightarrow> obj" where
  "rename_obj f (Tc_cons a d) = Tc_cons (rename f a) (rename f d)"
| "rename_obj f (Tc_symbol p v) = Tc_symbol p (rename f v)"
| "rename_obj f (Tc_closure e c) = Tc_closure (rename f e) (rename f c)"
| "rename_obj f (Tc_free_cell n) = Tc_free_cell (rename f n)"
| "rename_obj f (Tc_lisp_array xs) = Tc_lisp_array (map (rename f) xs)"
| "rename_obj f ob = ob"

text \<open>The position of an address in the list of the cells copied so far, in the order of their copies.\<close>

definition pos :: "nat list \<Rightarrow> nat \<Rightarrow> nat" where
  "pos src a = length (takeWhile (\<lambda>x. x \<noteq> a) src)"

lemma pos_less: "a \<in> set src \<Longrightarrow> pos src a < length src"
  unfolding pos_def by (induction src) auto

lemma nth_pos: "a \<in> set src \<Longrightarrow> src ! pos src a = a"
  unfolding pos_def by (induction src) auto

lemma pos_nth: "distinct src \<Longrightarrow> b < length src \<Longrightarrow> pos src (src ! b) = b"
  using nth_eq_iff_index_eq [of src "pos src (src ! b)" b] nth_pos [of "src ! b" src] pos_less [of "src ! b" src]
  by simp

lemma pos_append: "a \<in> set src \<Longrightarrow> pos (src @ t) a = pos src a"
  unfolding pos_def by (simp add: takeWhile_append1)

lemma pos_last: "a \<notin> set src \<Longrightarrow> pos (src @ [a]) a = length src"
  unfolding pos_def by (induction src) auto

definition moved_in :: "nat list \<Rightarrow> siod_LISP \<Rightarrow> bool" where
  "moved_in src r = (case r of NIL \<Rightarrow> True | Ref a \<Rightarrow> a \<in> set src)"

lemma rename_append: "moved_in src r \<Longrightarrow> rename (pos (src @ t)) r = rename (pos src) r"
  by (cases r) (auto simp: moved_in_def pos_append)

lemma rename_obj_append:
  "list_all (moved_in src) (obj_refs ob) \<Longrightarrow> rename_obj (pos (src @ t)) ob = rename_obj (pos src) ob"
  by (cases ob) (auto simp: rename_append list_all_iff)

section \<open>The invariant of a collection\<close>

text \<open>
  The cells src have been copied in this order, and the copies in front of i have been scanned.
\<close>

definition copying :: "obj list \<Rightarrow> siod_LISP list \<Rightarrow> nat \<Rightarrow> nat list \<Rightarrow> nat \<Rightarrow> gcc \<Rightarrow> bool" where
  "copying obs rs h src i g = (distinct src \<and> set src \<subseteq> {..<length obs} \<and> (\<forall>a\<in>set src. live obs rs a) \<and>
     oldsp g = map (\<lambda>a. if a \<in> set src then Moved (pos src a) else Live (obs ! a)) [0..<length obs] \<and>
     newsp g = map (\<lambda>b. if b < i then rename_obj (pos src) (obs ! (src ! b)) else obs ! (src ! b)) [0..<length src] \<and>
     (\<forall>b<i. list_all (moved_in src) (obj_refs (obs ! (src ! b)))) \<and>
     hend g = h \<and> length obs \<le> h \<and> i \<le> length src)"

definition ref_in :: "obj list \<Rightarrow> siod_LISP list \<Rightarrow> siod_LISP \<Rightarrow> bool" where
  "ref_in obs rs r = (case r of NIL \<Rightarrow> True | Ref a \<Rightarrow> a < length obs \<and> live obs rs a)"

lemma relocate_step:
  assumes c: "copying obs rs h src i g" and r: "ref_in obs rs r"
  shows "\<exists>t g'. siod_gc_relocate r g = Some (rename (pos (src @ t)) r, g') \<and>
    copying obs rs h (src @ t) i g' \<and> moved_in (src @ t) r"
proof (cases r)
  case NIL
  then show ?thesis using c by (intro exI [of _ "[]"]) (simp add: siod_gc_relocate_def moved_in_def)
next
  case (Ref a)
  then have a: "a < length obs" "live obs rs a" using r by (simp_all add: ref_in_def)
  show ?thesis
  proof (cases "a \<in> set src")
    case True
    then show ?thesis
      using c a Ref by (intro exI [of _ "[]"]) (simp add: siod_gc_relocate_def moved_in_def copying_def)
  next
    case False
    have old: "oldsp g ! a = Live (obs ! a)" "length (oldsp g) = length obs" "length (newsp g) = length src"
      using c a False by (simp_all add: copying_def)
    have "set (a # src) \<subseteq> {..<length obs}" "distinct (a # src)" using c a False by (auto simp: copying_def)
    then have "length (a # src) \<le> length obs"
      by (metis card_lessThan card_mono distinct_card finite_lessThan)
    then have room: "length src < h" using c by (simp add: copying_def)
    let ?g = "g\<lparr>newsp := newsp g @ [obs ! a], oldsp := (oldsp g)[a := Moved (length src)]\<rparr>"
    have "siod_gc_relocate r g = Some (Ref (length src), ?g)"
      using Ref old a(1) room c by (simp add: siod_gc_relocate_def copying_def)
    moreover have "rename (pos (src @ [a])) r = Ref (length src)" using Ref False by (simp add: pos_last)
    moreover have "copying obs rs h (src @ [a]) i ?g"
    proof -
      have "oldsp ?g = map (\<lambda>x. if x \<in> set (src @ [a]) then Moved (pos (src @ [a]) x) else Live (obs ! x)) [0..<length obs]"
      proof (rule nth_equalityI)
        fix j assume "j < length (oldsp ?g)"
        then show "oldsp ?g ! j = map (\<lambda>x. if x \<in> set (src @ [a]) then Moved (pos (src @ [a]) x) else Live (obs ! x)) [0..<length obs] ! j"
          using c old(2) False by (cases "j = a") (auto simp: copying_def pos_last pos_append)
      qed (simp add: old(2))
      moreover have "newsp ?g = map (\<lambda>b. if b < i then rename_obj (pos (src @ [a])) (obs ! ((src @ [a]) ! b))
          else obs ! ((src @ [a]) ! b)) [0..<length (src @ [a])]"
        using c by (auto simp: copying_def nth_append rename_obj_append)
      moreover have "\<forall>b<i. list_all (moved_in (src @ [a])) (obj_refs (obs ! ((src @ [a]) ! b)))"
        using c by (auto simp: copying_def nth_append list_all_iff moved_in_def split: siod_LISP.splits)
      ultimately show ?thesis using c a False by (auto simp: copying_def)
    qed
    ultimately show ?thesis using Ref by (intro exI [of _ "[a]"] exI [of _ ?g]) (simp add: moved_in_def)
  qed
qed

lemma relocate_list:
  "copying obs rs h src i g \<Longrightarrow> list_all (ref_in obs rs) xs \<Longrightarrow>
   \<exists>t g'. siod_scan_registers xs g = Some (map (rename (pos (src @ t))) xs, g') \<and>
     copying obs rs h (src @ t) i g' \<and> list_all (moved_in (src @ t)) xs"
proof (induction xs arbitrary: src g)
  case Nil
  then show ?case by (intro exI [of _ "[]"]) simp
next
  case (Cons x xs)
  obtain t g1 where 1: "siod_gc_relocate x g = Some (rename (pos (src @ t)) x, g1)"
    "copying obs rs h (src @ t) i g1" "moved_in (src @ t) x"
    using relocate_step [OF Cons.prems(1), of x] Cons.prems(2) by auto
  obtain u g2 where 2: "siod_scan_registers xs g1 = Some (map (rename (pos ((src @ t) @ u))) xs, g2)"
    "copying obs rs h ((src @ t) @ u) i g2" "list_all (moved_in ((src @ t) @ u)) xs"
    using Cons.IH [OF 1(2)] Cons.prems(2) by auto
  have "moved_in ((src @ t) @ u) x" using 1(3) by (auto simp: moved_in_def split: siod_LISP.splits)
  with 1 2 rename_append [OF 1(3), of u] show ?case
    by (intro exI [of _ "t @ u"] exI [of _ g2]) simp
qed


section \<open>The scan\<close>

definition closed_heap :: "obj list \<Rightarrow> bool" where
  "closed_heap obs = (\<forall>ob\<in>set obs. (\<forall>n. ob \<noteq> Tc_free_cell n) \<and>
     (\<forall>r\<in>set (obj_refs ob). \<forall>a. r = Ref a \<longrightarrow> a < length obs))"

lemma refs_in_closed:
  assumes "closed_heap obs" "a < length obs" "live obs rs a"
  shows "list_all (ref_in obs rs) (obj_refs (obs ! a))"
proof -
  have "obs ! a \<in> set obs" using assms(2) by simp
  then have "\<forall>r\<in>set (obj_refs (obs ! a)). \<forall>b. r = Ref b \<longrightarrow> b < length obs"
    using assms(1) unfolding closed_heap_def by blast
  then show ?thesis
    using assms(3) by (auto simp: list_all_iff ref_in_def split: siod_LISP.splits intro: live_step)
qed

lemma scan_cell_step:
  assumes c: "copying obs rs h src i g" and r: "list_all (ref_in obs rs) (obj_refs ob)" "\<And>n. ob \<noteq> Tc_free_cell n"
  shows "\<exists>t g'. scan_cell ob g = Some (rename_obj (pos (src @ t)) ob, g') \<and>
    copying obs rs h (src @ t) i g' \<and> list_all (moved_in (src @ t)) (obj_refs ob)"
proof -
  obtain t g' where 1: "siod_scan_registers (obj_refs ob) g = Some (map (rename (pos (src @ t))) (obj_refs ob), g')"
    "copying obs rs h (src @ t) i g'" "list_all (moved_in (src @ t)) (obj_refs ob)"
    using relocate_list [OF c r(1)] by blast
  have "scan_cell ob g = Some (rename_obj (pos (src @ t)) ob, g')"
    using 1(1) r(2) by (cases ob) (auto split: option.splits prod.splits)
  with 1 show ?thesis by blast
qed

lemma scan_run:
  assumes "closed_heap obs"
  shows "copying obs rs h src i g \<Longrightarrow> length obs - i < n \<Longrightarrow>
    \<exists>t g'. siod_scan_newspace n i g = Some g' \<and> copying obs rs h (src @ t) (length (src @ t)) g'"
proof (induction n arbitrary: src i g)
  case (Suc n)
  note c = Suc.prems(1)
  have l: "length (newsp g) = length src" using c by (simp add: copying_def)
  show ?case
  proof (cases "i < length src")
    case False
    then have "i = length src" using c by (simp add: copying_def)
    with c l show ?thesis by (intro exI [of _ "[]"] exI [of _ g]) simp
  next
    case True
    let ?ob = "obs ! (src ! i)"
    have s: "src ! i \<in> set src" using True by simp
    then have i: "src ! i < length obs" "live obs rs (src ! i)" using c by (auto simp: copying_def)
    then have "obs ! (src ! i) \<in> set obs" by simp
    then have nf: "?ob \<noteq> Tc_free_cell k" for k using assms by (auto simp: closed_heap_def)
    have "card (set src) \<le> card {..<length obs}" using c by (intro card_mono) (auto simp: copying_def)
    then have "length src \<le> length obs" using c by (simp add: copying_def distinct_card)
    then have n: "length obs - Suc i < n" using Suc.prems(2) True by linarith
    obtain t g1 where 1: "scan_cell ?ob g = Some (rename_obj (pos (src @ t)) ?ob, g1)"
      "copying obs rs h (src @ t) i g1" "list_all (moved_in (src @ t)) (obj_refs ?ob)"
      using scan_cell_step [OF c refs_in_closed [OF assms i] nf] by blast
    let ?g = "g1\<lparr>newsp := (newsp g1)[i := rename_obj (pos (src @ t)) ?ob]\<rparr>"
    have "newsp ?g = map (\<lambda>b. if b < Suc i then rename_obj (pos (src @ t)) (obs ! ((src @ t) ! b))
        else obs ! ((src @ t) ! b)) [0..<length (src @ t)]"
      using 1(2) True by (intro nth_equalityI) (auto simp: copying_def nth_list_update nth_append less_Suc_eq)
    then have 2: "copying obs rs h (src @ t) (Suc i) ?g"
      using 1(2,3) True by (auto simp: copying_def less_Suc_eq nth_append)
    have "newsp g ! i = ?ob" using c True by (simp add: copying_def)
    moreover obtain u g2 where "siod_scan_newspace n (Suc i) ?g = Some g2"
      "copying obs rs h ((src @ t) @ u) (length ((src @ t) @ u)) g2"
      using Suc.IH [OF 2 n] by blast
    ultimately show ?thesis
      using 1(1) True l by (intro exI [of _ "t @ u"] exI [of _ g2]) simp
  qed
qed simp

lemma copying_start: "length obs \<le> h \<Longrightarrow> copying obs rs h [] 0 \<lparr>oldsp = map Live obs, newsp = [], hend = h\<rparr>"
  by (auto simp: copying_def intro: nth_equalityI)

text \<open>
  The collection succeeds, and the copies, in the order src, are the live cells with their pointers
  renamed.
\<close>

lemma stop_and_copy_run:
  assumes "closed_heap (cells s)" "length (cells s) \<le> heap_size s"
    "\<And>a. Ref a \<in> set (others @ registers s) \<Longrightarrow> a < length (cells s)"
  shows "\<exists>src freed. distinct src \<and> set src = {a. live (cells s) (others @ registers s) a} \<and>
    siod_gc_stop_and_copy others s = Some (map (rename (pos src)) others,
      set_registers (map (rename (pos src)) (registers s))
        (s\<lparr>cells := map (\<lambda>a. rename_obj (pos src) (cells s ! a)) src, errjmp_ok := True\<rparr>), freed) \<and>
    freed = filter (\<lambda>a. a \<notin> set src \<and> has_data (cells s ! a)) [0..<length (cells s)]"
proof -
  let ?obs = "cells s" and ?rs = "others @ registers s" and ?h = "heap_size s"
  let ?g0 = "\<lparr>oldsp = map Live ?obs, newsp = [], hend = ?h\<rparr>"
  have "list_all (ref_in ?obs ?rs) ?rs"
    using assms(3) by (auto simp: list_all_iff ref_in_def split: siod_LISP.splits intro: live_root)
  then obtain u g1 where 1: "siod_scan_registers ?rs ?g0 = Some (map (rename (pos u)) ?rs, g1)"
    "copying ?obs ?rs ?h u 0 g1" "list_all (moved_in u) ?rs"
    using relocate_list [OF copying_start [OF assms(2)]] by fastforce
  have "length ?obs - 0 < Suc ?h" using assms(2) by simp
  then obtain t g2 where 2: "siod_scan_newspace (Suc ?h) 0 g1 = Some g2"
    "copying ?obs ?rs ?h (u @ t) (length (u @ t)) g2"
    using scan_run [OF assms(1) 1(2)] by blast
  define src where "src = u @ t"
  have 3: "copying ?obs ?rs ?h src (length src) g2" using 2(2) by (simp only: src_def)
  have src: "src = u @ t" by (fact src_def)
  have "map (rename (pos src)) ?rs = map (rename (pos u)) ?rs"
    using 1(3) by (auto simp: list_all_iff rename_append src)
  then have rn: "map (rename (pos u)) others = map (rename (pos src)) others"
    "map (rename (pos u)) (registers s) = map (rename (pos src)) (registers s)"
    by simp_all
  have "a \<in> set src" if "live ?obs ?rs a" for a
    using that
  proof (induction rule: live.induct)
    case (live_root a)
    then have "moved_in u (Ref a)" using 1(3) by (simp add: list_all_iff)
    then show ?case by (simp add: moved_in_def src)
  next
    case (live_step a b)
    then obtain j where "j < length src" "src ! j = a" by (auto simp only: in_set_conv_nth)
    then have "list_all (moved_in src) (obj_refs (?obs ! a))" using 3 unfolding copying_def by metis
    then show ?case using live_step by (fastforce simp: list_all_iff moved_in_def)
  qed
  then have "set src = {a. live ?obs ?rs a}" using 3 by (auto simp: copying_def)
  moreover have "newsp g2 = map (\<lambda>a. rename_obj (pos src) (?obs ! a)) src"
    using 3 by (intro nth_equalityI) (simp_all add: copying_def)
  moreover have "siod_free_oldspace (oldsp g2) =
      filter (\<lambda>a. a \<notin> set src \<and> has_data (?obs ! a)) [0..<length ?obs]"
    using 3 by (auto simp: siod_free_oldspace_def copying_def split: if_splits intro!: filter_cong)
  moreover have "siod_gc_stop_and_copy others s = Some (map (rename (pos src)) others,
      set_registers (map (rename (pos src)) (registers s)) (s\<lparr>cells := newsp g2, errjmp_ok := True\<rparr>), siod_free_oldspace (oldsp g2))"
    using 1(1) 2(1) rn by (simp add: siod_gc_stop_and_copy_def Let_def del: siod_scan_newspace.simps)
  moreover have "distinct src" using 3 by (simp add: copying_def)
  ultimately show ?thesis
    by - (rule exI [of _ src], rule exI [of _ "filter (\<lambda>a. a \<notin> set src \<and> has_data (?obs ! a)) [0..<length ?obs]"], simp)
qed

section \<open>The collected state\<close>

lemma set_registers_rename:
  assumes "length (inums t) = length (inums s)" "length (obarray t) = length (obarray s)"
  shows "set_registers (map h (registers s)) t = t\<lparr>inums := map h (inums s),
    sym_eval_history_ptr := h (sym_eval_history_ptr s), sym_after_gc := h (sym_after_gc s),
    sym_dot := h (sym_dot s), sym_quote := h (sym_quote s), sym_lambda := h (sym_lambda s),
    sym_progn := h (sym_progn s), sym_catchall := h (sym_catchall s), sym_errobj := h (sym_errobj s),
    sym_t := h (sym_t s), eof_val := h (eof_val s), unbound_marker := h (unbound_marker s),
    obarray := map h (obarray s), oblistvar := h (oblistvar s)\<rparr>"
  using assms by (simp add: set_registers_def registers_def Let_def nth_append nth_Cons')

lemma obj_refs_rename [simp]: "obj_refs (rename_obj f ob) = map (rename f) (obj_refs ob)"
  by (cases ob) simp_all

text \<open>A collection that starts with no open catch frame, in a space without free cells.\<close>

definition collectable :: "siod_LISP list \<Rightarrow> siod \<Rightarrow> bool" where
  "collectable others s = (wf_state s \<and> list_all (ref_ok s) others \<and> catch_framep s = [] \<and>
     length (cells s) \<le> heap_size s \<and> (\<forall>ob\<in>set (cells s). \<forall>n. ob \<noteq> Tc_free_cell n))"

lemma collectable_roots:
  assumes "collectable others s" "Ref a \<in> set (others @ registers s)" shows "a < length (cells s)"
proof -
  have "ref_ok s (Ref a)"
    using assms wf_globals [of s "Ref a"]
    by (auto simp: collectable_def list_all_iff registers_def globals_def constants_def)
  then show ?thesis by (simp add: ref_ok_def)
qed

lemma collectable_closed: "collectable others s \<Longrightarrow> closed_heap (cells s)"
  by (fastforce simp: collectable_def closed_heap_def wf_state_def refs_ok_def list_all_iff ref_ok_def)

lemma live_range:
  assumes "collectable others s" "live (cells s) (others @ registers s) a" shows "a < length (cells s)"
  using assms(2)
proof (induction rule: live.induct)
  case (live_root a)
  with assms(1) show ?case by (rule collectable_roots)
next
  case (live_step a b)
  then have "cells s ! a \<in> set (cells s)" by simp
  with live_step show ?case using collectable_closed [OF assms(1)] unfolding closed_heap_def by blast
qed

lemma collection_run:
  assumes "collectable others s"
  shows "\<exists>src freed. distinct src \<and> set src = {a. live (cells s) (others @ registers s) a} \<and>
    siod_gc_stop_and_copy others s = Some (map (rename (pos src)) others,
      set_registers (map (rename (pos src)) (registers s))
        (s\<lparr>cells := map (\<lambda>a. rename_obj (pos src) (cells s ! a)) src, errjmp_ok := True\<rparr>), freed) \<and>
    freed = filter (\<lambda>a. a \<notin> set src \<and> has_data (cells s ! a)) [0..<length (cells s)]"
proof (rule stop_and_copy_run)
  show "closed_heap (cells s)" using assms by (rule collectable_closed)
  show "length (cells s) \<le> heap_size s" using assms by (simp add: collectable_def)
  show "a < length (cells s)" if "Ref a \<in> set (others @ registers s)" for a
    using assms that by (rule collectable_roots)
qed

text \<open>
  C23. The copying collector never runs out of space, and the state after it is the state before it up
  to a renaming of the live cells: the live cells are renamed one to one to the first cells of the new
  space, nothing else is kept, every live cell is copied with its pointers renamed, every register
  is renamed, and the data of exactly the dead arrays and strings is given back.
\<close>

theorem stop_and_copy_renames:
  assumes "collectable others s"
  shows "\<exists>f s' freed. siod_gc_stop_and_copy others s = Some (map (rename f) others, s', freed) \<and>
    (let L = {a. live (cells s) (others @ registers s) a} in
     bij_betw f L {..<length (cells s')} \<and> registers s' = map (rename f) (registers s) \<and>
     (\<forall>a\<in>L. obj_at s' (Ref (f a)) = Some (rename_obj f (cells s ! a))) \<and>
     set freed = {a. a < length (cells s) \<and> a \<notin> L \<and> has_data (cells s ! a)} \<and> distinct freed)"
proof -
  obtain src freed where 1: "distinct src" "set src = {a. live (cells s) (others @ registers s) a}"
    "siod_gc_stop_and_copy others s = Some (map (rename (pos src)) others,
      set_registers (map (rename (pos src)) (registers s))
        (s\<lparr>cells := map (\<lambda>a. rename_obj (pos src) (cells s ! a)) src, errjmp_ok := True\<rparr>), freed)"
    "freed = filter (\<lambda>a. a \<notin> set src \<and> has_data (cells s ! a)) [0..<length (cells s)]"
    using collection_run [OF assms] by blast
  let ?s = "set_registers (map (rename (pos src)) (registers s)) (s\<lparr>cells := map (\<lambda>a. rename_obj (pos src) (cells s ! a)) src, errjmp_ok := True\<rparr>)"
  have s': "cells ?s = map (\<lambda>a. rename_obj (pos src) (cells s ! a)) src"
    "registers ?s = map (rename (pos src)) (registers s)"
    by (simp_all add: set_registers_rename) (simp add: registers_def)
  have "bij_betw (pos src) (set src) {..<length src}"
    by (rule bij_betw_byWitness [where f' = "\<lambda>b. src ! b"]) (auto simp: nth_pos pos_nth [OF 1(1)] pos_less)
  moreover have "obj_at ?s (Ref (pos src a)) = Some (rename_obj (pos src) (cells s ! a))" if "a \<in> set src" for a
    using pos_less [OF that] nth_pos [OF that] by (simp add: obj_at_def s')
  ultimately show ?thesis
    unfolding Let_def 1(2) [symmetric] using 1(3,4) s'
    by (intro exI [of _ "pos src"] exI [of _ ?s] exI [of _ freed]) auto
qed

definition copying_example :: siod where
  "copying_example = small_state [Tc_string 1 [CHR ''a'', CHR 0x00], Tc_cons (Ref 0) (Ref 2), Tc_flonum (of_long 1)]"

lemma copying_example_ok: "collectable [Ref 2] copying_example"
proof -
  have "wf_state copying_example" unfolding copying_example_def by (rule wf_small_state) auto
  then show ?thesis by (simp add: collectable_def copying_example_def small_state_def ref_ok_def)
qed

theorem stop_and_copy_renames_witness:
  "\<exists>f s' freed. siod_gc_stop_and_copy [Ref 2] copying_example = Some ([rename f (Ref 2)], s', freed) \<and>
     1 \<in> set freed"
proof -
  have r: "list_all (\<lambda>r. r \<in> {NIL, Ref 0, Ref 2}) ([Ref 2] @ registers copying_example)"
    "obj_refs (cells copying_example ! 0) = [Ref 0]"
    "obj_refs (cells copying_example ! 2) = [Ref 0, Ref 2]"
    by (simp_all add: registers_def copying_example_def small_state_def)
  have L: "a = 0 \<or> a = 2" if "live (cells copying_example) ([Ref 2] @ registers copying_example) a" for a
    using that
  proof (induction rule: live.induct)
    case (live_root a)
    then show ?case using r(1) unfolding list_all_iff by blast
  next
    case (live_step a b)
    then show ?case by (elim disjE) (simp_all add: r(2,3))
  qed
  have "\<not> live (cells copying_example) ([Ref 2] @ registers copying_example) 1"
    using L [of 1] by auto
  moreover have "1 < length (cells copying_example)" "has_data (cells copying_example ! 1)"
    by (simp_all add: copying_example_def small_state_def)
  moreover obtain f s' freed where 1: "siod_gc_stop_and_copy [Ref 2] copying_example = Some (map (rename f) [Ref 2], s', freed)"
    "set freed = {a. a < length (cells copying_example) \<and>
       a \<notin> {a. live (cells copying_example) ([Ref 2] @ registers copying_example) a} \<and> has_data (cells copying_example ! a)}"
    using stop_and_copy_renames [OF copying_example_ok] unfolding Let_def by blast
  ultimately have "1 \<in> set freed" by blast
  with 1(1) show ?thesis by auto
qed

text \<open>The state that the collection leaves, with the live cells src in their new order.\<close>

lemma renamed_refs:
  assumes "collectable others s" "rs = others @ registers s" "set src = {a. live (cells s) rs a}" "distinct src"
    "cells s' = map (\<lambda>a. rename_obj (pos src) (cells s ! a)) src"
  shows "r \<in> set rs \<Longrightarrow> ref_ok s' (rename (pos src) r)"
    "r \<in> set rs \<Longrightarrow> obj_at s' (rename (pos src) r) = map_option (rename_obj (pos src)) (obj_at s r)"
    "a \<in> set src \<Longrightarrow> list_all (ref_ok s') (obj_refs (rename_obj (pos src) (cells s ! a)))"
    "length src \<le> length (cells s)"
    "a \<in> set src \<Longrightarrow> rename_obj (pos src) (cells s ! a) \<noteq> Tc_free_cell n"
proof -
  have ok: "ref_ok s' (rename (pos src) r)" if "\<And>a. r = Ref a \<Longrightarrow> a \<in> set src" for r
    using that by (cases r) (auto simp: ref_ok_def assms(5) pos_less)
  have lv: "a \<in> set src" if "Ref a \<in> set rs" for a
    using live_root [OF that, of "cells s"] assms(3) by simp
  show "ref_ok s' (rename (pos src) r)" if "r \<in> set rs" using that by (auto intro: ok lv)
  show "obj_at s' (rename (pos src) r) = map_option (rename_obj (pos src)) (obj_at s r)" if "r \<in> set rs"
  proof (cases r rule: siod_LISP.exhaust)
    case (Ref a)
    then have a: "a \<in> set src" "a < length (cells s)"
      using that lv collectable_roots [OF assms(1)] assms(2) by simp_all
    show ?thesis using pos_less [OF a(1)] nth_pos [OF a(1)] a(2) by (simp add: Ref obj_at_def assms(5))
  qed (simp add: obj_at_def)
  show "list_all (ref_ok s') (obj_refs (rename_obj (pos src) (cells s ! a)))" if "a \<in> set src"
  proof -
    have "b \<in> set src" if "Ref b \<in> set (obj_refs (cells s ! a))" for b
      using live_step [of "cells s" rs a b] that \<open>a \<in> set src\<close> assms(3) by simp
    then show ?thesis by (auto simp: list_all_iff intro!: ok)
  qed
  have range: "set src \<subseteq> {..<length (cells s)}" using assms(3) live_range [OF assms(1)] assms(2) by auto
  then have "card (set src) \<le> card {..<length (cells s)}" by (intro card_mono) simp_all
  then show "length src \<le> length (cells s)" using distinct_card [OF assms(4)] by simp
  show "rename_obj (pos src) (cells s ! a) \<noteq> Tc_free_cell n" if "a \<in> set src"
  proof -
    have "cells s ! a \<in> set (cells s)" using that range by auto
    then have "cells s ! a \<noteq> Tc_free_cell m" for m using assms(1) by (auto simp: collectable_def)
    then show ?thesis by (cases "cells s ! a") auto
  qed
qed

text \<open>
  C24. A copying collection between two evaluations keeps the interpreter well formed, so the evaluator
  can go on in the state it leaves.
\<close>

theorem stop_and_copy_keeps_invariant:
  assumes "collectable others s" "siod_gc_stop_and_copy others s = Some (others', s', freed)"
  shows "collectable others' s'"
proof -
  have w: "wf_state s" and h: "length (cells s) \<le> heap_size s" and fr: "catch_framep s = []"
    using assms(1) by (simp_all add: collectable_def)
  let ?rs = "others @ registers s"
  obtain src where 1: "distinct src" "set src = {a. live (cells s) ?rs a}"
    "others' = map (rename (pos src)) others"
    "s' = set_registers (map (rename (pos src)) (registers s))
        (s\<lparr>cells := map (\<lambda>a. rename_obj (pos src) (cells s ! a)) src, errjmp_ok := True\<rparr>)"
    using collection_run [OF assms(1)] unfolding assms(2) option.inject prod.inject by blast
  let ?f = "rename (pos src)"
  have c: "cells s' = map (\<lambda>a. rename_obj (pos src) (cells s ! a)) src"
    by (simp add: 1(4) set_registers_rename)
  note R = renamed_refs [OF assms(1) refl 1(2,1) c]
  have g: "globals s' = map ?f (globals s)" "inums s' = map ?f (inums s)" "length (obarray s') = length (obarray s)"
    "obarray_dim s' = obarray_dim s" "catch_framep s' = []" "heap_size s' = heap_size s"
    "sym_errobj s' = ?f (sym_errobj s)" "sym_t s' = ?f (sym_t s)" "sym_eval_history_ptr s' = ?f (sym_eval_history_ptr s)"
    using fr by (simp_all add: 1(4) set_registers_rename globals_def constants_def)
  have "set (globals s) \<subseteq> set ?rs" using fr by (auto simp: globals_def constants_def registers_def)
  then have "list_all (ref_ok s') (map ?f (globals s))" by (auto simp: list_all_iff simp del: set_append intro: R(1))
  then have r: "refs_ok s'" using R(3) by (auto simp: refs_ok_def c g)
  have sy: "symbol_at s' (?f r)" if "symbol_at s r" "r \<in> set ?rs" for r
    using that by (auto simp: symbol_at_def R(2) split: option.splits obj.splits)
  have "inums_ok s'"
    using w by (auto simp: inums_ok_def g R(2) registers_def wf_state_def)
  moreover have "symbol_at s' (?f (sym_errobj s))" "symbol_at s' (?f (sym_t s))" "symbol_at s' (?f (sym_eval_history_ptr s))"
    using w by (auto simp: wf_state_def registers_def intro!: sy)
  ultimately have "wf_state s'" using r w by (simp add: wf_state_def obarray_ok_def g)
  moreover have "list_all (ref_ok s') others'" by (auto simp: 1(3) list_all_iff intro!: R(1))
  ultimately show ?thesis using h g R(4,5) by (auto simp: collectable_def c)
qed

theorem stop_and_copy_keeps_invariant_witness:
  "\<exists>others s freed. siod_gc_stop_and_copy [Ref 2] copying_example = Some (others, s, freed) \<and> wf_state s"
proof -
  obtain f s' freed where 1: "siod_gc_stop_and_copy [Ref 2] copying_example = Some (map (rename f) [Ref 2], s', freed)"
    using collection_run [OF copying_example_ok] by blast
  with stop_and_copy_keeps_invariant [OF copying_example_ok 1] show ?thesis by (auto simp: collectable_def)
qed

end
