(* ===== verification/Arrays.thy ===== *)
theory Arrays
  imports Lists
begin

text \<open>
  Strings and arrays (sliba.c).  A string cell has its dimension and its buffer, which is one byte
  longer; an access behind the end of a buffer is undefined.  Storage for the data is taken from malloc
  and assumed to be available.
\<close>

section \<open>Characters and buffers\<close>

definition uchar :: "char \<Rightarrow> int" where
  "uchar c = of_char c"

text \<open>The conversion of a double to a char.\<close>

definition c_char :: "double \<Rightarrow> char" where
  "c_char d = char_of (c_int d)"

definition c_toupper :: "char \<Rightarrow> char" where
  "c_toupper c = (let n = of_char c :: nat in if 97 \<le> n \<and> n \<le> 122 then char_of (n - 32) else c)"

definition c_tolower :: "char \<Rightarrow> char" where
  "c_tolower c = (let n = of_char c :: nat in if 65 \<le> n \<and> n \<le> 90 then char_of (n + 32) else c)"

fun strstr :: "char list \<Rightarrow> char list \<Rightarrow> nat option" where
  "strstr [] token = (if token = [] then Some 0 else None)"
| "strstr (c # cs) token =
     (if take (length token) (c # cs) = token then Some 0 else map_option Suc (strstr cs token))"

fun strcmp_less :: "char list \<Rightarrow> char list \<Rightarrow> bool" where
  "strcmp_less xs [] = False"
| "strcmp_less [] (y # ys) = True"
| "strcmp_less (x # xs) (y # ys) = (uchar x < uchar y \<or> (x = y \<and> strcmp_less xs ys))"

text \<open>The bytes of a long in memory.\<close>

definition long_bytes :: "int \<Rightarrow> char list" where
  "long_bytes i = map (\<lambda>j. char_of ((i div 256 ^ j) mod 256)) [0..<8]"

text \<open>Reading and replacing an element of the memory of an object; outside of it the C code has no meaning.\<close>

definition fetch :: "'a list \<Rightarrow> nat \<Rightarrow> 'a act" where
  "fetch b k = (if k < length b then ret (b ! k) else undef)"

definition replaced :: "'a list \<Rightarrow> nat \<Rightarrow> 'a \<Rightarrow> 'a list act" where
  "replaced b k v = (if k < length b then ret (b[k := v]) else undef)"

definition get_c_siod_string_dim :: "siod_LISP \<Rightarrow> char list act" where
  "get_c_siod_string_dim x = bindM (look x) (\<lambda>ob. case ob of
       Some (Tc_symbol p v) \<Rightarrow> ret p
     | Some (Tc_string n b) \<Rightarrow> ret (take n b)
     | Some (Tc_byte_array n b) \<Rightarrow> ret (take n b)
     | Some (Tc_long_array xs) \<Rightarrow> ret (concat (map long_bytes xs))
     | _ \<Rightarrow> errm ''not a symbol or string'' x)"

definition siod_err_wta_str :: "siod_LISP \<Rightarrow> 'a act" where
  "siod_err_wta_str exp = errm ''not a string'' exp"

definition siod_chk_string :: "siod_LISP \<Rightarrow> (char list \<times> nat) act" where
  "siod_chk_string x = bindM (look x) (\<lambda>ob. case ob of
       Some (Tc_string n b) \<Rightarrow> ret (b, n) | _ \<Rightarrow> siod_err_wta_str x)"

section \<open>Arrays\<close>

definition index_arg :: "string \<Rightarrow> string \<Rightarrow> siod_LISP \<Rightarrow> nat act" where
  "index_arg m1 m2 i = bindM (flonm m1 i) (\<lambda>d.
     if c_long d < 0 then errm m2 i else ret (nat (c_long d)))"

definition siod_aref1 :: "siod_LISP \<Rightarrow> siod_LISP \<Rightarrow> siod_LISP act" where
  "siod_aref1 a i = bindM (index_arg ''bad index to aref'' ''negative index to aref'' i) (\<lambda>k.
     bindM (look a) (\<lambda>ob. case ob of
       Some (Tc_string n b) \<Rightarrow>
         if n \<le> k then errm ''index too large'' i
         else bindM (fetch b k) (\<lambda>c. siod_flocons (of_long (uchar c)))
     | Some (Tc_byte_array n b) \<Rightarrow>
         if n \<le> k then errm ''index too large'' i
         else bindM (fetch b k) (\<lambda>c. siod_flocons (of_long (schar c)))
     | Some (Tc_double_array xs) \<Rightarrow>
         if length xs \<le> k then errm ''index too large'' i else bindM (fetch xs k) siod_flocons
     | Some (Tc_long_array xs) \<Rightarrow>
         if length xs \<le> k then errm ''index too large'' i else bindM (fetch xs k) (\<lambda>j. siod_flocons (of_long j))
     | Some (Tc_lisp_array xs) \<Rightarrow>
         if length xs \<le> k then errm ''index too large'' i else fetch xs k
     | _ \<Rightarrow> errm ''invalid argument to aref'' a))"

definition siod_err1_siod_aset1 :: "siod_LISP \<Rightarrow> 'a act" where
  "siod_err1_siod_aset1 i = errm ''index to aset too large'' i"

text \<open>The value to store, after the test that it is a number.\<close>

definition siod_err2_siod_aset1 :: "siod_LISP \<Rightarrow> double act" where
  "siod_err2_siod_aset1 v = flonm ''bad value to store in array'' v"

definition siod_aset1 :: "siod_LISP \<Rightarrow> siod_LISP \<Rightarrow> siod_LISP \<Rightarrow> siod_LISP act" where
  "siod_aset1 a i v = bindM (index_arg ''bad index to aset'' ''negative index to aset'' i) (\<lambda>k.
     bindM (look a) (\<lambda>ob. case ob of
       Some (Tc_string n b) \<Rightarrow> bindM (siod_err2_siod_aset1 v) (\<lambda>d.
         if n \<le> k then siod_err1_siod_aset1 i
         else bindM (replaced b k (c_char d)) (\<lambda>b'. bindM (store a (Tc_string n b')) (\<lambda>_. ret v)))
     | Some (Tc_byte_array n b) \<Rightarrow> bindM (siod_err2_siod_aset1 v) (\<lambda>d.
         if n \<le> k then siod_err1_siod_aset1 i
         else bindM (replaced b k (c_char d)) (\<lambda>b'. bindM (store a (Tc_byte_array n b')) (\<lambda>_. ret v)))
     | Some (Tc_double_array xs) \<Rightarrow> bindM (siod_err2_siod_aset1 v) (\<lambda>d.
         if length xs \<le> k then siod_err1_siod_aset1 i
         else bindM (replaced xs k d) (\<lambda>xs'. bindM (store a (Tc_double_array xs')) (\<lambda>_. ret v)))
     | Some (Tc_long_array xs) \<Rightarrow> bindM (siod_err2_siod_aset1 v) (\<lambda>d.
         if length xs \<le> k then siod_err1_siod_aset1 i
         else bindM (replaced xs k (c_long d)) (\<lambda>xs'. bindM (store a (Tc_long_array xs')) (\<lambda>_. ret v)))
     | Some (Tc_lisp_array xs) \<Rightarrow>
         if length xs \<le> k then siod_err1_siod_aset1 i
         else bindM (replaced xs k v) (\<lambda>xs'. bindM (store a (Tc_lisp_array xs')) (\<lambda>_. ret v))
     | _ \<Rightarrow> errm ''invalid argument to aset'' a))"

text \<open>
  Making an array of the given kind.  The C code takes the cell before it interns the names of the
  kinds and sets its type when it knows it.
\<close>

definition siod_cons_array :: "siod_LISP \<Rightarrow> siod_LISP \<Rightarrow> siod_LISP act" where
  "siod_cons_array dim kind = bindM (flonm ''bad dimension to siod_cons-array'' dim) (\<lambda>d.
     if dlt d (of_long 0) then errm ''bad dimension to siod_cons-array'' dim
     else let n = nat (c_long d) in
     bindM (siod_cintern ''double'') (\<lambda>sy.
     if sy = kind then newcell (Tc_double_array (replicate n (DZero False)))
     else bindM (siod_cintern ''long'') (\<lambda>sy.
     if sy = kind then newcell (Tc_long_array (replicate n 0))
     else bindM (siod_cintern ''string'') (\<lambda>sy.
     if sy = kind then newcell (Tc_string n (replicate n CHR '' '' @ [NUL]))
     else bindM (siod_cintern ''byte'') (\<lambda>sy.
     if sy = kind then newcell (Tc_byte_array n (replicate n NUL))
     else bindM (siod_cintern ''lisp'') (\<lambda>sy.
     if sy = kind \<or> kind = NIL then newcell (Tc_lisp_array (replicate n NIL))
     else errm ''bad type of array'' kind))))))"

section \<open>Strings\<close>

text \<open>The strings of a list of arguments, in one buffer.\<close>

definition collect_strings :: "(siod_LISP \<Rightarrow> char list act) \<Rightarrow> siod_LISP \<Rightarrow> char list act" where
  "collect_strings get args = bindM (gets bound) (\<lambda>k.
     for_list k (\<lambda>l acc. bindM (siod_car l) (\<lambda>x. bindM (get x) (\<lambda>st. ret (acc @ st)))) [] args)"

definition siod_string_append :: "siod_LISP \<Rightarrow> siod_LISP act" where
  "siod_string_append args = bindM (collect_strings get_c_string args) siod_strcons"

definition siod_bytes_append :: "siod_LISP \<Rightarrow> siod_LISP act" where
  "siod_bytes_append args = bindM (collect_strings get_c_siod_string_dim args) (\<lambda>data.
     newcell (Tc_byte_array (length data) data))"

definition siod_substring :: "siod_LISP \<Rightarrow> siod_LISP \<Rightarrow> siod_LISP \<Rightarrow> siod_LISP act" where
  "siod_substring str start end = bindM (get_c_siod_string_dim str) (\<lambda>data.
     bindM (siod_get_c_long start) (\<lambda>s.
     bindM (if end = NIL then ret (int (length data)) else siod_get_c_long end) (\<lambda>e.
     if s < 0 \<or> e < s then errm ''bad start index'' start
     else if e < 0 \<or> int (length data) < e then errm ''bad end index'' end
     else siod_strcons (take (nat (e - s)) (drop (nat s) data)))))"

definition siod_string_search :: "siod_LISP \<Rightarrow> siod_LISP \<Rightarrow> siod_LISP act" where
  "siod_string_search token str = bindM (get_c_string str) (\<lambda>s1. bindM (get_c_string token) (\<lambda>s2.
     case strstr s1 s2 of Some i \<Rightarrow> siod_flocons (of_long (int i)) | None \<Rightarrow> ret NIL))"

definition IS_TRIM_SPACE :: "char \<Rightarrow> bool" where
  "IS_TRIM_SPACE c = (c \<in> set [CHR '' '', CHR 0x09, CHR 0x0D, CHR 0x0A, NUL])"

definition trim_left :: "char list \<Rightarrow> char list" where
  "trim_left = dropWhile IS_TRIM_SPACE"

definition trim_right :: "char list \<Rightarrow> char list" where
  "trim_right st = rev (dropWhile IS_TRIM_SPACE (rev st))"

definition siod_string_trim :: "siod_LISP \<Rightarrow> siod_LISP act" where
  "siod_string_trim str = bindM (get_c_string str) (\<lambda>st. siod_strcons (trim_right (trim_left st)))"

definition siod_string_trim_left :: "siod_LISP \<Rightarrow> siod_LISP act" where
  "siod_string_trim_left str = bindM (get_c_string str) (\<lambda>st. siod_strcons (trim_left st))"

definition siod_string_trim_right :: "siod_LISP \<Rightarrow> siod_LISP act" where
  "siod_string_trim_right str = bindM (get_c_string str) (\<lambda>st. siod_strcons (trim_right st))"

definition siod_string_upcase :: "siod_LISP \<Rightarrow> siod_LISP act" where
  "siod_string_upcase str = bindM (get_c_string str) (\<lambda>st. siod_strcons (map c_toupper st))"

definition siod_string_downcase :: "siod_LISP \<Rightarrow> siod_LISP act" where
  "siod_string_downcase str = bindM (get_c_string str) (\<lambda>st. siod_strcons (map c_tolower st))"

definition siod_string_length :: "siod_LISP \<Rightarrow> siod_LISP act" where
  "siod_string_length x = bindM (look x) (\<lambda>ob. case ob of
       Some (Tc_string n b) \<Rightarrow> siod_flocons (of_long (int (length (cstr b)))) | _ \<Rightarrow> siod_err_wta_str x)"

definition siod_string_dim :: "siod_LISP \<Rightarrow> siod_LISP act" where
  "siod_string_dim x = bindM (look x) (\<lambda>ob. case ob of
       Some (Tc_string n b) \<Rightarrow> siod_flocons (of_long (int n)) | _ \<Rightarrow> siod_err_wta_str x)"

definition siod_string_lessp :: "siod_LISP \<Rightarrow> siod_LISP \<Rightarrow> siod_LISP act" where
  "siod_string_lessp s1 s2 = bindM (get_c_string s1) (\<lambda>x. bindM (get_c_string s2) (\<lambda>y.
     if strcmp_less x y then gets sym_t else ret NIL))"

definition siod_lstrspn :: "siod_LISP \<Rightarrow> siod_LISP \<Rightarrow> siod_LISP act" where
  "siod_lstrspn s1 s2 = bindM (get_c_string s1) (\<lambda>x. bindM (get_c_string s2) (\<lambda>y.
     siod_flocons (of_long (int (length (takeWhile (\<lambda>c. c \<in> set y) x))))))"

definition siod_lstrcspn :: "siod_LISP \<Rightarrow> siod_LISP \<Rightarrow> siod_LISP act" where
  "siod_lstrcspn s1 s2 = bindM (get_c_string s1) (\<lambda>x. bindM (get_c_string s2) (\<lambda>y.
     siod_flocons (of_long (int (length (takeWhile (\<lambda>c. c \<notin> set y) x))))))"

text \<open>Writing a C string with its final NUL into a buffer at an offset.\<close>

definition put_cstr :: "char list \<Rightarrow> nat \<Rightarrow> char list \<Rightarrow> char list option" where
  "put_cstr d at st = (if at + length st < length d
     then Some (take at d @ st @ [NUL] @ drop (Suc (at + length st)) d) else None)"

definition put_into :: "siod_LISP \<Rightarrow> nat \<Rightarrow> char list \<Rightarrow> nat \<Rightarrow> char list \<Rightarrow> siod_LISP act" where
  "put_into dest n d at st = (case put_cstr d at st of
       None \<Rightarrow> undef | Some d' \<Rightarrow> bindM (store dest (Tc_string n d')) (\<lambda>_. ret NIL))"

definition siod_lstrcpy :: "siod_LISP \<Rightarrow> siod_LISP \<Rightarrow> siod_LISP act" where
  "siod_lstrcpy dest src = bindM (siod_chk_string dest) (\<lambda>(d, ddim). bindM (get_c_string src) (\<lambda>st.
     if ddim < length st then errm ''string too long'' src else put_into dest ddim d 0 st))"

definition siod_lstrcat :: "siod_LISP \<Rightarrow> siod_LISP \<Rightarrow> siod_LISP act" where
  "siod_lstrcat dest src = bindM (siod_chk_string dest) (\<lambda>(d, ddim). bindM (get_c_string src) (\<lambda>st.
     let dlen = length (cstr d) in
     if ddim < length st + dlen then errm ''string too long'' src else put_into dest ddim d dlen st))"

text \<open>
  Breaking a string at a marker.  An empty marker is found at once everywhere, so the loop conses
  empty strings until the store is full.
\<close>

definition piece :: "char list \<Rightarrow> char list \<Rightarrow> char list \<times> char list" where
  "piece mk start = (let e = (case strstr start mk of Some i \<Rightarrow> i | None \<Rightarrow> length start)
     in (take e start, if drop e start = [] then [] else drop (length mk) (drop e start)))"

fun breakup_loop :: "nat \<Rightarrow> char list \<Rightarrow> char list \<Rightarrow> siod_LISP \<Rightarrow> siod_LISP act" where
  "breakup_loop 0 mk start result = nofuel"
| "breakup_loop (Suc k) mk start result =
     (if start = [] then ret result
      else bindM (siod_strcons (fst (piece mk start))) (\<lambda>st. bindM (siod_cons st result)
             (breakup_loop k mk (snd (piece mk start)))))"

definition siod_lstrbreakup :: "siod_LISP \<Rightarrow> siod_LISP \<Rightarrow> siod_LISP act" where
  "siod_lstrbreakup str lmarker = bindM (get_c_string str) (\<lambda>start. bindM (get_c_string lmarker) (\<lambda>mk.
     bindM (gets bound) (\<lambda>k. bindM (breakup_loop (k + length start) mk start NIL) siod_nreverse)))"

definition siod_lstrunbreakup :: "siod_LISP \<Rightarrow> siod_LISP \<Rightarrow> siod_LISP act" where
  "siod_lstrunbreakup elems lmarker = bindM (gets bound) (\<lambda>k.
     bindM (for_list k (\<lambda>l result.
         if l = elems then bindM (siod_car l) (\<lambda>x. siod_cons x result)
         else bindM (siod_car l) (\<lambda>x. bindM (siod_cons lmarker result) (siod_cons x))) NIL elems)
     (\<lambda>result. bindM (siod_nreverse result) siod_string_append))"

definition substring_args :: "siod_LISP \<Rightarrow> siod_LISP \<Rightarrow> siod_LISP \<Rightarrow> siod_LISP \<Rightarrow>
    (char list \<times> char list) option act" where
  "substring_args str1 str2 start end = bindM (get_c_siod_string_dim str1) (\<lambda>s1.
     bindM (get_c_siod_string_dim str2) (\<lambda>s2.
     bindM (if start = NIL then ret 0 else siod_get_c_long start) (\<lambda>s.
     bindM (if end = NIL then ret (int (length s1)) else siod_get_c_long end) (\<lambda>e.
     if s < 0 \<or> e < s \<or> e < 0 \<or> int (length s2) < e \<or> e - s \<noteq> int (length s1) then ret None
     else ret (Some (s1, take (nat (e - s)) (drop (nat s) s2)))))))"

definition siod_substring_equal :: "siod_LISP \<Rightarrow> siod_LISP \<Rightarrow> siod_LISP \<Rightarrow> siod_LISP \<Rightarrow> siod_LISP act" where
  "siod_substring_equal str1 str2 start end = bindM (substring_args str1 str2 start end) (\<lambda>r. case r of
       Some (x, y) \<Rightarrow> if x = y then gets sym_t else ret NIL | None \<Rightarrow> ret NIL)"

text \<open>strncasecmp compares up to the first NUL of both strings.\<close>

definition siod_substring_equalcase :: "siod_LISP \<Rightarrow> siod_LISP \<Rightarrow> siod_LISP \<Rightarrow> siod_LISP \<Rightarrow> siod_LISP act" where
  "siod_substring_equalcase str1 str2 start end = bindM (substring_args str1 str2 start end) (\<lambda>r. case r of
       Some (x, y) \<Rightarrow> if map c_tolower (cstr x) = map c_tolower (cstr y) then gets sym_t else ret NIL
     | None \<Rightarrow> ret NIL)"

section \<open>They keep the invariant\<close>

lemma ok_get_c_siod_string_dim [sound_rules]: "okU s (get_c_siod_string_dim x)"
  unfolding get_c_siod_string_dim_def
  by (rule okM_look) (auto split: option.split obj.split intro!: sound_rules)

lemma ok_chk_string [sound_rules]: "okU s (siod_chk_string x)"
  unfolding siod_chk_string_def siod_err_wta_str_def
  by (rule okM_look) (auto split: option.split obj.split intro!: sound_rules)

lemma ok_index_arg [sound_rules]: "ref_ok s i \<Longrightarrow> okU s (index_arg m1 m2 i)"
  unfolding index_arg_def by (intro act_intros sound_rules) (auto intro: ref_ok_later)

lemma ok_fetch [sound_rules]: "okU s (fetch b k)"
  unfolding fetch_def by (intro sound_rules) simp_all

lemma ok_fetch_ref: "list_all (ref_ok s) xs \<Longrightarrow> okR s (fetch xs k)"
  unfolding fetch_def by (auto simp: list_all_length intro!: okM_ret okM_stop)

lemma replaced_bind: "bindM (replaced b k v) g = (if k < length b then g (b[k := v]) else undef)"
  by (auto simp: replaced_def bindM_def ret_def undef_def fun_eq_iff)

lemma ok_aref1 [sound_rules]: "ref_ok s i \<Longrightarrow> ref_ok s a \<Longrightarrow> okR s (siod_aref1 a i)"
  unfolding siod_aref1_def
  by (rule okU_bind [OF ok_index_arg], assumption, rule okM_look)
    (auto split: option.split obj.split intro!: okM_if okM_err ok_fetch_ref okU_bind [OF ok_fetch] ok_flocons
      intro: ref_ok_later)

lemma okM_flonm_same: "ref_ok s x \<Longrightarrow> okM s (flonm m x) (\<lambda>_ s'. s' = s)"
  unfolding flonm_def
  by (rule okM_look) (auto split: option.split obj.split intro!: okM_ret okM_err)

lemma okR_store_then:
  assumes "obj_at s a = Some ob0" "shape ob = shape ob0" "list_all (ref_ok s) (obj_refs ob)" "ref_ok s v"
  shows "okR s (bindM (store a ob) (\<lambda>_. ret v))"
  by (rule okM_bind [OF okM_store [OF assms(1-3), where Q = "\<lambda>_ s'. True"]])
    (use assms(4) in \<open>auto intro: ref_ok_later okM_ret\<close>)

lemma list_all_update: "list_all P xs \<Longrightarrow> P v \<Longrightarrow> list_all P (xs[k := v])"
  by (auto simp: list_all_iff dest!: set_update_subset_insert [THEN subsetD])

lemma ok_with_number:
  assumes "ref_ok s v" "\<And>d. okR s (g d)" shows "okR s (bindM (siod_err2_siod_aset1 v) g)"
  unfolding siod_err2_siod_aset1_def using assms(2) by (auto intro: okM_bind [OF okM_flonm_same [OF assms(1)]])

lemma ok_err1: "ref_ok s i \<Longrightarrow> okR s (siod_err1_siod_aset1 i)"
  unfolding siod_err1_siod_aset1_def by (rule okM_err)

lemma ok_aset1 [sound_rules]: "ref_ok s a \<Longrightarrow> ref_ok s i \<Longrightarrow> ref_ok s v \<Longrightarrow> okR s (siod_aset1 a i v)"
  unfolding siod_aset1_def replaced_bind
  by (rule okU_bind [OF ok_index_arg], assumption, rule okM_look)
    (auto split: option.split obj.split intro!: ok_with_number okM_if okM_err ok_err1 okM_stop okR_store_then
      list_all_update intro: ref_ok_later)

lemma ok_cons_array [sound_rules]: "ref_ok s dim \<Longrightarrow> ref_ok s kind \<Longrightarrow> okR s (siod_cons_array dim kind)"
  unfolding siod_cons_array_def Let_def
  by (rule okU_bind [OF ok_flonm])
    (auto intro!: okM_if okM_err okR_bind [OF ok_interns(1)] okR_newcell simp: list_all_length; meson ref_ok_later)

lemma ok_collect_strings:
  assumes "\<And>s x. ref_ok s x \<Longrightarrow> okU s (get x)" "ref_ok s args" shows "okU s (collect_strings get args)"
  unfolding collect_strings_def
  by (intro okM_bind_gets ok_for_list [where P = "\<lambda>_ _. True"] okR_bind [OF ok_car] okU_bind [OF assms(1)] okM_ret)
    (simp_all add: assms(2))

lemma ok_string_append [sound_rules]: "ref_ok s l \<Longrightarrow> okR s (siod_string_append l)"
  unfolding siod_string_append_def
  by (intro okU_bind [OF ok_collect_strings] ok_get_c_string ok_strcons)

lemma ok_bytes_append [sound_rules]: "ref_ok s l \<Longrightarrow> okR s (siod_bytes_append l)"
  unfolding siod_bytes_append_def
  by (intro okU_bind [OF ok_collect_strings] ok_get_c_siod_string_dim okR_newcell) simp_all

lemma ok_substring [sound_rules]:
  assumes "ref_ok s str" "ref_ok s start" "ref_ok s end" shows "okR s (siod_substring str start end)"
  unfolding siod_substring_def
  by (intro okU_bind [OF ok_get_c_siod_string_dim] okU_bind [OF ok_get_c_long] okU_bind okM_if okM_ret
      ok_get_c_long okM_err ok_strcons; (rule TrueI | (meson assms ref_ok_later)))

lemma ok_string_ops [sound_rules]:
  "okR s (siod_string_search x y)" "okR s (siod_string_trim x)" "okR s (siod_string_trim_left x)"
  "okR s (siod_string_trim_right x)" "okR s (siod_string_upcase x)" "okR s (siod_string_downcase x)"
  "okR s (siod_string_lessp x y)" "okR s (siod_lstrspn x y)" "okR s (siod_lstrcspn x y)"
  unfolding siod_string_search_def siod_string_trim_def siod_string_trim_left_def siod_string_trim_right_def
    siod_string_upcase_def siod_string_downcase_def siod_string_lessp_def siod_lstrspn_def siod_lstrcspn_def
  by (intro okU_bind [OF ok_get_c_string] okM_if okM_gets okM_ret ok_strcons ok_flocons;
      (auto split: option.split intro!: okM_ret ok_flocons intro: wf_global_refs)?)+

lemma ok_wta_str: "ref_ok s x \<Longrightarrow> okM s (siod_err_wta_str x) Q"
  unfolding siod_err_wta_str_def by (rule okM_err)

lemma ok_string_sizes [sound_rules]: "okR s (siod_string_length x)" "okR s (siod_string_dim x)"
  unfolding siod_string_length_def siod_string_dim_def
  by (rule okM_look; auto split: option.split obj.split intro!: ok_wta_str ok_flocons)+

lemma okM_err_bind: "ref_ok s x \<Longrightarrow> okM s (bindM (err m x) f) Q"
  by (rule okM_bind [OF okM_err [where Q = "\<lambda>_ _. False"]]) simp_all

lemma okM_chk_string:
  assumes "ref_ok s x" "\<And>n d. obj_at s x = Some (Tc_string n d) \<Longrightarrow> okM s (f (d, n)) Q"
  shows "okM s (bindM (siod_chk_string x) f) Q"
  unfolding siod_chk_string_def siod_err_wta_str_def bindM_assoc
  by (rule okM_look) (auto split: option.split obj.split intro!: okM_err_bind assms)

lemma okM_get_c_string_same: "okM s (get_c_string x) (\<lambda>_ s'. s' = s)"
  unfolding get_c_string_def
  by (rule okM_look) (auto split: option.split obj.split intro!: okM_ret okM_err)

lemma ok_put_into: "obj_at s x = Some (Tc_string n d) \<Longrightarrow> okR s (put_into x n d at st)"
  unfolding put_into_def
  by (auto split: option.split intro!: okM_stop okR_store_then)

lemma ok_strcpy [sound_rules]: "ref_ok s x \<Longrightarrow> ref_ok s y \<Longrightarrow> okR s (siod_lstrcpy x y)"
  unfolding siod_lstrcpy_def
  by (rule okM_chk_string) (auto intro!: okM_bind [OF okM_get_c_string_same] okM_err ok_put_into)

lemma ok_strcat [sound_rules]: "ref_ok s x \<Longrightarrow> ref_ok s y \<Longrightarrow> okR s (siod_lstrcat x y)"
  unfolding siod_lstrcat_def Let_def
  by (rule okM_chk_string) (auto intro!: okM_bind [OF okM_get_c_string_same] okM_err ok_put_into)

text \<open>A pointer that was valid before an operation is valid after it.\<close>

lemma okM_frame: "okM s m Q \<Longrightarrow> ref_ok s y \<Longrightarrow> okM s m (\<lambda>v s'. Q v s' \<and> ref_ok s' y)"
  by (auto simp: okM_def split: prod.splits outcome.splits intro: ref_ok_later)

lemma ok_breakup_loop: "ref_ok s r \<Longrightarrow> okR s (breakup_loop k mk start r)"
proof (induction k arbitrary: s start r)
  case (Suc k)
  then show ?case
    by (auto intro!: okM_ret okR_bind [OF ok_strcons] okR_bind [OF ok_cons] Suc.IH intro: ref_ok_later)
qed (simp add: sound_rules)

lemma ok_strbreakup [sound_rules]: "okR s (siod_lstrbreakup x y)"
  unfolding siod_lstrbreakup_def
  by (intro okU_bind [OF ok_get_c_string] okM_bind_gets okR_bind [OF ok_breakup_loop] ok_nreverse) simp_all

lemma ok_strunbreakup [sound_rules]:
  assumes "ref_ok s x" "ref_ok s y" shows "okR s (siod_lstrunbreakup x y)"
proof -
  have step: "okR s1 (if l = x then bindM (siod_car l) (\<lambda>a. siod_cons a acc)
         else bindM (siod_car l) (\<lambda>a. bindM (siod_cons y acc) (siod_cons a)))"
    if "ref_ok s1 l" "ref_ok s1 acc \<and> ref_ok s1 y" for s1 l acc
    using that by (auto intro!: okR_bind [OF ok_car] okR_bind [OF ok_cons] ok_cons; meson ref_ok_later)
  have "okM s1 (if l = x then bindM (siod_car l) (\<lambda>a. siod_cons a acc)
         else bindM (siod_car l) (\<lambda>a. bindM (siod_cons y acc) (siod_cons a))) (\<lambda>v s. ref_ok s v \<and> ref_ok s y)"
    if "ref_ok s1 l" "ref_ok s1 acc \<and> ref_ok s1 y" for s1 l acc
    by (rule okM_frame [OF step]) (use that in simp_all)
  then show ?thesis
    unfolding siod_lstrunbreakup_def
    by - (rule okM_bind_gets, rule okM_bind [OF okM_weaken [OF ok_for_list [where P = "\<lambda>acc s. ref_ok s acc \<and> ref_ok s y"]]];
      (auto intro!: okR_bind [OF ok_nreverse] ok_string_append assms intro: ref_ok_later)?)
qed

lemma ok_substring_args: "ref_ok s a \<Longrightarrow> ref_ok s b \<Longrightarrow> okU s (substring_args a b start end)"
  unfolding substring_args_def
  by (intro okU_bind [OF ok_get_c_siod_string_dim] okU_bind okM_if okM_ret ok_get_c_long TrueI)

lemma ok_substring_equal [sound_rules]:
  "ref_ok s a \<Longrightarrow> ref_ok s b \<Longrightarrow> okR s (siod_substring_equal a b start end)"
  "ref_ok s a \<Longrightarrow> ref_ok s b \<Longrightarrow> okR s (siod_substring_equalcase a b start end)"
  unfolding siod_substring_equal_def siod_substring_equalcase_def
  by (rule okU_bind [OF ok_substring_args]; auto split: option.split intro!: okM_if okM_gets okM_ret intro: wf_global_refs)+

end
