(* ===== verification/Array_Theorems.thy ===== *)
theory Array_Theorems
  imports Arrays List_Theorems "HOL-Library.Sublist"
begin

text \<open>
  What the operations on strings and arrays compute, their bounds, and that no write leaves its buffer.
\<close>

section \<open>Reading and writing elements\<close>

lemma flonm_run: "obj_at s x = Some (Tc_flonum d) \<Longrightarrow> flonm m x s = (Ret d, s)"
  by (simp add: flonm_def bind_run obj_at_look)

lemma index_arg_run:
  "obj_at s i = Some (Tc_flonum (of_long (int k))) \<Longrightarrow> k < 2 ^ 53 \<Longrightarrow> index_arg m1 m2 i s = (Ret k, s)"
  by (simp add: index_arg_def bind_run flonm_run c_long_of_long)

text \<open>
  Storing in a Lisp array at an index below its length changes that element alone, and reading it
  back gives the stored value; at an index behind the end both report the index and nothing is stored.
\<close>

theorem aset_aref:
  assumes "obj_at s a = Some (Tc_lisp_array xs)" "obj_at s i = Some (Tc_flonum (of_long (int k)))" "k < 2 ^ 53"
  shows "(k < length xs \<longrightarrow> (\<exists>s'. siod_aset1 a i v s = (Ret v, s') \<and>
      obj_at s' a = Some (Tc_lisp_array (xs[k := v])) \<and> (\<forall>r. r \<noteq> a \<longrightarrow> obj_at s' r = obj_at s r) \<and>
      siod_aref1 a i s' = (Ret v, s'))) \<and>
    (length xs \<le> k \<longrightarrow> siod_aset1 a i v s = errm ''index to aset too large'' i s \<and>
      siod_aref1 a i s = errm ''index too large'' i s)"
proof (intro conjI impI)
  obtain c where a: "a = Ref c" "c < length (cells s)" "cells s ! c = Tc_lisp_array xs"
    using assms(1) by (auto simp: obj_at_def split: siod_LISP.splits if_splits)
  show "\<exists>s'. siod_aset1 a i v s = (Ret v, s') \<and>
      obj_at s' a = Some (Tc_lisp_array (xs[k := v])) \<and> (\<forall>r. r \<noteq> a \<longrightarrow> obj_at s' r = obj_at s r) \<and>
      siod_aref1 a i s' = (Ret v, s')" if k: "k < length xs"
  proof -
    let ?s = "set_cell c (Tc_lisp_array (xs[k := v])) s"
    have "i \<noteq> a" using assms(1,2) by auto
    then have other: "obj_at ?s r = obj_at s r" if "r \<noteq> a" for r
      using that a by (auto simp: obj_at_def set_cell_def nth_list_update split: siod_LISP.split)
    have 1: "obj_at ?s a = Some (Tc_lisp_array (xs[k := v]))" using a by (simp add: obj_at_def)
    have "siod_aset1 a i v s = (Ret v, ?s)"
      using k a by (simp add: siod_aset1_def replaced_bind bind_run index_arg_run [OF assms(2,3)] obj_at_look [OF assms(1)] store_def)
    moreover have "siod_aref1 a i ?s = (Ret v, ?s)"
      using k 1 other [OF \<open>i \<noteq> a\<close>] assms(2,3) by (simp add: siod_aref1_def fetch_def bind_run index_arg_run obj_at_look)
    ultimately show ?thesis using 1 other by blast
  qed
  show "siod_aset1 a i v s = errm ''index to aset too large'' i s" "siod_aref1 a i s = errm ''index too large'' i s"
    if "length xs \<le> k"
    using that by (simp_all add: siod_aset1_def siod_aref1_def siod_err1_siod_aset1_def bind_run
        index_arg_run [OF assms(2,3)] obj_at_look [OF assms(1)])
qed

text \<open>An array of two, the number 1, and the list of the strings a,b, and a comma.\<close>

definition arrays_example :: siod where
  "arrays_example = small_state [Tc_lisp_array [NIL, NIL], Tc_flonum (of_long 1), string_cell ''a,b,'',
     string_cell '','', Tc_cons (Ref 3) (Ref 6), Tc_cons (Ref 4) NIL, Tc_flonum (of_long 3)]"

lemma arrays_example_at:
  "obj_at arrays_example (Ref 1) = Some (Tc_lisp_array [NIL, NIL])"
  "obj_at arrays_example (Ref 2) = Some (Tc_flonum (of_long 1))"
  "obj_at arrays_example (Ref 3) = Some (string_cell ''a,b,'')"
  "obj_at arrays_example (Ref 4) = Some (string_cell '','')"
  "obj_at arrays_example (Ref 7) = Some (Tc_flonum (of_long 3))"
  "list_on arrays_example (Ref 5) [5, 6] [Ref 3, Ref 4]"
  "n \<le> 32 \<Longrightarrow> room n arrays_example"
  by (simp_all add: arrays_example_def small_state_def obj_at_def room_def)

theorem aset_aref_witness:
  "\<exists>s'. siod_aset1 (Ref 1) (Ref 2) (Ref 0) arrays_example = (Ret (Ref 0), s') \<and>
     obj_at s' (Ref 1) = Some (Tc_lisp_array [NIL, Ref 0])"
  using aset_aref [OF arrays_example_at(1), of "Ref 2" 1 "Ref 0"] arrays_example_at(2) by auto

section \<open>Substrings and concatenation\<close>

lemma c_string_run: "c_string_of s x = Some st \<Longrightarrow> get_c_string x s = (Ret st, s)"
  by (auto simp: c_string_of_def get_c_string_def bind_run obj_at_look split: option.splits obj.splits)

lemma string_cell_string: "NUL \<notin> set st \<Longrightarrow> obj_at s x = Some (string_cell st) \<Longrightarrow> c_string_of s x = Some st"
  by (simp add: c_string_of_def string_cell_def cstr_terminated)

text \<open>
  C27. substring of a string of n characters with a start and an end makes a new string of the
  characters from start up to but not including end when 0 \<le> start \<le> end \<le> n, and otherwise
  reports the start or the end.
\<close>

theorem substring_slices:
  assumes "obj_at s str = Some (string_cell st)" "obj_at s x = Some (Tc_flonum (of_long i))"
    "obj_at s y = Some (Tc_flonum (of_long j))" "\<bar>i\<bar> < 2 ^ 53" "\<bar>j\<bar> < 2 ^ 53" "room 1 s"
  shows "siod_substring str x y s =
    (if i < 0 \<or> j < i then errm ''bad start index'' x s
     else if int (length st) < j then errm ''bad end index'' y s
     else (Ret (Ref (length (cells s))), grow [string_cell (take (nat (j - i)) (drop (nat i) st))] s))"
proof -
  have "get_c_siod_string_dim str s = (Ret st, s)"
    by (simp add: get_c_siod_string_dim_def bind_run obj_at_look [OF assms(1)] string_cell_def)
  moreover have "siod_get_c_long x s = (Ret i, s)" "siod_get_c_long y s = (Ret j, s)"
    using assms by (simp_all add: siod_get_c_long_def bind_run flonm_run c_long_of_long)
  moreover have "y \<noteq> NIL" using assms(3) by (auto simp: obj_at_def)
  ultimately show ?thesis
    using newcell_run [of 0 s] assms(6) by (auto simp: siod_substring_def bind_run siod_strcons_def)
qed

theorem substring_slices_witness:
  "siod_substring (Ref 3) (Ref 2) (Ref 7) arrays_example = (Ret (Ref 8), grow [string_cell '',b''] arrays_example)"
proof -
  have "length (cells arrays_example) = 8" by (simp add: arrays_example_def small_state_def)
  then show ?thesis
    using substring_slices [OF arrays_example_at(3,2,5)] arrays_example_at(7) [of 1] by simp
qed

lemma collect_run:
  assumes "\<And>x st s'. G s' x st \<Longrightarrow> get x s' = (Ret st, s')"
  shows "list_on s l as xs \<Longrightarrow> list_all2 (G s) xs sts \<Longrightarrow> length as < k \<Longrightarrow>
    for_list k (\<lambda>l acc. bindM (siod_car l) (\<lambda>x. bindM (get x) (\<lambda>st. ret (acc @ st)))) acc l s
      = (Ret (acc @ concat sts), s)"
proof (induction as arbitrary: l xs sts k acc)
  case Nil
  then show ?case by (cases k) auto
next
  case (Cons a as)
  then obtain x ys d k' where 1: "xs = x # ys" "l = Ref a" "a < length (cells s)" "cells s ! a = Tc_cons x d"
    "list_on s d as ys" "k = Suc k'" "length as < k'"
    by (cases k) (auto simp: list_seg_Cons)
  with Cons.prems(2) obtain st sts' where 2: "sts = st # sts'" "get x s = (Ret st, s)" "list_all2 (G s) ys sts'"
    using assms by (auto simp: list_all2_Cons1)
  show ?case
    using Cons.IH [OF 1(5) 2(3) 1(7), of "acc @ st"] by (simp add: 1 2 bind_run cons_cell_run [OF 1(3,4)])
qed

lemma string_append_run:
  assumes "list_on s l as xs" "list_all2 (\<lambda>x st. c_string_of s x = Some st) xs sts" "room 1 s"
  shows "siod_string_append l s = (Ret (Ref (length (cells s))), grow [string_cell (concat sts)] s)"
  using collect_run [of "\<lambda>s x st. c_string_of s x = Some st" get_c_string, OF c_string_run assms(1,2) list_on_bound [OF assms(1)]]
    newcell_run [of 0 s] assms(3)
  by (simp add: siod_string_append_def collect_strings_def bind_run siod_strcons_def)

text \<open>
  C28. string-append of a list of strings and symbols makes one new string, their concatenation.
\<close>

theorem string_append_concatenates:
  assumes "list_on s l as xs" "list_all2 (\<lambda>x st. c_string_of s x = Some st) xs sts" "room 1 s"
  shows "siod_string_append l s = (Ret (Ref (length (cells s))), grow [string_cell (concat sts)] s)"
  using assms by (rule string_append_run)

theorem string_append_concatenates_witness:
  "siod_string_append (Ref 5) arrays_example = (Ret (Ref 8), grow [string_cell ''a,b,,''] arrays_example)"
proof -
  have "length (cells arrays_example) = 8" by (simp add: arrays_example_def small_state_def)
  moreover have "c_string_of arrays_example (Ref 3) = Some ''a,b,''" "c_string_of arrays_example (Ref 4) = Some '',''"
    using arrays_example_at(3,4) by (auto intro!: string_cell_string)
  ultimately show ?thesis
    using string_append_concatenates [OF arrays_example_at(6), of "[''a,b,'', '','']"] arrays_example_at(7) [of 1] by simp
qed

section \<open>Breaking strings\<close>

lemma strstr_split: "strstr st mk = Some i \<Longrightarrow> take i st @ mk @ drop (i + length mk) st = st"
proof (induction st arbitrary: i)
  case (Cons c cs)
  show ?case
  proof (cases "take (length mk) (c # cs) = mk")
    case True
    with Cons.prems have "i = 0" by simp
    then show ?thesis using True append_take_drop_id [of "length mk" "c # cs"] by simp
  next
    case False
    with Cons.prems obtain j where "strstr cs mk = Some j" "i = Suc j" by auto
    with Cons.IH show ?thesis by simp
  qed
qed (auto split: if_splits)

lemma strstr_None: "strstr st mk = None \<Longrightarrow> \<not> sublist mk st"
  by (induction st) (auto simp: sublist_Cons_right prefix_def split: if_splits)

lemma strstr_first: "strstr st mk = Some i \<Longrightarrow> mk \<noteq> [] \<Longrightarrow> \<not> sublist mk (take i st @ butlast mk)"
proof (induction st arbitrary: i)
  case Nil
  then show ?case by simp
next
  case (Cons c cs)
  have "length (butlast mk) < length mk" using Cons.prems(2) by simp
  then have long: "\<not> sublist mk (butlast mk)" using sublist_length_le leD by blast
  show ?case
  proof (cases "take (length mk) (c # cs) = mk")
    case True
    then show ?thesis using Cons.prems(1) long by simp
  next
    case False
    then obtain j where j: "strstr cs mk = Some j" "i = Suc j" using Cons.prems(1) by auto
    have cs: "take j cs @ mk @ drop (j + length mk) cs = cs" using j(1) by (rule strstr_split)
    have "\<not> prefix mk (c # take j cs @ butlast mk)"
    proof
      assume p: "prefix mk (c # take j cs @ butlast mk)"
      have "prefix (c # take j cs @ butlast mk) (c # take j cs @ mk)" by (simp add: prefixeq_butlast)
      also have "prefix \<dots> (c # cs)" using cs by (metis append.assoc append_Cons prefixI)
      finally show False using p False by (metis append_eq_conv_conj prefix_def prefix_order.trans)
    qed
    then show ?thesis using Cons.IH [OF j(1) Cons.prems(2)] j(2) by (simp add: sublist_Cons_right)
  qed
qed

lemma piece_shorter: "st \<noteq> [] \<Longrightarrow> mk \<noteq> [] \<Longrightarrow> length (snd (piece mk st)) < length st"
  by (cases st; cases mk) (auto simp: piece_def Let_def split: option.split)

text \<open>The pieces of a string between the markers, when the marker is not empty.\<close>

function pieces :: "char list \<Rightarrow> char list \<Rightarrow> char list list" where
  "pieces mk st = (if st = [] \<or> mk = [] then []
     else fst (piece mk st) # pieces mk (snd (piece mk st)))"
  by pat_completeness auto
termination by (relation "measure (\<lambda>(mk, st). length st)") (auto simp: piece_shorter)

declare pieces.simps [simp del]

fun join :: "char list \<Rightarrow> char list list \<Rightarrow> char list" where
  "join mk [] = []"
| "join mk [x] = x"
| "join mk (x # y # zs) = x @ mk @ join mk (y # zs)"

text \<open>
  The pieces ps of a string between the markers, without reference to how they are found: no marker starts in a piece
  that a marker follows, and the pieces with markers between them are the string, with a last piece that is not empty, or
  the string without the marker at its end.
\<close>

definition splits :: "char list \<Rightarrow> char list \<Rightarrow> char list list \<Rightarrow> bool" where
  "splits mk st ps = ((\<forall>p\<in>set (butlast ps). \<not> sublist mk (p @ butlast mk)) \<and>
     (if ps = [] then st = []
      else st = join mk ps \<and> last ps \<noteq> [] \<and> \<not> sublist mk (last ps) \<or>
           st = join mk ps @ mk \<and> \<not> sublist mk (last ps @ butlast mk)))"

lemma pieces_split: "mk \<noteq> [] \<Longrightarrow> splits mk st (pieces mk st) \<and> length (pieces mk st) \<le> length st div length mk + 1"
proof (induction mk st rule: pieces.induct)
  case (1 mk st)
  show ?case
  proof (cases "st = []")
    case True
    then show ?thesis by (simp add: pieces.simps [of mk] splits_def)
  next
    case False
    let ?p = "piece mk st"
    have ps: "pieces mk st = fst ?p # pieces mk (snd ?p)" using False "1.prems" by (subst pieces.simps) simp
    have IH: "splits mk (snd ?p) (pieces mk (snd ?p))" "length (pieces mk (snd ?p)) \<le> length (snd ?p) div length mk + 1"
      using "1.IH" [OF _ "1.prems"] False "1.prems" by auto
    show ?thesis
    proof (cases "strstr st mk")
      case None
      then have "?p = (st, [])" by (simp add: piece_def)
      then show ?thesis using ps False strstr_None [OF None] by (simp add: pieces.simps [of mk "[]"] splits_def)
    next
      case (Some i)
      note first = strstr_first [OF Some "1.prems"]
      have st: "take i st @ mk @ drop (i + length mk) st = st" using Some by (rule strstr_split)
      then have "drop i st \<noteq> []" using "1.prems" by (metis append_Nil2 append_is_Nil_conv append_take_drop_id same_append_eq)
      then have p: "?p = (take i st, drop (i + length mk) st)" using Some by (simp add: piece_def add.commute)
      have "length st = length (take i st) + length mk + length (snd ?p)" using arg_cong [OF st, of length] p by simp
      then have "length (snd ?p) div length mk + 1 \<le> length st div length mk"
        using div_le_mono [of "length (snd ?p) + length mk" "length st" "length mk"] "1.prems" by (simp add: div_add_self2)
      then have len: "length (pieces mk st) \<le> length st div length mk + 1" using IH(2) ps by simp
      show ?thesis
      proof (cases "pieces mk (snd ?p)")
        case Nil
        then have "snd ?p = []" using "1.prems" by (auto simp: pieces.simps [of mk "snd ?p"] split: if_splits)
        then show ?thesis using ps p st Nil first len by (auto simp: splits_def)
      next
        case (Cons q qs)
        then have "join mk (pieces mk st) = take i st @ mk @ join mk (pieces mk (snd ?p))" using ps p by simp
        moreover have "st = take i st @ mk @ snd ?p" using st p by simp
        ultimately show ?thesis using IH(1) len first Cons p unfolding ps splits_def by auto
      qed
    qed
  qed
qed
lemma list_seg_is_cons: "list_seg s r as xs e \<Longrightarrow> a \<in> set as \<Longrightarrow> \<exists>x d. cells s ! a = Tc_cons x d"
  by (induction s r as xs e rule: list_seg.induct) (auto split: obj.splits)

lemma breakup_loop_run:
  "mk \<noteq> [] \<Longrightarrow> list_on s acc cs ys \<Longrightarrow> room (2 * length (pieces mk st)) s \<Longrightarrow> length st < k \<Longrightarrow>
   \<exists>r obs as xs. breakup_loop k mk st acc s = (Ret r, grow obs s) \<and> list_on (grow obs s) r (as @ cs) (rev xs @ ys) \<and>
     list_all2 (\<lambda>x p. obj_at (grow obs s) x = Some (string_cell p)) xs (pieces mk st)"
proof (induction "length st" arbitrary: st s acc cs ys k rule: less_induct)
  case less
  show ?case
  proof (cases "st = []")
    case True
    then show ?thesis using less.prems
      by (cases k) (auto simp: pieces.simps [of mk "[]"] intro!: exI [of _ acc] exI [of _ "[]"])
  next
    case False
    let ?p = "fst (piece mk st)" and ?st = "snd (piece mk st)" and ?n = "length (cells s)"
    let ?s = "grow [string_cell ?p, Tc_cons (Ref ?n) acc] s"
    obtain k' where k: "k = Suc k'" "length ?st < k'" "length ?st < length st"
      using less.prems(4) piece_shorter [OF False less.prems(1)] by (cases k) auto
    have ps: "pieces mk st = ?p # pieces mk ?st" using False less.prems(1) by (subst pieces.simps) simp
    have "list_on ?s (Ref (Suc ?n)) (Suc ?n # cs) (Ref ?n # ys)"
      using list_seg_grow [OF less.prems(2), of "[string_cell ?p, Tc_cons (Ref ?n) acc]"] by (simp add: nth_append)
    moreover have "room (2 * length (pieces mk ?st)) ?s" "room (Suc (Suc 0)) s"
      using less.prems(3) ps by (simp_all add: room_def)
    moreover obtain r obs as xs where 1: "breakup_loop k' mk ?st (Ref (Suc ?n)) ?s = (Ret r, grow obs ?s)"
      "list_on (grow obs ?s) r (as @ Suc ?n # cs) (rev xs @ Ref ?n # ys)"
      "list_all2 (\<lambda>x p. obj_at (grow obs ?s) x = Some (string_cell p)) xs (pieces mk ?st)"
      using less.hyps [OF k(3) less.prems(1) calculation(1,2) k(2)] by auto
    ultimately have "breakup_loop k mk st acc s = (Ret r, grow obs ?s)"
      using False k newcell_run [of 0 "grow [string_cell ?p] s"]
      by (simp add: bind_run siod_strcons_def siod_cons_def newcell_run [of "Suc 0" s])
    moreover have "obj_at (grow obs ?s) (Ref ?n) = Some (string_cell ?p)" by (simp add: obj_at_def nth_append)
    ultimately show ?thesis using 1 ps
      by (intro exI [of _ r] exI [of _ "[string_cell ?p, Tc_cons (Ref ?n) acc] @ obs"] exI [of _ "as @ [Suc ?n]"]
          exI [of _ "Ref ?n # xs"]) simp
  qed
qed

text \<open>
  C26. strbreakup of a string with a marker that is not empty returns, when the storage suffices, a list of
  fresh strings, the pieces of the string between the leftmost markers: no piece has a marker in it, and the pieces
  with the marker between them are the string, or the string without the marker at its end.
\<close>

theorem strbreakup_breaks:
  assumes "c_string_of s x = Some st" "c_string_of s y = Some mk" "mk \<noteq> []" "room (2 * (length st div length mk + 1)) s"
  shows "\<exists>r s' as xs ps. siod_lstrbreakup x y s = (Ret r, s') \<and> list_on s' r as xs \<and>
    list_all2 (\<lambda>x p. obj_at s' x = Some (string_cell p)) xs ps \<and> splits mk st ps"
proof -
  note sp = pieces_split [OF assms(3), of st, THEN conjunct1] pieces_split [OF assms(3), of st, THEN conjunct2]
  have "room (2 * length (pieces mk st)) s" using sp(2) assms(4) by (simp add: room_def)
  then obtain r obs as xs where 1: "breakup_loop (bound s + length st) mk st NIL s = (Ret r, grow obs s)"
    "list_on (grow obs s) r as (rev xs)"
    "list_all2 (\<lambda>x p. obj_at (grow obs s) x = Some (string_cell p)) xs (pieces mk st)"
    using breakup_loop_run [OF assms(3), of s NIL "[]" "[]" st "bound s + length st"]
    by (auto simp: bound_def)
  obtain r' s' where 2: "nreverse_loop (2 * bound (grow obs s)) r NIL (grow obs s) = (Ret r', s')"
    "only_changes (set as) (grow obs s) s'" "list_on s' r' (rev as) xs"
    using nreverse_loop_run [OF 1(2), of NIL "[]" "[]" "2 * bound (grow obs s)"] list_on_bound [OF 1(2)] by auto
  have "obj_at s' x = Some (string_cell p)" if st: "obj_at (grow obs s) x = Some (string_cell p)" for x p
  proof -
    obtain a where a: "x = Ref a" "a < length (cells (grow obs s))" "cells (grow obs s) ! a = string_cell p"
      using st by (cases x) (auto simp: obj_at_def split: if_splits)
    then have "a \<notin> set as" using list_seg_is_cons [OF 1(2), of a] by (auto simp: string_cell_def)
    then show ?thesis using a 2(2) by (simp add: obj_at_def only_changes_def)
  qed
  then have "list_all2 (\<lambda>x p. obj_at s' x = Some (string_cell p)) xs (pieces mk st)"
    using 1(3) by (auto elim: list_all2_mono)
  moreover have "siod_lstrbreakup x y s = (Ret r', s')"
    using c_string_run [OF assms(1)] c_string_run [OF assms(2)] 1(1) 2(1)
    by (simp add: siod_lstrbreakup_def bind_run siod_nreverse_def)
  ultimately show ?thesis using 2(3) sp(1) by blast
qed

theorem strbreakup_breaks_witness:
  "\<exists>r s' as xs ps. siod_lstrbreakup (Ref 3) (Ref 4) arrays_example = (Ret r, s') \<and> list_on s' r as xs \<and>
    list_all2 (\<lambda>x p. obj_at s' x = Some (string_cell p)) xs ps \<and> splits '','' ''a,b,'' ps"
proof -
  have "c_string_of arrays_example (Ref 3) = Some ''a,b,''" "c_string_of arrays_example (Ref 4) = Some '',''"
    using arrays_example_at(3,4) by (auto intro!: string_cell_string)
  then show ?thesis
    using strbreakup_breaks [of arrays_example "Ref 3" "''a,b,''" "Ref 4" "'',''"] arrays_example_at(7) [of 10] by auto
qed

section \<open>Buffers\<close>

text \<open>The buffer of a string has one byte behind its dimension, which is NUL; that of a byte array has none.\<close>

fun buf_ok :: "obj \<Rightarrow> bool" where
  "buf_ok (Tc_string n b) = (length b = Suc n \<and> b ! n = NUL)"
| "buf_ok (Tc_byte_array n b) = (length b = n)"
| "buf_ok ob = True"

definition bufs_ok :: "siod \<Rightarrow> bool" where
  "bufs_ok s = (list_all buf_ok (cells s))"

definition no_overrun :: "siod \<Rightarrow> 'a act \<Rightarrow> ('a \<Rightarrow> siod \<Rightarrow> bool) \<Rightarrow> bool" where
  "no_overrun s m Q = (case m s of (r, s') \<Rightarrow> bufs_ok s' \<and> r \<noteq> Undef \<and> (\<forall>a. r = Ret a \<longrightarrow> Q a s'))"

lemma no_overrun_bind:
  "no_overrun s m Q \<Longrightarrow> (\<And>a s'. bufs_ok s' \<Longrightarrow> Q a s' \<Longrightarrow> no_overrun s' (f a) R) \<Longrightarrow> no_overrun s (bindM m f) R"
  unfolding no_overrun_def bindM_def by (cases "m s"; cases "fst (m s)") (force, simp_all)

lemma no_overrun_ret: "bufs_ok s \<Longrightarrow> Q a s \<Longrightarrow> no_overrun s (ret a) Q"
  by (simp add: no_overrun_def)

lemma bufs_ok_updates [simp]:
  "bufs_ok (s\<lparr>console := c\<rparr>) = bufs_ok s" "bufs_ok (s\<lparr>inside_err := b\<rparr>) = bufs_ok s"
  "bufs_ok (err_print m x s) = bufs_ok s"
  by (auto simp: bufs_ok_def err_print_def split: option.split)

lemma bufs_ok_set_cell: "bufs_ok s \<Longrightarrow> buf_ok ob \<Longrightarrow> bufs_ok (set_cell a ob s)"
  unfolding bufs_ok_def list_all_iff set_cell_def using set_update_subset_insert [of "cells s" a ob] by auto

lemma bufs_ok_errobj [simp]: "bufs_ok s \<Longrightarrow> bufs_ok (set_errobj x s)"
  by (auto simp: set_errobj_def bufs_ok_set_cell split: siod_LISP.split option.split obj.split)

lemma bufs_ok_alloc: "bufs_ok s \<Longrightarrow> buf_ok ob \<Longrightarrow> alloc ob s = Some (r, s') \<Longrightarrow> bufs_ok s'"
  by (auto simp: alloc_def bufs_ok_def split: if_splits)

lemma buf_ok_string [simp]: "buf_ok (string_cell st)"
  by (simp add: string_cell_def)

lemma buf_ok_cons [simp]: "buf_ok (Tc_cons a d)"
  by simp

lemma bufs_ok_retval: "bufs_ok s \<Longrightarrow> bufs_ok (snd (err_retval m x s))"
proof (cases "alloc (string_cell m) s")
  case (Some p)
  moreover assume "bufs_ok s"
  ultimately have 1: "bufs_ok (snd p)" using bufs_ok_alloc [of s "string_cell m" "fst p" "snd p"] by simp
  show ?thesis
  proof (cases "alloc (Tc_cons (fst p) x) (snd p)")
    case (Some q)
    then show ?thesis
      using \<open>alloc (string_cell m) s = Some p\<close> bufs_ok_alloc [OF 1, of "Tc_cons (fst p) x" "fst q" "snd q"]
      by (simp add: err_retval_def split_beta)
  qed (use 1 Some in \<open>simp add: err_retval_def split_beta\<close>)
qed (simp add: err_retval_def)

lemma bufs_ok_retval_pair: "err_retval m x s = (v, s') \<Longrightarrow> bufs_ok s \<Longrightarrow> bufs_ok s'"
  using bufs_ok_retval [of s m x] by simp

lemma no_overrun_err: "bufs_ok s \<Longrightarrow> no_overrun s (err m x) Q"
  by (auto simp: no_overrun_def err_def Let_def bufs_ok_retval_pair split: prod.split option.split)

lemma no_overrun_look:
  assumes "bufs_ok s" "ref_ok s x" "\<And>ob. obj_at s x = ob \<Longrightarrow> (\<And>o'. ob = Some o' \<Longrightarrow> buf_ok o') \<Longrightarrow> no_overrun s (f ob) Q"
  shows "no_overrun s (bindM (look x) f) Q"
proof -
  have "buf_ok o'" if "obj_at s x = Some o'" for o'
    using assms(1) that by (auto simp: bufs_ok_def list_all_length obj_at_def split: siod_LISP.splits if_splits)
  then have "no_overrun s (f (obj_at s x)) Q" by (rule assms(3) [OF refl])
  then show ?thesis using assms(2) by (simp add: no_overrun_def bind_run look_eq)
qed

lemma no_overrun_store:
  assumes "bufs_ok s" "obj_at s x = Some ob" "buf_ok ob'"
  shows "no_overrun s (bindM (store x ob') (\<lambda>_. ret v)) (\<lambda>_ _. True)"
  using assms bufs_ok_set_cell
  by (auto simp: no_overrun_def bindM_def store_def obj_at_def split: siod_LISP.splits if_splits)

lemma no_overrun_newcell: "bufs_ok s \<Longrightarrow> buf_ok ob \<Longrightarrow> no_overrun s (newcell ob) (\<lambda>_ _. True)"
  using no_overrun_err [of s "Some ''ran out of storage''" NIL "\<lambda>(_ :: siod_LISP) _. True"] bufs_ok_alloc [of s ob]
  by (auto simp: no_overrun_def newcell_def split: option.split)

lemma no_overrun_flonm:
  "bufs_ok s \<Longrightarrow> ref_ok s x \<Longrightarrow> no_overrun s (flonm m x) (\<lambda>_ s'. s' = s)"
  unfolding flonm_def
  by (rule no_overrun_look) (auto split: option.split obj.split intro!: no_overrun_ret no_overrun_err)

lemma no_overrun_index_arg:
  "bufs_ok s \<Longrightarrow> ref_ok s x \<Longrightarrow> no_overrun s (index_arg m1 m2 x) (\<lambda>_ s'. s' = s)"
  unfolding index_arg_def
  by (rule no_overrun_bind [OF no_overrun_flonm]) (auto intro: no_overrun_ret no_overrun_err)

lemma no_overrun_c_string:
  "bufs_ok s \<Longrightarrow> ref_ok s x \<Longrightarrow> no_overrun s (get_c_string x) (\<lambda>_ s'. s' = s)"
  unfolding get_c_string_def
  by (rule no_overrun_look) (auto split: option.split obj.split intro!: no_overrun_ret no_overrun_err)

lemma no_overrun_chk_string:
  "bufs_ok s \<Longrightarrow> ref_ok s x \<Longrightarrow> no_overrun s (siod_chk_string x)
     (\<lambda>(b, n) s'. s' = s \<and> obj_at s x = Some (Tc_string n b) \<and> length b = Suc n \<and> b ! n = NUL)"
  unfolding siod_chk_string_def siod_err_wta_str_def
  by (rule no_overrun_look) (auto split: option.split obj.split intro!: no_overrun_ret no_overrun_err)

lemma put_cstr_buf:
  assumes "length b = Suc n" "b ! n = NUL" "at + length st \<le> n"
  shows "\<exists>b'. put_cstr b at st = Some b' \<and> length b' = Suc n \<and> b' ! n = NUL"
  using assms by (cases "at + length st = n") (auto simp: put_cstr_def nth_append)

lemma no_overrun_put_into:
  assumes "bufs_ok s" "obj_at s x = Some (Tc_string n b)" "length b = Suc n" "b ! n = NUL" "at + length st \<le> n"
  shows "no_overrun s (put_into x n b at st) (\<lambda>_ _. True)"
  using put_cstr_buf [OF assms(3-5)] by (auto simp: put_into_def intro!: no_overrun_store [OF assms(1,2)])

text \<open>
  C25. While the buffers are as they are allocated, strcpy, strcat, aset and aref read and write no byte
  outside them, whatever their arguments, and the buffers stay so.
\<close>

theorem strings_in_bounds:
  assumes "bufs_ok s" "ref_ok s x" "ref_ok s y" "ref_ok s z"
    "m \<in> {siod_lstrcpy x y, siod_lstrcat x y, siod_aset1 x y z, siod_aref1 x y}"
  shows "fst (m s) \<noteq> Undef \<and> bufs_ok (snd (m s))"
proof -
  have flo: "no_overrun s (siod_flocons d) (\<lambda>_ _. True)" for d
    using no_overrun_newcell [OF assms(1), of "Tc_flonum d"]
    by (auto simp: siod_flocons_def no_overrun_def Let_def assms(1))
  have "no_overrun s (siod_lstrcpy x y) (\<lambda>_ _. True)" "no_overrun s (siod_lstrcat x y) (\<lambda>_ _. True)"
    unfolding siod_lstrcpy_def siod_lstrcat_def Let_def
    by (rule no_overrun_bind [OF no_overrun_chk_string [OF assms(1,2)]];
      auto intro!: no_overrun_bind [OF no_overrun_c_string] no_overrun_err no_overrun_put_into simp: assms)+
  moreover have "no_overrun s (siod_aset1 x y z) (\<lambda>_ _. True)"
    unfolding siod_aset1_def siod_err2_siod_aset1_def siod_err1_siod_aset1_def replaced_bind
    by (rule no_overrun_bind [OF no_overrun_index_arg], simp_all add: assms, rule no_overrun_look)
      (auto split: option.split obj.split simp: assms nth_list_update intro!: no_overrun_err
        no_overrun_bind [OF no_overrun_flonm] no_overrun_store)
  moreover have "no_overrun s (siod_aref1 x y) (\<lambda>_ _. True)"
    unfolding siod_aref1_def
    by (rule no_overrun_bind [OF no_overrun_index_arg], simp_all add: assms, rule no_overrun_look)
      (auto split: option.split obj.split simp: assms fetch_def intro!: no_overrun_err flo no_overrun_ret)
  ultimately show ?thesis using assms(5) by (auto simp: no_overrun_def)
qed

theorem strings_in_bounds_witness:
  "fst (siod_lstrcat (Ref 3) (Ref 4) arrays_example) \<noteq> Undef"
proof -
  have "bufs_ok arrays_example" by (simp add: arrays_example_def small_state_def bufs_ok_def)
  moreover have "ref_ok arrays_example (Ref 3)" "ref_ok arrays_example (Ref 4)"
    by (simp_all add: arrays_example_def small_state_def ref_ok_def)
  ultimately show ?thesis using strings_in_bounds [of arrays_example "Ref 3" "Ref 4" NIL] by simp
qed

end
