(* ===== verification/Codecs.thy ===== *)
theory Codecs
  imports Array_Theorems
begin

unbundle bit_operations_syntax

text \<open>
  Encodings of strings: base64 and hexadecimal digits (sliba.c), the encodings of URLs and of HTML
  (slibu.c).  Bytes are numbers below 256.  What malloc hands out is a parameter.
\<close>

section \<open>Arrays without contents\<close>

record memory =
  mem_char :: "nat \<Rightarrow> char"
  mem_long :: "nat \<Rightarrow> int"
  mem_double :: "nat \<Rightarrow> double"

definition siod_errswitch :: "'a act" where
  "siod_errswitch = errm ''BUG. Reached impossible case'' NIL"

text \<open>
  The case of strings does not end with a break: the storage of a byte array, one byte shorter,
  replaces the one that was filled.
\<close>

definition ar_obj :: "memory \<Rightarrow> nat \<Rightarrow> nat \<Rightarrow> bool \<Rightarrow> obj option" where
  "ar_obj mem typecode n initp =
     (if typecode = 14 then Some (Tc_double_array (map (\<lambda>j. if initp then DZero False else mem_double mem j) [0..<n]))
      else if typecode = 15 then Some (Tc_long_array (map (\<lambda>j. if initp then 0 else mem_long mem j) [0..<n]))
      else if typecode = 13 then Some (Tc_string n (map (\<lambda>j. if initp then NUL else mem_char mem j) [0..<n]))
      else if typecode = 18 then Some (Tc_byte_array n (map (\<lambda>j. if initp then NUL else mem_char mem j) [0..<n]))
      else if typecode = 16 then Some (Tc_lisp_array (replicate n NIL))
      else None)"

definition siod_ar_cons :: "memory \<Rightarrow> nat \<Rightarrow> nat \<Rightarrow> bool \<Rightarrow> siod_LISP act" where
  "siod_ar_cons mem typecode n initp = (case ar_obj mem typecode n initp of
       Some ob \<Rightarrow> newcell ob
     | None \<Rightarrow> bindM (newcell (Tc_cons NIL NIL)) (\<lambda>_. siod_errswitch))"

definition siod_mallocl :: "memory \<Rightarrow> nat \<Rightarrow> siod_LISP act" where
  "siod_mallocl mem bytes = (let n = bytes div 8; r = bytes mod 8
     in siod_ar_cons mem 15 (if r \<noteq> 0 then Suc n else n) False)"

text \<open>A string of the given dimension whose buffer starts with the given characters and a NUL.\<close>

definition strcons_at_least :: "memory \<Rightarrow> nat \<Rightarrow> char list \<Rightarrow> siod_LISP act" where
  "strcons_at_least mem n st =
     newcell (Tc_string n (if length st < n then st @ NUL # map (mem_char mem) [Suc (length st)..<n] @ [NUL]
       else st @ [NUL]))"

section \<open>Base64\<close>

definition base64_encode_table :: "char list" where
  "base64_encode_table = ''ABCDEFGHIJKLMNOPQRSTUVWXYZabcdefghijklmnopqrstuvwxyz0123456789+/=''"

definition siod_init_base64_table :: "char \<Rightarrow> int" where
  "siod_init_base64_table =
     fold (\<lambda>j t. t (base64_encode_table ! j := int j)) [0..<65] (\<lambda>_. -1)"

definition ITEM1 :: "nat \<Rightarrow> nat" where "ITEM1 x = drop_bit 2 x AND mask 6"

definition ITEM2 :: "nat \<Rightarrow> nat \<Rightarrow> nat" where
  "ITEM2 x y = push_bit 4 (x AND mask 2) OR (drop_bit 4 y AND mask 4)"

definition ITEM3 :: "nat \<Rightarrow> nat \<Rightarrow> nat" where
  "ITEM3 x y = push_bit 2 (x AND mask 4) OR (drop_bit 6 y AND mask 2)"

definition ITEM4 :: "nat \<Rightarrow> nat" where "ITEM4 x = x AND mask 6"

fun base64_chunks :: "nat list \<Rightarrow> char list" where
  "base64_chunks (x # y # z # p1) =
     base64_encode_table ! ITEM1 x # base64_encode_table ! ITEM2 x y #
     base64_encode_table ! ITEM3 y z # base64_encode_table ! ITEM4 z # base64_chunks p1"
| "base64_chunks [] = []"
| "base64_chunks [x] =
     [base64_encode_table ! ITEM1 x, base64_encode_table ! ITEM2 x 0,
      base64_encode_table ! 64, base64_encode_table ! 64]"
| "base64_chunks [x, y] =
     [base64_encode_table ! ITEM1 x, base64_encode_table ! ITEM2 x y,
      base64_encode_table ! ITEM3 y 0, base64_encode_table ! 64]"

definition siod_base64encode :: "siod_LISP \<Rightarrow> siod_LISP act" where
  "siod_base64encode inp = bindM (get_c_siod_string_dim inp) (\<lambda>s.
     siod_strcons (base64_chunks (map of_char s)))"

text \<open>The value of a digit, none when it has bits outside the low six.\<close>

definition base64_item :: "char \<Rightarrow> nat option" where
  "base64_item c = (let item = siod_init_base64_table c
     in if item AND NOT (mask 6) \<noteq> 0 then None else Some (nat item))"

definition byte_char :: "nat \<Rightarrow> char" where "byte_char k = char_of k"

fun base64_items :: "nat \<Rightarrow> nat \<Rightarrow> char list \<Rightarrow> char list option" where
  "base64_items (Suc chunks) leftover p =
     (case (base64_item (p ! 0), base64_item (p ! 1), base64_item (p ! 2), base64_item (p ! 3)) of
        (Some i1, Some i2, Some i3, Some i4) \<Rightarrow>
          map_option (\<lambda>out. byte_char (push_bit 2 i1 OR drop_bit 4 i2) #
            byte_char (push_bit 4 i2 OR drop_bit 2 i3) # byte_char (push_bit 6 i3 OR i4) # out)
            (base64_items chunks leftover (drop 4 p))
      | _ \<Rightarrow> None)"
| "base64_items 0 leftover p =
     (if leftover = 1 then
        (case (base64_item (p ! 0), base64_item (p ! 1)) of
           (Some i1, Some i2) \<Rightarrow> Some [byte_char (push_bit 2 i1 OR drop_bit 4 i2)]
         | _ \<Rightarrow> None)
      else if leftover = 2 then
        (case (base64_item (p ! 0), base64_item (p ! 1), base64_item (p ! 2)) of
           (Some i1, Some i2, Some i3) \<Rightarrow>
             Some [byte_char (push_bit 2 i1 OR drop_bit 4 i2), byte_char (push_bit 4 i2 OR drop_bit 2 i3)]
         | _ \<Rightarrow> None)
      else Some [])"

text \<open>
  The padding of the last group.  In the decoder, where a character is not a digit, the string that was
  taken for the result is left behind unreachable; its bytes are not followed.
\<close>

definition base64_leftover :: "char list \<Rightarrow> nat" where
  "base64_leftover s = (let n = length s in
     if s ! (n - 1) = base64_encode_table ! 64
     then if s ! (n - 2) = base64_encode_table ! 64 then 1 else 2 else 0)"

definition siod_base64decode :: "siod_LISP \<Rightarrow> siod_LISP act" where
  "siod_base64decode inp = bindM (get_c_string inp) (\<lambda>s.
     let n = length s in
     if n = 0 then siod_strcons []
     else if n mod 4 \<noteq> 0 then errm ''illegal base64 data length'' inp
     else let leftover = base64_leftover s;
              chunks = n div 4 - (if leftover \<noteq> 0 then 1 else 0)
          in case base64_items chunks leftover s of
               Some out \<Rightarrow> siod_strcons out
             | None \<Rightarrow> bindM (siod_strcons (replicate (chunks * 3 + leftover) NUL)) (\<lambda>_. ret NIL))"

section \<open>Hexadecimal digits\<close>

definition c_isdigit :: "char \<Rightarrow> bool" where
  "c_isdigit c = (let n = of_char c :: nat in 48 \<le> n \<and> n \<le> 57)"

definition c_isxdigit :: "char \<Rightarrow> bool" where
  "c_isxdigit c = (let n = of_char c :: nat in c_isdigit c \<or> 65 \<le> n \<and> n \<le> 70 \<or> 97 \<le> n \<and> n \<le> 102)"

definition c_isalnum :: "char \<Rightarrow> bool" where
  "c_isalnum c = (let n = of_char c :: nat in c_isdigit c \<or> 65 \<le> n \<and> n \<le> 90 \<or> 97 \<le> n \<and> n \<le> 122)"

definition hex_digit :: "char list \<Rightarrow> nat \<Rightarrow> char" where
  "hex_digit digits k = digits ! (k mod 16)"

definition lower_digits :: "char list" where "lower_digits = ''0123456789abcdef''"

definition upper_digits :: "char list" where "upper_digits = ''0123456789ABCDEF''"

definition hex2 :: "char list \<Rightarrow> char \<Rightarrow> char list" where
  "hex2 digits c = [hex_digit digits (of_char c div 16), hex_digit digits (of_char c)]"

definition siod_hexstr :: "siod_LISP \<Rightarrow> siod_LISP act" where
  "siod_hexstr a = bindM (get_c_siod_string_dim a) (\<lambda>inp.
     siod_strcons (concat (map (hex2 lower_digits) inp)))"

definition siod_xdigitvalue :: "char \<Rightarrow> nat" where
  "siod_xdigitvalue c =
     (if c_isdigit c then of_char c - 48
      else if c_isxdigit c then of_char (c_toupper c) - 65 + 10 else 0)"

fun hex_bytes :: "char list \<Rightarrow> char list" where
  "hex_bytes (x # y # inp) = char_of (siod_xdigitvalue x * 16 + siod_xdigitvalue y) # hex_bytes inp"
| "hex_bytes inp = []"

definition siod_hexstr2bytes :: "siod_LISP \<Rightarrow> siod_LISP act" where
  "siod_hexstr2bytes a = bindM (get_c_string a) (\<lambda>inp.
     newcell (Tc_byte_array (length inp div 2) (hex_bytes inp)))"

section \<open>URLs\<close>

definition url_regular :: "char \<Rightarrow> bool" where
  "url_regular c = (c_isalnum c \<or> c \<in> set ''*-._@'')"

definition url_encode1 :: "char \<Rightarrow> char list" where
  "url_encode1 c = (if c = CHR '' '' then ''+''
     else if \<not> url_regular c then CHR ''%'' # hex2 upper_digits c else [c])"

definition siod_url_encode :: "siod_LISP \<Rightarrow> siod_LISP act" where
  "siod_url_encode inp = bindM (get_c_string inp) (\<lambda>str.
     let spaces = length (filter (\<lambda>c. c = CHR '' '') str);
         specials = length (filter (\<lambda>c. c \<noteq> CHR '' '' \<and> \<not> url_regular c) str)
     in if spaces = 0 \<and> specials = 0 then ret inp
        else siod_strcons (concat (map url_encode1 str)))"

text \<open>The first pass: the two digits behind a percent sign are counted as regular characters.\<close>

fun url_scan :: "char list \<Rightarrow> (nat \<times> nat \<times> nat) option" where
  "url_scan [] = Some (0, 0, 0)"
| "url_scan (c # p) =
     (if c = CHR ''+'' then map_option (\<lambda>(pl, sp, re). (Suc pl, sp, re)) (url_scan p)
      else if c = CHR ''%'' then
        (case p of x # y # _ \<Rightarrow> if c_isxdigit x \<and> c_isxdigit y
             then map_option (\<lambda>(pl, sp, re). (pl, Suc sp, re)) (url_scan p) else None
         | _ \<Rightarrow> None)
      else map_option (\<lambda>(pl, sp, re). (pl, sp, Suc re)) (url_scan p))"

definition url_digit :: "char \<Rightarrow> nat" where
  "url_digit c = (if c_isdigit c then of_char c - 48 else of_char (c_toupper c) - 65 + 10)"

fun url_write :: "char list \<Rightarrow> char list" where
  "url_write (c # x # y # p) =
     (if c = CHR ''+'' then CHR '' '' # url_write (x # y # p)
      else if c = CHR ''%'' then char_of ((0 * 16 + url_digit x) * 16 + url_digit y) # url_write p
      else c # url_write (x # y # p))"
| "url_write [] = []"
| "url_write (c # p) = (if c = CHR ''+'' then CHR '' '' else c) # url_write p"

definition siod_url_decode :: "memory \<Rightarrow> siod_LISP \<Rightarrow> siod_LISP act" where
  "siod_url_decode mem inp = bindM (get_c_string inp) (\<lambda>str.
     case url_scan str of None \<Rightarrow> ret NIL
     | Some (pluses, specials, regulars) \<Rightarrow>
         if pluses = 0 \<and> specials = 0 then ret inp
         else strcons_at_least mem (regulars + pluses + specials) (url_write str))"

section \<open>HTML\<close>

definition html_encode1 :: "char \<Rightarrow> char list" where
  "html_encode1 c =
     (if c = CHR ''>'' then ''&gt;'' else if c = CHR ''<'' then ''&lt;''
      else if c = CHR ''&'' then ''&amp;'' else if c = CHR 0x22 then ''&quot;'' else [c])"

definition html_size :: "char \<Rightarrow> nat" where
  "html_size c =
     (if c = CHR ''>'' \<or> c = CHR ''<'' then 4 else if c = CHR ''&'' then 5 else if c = CHR 0x22 then 6 else 1)"

definition siod_html_encode :: "siod_LISP \<Rightarrow> siod_LISP act" where
  "siod_html_encode inp = bindM (look inp) (\<lambda>ob.
     if (case ob of Some (Tc_string n b) \<Rightarrow> True | Some (Tc_symbol p v) \<Rightarrow> True | _ \<Rightarrow> False)
     then bindM (get_c_string inp) (\<lambda>str.
       if length str = sum_list (map html_size str) then ret inp
       else siod_strcons (concat (map html_encode1 str)))
     else ret inp)"

section \<open>Well-formedness\<close>

lemma ok_errswitch: "okM s siod_errswitch Q"
  unfolding siod_errswitch_def by (rule okM_err) simp

lemma ok_ar_cons [sound_rules]: "okR s (siod_ar_cons mem typecode n initp)"
  unfolding siod_ar_cons_def ar_obj_def
  by (auto split: option.split if_splits intro!: okR_newcell okM_bind [OF okR_newcell] ok_errswitch simp: list_all_iff)

lemma ok_mallocl [sound_rules]: "okR s (siod_mallocl mem n)"
  unfolding siod_mallocl_def Let_def by (intro ok_ar_cons)

lemma ok_codecs [sound_rules]:
  "okR s (siod_base64encode x)" "okR s (siod_hexstr x)" "okR s (siod_hexstr2bytes x)"
  unfolding siod_base64encode_def siod_hexstr_def siod_hexstr2bytes_def
  by (intro okU_bind [OF ok_get_c_siod_string_dim] okU_bind [OF ok_get_c_string] ok_strcons okR_newcell; simp)+

lemma ok_base64decode [sound_rules]: "ref_ok s x \<Longrightarrow> okR s (siod_base64decode x)"
  unfolding siod_base64decode_def Let_def
  by (rule okM_bind [OF okM_get_c_string_same])
    (auto split: option.split intro!: okM_if ok_strcons okM_err okM_ret okM_bind [OF ok_strcons])

lemma ok_url_html [sound_rules]:
  "ref_ok s x \<Longrightarrow> okR s (siod_url_encode x)" "ref_ok s x \<Longrightarrow> okR s (siod_url_decode mem x)"
  unfolding siod_url_encode_def siod_url_decode_def strcons_at_least_def Let_def
  by (rule okM_bind [OF okM_get_c_string_same],
      auto split: option.split intro!: okM_if ok_strcons okM_ret okR_newcell)+

lemma ok_html_encode [sound_rules]: "ref_ok s x \<Longrightarrow> okR s (siod_html_encode x)"
  unfolding siod_html_encode_def
  by (rule okM_look, intro okM_if okM_ret okM_bind [OF okM_get_c_string_same]) (auto intro!: okM_if okM_ret ok_strcons)

section \<open>Base64 decodes what it encodes\<close>

lemma base64_digits: "k \<le> 64 \<Longrightarrow> siod_init_base64_table (base64_encode_table ! k) = int k"
proof -
  have "list_all (\<lambda>k. siod_init_base64_table (base64_encode_table ! k) = int k) [0..<65]" by code_simp
  then show "k \<le> 64 \<Longrightarrow> ?thesis" by (simp add: list_all_iff)
qed

lemma base64_item_digit: "k < 64 \<Longrightarrow> base64_item (base64_encode_table ! k) = Some k"
proof -
  have "list_all (\<lambda>k. base64_item (base64_encode_table ! k) = Some k) [0..<64]" by code_simp
  then show "k < 64 \<Longrightarrow> ?thesis" by (simp add: list_all_iff)
qed

lemma ITEM_less: "ITEM1 x < 64" "ITEM2 x y < 64" "ITEM3 x y < 64" "ITEM4 x < 64"
proof -
  have "ITEM2 x y = take_bit 6 (ITEM2 x y)" "ITEM3 x y = take_bit 6 (ITEM3 x y)"
    by (rule bit_eqI; auto simp: ITEM2_def ITEM3_def bit_or_iff bit_push_bit_iff bit_and_iff bit_mask_iff bit_take_bit_iff)+
  then show "ITEM2 x y < 64" "ITEM3 x y < 64"
    using take_bit_nat_less_exp [of 6 "ITEM2 x y"] take_bit_nat_less_exp [of 6 "ITEM3 x y"] by simp_all
  show "ITEM1 x < 64" "ITEM4 x < 64"
    using take_bit_nat_less_exp [of 6 "drop_bit 2 x"] take_bit_nat_less_exp [of 6 x] by (simp_all add: ITEM1_def ITEM4_def take_bit_eq_mask)
qed

lemma base64_recombine:
  assumes "x < 256" "y < 256" "z < 256"
  shows "byte_char (push_bit 2 (ITEM1 x) OR drop_bit 4 (ITEM2 x y)) = char_of x"
    "byte_char (push_bit 4 (ITEM2 x y) OR drop_bit 2 (ITEM3 y z)) = char_of y"
    "byte_char (push_bit 6 (ITEM3 y z) OR ITEM4 z) = char_of z"
proof -
  note bits = ITEM1_def ITEM2_def ITEM3_def ITEM4_def bit_or_iff bit_push_bit_iff bit_and_iff bit_mask_iff
    bit_take_bit_iff bit_drop_bit_eq
  have "take_bit 8 (push_bit 2 (ITEM1 x) OR drop_bit 4 (ITEM2 x y)) = take_bit 8 x"
  proof (rule bit_eqI)
    fix n
    have "2 \<le> n \<Longrightarrow> Suc (Suc (n - 2)) = n" by simp
    then show "bit (take_bit 8 (push_bit 2 (ITEM1 x) OR drop_bit 4 (ITEM2 x y))) n = bit (take_bit 8 x) n"
      by (auto simp: bits)
  qed
  then show "byte_char (push_bit 2 (ITEM1 x) OR drop_bit 4 (ITEM2 x y)) = char_of x"
    unfolding byte_char_def by (metis char_of_take_bit_eq order_refl)
  have "take_bit 8 (push_bit 4 (ITEM2 x y) OR drop_bit 2 (ITEM3 y z)) = take_bit 8 y"
    by (rule bit_eqI) (auto simp: bits)
  then show "byte_char (push_bit 4 (ITEM2 x y) OR drop_bit 2 (ITEM3 y z)) = char_of y"
    unfolding byte_char_def by (metis char_of_take_bit_eq order_refl)
  have "take_bit 8 (push_bit 6 (ITEM3 y z) OR ITEM4 z) = take_bit 8 z"
    by (rule bit_eqI) (auto simp: bits)
  then show "byte_char (push_bit 6 (ITEM3 y z) OR ITEM4 z) = char_of z"
    unfolding byte_char_def by (metis char_of_take_bit_eq order_refl)
qed

lemma digit_not_pad: "k < 64 \<Longrightarrow> base64_encode_table ! k \<noteq> base64_encode_table ! 64"
  using base64_digits [of k] base64_digits [of 64] by fastforce

lemma digit_not_NUL: "k \<le> 64 \<Longrightarrow> base64_encode_table ! k \<noteq> NUL"
proof -
  have "list_all (\<lambda>k. base64_encode_table ! k \<noteq> NUL) [0..<65]" by code_simp
  then show "k \<le> 64 \<Longrightarrow> ?thesis" by (simp add: list_all_iff)
qed

definition leftover_of :: "nat list \<Rightarrow> nat" where
  "leftover_of xs = length xs mod 3"

lemma base64_chunks_length: "length (base64_chunks xs) = 4 * (length xs div 3 + (if length xs mod 3 \<noteq> 0 then 1 else 0))"
proof (induction xs rule: base64_chunks.induct)
  case (1 x y z p1)
  have "length (x # y # z # p1) div 3 = Suc (length p1 div 3)" "length (x # y # z # p1) mod 3 = length p1 mod 3"
    by simp_all
  with 1 show ?case by (simp only: base64_chunks.simps list.size) simp
qed auto

lemma base64_chunks_no_NUL: "NUL \<notin> set (base64_chunks xs)"
  using digit_not_NUL ITEM_less
  by (induction xs rule: base64_chunks.induct) (auto simp: less_imp_le, (metis less_imp_le order_refl)+)

lemma base64_chunks_decode:
  "list_all (\<lambda>x. x < 256) xs \<Longrightarrow>
   base64_items (length xs div 3) (length xs mod 3) (base64_chunks xs) = Some (map char_of xs)"
proof (induction xs rule: base64_chunks.induct)
  case (1 x y z p1)
  then have "base64_items (length p1 div 3) (length p1 mod 3) (base64_chunks p1) = Some (map char_of p1)" by simp
  moreover have "length (x # y # z # p1) div 3 = Suc (length p1 div 3)" "length (x # y # z # p1) mod 3 = length p1 mod 3"
    by simp_all
  ultimately show ?case
    using "1.prems" by (simp only: base64_items.simps) (simp add: base64_item_digit ITEM_less base64_recombine(2)
        base64_recombine(1) [of x y 0] base64_recombine(3) [of 0 y z])
qed (auto simp: base64_item_digit ITEM_less base64_recombine [where z = 0] base64_recombine(1) [where y = 0 and z = 0])

text \<open>The padding tells how many bytes the last group has.\<close>

lemma nth_behind: "k < length t \<Longrightarrow> (a # b # c # d # t) ! (length (a # b # c # d # t) - Suc k) = t ! (length t - Suc k)"
  by (simp add: nth_Cons' Suc_diff_Suc)

lemma base64_padding: "xs \<noteq> [] \<Longrightarrow> base64_leftover (base64_chunks xs) = length xs mod 3"
proof (induction xs rule: base64_chunks.induct)
  case (1 x y z p1)
  show ?case
  proof (cases "p1 = []")
    case True
    then show ?thesis by (simp add: base64_leftover_def digit_not_pad ITEM_less)
  next
    case False
    let ?t = "base64_chunks p1"
    from False have "4 \<le> length ?t"
      by (cases p1 rule: base64_chunks.cases) (auto simp: base64_chunks_length)
    then have k: "0 < length ?t" "1 < length ?t" by linarith+
    have "base64_leftover (base64_chunks (x # y # z # p1)) = base64_leftover ?t"
      unfolding base64_leftover_def base64_chunks.simps
      using nth_behind [OF k(1)] nth_behind [OF k(2)] by (simp only: One_nat_def numeral_2_eq_2 Let_def)
    with 1 False show ?thesis by simp
  qed
qed (simp_all add: base64_leftover_def digit_not_pad ITEM_less)

lemma char_codes: "map char_of (map (of_char :: char \<Rightarrow> nat) st) = st"
  by (induction st) simp_all

lemma codes_less: "list_all (\<lambda>x. x < 256) (map (of_char :: char \<Rightarrow> nat) st)"
  by (simp add: list_all_iff)

lemma string_dim_run: "obj_at s x = Some (Tc_string n b) \<Longrightarrow> get_c_siod_string_dim x s = (Ret (take n b), s)"
  by (simp add: get_c_siod_string_dim_def bind_run obj_at_look)

lemma new_string_run:
  "NUL \<notin> set st \<Longrightarrow> get_c_string (Ref (length (cells s))) (grow [string_cell st] s) = (Ret st, grow [string_cell st] s)"
  by (rule c_string_run) (simp add: string_cell_string obj_at_def)

lemma strcons_run: "room (Suc k) s \<Longrightarrow> siod_strcons st s = (Ret (Ref (length (cells s))), grow [string_cell st] s)"
  by (simp add: siod_strcons_def newcell_run)

lemma groups_positive: "0 < (m :: nat) \<Longrightarrow> 0 < 4 * (m div 3 + (if m mod 3 \<noteq> 0 then 1 else 0))"
  by (cases "m mod 3 = 0") (auto simp: mod_eq_0_iff_dvd dvd_imp_le)

text \<open>
  C29. base64decode of what base64encode makes of a string of any bytes is a new string of the same bytes.
\<close>

theorem base64_roundtrip:
  assumes "obj_at s x = Some (Tc_string n b)" "room 2 s"
  shows "\<exists>r s' r'. siod_base64encode x s = (Ret r, s') \<and>
    siod_base64decode r s' = (Ret r', grow [string_cell (take n b)] s') \<and>
    obj_at (grow [string_cell (take n b)] s') r' = Some (string_cell (take n b))"
proof -
  let ?st = "take n b" and ?xs = "map of_char (take n b) :: nat list"
  let ?e = "base64_chunks ?xs" and ?s = "grow [string_cell (base64_chunks (map of_char (take n b)))] s"
  have "room (Suc (Suc 0)) s" "room (Suc 0) ?s" using assms(2) by (simp_all add: numeral_2_eq_2)
  note runs = this [THEN strcons_run]
  have enc: "siod_base64encode x s = (Ret (Ref (length (cells s))), ?s)"
    by (simp add: siod_base64encode_def bind_run string_dim_run [OF assms(1)] runs(1))
  have get: "get_c_string (Ref (length (cells s))) ?s = (Ret ?e, ?s)"
    by (rule new_string_run) (rule base64_chunks_no_NUL)
  have len: "length ?e = 4 * (length ?xs div 3 + (if length ?xs mod 3 \<noteq> 0 then 1 else 0))"
    by (rule base64_chunks_length)
  have "siod_base64decode (Ref (length (cells s))) ?s = (Ret (Ref (Suc (length (cells s)))), grow [string_cell ?st] ?s)"
  proof (cases "?st = []")
    case True
    then have e: "?e = []" by (simp only: list.map base64_chunks.simps)
    show ?thesis
      using runs(2) [of "[]"] True get unfolding siod_base64decode_def e by (auto simp: bind_run Let_def)
  next
    case False
    then have xs: "?xs \<noteq> []" by simp
    have "0 < length ?xs" using xs by blast
    then have "0 < length ?e" unfolding len by (rule groups_positive)
    then have "?e \<noteq> []" "length ?e mod 4 = 0" using len by (blast, simp)
    moreover have "length ?e div 4 - (if length ?xs mod 3 \<noteq> 0 then 1 else 0) = length ?xs div 3"
      unfolding len by simp
    moreover note base64_padding [OF xs] base64_chunks_decode [OF codes_less, of ?st]
    ultimately show ?thesis
      using runs(2) [of ?st] get unfolding siod_base64decode_def
      by (simp del: grow_simps(3) length_map add: char_codes bind_run Let_def)
  qed
  then show ?thesis using enc by (intro exI) (auto simp: obj_at_def nth_append)
qed

theorem base64_roundtrip_witness:
  "\<exists>r s' r'. siod_base64encode (Ref 3) arrays_example = (Ret r, s') \<and>
    siod_base64decode r s' = (Ret r', grow [string_cell ''a,b,''] s')"
proof -
  have "obj_at arrays_example (Ref 3) = Some (Tc_string 4 (''a,b,'' @ [NUL]))"
    using arrays_example_at(3) by (simp add: string_cell_def)
  from base64_roundtrip [OF this] show ?thesis using arrays_example_at(7) [of 2] by auto
qed

section \<open>Hexadecimal digits and URLs read back\<close>

lemma xdigitvalue_digit:
  "siod_xdigitvalue (hex_digit lower_digits k) = k mod 16" "url_digit (hex_digit upper_digits k) = k mod 16"
  "c_isxdigit (hex_digit upper_digits k)" "hex_digit lower_digits k \<noteq> NUL"
  "hex_digit upper_digits k \<notin> set ''+%''"
proof -
  have "list_all (\<lambda>k. siod_xdigitvalue (lower_digits ! k) = k \<and> url_digit (upper_digits ! k) = k \<and>
      c_isxdigit (upper_digits ! k) \<and> lower_digits ! k \<noteq> NUL \<and> upper_digits ! k \<notin> set ''+%'') [0..<16]"
    by code_simp
  then have "k mod 16 < 16 \<longrightarrow> siod_xdigitvalue (lower_digits ! (k mod 16)) = k mod 16 \<and>
      url_digit (upper_digits ! (k mod 16)) = k mod 16 \<and> c_isxdigit (upper_digits ! (k mod 16)) \<and>
      lower_digits ! (k mod 16) \<noteq> NUL \<and> upper_digits ! (k mod 16) \<notin> set ''+%''"
    by (auto simp: list_all_iff)
  then show "siod_xdigitvalue (hex_digit lower_digits k) = k mod 16" "url_digit (hex_digit upper_digits k) = k mod 16"
    "c_isxdigit (hex_digit upper_digits k)" "hex_digit lower_digits k \<noteq> NUL" "hex_digit upper_digits k \<notin> set ''+%''"
    by (simp_all add: hex_digit_def)
qed

lemma two_digits: "k < 256 \<Longrightarrow> k div 16 mod 16 * 16 + k mod 16 = (k :: nat)"
  by (simp add: mod_less div_mult_mod_eq less_mult_imp_div_less)

lemma hex_bytes_hexstr: "hex_bytes (concat (map (hex2 lower_digits) st)) = st"
proof (induction st)
  case (Cons c st)
  have "(of_char c :: nat) div 16 mod 16 * 16 + of_char c mod 16 = of_char c" by (rule two_digits) simp
  then show ?case using Cons by (simp add: hex2_def xdigitvalue_digit)
qed simp

lemma hexstr_chars: "NUL \<notin> set (concat (map (hex2 lower_digits) st))"
  "length (concat (map (hex2 lower_digits) st)) = 2 * length st"
  by (induction st) (auto simp: hex2_def xdigitvalue_digit(4) [symmetric] intro: xdigitvalue_digit(4) [THEN not_sym])

text \<open>
  C30. hexstr of a string or byte array has two digits for each byte, and hexstr2bytes of that is a new byte
  array of the same bytes.
\<close>

theorem hexstr_roundtrip:
  assumes "get_c_siod_string_dim x s = (Ret st, s)" "room 2 s"
  shows "\<exists>r h s' r'. siod_hexstr x s = (Ret r, s') \<and> obj_at s' r = Some (string_cell h) \<and> length h = 2 * length st \<and>
    siod_hexstr2bytes r s' = (Ret r', grow [Tc_byte_array (length st) st] s')"
proof -
  let ?h = "concat (map (hex2 lower_digits) st)" and ?r = "Ref (length (cells s))"
  let ?s = "grow [string_cell ?h] s"
  have "room (Suc (Suc 0)) s" "room (Suc 0) ?s" using assms(2) by (simp_all add: numeral_2_eq_2)
  note runs = this(1) [THEN strcons_run] this(2) [THEN newcell_run]
  have "siod_hexstr x s = (Ret ?r, ?s)" by (simp add: siod_hexstr_def bind_run assms(1) runs(1))
  moreover have "get_c_string ?r ?s = (Ret ?h, ?s)" by (rule new_string_run) (rule hexstr_chars)
  then have "siod_hexstr2bytes ?r ?s = (Ret (Ref (length (cells ?s))), grow [Tc_byte_array (length st) st] ?s)"
    unfolding siod_hexstr2bytes_def using runs(2) hexstr_chars(2) [of st]
    by (simp add: bind_run hex_bytes_hexstr del: grow_simps(3) length_concat)
  ultimately show ?thesis
    using hexstr_chars(2) [of st] by (intro exI conjI) (auto simp: obj_at_def)
qed

theorem hexstr_roundtrip_witness:
  "\<exists>r s' r'. siod_hexstr (Ref 3) arrays_example = (Ret r, s') \<and>
    siod_hexstr2bytes r s' = (Ret r', grow [Tc_byte_array 4 ''a,b,''] s')"
proof -
  have "obj_at arrays_example (Ref 3) = Some (Tc_string 4 (''a,b,'' @ [NUL]))"
    using arrays_example_at(3) by (simp add: string_cell_def)
  from hexstr_roundtrip [OF string_dim_run [OF this]] show ?thesis using arrays_example_at(7) [of 2] by (auto simp: eval_nat_numeral)
qed

text \<open>Scanning and writing a string that was encoded.\<close>

lemma url_regular_chars: "url_regular c \<Longrightarrow> c \<notin> set ''+%''"
  by (auto simp: url_regular_def c_isalnum_def c_isdigit_def)

abbreviation url_spaces :: "char list \<Rightarrow> nat" where
  "url_spaces st \<equiv> length (filter (\<lambda>c. c = CHR '' '') st)"

abbreviation url_specials :: "char list \<Rightarrow> nat" where
  "url_specials st \<equiv> length (filter (\<lambda>c. c \<noteq> CHR '' '' \<and> \<not> url_regular c) st)"

lemma url_scan_encoded: "\<exists>re. url_scan (concat (map url_encode1 st)) = Some (url_spaces st, url_specials st, re) \<and>
    url_spaces st + url_specials st + re = length st + 2 * url_specials st"
proof (induction st)
  case (Cons c st)
  then obtain re where IH: "url_scan (concat (map url_encode1 st)) = Some (url_spaces st, url_specials st, re)"
    "url_spaces st + url_specials st + re = length st + 2 * url_specials st" by blast
  consider "c = CHR '' ''" | "c \<noteq> CHR '' ''" "\<not> url_regular c" | "c \<noteq> CHR '' ''" "url_regular c" by blast
  then show ?case
  proof cases
    case 2
    then show ?thesis using IH xdigitvalue_digit(3,5) by (simp add: url_encode1_def [of c] hex2_def)
  next
    case 3
    then show ?thesis using IH url_regular_chars [of c] by (auto simp: url_encode1_def [of c])
  qed (use IH in \<open>simp add: url_encode1_def [of "CHR '' ''"]\<close>)
qed simp

lemma url_encoded_plain: "url_spaces st = 0 \<Longrightarrow> url_specials st = 0 \<Longrightarrow> concat (map url_encode1 st) = st"
  by (induction st) (auto simp: url_encode1_def split: if_splits)

lemma upper_not_NUL: "hex_digit upper_digits k \<noteq> NUL"
proof -
  have "list_all (\<lambda>k. upper_digits ! k \<noteq> NUL) [0..<16]" by code_simp
  then show ?thesis by (auto simp: list_all_iff hex_digit_def)
qed

lemma url_write_plain: "c \<noteq> CHR ''%'' \<Longrightarrow> url_write (c # p) = (if c = CHR ''+'' then CHR '' '' else c) # url_write p"
  by (cases p rule: url_write.cases) auto

lemma url_write_encoded: "url_write (concat (map url_encode1 st)) = st"
proof (induction st)
  case (Cons c st)
  have "(of_char c :: nat) div 16 mod 16 * 16 + of_char c mod 16 = of_char c" by (rule two_digits) simp
  then show ?case
    using Cons url_regular_chars [of c]
    by (auto simp: url_encode1_def [of c] hex2_def url_write_plain xdigitvalue_digit(2))
qed simp

lemma strcons_at_least_run:
  assumes "NUL \<notin> set st" "room (Suc k) s"
  shows "\<exists>r b s'. strcons_at_least mem n st s = (Ret r, s') \<and> obj_at s' r = Some (Tc_string n (st @ NUL # b))"
  using newcell_run [OF assms(2)] by (auto simp: strcons_at_least_def obj_at_def)

lemma url_encode_run:
  assumes "c_string_of s x = Some st" "NUL \<notin> set st" "room (Suc (Suc k)) s"
  shows "if url_spaces st = 0 \<and> url_specials st = 0 then siod_url_encode x s = (Ret x, s)
    else \<exists>r s'. siod_url_encode x s = (Ret r, s') \<and> obj_at s' r = Some (string_cell (concat (map url_encode1 st))) \<and>
      c_string_of s' r = Some (concat (map url_encode1 st)) \<and> room (Suc k) s'"
proof (cases "url_spaces st = 0 \<and> url_specials st = 0")
  case True
  then show ?thesis
    using assms(1) by (auto simp: siod_url_encode_def bind_run c_string_run)
next
  case False
  have nul: "NUL \<notin> set (concat (map url_encode1 st))"
    using assms(2) upper_not_NUL upper_not_NUL [THEN not_sym] by (auto simp: url_encode1_def hex2_def)
  have "siod_url_encode x s = siod_strcons (concat (map url_encode1 st)) s"
    using False by (auto simp: siod_url_encode_def bind_run c_string_run [OF assms(1)] Let_def)
  moreover have "\<exists>r s'. siod_strcons (concat (map url_encode1 st)) s = (Ret r, s') \<and>
      obj_at s' r = Some (string_cell (concat (map url_encode1 st))) \<and>
      c_string_of s' r = Some (concat (map url_encode1 st)) \<and> room (Suc k) s'"
    using strcons_run [OF assms(3)] string_cell_string [OF nul] assms(3) by (auto simp: obj_at_def)
  ultimately show ?thesis using False by (simp only: if_False)
qed

text \<open>
  C31. url-decode of what url-encode makes of a string has the same text, up to its NUL.  A string of regular characters is
  given back as it is by both; otherwise the two make new strings, where the dimension of the second is the length of the text
  and two more for each escape, so that it is longer than its text.
\<close>

theorem url_roundtrip:
  assumes "c_string_of s x = Some st" "NUL \<notin> set st" "room 2 s"
  shows "\<exists>r s' r' s''. siod_url_encode x s = (Ret r, s') \<and> siod_url_decode mem r s' = (Ret r', s'') \<and>
    c_string_of s'' r' = Some st \<and>
    (if url_spaces st = 0 \<and> url_specials st = 0 then r = x \<and> r' = x \<and> s'' = s
     else obj_at s' r = Some (string_cell (concat (map url_encode1 st))) \<and>
       (\<exists>b. obj_at s'' r' = Some (Tc_string (length st + 2 * url_specials st) (st @ NUL # b))))"
proof (cases "url_spaces st = 0 \<and> url_specials st = 0")
  case True
  obtain re where "url_scan st = Some (0, 0, re)" using url_scan_encoded [of st] url_encoded_plain [of st] True by auto
  then have "siod_url_decode mem x s = (Ret x, s)" by (simp add: siod_url_decode_def bind_run c_string_run [OF assms(1)])
  moreover have "siod_url_encode x s = (Ret x, s)"
    using url_encode_run [OF assms(1,2)] assms(3) True by (simp add: numeral_2_eq_2)
  ultimately show ?thesis using assms(1) True by auto
next
  case False
  let ?e = "concat (map url_encode1 st)"
  have "room (Suc (Suc 0)) s" using assms(3) by (simp add: numeral_2_eq_2)
  from url_encode_run [OF assms(1,2) this] obtain r s' where 1: "siod_url_encode x s = (Ret r, s')"
    "obj_at s' r = Some (string_cell ?e)" "c_string_of s' r = Some ?e" "room (Suc 0) s'"
    unfolding if_not_P [OF False] by blast
  obtain re where 2: "url_scan ?e = Some (url_spaces st, url_specials st, re)"
    "re + url_spaces st + url_specials st = length st + 2 * url_specials st"
    using url_scan_encoded [of st] by (auto simp: ac_simps)
  have "siod_url_decode mem r s' = strcons_at_least mem (length st + 2 * url_specials st) st s'"
    using False by (auto simp: siod_url_decode_def bind_run c_string_run [OF 1(3)] 2 url_write_encoded)
  then obtain r' b s'' where 3: "siod_url_decode mem r s' = (Ret r', s'')"
    "obj_at s'' r' = Some (Tc_string (length st + 2 * url_specials st) (st @ NUL # b))"
    using strcons_at_least_run [OF assms(2) 1(4)] by metis
  then have "c_string_of s'' r' = Some st" using assms(2) by (simp add: c_string_of_def cstr_terminated)
  with 1(1,2) 3 show ?thesis unfolding if_not_P [OF False] by blast
qed

theorem url_roundtrip_witness:
  "\<exists>r s' r' s'' b. siod_url_encode (Ref 3) arrays_example = (Ret r, s') \<and>
    siod_url_decode \<lparr>mem_char = \<lambda>_. NUL, mem_long = \<lambda>_. 0, mem_double = \<lambda>_. DZero False\<rparr> r s' = (Ret r', s'') \<and>
    obj_at s'' r' = Some (Tc_string 8 (''a,b,'' @ NUL # b))"
proof -
  have s: "c_string_of arrays_example (Ref 3) = Some ''a,b,''" "room 2 arrays_example"
    using arrays_example_at(3,7) by (auto intro: string_cell_string)
  have n: "url_specials ''a,b,'' = 2" by (simp add: url_regular_def c_isalnum_def c_isdigit_def)
  then have "length ''a,b,'' + 2 * url_specials ''a,b,'' = 8" "\<not> (url_spaces ''a,b,'' = 0 \<and> url_specials ''a,b,'' = 0)" by simp_all
  with url_roundtrip [OF s(1) _ s(2)] show ?thesis by fastforce
qed

end
