(* ===== verification/Md5.thy ===== *)
theory Md5
  imports Prelude
begin

unbundle bit_operations_syntax

text \<open>
  The message digest of md5.c over words of any width: UINT4 is an unsigned long, which has 32 bits on some
  machines and 64 on others.  Bytes are words of 8 bits; lengths are unsigned int, numbers below 2^32.
  An update whose loop would read behind its input has no result.
\<close>

section \<open>Context\<close>

type_synonym 'w md5_state = "'w word \<times> 'w word \<times> 'w word \<times> 'w word"

record (overloaded) 'w MD5_CTX =
  md_state :: "'w md5_state"
  md_count0 :: "'w word"
  md_count1 :: "'w word"
  md_buffer :: "8 word list"

definition PADDING :: "8 word list" where
  "PADDING = 0x80 # replicate 63 0"

section \<open>Rounds\<close>

definition md5_F :: "('w :: len) word \<Rightarrow> 'w word \<Rightarrow> 'w word \<Rightarrow> 'w word" where
  "md5_F x y z = (x AND y) OR (NOT x AND z)"

definition md5_G :: "('w :: len) word \<Rightarrow> 'w word \<Rightarrow> 'w word \<Rightarrow> 'w word" where
  "md5_G x y z = (x AND z) OR (y AND NOT z)"

definition md5_H :: "('w :: len) word \<Rightarrow> 'w word \<Rightarrow> 'w word \<Rightarrow> 'w word" where
  "md5_H x y z = x XOR y XOR z"

definition md5_I :: "('w :: len) word \<Rightarrow> 'w word \<Rightarrow> 'w word \<Rightarrow> 'w word" where
  "md5_I x y z = y XOR (x OR NOT z)"

definition ROTATE_LEFT :: "('w :: len) word \<Rightarrow> nat \<Rightarrow> 'w word" where
  "ROTATE_LEFT x n = push_bit n x OR drop_bit (32 - n) x"

text \<open>
  One of the macros FF, GG, HH and II.  The registers are named in turn a b c d, d a b c, c d a b and
  b c d a; the result is in the order of the next line.
\<close>

definition md5_step :: "(('w :: len) word \<Rightarrow> 'w word \<Rightarrow> 'w word \<Rightarrow> 'w word) \<Rightarrow> 'w word list \<Rightarrow>
    nat \<times> nat \<times> 'w word \<Rightarrow> 'w md5_state \<Rightarrow> 'w md5_state" where
  "md5_step f x = (\<lambda>(k, s, ac) (a, b, c, d).
     (d, ROTATE_LEFT (a + (f b c d + x ! k + ac)) s + b, b, c))"

definition round1 :: "(nat \<times> nat \<times> ('w :: len) word) list" where
  "round1 = [(0, 7, 0xd76aa478), (1, 12, 0xe8c7b756), (2, 17, 0x242070db), (3, 22, 0xc1bdceee),
     (4, 7, 0xf57c0faf), (5, 12, 0x4787c62a), (6, 17, 0xa8304613), (7, 22, 0xfd469501),
     (8, 7, 0x698098d8), (9, 12, 0x8b44f7af), (10, 17, 0xffff5bb1), (11, 22, 0x895cd7be),
     (12, 7, 0x6b901122), (13, 12, 0xfd987193), (14, 17, 0xa679438e), (15, 22, 0x49b40821)]"

definition round2 :: "(nat \<times> nat \<times> ('w :: len) word) list" where
  "round2 = [(1, 5, 0xf61e2562), (6, 9, 0xc040b340), (11, 14, 0x265e5a51), (0, 20, 0xe9b6c7aa),
     (5, 5, 0xd62f105d), (10, 9, 0x2441453), (15, 14, 0xd8a1e681), (4, 20, 0xe7d3fbc8),
     (9, 5, 0x21e1cde6), (14, 9, 0xc33707d6), (3, 14, 0xf4d50d87), (8, 20, 0x455a14ed),
     (13, 5, 0xa9e3e905), (2, 9, 0xfcefa3f8), (7, 14, 0x676f02d9), (12, 20, 0x8d2a4c8a)]"

definition round3 :: "(nat \<times> nat \<times> ('w :: len) word) list" where
  "round3 = [(5, 4, 0xfffa3942), (8, 11, 0x8771f681), (11, 16, 0x6d9d6122), (14, 23, 0xfde5380c),
     (1, 4, 0xa4beea44), (4, 11, 0x4bdecfa9), (7, 16, 0xf6bb4b60), (10, 23, 0xbebfbc70),
     (13, 4, 0x289b7ec6), (0, 11, 0xeaa127fa), (3, 16, 0xd4ef3085), (6, 23, 0x4881d05),
     (9, 4, 0xd9d4d039), (12, 11, 0xe6db99e5), (15, 16, 0x1fa27cf8), (2, 23, 0xc4ac5665)]"

definition round4 :: "(nat \<times> nat \<times> ('w :: len) word) list" where
  "round4 = [(0, 6, 0xf4292244), (7, 10, 0x432aff97), (14, 15, 0xab9423a7), (5, 21, 0xfc93a039),
     (12, 6, 0x655b59c3), (3, 10, 0x8f0ccc92), (10, 15, 0xffeff47d), (1, 21, 0x85845dd1),
     (8, 6, 0x6fa87e4f), (15, 10, 0xfe2ce6e0), (6, 15, 0xa3014314), (13, 21, 0x4e0811a1),
     (4, 6, 0xf7537e82), (11, 10, 0xbd3af235), (2, 15, 0x2ad7d2bb), (9, 21, 0xeb86d391)]"

section \<open>Bytes and words\<close>

fun Encode :: "('w :: len) word list \<Rightarrow> 8 word list" where
  "Encode [] = []"
| "Encode (w # ws) = ucast w # ucast (drop_bit 8 w) # ucast (drop_bit 16 w) # ucast (drop_bit 24 w) # Encode ws"

fun Decode :: "8 word list \<Rightarrow> ('w :: len) word list" where
  "Decode (b0 # b1 # b2 # b3 # bs) =
     (ucast b0 OR push_bit 8 (ucast b1) OR push_bit 16 (ucast b2) OR push_bit 24 (ucast b3)) # Decode bs"
| "Decode bs = []"

definition MD5Transform :: "('w :: len) md5_state \<Rightarrow> 8 word list \<Rightarrow> 'w md5_state" where
  "MD5Transform st block =
     (let x = Decode block; (a0, b0, c0, d0) = st;
          (a, b, c, d) = fold (md5_step md5_I x) round4 (fold (md5_step md5_H x) round3
            (fold (md5_step md5_G x) round2 (fold (md5_step md5_F x) round1 st)))
      in (a0 + a, b0 + b, c0 + c, d0 + d))"

section \<open>Operations\<close>

definition MD5Init :: "('w :: len) MD5_CTX \<Rightarrow> 'w MD5_CTX" where
  "MD5Init ctx = ctx\<lparr>md_count0 := 0, md_count1 := 0,
     md_state := (0x67452301, 0xefcdab89, 0x98badcfe, 0x10325476)\<rparr>"

definition md5_index :: "('w :: len) MD5_CTX \<Rightarrow> nat" where
  "md5_index ctx = unat (drop_bit 3 (md_count0 ctx) AND 0x3F)"

text \<open>The loop over whole blocks of the input, with i and i + 63 unsigned int.\<close>

fun transform_loop :: "nat \<Rightarrow> nat \<Rightarrow> ('w :: len) md5_state \<Rightarrow> 8 word list \<Rightarrow> (nat \<times> 'w md5_state) option" where
  "transform_loop 0 i st inp = None"
| "transform_loop (Suc k) i st inp =
     (if (i + 63) mod 2 ^ 32 < length inp
      then if i + 64 \<le> length inp
           then transform_loop k ((i + 64) mod 2 ^ 32) (MD5Transform st (take 64 (drop i inp))) inp else None
      else Some (i, st))"

definition add_bits :: "nat \<Rightarrow> ('w :: len) MD5_CTX \<Rightarrow> 'w MD5_CTX" where
  "add_bits inputLen ctx =
     (let bits = push_bit 3 (word_of_nat inputLen); c0 = md_count0 ctx + bits;
          c1 = (if c0 < bits then md_count1 ctx + 1 else md_count1 ctx)
      in ctx\<lparr>md_count0 := c0, md_count1 := c1 + drop_bit 29 (word_of_nat inputLen)\<rparr>)"

definition MD5_memcpy :: "8 word list \<Rightarrow> nat \<Rightarrow> 8 word list \<Rightarrow> 8 word list" where
  "MD5_memcpy buf at inp = take at buf @ inp @ drop (at + length inp) buf"

definition MD5Update :: "('w :: len) MD5_CTX \<Rightarrow> 8 word list \<Rightarrow> 'w MD5_CTX option" where
  "MD5Update ctx inp =
     (let index = md5_index ctx; ctx1 = add_bits (length inp) ctx; partLen = 64 - index in
      if partLen \<le> length inp then
        let buf = MD5_memcpy (md_buffer ctx) index (take partLen inp)
        in case transform_loop (Suc (length inp)) partLen (MD5Transform (md_state ctx) buf) inp of
             None \<Rightarrow> None
           | Some (i, st) \<Rightarrow> Some (ctx1\<lparr>md_state := st, md_buffer := MD5_memcpy buf 0 (drop i inp)\<rparr>)
      else Some (ctx1\<lparr>md_buffer := MD5_memcpy (md_buffer ctx) index inp\<rparr>))"

text \<open>MD5Final leaves the context zeroed.\<close>

definition MD5Final :: "('w :: len) MD5_CTX \<Rightarrow> (8 word list \<times> 'w MD5_CTX) option" where
  "MD5Final ctx =
     (let bits = Encode [md_count0 ctx, md_count1 ctx]; index = md5_index ctx;
          padLen = (if index < 56 then 56 - index else 120 - index)
      in case MD5Update ctx (take padLen PADDING) of
           None \<Rightarrow> None
         | Some ctx1 \<Rightarrow> (case MD5Update ctx1 bits of
             None \<Rightarrow> None
           | Some ctx2 \<Rightarrow> (case md_state ctx2 of (a, b, c, d) \<Rightarrow>
               Some (Encode [a, b, c, d], \<lparr>md_state = (0, 0, 0, 0), md_count0 = 0, md_count1 = 0,
                  md_buffer = replicate 64 0\<rparr>))))"

section \<open>Whole blocks\<close>

fun md5_blocks :: "('w :: len) md5_state \<Rightarrow> 8 word list \<Rightarrow> 'w md5_state" where
  "md5_blocks st xs = (if length xs < 64 then st else md5_blocks (MD5Transform st (take 64 xs)) (drop 64 xs))"

declare md5_blocks.simps [simp del]

definition rest_of :: "'b list \<Rightarrow> 'b list" where
  "rest_of xs = drop (64 * (length xs div 64)) xs"

lemma rest_of_step: "64 \<le> length xs \<Longrightarrow> rest_of xs = rest_of (drop 64 xs)"
  by (simp add: rest_of_def le_div_geq add.commute)

lemma length_rest_of: "length (rest_of xs) = length xs mod 64"
  by (simp add: rest_of_def minus_mult_div_eq_mod)

lemma md5_blocks_append: "md5_blocks st (xs @ ys) = md5_blocks (md5_blocks st xs) (rest_of xs @ ys)"
proof (induction "length xs" arbitrary: xs st rule: less_induct)
  case less
  show ?case
  proof (cases "length xs < 64")
    case True
    then show ?thesis by (simp add: md5_blocks.simps [of st xs] rest_of_def)
  next
    case False
    then show ?thesis
      using less [of "drop 64 xs" "MD5Transform st (take 64 xs)"]
      by (simp add: md5_blocks.simps [of st xs] md5_blocks.simps [of st "xs @ ys"] rest_of_step [of xs])
  qed
qed

lemma transform_loop_run:
  "length inp + 64 \<le> 2 ^ 32 \<Longrightarrow> i \<le> length inp \<Longrightarrow> length inp < i + k \<Longrightarrow>
   transform_loop k i st inp = Some (length inp - length (rest_of (drop i inp)), md5_blocks st (drop i inp))"
proof (induction k arbitrary: i st)
  case (Suc k)
  show ?case
  proof (cases "i + 64 \<le> length inp")
    case True
    then have "\<not> length inp - i < 64" by simp
    with True show ?thesis
      using Suc by (simp add: md5_blocks.simps [of st "drop i inp"] rest_of_step [of "drop i inp"] add.commute)
  next
    case False
    then have "length inp - i < 64" by simp
    with False show ?thesis using Suc.prems by (simp add: md5_blocks.simps [of st "drop i inp"] rest_of_def)
  qed
qed simp

section \<open>The specification\<close>

text \<open>
  The digest of a whole message: pad with one bit and zeros to 56 bytes in the last block, append the
  number of bits as eight bytes, and transform block by block.
\<close>

definition md5_init_state :: "32 md5_state" where
  "md5_init_state = (0x67452301, 0xefcdab89, 0x98badcfe, 0x10325476)"

definition md5_pad :: "8 word list \<Rightarrow> 8 word list" where
  "md5_pad msg = msg @ 0x80 # replicate ((119 - length msg mod 64) mod 64) 0 @
     map (\<lambda>j. word_of_nat (8 * length msg div 256 ^ j)) [0..<8]"

definition md5_digest :: "8 word list \<Rightarrow> 8 word list" where
  "md5_digest msg = (case md5_blocks md5_init_state (md5_pad msg) of (a, b, c, d) \<Rightarrow> Encode [a, b, c, d])"

definition bit_count :: "32 MD5_CTX \<Rightarrow> nat" where
  "bit_count ctx = unat (md_count0 ctx) + 2 ^ 32 * unat (md_count1 ctx)"

definition after :: "8 word list \<Rightarrow> 32 MD5_CTX \<Rightarrow> bool" where
  "after msg ctx = (md_state ctx = md5_blocks md5_init_state msg \<and> bit_count ctx = 8 * length msg mod 2 ^ 64 \<and>
     length (md_buffer ctx) = 64 \<and> take (length msg mod 64) (md_buffer ctx) = rest_of msg)"

lemma unat_bits: "n < 2 ^ 32 \<Longrightarrow> unat (push_bit 3 (word_of_nat n) :: 32 word) = 8 * n mod 2 ^ 32"
  by (simp add: push_bit_eq_mult unat_word_ariths(2) unsigned_of_nat take_bit_nat_eq_self mult.commute)

lemma unat_high: "n < 2 ^ 32 \<Longrightarrow> unat (drop_bit 29 (word_of_nat n) :: 32 word) = 8 * n div 2 ^ 32"
  by (simp add: drop_bit_eq_div unat_div unsigned_of_nat take_bit_nat_eq_self)

lemma carry: "(c :: nat) < 2 ^ 32 \<Longrightarrow> b < 2 ^ 32 \<Longrightarrow>
   (c + b) mod 2 ^ 32 = (if (c + b) mod 2 ^ 32 < b then c + b - 2 ^ 32 else c + b) \<and>
   ((c + b) mod 2 ^ 32 < b \<longrightarrow> 2 ^ 32 \<le> c + b)"
  by (cases "c + b < 2 ^ 32") (auto simp: le_mod_geq)

lemma two_halves: "((x :: nat) + 2 ^ 32 * (y mod 2 ^ 32)) mod 2 ^ 64 = (x + 2 ^ 32 * y) mod 2 ^ 64"
proof -
  have "2 ^ 32 * (y mod 2 ^ 32) = (2 ^ 32 * y) mod (2 ^ 64 :: nat)" by (simp add: mult_mod_right)
  then show ?thesis by (simp add: mod_add_right_eq)
qed

lemma bit_count_less: "bit_count ctx < 2 ^ 64"
  using unsigned_less [of "md_count0 ctx", where 'a = nat] unsigned_less [of "md_count1 ctx", where 'a = nat] by (simp add: bit_count_def)

lemma bit_count_add: 
  assumes "n < 2 ^ 32" shows "bit_count (add_bits n ctx) = (bit_count ctx + 8 * n) mod 2 ^ 64"
proof -
  let ?b = "push_bit 3 (word_of_nat n) :: 32 word" and ?h = "drop_bit 29 (word_of_nat n) :: 32 word"
  let ?c0 = "unat (md_count0 ctx)" and ?c1 = "unat (md_count1 ctx)" and ?k = "if md_count0 ctx + ?b < ?b then 1 else 0 :: nat"
  have b: "8 * n = unat ?b + 2 ^ 32 * unat ?h"
    unfolding unat_bits [OF assms] unat_high [OF assms] by (rule mod_mult_div_eq [symmetric])
  have 0: "unat (md_count0 ctx + ?b) = (?c0 + unat ?b) mod 2 ^ 32" by (simp add: unat_word_ariths(1))
  have lt: "?c0 < 2 ^ 32" "unat ?b < 2 ^ 32" using unsigned_less [of "md_count0 ctx", where 'a = nat] unsigned_less [of ?b, where 'a = nat] by simp_all
  have 1: "unat (md_count0 ctx + ?b) + 2 ^ 32 * ?k = ?c0 + unat ?b"
    using carry [OF lt] 0 by (auto simp: word_less_nat_alt split: if_splits)
  have "unat ((if md_count0 ctx + ?b < ?b then md_count1 ctx + 1 else md_count1 ctx) + ?h) = (?c1 + ?k + unat ?h) mod 2 ^ 32"
    by (simp add: unat_word_ariths(1) mod_add_left_eq del: One_nat_def)
  then have "bit_count (add_bits n ctx) = unat (md_count0 ctx + ?b) + 2 ^ 32 * ((?c1 + ?k + unat ?h) mod 2 ^ 32)"
    by (simp add: bit_count_def add_bits_def Let_def)
  then have "bit_count (add_bits n ctx) = (unat (md_count0 ctx + ?b) + 2 ^ 32 * (?c1 + ?k + unat ?h)) mod 2 ^ 64"
    using bit_count_less [of "add_bits n ctx"] two_halves by (metis mod_less)
  also have "unat (md_count0 ctx + ?b) + 2 ^ 32 * (?c1 + ?k + unat ?h) = bit_count ctx + 8 * n"
    using 1 b by (simp add: bit_count_def algebra_simps)
  finally show ?thesis .
qed

lemma index_run: 
  assumes "bit_count ctx = 8 * n mod 2 ^ 64" shows "md5_index ctx = n mod 64"
proof -
  have "unat (md_count0 ctx) = bit_count ctx mod 2 ^ 32"
    using unsigned_less [of "md_count0 ctx", where 'a = nat] by (simp add: bit_count_def)
  also have "\<dots> = 8 * n mod 2 ^ 32" unfolding assms by (simp add: mod_mod_cancel)
  finally have "unat (md_count0 ctx) div 8 mod 64 = (8 * n mod 2 ^ 32) div 8 mod 64" by simp
  also have "(8 * n mod 2 ^ 32) div 8 = n mod 2 ^ 29"
    using mult_mod_right [of 8 n "2 ^ 29 :: nat"] by simp
  also have "n mod 2 ^ 29 mod 64 = n mod 64" by (simp add: mod_mod_cancel)
  finally have "unat (md_count0 ctx) div 8 mod 64 = n mod 64" .
  moreover have "(x :: nat) AND 63 = x mod 64" for x
    using take_bit_eq_mask [of 6 x] by (simp add: take_bit_eq_mod mask_eq_exp_minus_1)
  ultimately show ?thesis by (simp add: md5_index_def drop_bit_eq_div unat_div unsigned_and_eq)
qed

lemma rest_of_append: "rest_of (xs @ ys) = rest_of (rest_of xs @ ys)"
proof (induction "length xs" arbitrary: xs rule: less_induct)
  case less
  show ?case
  proof (cases "64 \<le> length xs")
    case True
    then show ?thesis using less [of "drop 64 xs"] rest_of_step [of "xs @ ys"] rest_of_step [of xs] by simp
  qed (simp add: rest_of_def)
qed

lemma add_bits_simps [simp]:
  "md_state (add_bits n ctx) = md_state ctx" "md_buffer (add_bits n ctx) = md_buffer ctx"
  by (simp_all add: add_bits_def Let_def)

lemma bit_count_update [simp]:
  "bit_count (ctx\<lparr>md_state := st\<rparr>) = bit_count ctx" "bit_count (ctx\<lparr>md_buffer := b\<rparr>) = bit_count ctx"
  by (simp_all add: bit_count_def)

lemma memcpy_props:
  "at + length inp \<le> length buf \<Longrightarrow> length (MD5_memcpy buf at inp) = length buf"
  "take (length inp) (MD5_memcpy buf 0 inp) = inp"
  by (simp_all add: MD5_memcpy_def)

lemma update_run:
  assumes "after msg ctx" "length inp + 64 \<le> 2 ^ 32"
  shows "\<exists>ctx'. MD5Update ctx inp = Some ctx' \<and> after (msg @ inp) ctx'"
proof -
  let ?k = "length msg mod 64" and ?p = "64 - length msg mod 64" and ?st = "md5_blocks md5_init_state msg"
  note a = assms(1) [unfolded after_def]
  have k: "md5_index ctx = ?k" using index_run a by blast
  have r: "length (rest_of msg) = ?k" by (rule length_rest_of)
  have "bit_count (add_bits (length inp) ctx) = 8 * length (msg @ inp) mod 2 ^ 64"
    using bit_count_add [of "length inp" ctx] assms(2) a by (simp add: mod_add_left_eq mod_add_right_eq algebra_simps)
  note count = this
  have st: "md5_blocks md5_init_state (msg @ inp) = md5_blocks ?st (rest_of msg @ inp)"
    by (rule md5_blocks_append)
  show ?thesis
  proof (cases "?p \<le> length inp")
    case True
    let ?buf = "rest_of msg @ take ?p inp"
    have buf: "MD5_memcpy (md_buffer ctx) ?k (take ?p inp) = ?buf" "length ?buf = 64"
      using a True r by (simp_all add: MD5_memcpy_def min_def)
    have "\<not> ?k + length inp < 64" using True by linarith
    then have "md5_blocks ?st (rest_of msg @ inp) = md5_blocks (MD5Transform ?st ?buf) (drop ?p inp)"
      using True r by (simp add: md5_blocks.simps [of ?st "rest_of msg @ inp"])
    then have blocks: "md5_blocks (MD5Transform ?st ?buf) (drop ?p inp) = md5_blocks md5_init_state (msg @ inp)"
      using st by simp
    have rest: "rest_of (drop ?p inp) = rest_of (msg @ inp)"
      using True r rest_of_step [of "rest_of msg @ inp"] by (subst rest_of_append) simp
    let ?r = "rest_of (msg @ inp)"
    let ?ctx = "add_bits (length inp) ctx\<lparr>md_state := md5_blocks md5_init_state (msg @ inp), md_buffer := MD5_memcpy ?buf 0 ?r\<rparr>"
    have loop: "transform_loop (Suc (length inp)) ?p (MD5Transform ?st ?buf) inp =
        Some (length inp - length ?r, md5_blocks md5_init_state (msg @ inp))"
      unfolding rest [symmetric] blocks [symmetric] by (rule transform_loop_run) (use True assms(2) in auto)
    have "drop (length inp - length (rest_of (drop ?p inp))) inp = rest_of (drop ?p inp)"
      using True by (simp add: rest_of_def)
    then have "drop (length inp - length ?r) inp = ?r" unfolding rest .
    then have "MD5Update ctx inp = Some ?ctx"
      using True a by (simp add: MD5Update_def Let_def k buf(1) loop del: transform_loop.simps)
    moreover have "after (msg @ inp) ?ctx"
      using count buf(2) length_rest_of [of "msg @ inp"] memcpy_props(2) [of ?r ?buf] memcpy_props(1) [of 0 ?r ?buf]
      by (simp add: after_def)
    ultimately show ?thesis by blast
  next
    case False
    have "(length msg + length inp) mod 64 = (?k + length inp) mod 64" by (simp add: mod_add_left_eq)
    then have len: "(length msg + length inp) mod 64 = ?k + length inp" using False by simp
    have short: "length (rest_of msg @ inp) < 64" using False r by simp
    then have "md5_blocks ?st (rest_of msg @ inp) = ?st" "rest_of (rest_of msg @ inp) = rest_of msg @ inp"
      using short by (simp_all add: md5_blocks.simps [of ?st "rest_of msg @ inp"] rest_of_def [of "rest_of msg @ inp"])
    then show ?thesis
      using count st False a r rest_of_append [of msg inp]
      by (simp add: MD5Update_def k Let_def after_def MD5_memcpy_def len)
  qed
qed

lemma byte_of_word: "(ucast (drop_bit k (w :: 32 word)) :: 8 word) = word_of_nat (drop_bit k (unat w))"
  by (simp flip: unat_drop_bit_eq)

lemma byte_of_bits: "k \<le> 56 \<Longrightarrow> (word_of_nat (drop_bit k (take_bit 64 n)) :: 8 word) = word_of_nat (drop_bit k n)"
  by (simp add: word_of_nat_eq_iff drop_bit_take_bit)

lemma Encode_count:
  assumes "bit_count ctx = 8 * n mod 2 ^ 64"
  shows "Encode [md_count0 ctx, md_count1 ctx] = map (\<lambda>j. word_of_nat (8 * n div 256 ^ j)) [0..<8]"
proof -
  have b: "bit_count ctx = take_bit 64 (8 * n)" using assms by (simp add: take_bit_eq_mod)
  have c0: "unat (md_count0 ctx) = take_bit 32 (take_bit 64 (8 * n))"
    using unsigned_less [of "md_count0 ctx", where 'a = nat]
    unfolding b [symmetric] take_bit_eq_mod [of 32] by (simp add: bit_count_def)
  have c1: "unat (md_count1 ctx) = drop_bit 32 (take_bit 64 (8 * n))"
    using unsigned_less [of "md_count0 ctx", where 'a = nat] by (simp flip: b add: bit_count_def drop_bit_eq_div)
  have low: "(ucast (drop_bit k (md_count0 ctx)) :: 8 word) = word_of_nat (drop_bit k (8 * n))" if "k \<le> 24" for k
    unfolding byte_of_word using that by (simp add: c0 word_of_nat_eq_iff drop_bit_take_bit)
  have high: "(ucast (drop_bit k (md_count1 ctx)) :: 8 word) = word_of_nat (drop_bit (k + 32) (8 * n))" if "k \<le> 24" for k
    unfolding byte_of_word using that byte_of_bits [of "k + 32" "8 * n"] by (simp add: c1)
  have "map (\<lambda>j. word_of_nat (8 * n div 256 ^ j)) [0..<8] =
      map (\<lambda>j. word_of_nat (drop_bit (8 * j) (8 * n)) :: 8 word) [0..<8]"
    by (simp add: drop_bit_eq_div power_mult)
  moreover have "[0..<8] = [0, 1, 2, 3, 4, 5, 6, 7 :: nat]" by (simp add: upt_rec)
  ultimately have digits: "map (\<lambda>j. word_of_nat (8 * n div 256 ^ j)) [0..<8] =
      map (\<lambda>j. word_of_nat (drop_bit (8 * j) (8 * n)) :: 8 word) [0, 1, 2, 3, 4, 5, 6, 7]" by simp
  show ?thesis
    unfolding digits using low [of 0] high [of 0] low [of 8] low [of 16] low [of 24] high [of 8] high [of 16] high [of 24] by simp
qed

lemma after_init: "length b = 64 \<Longrightarrow> after [] (MD5Init \<lparr>md_state = st, md_count0 = x, md_count1 = y, md_buffer = b\<rparr>)"
  by (simp add: after_def MD5Init_def md5_init_state_def bit_count_def rest_of_def md5_blocks.simps)

lemma final_run:
  assumes "after msg ctx" shows "\<exists>ctx'. MD5Final ctx = Some (md5_digest msg, ctx')"
proof -
  let ?k = "length msg mod 64"
  let ?p = "if ?k < 56 then 56 - ?k else 120 - ?k"
  have k: "md5_index ctx = ?k" using index_run assms by (auto simp: after_def)
  have p: "?p \<le> 64" "?p = Suc ((119 - ?k) mod 64)" by (auto simp: le_mod_geq)
  then have pad: "take ?p PADDING = 0x80 # replicate ((119 - ?k) mod 64) 0" by (simp add: PADDING_def min_def)
  have "length (take ?p PADDING) \<le> 64" using p(1) unfolding length_take by linarith
  then have "length (take ?p PADDING) + 64 \<le> 2 ^ 32" by simp
  then obtain ctx1 where 1: "MD5Update ctx (take ?p PADDING) = Some ctx1" "after (msg @ take ?p PADDING) ctx1"
    using update_run [OF assms] by blast
  let ?bits = "Encode [md_count0 ctx, md_count1 ctx]"
  have bits: "?bits = map (\<lambda>j. word_of_nat (8 * length msg div 256 ^ j)) [0..<8]"
    using assms by (intro Encode_count) (simp add: after_def)
  have "length ?bits + 64 \<le> 2 ^ 32" by simp
  then obtain ctx2 where 2: "MD5Update ctx1 ?bits = Some ctx2" "after ((msg @ take ?p PADDING) @ ?bits) ctx2"
    using update_run [OF 1(2)] by blast
  have "(msg @ take ?p PADDING) @ ?bits = md5_pad msg" unfolding pad bits by (simp add: md5_pad_def)
  then have "md_state ctx2 = md5_blocks md5_init_state (md5_pad msg)" using 2(2) by (simp add: after_def)
  then show ?thesis
    using 1(1) 2(1) by (auto simp: MD5Final_def Let_def k md5_digest_def split: prod.split)
qed

text \<open>Updating with several pieces one after the other.\<close>

fun update_all :: "('w :: len) MD5_CTX \<Rightarrow> 8 word list list \<Rightarrow> 'w MD5_CTX option" where
  "update_all ctx [] = Some ctx"
| "update_all ctx (p # ps) = (case MD5Update ctx p of None \<Rightarrow> None | Some ctx' \<Rightarrow> update_all ctx' ps)"

lemma updates_run:
  "after msg ctx \<Longrightarrow> list_all (\<lambda>p. length p + 64 \<le> 2 ^ 32) ps \<Longrightarrow>
   \<exists>ctx'. update_all ctx ps = Some ctx' \<and> after (msg @ concat ps) ctx'"
proof (induction ps arbitrary: msg ctx)
  case (Cons p ps)
  then obtain ctx1 where "MD5Update ctx p = Some ctx1" "after (msg @ p) ctx1" using update_run by fastforce
  then show ?case using Cons.IH [of "msg @ p" ctx1] Cons.prems(2) by auto
qed simp

text \<open>
  C32. Where UINT4 has 32 bits, initialising a context, updating it with the pieces of a message, however it is
  cut, and finishing it gives the digest of the whole message.
\<close>

theorem md5_streams:
  fixes ctx :: "32 MD5_CTX"
  assumes "length (md_buffer ctx) = 64" "list_all (\<lambda>p. length p + 64 \<le> 2 ^ 32) ps"
  shows "\<exists>ctx1 ctx2. update_all (MD5Init ctx) ps = Some ctx1 \<and> MD5Final ctx1 = Some (md5_digest (concat ps), ctx2)"
proof -
  have "after [] (MD5Init ctx)"
    using after_init [OF assms(1)] by (cases ctx) simp
  then show ?thesis using updates_run [OF _ assms(2)] final_run by fastforce
qed

definition blank_ctx :: "('w :: len) MD5_CTX" where
  "blank_ctx = \<lparr>md_state = (0, 0, 0, 0), md_count0 = 0, md_count1 = 0, md_buffer = replicate 64 0\<rparr>"

theorem md5_streams_witness:
  "\<exists>ctx1 ctx2. update_all (MD5Init (blank_ctx :: 32 MD5_CTX)) [[0x61], [0x62, 0x63]] = Some ctx1 \<and>
     MD5Final ctx1 = Some (md5_digest [0x61, 0x62, 0x63], ctx2)"
  using md5_streams [of blank_ctx "[[0x61], [0x62, 0x63]]"] by (simp add: blank_ctx_def)

text \<open>
  The macro ROTATE_LEFT rotates words of 32 bits; of a word of 64 bits it keeps the bits that leave the
  low half, so the digest is another function where UINT4 has 64 bits.
\<close>

theorem rotates_32_bits:
  "ROTATE_LEFT (x :: 32 word) (n mod 32) = word_rotl (n mod 32) x \<and>
   ROTATE_LEFT (0x80000000 :: 64 word) 1 = 0x100000001"
proof
  show "ROTATE_LEFT x (n mod 32) = word_rotl (n mod 32) x"
  proof (rule bit_word_eqI)
    fix k assume k: "k < LENGTH(32)"
    have m: "n mod 32 < 32" by simp
    have "(k + (32 - n mod 32)) mod 32 = (if k < n mod 32 then 32 - n mod 32 + k else k - n mod 32)"
      using k m by (auto simp: le_mod_geq)
    moreover have "\<not> bit x (32 - n mod 32 + k)" if "\<not> k < n mod 32"
      using that bit_imp_le_length [of x "32 - n mod 32 + k"] m by auto
    ultimately show "bit (ROTATE_LEFT x (n mod 32)) k = bit (word_rotl (n mod 32) x) k"
      using k by (auto simp add: ROTATE_LEFT_def bit_or_iff bit_push_bit_iff bit_drop_bit_eq bit_word_rotl_iff)
  qed
  show "ROTATE_LEFT (0x80000000 :: 64 word) 1 = 0x100000001" by code_simp
qed

end
