(* ===== verification/Data.thy ===== *)
theory Data
  imports Array_Theorems
begin

unbundle bit_operations_syntax

text \<open>
  Data of the C library as Lisp objects (slibu.c): options and flags as lists of symbols, broken-down times as
  association lists, binary data read from strings; type names, bit operations, property lists and argument
  lists (sliba.c).  Numbers of flags and file types are those of Linux on x86-64, memory is little-endian, int
  has 32 and long 64 bits.
\<close>

section \<open>Type names\<close>

fun type_name :: "obj option \<Rightarrow> string" where
  "type_name None = ''tc_nil''"
| "type_name (Some (Tc_cons a d)) = ''tc_cons''"
| "type_name (Some (Tc_flonum x)) = ''tc_flonum''"
| "type_name (Some (Tc_symbol p v)) = ''tc_symbol''"
| "type_name (Some (Tc_subr_0 n f)) = ''tc_subr_0''"
| "type_name (Some (Tc_subr_1 n f)) = ''tc_subr_1''"
| "type_name (Some (Tc_subr_2 n g)) = ''tc_subr_2''"
| "type_name (Some (Tc_subr_2n n g)) = ''tc_subr_2n''"
| "type_name (Some (Tc_subr_3 n h)) = ''tc_subr_3''"
| "type_name (Some (Tc_subr_4 n h4)) = ''tc_subr_4''"
| "type_name (Some (Tc_subr_5 n h5)) = ''tc_subr_5''"
| "type_name (Some (Tc_lsubr n f)) = ''tc_lsubr''"
| "type_name (Some (Tc_fsubr n g)) = ''tc_fsubr''"
| "type_name (Some (Tc_msubr n m)) = ''tc_msubr''"
| "type_name (Some (Tc_closure e c)) = ''tc_closure''"
| "type_name (Some (Tc_free_cell n)) = ''tc_free_cell''"
| "type_name (Some (Tc_string n b)) = ''tc_string''"
| "type_name (Some (Tc_byte_array n b)) = ''tc_byte_array''"
| "type_name (Some (Tc_c_file n f)) = ''tc_c_file''"
| "type_name (Some (Tc_double_array xs)) = ''tc_double_array''"
| "type_name (Some (Tc_long_array js)) = ''tc_long_array''"
| "type_name (Some (Tc_lisp_array rs)) = ''tc_lisp_array''"

definition siod_ltypeof :: "siod_LISP \<Rightarrow> siod_LISP act" where
  "siod_ltypeof x = bindM (look x) (\<lambda>ob. siod_cintern (type_name ob))"

section \<open>Bit operations\<close>

definition wrap :: "nat \<Rightarrow> int \<Rightarrow> int" where
  "wrap w i = (i + 2 ^ (w - 1)) mod 2 ^ w - 2 ^ (w - 1)"

text \<open>A shift by the width or more, and a left shift that leaves the range, are undefined.\<close>

definition siod_ash :: "siod_LISP \<Rightarrow> siod_LISP \<Rightarrow> siod_LISP act" where
  "siod_ash v n = bindM (siod_get_c_long v) (\<lambda>m. bindM (siod_get_c_long n) (\<lambda>k.
     if 64 \<le> \<bar>k\<bar> then undef
     else if 0 < k then (if m < 0 \<or> 2 ^ 63 \<le> push_bit (nat k) m then undef
       else siod_flocons (of_long (push_bit (nat k) m)))
     else siod_flocons (of_long (drop_bit (nat (- k)) m))))"

definition siod_bitand :: "siod_LISP \<Rightarrow> siod_LISP \<Rightarrow> siod_LISP act" where
  "siod_bitand a b = bindM (siod_get_c_long a) (\<lambda>m. bindM (siod_get_c_long b) (\<lambda>k.
     siod_flocons (of_long (m AND k))))"

definition siod_bitor :: "siod_LISP \<Rightarrow> siod_LISP \<Rightarrow> siod_LISP act" where
  "siod_bitor a b = bindM (siod_get_c_long a) (\<lambda>m. bindM (siod_get_c_long b) (\<lambda>k.
     siod_flocons (of_long (m OR k))))"

definition siod_bitxor :: "siod_LISP \<Rightarrow> siod_LISP \<Rightarrow> siod_LISP act" where
  "siod_bitxor a b = bindM (siod_get_c_long a) (\<lambda>m. bindM (siod_get_c_long b) (\<lambda>k.
     siod_flocons (of_long (m XOR k))))"

definition siod_bitnot :: "siod_LISP \<Rightarrow> siod_LISP act" where
  "siod_bitnot a = bindM (siod_get_c_long a) (\<lambda>m. siod_flocons (of_long (NOT m)))"

section \<open>Property and argument lists\<close>

fun getprop_loop :: "nat \<Rightarrow> siod_LISP \<Rightarrow> siod_LISP \<Rightarrow> siod_LISP act" where
  "getprop_loop 0 key l = nofuel"
| "getprop_loop (Suc k) key l =
     (if l = NIL then ret NIL
      else bindM (siod_car l) (\<lambda>x. if x = key then siod_cadr l
           else bindM (siod_cddr l) (getprop_loop k key)))"

definition siod_getprop :: "siod_LISP \<Rightarrow> siod_LISP \<Rightarrow> siod_LISP act" where
  "siod_getprop plist key = bindM (gets bound) (\<lambda>k. bindM (siod_cdr plist) (getprop_loop k key))"

definition siod_setprop :: "siod_LISP \<Rightarrow> siod_LISP \<Rightarrow> siod_LISP \<Rightarrow> siod_LISP act" where
  "siod_setprop plist key v = errm ''not implemented'' NIL"

definition siod_putprop :: "siod_LISP \<Rightarrow> siod_LISP \<Rightarrow> siod_LISP \<Rightarrow> siod_LISP act" where
  "siod_putprop plist v key = siod_setprop plist key v"

text \<open>
  The C function strchr finds the final NUL too, so an argument that is the empty string counts as a switch.
\<close>

definition is_switch :: "obj option \<Rightarrow> bool" where
  "is_switch ob = (case ob of
       Some (Tc_string n b) \<Rightarrow> (case cstr b of [] \<Rightarrow> True | c # _ \<Rightarrow> c \<in> set ''-:'')
     | _ \<Rightarrow> False)"

fun larg_loop :: "nat \<Rightarrow> int \<Rightarrow> int \<Rightarrow> siod_LISP \<Rightarrow> siod_LISP \<Rightarrow> siod_LISP act" where
  "larg_loop 0 n j dval l = nofuel"
| "larg_loop (Suc k) n j dval l =
     (if l = NIL then ret dval
      else bindM (siod_car l) (\<lambda>elem. bindM (look elem) (\<lambda>ob.
           if is_switch ob then bindM (siod_cdr l) (larg_loop k n j dval)
           else if j = n then ret elem
           else bindM (siod_cdr l) (larg_loop k n (j + 1) dval))))"

definition siod_larg_default :: "siod_LISP \<Rightarrow> siod_LISP \<Rightarrow> siod_LISP \<Rightarrow> siod_LISP act" where
  "siod_larg_default li x dval = bindM (gets bound) (\<lambda>k.
     bindM (siod_get_c_long x) (\<lambda>n. larg_loop k n 0 dval li))"

text \<open>The value of an argument of the form :key=value.\<close>

definition key_value :: "char list \<Rightarrow> obj option \<Rightarrow> char list option" where
  "key_value ckey ob = (case ob of
       Some (Tc_string n b) \<Rightarrow>
         if take (length ckey + 2) (cstr b) = CHR '':'' # ckey @ ''=''
         then Some (drop (length ckey + 2) (cstr b)) else None
     | _ \<Rightarrow> None)"

fun lkey_loop :: "nat \<Rightarrow> char list \<Rightarrow> siod_LISP \<Rightarrow> siod_LISP \<Rightarrow> siod_LISP act" where
  "lkey_loop 0 ckey dval l = nofuel"
| "lkey_loop (Suc k) ckey dval l =
     (if l = NIL then ret dval
      else bindM (siod_car l) (\<lambda>elem. bindM (look elem) (\<lambda>ob.
           case key_value ckey ob of
             Some st \<Rightarrow> siod_strcons st
           | None \<Rightarrow> bindM (siod_cdr l) (lkey_loop k ckey dval))))"

definition siod_lkey_default :: "siod_LISP \<Rightarrow> siod_LISP \<Rightarrow> siod_LISP \<Rightarrow> siod_LISP act" where
  "siod_lkey_default li key dval = bindM (gets bound) (\<lambda>k.
     bindM (get_c_string key) (\<lambda>ckey. lkey_loop k ckey dval li))"

text \<open>The argument list is passed by reference: the rest of it is returned with the value.\<close>

definition siod_poparg :: "siod_LISP \<Rightarrow> siod_LISP \<Rightarrow> (siod_LISP \<times> siod_LISP) act" where
  "siod_poparg p defaultv = (if p = NIL then ret (defaultv, p)
     else bindM (siod_car p) (\<lambda>v. bindM (siod_cdr p) (\<lambda>p'. ret (v, p'))))"

definition siod_verbose :: "siod_LISP \<Rightarrow> siod_LISP act" where
  "siod_verbose arg = bindM (if arg = NIL then ret ()
       else bindM (siod_car arg) (\<lambda>x. bindM (siod_get_c_long x) (\<lambda>n.
            modifyM (\<lambda>s. s\<lparr>siod_verbose_level := n\<rparr>))))
     (\<lambda>_. bindM (gets siod_verbose_level) (\<lambda>n. siod_flocons (of_long n)))"

definition siod_verbose_check :: "int \<Rightarrow> int act" where
  "siod_verbose_check level = gets (\<lambda>s. if level \<le> siod_verbose_level s then 1 else 0)"

section \<open>Binary data\<close>

text \<open>Numbers in memory, least byte first, and the IEEE 754 formats with the given exponent and fraction bits.\<close>

fun le_value :: "char list \<Rightarrow> nat" where
  "le_value [] = 0"
| "le_value (c # cs) = of_char c + 256 * le_value cs"

definition ieee_value :: "nat \<Rightarrow> nat \<Rightarrow> nat \<Rightarrow> double" where
  "ieee_value eb mb bits =
     (let neg = odd (bits div 2 ^ (eb + mb)); ex = bits div 2 ^ mb mod 2 ^ eb; m = int (bits mod 2 ^ mb);
          sg = (if neg then - 1 else 1); bias = 2 ^ (eb - 1) - 1
      in if ex = 2 ^ eb - 1 then (if m = 0 then DInf neg else DNaN)
         else if ex = 0 then (if m = 0 then DZero neg else dnorm (sg * m) (1 - bias - int mb))
         else dnorm (sg * (m + 2 ^ mb)) (int ex - bias - int mb))"

text \<open>The codes of the C types with their sizes, and the value of the bytes of one.\<close>

definition ctype_size :: "int \<Rightarrow> nat option" where
  "ctype_size ctype =
     (if ctype \<in> {3, 4} then Some 1 else if ctype \<in> {5, 6} then Some 2
      else if ctype \<in> {1, 7, 8} then Some 4 else if ctype \<in> {2, 9, 10} then Some 8 else None)"

definition ctype_value :: "int \<Rightarrow> char list \<Rightarrow> double" where
  "ctype_value ctype bs =
     (if ctype = 1 then ieee_value 8 23 (le_value bs)
      else if ctype = 2 then ieee_value 11 52 (le_value bs)
      else if ctype \<in> {3, 5, 7, 9} then of_long (wrap (8 * length bs) (int (le_value bs)))
      else of_long (int (le_value bs)))"

definition siod_err_large_index :: "siod_LISP \<Rightarrow> siod_LISP act" where
  "siod_err_large_index ind = errm ''index too large'' ind"

definition siod_datref :: "siod_LISP \<Rightarrow> siod_LISP \<Rightarrow> siod_LISP \<Rightarrow> siod_LISP act" where
  "siod_datref dat ctype ind = bindM (get_c_siod_string_dim dat) (\<lambda>data.
     bindM (siod_get_c_long ind) (\<lambda>i.
     if i < 0 then errm ''negative index'' ind
     else bindM (siod_get_c_long ctype) (\<lambda>c. case ctype_size c of
         None \<Rightarrow> errm ''unknown CTYPE'' ctype
       | Some sz \<Rightarrow>
           if 2 ^ 63 \<le> (i + 1) * int sz then undef
           else if int (length data) < (i + 1) * int sz then siod_err_large_index ind
           else siod_flocons (ctype_value c (take sz (drop (nat i * sz) data))))))"

definition siod_ssiod_datref :: "siod_LISP \<Rightarrow> siod_LISP \<Rightarrow> siod_LISP act" where
  "siod_ssiod_datref spec dat = bindM (siod_car spec) (\<lambda>c. bindM (siod_cdr spec) (siod_datref dat c))"

definition siod_datlength :: "siod_LISP \<Rightarrow> siod_LISP \<Rightarrow> siod_LISP act" where
  "siod_datlength dat ctype = bindM (get_c_siod_string_dim dat) (\<lambda>data.
     bindM (siod_get_c_long ctype) (\<lambda>c. case ctype_size c of
         None \<Rightarrow> errm ''unknown CTYPE'' ctype
       | Some sz \<Rightarrow> siod_flocons (of_long (int (length data div sz)))))"

section \<open>Options\<close>

text \<open>The mask of the positions of l that name an option is an int; from 31 options on the shifts are undefined.\<close>

fun options_loop :: "siod_LISP \<Rightarrow> (string \<times> nat) list \<Rightarrow> nat \<Rightarrow> int \<Rightarrow> nat \<Rightarrow> (nat \<times> int \<times> nat) act" where
  "options_loop l [] result noptions nmask = ret (result, noptions, nmask)"
| "options_loop l ((name, val) # syms) result noptions nmask = bindM (siod_cintern name) (\<lambda>lsym.
     bindM (gets (\<lambda>s. is_cons (obj_at s l))) (\<lambda>c.
     bindM (if l = lsym then ret NIL else if c then siod_memq lsym l else ret NIL) (\<lambda>lp.
     if l = lsym \<or> lp \<noteq> NIL then
       (if 0 < noptions then bindM (siod_llength lp) (\<lambda>n. bindM (siod_get_c_long n) (\<lambda>len.
          if noptions - len < 0 \<or> 31 \<le> noptions - len then undef
          else options_loop l syms (result OR val) noptions (nmask OR push_bit (nat (noptions - len)) 1)))
        else options_loop l syms (result OR val) (- 2) nmask)
     else options_loop l syms result noptions nmask)))"

definition siod_assemble_options :: "siod_LISP \<Rightarrow> (string \<times> nat) list \<Rightarrow> nat act" where
  "siod_assemble_options l syms = (if l = NIL then ret 0
     else bindM (gets (\<lambda>s. is_cons (obj_at s l))) (\<lambda>c.
       bindM (if c then bindM (siod_llength l) siod_get_c_long else ret (- 1)) (\<lambda>n.
       bindM (options_loop l syms 0 n 0) (\<lambda>(result, noptions, nmask).
       if noptions = - 1 then errm ''contains undefined options'' l
       else if 31 \<le> noptions then undef
       else if 0 < noptions \<and> nmask \<noteq> push_bit (nat noptions) 1 - 1
       then errm ''contains undefined options'' l
       else ret result))))"

definition mode_bits :: "(string \<times> nat) list" where
  "mode_bits = [(''SUID'', 0x800), (''SGID'', 0x400), (''RUSR'', 0x100), (''WUSR'', 0x80), (''XUSR'', 0x40),
     (''RGRP'', 0x20), (''WGRP'', 0x10), (''XGRP'', 8), (''ROTH'', 4), (''WOTH'', 2), (''XOTH'', 1)]"

definition mode_types :: "(string \<times> nat) list" where
  "mode_types = [(''FIFO'', 0x1000), (''DIR'', 0x4000), (''CHR'', 0x2000), (''BLK'', 0x6000),
     (''REG'', 0x8000), (''LNK'', 0xA000), (''SOCK'', 0xC000)]"

definition siod_encode_st_mode :: "siod_LISP \<Rightarrow> siod_LISP act" where
  "siod_encode_st_mode l = bindM (siod_assemble_options l mode_bits) (\<lambda>n. siod_flocons (of_long (int n)))"

fun cons_symbols :: "string list \<Rightarrow> siod_LISP \<Rightarrow> siod_LISP act" where
  "cons_symbols [] r = ret r"
| "cons_symbols (n # ns) r = bindM (siod_cintern n) (\<lambda>sy. bindM (siod_cons sy r) (cons_symbols ns))"

definition mode_names :: "nat \<Rightarrow> string list" where
  "mode_names mode = map fst (filter (\<lambda>(n, b). mode AND b \<noteq> 0) mode_bits) @
     map fst (filter (\<lambda>(n, t). mode AND 0xF000 = t) mode_types)"

definition siod_decode_st_moden :: "nat \<Rightarrow> siod_LISP act" where
  "siod_decode_st_moden mode = cons_symbols (mode_names mode) NIL"

definition siod_decode_st_mode :: "siod_LISP \<Rightarrow> siod_LISP act" where
  "siod_decode_st_mode v = bindM (siod_get_c_long v) (\<lambda>i. siod_decode_st_moden (nat (i mod 2 ^ 32)))"

definition siod_encode_open_flags :: "siod_LISP \<Rightarrow> siod_LISP act" where
  "siod_encode_open_flags l = bindM (siod_assemble_options l
       [(''NONBLOCK'', 0x800), (''APPEND'', 0x400), (''RDONLY'', 0), (''WRONLY'', 1), (''RDWR'', 2),
        (''CREAT'', 0x40), (''TRUNC'', 0x200), (''EXCL'', 0x80)]) (\<lambda>n. siod_flocons (of_long (int n)))"

section \<open>Structures as association lists\<close>

text \<open>The keys and the values of the arguments; result is the list built and l its last cons.\<close>

fun symalist_loop :: "(string \<times> siod_LISP) list \<Rightarrow> siod_LISP \<Rightarrow> unit act" where
  "symalist_loop [] l = ret ()"
| "symalist_loop ((key, val) # args) l = bindM (siod_cintern key) (\<lambda>sy. bindM (siod_cons sy val) (\<lambda>p.
     bindM (siod_cons p NIL) (\<lambda>c. bindM (SET_CDR l c) (\<lambda>_. symalist_loop args c))))"

fun siod_symalist :: "(string \<times> siod_LISP) list \<Rightarrow> siod_LISP act" where
  "siod_symalist [] = ret NIL"
| "siod_symalist ((arg, val) # args) = bindM (siod_cintern arg) (\<lambda>sy. bindM (siod_cons sy val) (\<lambda>p.
     bindM (siod_cons p NIL) (\<lambda>result. bindM (symalist_loop args result) (\<lambda>_. ret result))))"

record tm =
  tm_sec :: int
  tm_min :: int
  tm_hour :: int
  tm_mday :: int
  tm_mon :: int
  tm_year :: int
  tm_wday :: int
  tm_yday :: int
  tm_isdst :: int

definition tm_fields :: "tm \<Rightarrow> (string \<times> int) list" where
  "tm_fields t = [(''sec'', tm_sec t), (''min'', tm_min t), (''hour'', tm_hour t), (''mday'', tm_mday t),
     (''mon'', tm_mon t), (''year'', tm_year t), (''wday'', tm_wday t), (''yday'', tm_yday t),
     (''isdst'', tm_isdst t)]"

fun number_fields :: "(string \<times> int) list \<Rightarrow> (string \<times> siod_LISP) list act" where
  "number_fields [] = ret []"
| "number_fields ((key, i) # fs) = bindM (siod_flocons (of_long i)) (\<lambda>x.
     bindM (number_fields fs) (\<lambda>args. ret ((key, x) # args)))"

definition siod_decode_tm :: "tm \<Rightarrow> siod_LISP act" where
  "siod_decode_tm t = bindM (number_fields (tm_fields t)) siod_symalist"

definition tm_field :: "siod_LISP \<Rightarrow> string \<Rightarrow> int \<Rightarrow> int act" where
  "tm_field alist key dflt = bindM (siod_cintern key) (\<lambda>sy. bindM (siod_assq sy alist) (\<lambda>p.
     bindM (siod_cdr p) (\<lambda>val. if val = NIL then ret dflt
       else bindM (siod_get_c_long val) (\<lambda>i. ret (wrap 32 i)))))"

definition siod_encode_tm :: "siod_LISP \<Rightarrow> tm act" where
  "siod_encode_tm alist =
     bindM (tm_field alist ''sec'' 0) (\<lambda>sec. bindM (tm_field alist ''min'' 0) (\<lambda>mi.
     bindM (tm_field alist ''hour'' 0) (\<lambda>hour. bindM (tm_field alist ''mday'' 0) (\<lambda>mday.
     bindM (tm_field alist ''mon'' 0) (\<lambda>mon. bindM (tm_field alist ''year'' 0) (\<lambda>year.
     bindM (tm_field alist ''wday'' 0) (\<lambda>wday. bindM (tm_field alist ''yday'' 0) (\<lambda>yday.
     bindM (tm_field alist ''isdst'' (- 1)) (\<lambda>isdst.
       ret \<lparr>tm_sec = sec, tm_min = mi, tm_hour = hour, tm_mday = mday, tm_mon = mon, tm_year = year,
         tm_wday = wday, tm_yday = yday, tm_isdst = isdst\<rparr>)))))))))"

record stat =
  st_dev :: int
  st_ino :: int
  st_mode :: nat
  st_nlink :: int
  st_uid :: int
  st_gid :: int
  st_rdev :: int
  st_size :: int
  st_atime :: int
  st_mtime :: int
  st_ctime :: int
  st_blksize :: int
  st_blocks :: int

definition siod_decode_stat :: "stat \<Rightarrow> siod_LISP act" where
  "siod_decode_stat st = bindM (number_fields [(''dev'', st_dev st), (''ino'', st_ino st)]) (\<lambda>a.
     bindM (siod_decode_st_moden (st_mode st)) (\<lambda>mode.
     bindM (number_fields [(''nlink'', st_nlink st), (''uid'', st_uid st), (''gid'', st_gid st),
       (''rdev'', st_rdev st), (''size'', st_size st), (''atime'', st_atime st), (''mtime'', st_mtime st),
       (''ctime'', st_ctime st), (''blksize'', st_blksize st), (''blocks'', st_blocks st)]) (\<lambda>b.
     siod_symalist (a @ (''mode'', mode) # b))))"

definition strfield :: "string \<Rightarrow> siod_LISP \<Rightarrow> string act" where
  "strfield name alist = bindM (siod_rintern name) (\<lambda>key. bindM (siod_assq key alist) (\<lambda>v.
     if v = NIL then ret [] else bindM (siod_cdr v) get_c_string))"

definition siod_longfield :: "string \<Rightarrow> siod_LISP \<Rightarrow> int act" where
  "siod_longfield name alist = bindM (siod_rintern name) (\<lambda>key. bindM (siod_assq key alist) (\<lambda>v.
     if v = NIL then ret 0 else bindM (siod_cdr v) siod_get_c_long))"

section \<open>Well-formedness\<close>

lemma okM_option:
  "(x = None \<Longrightarrow> okM s m Q) \<Longrightarrow> (\<And>v. x = Some v \<Longrightarrow> okM s (f v) Q) \<Longrightarrow>
   okM s (case x of None \<Rightarrow> m | Some v \<Rightarrow> f v) Q"
  by (cases x) simp_all

lemma okM_look_seq:
  assumes "list_all (ref_ok s) xs" "\<And>ob. list_all (ref_ok s) xs \<Longrightarrow> okM s (f ob) Q"
  shows "okM s (bindM (look r) f) Q"
  using assms by (auto intro: okM_look)

lemma ok_ltypeof [sound_rules]: "okR s (siod_ltypeof x)"
  unfolding siod_ltypeof_def by (rule okM_look) (rule ok_interns)

lemma ok_bit_operations [sound_rules]:
  "okR s (siod_ash x y)" "okR s (siod_bitand x y)" "okR s (siod_bitor x y)" "okR s (siod_bitxor x y)"
  "okR s (siod_bitnot x)"
  unfolding siod_ash_def siod_bitand_def siod_bitor_def siod_bitxor_def siod_bitnot_def
  by (intro okU_bind [OF ok_get_c_long] okM_if okM_stop ok_flocons)+

lemma ok_getprop_loop: "okR s (getprop_loop k key l)"
proof (induction k arbitrary: s l)
  case (Suc k)
  then show ?case by (auto intro!: okM_if okM_ret okR_bind [OF ok_car] ok_cxr okR_bind [OF ok_cxr(4)])
qed (simp add: sound_rules)

lemma ok_properties [sound_rules]: "okR s (siod_getprop x y)" "okR s (siod_setprop x y z)" "okR s (siod_putprop x y z)"
  unfolding siod_getprop_def siod_setprop_def siod_putprop_def
  by (intro okM_bind_gets okR_bind [OF ok_cdr] ok_getprop_loop okM_err; simp)+

lemma ok_larg_loop: "ref_ok s d \<Longrightarrow> okR s (larg_loop k n j d l)"
proof (induction k arbitrary: s j l)
  case (Suc k)
  have "list_all (ref_ok s) [d]" using Suc.prems by simp
  then show ?case
    unfolding larg_loop.simps
    by - (rule okM_if okM_ret ok_car ok_cdr Suc.IH | erule okR_seq okM_look_seq | (simp; fail))+
qed (simp add: sound_rules)

lemma ok_lkey_loop: "ref_ok s d \<Longrightarrow> okR s (lkey_loop k key d l)"
proof (induction k arbitrary: s l)
  case (Suc k)
  have "list_all (ref_ok s) [d]" using Suc.prems by simp
  then show ?case
    unfolding lkey_loop.simps
    by - (rule okM_if okM_ret ok_car ok_cdr okM_option ok_strcons Suc.IH | erule okR_seq okM_look_seq | (simp; fail))+
qed (simp add: sound_rules)

lemma ok_argument_lists [sound_rules]:
  "ref_ok s d \<Longrightarrow> okR s (siod_larg_default l x d)" "ref_ok s d \<Longrightarrow> okR s (siod_lkey_default l x d)"
  unfolding siod_larg_default_def siod_lkey_default_def
  by (intro okM_bind_gets okU_bind [OF ok_get_c_string] okU_bind [OF ok_get_c_long] ok_larg_loop ok_lkey_loop;
      auto intro: ref_ok_later)+

lemma ok_poparg: "ref_ok s p \<Longrightarrow> ref_ok s d \<Longrightarrow> okM s (siod_poparg p d) (\<lambda>(v, p') s'. ref_ok s' v \<and> ref_ok s' p')"
  unfolding siod_poparg_def
  by (auto intro!: okM_if okM_ret okR_bind [OF ok_car] okR_bind [OF ok_cdr] intro: ref_ok_later)

lemma ok_set_verbose: "okU s (modifyM (\<lambda>s. s\<lparr>siod_verbose_level := n\<rparr>))"
  using wf_frame [of "s\<lparr>siod_verbose_level := n\<rparr>" s]
  by (simp add: okM_def modifyM_def globals_def constants_def top_level_def)

lemma ok_verbose [sound_rules]: "okR s (siod_verbose x)"
  unfolding siod_verbose_def
  by (intro okU_bind okM_if okM_bind_gets ok_flocons okM_ret okR_bind [OF ok_car] okU_bind [OF ok_get_c_long]
      ok_set_verbose TrueI)

lemma ok_verbose_check: "okU s (siod_verbose_check n)"
  unfolding siod_verbose_check_def by (rule okM_gets) simp

lemma ok_options_loop: "ref_ok s l \<Longrightarrow> okU s (options_loop l syms r n m)"
proof (induction syms arbitrary: s r n m)
  case (Cons p syms)
  obtain name val where p: "p = (name, val)" by (cases p)
  have "list_all (ref_ok s) [l]" using Cons.prems by simp
  then show ?case
    unfolding p options_loop.simps
    by - (rule okM_if okM_ret ok_interns okM_bind_gets ok_searches ok_llength ok_get_c_long okM_stop Cons.IH
      | erule okR_seq okU_seq | (simp; fail))+
qed (simp add: okM_ret)

lemma ok_assemble_options: "ref_ok s l \<Longrightarrow> okU s (siod_assemble_options l syms)"
proof -
  assume "ref_ok s l"
  then have l: "list_all (ref_ok s) [l]" by simp
  have n: "okU s' (bindM (siod_llength l) siod_get_c_long)" if "list_all (ref_ok s') [l]" for s'
    using that by (intro okR_bind [OF ok_llength] ok_get_c_long) simp
  have rest: "okU s' (case r of (result, noptions, nmask) \<Rightarrow>
       if noptions = - 1 then errm ''contains undefined options'' l
       else if 31 \<le> noptions then undef
       else if 0 < noptions \<and> nmask \<noteq> push_bit (nat noptions) 1 - 1
       then errm ''contains undefined options'' l
       else ret result)" if "list_all (ref_ok s') [l]" for s' r
    using that by (cases r) (auto intro!: okM_if okM_err okM_stop okM_ret)
  show ?thesis
    unfolding siod_assemble_options_def using l
    by - (rule okM_if okM_ret okM_bind_gets n ok_options_loop rest | erule okU_seq | (simp; fail))+
qed

lemma ok_cons_symbols: "ref_ok s r \<Longrightarrow> okR s (cons_symbols ns r)"
  by (induction ns arbitrary: s r)
    (auto intro!: okM_ret okR_bind [OF ok_interns(1)] okR_bind [OF ok_cons] intro: ref_ok_later)

lemma ok_symalist_loop: "list_all (ref_ok s) (map snd args) \<Longrightarrow> okU s (symalist_loop args l)"
proof (induction args arbitrary: s l)
  case (Cons p args)
  obtain key val where p: "p = (key, val)" by (cases p)
  have "list_all (ref_ok s) (val # map snd args)" using Cons.prems p by simp
  then show ?case
    unfolding p symalist_loop.simps
    by - (rule ok_interns(1) ok_cons ok_SET_CDR Cons.IH | erule okR_seq okU_seq | (simp; fail))+
qed (simp add: okM_ret)

lemma ok_symalist: "list_all (ref_ok s) (map snd args) \<Longrightarrow> okR s (siod_symalist args)"
proof (cases args)
  case (Cons p as)
  obtain key val where p: "p = (key, val)" by (cases p)
  assume "list_all (ref_ok s) (map snd args)"
  then have "list_all (ref_ok s) (val # map snd as)" using Cons p by simp
  then show ?thesis
    unfolding Cons p siod_symalist.simps
    by - (rule ok_interns(1) ok_cons ok_symalist_loop okM_ret | erule okR_seq okU_seq | (simp; fail))+
qed (simp add: okM_ret)

lemma ok_number_fields: "okM s (number_fields fs) (\<lambda>args s'. list_all (ref_ok s') (map snd args))"
proof (induction fs arbitrary: s)
  case (Cons f fs)
  obtain key i where f: "f = (key, i)" by (cases f)
  show ?case
    unfolding f number_fields.simps
    by (rule okR_bind [OF ok_flocons], rule okM_bind [OF Cons.IH]) (auto intro!: okM_ret intro: ref_ok_later)
qed (simp add: okM_ret)

lemma ok_number_seq:
  assumes "list_all (ref_ok s) xs" "\<And>args s'. list_all (ref_ok s') (map snd args @ xs) \<Longrightarrow> okM s' (f args) Q"
  shows "okM s (bindM (number_fields fs) f) Q"
  by (rule okM_bind [OF ok_number_fields]) (auto intro!: assms(2) list_ok_later [OF _ assms(1)])

lemma ok_structures [sound_rules]:
  "okR s (siod_decode_tm t)" "okR s (siod_decode_st_moden m)" "okR s (siod_decode_st_mode x)"
  "ref_ok s l \<Longrightarrow> okR s (siod_encode_st_mode l)" "ref_ok s l \<Longrightarrow> okR s (siod_encode_open_flags l)"
  unfolding siod_decode_tm_def siod_decode_st_mode_def siod_decode_st_moden_def siod_encode_st_mode_def
    siod_encode_open_flags_def
  by (intro okM_bind [OF ok_number_fields] ok_symalist okU_bind [OF ok_get_c_long] ok_cons_symbols
      okU_bind [OF ok_assemble_options] ok_flocons; simp)+

lemma ok_decode_stat [sound_rules]: "okR s (siod_decode_stat st)"
proof -
  have "list_all (ref_ok s) []" by simp
  then show ?thesis
    unfolding siod_decode_stat_def
    by - (rule ok_structures(2) ok_symalist | erule ok_number_seq okR_seq | (simp; fail))+
qed

lemma ok_tm_field: "ref_ok s al \<Longrightarrow> okU s (tm_field al key d)"
proof -
  assume "ref_ok s al"
  then have "list_all (ref_ok s) [al]" by simp
  then show ?thesis
    unfolding tm_field_def
    by - (rule ok_interns(1) ok_searches ok_cdr okM_if okM_ret ok_get_c_long TrueI | erule okR_seq okU_seq | (simp; fail))+
qed

lemma ok_encode_tm: "ref_ok s al \<Longrightarrow> okU s (siod_encode_tm al)"
proof -
  assume "ref_ok s al"
  then have "list_all (ref_ok s) [al]" by simp
  then show ?thesis
    unfolding siod_encode_tm_def
    by - (rule ok_tm_field okM_ret TrueI | erule okU_seq | (simp; fail))+
qed

lemma ok_fields: "ref_ok s al \<Longrightarrow> okU s (strfield n al)" "ref_ok s al \<Longrightarrow> okU s (siod_longfield n al)"
proof -
  assume "ref_ok s al"
  then have "list_all (ref_ok s) [al]" by simp
  then show "okU s (strfield n al)" "okU s (siod_longfield n al)"
    unfolding strfield_def siod_longfield_def
    by - (rule ok_interns ok_searches ok_cdr okM_if okM_ret ok_get_c_long ok_get_c_string TrueI
      | erule okR_seq okU_seq | (simp; fail))+
qed

lemma ok_datref [sound_rules]:
  assumes "ref_ok s ctype" "ref_ok s ind" shows "okR s (siod_datref dat ctype ind)" "okR s (siod_datlength dat ctype)"
proof -
  have l: "list_all (ref_ok s) [ctype, ind]" using assms by simp
  show "okR s (siod_datref dat ctype ind)" "okR s (siod_datlength dat ctype)"
    unfolding siod_datref_def siod_datlength_def siod_err_large_index_def using l
    by - (rule ok_get_c_siod_string_dim ok_get_c_long okM_if okM_err okM_option okM_stop ok_flocons
      | erule okU_seq | (simp; fail))+
qed

section \<open>What is read from memory\<close>

lemma le_value_bytes:
  "int (le_value (map (\<lambda>j. char_of ((i div 256 ^ j) mod 256 :: int)) [0..<k])) = i mod 256 ^ k"
proof (induction k arbitrary: i)
  case (Suc k)
  have "map (\<lambda>j. char_of ((i div 256 ^ j) mod 256)) [0..<Suc k] =
      char_of (i mod 256) # map (\<lambda>j. char_of (((i div 256) div 256 ^ j) mod 256)) [0..<k]"
    by (simp only: upt_conv_Cons [OF zero_less_Suc] list.map)
      (simp add: map_Suc_upt [symmetric] zdiv_zmult2_eq o_def del: upt_Suc)
  moreover have "int (of_char (char_of (i mod 256) :: char)) = i mod 256"
  proof -
    have "int (of_char (char_of (i mod 256) :: char)) = of_char (char_of (i mod 256) :: char)" by (simp add: of_char_def)
    then show ?thesis by simp
  qed
  ultimately have "int (le_value (map (\<lambda>j. char_of ((i div 256 ^ j) mod 256)) [0..<Suc k])) =
      i mod 256 + 256 * (i div 256 mod 256 ^ k)"
    using Suc [of "i div 256"] by simp
  then show ?case by (simp add: zmod_zmult2_eq add.commute)
qed simp

lemma length_long_bytes [simp]: "length (long_bytes i) = 8"
  by (simp add: long_bytes_def)

lemma long_bytes_value:
  assumes "- (2 ^ 63) \<le> i" "i < 2 ^ 63"
  shows "ctype_value 9 (long_bytes i) = of_long i"
proof -
  have "int (le_value (long_bytes i)) = i mod 256 ^ 8" unfolding long_bytes_def by (rule le_value_bytes)
  moreover have "wrap 64 (i mod 256 ^ 8) = i" using assms by (simp add: wrap_def mod_add_left_eq)
  ultimately show ?thesis by (simp add: ctype_value_def)
qed

lemma long_bytes_slice: "k < length xs \<Longrightarrow> take 8 (drop (k * 8) (concat (map long_bytes xs))) = long_bytes (xs ! k)"
proof (induction xs arbitrary: k)
  case (Cons x xs)
  then show ?case by (cases k) (simp_all add: add.commute)
qed simp

lemma length_long_data: "length (concat (map long_bytes xs)) = 8 * length xs"
  by (induction xs) simp_all

text \<open>
  Reading a long from an array of longs gives the element, or reports an index behind the end.
\<close>

theorem datref_long:
  assumes "obj_at s a = Some (Tc_long_array xs)" "list_all (\<lambda>i. - (2 ^ 63) \<le> i \<and> i < 2 ^ 63) xs"
    "obj_at s c = Some (Tc_flonum (of_long 9))" "obj_at s i = Some (Tc_flonum (of_long (int k)))" "k < 2 ^ 53"
  shows "siod_datref a c i s =
    (if k < length xs then siod_flocons (of_long (xs ! k)) s else errm ''index too large'' i s)"
proof -
  have "get_c_siod_string_dim a s = (Ret (concat (map long_bytes xs)), s)"
    by (simp add: get_c_siod_string_dim_def bind_run obj_at_look [OF assms(1)])
  moreover have "siod_get_c_long c s = (Ret 9, s)" "siod_get_c_long i s = (Ret (int k), s)"
    using assms by (simp_all add: siod_get_c_long_def bind_run flonm_run c_long_of_long)
  moreover have "(int k + 1) * 8 < 2 ^ 63" using assms(5) by simp
  moreover have "ctype_value 9 (long_bytes (xs ! k)) = of_long (xs ! k)" if "k < length xs"
    using assms(2) that by (intro long_bytes_value) (auto simp: list_all_length)
  ultimately show ?thesis
    by (auto simp: siod_datref_def siod_err_large_index_def bind_run ctype_size_def length_long_data long_bytes_slice)
qed

theorem datref_long_witness:
  "siod_datref (Ref 1) (Ref 2) (Ref 3) (small_state [Tc_long_array [- 5, 7], Tc_flonum (of_long 9), Tc_flonum (of_long 1)])
   = siod_flocons (of_long 7) (small_state [Tc_long_array [- 5, 7], Tc_flonum (of_long 9), Tc_flonum (of_long 1)])"
proof -
  define s where "s = small_state [Tc_long_array [- 5, 7], Tc_flonum (of_long 9), Tc_flonum (of_long 1)]"
  have "obj_at s (Ref 1) = Some (Tc_long_array [- 5, 7])" "obj_at s (Ref 2) = Some (Tc_flonum (of_long 9))"
    "obj_at s (Ref 3) = Some (Tc_flonum (of_long (int 1)))"
    by (simp_all add: s_def small_state_def obj_at_def)
  then show ?thesis using datref_long [of s "Ref 1" "[- 5, 7]" "Ref 2" "Ref 3" 1] by (simp add: s_def)
qed

end
