(* ===== verification/Printf.thy ===== *)
theory Printf
  imports Data Codecs
begin

text \<open>
  Numbers in text: the conversions of the C library that the interpreter prints and reads numbers with, and
  number->string and string->number (sliba.c).  A double is printed from its exact value, rounded half to even,
  and read as the double nearest to the number in the text.  The sign of a NaN is not part of the model, so
  that what is printed for one is a parameter.
\<close>

section \<open>Integers\<close>

definition c_isspace :: "char \<Rightarrow> bool" where
  "c_isspace c = (c \<in> set [CHR '' '', CHR 0x09, CHR 0x0A, CHR 0x0B, CHR 0x0C, CHR 0x0D])"

definition digit_value :: "char \<Rightarrow> int" where
  "digit_value c = of_char c - 48"

definition digits_value :: "char list \<Rightarrow> int" where
  "digits_value ds = foldl (\<lambda>n c. n * 10 + digit_value c) 0 ds"

text \<open>A number out of range gives the bound of long, as in the GNU library.\<close>

definition c_atol :: "char list \<Rightarrow> int" where
  "c_atol st =
     (let t = dropWhile c_isspace st;
          neg = (t \<noteq> [] \<and> hd t = CHR ''-'');
          u = (if t \<noteq> [] \<and> hd t \<in> set ''+-'' then tl t else t);
          v = digits_value (takeWhile c_isdigit u)
      in max (- (2 ^ 63)) (min (2 ^ 63 - 1) (if neg then - v else v)))"

fun nat_digits :: "nat \<Rightarrow> char list" where
  "nat_digits n = (if n < 10 then [char_of (48 + n)] else nat_digits (n div 10) @ [char_of (48 + n mod 10)])"

declare nat_digits.simps [simp del]

definition long_digits :: "int \<Rightarrow> char list" where
  "long_digits i = (if i < 0 then CHR ''-'' # nat_digits (nat (- i)) else nat_digits (nat i))"

text \<open>The conversions lo and lX, of a long that is taken as unsigned: bits is 3 or 4.\<close>

function power_digits :: "nat \<Rightarrow> nat \<Rightarrow> char list" where
  "power_digits bits n =
     (if bits = 0 \<or> n < 2 ^ bits then [hex_digit upper_digits n]
      else power_digits bits (n div 2 ^ bits) @ [hex_digit upper_digits (n mod 2 ^ bits)])"
  by pat_completeness auto
termination
proof (relation "measure snd")
  fix bits n :: nat
  assume "\<not> (bits = 0 \<or> n < 2 ^ bits)"
  moreover from this have "2 ^ 1 \<le> (2 :: nat) ^ bits" by (intro power_increasing) auto
  ultimately show "((bits, n div 2 ^ bits), bits, n) \<in> measure snd" by (auto intro: div_less_dividend)
qed simp

declare power_digits.simps [simp del]

definition pad_spaces :: "nat \<Rightarrow> char list \<Rightarrow> char list" where
  "pad_spaces width t = replicate (width - length t) (CHR '' '') @ t"

definition pad_zeros :: "nat \<Rightarrow> char list \<Rightarrow> char list" where
  "pad_zeros width t =
     (if t \<noteq> [] \<and> hd t = CHR ''-'' then CHR ''-'' # replicate (width - length t) (CHR ''0'') @ tl t
      else replicate (width - length t) (CHR ''0'') @ t)"

section \<open>Printing doubles\<close>

text \<open>The absolute value of a finite double as a fraction.\<close>

definition fraction :: "int \<Rightarrow> int \<Rightarrow> nat \<times> nat" where
  "fraction m e = (nat \<bar>m\<bar> * 2 ^ nat e, 2 ^ nat (- e))"

definition round_div :: "nat \<Rightarrow> nat \<Rightarrow> nat" where
  "round_div n d = (let q = n div d; r = n mod d in if d < 2 * r \<or> (2 * r = d \<and> odd q) then q + 1 else q)"

definition left_zeros :: "nat \<Rightarrow> char list \<Rightarrow> char list" where
  "left_zeros k t = replicate (k - length t) (CHR ''0'') @ t"

text \<open>The digits of a number below 10^k, with a point behind all but the last p of them.\<close>

definition with_point :: "nat \<Rightarrow> char list \<Rightarrow> char list" where
  "with_point p t =
     (let k = length t - p in if p = 0 then t else take k t @ CHR ''.'' # drop k t)"

definition fixed_digits :: "nat \<Rightarrow> nat \<times> nat \<Rightarrow> char list" where
  "fixed_digits p v = with_point p (left_zeros (p + 1) (nat_digits (round_div (fst v * 10 ^ p) (snd v))))"

function negative_exponent :: "nat \<Rightarrow> nat \<Rightarrow> nat" where
  "negative_exponent n d = (if n = 0 \<or> d \<le> n then 0 else Suc (negative_exponent (10 * n) d))"
  by pat_completeness auto
termination by (relation "measure (\<lambda>(n, d). d - n)") auto

declare negative_exponent.simps [simp del]

definition decimal_exponent :: "nat \<times> nat \<Rightarrow> int" where
  "decimal_exponent v =
     (if snd v \<le> fst v then int (length (nat_digits (fst v div snd v))) - 1
      else - int (negative_exponent (fst v) (snd v)))"

text \<open>The first p + 1 significant digits, as a number, and the exponent of the first of them.\<close>

definition significant :: "nat \<Rightarrow> nat \<times> nat \<Rightarrow> nat \<times> int" where
  "significant p v =
     (let x = decimal_exponent v; k = int p - x;
          q = round_div (fst v * 10 ^ nat k) (snd v * 10 ^ nat (- k))
      in if q = 10 ^ (p + 1) then (10 ^ p, x + 1) else (q, x))"

definition exponent_text :: "int \<Rightarrow> char list" where
  "exponent_text x = CHR ''e'' # (if x < 0 then CHR ''-'' else CHR ''+'') # left_zeros 2 (nat_digits (nat \<bar>x\<bar>))"

definition exp_digits :: "nat \<Rightarrow> nat \<times> nat \<Rightarrow> char list" where
  "exp_digits p v =
     (let (q, x) = significant p v in with_point p (left_zeros (p + 1) (nat_digits q)) @ exponent_text x)"

definition strip_zeros :: "char list \<Rightarrow> char list" where
  "strip_zeros t =
     (if CHR ''.'' \<in> set t
      then rev (let r = dropWhile (\<lambda>c. c = CHR ''0'') (rev t) in if hd r = CHR ''.'' then tl r else r)
      else t)"

definition general_digits :: "nat \<Rightarrow> nat \<times> nat \<Rightarrow> char list" where
  "general_digits prec v =
     (let p = (if prec = 0 then 1 else prec); (q, x) = significant (p - 1) v
      in if - 4 \<le> x \<and> x < int p then strip_zeros (fixed_digits (nat (int p - 1 - x)) v)
         else strip_zeros (with_point (p - 1) (left_zeros p (nat_digits q))) @ exponent_text x)"

datatype conversion = Conv_g | Conv_e | Conv_f

definition magnitude :: "conversion \<Rightarrow> nat \<Rightarrow> nat \<times> nat \<Rightarrow> char list" where
  "magnitude conv prec v = (case conv of
       Conv_g \<Rightarrow> general_digits prec v
     | Conv_e \<Rightarrow> exp_digits prec v
     | Conv_f \<Rightarrow> fixed_digits prec v)"

text \<open>A conversion with its precision; space is the flag that asks for a blank in place of a sign.\<close>

definition format_double :: "string \<Rightarrow> conversion \<Rightarrow> bool \<Rightarrow> nat \<Rightarrow> double \<Rightarrow> char list" where
  "format_double nan conv space prec d =
     (let signed = (\<lambda>neg t. if neg then CHR ''-'' # t else if space then CHR '' '' # t else t)
      in case d of
           DNaN \<Rightarrow> nan
         | DInf neg \<Rightarrow> signed neg ''inf''
         | DZero neg \<Rightarrow> signed neg (magnitude conv prec (0, 1))
         | DFin m e \<Rightarrow> signed (m < 0) (magnitude conv prec (fraction m e)))"

section \<open>Reading doubles\<close>

text \<open>The double nearest to N times base to the power E.\<close>

definition nearest :: "bool \<Rightarrow> int \<Rightarrow> int \<Rightarrow> int \<Rightarrow> double" where
  "nearest neg base N E =
     (let sg = (if neg then - 1 else 1) in
      if N = 0 then DZero neg
      else if 0 \<le> E then dround neg (sg * (N * base ^ nat E)) 0
      else let d = base ^ nat (- E); sh = nbits (nat d) + 64; q = N * 2 ^ sh div d; r = N * 2 ^ sh mod d
           in dround neg (sg * (2 * q + (if r = 0 then 0 else 1))) (- (int sh + 1)))"

text \<open>An optional exponent behind one of the letters: a sign and digits.\<close>

definition read_exponent :: "char list \<Rightarrow> char list \<Rightarrow> int" where
  "read_exponent letters u = (case u of
       [] \<Rightarrow> 0
     | c # t \<Rightarrow>
         if c \<notin> set letters then 0
         else let neg = (t \<noteq> [] \<and> hd t = CHR ''-'');
                  ds = takeWhile c_isdigit (if t \<noteq> [] \<and> hd t \<in> set ''+-'' then tl t else t)
              in if neg then - digits_value ds else digits_value ds)"

text \<open>The digits in front of and behind a point, and the text behind them.\<close>

definition split_digits :: "(char \<Rightarrow> bool) \<Rightarrow> char list \<Rightarrow> char list \<times> char list \<times> char list" where
  "split_digits dig u =
     (let ip = takeWhile dig u; u1 = dropWhile dig u
      in if u1 \<noteq> [] \<and> hd u1 = CHR ''.'' then (ip, takeWhile dig (tl u1), dropWhile dig (tl u1))
         else (ip, [], u1))"

definition lower_case :: "char list \<Rightarrow> char list" where
  "lower_case t = map c_tolower t"

definition c_atof :: "char list \<Rightarrow> double" where
  "c_atof st =
     (let t = dropWhile c_isspace st;
          neg = (t \<noteq> [] \<and> hd t = CHR ''-'');
          u = (if t \<noteq> [] \<and> hd t \<in> set ''+-'' then tl t else t)
      in if lower_case (take 3 u) = ''inf'' then DInf neg
         else if lower_case (take 3 u) = ''nan'' then DNaN
         else let (hi, hf, hr) = split_digits c_isxdigit (drop 2 u) in
           if lower_case (take 2 u) = ''0x'' \<and> hi @ hf \<noteq> []
           then nearest neg 2 (foldl (\<lambda>n c. n * 16 + int (siod_xdigitvalue c)) 0 (hi @ hf))
                  (read_exponent ''pP'' hr - 4 * int (length hf))
         else let (ip, fp, r) = split_digits c_isdigit u in
           if ip @ fp = [] then DZero False
           else nearest neg 10 (digits_value (ip @ fp)) (read_exponent ''eE'' r - int (length fp)))"

text \<open>
  The value that scanning with the conversions ld, lo and lx gives, or 0 when there is no number; the
  unsigned ones convert what they find to a long.
\<close>

definition octal_digit :: "char \<Rightarrow> bool" where
  "octal_digit c = (c_isdigit c \<and> digit_value c < 8)"

definition scan_unsigned :: "nat \<Rightarrow> char list \<Rightarrow> int" where
  "scan_unsigned base st =
     (let t = dropWhile c_isspace st;
          neg = (t \<noteq> [] \<and> hd t = CHR ''-'');
          u = (if t \<noteq> [] \<and> hd t \<in> set ''+-'' then tl t else t);
          ds = (if base = 8 then takeWhile octal_digit u
                else takeWhile c_isxdigit (if lower_case (take 2 u) = ''0x'' then drop 2 u else u));
          v = foldl (\<lambda>n c. n * int base + int (siod_xdigitvalue c)) 0 ds
      in wrap 64 (if 2 ^ 64 \<le> v then 2 ^ 64 - 1 else if neg then - v else v))"

section \<open>number->string and string->number\<close>

text \<open>The symbols e and f are found at start-up; the text is written to a buffer of 1000 characters.\<close>

definition optional_int :: "siod_LISP \<Rightarrow> int act" where
  "optional_int w = (if w = NIL then ret (- 1) else bindM (siod_get_c_long w) (\<lambda>i. ret (wrap 32 i)))"

definition number_text :: "string \<Rightarrow> conversion \<Rightarrow> int \<Rightarrow> int \<Rightarrow> double \<Rightarrow> char list" where
  "number_text nan conv width prec y =
     (if 0 \<le> width \<and> 0 \<le> prec then pad_spaces (nat width) (format_double nan conv True (nat prec) y)
      else if 0 \<le> width then pad_spaces (nat width) (format_double nan conv True 6 y)
      else if 0 \<le> prec then format_double nan conv False (nat prec) y
      else format_double nan conv False 6 y)"

definition integer_text :: "int \<Rightarrow> int \<Rightarrow> int \<Rightarrow> char list" where
  "integer_text base width i =
     (let t = (if base = 10 then long_digits i else power_digits (if base = 8 then 3 else 4) (nat (i mod 2 ^ 64)))
      in if 0 \<le> width then pad_zeros (nat width) t else t)"

definition siod_number2string ::
  "string \<Rightarrow> siod_LISP \<Rightarrow> siod_LISP \<Rightarrow> siod_LISP \<Rightarrow> siod_LISP \<Rightarrow> siod_LISP \<Rightarrow> siod_LISP \<Rightarrow> siod_LISP act" where
  "siod_number2string nan sym_e sym_f x b w p = bindM (flonm ''wta'' x) (\<lambda>y.
     bindM (optional_int w) (\<lambda>width.
     if 100 < width then errm ''width too long'' w
     else bindM (optional_int p) (\<lambda>prec.
     if 100 < prec then errm ''precision too large'' p
     else if b = NIL \<or> b = sym_e \<or> b = sym_f
     then siod_strcons (number_text nan (if b = NIL then Conv_g else if b = sym_e then Conv_e else Conv_f) width prec y)
     else bindM (optional_int b) (\<lambda>base.
       if base = 10 \<or> base = 8 \<or> base = 16 then siod_strcons (integer_text base width (c_long y))
       else errm ''number base not handled'' b))))"

text \<open>Any other base up to 16: characters that are no hexadecimal digits are skipped.\<close>

fun base_value :: "double \<Rightarrow> double \<Rightarrow> char list \<Rightarrow> double" where
  "base_value base result [] = result"
| "base_value base result (c # cs) =
     base_value base
       (if c_isdigit c then dsub (dadd (dmul result base) (of_long (of_char c))) (of_long 48)
        else if c_isxdigit c then
          dadd (dsub (dadd (dmul result base) (of_long (of_char (c_toupper c)))) (of_long 65)) (of_long 10)
        else result) cs"

definition siod_string2number :: "siod_LISP \<Rightarrow> siod_LISP \<Rightarrow> siod_LISP act" where
  "siod_string2number x b = bindM (get_c_string x) (\<lambda>str.
     if b = NIL then siod_flocons (c_atof str)
     else bindM (siod_get_c_long b) (\<lambda>base.
       if base = 10 then siod_flocons (of_long (c_atol str))
       else if base = 8 then siod_flocons (of_long (scan_unsigned 8 str))
       else if base = 16 then siod_flocons (of_long (scan_unsigned 16 str))
       else if 1 \<le> base \<and> base \<le> 16 then siod_flocons (base_value (of_long base) (DZero False) str)
       else errm ''number base not handled'' b))"

end
