(* ===== verification/Startup.thy ===== *)
theory Startup
  imports Printf
begin

text \<open>
  The command line and the start of scripts (slib.c, slibu.c), the copying of C strings into buffers of a
  given size, and the deferral of interrupts (slib.c).
\<close>

section \<open>Buffers of a given size\<close>

text \<open>A buffer is a list of at least size characters; the second argument of a copy is a C string.\<close>

definition siod_safe_strlen :: "char list \<Rightarrow> nat \<Rightarrow> nat" where
  "siod_safe_strlen s n = (if NUL \<in> set (take n s) then length (cstr (take n s)) else n)"

definition safe_strcpy :: "char list \<Rightarrow> nat \<Rightarrow> char list \<Rightarrow> char list" where
  "safe_strcpy s1 size1 s2 =
     (if size1 = 0 then s1
      else let len2 = length s2 in
           if len2 < size1 then s2 @ [NUL] @ drop (len2 + 1) s1
           else (take size1 s2 @ drop size1 s1)[size1 - 1 := NUL])"

definition safe_strcat :: "char list \<Rightarrow> nat \<Rightarrow> char list \<Rightarrow> char list" where
  "safe_strcat s1 size1 s2 =
     (let len1 = siod_safe_strlen s1 size1
      in take len1 s1 @ safe_strcpy (drop len1 s1) (size1 - len1) s2)"

text \<open>The output buffer of siod_repl_c_string: what is printed is appended up to the end of the buffer.\<close>

record rcsp =
  rcsp_buf :: "char list"
  rcsp_ptr :: nat
  rcsp_end :: nat

definition siod_rcsp_puts :: "char list \<Rightarrow> rcsp \<Rightarrow> bool \<times> rcsp" where
  "siod_rcsp_puts text p =
     (let fromlen = length text; intolen = rcsp_end p - rcsp_ptr p;
          cplen = (if intolen < fromlen then intolen else fromlen);
          buf = take (rcsp_ptr p) (rcsp_buf p) @ take cplen text @ drop (rcsp_ptr p + cplen) (rcsp_buf p)
      in (cplen = fromlen, p\<lparr>rcsp_buf := buf[rcsp_ptr p + cplen := NUL], rcsp_ptr := rcsp_ptr p + cplen\<rparr>))"

section \<open>The command line\<close>

record config =
  cf_siod_lib :: string
  cf_siod_lib_set :: bool
  cf_heap_size :: int
  cf_nheaps :: int
  cf_obarray_dim :: int
  cf_init_file :: "string option"
  cf_inums_dim :: int
  cf_gc_kind_copying :: int
  cf_stack_size :: int
  cf_verbose_level :: int
  cf_printed :: "string list"

definition bad_arg :: "bool \<Rightarrow> string \<Rightarrow> config \<Rightarrow> config" where
  "bad_arg warnflag arg c = (if warnflag then c\<lparr>cf_printed := cf_printed c @ [''bad arg: '' @ arg @ [CHR 0x0A]]\<rparr> else c)"

definition process_option :: "bool \<Rightarrow> string \<Rightarrow> config \<Rightarrow> config" where
  "process_option warnflag arg c =
     (if length arg < 2 then c
      else if hd arg \<noteq> CHR ''-'' then bad_arg warnflag arg c
      else let x = arg ! 1; v = drop 2 arg in
        if x = CHR ''l'' then c\<lparr>cf_siod_lib := v\<rparr>
        else if x = CHR ''h'' then
          (let c1 = c\<lparr>cf_heap_size := c_atol v\<rparr>
           in if CHR '':'' \<in> set v then c1\<lparr>cf_nheaps := c_atol (tl (dropWhile (\<lambda>c. c \<noteq> CHR '':'') v))\<rparr> else c1)
        else if x = CHR ''o'' then c\<lparr>cf_obarray_dim := c_atol v\<rparr>
        else if x = CHR ''i'' then c\<lparr>cf_init_file := Some v\<rparr>
        else if x = CHR ''n'' then c\<lparr>cf_inums_dim := c_atol v\<rparr>
        else if x = CHR ''g'' then c\<lparr>cf_gc_kind_copying := c_atol v\<rparr>
        else if x = CHR ''s'' then c\<lparr>cf_stack_size := c_atol v\<rparr>
        else if x = CHR ''v'' then c\<lparr>cf_verbose_level := c_atol v\<rparr>
        else bad_arg warnflag arg c)"

text \<open>The environment variable SIOD_LIB is looked at until it is found once.\<close>

definition ulsiod_process_cla :: "string option \<Rightarrow> string list \<Rightarrow> bool \<Rightarrow> config \<Rightarrow> config" where
  "ulsiod_process_cla env_lib argv warnflag c =
     (let c1 = (if cf_siod_lib_set c then c
                else case env_lib of None \<Rightarrow> c
                  | Some l \<Rightarrow> c\<lparr>cf_siod_lib := l, cf_siod_lib_set := True\<rparr>)
      in fold (process_option warnflag) (tl argv) c1)"

text \<open>Options of the main program: one argument may hold several, each behind a comma.\<close>

record options =
  op_config :: config
  op_mainflag :: int
  op_text_plain :: bool
  op_iargc :: nat

definition main_option :: "string option \<Rightarrow> string \<Rightarrow> options \<Rightarrow> options" where
  "main_option env_lib opt o1 =
     (let o2 = (if take 2 opt = ''-v'' \<and> 0 < c_atol (drop 2 opt) \<and> take 1 (drop 2 opt) \<noteq> ''0''
                then o1\<lparr>op_text_plain := True\<rparr> else o1)
      in if take 2 opt = ''-m'' then o2\<lparr>op_mainflag := c_atol (drop 2 opt)\<rparr>
         else o2\<lparr>op_config := ulsiod_process_cla env_lib [[], opt] True (op_config o2)\<rparr>)"

function main_argument :: "string option \<Rightarrow> string \<Rightarrow> options \<Rightarrow> options" where
  "main_argument env_lib start o1 =
     (if start = [] then o1
      else case strstr start '',-'' of
          None \<Rightarrow> main_option env_lib start o1
        | Some i \<Rightarrow> main_argument env_lib (drop (i + 1) start) (main_option env_lib (take i start) o1))"
  by pat_completeness auto
termination by (relation "measure (\<lambda>(e, start, oo). length start)") auto

definition main_options :: "string option \<Rightarrow> string list \<Rightarrow> options \<Rightarrow> options" where
  "main_options env_lib argv o1 = fold (\<lambda>arg o1.
     if take 1 arg = ''-'' then main_argument env_lib arg o1 else o1\<lparr>op_iargc := op_iargc o1 + 1\<rparr>) (tl argv) o1"

text \<open>
  What the main program does with an argument that is not an option: start the read-eval-print loop, or
  evaluate a form; the form for a file is built in a buffer of 1024 bytes, and writing behind it is undefined.
\<close>

datatype htqs = Start_repl | Evaluate string | Overrun

definition escape_quotes :: "string \<Rightarrow> string" where
  "escape_quotes v = concat (map (\<lambda>c. if c \<in> set [CHR 0x5C, CHR 0x22] then [CHR 0x5C, c] else [c]) v)"

definition siod_htqs_arg :: "string \<Rightarrow> htqs" where
  "siod_htqs_arg v =
     (if v = ''(siod_repl)'' \<or> v = ''siod_repl'' then Start_repl
      else if CHR ''('' \<notin> set v then
        (let form = ''(require '' @ [CHR 0x22] @ escape_quotes v @ [CHR 0x22] @ '')''
         in if length form < 1024 then Evaluate form else Overrun)
      else Evaluate v)"

section \<open>Scripts\<close>

text \<open>
  Looking for the characters #!/ in a file.  The flags behind the path are stored with a NUL behind
  each, up to the index bufflen; there is no result when that is behind the buffer.
\<close>

definition script_flags :: "nat \<Rightarrow> char list \<Rightarrow> char list option" where
  "script_flags bufflen f =
     (let flags = takeWhile (\<lambda>c. c \<noteq> CHR 0x0A) (tl (dropWhile (\<lambda>c. c \<noteq> CHR '' '') f))
      in if bufflen \<le> length flags then None
         else if list_all (\<lambda>c. c \<in> set [CHR '' '', CHR 0x09, CHR 0x0D]) (cstr flags) then Some []
         else Some (cstr flags))"

fun position_loop :: "nat \<Rightarrow> nat \<Rightarrow> nat \<Rightarrow> char \<Rightarrow> int \<Rightarrow> char list \<Rightarrow> (int \<times> char list) option" where
  "position_loop bufflen 0 offset s pos f = Some (- 1, [])"
| "position_loop bufflen (Suc n) offset s pos [] = Some (- 1, [])"
| "position_loop bufflen (Suc n) offset s pos (c # f) =
     (if c = CHR ''#'' then position_loop bufflen n (Suc offset) (CHR ''#'') (int offset) f
      else if c = CHR ''!'' then
        position_loop bufflen n (Suc offset) (if s = CHR ''#'' then CHR ''!'' else NUL) pos f
      else if c = CHR ''/'' \<and> s = CHR ''!'' then map_option (Pair pos) (script_flags bufflen f)
      else position_loop bufflen n (Suc offset) NUL pos f)"

definition siod_position_script :: "nat \<Rightarrow> char list \<Rightarrow> (int \<times> char list) option" where
  "siod_position_script bufflen f = position_loop bufflen 250000 0 NUL (- 1) f"

text \<open>The new arguments; the first is the contents of the file argv[0], none when it cannot be opened.\<close>

definition ulsiod_shuffle_args :: "char list option \<Rightarrow> string list \<Rightarrow> string list option" where
  "ulsiod_shuffle_args file argv =
     (case file of None \<Rightarrow> Some argv
      | Some f \<Rightarrow> (case siod_position_script 100 f of
          None \<Rightarrow> None
        | Some (pos, flagbuff) \<Rightarrow>
            if pos < 0 then Some argv
            else Some (''siod.exe'' # (if flagbuff = [] then [] else [flagbuff]) @
              (long_digits pos @ ''|'' @ hd argv) # tl argv)))"

section \<open>Interrupts\<close>

record interrupts =
  nointerrupt :: int
  interrupt_differed :: int

text \<open>The result says whether siod_err_ctrl_c is called.\<close>

definition siod_no_interrupt :: "int \<Rightarrow> interrupts \<Rightarrow> int \<times> bool \<times> interrupts" where
  "siod_no_interrupt n st =
     (let x = nointerrupt st; st1 = st\<lparr>nointerrupt := n\<rparr>
      in if n = 0 \<and> interrupt_differed st1 = 1 then (x, True, st1\<lparr>interrupt_differed := 0\<rparr>)
         else (x, False, st1))"

definition siod_handle_sigint :: "interrupts \<Rightarrow> bool \<times> interrupts" where
  "siod_handle_sigint st =
     (if nointerrupt st = 1 then (False, st\<lparr>interrupt_differed := 1\<rparr>) else (True, st))"

section \<open>Copies stay in their buffers\<close>

lemma cstr_append: "NUL \<notin> set xs \<Longrightarrow> cstr (xs @ ys) = xs @ cstr ys"
  by (induction xs) (auto simp: cstr_def)

lemma strcpy_cstr:
  assumes "0 < size1" "size1 \<le> length s1" "NUL \<notin> set s2"
  shows "cstr (safe_strcpy s1 size1 s2) = take (size1 - 1) s2"
proof (cases "length s2 < size1")
  case True
  then show ?thesis using assms by (simp add: safe_strcpy_def Let_def cstr_terminated)
next
  case False
  obtain m where m: "size1 = Suc m" using assms(1) by (cases size1) auto
  have "(take size1 s2 @ drop size1 s1)[size1 - 1 := NUL] = take m s2 @ NUL # drop size1 s1"
    using False m by (simp add: list_update_append take_Suc_conv_app_nth)
  moreover have "NUL \<notin> set (take m s2)" using assms(3) by (auto dest: in_set_takeD)
  ultimately show ?thesis using False m by (simp add: safe_strcpy_def Let_def cstr_terminated)
qed

lemma strcpy_length: "size1 \<le> length s1 \<Longrightarrow> length (safe_strcpy s1 size1 s2) = length s1"
  by (auto simp: safe_strcpy_def Let_def)

lemma strcpy_behind: "size1 \<le> length s1 \<Longrightarrow> drop size1 (safe_strcpy s1 size1 s2) = drop size1 s1"
proof (cases "length s2 < size1")
  case True
  then obtain d where "size1 = Suc (length s2 + d)" by (auto simp: less_iff_Suc_add)
  then show ?thesis by (simp add: safe_strcpy_def Let_def add.commute)
qed (cases size1; simp add: safe_strcpy_def Let_def)

lemma safe_strlen_buffer:
  assumes "n \<le> length s" shows "siod_safe_strlen s n = length (cstr (take n s))"
  using assms by (auto simp: siod_safe_strlen_def cstr_id)

lemma cstr_prefix:
  "NUL \<in> set (take m s) \<Longrightarrow> cstr s = cstr (take m s) \<and> length (cstr s) < m \<and> take (length (cstr s)) s = cstr s"
proof (induction s arbitrary: m)
  case (Cons c s)
  then obtain k where "m = Suc k" by (cases m) auto
  with Cons show ?case by (auto simp: cstr_def)
qed simp

text \<open>
  C36. safe_strcpy and safe_strcat change no byte behind the given size of the buffer; when the buffer has room
  for a NUL, the copied string and the appended one are cut to fit and end with NUL.
\<close>

theorem safe_copies_fit:
  assumes "size1 \<le> length s1" "NUL \<notin> set s2"
  shows "length (safe_strcpy s1 size1 s2) = length s1 \<and> drop size1 (safe_strcpy s1 size1 s2) = drop size1 s1 \<and>
    length (safe_strcat s1 size1 s2) = length s1 \<and> drop size1 (safe_strcat s1 size1 s2) = drop size1 s1 \<and>
    (0 < size1 \<longrightarrow> cstr (safe_strcpy s1 size1 s2) = take (size1 - 1) s2) \<and>
    (NUL \<in> set (take size1 s1) \<longrightarrow> cstr (safe_strcat s1 size1 s2) = take (size1 - 1) (cstr s1 @ s2))"
proof -
  define n where "n = siod_safe_strlen s1 size1"
  have n: "n = length (cstr (take size1 s1))" unfolding n_def using assms(1) by (rule safe_strlen_buffer)
  then have le: "n \<le> size1" using length_cstr_le [of "take size1 s1"] assms(1) by simp
  have cat: "safe_strcat s1 size1 s2 = take n s1 @ safe_strcpy (drop n s1) (size1 - n) s2"
    by (simp add: safe_strcat_def n_def Let_def)
  have fit: "size1 - n \<le> length (drop n s1)" using assms(1) by simp
  have "length (safe_strcat s1 size1 s2) = length s1" using strcpy_length [OF fit] le assms(1) by (simp add: cat)
  moreover have "drop size1 (safe_strcat s1 size1 s2) = drop size1 s1"
    using strcpy_behind [OF fit, of s2] le assms(1) by (simp add: cat)
  moreover have "cstr (safe_strcat s1 size1 s2) = take (size1 - 1) (cstr s1 @ s2)" if nul: "NUL \<in> set (take size1 s1)"
  proof -
    have c: "cstr s1 = take n s1" and n': "length (cstr s1) = n" and lt: "n < size1"
      using cstr_prefix [OF nul] n by auto
    have "NUL \<notin> set (take n s1)" using cstr_no_NUL [of s1] c by simp
    then have "cstr (safe_strcat s1 size1 s2) = take n s1 @ take (size1 - n - 1) s2"
      using strcpy_cstr [OF _ fit assms(2)] lt by (simp add: cat cstr_append)
    then show ?thesis using c n' lt by simp
  qed
  ultimately show ?thesis
    using strcpy_length [OF assms(1)] strcpy_behind [OF assms(1)] strcpy_cstr [OF _ assms] by simp
qed

theorem safe_copies_fit_witness:
  "cstr (safe_strcat (''ab'' @ [NUL, CHR ''x'', CHR ''y'']) 4 ''cde'') = ''abc''"
  using safe_copies_fit [of 4 "''ab'' @ [NUL, CHR ''x'', CHR ''y'']" "''cde''"] by (simp add: cstr_def eval_nat_numeral)

lemma takeWhile_replicate_append: "P c \<Longrightarrow> takeWhile P (replicate n c @ ys) = replicate n c @ takeWhile P ys"
  by (induction n) simp_all

lemma position_step:
  "0 < n \<Longrightarrow> position_loop b n offset s pos (c # f) =
     (if c = CHR ''#'' then position_loop b (n - 1) (Suc offset) (CHR ''#'') (int offset) f
      else if c = CHR ''!'' then
        position_loop b (n - 1) (Suc offset) (if s = CHR ''#'' then CHR ''!'' else NUL) pos f
      else if c = CHR ''/'' \<and> s = CHR ''!'' then map_option (Pair pos) (script_flags b f)
      else position_loop b (n - 1) (Suc offset) NUL pos f)"
  by (cases n) simp_all

text \<open>
  Flags of 100 characters behind the path of a script are written behind the buffer of 100 bytes that
  ulsiod_shuffle_args has for them.
\<close>

theorem script_flags_overrun:
  "ulsiod_shuffle_args (Some (''#!/bin/siod '' @ replicate 100 (CHR ''a'') @ [CHR 0x0A])) [''script''] = None"
proof -
  have "takeWhile (\<lambda>c. c \<noteq> CHR 0x0A) (replicate 100 (CHR ''a'') @ [CHR 0x0A]) = replicate 100 (CHR ''a'')"
    by (simp add: takeWhile_replicate_append)
  moreover note position_step [of 250000] position_step [of 249999] position_step [of 249998]
  ultimately show ?thesis
    by (simp add: ulsiod_shuffle_args_def siod_position_script_def script_flags_def)
qed

section \<open>Deferred interrupts\<close>

datatype intr_event = Signal | Set_flag int

fun intr_run :: "intr_event list \<Rightarrow> interrupts \<Rightarrow> bool list \<times> interrupts" where
  "intr_run [] st = ([], st)"
| "intr_run (Signal # es) st = (let (b, st1) = siod_handle_sigint st; (bs, st2) = intr_run es st1 in (b # bs, st2))"
| "intr_run (Set_flag n # es) st =
     (let (x, b, st1) = siod_no_interrupt n st; (bs, st2) = intr_run es st1 in (b # bs, st2))"

lemma signals_deferred:
  "intr_run (replicate k Signal @ [Set_flag 0]) \<lparr>nointerrupt = 1, interrupt_differed = d\<rparr> =
     (replicate k False @ [0 < k \<or> d = 1], \<lparr>nointerrupt = 0, interrupt_differed = (if 0 < k \<or> d = 1 then 0 else d)\<rparr>)"
  by (induction k arbitrary: d) (auto simp: siod_no_interrupt_def siod_handle_sigint_def)

text \<open>
  C37. Signals that arrive while interrupts are switched off do not stop the program there; switching
  interrupts on again stops it once if there were any.
\<close>

theorem interrupts_deferred:
  "intr_run (Set_flag 1 # replicate k Signal @ [Set_flag 0]) \<lparr>nointerrupt = 0, interrupt_differed = 0\<rparr> =
     (False # replicate k False @ [0 < k], \<lparr>nointerrupt = 0, interrupt_differed = 0\<rparr>)"
  using signals_deferred [of k 0] by (auto simp: siod_no_interrupt_def)

end
