(* ===== verification/Hash.thy ===== *)
theory Hash
  imports Data Codecs Symbol_Facts
begin

unbundle bit_operations_syntax

text \<open>
  Structural equality, hashing, and hash tables (sliba.c).  Comparing and hashing cyclic structure does not
  end, or ends in the check of the stack; the bound k stands for both.  A hash is a long; where the modulus
  is 0 or the arithmetic leaves long, hashing is undefined.
\<close>

section \<open>Hashing\<close>

definition HASH_COMBINE :: "int \<Rightarrow> int \<Rightarrow> int \<Rightarrow> int act" where
  "HASH_COMBINE h1 h2 n =
     (if n = 0 \<or> h1 * 17 + 1 < - (2 ^ 63) \<or> 2 ^ 63 \<le> h1 * 17 + 1 then undef
      else ret (c_rem ((h1 * 17 + 1) XOR h2) n))"

definition ulong :: "int \<Rightarrow> int" where
  "ulong i = i mod 2 ^ 64"

text \<open>The conversion of a double to an unsigned long on x86-64.\<close>

definition c_ulong :: "double \<Rightarrow> int" where
  "c_ulong d = (case dtrunc d of
       None \<Rightarrow> (if d = DInf False then 0 else 2 ^ 63)
     | Some i \<Rightarrow> if i < - (2 ^ 63) then 2 ^ 63 else if i < 2 ^ 64 then ulong i else 0)"

text \<open>The same step where one operand is an unsigned long, so that all of them are.\<close>

definition HASH_COMBINE_unsigned :: "int \<Rightarrow> int \<Rightarrow> int \<Rightarrow> int act" where
  "HASH_COMBINE_unsigned h1 h2 n =
     (if n = 0 \<or> h1 * 17 + 1 < - (2 ^ 63) \<or> 2 ^ 63 \<le> h1 * 17 + 1 then undef
      else ret (wrap 64 ((ulong (h1 * 17 + 1) XOR (ulong h2 mod ulong n)) mod ulong n)))"

fun hash_chars :: "int \<Rightarrow> int \<Rightarrow> char list \<Rightarrow> int act" where
  "hash_chars n hash [] = ret hash"
| "hash_chars n hash (c # cs) = bindM (HASH_COMBINE hash (uchar c) n) (\<lambda>h. hash_chars n h cs)"

fun hash_longs :: "int \<Rightarrow> int \<Rightarrow> int list \<Rightarrow> int act" where
  "hash_longs n hash [] = ret hash"
| "hash_longs n hash (i # is) = bindM (HASH_COMBINE_unsigned hash i n) (\<lambda>h. hash_longs n h is)"

fun hash_refs :: "(siod_LISP \<Rightarrow> int \<Rightarrow> int act) \<Rightarrow> int \<Rightarrow> int \<Rightarrow> siod_LISP list \<Rightarrow> int act" where
  "hash_refs sx n hash [] = ret hash"
| "hash_refs sx n hash (x # xs) = bindM (sx x n) (\<lambda>h2. bindM (HASH_COMBINE hash h2 n) (\<lambda>h. hash_refs sx n h xs))"

definition siod_array_siod_sxhash :: "(siod_LISP \<Rightarrow> int \<Rightarrow> int act) \<Rightarrow> obj \<Rightarrow> int \<Rightarrow> int act" where
  "siod_array_siod_sxhash sx ob n = (case ob of
       Tc_string len b \<Rightarrow> if length b < len then undef else hash_chars n 0 (take len b)
     | Tc_byte_array len b \<Rightarrow> if length b < len then undef else hash_chars n 0 (take len b)
     | Tc_long_array xs \<Rightarrow> hash_longs n 0 xs
     | Tc_double_array ds \<Rightarrow> hash_longs n 0 (map c_ulong ds)
     | Tc_lisp_array xs \<Rightarrow> hash_refs sx n 0 xs
     | _ \<Rightarrow> siod_errswitch)"

definition subr_name :: "obj \<Rightarrow> string option" where
  "subr_name ob = (case ob of
       Tc_subr_0 name f \<Rightarrow> Some name
     | Tc_subr_1 name f \<Rightarrow> Some name
     | Tc_subr_2 name g \<Rightarrow> Some name
     | Tc_subr_3 name h \<Rightarrow> Some name
     | Tc_subr_4 name h4 \<Rightarrow> Some name
     | Tc_subr_5 name h5 \<Rightarrow> Some name
     | Tc_lsubr name f \<Rightarrow> Some name
     | Tc_fsubr name g \<Rightarrow> Some name
     | Tc_msubr name m \<Rightarrow> Some name
     | _ \<Rightarrow> None)"

text \<open>What is hashed of a cell that is not a cons: sx hashes the elements of an array.\<close>

definition hash_cell :: "(siod_LISP \<Rightarrow> int \<Rightarrow> int act) \<Rightarrow> obj \<Rightarrow> int \<Rightarrow> int act" where
  "hash_cell sx ob n = (case ob of
       Tc_symbol p v \<Rightarrow> hash_chars n 0 (cstr p)
     | Tc_flonum d \<Rightarrow> if n = 0 then undef else ret (wrap 64 (c_ulong d mod ulong n))
     | Tc_closure e c \<Rightarrow> ret 0
     | Tc_free_cell m \<Rightarrow> ret 0
     | Tc_subr_2n name g \<Rightarrow> ret 0
     | Tc_c_file name f \<Rightarrow> ret 0
     | _ \<Rightarrow> (case subr_name ob of
           Some name \<Rightarrow> hash_chars n 0 (cstr name)
         | None \<Rightarrow> siod_array_siod_sxhash sx ob n))"

text \<open>The function itself, and its loop over the conses of a list.\<close>

fun siod_c_siod_sxhash :: "nat \<Rightarrow> siod_LISP \<Rightarrow> int \<Rightarrow> int act"
  and hash_spine :: "nat \<Rightarrow> int \<Rightarrow> siod_LISP \<Rightarrow> int \<Rightarrow> int act" where
  "siod_c_siod_sxhash 0 x n = nofuel"
| "siod_c_siod_sxhash (Suc k) x n = bindM (look x) (\<lambda>ob. case ob of
       None \<Rightarrow> ret 0
     | Some (Tc_cons a d) \<Rightarrow> bindM (siod_c_siod_sxhash k a n) (hash_spine k n d)
     | Some o1 \<Rightarrow> hash_cell (siod_c_siod_sxhash k) o1 n)"
| "hash_spine 0 n tmp hash = nofuel"
| "hash_spine (Suc k) n tmp hash = bindM (look tmp) (\<lambda>ob. case ob of
       Some (Tc_cons a d) \<Rightarrow> bindM (siod_c_siod_sxhash k a n) (\<lambda>h2.
         bindM (HASH_COMBINE hash h2 n) (hash_spine k n d))
     | _ \<Rightarrow> bindM (siod_c_siod_sxhash k tmp n) (\<lambda>h2. HASH_COMBINE hash h2 n))"

definition siod_sxhash :: "nat \<Rightarrow> siod_LISP \<Rightarrow> siod_LISP \<Rightarrow> siod_LISP act" where
  "siod_sxhash k x n = bindM (look n) (\<lambda>ob.
     bindM (siod_c_siod_sxhash k x (case ob of Some (Tc_flonum d) \<Rightarrow> c_long d | _ \<Rightarrow> 10000))
       (\<lambda>h. siod_flocons (of_long h)))"

section \<open>Equality\<close>

fun doubles_equal :: "double list \<Rightarrow> double list \<Rightarrow> bool" where
  "doubles_equal (x # xs) (y # ys) = (deq x y \<and> doubles_equal xs ys)"
| "doubles_equal xs ys = True"

fun refs_equal :: "(siod_LISP \<Rightarrow> siod_LISP \<Rightarrow> siod_LISP act) \<Rightarrow> siod_LISP list \<Rightarrow> siod_LISP list \<Rightarrow> bool act" where
  "refs_equal eqf (x # xs) (y # ys) = bindM (eqf x y) (\<lambda>r. if r = NIL then ret False else refs_equal eqf xs ys)"
| "refs_equal eqf xs ys = ret True"

definition answer :: "bool \<Rightarrow> siod_LISP act" where
  "answer b = (if b then gets sym_t else ret NIL)"

definition siod_array_siod_equal :: "(siod_LISP \<Rightarrow> siod_LISP \<Rightarrow> siod_LISP act) \<Rightarrow> obj \<Rightarrow> obj \<Rightarrow> siod_LISP act" where
  "siod_array_siod_equal eqf a b = (case a of
       Tc_string m x \<Rightarrow> (case b of Tc_string n y \<Rightarrow> if m \<noteq> n then ret NIL else if length x < m \<or> length y < n then undef else answer (take m x = take n y) | _ \<Rightarrow> ret NIL)
     | Tc_byte_array m x \<Rightarrow> (case b of Tc_byte_array n y \<Rightarrow> if m \<noteq> n then ret NIL else if length x < m \<or> length y < n then undef else answer (take m x = take n y) | _ \<Rightarrow> ret NIL)
     | Tc_long_array xs \<Rightarrow> (case b of Tc_long_array ys \<Rightarrow> answer (xs = ys) | _ \<Rightarrow> ret NIL)
     | Tc_double_array xs \<Rightarrow> (case b of
           Tc_double_array ys \<Rightarrow> answer (length xs = length ys \<and> doubles_equal xs ys) | _ \<Rightarrow> ret NIL)
     | Tc_lisp_array xs \<Rightarrow> (case b of
           Tc_lisp_array ys \<Rightarrow>
             if length xs \<noteq> length ys then ret NIL else bindM (refs_equal eqf xs ys) answer
         | _ \<Rightarrow> ret NIL)
     | _ \<Rightarrow> siod_errswitch)"

text \<open>The types that have a comparison of their own.\<close>

definition array_type :: "obj \<Rightarrow> bool" where
  "array_type ob = (case ob of
       Tc_string m x \<Rightarrow> True
     | Tc_byte_array m x \<Rightarrow> True
     | Tc_long_array xs \<Rightarrow> True
     | Tc_double_array xs \<Rightarrow> True
     | Tc_lisp_array xs \<Rightarrow> True
     | _ \<Rightarrow> False)"

text \<open>Two objects that are not the same: eqf compares their parts.  Objects of different types are not equal.\<close>

definition equal_objects :: "(siod_LISP \<Rightarrow> siod_LISP \<Rightarrow> siod_LISP act) \<Rightarrow> obj \<Rightarrow> obj \<Rightarrow> siod_LISP act" where
  "equal_objects eqf o1 o2 = (case o1 of
       Tc_cons a1 d1 \<Rightarrow> (case o2 of
           Tc_cons a2 d2 \<Rightarrow> bindM (eqf a1 a2) (\<lambda>r. if r = NIL then ret NIL else eqf d1 d2)
         | _ \<Rightarrow> ret NIL)
     | Tc_flonum x \<Rightarrow> (case o2 of Tc_flonum y \<Rightarrow> answer (deq x y) | _ \<Rightarrow> ret NIL)
     | _ \<Rightarrow> if array_type o1 then siod_array_siod_equal eqf o1 o2 else ret NIL)"

fun siod_equal :: "nat \<Rightarrow> siod_LISP \<Rightarrow> siod_LISP \<Rightarrow> siod_LISP act" where
  "siod_equal 0 a b = nofuel"
| "siod_equal (Suc k) a b =
     (if a = b then gets sym_t
      else bindM (look a) (\<lambda>oa. bindM (look b) (\<lambda>ob. case oa of
          None \<Rightarrow> ret NIL
        | Some o1 \<Rightarrow> (case ob of
              None \<Rightarrow> ret NIL
            | Some o2 \<Rightarrow> equal_objects (siod_equal k) o1 o2))))"

section \<open>Hash tables\<close>

definition equal_test :: "siod_LISP \<Rightarrow> siod_LISP \<Rightarrow> bool act" where
  "equal_test a x = bindM (gets bound) (\<lambda>k. bindM (siod_equal k a x) (\<lambda>r. ret (r \<noteq> NIL)))"

definition siod_assoc :: "siod_LISP \<Rightarrow> siod_LISP \<Rightarrow> siod_LISP act" where
  "siod_assoc x alist = assoc_by (\<lambda>a. equal_test a x) ''improper list to siod_assoc'' alist"

definition siod_member :: "siod_LISP \<Rightarrow> siod_LISP \<Rightarrow> siod_LISP act" where
  "siod_member x il = member_by (\<lambda>tmp. equal_test x tmp) ''improper list to siod_member'' il"

definition siod_href_index :: "siod_LISP \<Rightarrow> siod_LISP \<Rightarrow> nat act" where
  "siod_href_index table key = bindM (look table) (\<lambda>ob. case ob of
       Some (Tc_lisp_array xs) \<Rightarrow> bindM (gets bound) (\<lambda>k.
         bindM (siod_c_siod_sxhash k key (int (length xs))) (\<lambda>i.
         if i < 0 \<or> int (length xs) \<le> i then errm ''siod_sxhash insiod_consistency'' table
         else ret (nat i)))
     | _ \<Rightarrow> errm ''not a hash table'' table)"

text \<open>The bucket at an index that was computed before.\<close>

definition bucket :: "siod_LISP \<Rightarrow> nat \<Rightarrow> siod_LISP act" where
  "bucket table i = bindM (look table) (\<lambda>ob. case ob of
       Some (Tc_lisp_array xs) \<Rightarrow> if i < length xs then ret (xs ! i) else undef | _ \<Rightarrow> undef)"

definition set_bucket :: "siod_LISP \<Rightarrow> nat \<Rightarrow> siod_LISP \<Rightarrow> unit act" where
  "set_bucket table i l = bindM (look table) (\<lambda>ob. case ob of
       Some (Tc_lisp_array xs) \<Rightarrow> if i < length xs then store table (Tc_lisp_array (xs[i := l])) else undef
     | _ \<Rightarrow> undef)"

definition siod_href :: "siod_LISP \<Rightarrow> siod_LISP \<Rightarrow> siod_LISP act" where
  "siod_href table key = bindM (siod_href_index table key) (\<lambda>i. bindM (bucket table i) (\<lambda>l.
     bindM (siod_assoc key l) siod_cdr))"

definition siod_hset :: "siod_LISP \<Rightarrow> siod_LISP \<Rightarrow> siod_LISP \<Rightarrow> siod_LISP act" where
  "siod_hset table key v = bindM (siod_href_index table key) (\<lambda>i. bindM (bucket table i) (\<lambda>l.
     bindM (siod_assoc key l) (\<lambda>cell.
     if cell \<noteq> NIL then siod_setcdr cell v
     else bindM (siod_cons key v) (\<lambda>cell. bindM (siod_cons cell l) (\<lambda>p.
          bindM (set_bucket table i p) (\<lambda>_. ret v))))))"

section \<open>Well-formedness\<close>

lemma ok_HASH_COMBINE: "okU s (HASH_COMBINE a b n)" "okU s (HASH_COMBINE_unsigned a b n)"
  unfolding HASH_COMBINE_def HASH_COMBINE_unsigned_def by (intro okM_if okM_stop okM_ret TrueI)+

lemma ok_hash_chars: "okU s (hash_chars n h cs)"
  by (induction cs arbitrary: s h) (auto intro!: okM_ret okU_bind [OF ok_HASH_COMBINE(1)])

lemma ok_hash_longs: "okU s (hash_longs n h js)"
  by (induction js arbitrary: s h) (auto intro!: okM_ret okU_bind [OF ok_HASH_COMBINE(2)])

lemmas ok_hash_lists = ok_hash_chars ok_hash_longs

text \<open>Neither hashing nor comparing needs valid pointers: a dangling one is undefined behaviour, not a result.\<close>

lemma ok_hash_refs:
  assumes "\<And>s x. okU s (sx x n)" shows "okU s (hash_refs sx n h xs)"
  by (induction xs arbitrary: s h) (auto intro!: okM_ret okU_bind [OF assms] okU_bind [OF ok_HASH_COMBINE(1)])

lemma ok_hash_cell:
  assumes "\<And>s x. okU s (sx x n)" shows "okU s (hash_cell sx ob n)"
  by (auto simp: hash_cell_def subr_name_def siod_array_siod_sxhash_def siod_errswitch_def split: obj.split
      intro!: okM_if okM_stop okM_ret ok_hash_lists ok_hash_refs assms okM_err)

lemma ok_c_sxhash: "okU s (siod_c_siod_sxhash k x n)"
  and ok_hash_spine: "okU s (hash_spine k n x h)"
proof (induction k arbitrary: s x h)
  case (Suc k)
  {
    case 1
    show ?case
      unfolding siod_c_siod_sxhash.simps
      by (rule okM_look) (auto split: option.split obj.split intro!: okM_ret okU_bind [OF Suc.IH(1)] Suc.IH ok_hash_cell)
  next
    case 2
    have step: "okU s (bindM (siod_c_siod_sxhash k a n) (\<lambda>h2. bindM (HASH_COMBINE h h2 n) (hash_spine k n d)))" for a d
      by (intro okU_bind [OF Suc.IH(1)] okU_bind [OF ok_HASH_COMBINE(1)] Suc.IH(2))
    have last: "okU s (bindM (siod_c_siod_sxhash k x n) (\<lambda>h2. HASH_COMBINE h h2 n))"
      by (intro okU_bind [OF Suc.IH(1)] ok_HASH_COMBINE(1))
    show ?case
      unfolding hash_spine.simps by (rule okM_look) (auto split: option.split obj.split intro!: step last)
  }
qed (simp_all add: sound_rules)

lemma ok_sxhash [sound_rules]: "okR s (siod_sxhash k x n)"
  unfolding siod_sxhash_def by (intro okM_look okU_bind [OF ok_c_sxhash] ok_flocons)

lemma ok_answer: "okR s (answer b)"
  unfolding answer_def by (intro okM_if okM_gets okM_ret) (auto intro: wf_global_refs)

lemma ok_refs_equal:
  assumes "\<And>s x y. okR s (eqf x y)" shows "okU s (refs_equal eqf xs ys)"
  by (induction xs ys arbitrary: s rule: list_induct2') (auto intro!: okM_ret okR_bind [OF assms])

lemma ok_array_equal:
  assumes "\<And>s x y. okR s (eqf x y)" shows "okR s (siod_array_siod_equal eqf a b)"
  by (auto simp: siod_array_siod_equal_def siod_errswitch_def undef_def split: obj.split intro!: okM_if okM_ret ok_answer
      okM_stop okM_err okU_bind [OF ok_refs_equal] assms)

lemma ok_equal [sound_rules]: "okR s (siod_equal k a b)"
proof (induction k arbitrary: s a b)
  case (Suc k)
  have step: "okR s (bindM (siod_equal k a1 a2) (\<lambda>r. if r = NIL then ret NIL else siod_equal k d1 d2))" for s a1 a2 d1 d2
    by (intro okR_bind [OF Suc.IH] okM_if okM_ret Suc.IH) simp
  show ?case
    unfolding siod_equal.simps
    by (intro okM_if okM_gets okM_look)
      (auto simp: equal_objects_def array_type_def split: option.split obj.split
        intro!: okM_ret step ok_answer ok_array_equal Suc.IH intro: wf_global_refs)
qed (simp add: sound_rules)

lemma ok_equal_test: "okU s (equal_test a b)"
  unfolding equal_test_def by (intro okM_bind_gets okR_bind [OF ok_equal] okM_ret TrueI)

lemma ok_equal_searches [sound_rules]:
  "ref_ok s l \<Longrightarrow> okR s (siod_assoc x l)" "ref_ok s l \<Longrightarrow> okR s (siod_member x l)"
  unfolding siod_assoc_def siod_member_def
  by (rule ok_assoc_by [where G = "\<lambda>_. True"] ok_member_by [where G = "\<lambda>_. True"]; simp add: ok_equal_test)+

lemma ok_href_index: "ref_ok s t \<Longrightarrow> okU s (siod_href_index t x)"
  unfolding siod_href_index_def
  by (rule okM_look) (auto split: option.split obj.split
      intro!: okM_err okM_bind_gets okU_bind [OF ok_c_sxhash] okM_if okM_ret intro: ref_ok_later)

lemma ok_bucket: "okR s (bucket t i)"
  unfolding bucket_def
  by (rule okM_look) (auto split: option.split obj.split intro!: okM_stop okM_if okM_ret simp: list_all_length)

lemma ok_set_bucket: "ref_ok s l \<Longrightarrow> okU s (set_bucket t i l)"
  unfolding set_bucket_def
  by (rule okM_look) (auto split: option.split obj.split intro!: okM_stop okM_if okM_store list_all_update)

lemma ok_href [sound_rules]: "ref_ok s t \<Longrightarrow> okR s (siod_href t x)"
  unfolding siod_href_def
  by (intro okU_bind [OF ok_href_index] okR_bind [OF ok_bucket] okR_bind [OF ok_equal_searches(1)] ok_cdr)

lemma ok_hset [sound_rules]:
  assumes "ref_ok s t" "ref_ok s x" "ref_ok s v" shows "okR s (siod_hset t x v)"
proof -
  have "list_all (ref_ok s) [t, x, v]" using assms by simp
  then show ?thesis
    unfolding siod_hset_def
    by - (rule ok_href_index ok_bucket ok_equal_searches ok_setcdr ok_cons ok_set_bucket okM_if okM_ret
      | erule okR_seq okU_seq | (simp; fail))+
qed

section \<open>Hashes are in range, and equal objects have the same\<close>

text \<open>A computation whose result has a property and that leaves the state alone when it returns.\<close>

definition pure_act :: "('a \<Rightarrow> bool) \<Rightarrow> 'a act \<Rightarrow> bool" where
  "pure_act P m = (\<forall>s h s'. m s = (Ret h, s') \<longrightarrow> s' = s \<and> P h)"

abbreviation in_range :: "int \<Rightarrow> int act \<Rightarrow> bool" where
  "in_range n \<equiv> pure_act (\<lambda>h. 0 \<le> h \<and> h < n)"

abbreviation quiet :: "'a act \<Rightarrow> bool" where
  "quiet \<equiv> pure_act (\<lambda>_. True)"

lemma pure_bind:
  assumes "pure_act P m" "\<And>h. P h \<Longrightarrow> pure_act Q (f h)" shows "pure_act Q (bindM m f)"
  unfolding pure_act_def
proof (intro allI impI)
  fix s h s' assume "bindM m f s = (Ret h, s')"
  then obtain a s1 where 1: "m s = (Ret a, s1)" "f a s1 = (Ret h, s')"
    by (rule bindM_RetE)
  then have 2: "s1 = s" "P a" using assms(1) unfolding pure_act_def by blast+
  have "pure_act Q (f a)" using 2(2) by (rule assms(2))
  then show "s' = s \<and> Q h" using 1(2) 2(1) unfolding pure_act_def by blast
qed

lemma pure_look:
  assumes "\<And>ob. pure_act P (f ob)" shows "pure_act P (bindM (look x) f)"
  unfolding pure_act_def
proof (intro allI impI)
  fix s h s' assume "bindM (look x) f s = (Ret h, s')"
  then have "f (obj_at s x) s = (Ret h, s')" by (simp add: bindM_def look_cases split: if_splits)
  then show "s' = s \<and> P h" using assms by (simp add: pure_act_def)
qed

lemma pure_ret: "P h \<Longrightarrow> pure_act P (ret h)" "(\<And>s. P (g s)) \<Longrightarrow> pure_act P (gets g)"
  by (simp_all add: pure_act_def gets_def)

lemma pure_stop: "pure_act P undef" "pure_act P nofuel"
  by (simp_all add: pure_act_def undef_def nofuel_def)

lemma err_no_return: "fst (err m x s) \<noteq> Ret v"
  by (simp add: err_def Let_def split: prod.split option.split)

lemma err_not_Ret [simp]: "err m x s \<noteq> (Ret v, s')"
  by (metis err_no_return fst_conv)

lemma pure_err: "pure_act P (err m x)"
  unfolding pure_act_def by (metis err_no_return fst_conv)

lemma in_range_HASH_COMBINE:
  assumes "0 < n" "n < 2 ^ 63" "0 \<le> h1"
  shows "0 \<le> h2 \<Longrightarrow> in_range n (HASH_COMBINE h1 h2 n)" "in_range n (HASH_COMBINE_unsigned h1 h2 n)"
proof -
  show "in_range n (HASH_COMBINE h1 h2 n)" if "0 \<le> h2"
  proof -
    have "0 \<le> (h1 * 17 + 1) XOR h2" using assms that by simp
    then have "c_rem ((h1 * 17 + 1) XOR h2) n = ((h1 * 17 + 1) XOR h2) mod n"
      using assms(1) by (simp add: c_rem_def c_quot_def minus_mult_div_eq_mod sgn_if)
    then show ?thesis using assms(1) by (auto simp: HASH_COMBINE_def intro!: pure_ret pure_stop)
  qed
  have "ulong n = n" using assms by (simp add: ulong_def)
  moreover have "wrap 64 (x mod n) = x mod n" for x
    using pos_mod_sign [OF assms(1), of x] pos_mod_bound [OF assms(1), of x] assms(2)
    by (simp add: wrap_def)
  ultimately show "in_range n (HASH_COMBINE_unsigned h1 h2 n)"
    using assms(1) by (auto simp: HASH_COMBINE_unsigned_def intro!: pure_ret pure_stop)
qed

lemma uchar_nonneg: "0 \<le> uchar c"
  unfolding uchar_def by (metis of_char_mod_256 pos_mod_sign zero_less_numeral)

lemma in_range_lists:
  assumes "0 < n" "n < 2 ^ 63"
  shows "0 \<le> h \<Longrightarrow> h < n \<Longrightarrow> in_range n (hash_chars n h cs)" "0 \<le> h \<Longrightarrow> h < n \<Longrightarrow> in_range n (hash_longs n h js)"
proof -
  show "0 \<le> h \<Longrightarrow> h < n \<Longrightarrow> in_range n (hash_chars n h cs)"
    by (induction cs arbitrary: h) (auto intro!: pure_ret pure_bind in_range_HASH_COMBINE assms uchar_nonneg)
  show "0 \<le> h \<Longrightarrow> h < n \<Longrightarrow> in_range n (hash_longs n h js)"
    by (induction js arbitrary: h) (auto intro!: pure_ret pure_bind in_range_HASH_COMBINE(2) assms)
qed

lemma in_range_refs:
  assumes "0 < n" "n < 2 ^ 63" "\<And>x. in_range n (sx x n)"
  shows "0 \<le> h \<Longrightarrow> h < n \<Longrightarrow> in_range n (hash_refs sx n h xs)"
  by (induction xs arbitrary: h)
    (auto intro!: pure_ret pure_bind [OF assms(3)] pure_bind [OF in_range_HASH_COMBINE(1)] assms)

lemma in_range_cell:
  assumes "0 < n" "n < 2 ^ 63" "\<And>x. in_range n (sx x n)" shows "in_range n (hash_cell sx ob n)"
proof -
  have "ulong n = n" "\<And>x. 0 \<le> x mod n \<and> x mod n < n" using assms by (simp_all add: ulong_def)
  moreover have "wrap 64 (x mod n) = x mod n" for x
    using pos_mod_sign [OF assms(1), of x] pos_mod_bound [OF assms(1), of x] assms(2)
    by (simp add: wrap_def)
  ultimately show ?thesis
    using assms by (auto simp: hash_cell_def subr_name_def siod_array_siod_sxhash_def siod_errswitch_def split: obj.split
        intro!: pure_stop pure_ret in_range_lists in_range_refs pure_err)
qed

lemma in_range_sxhash:
  assumes "0 < n" "n < 2 ^ 63"
  shows "in_range n (siod_c_siod_sxhash k x n)" "0 \<le> h \<Longrightarrow> in_range n (hash_spine k n x h)"
proof (induction k arbitrary: x h)
  case (Suc k)
  {
    case 1
    show ?case
      unfolding siod_c_siod_sxhash.simps
      by (rule pure_look) (auto split: option.split obj.split intro!: pure_ret pure_bind [OF Suc.IH(1)]
          Suc.IH in_range_cell assms)
  next
    case 2
    have step: "in_range n (bindM (siod_c_siod_sxhash k a n) (\<lambda>h2. bindM (HASH_COMBINE h h2 n) (hash_spine k n d)))" for a d
      by (intro pure_bind [OF Suc.IH(1)] pure_bind [OF in_range_HASH_COMBINE(1)] Suc.IH(2) assms 2) auto
    have last: "in_range n (bindM (siod_c_siod_sxhash k x n) (\<lambda>h2. HASH_COMBINE h h2 n))"
      by (intro pure_bind [OF Suc.IH(1)] in_range_HASH_COMBINE(1) assms 2) auto
    show ?case
      unfolding hash_spine.simps by (rule pure_look) (auto split: option.split obj.split intro!: step last)
  }
qed (simp_all add: pure_stop)

text \<open>
  C38. A hash that is computed for a modulus below 2^63 is between 0 and the modulus, so that it is an index of
  the table.
\<close>

theorem sxhash_in_range:
  assumes "0 < n" "n < 2 ^ 63" "siod_c_siod_sxhash k x n s = (Ret h, s')"
  shows "s' = s \<and> 0 \<le> h \<and> h < n"
  using in_range_sxhash(1) [OF assms(1,2)] assms(3) unfolding pure_act_def by blast

definition hash_example :: siod where
  "hash_example = small_state [string_cell ''ab'', Tc_symbol ''a'' NIL, Tc_cons (Ref 1) (Ref 2), string_cell ''ab'',
     Tc_cons (Ref 4) (Ref 2)]"

lemma hash_example_hash: "siod_c_siod_sxhash 3 (Ref 3) 10 hash_example = (Ret 0, hash_example)"
  by (simp add: hash_example_def small_state_def eval_nat_numeral bind_run hash_cell_def subr_name_def
      siod_array_siod_sxhash_def string_cell_def HASH_COMBINE_def c_rem_def c_quot_def uchar_def cstr_def)

theorem sxhash_in_range_witness: "(0 :: int) \<le> 0 \<and> siod_c_siod_sxhash 3 (Ref 3) 10 hash_example = (Ret 0, hash_example)"
  using sxhash_in_range [OF _ _ hash_example_hash] hash_example_hash by simp

lemma quiet_lists: "quiet (hash_chars n h cs)" "quiet (hash_longs n h js)"
proof -
  show "quiet (hash_chars n h cs)"
    by (induction cs arbitrary: h) (auto simp: HASH_COMBINE_def intro!: pure_ret pure_bind [of "\<lambda>_. True"] pure_stop)
  show "quiet (hash_longs n h js)"
    by (induction js arbitrary: h)
      (auto simp: HASH_COMBINE_unsigned_def intro!: pure_ret pure_bind [of "\<lambda>_. True"] pure_stop)
qed

lemma quiet_HASH_COMBINE: "quiet (HASH_COMBINE a b n)"
  by (simp add: HASH_COMBINE_def pure_ret pure_stop)

lemma quiet_refs: "(\<And>x. quiet (sx x n)) \<Longrightarrow> quiet (hash_refs sx n h xs)"
  by (induction xs arbitrary: h) (auto intro!: pure_ret pure_bind [of "\<lambda>_. True"] quiet_HASH_COMBINE)

lemma quiet_sxhash: "quiet (siod_c_siod_sxhash k x n)" "quiet (hash_spine k n x h)"
proof (induction k arbitrary: x h)
  case (Suc k)
  {
    case 1
    show ?case
      unfolding siod_c_siod_sxhash.simps
      by (rule pure_look) (auto simp: hash_cell_def subr_name_def siod_array_siod_sxhash_def siod_errswitch_def
          split: option.split obj.split intro!: pure_ret pure_stop pure_bind [of "\<lambda>_. True"] quiet_lists
          quiet_refs Suc.IH pure_err)
  next
    case 2
    show ?case
      unfolding hash_spine.simps
      by (rule pure_look) (auto split: option.split obj.split intro!: pure_bind [of "\<lambda>_. True"] Suc.IH
          quiet_HASH_COMBINE)
  }
qed (simp_all add: pure_stop)

lemma quiet_equal: "quiet (siod_equal k a b)"
proof (induction k arbitrary: a b)
  case (Suc k)
  have answers: "quiet (answer c)" for c by (simp add: answer_def pure_ret)
  have refs: "quiet (refs_equal (siod_equal k) xs ys)" for xs ys
    by (induction xs ys rule: list_induct2') (auto simp del: ret_run intro!: pure_ret pure_bind [of "\<lambda>_. True"] Suc.IH)
  show ?case
    unfolding siod_equal.simps
    by (auto simp: siod_array_siod_equal_def equal_objects_def siod_errswitch_def undef_def split: option.split obj.split
        intro!: pure_look pure_stop pure_err pure_ret pure_bind [of "\<lambda>_. True"] Suc.IH answers refs)
qed (simp add: pure_stop)

definition same_hash :: "siod \<Rightarrow> siod_LISP \<Rightarrow> siod_LISP \<Rightarrow> bool" where
  "same_hash s a b = (\<forall>j n. siod_c_siod_sxhash j a n s = siod_c_siod_sxhash j b n s \<and>
     (\<forall>h. hash_spine j n a h s = hash_spine j n b h s))"

lemma bind_same: "m s = m' s \<Longrightarrow> (\<And>a s'. m s = (Ret a, s') \<Longrightarrow> f a s' = g a s') \<Longrightarrow> bindM m f s = bindM m' g s"
proof -
  assume 1: "m s = m' s" "\<And>a s'. m s = (Ret a, s') \<Longrightarrow> f a s' = g a s'"
  obtain r s1 where "m' s = (r, s1)" by fastforce
  with 1 show ?thesis by (cases r) (auto simp: bindM_def)
qed

lemma same_hash_cells:
  assumes "ref_ok s a" "ref_ok s b" "obj_at s a = Some o1" "obj_at s b = Some o2" "\<not> is_cons (Some o1)" "\<not> is_cons (Some o2)"
    and "\<And>j n. hash_cell (siod_c_siod_sxhash j) o1 n s = hash_cell (siod_c_siod_sxhash j) o2 n s"
  shows "same_hash s a b"
proof -
  have sx: "siod_c_siod_sxhash j a n s = siod_c_siod_sxhash j b n s" for j n
  proof (cases j)
    case (Suc i)
    have "siod_c_siod_sxhash j a n s = hash_cell (siod_c_siod_sxhash i) o1 n s"
      "siod_c_siod_sxhash j b n s = hash_cell (siod_c_siod_sxhash i) o2 n s"
      using assms(1-6) Suc by (auto simp: bind_run look_eq is_cons_def split: obj.split)
    then show ?thesis using assms(7) by simp
  qed simp
  have "hash_spine j n a h s = hash_spine j n b h s" for j n h
  proof (cases j)
    case (Suc i)
    have "hash_spine j n a h s = bindM (siod_c_siod_sxhash i a n) (\<lambda>h2. HASH_COMBINE h h2 n) s"
      "hash_spine j n b h s = bindM (siod_c_siod_sxhash i b n) (\<lambda>h2. HASH_COMBINE h h2 n) s"
      using assms(1-6) Suc by (auto simp: bind_run look_eq is_cons_def split: obj.split)
    then show ?thesis using sx [of i n] bind_same by metis
  qed simp
  with sx show ?thesis by (simp add: same_hash_def)
qed

lemma same_hash_cons:
  assumes "ref_ok s a" "ref_ok s b" "obj_at s a = Some (Tc_cons a1 d1)" "obj_at s b = Some (Tc_cons a2 d2)"
    and "same_hash s a1 a2" "same_hash s d1 d2"
  shows "same_hash s a b"
proof -
  have quiet: "s' = s" if "siod_c_siod_sxhash j a1 n s = (Ret h, s')" for j n h s'
    using quiet_sxhash(1) that unfolding pure_act_def by blast
  have first: "bindM (siod_c_siod_sxhash i a1 n) f s = bindM (siod_c_siod_sxhash i a2 n) g s"
    if "\<And>h. f h s = g h s" for i n and f g :: "int \<Rightarrow> int act"
  proof (rule bind_same)
    show "siod_c_siod_sxhash i a1 n s = siod_c_siod_sxhash i a2 n s" using assms(5) by (simp add: same_hash_def)
    fix h s' assume "siod_c_siod_sxhash i a1 n s = (Ret h, s')"
    then show "f h s' = g h s'" using quiet that by blast
  qed
  have spine: "hash_spine i n d1 h s = hash_spine i n d2 h s" for i n h using assms(6) by (simp add: same_hash_def)
  have "siod_c_siod_sxhash j a n s = siod_c_siod_sxhash j b n s" for j n
  proof (cases j)
    case (Suc i)
    then show ?thesis using first [of "hash_spine i n d1" "hash_spine i n d2", OF spine] assms(1-4) by (simp add: bind_run look_eq)
  qed simp
  moreover have "hash_spine j n a h s = hash_spine j n b h s" for j n h
  proof (cases j)
    case (Suc i)
    have combine: "bindM (HASH_COMBINE h h2 n) (hash_spine i n d1) s = bindM (HASH_COMBINE h h2 n) (hash_spine i n d2) s" for h2
    proof (rule bind_same [OF refl])
      fix x s' assume "HASH_COMBINE h h2 n s = (Ret x, s')"
      then have "s' = s" using quiet_HASH_COMBINE unfolding pure_act_def by blast
      then show "hash_spine i n d1 x s' = hash_spine i n d2 x s'" using spine by simp
    qed
    then show ?thesis
      using Suc first [of "\<lambda>h2. bindM (HASH_COMBINE h h2 n) (hash_spine i n d1)"
          "\<lambda>h2. bindM (HASH_COMBINE h h2 n) (hash_spine i n d2)"] assms(1-4)
      by (simp add: bind_run look_eq)
  qed simp
  ultimately show ?thesis by (simp add: same_hash_def)
qed

lemma same_hash_refl [simp]: "same_hash s a a"
  by (simp add: same_hash_def)

lemma same_hash_refs:
  "list_all2 (same_hash s) xs ys \<Longrightarrow>
   hash_refs (siod_c_siod_sxhash j) n h xs s = hash_refs (siod_c_siod_sxhash j) n h ys s"
proof (induction xs ys arbitrary: h rule: list_all2_induct)
  case (Cons x xs y ys)
  have "bindM (HASH_COMBINE h h2 n) (\<lambda>h. hash_refs (siod_c_siod_sxhash j) n h xs) s =
      bindM (HASH_COMBINE h h2 n) (\<lambda>h. hash_refs (siod_c_siod_sxhash j) n h ys) s" for h2
  proof (rule bind_same [OF refl])
    fix a s' assume "HASH_COMBINE h h2 n s = (Ret a, s')"
    then have "s' = s" using quiet_HASH_COMBINE unfolding pure_act_def by blast
    then show "hash_refs (siod_c_siod_sxhash j) n a xs s' = hash_refs (siod_c_siod_sxhash j) n a ys s'"
      using Cons.IH by simp
  qed
  note rest = this
  show ?case
    unfolding hash_refs.simps
  proof (rule bind_same)
    show "siod_c_siod_sxhash j x n s = siod_c_siod_sxhash j y n s" using Cons.hyps(1) by (simp add: same_hash_def)
    fix a s' assume "siod_c_siod_sxhash j x n s = (Ret a, s')"
    then have "s' = s" using quiet_sxhash(1) unfolding pure_act_def by blast
    then show "bindM (HASH_COMBINE h a n) (\<lambda>h. hash_refs (siod_c_siod_sxhash j) n h xs) s' =
        bindM (HASH_COMBINE h a n) (\<lambda>h. hash_refs (siod_c_siod_sxhash j) n h ys) s'"
      using rest by blast
  qed
qed simp

lemma deq_ulong: "deq x y \<Longrightarrow> c_ulong x = c_ulong y"
  by (cases x; cases y) (auto simp: c_ulong_def)

lemma array_equal_cases:
  assumes "siod_array_siod_equal eqf o1 o2 s = (Ret r, s')" "r \<noteq> NIL"
  obtains (string) n x y where "o1 = Tc_string n x" "o2 = Tc_string n y" "take n x = take n y"
  | (bytes) n x y where "o1 = Tc_byte_array n x" "o2 = Tc_byte_array n y" "take n x = take n y"
  | (longs) xs where "o1 = Tc_long_array xs" "o2 = Tc_long_array xs"
  | (doubles) xs ys where "o1 = Tc_double_array xs" "o2 = Tc_double_array ys" "length xs = length ys" "doubles_equal xs ys"
  | (lisp) xs ys s1 where "o1 = Tc_lisp_array xs" "o2 = Tc_lisp_array ys" "length xs = length ys"
      "refs_equal eqf xs ys s = (Ret True, s1)"
proof (cases o1)
  case (Tc_string n x)
  then show ?thesis
    using assms string by (cases o2) (auto simp: siod_array_siod_equal_def answer_def undef_def split: if_splits)
next
  case (Tc_byte_array n x)
  then show ?thesis
    using assms bytes by (cases o2) (auto simp: siod_array_siod_equal_def answer_def undef_def split: if_splits)
next
  case (Tc_long_array xs)
  then show ?thesis
    using assms longs by (cases o2) (auto simp: siod_array_siod_equal_def answer_def split: if_splits)
next
  case (Tc_double_array xs)
  then show ?thesis
    using assms doubles by (cases o2) (auto simp: siod_array_siod_equal_def answer_def split: if_splits)
next
  case (Tc_lisp_array xs)
  then show ?thesis
    using assms lisp
    by (cases o2) (auto simp: siod_array_siod_equal_def answer_def split: if_splits elim!: bindM_RetE)
qed (use assms(1) in \<open>simp_all add: siod_array_siod_equal_def siod_errswitch_def err_not_Ret\<close>)

lemma equal_objects_cases:
  assumes "equal_objects eqf o1 o2 s = (Ret r, s')" "\<nexists>a1 d1 a2 d2. o1 = Tc_cons a1 d1 \<and> o2 = Tc_cons a2 d2" "r \<noteq> NIL"
  shows "(\<exists>x y. o1 = Tc_flonum x \<and> o2 = Tc_flonum y \<and> deq x y) \<or> siod_array_siod_equal eqf o1 o2 s = (Ret r, s')"
proof (cases o1)
  case (Tc_cons a d)
  then show ?thesis using assms by (cases o2) (simp_all add: equal_objects_def)
next
  case (Tc_flonum x)
  then show ?thesis using assms by (cases o2) (simp_all add: equal_objects_def answer_def split: if_splits)
qed (use assms in \<open>simp_all add: equal_objects_def array_type_def\<close>)

lemma doubles_equal_hash: "length xs = length ys \<Longrightarrow> doubles_equal xs ys \<Longrightarrow> map c_ulong xs = map c_ulong ys"
proof (induction xs ys rule: list_induct2)
  case (Cons x xs y ys)
  then show ?case using deq_ulong by simp
qed simp

lemma take_short: "take n x = take n y \<Longrightarrow> (length x < n) = (length y < n)"
  using arg_cong [of "take n x" "take n y" length] by (auto simp: min_def split: if_splits)

lemma equal_same_hash:
  shows "siod_equal k a b s = (Ret r, s') \<Longrightarrow> r \<noteq> NIL \<Longrightarrow> same_hash s a b"
proof (induction k arbitrary: a b r s')
  case (Suc k)
  show ?case
  proof (cases "a = b")
    case False
    have refs: "list_all2 (same_hash s) xs ys"
      if "refs_equal (siod_equal k) xs ys s = (Ret True, s1)" "length xs = length ys" for xs ys s1
      using that
    proof (induction xs ys rule: list_induct2')
      case (4 x xs y ys)
      then obtain r1 s2 where 1: "siod_equal k x y s = (Ret r1, s2)"
        "(if r1 = NIL then ret False else refs_equal (siod_equal k) xs ys) s2 = (Ret True, s1)"
        by (auto elim: bindM_RetE)
      moreover have "s2 = s" using quiet_equal 1(1) unfolding pure_act_def by blast
      ultimately show ?case using Suc.IH [of x y r1 s2] 4 by (simp split: if_splits)
    qed simp_all
    obtain o1 o2 where o: "ref_ok s a" "ref_ok s b" "obj_at s a = Some o1" "obj_at s b = Some o2"
      using Suc.prems False by (auto simp: look_cases ret_def bindM_def split: if_splits option.splits)
    show ?thesis
    proof (cases "\<exists>a1 d1 a2 d2. o1 = Tc_cons a1 d1 \<and> o2 = Tc_cons a2 d2")
      case True
      then obtain a1 d1 a2 d2 where c: "o1 = Tc_cons a1 d1" "o2 = Tc_cons a2 d2" by blast
      then have "bindM (siod_equal k a1 a2) (\<lambda>r. if r = NIL then ret NIL else siod_equal k d1 d2) s = (Ret r, s')"
        using Suc.prems(1) False o by (simp add: bind_run look_eq equal_objects_def)
      then obtain r1 s2 where 1: "siod_equal k a1 a2 s = (Ret r1, s2)"
        "(if r1 = NIL then ret NIL else siod_equal k d1 d2) s2 = (Ret r, s')" by (rule bindM_RetE)
      have "r1 \<noteq> NIL" using 1(2) Suc.prems(2) by (auto simp: ret_def)
      have s2: "s2 = s" using quiet_equal 1(1) unfolding pure_act_def by blast
      have "siod_equal k d1 d2 s = (Ret r, s')" using 1(2) \<open>r1 \<noteq> NIL\<close> unfolding s2 by (simp only: if_False)
      then have "same_hash s d1 d2" using Suc.prems(2) by (rule Suc.IH)
      moreover have "same_hash s a1 a2" using 1(1) \<open>r1 \<noteq> NIL\<close> by (rule Suc.IH)
      ultimately show ?thesis using o c same_hash_cons [of s a b a1 d1 a2 d2] by simp
    next
      case other: False
      have run: "(if a = b then gets sym_t
          else bindM (look a) (\<lambda>oa. bindM (look b) (\<lambda>ob. case oa of None \<Rightarrow> ret NIL
            | Some o1 \<Rightarrow> (case ob of None \<Rightarrow> ret NIL
              | Some o2 \<Rightarrow> equal_objects (siod_equal k) o1 o2)))) s = (Ret r, s')"
        using Suc.prems(1) by (simp only: siod_equal.simps)
      then have "equal_objects (siod_equal k) o1 o2 s = (Ret r, s')"
        using False o by (simp add: bind_run look_eq)
      then have "(\<exists>x y. o1 = Tc_flonum x \<and> o2 = Tc_flonum y \<and> deq x y) \<or>
          siod_array_siod_equal (siod_equal k) o1 o2 s = (Ret r, s')"
        using other Suc.prems(2) by (rule equal_objects_cases)
      then consider x y where "o1 = Tc_flonum x" "o2 = Tc_flonum y" "deq x y"
        | "siod_array_siod_equal (siod_equal k) o1 o2 s = (Ret r, s')" by blast
      then have "\<not> is_cons (Some o1) \<and> \<not> is_cons (Some o2) \<and>
          (\<forall>j n. hash_cell (siod_c_siod_sxhash j) o1 n s = hash_cell (siod_c_siod_sxhash j) o2 n s)"
      proof cases
        case 1
        then show ?thesis using deq_ulong by (simp add: is_cons_def hash_cell_def)
      next
        case 2
        then show ?thesis using Suc.prems(2)
        proof (cases rule: array_equal_cases)
          case (string n x y)
          then show ?thesis using take_short [OF string(3)]
            by (simp add: is_cons_def hash_cell_def subr_name_def siod_array_siod_sxhash_def)
        next
          case (bytes n x y)
          then show ?thesis using take_short [OF bytes(3)]
            by (simp add: is_cons_def hash_cell_def subr_name_def siod_array_siod_sxhash_def)
        next
          case (longs xs)
          then show ?thesis by (simp add: is_cons_def hash_cell_def subr_name_def siod_array_siod_sxhash_def)
        next
          case (doubles xs ys)
          then show ?thesis using doubles_equal_hash [of xs ys]
            by (simp add: is_cons_def hash_cell_def subr_name_def siod_array_siod_sxhash_def)
        next
          case (lisp xs ys s1)
          then show ?thesis using same_hash_refs [OF refs]
            by (simp add: is_cons_def hash_cell_def subr_name_def siod_array_siod_sxhash_def)
        qed
      qed
      then show ?thesis using o same_hash_cells [of s a b o1 o2] by blast
    qed
  qed simp
qed (simp add: nofuel_def)

text \<open>
  C39. Two objects that equal finds equal have the same hash for every modulus, so that they fall into the same
  bucket of every table: whatever is stored under one of them is found under the other.
\<close>

theorem equal_objects_hash_alike:
  assumes "siod_equal k a b s = (Ret r, s')" "r \<noteq> NIL"
  shows "siod_c_siod_sxhash j a n s = siod_c_siod_sxhash j b n s"
  using equal_same_hash [OF assms] by (simp add: same_hash_def)

lemma hash_example_equal: "siod_equal 3 (Ref 3) (Ref 5) hash_example = (Ret (sym_t hash_example), hash_example)"
  by (simp add: hash_example_def small_state_def eval_nat_numeral bindM_def look_cases gets_def ret_def
      obj_at_def ref_ok_def equal_objects_def
      siod_array_siod_equal_def array_type_def string_cell_def answer_def)

theorem equal_objects_hash_alike_witness:
  "siod_c_siod_sxhash 3 (Ref 3) 10 hash_example = siod_c_siod_sxhash 3 (Ref 5) 10 hash_example"
  by (rule equal_objects_hash_alike [OF hash_example_equal]) (simp add: hash_example_def small_state_def)

end
