(* ===== verification/Files.thy ===== *)
theory Files
  imports Data Codecs
begin

text \<open>
  Files (slib.c, sliba.c, slibu.c): cells that hold a FILE, and the functions of the C library that the code uses on
  one.  A stream reads and writes the disk of the state without a buffer; standard output is the console.
\<close>

section \<open>The C library\<close>

abbreviation (input) c_stdin :: nat where "c_stdin \<equiv> 0"
abbreviation (input) c_stdout :: nat where "c_stdout \<equiv> 1"

text \<open>Using a stream that is closed is undefined behaviour.\<close>

definition on_stream :: "nat \<Rightarrow> (stream \<Rightarrow> 'a act) \<Rightarrow> 'a act" where
  "on_stream f g s =
     (if f < length (streams s) \<and> st_open (streams s ! f) then g (streams s ! f) s else (Undef, s))"

definition set_stream :: "nat \<Rightarrow> stream \<Rightarrow> unit act" where
  "set_stream f st = modifyM (\<lambda>s. s\<lparr>streams := (streams s)[f := st]\<rparr>)"

definition content :: "siod \<Rightarrow> stream \<Rightarrow> string" where
  "content s st = (case disk s (st_path st) of Some t \<Rightarrow> t | None \<Rightarrow> [])"

text \<open>What a stream reads next, and the stream behind the first k characters of it.\<close>

definition ahead :: "siod \<Rightarrow> stream \<Rightarrow> char list" where
  "ahead s st = (if st_reads st then st_back st @ drop (st_pos st) (content s st) else [])"

definition advance :: "nat \<Rightarrow> stream \<Rightarrow> stream" where
  "advance k st = st\<lparr>st_back := drop k (st_back st), st_pos := st_pos st + (k - length (st_back st))\<rparr>"

definition opened :: "string \<Rightarrow> bool \<Rightarrow> bool \<Rightarrow> bool \<Rightarrow> stream" where
  "opened path r w a =
     \<lparr>st_path = path, st_pos = 0, st_back = [], st_reads = r, st_writes = w, st_appends = a, st_open = True\<rparr>"

definition c_fopen :: "string \<Rightarrow> string \<Rightarrow> nat option act" where
  "c_fopen path how s =
     (let plus = CHR ''+'' \<in> set how; mode = (if how = [] then NUL else hd how); old = disk s path;
          new = (\<lambda>t st. (Ret (Some (length (streams s))), s\<lparr>disk := (disk s)(path := t), streams := streams s @ [st]\<rparr>))
      in if \<not> may_open s path how then (Ret None, s)
         else if mode = CHR ''r'' \<and> old \<noteq> None then new old (opened path True plus False)
         else if mode = CHR ''w'' then new (Some []) (opened path plus True False)
         else if mode = CHR ''a'' then new (if old = None then Some [] else old) (opened path plus True True)
         else (Ret None, s))"

definition c_fclose :: "nat \<Rightarrow> unit act" where
  "c_fclose f = on_stream f (\<lambda>st. set_stream f (st\<lparr>st_open := False\<rparr>))"

definition c_getc :: "nat \<Rightarrow> char option act" where
  "c_getc f = on_stream f (\<lambda>st. bindM (gets (\<lambda>s. ahead s st)) (\<lambda>t. case t of
       [] \<Rightarrow> ret None
     | c # r \<Rightarrow> bindM (set_stream f (advance 1 st)) (\<lambda>_. ret (Some c))))"

definition c_ungetc :: "char option \<Rightarrow> nat \<Rightarrow> unit act" where
  "c_ungetc c f = on_stream f (\<lambda>st. case c of
       None \<Rightarrow> ret ()
     | Some ch \<Rightarrow> set_stream f (st\<lparr>st_back := ch # st_back st\<rparr>))"

text \<open>At most n characters.\<close>

definition c_fread :: "nat \<Rightarrow> nat \<Rightarrow> char list act" where
  "c_fread n f = on_stream f (\<lambda>st. bindM (gets (\<lambda>s. take n (ahead s st))) (\<lambda>t.
     bindM (set_stream f (advance (length t) st)) (\<lambda>_. ret t)))"

text \<open>A line with its newline, cut behind n - 1 characters; none at the end of the file.\<close>

definition first_line :: "char list \<Rightarrow> char list" where
  "first_line t = (let l = takeWhile (\<lambda>c. c \<noteq> CHR 0x0A) t in take (Suc (length l)) t)"

definition c_fgets :: "nat \<Rightarrow> nat \<Rightarrow> char list option act" where
  "c_fgets n f = (if n = 0 then ret None else if n = 1 then ret (Some []) else on_stream f (\<lambda>st.
     bindM (gets (\<lambda>s. first_line (take (n - 1) (ahead s st)))) (\<lambda>t.
     if t = [] then ret None
     else bindM (set_stream f (advance (length t) st)) (\<lambda>_. ret (Some t)))))"

text \<open>The text of a file, with t written at a position.\<close>

definition write_at :: "nat \<Rightarrow> char list \<Rightarrow> char list \<Rightarrow> char list" where
  "write_at p t old = take p old @ replicate (p - length old) NUL @ t @ drop (p + length t) old"

definition c_write :: "nat \<Rightarrow> char list \<Rightarrow> unit act" where
  "c_write f t = (if f = c_stdout then put_st t else on_stream f (\<lambda>st.
     if \<not> st_writes st then ret ()
     else bindM (gets (\<lambda>s. content s st)) (\<lambda>old.
       (let p = (if st_appends st then length old else st_pos st) in
        bindM (modifyM (\<lambda>s. s\<lparr>disk := (disk s)(st_path st := Some (write_at p t old))\<rparr>)) (\<lambda>_.
        set_stream f (st\<lparr>st_pos := p + length t, st_back := []\<rparr>))))))"

definition c_fflush :: "nat \<Rightarrow> unit act" where
  "c_fflush f = on_stream f (\<lambda>st. ret ())"

definition c_ftell :: "nat \<Rightarrow> int act" where
  "c_ftell f = on_stream f (\<lambda>st. ret (int (st_pos st) - int (length (st_back st))))"

text \<open>SEEK_SET, SEEK_CUR and SEEK_END are 0, 1 and 2; the result is whether the position was set.\<close>

definition c_fseek :: "nat \<Rightarrow> int \<Rightarrow> int \<Rightarrow> bool act" where
  "c_fseek f offset whence = on_stream f (\<lambda>st. bindM (gets (\<lambda>s. length (content s st))) (\<lambda>n.
     (let start = (if whence = 0 then Some 0 else if whence = 1 then Some (int (st_pos st) - int (length (st_back st)))
                   else if whence = 2 then Some (int n) else None)
      in case start of
           None \<Rightarrow> ret False
         | Some b \<Rightarrow>
             if b + offset < 0 then ret False
             else bindM (set_stream f (st\<lparr>st_pos := nat (b + offset), st_back := []\<rparr>)) (\<lambda>_. ret True))))"

section \<open>Cells of files\<close>

definition siod_llast_c_errmsg :: "siod_LISP act" where
  "siod_llast_c_errmsg = bindM (gets errno_text) siod_cintern"

text \<open>The message is built in a buffer of 256 bytes.\<close>

definition siod_fopen_cg :: "string \<Rightarrow> string \<Rightarrow> siod_LISP act" where
  "siod_fopen_cg name how = bindM (newcell (Tc_c_file None None)) (\<lambda>sym.
     bindM (c_fopen name how) (\<lambda>r. case r of
         None \<Rightarrow> bindM siod_llast_c_errmsg (errm (take 255 (''could not open '' @ name)))
       | Some f \<Rightarrow> bindM (store sym (Tc_c_file (Some name) (Some f))) (\<lambda>_. ret sym)))"

definition siod_fopen_c :: "string \<Rightarrow> string \<Rightarrow> siod_LISP act" where
  "siod_fopen_c name how = siod_fopen_cg name how"

definition siod_fopen_l :: "siod_LISP \<Rightarrow> siod_LISP \<Rightarrow> siod_LISP act" where
  "siod_fopen_l name how = bindM (get_c_string name) (\<lambda>n.
     bindM (if how = NIL then ret ''r'' else get_c_string how) (siod_fopen_c n))"

definition siod_file_gc_free :: "siod_LISP \<Rightarrow> unit act" where
  "siod_file_gc_free p = bindM (look p) (\<lambda>ob. case ob of
       Some (Tc_c_file name f) \<Rightarrow>
         bindM (case f of Some i \<Rightarrow> c_fclose i | None \<Rightarrow> ret ()) (\<lambda>_. store p (Tc_c_file None None))
     | _ \<Rightarrow> undef)"

definition siod_fclose_l :: "siod_LISP \<Rightarrow> siod_LISP act" where
  "siod_fclose_l p = bindM (look p) (\<lambda>ob. case ob of
       Some (Tc_c_file name f) \<Rightarrow> bindM (siod_file_gc_free p) (\<lambda>_. ret NIL)
     | _ \<Rightarrow> errm ''not a file'' p)"

text \<open>The default, where there is one, is the stream of NIL.\<close>

definition siod_get_c_file :: "siod_LISP \<Rightarrow> nat option \<Rightarrow> nat act" where
  "siod_get_c_file p deflt = (case (p, deflt) of
       (NIL, Some d) \<Rightarrow> ret d
     | _ \<Rightarrow> bindM (look p) (\<lambda>ob. case ob of
           Some (Tc_c_file name (Some f)) \<Rightarrow> ret f
         | Some (Tc_c_file name None) \<Rightarrow> errm ''file is closed'' p
         | _ \<Rightarrow> errm ''not a file'' p))"

definition siod_fput_st :: "nat \<Rightarrow> string \<Rightarrow> unit act" where
  "siod_fput_st f st = c_write f st"

definition siod_put_st :: "string \<Rightarrow> unit act" where
  "siod_put_st st = siod_fput_st c_stdout st"

section \<open>Characters and lines\<close>

definition siod_lgetc :: "siod_LISP \<Rightarrow> siod_LISP act" where
  "siod_lgetc p = bindM (siod_get_c_file p (Some c_stdin)) (\<lambda>f. bindM (c_getc f) (\<lambda>i. case i of
       None \<Rightarrow> ret NIL
     | Some c \<Rightarrow> siod_flocons (of_long (of_char c))))"

text \<open>The character is an int; EOF is -1.\<close>

definition siod_lungetc :: "siod_LISP \<Rightarrow> siod_LISP \<Rightarrow> siod_LISP act" where
  "siod_lungetc ii p = (if ii = NIL then ret NIL
     else bindM (siod_get_c_long ii) (\<lambda>i. bindM (siod_get_c_file p (Some c_stdin)) (\<lambda>f.
       bindM (c_ungetc (if (i + 1) mod 2 ^ 32 = 0 then None else Some (char_of (i mod 256))) f) (\<lambda>_. ret NIL))))"

definition siod_lputs :: "siod_LISP \<Rightarrow> siod_LISP \<Rightarrow> siod_LISP act" where
  "siod_lputs str p = bindM (siod_get_c_file p (Some c_stdout)) (\<lambda>f. bindM (get_c_string str) (\<lambda>st.
     bindM (siod_fput_st f st) (\<lambda>_. ret NIL)))"

definition siod_lputc :: "siod_LISP \<Rightarrow> siod_LISP \<Rightarrow> siod_LISP act" where
  "siod_lputc c p = bindM (siod_get_c_file p (Some c_stdout)) (\<lambda>f. bindM (look c) (\<lambda>ob.
     bindM (case ob of
         Some (Tc_flonum d) \<Rightarrow> ret (char_of (c_int d mod 256))
       | _ \<Rightarrow> bindM (get_c_string c) (\<lambda>st. ret (if st = [] then NUL else hd st))) (\<lambda>ch.
     bindM (c_write f [ch]) (\<lambda>_. ret NIL))))"

definition siod_lftell :: "siod_LISP \<Rightarrow> siod_LISP act" where
  "siod_lftell file = bindM (siod_get_c_file file None) (\<lambda>f. bindM (c_ftell f) (\<lambda>n. siod_flocons (of_long n)))"

definition siod_lfseek :: "siod_LISP \<Rightarrow> siod_LISP \<Rightarrow> siod_LISP \<Rightarrow> siod_LISP act" where
  "siod_lfseek file offset direction = bindM (siod_get_c_file file None) (\<lambda>f.
     bindM (siod_get_c_long offset) (\<lambda>n. bindM (siod_get_c_long direction) (\<lambda>d.
     bindM (c_fseek f n (wrap 32 d)) (\<lambda>b. if b then gets sym_t else ret NIL))))"

definition siod_lfflush :: "siod_LISP \<Rightarrow> siod_LISP act" where
  "siod_lfflush file = bindM (siod_get_c_file file (Some c_stdout)) (\<lambda>f. bindM (c_fflush f) (\<lambda>_. ret NIL))"

text \<open>The buffer of gets has 2048 bytes.\<close>

definition siod_lgets :: "siod_LISP \<Rightarrow> siod_LISP \<Rightarrow> siod_LISP act" where
  "siod_lgets file buffn = bindM (siod_get_c_file file (Some c_stdin)) (\<lambda>f.
     bindM (if buffn = NIL then ret 2048
       else bindM (siod_get_c_long buffn) (\<lambda>n.
         if n < 0 then errm ''size must be >= 0'' buffn
         else if 2048 < n then bindM (siod_flocons (of_long 2048)) (\<lambda>b.
           bindM (siod_listn [buffn, b]) (errm ''not handling buffer of size''))
         else ret n)) (\<lambda>n.
     bindM (c_fgets (nat n) f) (\<lambda>r. case r of
         Some t \<Rightarrow> siod_strcons (cstr t)
       | None \<Rightarrow> ret NIL)))"

definition siod_readline :: "siod_LISP \<Rightarrow> siod_LISP act" where
  "siod_readline file = bindM (siod_lgets file NIL) (\<lambda>result.
     if result = NIL then ret NIL
     else bindM (look result) (\<lambda>ob. case ob of
         Some (Tc_string n b) \<Rightarrow>
           (let l = length (takeWhile (\<lambda>c. c \<noteq> CHR 0x0A) (cstr b)) in
            if l < length (cstr b) then bindM (store result (Tc_string l (b[l := NUL]))) (\<lambda>_. ret result)
            else ret result)
       | _ \<Rightarrow> undef))"

section \<open>Blocks\<close>

text \<open>A string or a byte array is the buffer; a number makes a new string.\<close>

definition siod_lfread :: "siod_LISP \<Rightarrow> siod_LISP \<Rightarrow> siod_LISP act" where
  "siod_lfread sz file = bindM (siod_get_c_file file (Some c_stdin)) (\<lambda>f. bindM (look sz) (\<lambda>ob.
     (let fill = (\<lambda>mk n b. if length b < n then undef
            else bindM (c_fread n f) (\<lambda>t.
              if t = [] then ret NIL
              else bindM (store sz (mk n (t @ drop (length t) b))) (\<lambda>_. siod_flocons (of_long (int (length t))))))
      in case ob of
          Some (Tc_string n b) \<Rightarrow> fill Tc_string n b
        | Some (Tc_byte_array n b) \<Rightarrow> fill Tc_byte_array n b
        | _ \<Rightarrow> bindM (siod_get_c_long sz) (\<lambda>n.
            if n < 0 then undef
            else bindM (c_fread (nat n) f) (\<lambda>t. if t = [] then ret NIL else siod_strcons t)))))"

definition siod_lfwrite :: "siod_LISP \<Rightarrow> siod_LISP \<Rightarrow> siod_LISP act" where
  "siod_lfwrite str file = bindM (siod_get_c_file file (Some c_stdout)) (\<lambda>f. bindM (look str) (\<lambda>ob.
     bindM (bindM (if is_cons ob then siod_car str else ret str) get_c_siod_string_dim) (\<lambda>data.
     bindM (if is_cons ob then bindM (siod_cadr str) siod_get_c_long else ret (int (length data))) (\<lambda>len.
     if len \<le> 0 then ret NIL
     else if int (length data) < len then errm ''write length too long'' str
     else bindM (c_write f (take (nat len) data)) (\<lambda>_. ret NIL)))))"

section \<open>They keep the invariant\<close>

lemma wf_files [simp]:
  "wf_state (s\<lparr>streams := x\<rparr>) = wf_state s" "later s (s\<lparr>streams := x\<rparr>)"
  "wf_state (s\<lparr>disk := d\<rparr>) = wf_state s" "later s (s\<lparr>disk := d\<rparr>)"
  "wf_state (s\<lparr>disk := d, streams := x\<rparr>) = wf_state s" "later s (s\<lparr>disk := d, streams := x\<rparr>)"
  by (rule wf_frame; simp add: globals_def constants_def top_level_def)+

lemma ok_on_stream: "(\<And>st. okM s (g st) Q) \<Longrightarrow> okM s (on_stream f g) Q"
  by (auto simp: on_stream_def okM_def)

lemma ok_stream_actions:
  "okU s (set_stream f st)" "okU s (modifyM (\<lambda>s. s\<lparr>disk := d s\<rparr>))" "okU s (put_st t)"
  by (simp_all add: set_stream_def okM_def modifyM_def put_st_def wf_print)

lemma ok_c_fopen: "okU s (c_fopen path how)"
  by (auto simp: okM_def c_fopen_def Let_def)

lemma ok_c_library:
  "okU s (c_fclose f)" "okU s (c_getc f)" "okU s (c_ungetc c f)" "okU s (c_fread n f)" "okU s (c_fgets n f)"
  "okU s (c_write f t)" "okU s (c_fflush f)" "okU s (c_ftell f)" "okU s (c_fseek f i w)"
  unfolding c_fclose_def c_getc_def c_ungetc_def c_fread_def c_fgets_def c_write_def c_fflush_def c_ftell_def c_fseek_def Let_def
  by (auto intro!: ok_on_stream ok_stream_actions okM_bind_gets okM_ret okM_if okU_bind [OF ok_stream_actions(1)]
      okU_bind [OF ok_stream_actions(2)] split: option.split list.split)

lemmas okU_library = ok_c_library [THEN okU_bind] ok_stream_actions [THEN okU_bind] ok_c_fopen [THEN okU_bind]

lemma ok_get_c_file [sound_rules]: "ref_ok s p \<Longrightarrow> okU s (siod_get_c_file p d)"
  unfolding siod_get_c_file_def
  by (cases p; cases d) (auto intro!: okM_look okM_ret okM_err split: option.split obj.split)

lemma ok_fput_st: "okU s (siod_fput_st f t)"
  by (simp add: siod_fput_st_def ok_c_library)

lemma ok_llast_c_errmsg [sound_rules]: "okR s siod_llast_c_errmsg"
  unfolding siod_llast_c_errmsg_def by (intro okM_bind_gets sound_rules)

lemma ok_store_file:
  assumes "obj_at s0 p = Some (Tc_c_file n0 f0)" "later s0 s"
  shows "okU s (store p (Tc_c_file n f))"
  using obj_at_shape [OF assms(2,1)] by (auto intro!: okM_store)

lemma ok_fopen_c [sound_rules]: "okR s (siod_fopen_c name how)"
  unfolding siod_fopen_c_def siod_fopen_cg_def
proof (rule okM_bind [OF okM_newcell])
  fix p s1 assume "ref_ok s1 p \<and> obj_at s1 p = Some (Tc_c_file None None)"
  then have p: "ref_ok s1 p" "obj_at s1 p = Some (Tc_c_file None None)" by simp_all
  have "okR s2 (case r of None \<Rightarrow> bindM siod_llast_c_errmsg (errm m)
      | Some f \<Rightarrow> bindM (store p (Tc_c_file (Some name) (Some f))) (\<lambda>_. ret p))" if "later s1 s2" for s2 r m
    using that p by (cases r) (auto intro!: okR_bind [OF ok_llast_c_errmsg] okM_err okU_bind [OF ok_store_file] okM_ret
        intro: ref_ok_later)
  then show "okR s1 (bindM (c_fopen name how) (\<lambda>r. case r of None \<Rightarrow> bindM siod_llast_c_errmsg (errm (take 255 (''could not open '' @ name)))
      | Some f \<Rightarrow> bindM (store p (Tc_c_file (Some name) (Some f))) (\<lambda>_. ret p)))"
    by (intro okU_library) simp
qed simp

lemma ok_fopen_l [sound_rules]: "okR s (siod_fopen_l name how)"
  unfolding siod_fopen_l_def by (intro okU_bind [OF ok_get_c_string] okU_bind [OF okM_if] okM_ret ok_get_c_string ok_fopen_c TrueI)

lemma ok_file_gc_free: "okU s (siod_file_gc_free p)"
  unfolding siod_file_gc_free_def
  by (rule okM_look) (auto intro!: okM_stop okU_library ok_store_file okM_ret okU_bind [OF okM_ret] split: option.split obj.split)

lemma ok_fclose_l [sound_rules]: "ref_ok s p \<Longrightarrow> okR s (siod_fclose_l p)"
  unfolding siod_fclose_l_def
  by (rule okM_look) (auto intro!: okU_bind [OF ok_file_gc_free] okM_ret okM_err split: option.split obj.split)

end
