(* ===== verification/Printer.thy ===== *)
theory Printer
  imports Hash Printf Files
begin

text \<open>
  The printer (slib.c, sliba.c): siod_lprin1g writes an object to a sink of characters, which is the argument
  puts.  The sinks are the streams, among them standard output, and a string cell.
\<close>

text \<open>
  What the C library prints for a NaN, whose sign the model does not keep, for a pointer, and for a pointer to a FILE.
\<close>

record print_lib =
  nan_text :: string
  pointer_text :: "siod_LISP \<Rightarrow> string"
  file_text :: "nat option \<Rightarrow> string"

definition subr_kind_str :: "nat \<Rightarrow> string" where
  "subr_kind_str n =
     (if n = 4 then ''subr_0'' else if n = 5 then ''subr_1'' else if n = 6 then ''subr_2''
      else if n = 21 then ''subr_2n'' else if n = 7 then ''subr_3'' else if n = 19 then ''subr_4''
      else if n = 20 then ''subr_5'' else if n = 8 then ''lsubr'' else if n = 9 then ''fsubr''
      else if n = 10 then ''msubr'' else ''???'')"

definition flonum_text :: "string \<Rightarrow> double \<Rightarrow> string" where
  "flonum_text nan d =
     (let n = c_long d in if deq (of_long n) d then long_digits n else format_double nan Conv_g False 6 d)"

section \<open>Strings and arrays\<close>

definition quoted_char :: "char \<Rightarrow> string" where
  "quoted_char c =
     (if c \<in> set [CHR 0x5C, CHR 0x22] then [CHR 0x5C, c]
      else if c = CHR 0x0A then [CHR 0x5C, CHR ''n'']
      else if c = CHR 0x0D then [CHR 0x5C, CHR ''r'']
      else if c = CHR 0x09 then [CHR 0x5C, CHR ''t'']
      else [c])"

fun puts_list :: "(string \<Rightarrow> unit act) \<Rightarrow> string list \<Rightarrow> unit act" where
  "puts_list puts [] = ret ()"
| "puts_list puts (t # ts) = bindM (puts t) (\<lambda>_. puts_list puts ts)"

definition puts_string :: "(string \<Rightarrow> unit act) \<Rightarrow> string \<Rightarrow> unit act" where
  "puts_string puts st =
     (if list_all (\<lambda>c. c \<notin> set [CHR 0x22, CHR 0x5C, CHR 0x0A, CHR 0x0D, CHR 0x09]) st then puts st
      else puts_list puts (map quoted_char st))"

text \<open>Elements with a blank between them.\<close>

fun spaced :: "string list \<Rightarrow> string list" where
  "spaced [] = []"
| "spaced [t] = [t]"
| "spaced (t # ts) = t # '' '' # spaced ts"

definition puts_array :: "(string \<Rightarrow> unit act) \<Rightarrow> string list \<Rightarrow> unit act" where
  "puts_array puts ts = bindM (puts ''#('') (\<lambda>_. bindM (puts_list puts (spaced ts)) (\<lambda>_. puts '')''))"

definition puts_bytes :: "(string \<Rightarrow> unit act) \<Rightarrow> nat \<Rightarrow> char list \<Rightarrow> unit act" where
  "puts_bytes puts n b =
     bindM (puts (''#'' @ nat_digits n @ [CHR 0x22])) (\<lambda>_.
     if length b < n then undef
     else bindM (puts_list puts (map (hex2 lower_digits) (take n b))) (\<lambda>_. puts [CHR 0x22]))"

text \<open>prin1 prints an element of an array of objects.\<close>

fun puts_elements :: "(siod_LISP \<Rightarrow> unit act) \<Rightarrow> (string \<Rightarrow> unit act) \<Rightarrow> siod_LISP list \<Rightarrow> unit act" where
  "puts_elements prin1 puts [] = ret ()"
| "puts_elements prin1 puts [x] = prin1 x"
| "puts_elements prin1 puts (x # xs) =
     bindM (prin1 x) (\<lambda>_. bindM (puts '' '') (\<lambda>_. puts_elements prin1 puts xs))"

text \<open>
  There is no break behind the elements of an array of longs: it is printed a second time as if it were an
  array of bytes, of as many bytes as it has elements.
\<close>

definition siod_array_prin1 ::
  "print_lib \<Rightarrow> (siod_LISP \<Rightarrow> unit act) \<Rightarrow> (string \<Rightarrow> unit act) \<Rightarrow> obj \<Rightarrow> unit act" where
  "siod_array_prin1 lib prin1 puts ob = (case ob of
       Tc_string n buf \<Rightarrow>
         bindM (puts [CHR 0x22]) (\<lambda>_. bindM (puts_string puts (cstr buf)) (\<lambda>_. puts [CHR 0x22]))
     | Tc_double_array ds \<Rightarrow> puts_array puts (map (format_double (nan_text lib) Conv_g False 6) ds)
     | Tc_long_array is \<Rightarrow>
         bindM (puts_array puts (map long_digits is)) (\<lambda>_.
           puts_bytes puts (length is) (concat (map long_bytes is)))
     | Tc_byte_array n b \<Rightarrow> puts_bytes puts n b
     | Tc_lisp_array xs \<Rightarrow>
         bindM (puts ''#('') (\<lambda>_. bindM (puts_elements prin1 puts xs) (\<lambda>_. puts '')''))
     | _ \<Rightarrow> ret ())"

section \<open>Objects\<close>

definition siod_file_prin1 ::
  "print_lib \<Rightarrow> (string \<Rightarrow> unit act) \<Rightarrow> string option \<Rightarrow> nat option \<Rightarrow> unit act" where
  "siod_file_prin1 lib puts name f =
     bindM (puts ''#<FILE '') (\<lambda>_. bindM (puts ('' '' @ file_text lib f)) (\<lambda>_.
     bindM (case name of Some n \<Rightarrow> bindM (puts '' '') (\<lambda>_. puts n) | None \<Rightarrow> ret ()) (\<lambda>_. puts ''>'')))"

text \<open>A cell that is not a cons: prin1 prints the objects it holds.\<close>

definition prin1_atom ::
  "print_lib \<Rightarrow> (siod_LISP \<Rightarrow> unit act) \<Rightarrow> (string \<Rightarrow> unit act) \<Rightarrow> siod_LISP \<Rightarrow> obj \<Rightarrow> unit act" where
  "prin1_atom lib prin1 puts exp ob = (case ob of
       Tc_flonum d \<Rightarrow> puts (flonum_text (nan_text lib) d)
     | Tc_symbol p v \<Rightarrow> puts p
     | Tc_closure e code \<Rightarrow>
         bindM (puts ''#<CLOSURE '') (\<lambda>_. bindM (look code) (\<lambda>oc.
         bindM (case oc of
             Some (Tc_cons a d) \<Rightarrow> bindM (prin1 a) (\<lambda>_. bindM (puts '' '') (\<lambda>_. prin1 d))
           | _ \<Rightarrow> prin1 code) (\<lambda>_. puts ''>'')))
     | _ \<Rightarrow> (case subr_name ob of
           Some name \<Rightarrow>
             bindM (puts (''#<'' @ subr_kind_str (type_code ob) @ '' '')) (\<lambda>_. bindM (puts name) (\<lambda>_. puts ''>''))
         | None \<Rightarrow> (case ob of
               Tc_subr_2n name g \<Rightarrow>
                 bindM (puts (''#<'' @ subr_kind_str (type_code ob) @ '' '')) (\<lambda>_. bindM (puts name) (\<lambda>_. puts ''>''))
             | Tc_c_file name f \<Rightarrow> siod_file_prin1 lib puts name f
             | _ \<Rightarrow>
                 if array_type ob then siod_array_prin1 lib prin1 puts ob
                 else puts (''#<UNKNOWN '' @ nat_digits (type_code ob) @ '' '' @ pointer_text lib exp @ ''>''))))"

text \<open>The bound k limits the depth of the recursion together with the length of the lists.\<close>

fun siod_lprin1g :: "print_lib \<Rightarrow> nat \<Rightarrow> (string \<Rightarrow> unit act) \<Rightarrow> siod_LISP \<Rightarrow> unit act"
  and prin1_tail :: "print_lib \<Rightarrow> nat \<Rightarrow> (string \<Rightarrow> unit act) \<Rightarrow> siod_LISP \<Rightarrow> unit act" where
  "siod_lprin1g lib 0 puts exp = nofuel"
| "siod_lprin1g lib (Suc k) puts exp = bindM (look exp) (\<lambda>ob. case ob of
       None \<Rightarrow> puts ''()''
     | Some (Tc_cons a d) \<Rightarrow>
         bindM (puts ''('') (\<lambda>_. bindM (siod_lprin1g lib k puts a) (\<lambda>_. bindM (prin1_tail lib k puts d) (\<lambda>_. puts '')'')))
     | Some o1 \<Rightarrow> prin1_atom lib (siod_lprin1g lib k puts) puts exp o1)"
| "prin1_tail lib 0 puts tmp = nofuel"
| "prin1_tail lib (Suc k) puts tmp = bindM (look tmp) (\<lambda>ob. case ob of
       None \<Rightarrow> ret ()
     | Some (Tc_cons a d) \<Rightarrow>
         bindM (puts '' '') (\<lambda>_. bindM (siod_lprin1g lib k puts a) (\<lambda>_. prin1_tail lib k puts d))
     | Some o1 \<Rightarrow> bindM (puts '' . '') (\<lambda>_. siod_lprin1g lib k puts tmp))"

section \<open>Sinks\<close>

definition siod_lprin1f :: "print_lib \<Rightarrow> nat \<Rightarrow> siod_LISP \<Rightarrow> nat \<Rightarrow> siod_LISP act" where
  "siod_lprin1f lib k exp f = bindM (siod_lprin1g lib k (siod_fput_st f) exp) (\<lambda>_. ret NIL)"

definition siod_lprint :: "print_lib \<Rightarrow> nat \<Rightarrow> siod_LISP \<Rightarrow> siod_LISP \<Rightarrow> siod_LISP act" where
  "siod_lprint lib k exp lf = bindM (siod_get_c_file lf (Some c_stdout)) (\<lambda>f. bindM (siod_lprin1f lib k exp f) (\<lambda>_.
     bindM (siod_fput_st f [CHR 0x0A]) (\<lambda>_. ret NIL)))"

definition siod_lprin1 :: "print_lib \<Rightarrow> nat \<Rightarrow> siod_LISP \<Rightarrow> siod_LISP \<Rightarrow> siod_LISP act" where
  "siod_lprin1 lib k exp lf = bindM (siod_get_c_file lf (Some c_stdout)) (\<lambda>f.
     bindM (siod_lprin1f lib k exp f) (\<lambda>_. ret NIL))"

text \<open>Printing behind the text that a string cell holds, as far as the cell has room.\<close>

definition siod_ptsiod_s_puts :: "siod_LISP \<Rightarrow> string \<Rightarrow> unit act" where
  "siod_ptsiod_s_puts into from = bindM (look into) (\<lambda>ob. case ob of
       Some (Tc_string dim d) \<Rightarrow>
         (let intolen = length (cstr d); intosize = dim - intolen;
              fitsize = (if length from < intosize then length from else intosize)
          in if dim < intolen then undef
             else case put_cstr d intolen (take fitsize from) of
                 None \<Rightarrow> undef
               | Some d' \<Rightarrow> bindM (store into (Tc_string dim d')) (\<lambda>_.
                   if fitsize < length from then errm ''print to string overflow'' NIL else ret ()))
     | _ \<Rightarrow> undef)"

definition siod_print_to_string :: "print_lib \<Rightarrow> nat \<Rightarrow> siod_LISP \<Rightarrow> siod_LISP \<Rightarrow> siod_LISP \<Rightarrow> siod_LISP act" where
  "siod_print_to_string lib k exp str nostart = bindM (look str) (\<lambda>ob. case ob of
       Some (Tc_string n d) \<Rightarrow>
         bindM (if nostart \<noteq> NIL then ret ()
                else if d = [] then undef else store str (Tc_string n (d[0 := NUL]))) (\<lambda>_.
         bindM (siod_lprin1g lib k (siod_ptsiod_s_puts str) exp) (\<lambda>_. ret str))
     | _ \<Rightarrow> siod_err_wta_str str)"

section \<open>Symbols from text\<close>

fun conc_loop :: "nat \<Rightarrow> siod_LISP \<Rightarrow> nat \<Rightarrow> string \<Rightarrow> string act" where
  "conc_loop 0 l n buf = nofuel"
| "conc_loop (Suc k) l n buf =
     (if l = NIL then ret buf
      else bindM (siod_car l) (\<lambda>s. bindM (look s) (\<lambda>ob. case ob of
          Some (Tc_symbol p v) \<Rightarrow>
            if 5120 < n + length p then errm ''siod_symbolconc buffer overflow'' NIL
            else bindM (siod_cdr l) (\<lambda>r. conc_loop k r (n + length p) (buf @ p))
        | _ \<Rightarrow> errm ''wta(non-symbol) to siod_symbolconc'' s)))"

definition siod_symbolconc :: "siod_LISP \<Rightarrow> siod_LISP act" where
  "siod_symbolconc args = bindM (gets bound) (\<lambda>k. bindM (conc_loop k args 0 []) siod_rintern)"

text \<open>The symbols of oblistvar whose names contain all the given texts.\<close>

fun all_contained :: "nat \<Rightarrow> string \<Rightarrow> siod_LISP \<Rightarrow> bool act" where
  "all_contained 0 pname ml = nofuel"
| "all_contained (Suc k) pname ml = bindM (look ml) (\<lambda>ob. case ob of
       Some (Tc_cons a d) \<Rightarrow> bindM (get_c_string a) (\<lambda>st.
         if strstr pname st \<noteq> None then all_contained k pname d else ret False)
     | _ \<Rightarrow> ret (ml = NIL))"

fun apropos_loop :: "nat \<Rightarrow> siod_LISP \<Rightarrow> siod_LISP \<Rightarrow> siod_LISP \<Rightarrow> siod_LISP act" where
  "apropos_loop 0 matchl l result = nofuel"
| "apropos_loop (Suc k) matchl l result = bindM (look l) (\<lambda>ob. case ob of
       Some (Tc_cons a d) \<Rightarrow> bindM (get_c_string a) (\<lambda>pname. bindM (gets bound) (\<lambda>b.
         bindM (all_contained b pname matchl) (\<lambda>m.
         bindM (if m then siod_cons a result else ret result) (apropos_loop k matchl d))))
     | _ \<Rightarrow> ret result)"

definition siod_apropos :: "siod_LISP \<Rightarrow> siod_LISP act" where
  "siod_apropos matchl = bindM (gets bound) (\<lambda>k. bindM (gets oblistvar) (\<lambda>l. apropos_loop k matchl l NIL))"

section \<open>Printing keeps the invariant\<close>

lemma ok_puts_list:
  assumes "\<And>s t. okU s (puts t)" shows "okU s (puts_list puts ts)"
  by (induction ts arbitrary: s) (auto intro!: okM_ret okU_bind [OF assms])

lemma ok_puts_elements:
  assumes "\<And>s t. okU s (puts t)" "\<And>s x. okU s (prin1 x)" shows "okU s (puts_elements prin1 puts xs)"
  by (induction xs arbitrary: s rule: induct_list012)
    (auto intro!: okM_ret okU_bind [OF assms(1)] okU_bind [OF assms(2)] assms)

lemma ok_array_prin1:
  assumes "\<And>s t. okU s (puts t)" "\<And>s x. okU s (prin1 x)" shows "okU s (siod_array_prin1 lib prin1 puts ob)"
proof -
  have bytes: "okU s (puts_bytes puts n b)" for s n b
    unfolding puts_bytes_def by (intro okU_bind [OF assms(1)] okM_if okM_stop okU_bind [OF ok_puts_list] assms)
  have array: "okU s (puts_array puts ts)" for s ts
    unfolding puts_array_def by (intro okU_bind [OF assms(1)] okU_bind [OF ok_puts_list] assms)
  have st: "okU s (puts_string puts t)" for s t
    unfolding puts_string_def by (intro okM_if ok_puts_list assms)
  show ?thesis
    unfolding siod_array_prin1_def
    by (auto split: obj.split intro!: okM_ret assms bytes array okU_bind [OF array] okU_bind [OF st] okU_bind [OF assms(1)]
        okU_bind [OF ok_puts_elements])
qed

lemma ok_prin1_atom:
  assumes "\<And>s t. okU s (puts t)" "\<And>s x. okU s (prin1 x)" shows "okU s (prin1_atom lib prin1 puts exp ob)"
proof -
  have code: "okU s (case oc of Some (Tc_cons a d) \<Rightarrow> bindM (prin1 a) (\<lambda>_. bindM (puts '' '') (\<lambda>_. prin1 d))
           | _ \<Rightarrow> prin1 c)" for s oc c
    by (auto split: option.split obj.split intro!: assms okU_bind [OF assms(1)] okU_bind [OF assms(2)])
  have closure: "okU s (bindM (puts ''#<CLOSURE '') (\<lambda>_. bindM (look c) (\<lambda>oc.
         bindM (case oc of
             Some (Tc_cons a d) \<Rightarrow> bindM (prin1 a) (\<lambda>_. bindM (puts '' '') (\<lambda>_. prin1 d))
           | _ \<Rightarrow> prin1 c) (\<lambda>_. puts ''>''))))" for s c
    by (intro okU_bind [OF assms(1)] okM_look okU_bind [OF code] assms)
  show ?thesis
    unfolding prin1_atom_def subr_name_def siod_file_prin1_def
    by (auto simp: bindM_assoc split: obj.split option.split intro!: closure assms okU_bind [OF assms(1)] okU_bind [OF okM_ret] ok_array_prin1)
qed

lemma ok_lprin1g_tail:
  assumes "\<And>s t. okU s (puts t)"
  shows "okU s (siod_lprin1g lib k puts x)" "okU s (prin1_tail lib k puts x)"
proof (induction k arbitrary: s x)
  case (Suc k)
  {
    case 1
    show ?case
      unfolding siod_lprin1g.simps
      by (rule okM_look) (auto split: option.split obj.split intro!: assms okU_bind [OF assms(1)]
          okU_bind [OF Suc.IH(1)] okU_bind [OF Suc.IH(2)] ok_prin1_atom Suc.IH)
  next
    case 2
    show ?case
      unfolding prin1_tail.simps
      by (rule okM_look) (auto split: option.split obj.split intro!: okM_ret assms okU_bind [OF assms(1)]
          okU_bind [OF Suc.IH(1)] Suc.IH)
  }
qed (simp_all add: okM_stop)

lemma ok_lprin1f: "okR s (siod_lprin1f lib k x f)"
  unfolding siod_lprin1f_def by (intro okU_bind [OF ok_lprin1g_tail(1)] ok_fput_st okM_ret ref_ok_NIL)

lemma ok_console [sound_rules]:
  "ref_ok s lf \<Longrightarrow> okR s (siod_lprint lib k x lf)" "ref_ok s lf \<Longrightarrow> okR s (siod_lprin1 lib k x lf)"
  "ref_ok s lf \<Longrightarrow> okR s (siod_lputs x lf)"
  unfolding siod_lprint_def siod_lprin1_def siod_lputs_def
  by (intro okU_bind [OF ok_get_c_file] okR_bind [OF ok_lprin1f] okU_bind [OF ok_fput_st] okU_bind [OF ok_get_c_string]
      okM_ret ref_ok_NIL; simp)+

lemma ok_ptsiod_s_puts: "okU s (siod_ptsiod_s_puts x t)"
  unfolding siod_ptsiod_s_puts_def Let_def
  by (rule okM_look) (auto split: option.split obj.split intro!: okM_stop okM_ret okM_err okU_bind [OF okM_store])

lemma ok_print_to_string [sound_rules]: "ref_ok s x \<Longrightarrow> ref_ok s str \<Longrightarrow> okR s (siod_print_to_string lib k x str n)"
  unfolding siod_print_to_string_def siod_err_wta_str_def
  by (rule okM_look) (auto split: option.split obj.split intro!: okM_err okM_ret okU_bind [OF okM_store]
      okU_bind [OF okM_stop(1)] okU_bind [OF ok_lprin1g_tail(1) [OF ok_ptsiod_s_puts]] intro: ref_ok_later)

lemma ok_conc_loop: "okU s (conc_loop k l n buf)"
proof (induction k arbitrary: s l n buf)
  case (Suc k)
  then show ?case
    by (auto intro!: okM_ret okR_bind [OF ok_car] okM_look okM_err okR_bind [OF ok_cdr] split: option.split obj.split)
qed (simp add: okM_stop)

lemma ok_symbolconc [sound_rules]: "okR s (siod_symbolconc args)"
  unfolding siod_symbolconc_def by (intro okM_bind_gets okU_bind [OF ok_conc_loop] ok_interns)

lemma ok_all_contained: "okU s (all_contained k p ml)"
proof (induction k arbitrary: s ml)
  case (Suc k)
  then show ?case
    by (auto intro!: okM_look okM_ret okU_bind [OF ok_get_c_string] split: option.split obj.split)
qed (simp add: okM_stop)

lemma ok_apropos_loop: "ref_ok s r \<Longrightarrow> okR s (apropos_loop k ml l r)"
proof (induction k arbitrary: s l r)
  case (Suc k)
  have step: "okR s (bindM (get_c_string a) (\<lambda>pname. bindM (gets bound) (\<lambda>b. bindM (all_contained b pname ml) (\<lambda>m.
         bindM (if m then siod_cons a r else ret r) (apropos_loop k ml d)))))"
    if "ref_ok s a" "ref_ok s r" for s a d
    using that
    by (intro okU_bind [OF ok_get_c_string] okM_bind_gets okU_bind [OF ok_all_contained] okR_bind [OF okM_if] Suc.IH)
      (auto intro!: ok_cons okM_ret intro: ref_ok_later)
  show ?case
    unfolding apropos_loop.simps
    by (rule okM_look) (use Suc.prems in \<open>auto split: option.split obj.split intro!: okM_ret step\<close>)
qed (simp add: okM_stop)

lemma ok_apropos [sound_rules]: "okR s (siod_apropos ml)"
  unfolding siod_apropos_def by (intro okM_bind_gets ok_apropos_loop) simp

end
