(* ===== verification/Reader.thy ===== *)
theory Reader
  imports Eval_Sound Printer
begin

text \<open>
  The reader (slib.c, sliba.c).  A source of characters is a text with a position; reading a file gives EOF at
  the end of the text and reading a string gives EOF at its first NUL.  The readers of other clients
  (user_readm, user_readt) are not set.
\<close>

section \<open>Sources\<close>

record readio =
  rd_text :: "char list"
  rd_pos :: nat
  rd_file :: bool

abbreviation get_char :: "readio \<Rightarrow> char option \<times> readio" where
  "get_char f \<equiv> (Some (rd_text f ! rd_pos f), f\<lparr>rd_pos := Suc (rd_pos f)\<rparr>)"

definition siod_rfs_getc :: "readio \<Rightarrow> char option \<times> readio" where
  "siod_rfs_getc f = (if rd_pos f < length (cstr (rd_text f)) then get_char f else (None, f))"

text \<open>Pushing back EOF moves back in a string, where it did not move forward.\<close>

definition siod_rfs_ungetc :: "char option \<Rightarrow> readio \<Rightarrow> readio" where
  "siod_rfs_ungetc c f = f\<lparr>rd_pos := rd_pos f - 1\<rparr>"

definition siod_f_getc :: "readio \<Rightarrow> char option \<times> readio" where
  "siod_f_getc f = (if rd_pos f < length (rd_text f) then get_char f else (None, f))"

definition siod_f_ungetc :: "char option \<Rightarrow> readio \<Rightarrow> readio" where
  "siod_f_ungetc c f = (if c = None then f else f\<lparr>rd_pos := rd_pos f - 1\<rparr>)"

definition GETC_FCN :: "readio \<Rightarrow> char option \<times> readio" where
  "GETC_FCN f = (if rd_file f then siod_f_getc f else siod_rfs_getc f)"

definition UNGETC_FCN :: "char option \<Rightarrow> readio \<Rightarrow> readio" where
  "UNGETC_FCN c f = (if rd_file f then siod_f_ungetc c f else siod_rfs_ungetc c f)"

text \<open>What is left to read.\<close>

definition left :: "readio \<Rightarrow> char list" where
  "left f = drop (rd_pos f) (if rd_file f then rd_text f else cstr (rd_text f))"

lemma get_left:
  "left f = [] \<Longrightarrow> GETC_FCN f = (None, f)"
  "left f = c # r \<Longrightarrow> \<exists>f'. GETC_FCN f = (Some c, f') \<and> left f' = r \<and> rd_pos f' = Suc (rd_pos f) \<and>
     rd_text f' = rd_text f \<and> rd_file f' = rd_file f \<and> UNGETC_FCN (Some c) f' = f"
proof -
  have prefix: "i < length (cstr b) \<Longrightarrow> b ! i = cstr b ! i" for i b
    by (simp add: cstr_def takeWhile_nth)
  show "left f = [] \<Longrightarrow> GETC_FCN f = (None, f)"
    by (simp add: left_def GETC_FCN_def siod_f_getc_def siod_rfs_getc_def split: if_splits)
  assume l: "left f = c # r"
  let ?t = "if rd_file f then rd_text f else cstr (rd_text f)"
  have p: "rd_pos f < length ?t" using l by (metis left_def drop_eq_Nil list.discI not_le)
  then have "c = ?t ! rd_pos f" "r = drop (Suc (rd_pos f)) ?t"
    using l Cons_nth_drop_Suc [OF p] by (simp_all add: left_def)
  with p show "\<exists>f'. GETC_FCN f = (Some c, f') \<and> left f' = r \<and> rd_pos f' = Suc (rd_pos f) \<and>
     rd_text f' = rd_text f \<and> rd_file f' = rd_file f \<and> UNGETC_FCN (Some c) f' = f"
    by (auto simp: left_def GETC_FCN_def UNGETC_FCN_def siod_f_getc_def siod_rfs_getc_def siod_f_ungetc_def
        siod_rfs_ungetc_def prefix split: if_splits)
qed

lemma get_cases:
  obtains "GETC_FCN f = (None, f)" "left f = []"
  | c f' where "GETC_FCN f = (Some c, f')" "left f = c # left f'" "UNGETC_FCN (Some c) f' = f"
      "rd_text f' = rd_text f" "rd_file f' = rd_file f"
  using get_left [of f] by (cases "left f") auto

lemma get_shorter:
  "GETC_FCN f = (Some c, f') \<Longrightarrow> length (left f') < length (left f)"
  "(Some c, f') = GETC_FCN f \<Longrightarrow> length (left f') < length (left f)"
  by (rule get_cases [of f]; simp)+

section \<open>White space and tokens\<close>

function skip_ws :: "bool \<Rightarrow> readio \<Rightarrow> char option \<times> readio" where
  "skip_ws commentp f = (case GETC_FCN f of
       (None, f1) \<Rightarrow> (None, f1)
     | (Some c, f1) \<Rightarrow>
         if commentp then skip_ws (c \<noteq> CHR 0x0A) f1
         else if c = CHR '';'' then skip_ws True f1
         else if \<not> c_isspace c then (Some c, f1)
         else skip_ws commentp f1)"
  by pat_completeness auto
termination by (relation "measure (\<lambda>(b, f). length (left f))") (auto simp: get_shorter)

declare skip_ws.simps [simp del]

definition siod_flush_ws :: "readio \<Rightarrow> string option \<Rightarrow> (char option \<times> readio) act" where
  "siod_flush_ws f eoferr = (case skip_ws False f of
       (None, f1) \<Rightarrow> (case eoferr of Some m \<Rightarrow> errm m NIL | None \<Rightarrow> ret (None, f1))
     | (Some c, f1) \<Rightarrow> ret (Some c, f1))"

text \<open>The search strchr of the delimiters finds NUL at their end.\<close>

definition delimiter :: "char \<Rightarrow> bool" where
  "delimiter c = (c \<in> set (CHR 0x27 # CHR 0x60 # CHR 0x22 # ''(),;'') \<or> c = NUL)"

text \<open>The loop stops when the buffer of TKBUFFERN characters is full.\<close>

fun read_token :: "nat \<Rightarrow> char list \<Rightarrow> readio \<Rightarrow> (char list \<times> readio) option" where
  "read_token 0 buf f = None"
| "read_token (Suc n) buf f = (case GETC_FCN f of
       (None, f1) \<Rightarrow> Some (buf, f1)
     | (Some c, f1) \<Rightarrow>
         if c_isspace c then Some (buf, f1)
         else if delimiter c then Some (buf, UNGETC_FCN (Some c) f1)
         else read_token n (buf @ [c]) f1)"

definition number_token :: "char list \<Rightarrow> bool" where
  "number_token p =
     (let p1 = (if p \<noteq> [] \<and> hd p = CHR ''-'' then tl p else p);
          (ip, fp, p2) = split_digits c_isdigit p1
      in if ip = [] \<and> fp = [] then False
         else if p2 \<noteq> [] \<and> hd p2 = CHR ''e''
           then let p3 = (if tl p2 \<noteq> [] \<and> hd (tl p2) \<in> set ''-+'' then tl (tl p2) else tl p2)
                in p3 \<noteq> [] \<and> c_isdigit (hd p3) \<and> dropWhile c_isdigit p3 = []
         else p2 = [])"

definition siod_lreadtk :: "char list \<Rightarrow> siod_LISP act" where
  "siod_lreadtk buffer =
     (let p = cstr buffer in if number_token p then siod_flocons (c_atof p) else siod_rintern p)"

section \<open>Strings\<close>

text \<open>The digits behind a backslash and a 0.  An int that overflows is undefined behaviour.\<close>

function read_octal :: "int \<Rightarrow> readio \<Rightarrow> (string + int option) \<times> readio" where
  "read_octal n f = (case GETC_FCN f of
       (None, f1) \<Rightarrow> (Inl (''eof after '' @ [CHR 0x5C] @ ''0''), f1)
     | (Some c, f1) \<Rightarrow>
         if c_isdigit c
         then if n * 8 + of_char c < 2 ^ 31 then read_octal (n * 8 + of_char c - 48) f1 else (Inr None, f1)
         else (Inr (Some n), UNGETC_FCN (Some c) f1))"
  by pat_completeness auto
termination by (relation "measure (\<lambda>(n, f). length (left f))") (auto simp: get_shorter)

declare read_octal.simps [simp del]

text \<open>The character behind a backslash.\<close>

definition read_escape :: "char \<Rightarrow> readio \<Rightarrow> (char \<times> readio) act" where
  "read_escape c f =
     (if c = CHR ''n'' then ret (CHR 0x0A, f)
      else if c = CHR ''t'' then ret (CHR 0x09, f)
      else if c = CHR ''r'' then ret (CHR 0x0D, f)
      else if c = CHR ''d'' then ret (CHR 0x04, f)
      else if c = CHR ''N'' then ret (NUL, f)
      else if c = CHR ''s'' then ret (CHR '' '', f)
      else if c = CHR ''0'' then (case read_octal 0 f of
          (Inl m, f1) \<Rightarrow> errm m NIL
        | (Inr None, f1) \<Rightarrow> undef
        | (Inr (Some n), f1) \<Rightarrow> ret (char_of (n mod 256), f1))
      else ret (c, f))"

text \<open>Each step reads at least one character: the bound k is one more than there are.\<close>

fun read_string :: "nat \<Rightarrow> char list \<Rightarrow> readio \<Rightarrow> (char list \<times> readio) act" where
  "read_string 0 buf f = nofuel"
| "read_string (Suc k) buf f = (case GETC_FCN f of
       (None, f1) \<Rightarrow> ret (buf, f1)
     | (Some c, f1) \<Rightarrow>
         if c = CHR 0x22 then ret (buf, f1)
         else bindM (if c = CHR 0x5C then (case GETC_FCN f1 of
                         (None, f2) \<Rightarrow> errm (''eof after '' @ [CHR 0x5C]) NIL
                       | (Some c2, f2) \<Rightarrow> read_escape c2 f2)
                     else ret (c, f1)) (\<lambda>(c, f2).
              if 5120 \<le> length buf + 1 then errm ''read string overflow'' NIL
              else read_string k (buf @ [c]) f2))"

definition siod_lreadstring :: "readio \<Rightarrow> (siod_LISP \<times> readio) act" where
  "siod_lreadstring f = bindM (read_string (Suc (length (rd_text f))) [] f) (\<lambda>(buf, f1).
     bindM (siod_strcons buf) (\<lambda>x. ret (x, f1)))"

section \<open>Expressions\<close>

fun fill_array :: "nat \<Rightarrow> siod_LISP \<Rightarrow> nat \<Rightarrow> siod_LISP \<Rightarrow> unit act" where
  "fill_array 0 result j l = ret ()"
| "fill_array (Suc n) result j l = bindM (siod_car l) (\<lambda>a. bindM (look result) (\<lambda>ob. case ob of
       Some (Tc_lisp_array xs) \<Rightarrow> bindM (store result (Tc_lisp_array (xs[j := a]))) (\<lambda>_.
         bindM (siod_cdr l) (fill_array n result (Suc j)))
     | _ \<Rightarrow> undef))"

definition siod_lreadsharp ::
  "memory \<Rightarrow> server \<Rightarrow> (readio \<Rightarrow> (siod_LISP \<times> readio) act) \<Rightarrow> readio \<Rightarrow> (siod_LISP \<times> readio) act" where
  "siod_lreadsharp mem rc lreadr f = (case GETC_FCN f of
       (None, f1) \<Rightarrow> errm ''readsharp syntax not handled'' NIL
     | (Some c, f1) \<Rightarrow>
         if c = CHR ''('' then bindM (lreadr (UNGETC_FCN (Some c) f1)) (\<lambda>(x, f2).
           bindM (siod_nlength x) (\<lambda>len. bindM (siod_ar_cons mem 16 len True) (\<lambda>result.
           bindM (fill_array len result 0 x) (\<lambda>_. ret (result, f2)))))
         else if c = CHR ''.'' then bindM (lreadr f1) (\<lambda>(x, f2). bindM (ev rc x NIL) (\<lambda>v. ret (v, f2)))
         else if c = CHR ''f'' then ret (NIL, f1)
         else if c = CHR ''t'' then bindM (siod_flocons (of_long 1)) (\<lambda>x. ret (x, f1))
         else errm ''readsharp syntax not handled'' NIL)"

text \<open>A comma, with the character behind it.\<close>

definition comma_name :: "readio \<Rightarrow> string \<times> readio" where
  "comma_name f = (case GETC_FCN f of (c, f1) \<Rightarrow>
     if c = Some (CHR ''@'') then (''+siod_internal-comma-atsign'', f1)
     else if c = Some (CHR ''.'') then (''+siod_internal-comma-dot'', f1)
     else (''+siod_internal-comma'', UNGETC_FCN c f1))"

fun siod_lreadr :: "memory \<Rightarrow> server \<Rightarrow> nat \<Rightarrow> readio \<Rightarrow> (siod_LISP \<times> readio) act"
  and siod_lreadparen :: "memory \<Rightarrow> server \<Rightarrow> nat \<Rightarrow> readio \<Rightarrow> (siod_LISP \<times> readio) act" where
  "siod_lreadr mem rc 0 f = nofuel"
| "siod_lreadr mem rc (Suc k) f = bindM (siod_flush_ws f (Some ''end of file inside read'')) (\<lambda>(oc, f1). case oc of
       None \<Rightarrow> undef
     | Some c \<Rightarrow>
         if c = CHR ''('' then siod_lreadparen mem rc k f1
         else if c = CHR '')'' then errm ''unexpected close paren'' NIL
         else if c = CHR 0x27 then bindM (siod_lreadr mem rc k f1) (\<lambda>(x, f2). bindM (siod_cons x NIL) (\<lambda>p.
           bindM (gets sym_quote) (\<lambda>q. bindM (siod_cons q p) (\<lambda>r. ret (r, f2)))))
         else if c = CHR 0x60 then bindM (siod_cintern ''+siod_internal-backquote'') (\<lambda>q.
           bindM (siod_lreadr mem rc k f1) (\<lambda>(x, f2). bindM (siod_cons q x) (\<lambda>r. ret (r, f2))))
         else if c = CHR '','' then (case comma_name f1 of (p, f2) \<Rightarrow>
           bindM (siod_cintern p) (\<lambda>q. bindM (siod_lreadr mem rc k f2) (\<lambda>(x, f3).
             bindM (siod_cons q x) (\<lambda>r. ret (r, f3)))))
         else if c = CHR 0x22 then siod_lreadstring f1
         else if c = CHR ''#'' then siod_lreadsharp mem rc (siod_lreadr mem rc k) f1
         else (case read_token 5119 [c] f1 of
             None \<Rightarrow> errm ''token larger than TKBUFFERN'' NIL
           | Some (buf, f2) \<Rightarrow> bindM (siod_lreadtk buf) (\<lambda>x. ret (x, f2))))"
| "siod_lreadparen mem rc 0 f = nofuel"
| "siod_lreadparen mem rc (Suc k) f = bindM (siod_flush_ws f (Some ''end of file inside list'')) (\<lambda>(c, f1).
     if c = Some (CHR '')'') then ret (NIL, f1)
     else bindM (siod_lreadr mem rc k (UNGETC_FCN c f1)) (\<lambda>(tmp, f2). bindM (gets sym_dot) (\<lambda>dot.
       if tmp = dot
       then bindM (siod_lreadr mem rc k f2) (\<lambda>(tmp, f3).
         bindM (siod_flush_ws f3 (Some ''end of file inside list'')) (\<lambda>(c, f4).
         if c \<noteq> Some (CHR '')'') then errm ''missing close paren'' NIL else ret (tmp, f4)))
       else bindM (siod_lreadparen mem rc k f2) (\<lambda>(d, f3). bindM (siod_cons tmp d) (\<lambda>r. ret (r, f3))))))"

definition siod_readtl :: "memory \<Rightarrow> server \<Rightarrow> nat \<Rightarrow> readio \<Rightarrow> (siod_LISP \<times> readio) act" where
  "siod_readtl mem rc k f = bindM (siod_flush_ws f None) (\<lambda>(c, f1).
     if c = None then bindM (gets eof_val) (\<lambda>x. ret (x, f1))
     else siod_lreadr mem rc k (UNGETC_FCN c f1))"

definition siod_read_from_string :: "memory \<Rightarrow> server \<Rightarrow> nat \<Rightarrow> siod_LISP \<Rightarrow> siod_LISP act" where
  "siod_read_from_string mem rc k x = bindM (get_c_string x) (\<lambda>p.
     bindM (siod_readtl mem rc k \<lparr>rd_text = p, rd_pos = 0, rd_file = False\<rparr>) (\<lambda>(y, f). ret y))"

text \<open>
  Reading from a stream.  Where the reader fails, how far it has read depends on what it was in; that is the argument lost.
\<close>

definition siod_lreadf :: "memory \<Rightarrow> (char list \<Rightarrow> nat) \<Rightarrow> server \<Rightarrow> nat \<Rightarrow> nat \<Rightarrow> siod_LISP act" where
  "siod_lreadf mem lost rc k f = on_stream f (\<lambda>st s.
     (let t = ahead s st; move = (\<lambda>j s. s\<lparr>streams := (streams s)[f := advance j (streams s ! f)]\<rparr>) in
      case siod_readtl mem rc k \<lparr>rd_text = t, rd_pos = 0, rd_file = True\<rparr> s of
          (Ret (x, io), s1) \<Rightarrow> (Ret x, move (rd_pos io) s1)
        | (r, s1) \<Rightarrow> (relay r, move (lost t) s1)))"

definition siod_lread :: "memory \<Rightarrow> (char list \<Rightarrow> nat) \<Rightarrow> server \<Rightarrow> nat \<Rightarrow> siod_LISP \<Rightarrow> siod_LISP act" where
  "siod_lread mem lost rc k f = bindM (siod_get_c_file f (Some c_stdin)) (siod_lreadf mem lost rc k)"

section \<open>Reading keeps the invariant\<close>

abbreviation okX :: "siod \<Rightarrow> (siod_LISP \<times> 'a) act \<Rightarrow> bool" where
  "okX s m \<equiv> okM s m (\<lambda>v s'. ref_ok s' (fst v))"

lemma okX_bind:
  assumes "okX s m" "\<And>x f s'. wf_state s' \<Longrightarrow> later s s' \<Longrightarrow> ref_ok s' x \<Longrightarrow> okM s' (g (x, f)) Q"
  shows "okM s (bindM m g) Q"
  using assms(1) by (rule okM_bind) (use assms(2) in auto)

lemma okX_return: "okR s m \<Longrightarrow> okX s (bindM m (\<lambda>x. ret (x, f)))"
  by (rule okR_bind) (auto intro!: okM_ret)

lemma ok_flush_ws: "okU s (siod_flush_ws f m)"
  unfolding siod_flush_ws_def by (auto split: prod.split option.split intro!: okM_ret okM_err)

lemma ok_lreadtk: "okR s (siod_lreadtk b)"
  unfolding siod_lreadtk_def Let_def by (intro okM_if ok_flocons ok_interns)

lemma ok_read_string: "okU s (read_string k b f)"
proof (induction k arbitrary: s b f)
  case (Suc k)
  have esc: "okU s (read_escape c g)" for s c g
    unfolding read_escape_def by (intro okM_if okM_ret TrueI)
      (auto split: prod.split sum.split option.split intro!: okM_err okM_ret okM_stop)
  show ?case
    unfolding read_string.simps
    by (auto split: prod.split option.split intro!: okM_ret okM_err okU_bind [OF okM_err] okU_bind [OF esc] Suc.IH)
qed (simp add: okM_stop)

lemma ok_lreadstring: "okX s (siod_lreadstring f)"
  unfolding siod_lreadstring_def
  by (rule okU_bind [OF ok_read_string]) (auto intro!: okX_return ok_strcons)

lemma ok_fill_array: "okU s (fill_array n r j l)"
proof (induction n arbitrary: s j l)
  case (Suc n)
  show ?case
    unfolding fill_array.simps
    by (rule okR_bind [OF ok_car], rule okM_look)
      (auto split: option.split obj.split intro!: okM_stop okU_bind [OF okM_store] okR_bind [OF ok_cdr] Suc.IH
        list_all_update)
qed (simp add: okM_ret)

context sound_server
begin

lemma ok_lreadsharp:
  assumes "\<And>s f. okX s (rd f)" shows "okX s (siod_lreadsharp mem rc rd f)"
proof -
  have array: "okX s (bindM (siod_nlength x) (\<lambda>len. bindM (siod_ar_cons mem 16 len True) (\<lambda>result.
           bindM (fill_array len result 0 x) (\<lambda>_. ret (result, f2)))))" if "ref_ok s x" for s x f2
    using that by (intro okU_bind [OF ok_nlength] okR_bind [OF ok_ar_cons] okU_bind [OF ok_fill_array] okM_ret)
      (auto intro: ref_ok_later)
  show ?thesis
    unfolding siod_lreadsharp_def
    by (auto split: prod.split option.split intro!: okM_err okX_bind [OF assms] array okM_ret okX_return ok_ev ok_flocons)
qed

lemma ok_lreadr: "okX s (siod_lreadr mem rc k f)"
  and ok_lreadparen: "okX s (siod_lreadparen mem rc k f)"
proof (induction k arbitrary: s f)
  case (Suc k)
  {
    case 1
    have quote: "okX s (bindM (siod_lreadr mem rc k f) (\<lambda>(x, f2). bindM (siod_cons x NIL) (\<lambda>p.
           bindM (gets sym_quote) (\<lambda>q. bindM (siod_cons q p) (\<lambda>r. ret (r, f2))))))" for s f
      by (rule okX_bind [OF Suc.IH(1)])
        (auto intro!: okR_bind [OF ok_cons] okM_bind_gets okX_return ok_cons simp: wf_global_refs)
    have marked: "okX s (bindM (siod_cintern m) (\<lambda>q. bindM (siod_lreadr mem rc k f) (\<lambda>(x, f2).
           bindM (siod_cons q x) (\<lambda>r. ret (r, f2)))))" for s f m
      by (rule okR_bind [OF ok_interns(1)], rule okX_bind [OF Suc.IH(1)])
        (auto intro!: okX_return ok_cons intro: ref_ok_later)
    show ?case
      unfolding siod_lreadr.simps
      by (rule okU_bind [OF ok_flush_ws])
        (auto split: prod.split option.split intro!: okM_stop okM_err Suc.IH quote marked ok_lreadstring ok_lreadsharp
          okX_return ok_lreadtk)
  next
    case 2
    have dot: "okX s (bindM (siod_lreadr mem rc k f) (\<lambda>(tmp, f3).
         bindM (siod_flush_ws f3 (Some ''end of file inside list'')) (\<lambda>(c, f4).
         if c \<noteq> Some (CHR '')'') then errm ''missing close paren'' NIL else ret (tmp, f4))))" for s f
      by (rule okX_bind [OF Suc.IH(1)])
        (auto intro!: okU_bind [OF ok_flush_ws] okM_err okM_ret; meson ref_ok_later)
    have more: "okX s (bindM (siod_lreadparen mem rc k f) (\<lambda>(d, f3). bindM (siod_cons x d) (\<lambda>r. ret (r, f3))))"
      if "ref_ok s x" for s f x
      by (rule okX_bind [OF Suc.IH(2)]) (use that in \<open>auto intro!: okX_return ok_cons intro: ref_ok_later\<close>)
    show ?case
      unfolding siod_lreadparen.simps
      by (rule okU_bind [OF ok_flush_ws])
        (auto split: prod.split intro!: okM_ret okX_bind [OF Suc.IH(1)] okM_bind_gets dot more; meson ref_ok_later)
  }
qed (simp_all add: okM_stop)

lemma ok_readtl: "okX s (siod_readtl mem rc k f)"
  unfolding siod_readtl_def
  by (rule okU_bind [OF ok_flush_ws])
    (auto intro!: okM_bind_gets okM_ret ok_lreadr simp: wf_global_refs)

lemma ok_read_from_string [sound_rules]: "okR s (siod_read_from_string mem rc k x)"
  unfolding siod_read_from_string_def
  by (rule okU_bind [OF ok_get_c_string], rule okX_bind [OF ok_readtl]) (auto intro!: okM_ret)

lemma ok_lreadf: "okR s (siod_lreadf mem lost rc k f)"
  unfolding siod_lreadf_def
proof (rule ok_on_stream)
  fix st
  let ?m = "\<lambda>j s. s\<lparr>streams := (streams s)[f := advance j (streams s ! f)]\<rparr>"
  let ?io = "\<lparr>rd_text = ahead s st, rd_pos = 0, rd_file = True\<rparr>"
  have f: "wf_state (?m j s1) = wf_state s1" "later s s1 \<Longrightarrow> later s (?m j s1)" "ref_ok (?m j s1) = ref_ok s1" for j s1
    by (auto intro: later_trans simp: ref_ok_def fun_eq_iff split: siod_LISP.splits)
  show "okR s (\<lambda>s. let t = ahead s st; move = ?m in
      case siod_readtl mem rc k \<lparr>rd_text = t, rd_pos = 0, rd_file = True\<rparr> s of
          (Ret (x, io), s1) \<Rightarrow> (Ret x, move (rd_pos io) s1)
        | (r, s1) \<Rightarrow> (relay r, move (lost t) s1))"
    using ok_readtl [of s mem k ?io] f
    by (cases "siod_readtl mem rc k ?io s") (auto simp: okM_def Let_def split: outcome.splits)
qed

lemma ok_lread [sound_rules]: "ref_ok s f \<Longrightarrow> okR s (siod_lread mem lost rc k f)"
  unfolding siod_lread_def by (intro okU_bind [OF ok_get_c_file] ok_lreadf)

end

end
