(* ===== verification/Repl.thy ===== *)
theory Repl
  imports Reader Startup GC_Copy
begin

text \<open>
  The read-eval-print loop (slib.c): siod_repl, siod_repl_driver with the longjmp that errors end in, and
  siod_repl_c_string, which runs the loop on one string and prints the value of the first expression in it.  Signals
  and the stack limit are not part of the model.
\<close>

section \<open>Hooks\<close>

text \<open>The hooks of a loop; None is a null pointer.\<close>

record repl_hooks =
  h_puts :: "(string \<Rightarrow> unit act) option"
  h_read :: "siod_LISP act option"
  h_eval :: "(siod_LISP \<Rightarrow> siod_LISP act) option"
  h_print :: "(siod_LISP \<Rightarrow> unit act) option"

text \<open>
  What the loop depends on: the server of calls to the evaluator (re_rc), the fuel of the reader and the printer (re_depth), the
  text that the C library prints (re_lib), uninitialised memory (re_memory), the times it measures, the flag of
  the collector, the effect of loading the file to load first, when there is one, and how far the reader gets in a text
  on which it fails (re_lost).
\<close>

record repl_env =
  re_rc :: server
  re_depth :: nat
  re_lib :: print_lib
  re_memory :: memory
  re_runtime :: "siod \<Rightarrow> double"
  re_realtime :: "siod \<Rightarrow> double"
  re_gc_status_flag :: bool
  re_init_file :: "unit act option"
  re_lost :: "char list \<Rightarrow> nat"

definition siod_gsiod_repl_puts :: "string \<Rightarrow> (string \<Rightarrow> unit act) option \<Rightarrow> unit act" where
  "siod_gsiod_repl_puts st puts = (case puts of None \<Rightarrow> siod_put_st st | Some f \<Rightarrow> f st)"

section \<open>The loop\<close>

definition g_text :: "repl_env \<Rightarrow> double \<Rightarrow> string" where
  "g_text e d = format_double (nan_text (re_lib e)) Conv_g False 6 d"

definition gc_due :: "repl_env \<Rightarrow> siod \<Rightarrow> bool" where
  "gc_due e s = (re_gc_status_flag e \<or> heap_size s \<le> length (cells s))"

text \<open>The hook file_gc_free of the cells that a collection does not copy closes their streams.\<close>

definition free_files :: "obj list \<Rightarrow> nat list \<Rightarrow> siod \<Rightarrow> siod" where
  "free_files old freed = fold (\<lambda>a s. case old ! a of
       Tc_c_file n (Some f) \<Rightarrow> s\<lparr>streams := (streams s)[f := (streams s ! f)\<lparr>st_open := False\<rparr>]\<rparr>
     | _ \<Rightarrow> s) freed"

text \<open>The collection in front of an evaluation: all that is live is reached from the registers.\<close>

definition repl_collect :: "repl_env \<Rightarrow> repl_hooks \<Rightarrow> unit act" where
  "repl_collect e h s =
     (if gc_due e s
      then (case siod_gc_stop_and_copy [] s of
          None \<Rightarrow> (Undef, s)
        | Some (rs, s0, freed) \<Rightarrow> let s1 = free_files (cells s) freed s0 in
            (if 2 \<le> siod_verbose_level s1
             then siod_gsiod_repl_puts (''GC took '' @ g_text e (re_runtime e s1) @ '' seconds, '' @
                    long_digits (int (length (cells s))) @ '' compressed to '' @ long_digits (int (length (cells s1))) @
                    '', '' @ long_digits (int (heap_size s1 - length (cells s1))) @ '' free'' @ [CHR 0x0A]) (h_puts h)
             else ret ()) s1)
      else (Ret (), s))"

definition verbose_puts :: "repl_hooks \<Rightarrow> string \<Rightarrow> unit act" where
  "verbose_puts h st = bindM (gets siod_verbose_level) (\<lambda>v.
     if 2 \<le> v then siod_gsiod_repl_puts st (h_puts h) else ret ())"

definition evaluation_text :: "repl_env \<Rightarrow> nat \<Rightarrow> siod \<Rightarrow> string" where
  "evaluation_text e used s =
     ''Evaluation took '' @ g_text e (re_runtime e s) @ '' seconds '' @
     long_digits (int (length (cells s)) - int used) @ '' siod_cons work, '' @ g_text e (re_realtime e s) @
     '' real.'' @ [CHR 0x0A]"

definition repl_read :: "repl_env \<Rightarrow> repl_hooks \<Rightarrow> siod_LISP act" where
  "repl_read e h = (case h_read h of None \<Rightarrow> siod_lread (re_memory e) (re_lost e) (re_rc e) (re_depth e) NIL | Some f \<Rightarrow> f)"

definition repl_eval :: "repl_env \<Rightarrow> repl_hooks \<Rightarrow> siod_LISP \<Rightarrow> siod_LISP act" where
  "repl_eval e h x = (case h_eval h of None \<Rightarrow> ev (re_rc e) x NIL | Some f \<Rightarrow> f x)"

definition repl_print :: "repl_env \<Rightarrow> repl_hooks \<Rightarrow> siod_LISP \<Rightarrow> unit act" where
  "repl_print e h x = (case h_print h of
       None \<Rightarrow> bindM (gets siod_verbose_level) (\<lambda>v.
         if 2 \<le> v then bindM (siod_lprint (re_lib e) (re_depth e) x NIL) (\<lambda>_. ret ()) else ret ())
     | Some f \<Rightarrow> f x)"

text \<open>One round of the loop: whether there was something to read.\<close>

definition repl_round :: "repl_env \<Rightarrow> repl_hooks \<Rightarrow> bool act" where
  "repl_round e h = bindM (repl_collect e h) (\<lambda>_. bindM (verbose_puts h ''> '') (\<lambda>_.
     bindM (repl_read e h) (\<lambda>x. bindM siod_get_eof_val (\<lambda>eof.
     if x = eof then ret False
     else bindM (gets (\<lambda>s. length (cells s))) (\<lambda>used. bindM (repl_eval e h x) (\<lambda>y.
       bindM (gets (evaluation_text e used)) (\<lambda>st. bindM (verbose_puts h st) (\<lambda>_.
       bindM (repl_print e h y) (\<lambda>_. ret True)))))))))"

fun siod_repl :: "nat \<Rightarrow> repl_env \<Rightarrow> repl_hooks \<Rightarrow> int act" where
  "siod_repl 0 e h = nofuel"
| "siod_repl (Suc k) e h = bindM (repl_round e h) (\<lambda>more. if more then siod_repl k e h else ret 0)"

text \<open>
  The driver: an error comes back to its setjmp with the code 1, and it starts the loop again; siod_quit comes back
  with the code 2, which it returns.
\<close>

definition repl_setup :: "unit act" where
  "repl_setup = modifyM (\<lambda>s. s\<lparr>catch_framep := [], errjmp_ok := True\<rparr>)"

fun siod_repl_driver :: "nat \<Rightarrow> repl_env \<Rightarrow> bool \<Rightarrow> nat \<Rightarrow> repl_hooks \<Rightarrow> int act" where
  "siod_repl_driver 0 e want_init k h = nofuel"
| "siod_repl_driver (Suc n) e want_init k h = (\<lambda>s.
     if k = 2 then (Ret 2, s)
      else case bindM repl_setup (\<lambda>_.
             bindM (case re_init_file e of
                 Some load \<Rightarrow> if want_init \<and> k = 0 then load else ret ()
               | None \<Rightarrow> ret ()) (\<lambda>_. siod_repl n e h)) s of
          (Errjmp j, s1) \<Rightarrow> siod_repl_driver n e want_init j h s1
        | (r, s1) \<Rightarrow> (r, s1))"

section \<open>The loop on a string\<close>

definition siod_ignore_puts :: "string \<Rightarrow> unit act" where
  "siod_ignore_puts st = ret ()"

definition siod_noprompt_puts :: "string \<Rightarrow> unit act" where
  "siod_noprompt_puts st = (if st \<noteq> ''> '' then siod_put_st st else ret ())"

text \<open>The output buffer is cleared before it is printed to; it is the one that the string was in.\<close>

definition siod_repl_c_string_read :: "repl_env \<Rightarrow> siod_LISP act" where
  "siod_repl_c_string_read e = bindM (gets repl_c_string_arg) (\<lambda>arg. case arg of
       None \<Rightarrow> siod_get_eof_val
     | Some st \<Rightarrow> bindM (siod_strcons st) (\<lambda>x.
         bindM (modifyM (\<lambda>s. s\<lparr>repl_c_string_arg := None,
           repl_c_string_out := map_option (\<lambda>b. b[0 := NUL]) (repl_c_string_out s)\<rparr>)) (\<lambda>_.
         siod_read_from_string (re_memory e) (re_rc e) (re_depth e) x)))"

definition siod_ignore_print :: "siod_LISP \<Rightarrow> unit act" where
  "siod_ignore_print x = modifyM (\<lambda>s. s\<lparr>repl_c_string_flag := True\<rparr>)"

definition siod_not_siod_ignore_print :: "repl_env \<Rightarrow> siod_LISP \<Rightarrow> unit act" where
  "siod_not_siod_ignore_print e x = bindM (modifyM (\<lambda>s. s\<lparr>repl_c_string_flag := True\<rparr>)) (\<lambda>_.
     bindM (siod_lprint (re_lib e) (re_depth e) x NIL) (\<lambda>_. ret ()))"

text \<open>Printing to the output buffer, with the end of the text at rcsp_pos.\<close>

definition rcsp_sink :: "string \<Rightarrow> unit act" where
  "rcsp_sink t s = (case repl_c_string_out s of
       None \<Rightarrow> (Undef, s)
     | Some b \<Rightarrow> (case siod_rcsp_puts t \<lparr>rcsp_buf = b, rcsp_ptr = rcsp_pos s,
           rcsp_end = nat (repl_c_string_print_len s - 1)\<rparr> of (fits, p) \<Rightarrow>
         if length b \<le> rcsp_ptr p then (Undef, s)
         else (if fits then ret () else errm ''siod_repl_c_string_print overflow'' NIL)
                (s\<lparr>repl_c_string_out := Some (rcsp_buf p), rcsp_pos := rcsp_ptr p\<rparr>)))"

definition siod_repl_c_string_print :: "repl_env \<Rightarrow> siod_LISP \<Rightarrow> unit act" where
  "siod_repl_c_string_print e x = bindM (modifyM (\<lambda>s. s\<lparr>rcsp_pos := 0\<rparr>)) (\<lambda>_.
     bindM (siod_lprin1g (re_lib e) (re_depth e) rcsp_sink x) (\<lambda>_.
     modifyM (\<lambda>s. s\<lparr>repl_c_string_flag := True\<rparr>)))"

definition c_string_hooks :: "repl_env \<Rightarrow> int \<Rightarrow> repl_hooks" where
  "c_string_hooks e want_print =
     (if 1 < want_print then \<lparr>h_puts = Some siod_ignore_puts, h_read = Some (siod_repl_c_string_read e), h_eval = None,
          h_print = Some (siod_repl_c_string_print e)\<rparr>
      else if want_print \<noteq> 0 then \<lparr>h_puts = Some siod_noprompt_puts, h_read = Some (siod_repl_c_string_read e),
          h_eval = None, h_print = Some (siod_not_siod_ignore_print e)\<rparr>
      else \<lparr>h_puts = Some siod_ignore_puts, h_read = Some (siod_repl_c_string_read e), h_eval = None,
          h_print = Some siod_ignore_print\<rparr>)"

text \<open>The argument str is a buffer that holds a C string; the buffer with the result is repl_c_string_out.\<close>

definition siod_repl_c_string :: "nat \<Rightarrow> repl_env \<Rightarrow> char list \<Rightarrow> bool \<Rightarrow> int \<Rightarrow> int act" where
  "siod_repl_c_string n e str want_init want_print =
     bindM (modifyM (\<lambda>s. s\<lparr>repl_c_string_print_len := (if 1 < want_print then want_print else 0),
       repl_c_string_out := (if 1 < want_print then Some str else None),
       repl_c_string_arg := Some (cstr str), repl_c_string_flag := False\<rparr>)) (\<lambda>_.
     bindM (siod_repl_driver n e want_init 0 (c_string_hooks e want_print)) (\<lambda>retval.
     if retval \<noteq> 0 then ret retval
     else bindM (gets repl_c_string_flag) (\<lambda>flag. if flag then ret 0 else ret 2)))"

end
