(* ===== verification/Printf_Facts.thy ===== *)
theory Printf_Facts
  imports Reader
begin

text \<open>
  The decimal text of an integer: how long it is, that it is a number token, and that reading it gives the
  integer back.
\<close>

definition digit_char :: "nat \<Rightarrow> char" where
  "digit_char n = char_of (48 + n)"

lemma digit_char_props:
  assumes "n < 10"
  shows "c_isdigit (digit_char n)" "digit_value (digit_char n) = int n" "\<not> c_isspace (digit_char n)"
    "\<not> delimiter (digit_char n)" "digit_char n \<notin> set ''-+.#eEinINxX''"
proof -
  have "list_all (\<lambda>n. c_isdigit (digit_char n) \<and> digit_value (digit_char n) = int n \<and> \<not> c_isspace (digit_char n) \<and>
      \<not> delimiter (digit_char n) \<and> digit_char n \<notin> set ''-+.#eEinINxX'') [0..<10]" by code_simp
  then have "c_isdigit (digit_char n) \<and> digit_value (digit_char n) = int n \<and> \<not> c_isspace (digit_char n) \<and>
      \<not> delimiter (digit_char n) \<and> digit_char n \<notin> set ''-+.#eEinINxX''"
    using assms unfolding list_all_iff by auto
  then show "c_isdigit (digit_char n)" "digit_value (digit_char n) = int n" "\<not> c_isspace (digit_char n)"
    "\<not> delimiter (digit_char n)" "digit_char n \<notin> set ''-+.#eEinINxX''" by blast+
qed

lemma nat_digits_props:
  "\<exists>ns. nat_digits n = map digit_char ns \<and> list_all (\<lambda>d. d < 10) ns \<and> ns \<noteq> [] \<and> digits_value (nat_digits n) = int n"
proof (induction n rule: nat_digits.induct)
  case (1 n)
  show ?case
  proof (cases "n < 10")
    case True
    then have "nat_digits n = map digit_char [n]" by (simp add: nat_digits.simps [of n] digit_char_def)
    moreover have "digits_value (map digit_char [n]) = int n"
      using True by (simp add: digits_value_def digit_char_props(2))
    ultimately show ?thesis using True by (intro exI [of _ "[n]"]) simp
  next
    case False
    then obtain ns where ns: "nat_digits (n div 10) = map digit_char ns" "list_all (\<lambda>d. d < 10) ns" "ns \<noteq> []"
      "digits_value (nat_digits (n div 10)) = int (n div 10)" using 1 by blast
    then have d: "nat_digits n = map digit_char (ns @ [n mod 10])"
      using False by (simp add: nat_digits.simps [of n] digit_char_def)
    have "digits_value (nat_digits n) = digits_value (nat_digits (n div 10)) * 10 + int (n mod 10)"
      using d ns(1) by (simp add: digits_value_def digit_char_props(2))
    also have "\<dots> = int n" using ns(4) by (metis div_mult_mod_eq of_nat_add of_nat_mult of_nat_numeral)
    finally show ?thesis using d ns(2) by (intro exI [of _ "ns @ [n mod 10]"]) simp
  qed
qed

lemma nat_digits_chars:
  assumes "c \<in> set (nat_digits n)"
  shows "c_isdigit c" "\<not> c_isspace c" "\<not> delimiter c" "c \<notin> set ''-+.#eEinINxX''"
proof -
  obtain d where "c = digit_char d" "d < 10" using nat_digits_props [of n] assms by (auto simp: list_all_iff)
  then show "c_isdigit c" "\<not> c_isspace c" "\<not> delimiter c" "c \<notin> set ''-+.#eEinINxX''"
    using digit_char_props [of d] by simp_all
qed

lemma nat_digits_value [simp]: "digits_value (nat_digits n) = int n"
  using nat_digits_props [of n] by blast

lemma nat_digits_nonempty [simp]: "nat_digits n \<noteq> []"
  using nat_digits_props [of n] by auto

lemma nat_digits_length: "n < 10 ^ Suc k \<Longrightarrow> length (nat_digits n) \<le> Suc k"
proof (induction k arbitrary: n)
  case 0
  then show ?case by (simp add: nat_digits.simps)
next
  case (Suc k)
  then have "n div 10 < 10 ^ Suc k" by (simp add: less_mult_imp_div_less mult.commute)
  then have "length (nat_digits (n div 10)) \<le> Suc k" by (rule Suc.IH)
  then show ?case by (subst nat_digits.simps) simp
qed

lemma takeWhile_digits [simp]: "takeWhile c_isdigit (nat_digits n) = nat_digits n" "dropWhile c_isdigit (nat_digits n) = []"
  using nat_digits_chars(1) by (simp_all add: takeWhile_eq_all_conv)

lemma split_digits_nat [simp]: "split_digits c_isdigit (nat_digits n) = (nat_digits n, [], [])"
  by (simp add: split_digits_def)

lemma long_digits_chars:
  assumes "c \<in> set (long_digits i)"
  shows "\<not> c_isspace c" "\<not> delimiter c" "c \<noteq> CHR ''#''" "c \<noteq> NUL"
proof -
  consider "c = CHR ''-''" | n where "c \<in> set (nat_digits n)"
    using assms by (cases "i < 0") (auto simp: long_digits_def)
  then have 1: "\<not> c_isspace c \<and> \<not> delimiter c \<and> c \<noteq> CHR ''#''"
  proof cases
    case 1
    then show ?thesis by (simp add: c_isspace_def delimiter_def)
  next
    case 2
    then show ?thesis using nat_digits_chars(2,3,4) [OF 2] by simp
  qed
  then show "\<not> c_isspace c" "\<not> delimiter c" "c \<noteq> CHR ''#''" by blast+
  show "c \<noteq> NUL" using 1 by (auto simp: delimiter_def)
qed

lemma hd_digits: "hd (nat_digits n) \<noteq> CHR ''-''" "hd (nat_digits n) \<noteq> CHR ''+''"
  using nat_digits_chars(4) [of "hd (nat_digits n)" n] by auto

lemma long_digits_token: "number_token (long_digits i)"
  by (simp add: number_token_def long_digits_def Let_def hd_digits)

lemma long_digits_length: "\<bar>i\<bar> < 2 ^ 53 \<Longrightarrow> length (long_digits i) \<le> 17 \<and> long_digits i \<noteq> []"
proof -
  assume "\<bar>i\<bar> < 2 ^ 53"
  then have "nat i < 10 ^ Suc 15" "nat (- i) < 10 ^ Suc 15" by (auto simp: nat_less_iff)
  then show ?thesis
    using nat_digits_length [of "nat i" 15] nat_digits_length [of "nat (- i)" 15] by (auto simp: long_digits_def)
qed

text \<open>The text of a number does not look like inf, nan or a hexadecimal number.\<close>

lemma atof_digits:
  "c_atof (nat_digits n) = nearest False 10 (int n) 0" "c_atof (CHR ''-'' # nat_digits n) = nearest True 10 (int n) 0"
proof -
  let ?u = "nat_digits n"
  obtain c t where u: "?u = c # t" by (cases ?u) auto
  have c: "c \<notin> set ''-+.#eEinINxX''" "\<not> c_isspace c" using nat_digits_chars(2,4) [of c n] u by simp_all
  have dig: "c_tolower d = d" if "d \<in> set ?u" for d
    using nat_digits_chars(1) [OF that] by (simp add: c_isdigit_def c_tolower_def Let_def)
  have l: "lower_case (take k ?u) = take k ?u" for k
    using dig by (auto simp: lower_case_def intro!: map_idI dest: in_set_takeD)
  have special: "lower_case (take 3 ?u) \<noteq> ''inf''" "lower_case (take 3 ?u) \<noteq> ''nan''" "lower_case (take 2 ?u) \<noteq> ''0x''"
  proof -
    show "lower_case (take 3 ?u) \<noteq> ''inf''" "lower_case (take 3 ?u) \<noteq> ''nan''" using c unfolding l by (auto simp: u)
    have "CHR ''x'' \<notin> set (take 2 ?u)" using nat_digits_chars(4) [of "CHR ''x''" n] by (auto dest: in_set_takeD)
    then show "lower_case (take 2 ?u) \<noteq> ''0x''" unfolding l by auto
  qed
  have hd: "hd ?u = c" by (simp add: u)
  have sp: "dropWhile c_isspace ?u = ?u" using c(2) by (simp add: u)
  have e: "read_exponent ''eE'' [] = 0" by (simp add: read_exponent_def)
  have minus: "\<not> c_isspace (CHR ''-'')" by (simp add: c_isspace_def)
  show "c_atof ?u = nearest False 10 (int n) 0"
    using c unfolding c_atof_def Let_def sp hd by (simp add: special e split: prod.split)
  show "c_atof (CHR ''-'' # ?u) = nearest True 10 (int n) 0"
    unfolding c_atof_def Let_def by (simp add: minus special e split: prod.split)
qed

lemma atof_long_digits: "\<bar>i\<bar> < 2 ^ 53 \<Longrightarrow> c_atof (long_digits i) = of_long i"
proof (cases "i < 0")
  case True
  then have "c_atof (long_digits i) = nearest True 10 (- i) 0" by (simp add: long_digits_def atof_digits)
  also have "\<dots> = of_long i" using True by (simp add: nearest_def of_long_def dround_def Let_def)
  finally show ?thesis .
next
  case False
  then have "c_atof (long_digits i) = nearest False 10 i 0" by (simp add: long_digits_def atof_digits)
  also have "\<dots> = of_long i" using False by (simp add: nearest_def of_long_def dround_def Let_def)
  finally show ?thesis .
qed

lemma flonum_text_long: "\<bar>i\<bar> < 2 ^ 53 \<Longrightarrow> flonum_text nan (of_long i) = long_digits i"
  by (simp add: flonum_text_def c_long_of_long deq_of_long)

end
