(* ===== verification/Symtab.thy ===== *)
theory Symtab
  imports Symbol_Facts
begin

text \<open>
  The symbol table as a finite map from names to symbols: interning a name gives the symbol the map has for
  it, or enters a new one and leaves the rest of the map alone.
\<close>

section \<open>States that grow\<close>

text \<open>The second state has the cells of the first, unchanged, and maybe more, and the same files.\<close>

definition extends :: "siod \<Rightarrow> siod \<Rightarrow> bool" where
  "extends s s' = (take (length (cells s)) (cells s') = cells s \<and> constants s' = constants s \<and>
     inums s' = inums s \<and> heap_size s' = heap_size s \<and> obarray_dim s' = obarray_dim s \<and>
     disk s' = disk s \<and> may_open s' = may_open s \<and> streams s' = streams s \<and>
     siod_verbose_level s' = siod_verbose_level s)"

lemma extends_refl [simp]: "extends s s"
  by (simp add: extends_def)

lemma extends_length: "extends s s' \<Longrightarrow> length (cells s) \<le> length (cells s')"
  unfolding extends_def by (metis length_take min.cobounded1)

lemma extends_nth: "extends s s' \<Longrightarrow> a < length (cells s) \<Longrightarrow> cells s' ! a = cells s ! a"
  unfolding extends_def by (metis nth_take)

lemma extends_trans: "extends s1 s2 \<Longrightarrow> extends s2 s3 \<Longrightarrow> extends s1 s3"
proof -
  assume 1: "extends s1 s2" "extends s2 s3"
  have "take (length (cells s1)) (cells s3) = take (length (cells s1)) (take (length (cells s2)) (cells s3))"
    by (simp only: take_take min_absorb1 [OF extends_length [OF 1(1)]])
  also have "\<dots> = cells s1" using 1 by (simp only: extends_def)
  finally show "extends s1 s3" using 1 by (simp add: extends_def)
qed

lemma extends_obj_at: "extends s s' \<Longrightarrow> obj_at s r = Some ob \<Longrightarrow> obj_at s' r = Some ob"
  using extends_length [of s s'] extends_nth [of s s']
  by (auto simp: obj_at_def split: siod_LISP.splits if_splits)

lemma extends_list: "extends s s' \<Longrightarrow> list_seg s r as xs e \<Longrightarrow> list_seg s' r as xs e"
  using extends_length [of s s'] extends_nth [of s s'] by (elim list_seg_frame) auto

lemma extends_grow: "extends s (grow obs s)"
  by (simp add: extends_def grow_def constants_def)

lemma extends_ref: "extends s s' \<Longrightarrow> ref_ok s r \<Longrightarrow> ref_ok s' r"
  using extends_length ref_ok_cells by blast

section \<open>The map\<close>

definition hash_of :: "siod \<Rightarrow> string \<Rightarrow> int" where
  "hash_of s name = intern_hash (int (obarray_dim s)) 0 name"

text \<open>A name with a negative hash is outside the table: looking it up is undefined behaviour.\<close>

definition hashable :: "siod \<Rightarrow> string \<Rightarrow> bool" where
  "hashable s name = (1 < obarray_dim s \<longrightarrow> 0 \<le> hash_of s name)"

definition bucket_of :: "siod \<Rightarrow> string \<Rightarrow> siod_LISP" where
  "bucket_of s name = (if 1 < obarray_dim s then obarray s ! nat (hash_of s name) else oblistvar s)"

definition names_in :: "siod \<Rightarrow> string \<Rightarrow> siod_LISP \<Rightarrow> bool" where
  "names_in s name x = (case obj_at s x of Some (Tc_symbol p v) \<Rightarrow> p = name | _ \<Rightarrow> False)"

definition symtab_ok :: "siod \<Rightarrow> bool" where
  "symtab_ok s = (\<forall>l\<in>(if 1 < obarray_dim s then set (obarray s) else {oblistvar s}).
     \<exists>as xs. list_on s l as xs \<and> list_all (symbol_at s) xs)"

text \<open>The conses of the table.\<close>

definition bucket_conses :: "siod \<Rightarrow> nat set" where
  "bucket_conses s = {a. \<exists>l\<in>(if 1 < obarray_dim s then set (obarray s) else {oblistvar s}).
     \<exists>as xs. list_on s l as xs \<and> a \<in> set as}"

lemma bucket_consesI:
  "l \<in> (if 1 < obarray_dim s then set (obarray s) else {oblistvar s}) \<Longrightarrow> list_on s l as xs \<Longrightarrow> a \<in> set as \<Longrightarrow>
   a \<in> bucket_conses s"
  unfolding bucket_conses_def by blast

definition table :: "siod \<Rightarrow> string \<Rightarrow> siod_LISP option" where
  "table s name =
     (if \<not> hashable s name then None
      else case fst (intern_find (Suc (length (cells s))) name (bucket_of s name) s) of
          Ret found \<Rightarrow> found | _ \<Rightarrow> None)"

lemma symbol_at_cases: "symbol_at s x \<Longrightarrow> \<exists>p v. obj_at s x = Some (Tc_symbol p v)"
  by (auto simp: symbol_at_def split: option.splits obj.splits)

lemma intern_find_run:
  "list_on s l as xs \<Longrightarrow> list_all (symbol_at s) xs \<Longrightarrow> length as < k \<Longrightarrow>
   intern_find k name l s = (Ret (List.find (names_in s name) xs), s)"
proof (induction as arbitrary: l xs k)
  case Nil
  then show ?case by (cases k) auto
next
  case (Cons a as)
  then obtain x ys d k' where 1: "xs = x # ys" "l = Ref a" "a < length (cells s)" "cells s ! a = Tc_cons x d"
    "list_on s d as ys" "k = Suc k'" "length as < k'" by (cases k) (auto simp: list_seg_Cons)
  obtain p v where x: "obj_at s x = Some (Tc_symbol p v)"
    using Cons.prems(2) 1(1) symbol_at_cases by fastforce
  show ?case
    using Cons.IH [OF 1(5) _ 1(7)] Cons.prems(2) x 1
    by (auto simp: bind_run cons_cell_run obj_at_look names_in_def)
qed

lemma list_on_short: "list_on s l as xs \<Longrightarrow> length as < Suc (length (cells s))"
proof -
  assume l: "list_on s l as xs"
  then have "card (set as) \<le> card {..<length (cells s)}" by (intro card_mono list_seg_addrs) auto
  then show ?thesis using distinct_card [OF list_on_distinct [OF l]] by simp
qed

lemma hash_slot: "wf_state s \<Longrightarrow> 1 < obarray_dim s \<Longrightarrow> hashable s name \<Longrightarrow> nat (hash_of s name) < length (obarray s)"
  using hash_in_range [of "int (obarray_dim s)" 0 name]
  by (simp add: wf_state_def obarray_ok_def hashable_def hash_of_def)

lemma bucket_list:
  assumes "wf_state s" "symtab_ok s" "hashable s name"
  obtains as xs where "list_on s (bucket_of s name) as xs" "list_all (symbol_at s) xs"
    "table s name = List.find (names_in s name) xs"
proof -
  have "bucket_of s name \<in> (if 1 < obarray_dim s then set (obarray s) else {oblistvar s})"
    using hash_slot [OF assms(1) _ assms(3)] by (auto simp: bucket_of_def)
  then obtain as xs where 1: "list_on s (bucket_of s name) as xs" "list_all (symbol_at s) xs"
    using assms(2) unfolding symtab_ok_def by blast
  then have "table s name = List.find (names_in s name) xs"
    using assms(3) intern_find_run [OF 1 list_on_short [OF 1(1)]] by (simp add: table_def)
  with 1 show ?thesis by (rule that)
qed

lemma intern_table:
  assumes "wf_state s" "symtab_ok s" "hashable s name"
  shows "siod_gen_siod_intern name s = (case table s name of Some r \<Rightarrow> (Ret r, s)
    | None \<Rightarrow> intern_new name (1 < obarray_dim s) (nat (hash_of s name)) (bucket_of s name) s)"
proof -
  obtain as xs where 1: "list_on s (bucket_of s name) as xs" "list_all (symbol_at s) xs"
    "table s name = List.find (names_in s name) xs"
    using assms by (rule bucket_list)
  have h: "(1 < obarray_dim s \<and> intern_hash (int (obarray_dim s)) 0 name < 0) = False"
    using assms(3) by (auto simp: hashable_def hash_of_def)
  have "siod_gen_siod_intern name s = bindM (intern_find (Suc (length (cells s))) name (bucket_of s name))
      (\<lambda>found. case found of Some sy \<Rightarrow> ret sy
        | None \<Rightarrow> intern_new name (1 < obarray_dim s) (nat (hash_of s name)) (bucket_of s name)) s"
    by (simp only: siod_gen_siod_intern_def gets_run prod.case h if_False bucket_of_def hash_of_def)
  also have "\<dots> = (case table s name of Some sy \<Rightarrow> ret sy
        | None \<Rightarrow> intern_new name (1 < obarray_dim s) (nat (hash_of s name)) (bucket_of s name)) s"
    by (rule bindM_Ret) (simp only: 1(3) intern_find_run [OF 1(1,2) list_on_short [OF 1(1)]])
  finally show ?thesis by (simp split: option.split)
qed

lemma table_symbol: 
  assumes "wf_state s" "symtab_ok s" "table s name = Some r"
  shows "\<exists>v. obj_at s r = Some (Tc_symbol name v)"
proof -
  have "hashable s name" using assms(3) by (auto simp: table_def split: if_splits)
  then obtain xs where "table s name = List.find (names_in s name) xs"
    using bucket_list [OF assms(1,2)] by metis
  then have "names_in s name r" using assms(3) by (metis find_Some_iff)
  then show ?thesis by (auto simp: names_in_def split: option.splits obj.splits)
qed

lemma extends_symbol: "extends s s' \<Longrightarrow> symbol_at s x \<Longrightarrow> symbol_at s' x"
proof -
  assume 1: "extends s s'" "symbol_at s x"
  then obtain p v where "obj_at s x = Some (Tc_symbol p v)" using symbol_at_cases by blast
  with 1(1) have "obj_at s' x = Some (Tc_symbol p v)" by (rule extends_obj_at)
  then show "symbol_at s' x" by (simp add: symbol_at_def)
qed

section \<open>A new name\<close>

lemma table_find:
  assumes "hashable s name" "list_on s (bucket_of s name) as xs" "list_all (symbol_at s) xs"
  shows "table s name = List.find (names_in s name) xs"
  using assms(1) intern_find_run [OF assms(2,3) list_on_short [OF assms(2)]] by (simp add: table_def)

lemma names_in_extends: "extends s s' \<Longrightarrow> symbol_at s x \<Longrightarrow> names_in s' name x = names_in s name x"
  using symbol_at_cases [of s x] extends_obj_at [of s s' x] by (auto simp: names_in_def)

text \<open>A change of the state that leaves the lists and the symbols of the table alone.\<close>

lemma table_same:
  assumes "wf_state s" "symtab_ok s" "obarray s' = obarray s" "obarray_dim s' = obarray_dim s" "oblistvar s' = oblistvar s"
    and seg: "\<And>l as xs. list_on s l as xs \<Longrightarrow> set as \<subseteq> bucket_conses s \<Longrightarrow> list_on s' l as xs"
    and sym: "\<And>x. symbol_at s x \<Longrightarrow> symbol_at s' x" and names: "\<And>p x. symbol_at s x \<Longrightarrow> names_in s' p x = names_in s p x"
  shows "symtab_ok s'" "table s' = table s" "bucket_conses s' = bucket_conses s" "hashable s' p = hashable s p"
proof -
  let ?r = "if 1 < obarray_dim s then set (obarray s) else {oblistvar s}"
  have syms: "list_all (symbol_at s) xs \<Longrightarrow> list_all (symbol_at s') xs" for xs
    using sym by (simp add: list_all_iff)
  have lists: "list_on s' l as xs" if "list_on s l as xs" "l \<in> ?r" for l as xs
    using that bucket_consesI [OF that(2,1)] by (intro seg) auto
  have root: "\<exists>as xs. list_on s l as xs \<and> list_all (symbol_at s) xs" if "l \<in> ?r" for l
    using that assms(2) unfolding symtab_ok_def by blast
  show "symtab_ok s'"
    unfolding symtab_ok_def assms(3-5) using root lists syms by metis
  have h: "hashable s' p = hashable s p" "bucket_of s' p = bucket_of s p" for p
    by (simp_all add: hashable_def hash_of_def bucket_of_def assms)
  show "hashable s' p = hashable s p" by (rule h)
  have "list_on s l as xs" if "list_on s' l as xs" "l \<in> ?r" for l as xs
  proof -
    note h = that
    obtain bs ys where "list_on s l bs ys" using root [OF h(2)] by blast
    moreover have "bs = as \<and> ys = xs" using lists [OF calculation h(2)] h(1) list_on_unique by blast
    ultimately show ?thesis by simp
  qed
  then show "bucket_conses s' = bucket_conses s"
    unfolding bucket_conses_def assms(3-5) using lists by blast
  show "table s' = table s"
  proof
    fix p
    show "table s' p = table s p"
    proof (cases "hashable s p")
      case True
      obtain as xs where 1: "list_on s (bucket_of s p) as xs" "list_all (symbol_at s) xs"
        "table s p = List.find (names_in s p) xs"
        using assms(1,2) True by (rule bucket_list)
      have "bucket_of s p \<in> ?r" using hash_slot [OF assms(1) _ True] by (auto simp: bucket_of_def)
      from lists [OF 1(1) this] have "table s' p = List.find (names_in s' p) xs"
        using True h by (intro table_find syms [OF 1(2)]) simp_all
      also have "\<dots> = List.find (names_in s p) xs"
        using 1(2) names by (intro find_cong refl) (simp add: list_all_iff)
      finally show ?thesis using 1(3) by simp
    qed (simp add: table_def h)
  qed
qed

lemma table_extends:
  assumes "wf_state s" "symtab_ok s" "extends s s'" "obarray s' = obarray s" "oblistvar s' = oblistvar s"
  shows "symtab_ok s'" "table s' = table s" "bucket_conses s' = bucket_conses s"
proof -
  have dim: "obarray_dim s' = obarray_dim s" using assms(3) by (simp add: extends_def)
  note same = table_same [OF assms(1,2,4) dim assms(5)]
  show "symtab_ok s'" "table s' = table s" "bucket_conses s' = bucket_conses s"
    using extends_list [OF assms(3)] extends_symbol [OF assms(3)] names_in_extends [OF assms(3)] by (intro same; blast)+
qed

text \<open>
  The state after a new name is entered in its bucket, and the cells of that state.
\<close>

definition entered :: "string \<Rightarrow> siod \<Rightarrow> siod" where
  "entered name s =
     (let a = length (cells s); sy = Ref a in
      if 1 < obarray_dim s
      then (grow [Tc_symbol name (unbound_marker s), Tc_cons sy (bucket_of s name), Tc_cons sy (oblistvar s)] s)
        \<lparr>obarray := (obarray s)[nat (hash_of s name) := Ref (a + 1)], oblistvar := Ref (a + 2)\<rparr>
      else (grow [Tc_symbol name (unbound_marker s), Tc_cons sy (oblistvar s)] s)\<lparr>oblistvar := Ref (a + 1)\<rparr>)"

lemma intern_new_run:
  assumes "room 3 s"
  shows "intern_new name (1 < obarray_dim s) (nat (hash_of s name)) (bucket_of s name) s =
    (Ret (Ref (length (cells s))), entered name s)"
  using assms
  by (simp add: intern_new_def siod_symcons_def modifyM_def bindM_def siod_cons_def newcell_def alloc_def
      room_def grow_def entered_def gets_def ret_def Let_def)

lemma entered_simps:
  "length (cells (entered name s)) = length (cells s) + (if 1 < obarray_dim s then 3 else 2)"
  "obj_at (entered name s) (Ref (length (cells s))) = Some (Tc_symbol name (unbound_marker s))"
  "obarray_dim (entered name s) = obarray_dim s" "hashable (entered name s) n = hashable s n"
  "hash_of (entered name s) n = hash_of s n"
  by (simp_all add: entered_def Let_def grow_def obj_at_def nth_append hashable_def hash_of_def)

lemma entered_tables:
  "obarray (entered name s) = (if 1 < obarray_dim s
     then (obarray s)[nat (hash_of s name) := Ref (Suc (length (cells s)))] else obarray s)"
  "oblistvar (entered name s) = (if 1 < obarray_dim s
     then Ref (Suc (Suc (length (cells s)))) else Ref (Suc (length (cells s))))"
  by (simp_all add: entered_def Let_def grow_def)

lemma entered_extends: "extends s (entered name s)"
  by (simp add: entered_def extends_def Let_def grow_def constants_def)

lemma entered_list:
  assumes "list_on s (bucket_of s name) as xs"
  shows "list_on (entered name s) (Ref (Suc (length (cells s)))) (Suc (length (cells s)) # as) (Ref (length (cells s)) # xs)"
proof -
  have "cells (entered name s) ! Suc (length (cells s)) = Tc_cons (Ref (length (cells s))) (bucket_of s name)"
    by (simp add: entered_def Let_def nth_append bucket_of_def)
  then show ?thesis using extends_list [OF entered_extends [of s name] assms] by (simp add: entered_simps)
qed

text \<open>The buckets of the new state: the new one, and the others.\<close>

lemma entered_buckets:
  assumes "wf_state s" "hashable s name"
  shows "l \<in> (if 1 < obarray_dim s then set (obarray (entered name s)) else {oblistvar (entered name s)}) \<Longrightarrow>
      l = Ref (Suc (length (cells s))) \<or> 1 < obarray_dim s \<and> l \<in> set (obarray s)"
    and "hashable s n \<Longrightarrow> bucket_of (entered name s) n =
      (if 1 < obarray_dim s \<and> hash_of s n \<noteq> hash_of s name then bucket_of s n else Ref (Suc (length (cells s))))"
proof -
  show "l \<in> (if 1 < obarray_dim s then set (obarray (entered name s)) else {oblistvar (entered name s)}) \<Longrightarrow>
      l = Ref (Suc (length (cells s))) \<or> 1 < obarray_dim s \<and> l \<in> set (obarray s)"
    using set_update_subset_insert [of "obarray s" "nat (hash_of s name)" "Ref (Suc (length (cells s)))"]
    by (auto simp: entered_tables split: if_splits)
  assume n: "hashable s n"
  show "bucket_of (entered name s) n =
      (if 1 < obarray_dim s \<and> hash_of s n \<noteq> hash_of s name then bucket_of s n else Ref (Suc (length (cells s))))"
    using hash_slot [OF assms(1) _ assms(2)] assms(2) n
    by (auto simp: bucket_of_def entered_simps entered_tables nth_list_update hashable_def)
qed

lemma entered_table:
  assumes "wf_state s" "symtab_ok s" "hashable s name" "table s name = None"
  shows "symtab_ok (entered name s)" "table (entered name s) = (table s)(name \<mapsto> Ref (length (cells s)))"
proof -
  let ?s = "entered name s" and ?sy = "Ref (length (cells s))"
  note ext = entered_extends [of s name]
  have sym: "list_all (symbol_at s) xs \<Longrightarrow> list_all (symbol_at ?s) xs" for xs
    using extends_symbol [OF ext] by (simp add: list_all_iff)
  have sy: "symbol_at ?s ?sy" by (simp add: symbol_at_def entered_simps)
  obtain as xs where new: "list_on s (bucket_of s name) as xs" "list_all (symbol_at s) xs"
    using assms(1-3) by (rule bucket_list)
  show ok: "symtab_ok ?s"
    unfolding symtab_ok_def entered_simps(3)
  proof
    fix l assume "l \<in> (if 1 < obarray_dim s then set (obarray ?s) else {oblistvar ?s})"
    then consider "l = Ref (Suc (length (cells s)))" | "1 < obarray_dim s" "l \<in> set (obarray s)"
      using entered_buckets(1) [OF assms(1,3)] by blast
    then show "\<exists>as xs. list_on ?s l as xs \<and> list_all (symbol_at ?s) xs"
    proof cases
      case 1
      then show ?thesis using entered_list [OF new(1)] sym [OF new(2)] sy by fastforce
    next
      case 2
      then obtain as xs where "list_on s l as xs" "list_all (symbol_at s) xs"
        using assms(2) unfolding symtab_ok_def by meson
      then show ?thesis using extends_list [OF ext] sym by meson
    qed
  qed
  show "table ?s = (table s)(name \<mapsto> ?sy)"
  proof
    fix n
    have same: "List.find (names_in ?s n) ys = List.find (names_in s n) ys" if "list_all (symbol_at s) ys" for ys
      using that names_in_extends [OF ext] by (intro find_cong refl) (simp add: list_all_iff)
    show "table ?s n = ((table s)(name \<mapsto> ?sy)) n"
    proof (cases "hashable s n")
      case True
      then have h: "hashable ?s n" by (simp add: entered_simps)
      obtain bs ys where old: "list_on s (bucket_of s n) bs ys" "list_all (symbol_at s) ys"
        "table s n = List.find (names_in s n) ys"
        using assms(1,2) True by (rule bucket_list)
      show ?thesis
      proof (cases "1 < obarray_dim s \<and> hash_of s n \<noteq> hash_of s name")
        case other: True
        then have "list_on ?s (bucket_of ?s n) bs ys"
          using entered_buckets(2) [OF assms(1,3) True] extends_list [OF ext old(1)] by simp
        then show ?thesis using table_find [OF h _ sym [OF old(2)]] same [OF old(2)] old(3) other by auto
      next
        case here: False
        then have b: "bucket_of s n = bucket_of s name" by (auto simp: bucket_of_def)
        then have "ys = xs" using old(1) new(1) list_on_unique by metis
        moreover have l: "list_on ?s (bucket_of ?s n) (Suc (length (cells s)) # as) (?sy # xs)"
          using entered_list [OF new(1)] by (simp only: entered_buckets(2) [OF assms(1,3) True] here if_False)
        have "table ?s n = List.find (names_in ?s n) (?sy # xs)"
          by (rule table_find [OF h l]) (use sym [OF new(2)] sy in simp)
        ultimately show ?thesis
          using same [OF new(2)] old(3) by (simp add: names_in_def [of _ _ ?sy] entered_simps)
      qed
    next
      case False
      then show ?thesis using assms(3) by (auto simp: table_def entered_simps)
    qed
  qed
qed

lemma entered_conses:
  assumes "wf_state s" "symtab_ok s" "hashable s name"
  shows "bucket_conses (entered name s) \<subseteq> bucket_conses s \<union> {a. length (cells s) \<le> a}"
proof
  let ?s = "entered name s"
  fix a assume "a \<in> bucket_conses ?s"
  then obtain l as xs where 1: "l \<in> (if 1 < obarray_dim s then set (obarray ?s) else {oblistvar ?s})" "list_on ?s l as xs"
    "a \<in> set as" by (auto simp: bucket_conses_def entered_simps(3))
  let ?r = "if 1 < obarray_dim s then set (obarray s) else {oblistvar s}"
  have old: "a \<in> bucket_conses s" if "list_on s k bs ys" "a \<in> set bs" "k \<in> ?r" for k bs ys
    using bucket_consesI [OF that(3,1,2)] .
  obtain bs ys where new: "list_on s (bucket_of s name) bs ys" using assms by (rule bucket_list)
  have b: "bucket_of s name \<in> ?r" using hash_slot [OF assms(1) _ assms(3)] by (auto simp: bucket_of_def)
  from 1(1) consider "l = Ref (Suc (length (cells s)))" | "1 < obarray_dim s" "l \<in> set (obarray s)"
    using entered_buckets(1) [OF assms(1,3)] by blast
  then show "a \<in> bucket_conses s \<union> {a. length (cells s) \<le> a}"
  proof cases
    case new_bucket: 1
    then have "as = Suc (length (cells s)) # bs" using entered_list [OF new] 1(2) list_on_unique by blast
    then show ?thesis using old [OF new _ b] 1(3) by auto
  next
    case 2
    then obtain cs zs where c: "list_on s l cs zs" using assms(2) unfolding symtab_ok_def by meson
    then have "as = cs" using extends_list [OF entered_extends c] 1(2) list_on_unique by blast
    then show ?thesis using old [OF c] 1(3) 2 by simp
  qed
qed

lemma intern_run:
  assumes "wf_state s" "symtab_ok s" "hashable s name" "room 3 s"
  shows "siod_gen_siod_intern name s = (case table s name of Some r \<Rightarrow> (Ret r, s)
    | None \<Rightarrow> (Ret (Ref (length (cells s))), entered name s))"
  using intern_table [OF assms(1-3)] intern_new_run [OF assms(4)] by (simp split: option.split)

text \<open>
  C16. Interning implements a map from names to symbols.  A name the map has gives its symbol and changes
  nothing.  Any other name gives a new symbol of that name, without a value, and adds it to the map; the other
  names keep their symbols, and no cell that was there changes.
\<close>

theorem intern_refines:
  assumes "wf_state s" "symtab_ok s" "hashable s name" "room 3 s"
  shows "case table s name of
      Some r \<Rightarrow> siod_gen_siod_intern name s = (Ret r, s) \<and> (\<exists>v. obj_at s r = Some (Tc_symbol name v))
    | None \<Rightarrow> (\<exists>r s'. siod_gen_siod_intern name s = (Ret r, s') \<and> obj_at s r = None \<and>
        obj_at s' r = Some (Tc_symbol name (unbound_marker s)) \<and>
        table s' = (table s)(name \<mapsto> r) \<and> symtab_ok s' \<and> extends s s' \<and>
        length (cells s') \<le> length (cells s) + 3)"
proof (cases "table s name")
  case None
  have "siod_gen_siod_intern name s = (Ret (Ref (length (cells s))), entered name s)"
    using intern_run [OF assms] None by simp
  moreover have "obj_at s (Ref (length (cells s))) = None" by (simp add: obj_at_def)
  ultimately show ?thesis
    using None entered_table [OF assms(1-3) None] entered_extends [of s name] entered_simps(1,2) [of name s]
    by (simp; blast)
next
  case (Some r)
  then show ?thesis using intern_run [OF assms] table_symbol [OF assms(1,2)] by simp
qed

theorem intern_refines_witness:
  "\<exists>r s'. siod_gen_siod_intern ''foo'' (small_state []) = (Ret r, s') \<and> table s' ''foo'' = Some r"
proof -
  have "table (small_state []) ''foo'' = None" "symtab_ok (small_state [])" "hashable (small_state []) ''foo''"
    by (simp_all add: table_def hashable_def bucket_of_def symtab_ok_def small_state_def)
  then show ?thesis
    using intern_refines [of "small_state []" "''foo''"] wf_small_state [of "[]"]
    by (auto simp: room_def small_state_def)
qed

end
