(* ===== verification/Print_Facts.thy ===== *)
theory Print_Facts
  imports Printf_Facts Symtab
begin

text \<open>
  What the printer prints: the external representations of lists, integers, symbols and strings, and the proof
  that siod_lprin1g writes them, for every sink of characters.
\<close>

section \<open>External representations\<close>

datatype sexp = Sx_nil | Sx_num int | Sx_sym string | Sx_str string | Sx_cons sexp sexp

fun show_sexp :: "sexp \<Rightarrow> string" and show_tail :: "sexp \<Rightarrow> string" where
  "show_sexp Sx_nil = ''()''"
| "show_sexp (Sx_num i) = long_digits i"
| "show_sexp (Sx_sym p) = p"
| "show_sexp (Sx_str t) = [CHR 0x22] @ concat (map quoted_char t) @ [CHR 0x22]"
| "show_sexp (Sx_cons a d) = ''('' @ show_sexp a @ show_tail d @ '')''"
| "show_tail Sx_nil = []"
| "show_tail (Sx_num i) = '' . '' @ long_digits i"
| "show_tail (Sx_sym p) = '' . '' @ p"
| "show_tail (Sx_str t) = '' . '' @ [CHR 0x22] @ concat (map quoted_char t) @ [CHR 0x22]"
| "show_tail (Sx_cons a d) = '' '' @ show_sexp a @ show_tail d"

text \<open>Names that are read as symbols, and are not the dot of a pair.\<close>

definition plain_name :: "string \<Rightarrow> bool" where
  "plain_name p = (p \<noteq> [] \<and> length p < 5120 \<and> list_all (\<lambda>c. \<not> c_isspace c \<and> \<not> delimiter c) p \<and>
     hd p \<noteq> CHR ''#'' \<and> \<not> number_token p \<and> p \<noteq> ''.'')"

fun readable :: "sexp \<Rightarrow> bool" where
  "readable Sx_nil = True"
| "readable (Sx_num i) = (\<bar>i\<bar> < 2 ^ 53)"
| "readable (Sx_sym p) = plain_name p"
| "readable (Sx_str t) = (NUL \<notin> set t \<and> length t < 5120)"
| "readable (Sx_cons a d) = (readable a \<and> readable d)"

text \<open>
  The objects of the store that have a representation; each cell of them satisfies ok.  The symbol of a name
  is the one that nm says.
\<close>

fun rep :: "(siod_LISP \<Rightarrow> bool) \<Rightarrow> (string \<Rightarrow> siod_LISP \<Rightarrow> bool) \<Rightarrow> siod \<Rightarrow> siod_LISP \<Rightarrow> sexp \<Rightarrow> bool" where
  "rep ok nm s x Sx_nil = (x = NIL)"
| "rep ok nm s x (Sx_num i) = (ok x \<and> obj_at s x = Some (Tc_flonum (of_long i)))"
| "rep ok nm s x (Sx_sym p) = (ok x \<and> nm p x \<and> (\<exists>v. obj_at s x = Some (Tc_symbol p v)))"
| "rep ok nm s x (Sx_str t) = (ok x \<and> obj_at s x = Some (string_cell t))"
| "rep ok nm s x (Sx_cons a d) =
     (ok x \<and> (\<exists>xa xd. obj_at s x = Some (Tc_cons xa xd) \<and> rep ok nm s xa a \<and> rep ok nm s xd d))"

text \<open>A bound of the recursion that is large enough.\<close>

fun steps :: "sexp \<Rightarrow> nat" where
  "steps (Sx_cons a d) = steps a + steps d + 3"
| "steps e = 2"

lemma rep_mono:
  "rep ok nm s x e \<Longrightarrow> (\<And>y ob. ok y \<Longrightarrow> obj_at s y = Some ob \<Longrightarrow> ok' y \<and> obj_at s' y = Some ob) \<Longrightarrow>
   (\<And>p y. nm p y \<Longrightarrow> nm' p y) \<Longrightarrow> rep ok' nm' s' x e"
  by (induction e arbitrary: x) (auto; blast)+

lemma steps_pos: "2 \<le> steps e"
  by (cases e) auto

lemma quoted_no_NUL: "c \<noteq> NUL \<Longrightarrow> NUL \<notin> set (quoted_char c)" "NUL \<noteq> c \<Longrightarrow> NUL \<notin> set (quoted_char c)"
  by (simp_all add: quoted_char_def)

lemma quoted_text_no_NUL: "NUL \<notin> set t \<Longrightarrow> NUL \<notin> set (concat (map quoted_char t))"
  by (induction t) (simp_all add: quoted_no_NUL(2))

lemma show_no_NUL: "readable e \<Longrightarrow> NUL \<notin> set (show_sexp e) \<and> NUL \<notin> set (show_tail e)"
proof (induction e)
  case (Sx_num i)
  then show ?case using long_digits_chars(4) [of NUL i] by auto
next
  case (Sx_sym p)
  then show ?case by (auto simp: plain_name_def list_all_iff delimiter_def)
next
  case (Sx_str t)
  then show ?case using quoted_text_no_NUL [of t] by simp
qed simp_all

section \<open>Steps of the printer\<close>

lemma lprin1g_steps:
  "siod_lprin1g lib (Suc k) puts NIL s = puts ''()'' s"
  "obj_at s x = Some (Tc_cons a d) \<Longrightarrow> siod_lprin1g lib (Suc k) puts x s =
     bindM (puts ''('') (\<lambda>_. bindM (siod_lprin1g lib k puts a) (\<lambda>_. bindM (prin1_tail lib k puts d) (\<lambda>_. puts '')''))) s"
  "obj_at s x = Some (Tc_flonum r) \<Longrightarrow> siod_lprin1g lib (Suc k) puts x s = puts (flonum_text (nan_text lib) r) s"
  "obj_at s x = Some (Tc_symbol p v) \<Longrightarrow> siod_lprin1g lib (Suc k) puts x s = puts p s"
  "obj_at s x = Some (Tc_string n b) \<Longrightarrow> siod_lprin1g lib (Suc k) puts x s =
     bindM (puts [CHR 0x22]) (\<lambda>_. bindM (puts_string puts (cstr b)) (\<lambda>_. puts [CHR 0x22])) s"
  by (simp_all add: bind_run obj_at_look prin1_atom_def subr_name_def array_type_def siod_array_prin1_def)

lemma prin1_tail_steps:
  "prin1_tail lib (Suc k) puts NIL s = (Ret (), s)"
  "obj_at s x = Some (Tc_cons a d) \<Longrightarrow> prin1_tail lib (Suc k) puts x s =
     bindM (puts '' '') (\<lambda>_. bindM (siod_lprin1g lib k puts a) (\<lambda>_. prin1_tail lib k puts d)) s"
  "obj_at s x = Some ob \<Longrightarrow> \<not> is_cons (Some ob) \<Longrightarrow> prin1_tail lib (Suc k) puts x s =
     bindM (puts '' . '') (\<lambda>_. siod_lprin1g lib k puts x) s"
  by (simp_all add: bind_run obj_at_look) (cases ob; simp add: is_cons_def)

declare siod_lprin1g.simps [simp del] prin1_tail.simps [simp del]

section \<open>Sinks\<close>

text \<open>
  A sink takes text as long as it has room for it, and leaves the objects alone whose printing it is used for.
\<close>

locale sink =
  fixes puts :: "string \<Rightarrow> unit act"
    and put :: "string \<Rightarrow> siod \<Rightarrow> siod"
    and fits :: "nat \<Rightarrow> siod \<Rightarrow> bool"
    and ok :: "siod_LISP \<Rightarrow> bool"
  assumes puts_run: "NUL \<notin> set t \<Longrightarrow> fits (length t) s \<Longrightarrow> puts t s = (Ret (), put t s)"
    and fits_put: "NUL \<notin> set t \<Longrightarrow> fits (length t + n) s \<Longrightarrow> fits n (put t s)"
    and fits_less: "fits n s \<Longrightarrow> m \<le> n \<Longrightarrow> fits m s"
    and put_nil: "fits n s \<Longrightarrow> put [] s = s"
    and put_put: "NUL \<notin> set t \<Longrightarrow> NUL \<notin> set u \<Longrightarrow> fits (length t + length u) s \<Longrightarrow> put u (put t s) = put (t @ u) s"
    and put_obj: "ok y \<Longrightarrow> obj_at s y = Some ob \<Longrightarrow> obj_at (put t s) y = Some ob"
begin

text \<open>An operation that writes the text t whenever it fits.\<close>

definition writes :: "siod \<Rightarrow> unit act \<Rightarrow> string \<Rightarrow> bool" where
  "writes s m t = (NUL \<notin> set t \<and> (fits (length t) s \<longrightarrow> m s = (Ret (), put t s)))"

lemma writes_puts: "NUL \<notin> set t \<Longrightarrow> writes s (puts t) t"
  by (simp add: writes_def puts_run)

lemma writes_seq:
  assumes "writes s m t" "NUL \<notin> set u" "writes (put t s) n u"
  shows "writes s (bindM m (\<lambda>_. n)) (t @ u)"
  unfolding writes_def
proof (intro conjI impI)
  show "NUL \<notin> set (t @ u)" using assms by (simp add: writes_def)
  assume f: "fits (length (t @ u)) s"
  then have 1: "fits (length t) s" "fits (length u) (put t s)"
    using fits_less [of _ s "length t"] fits_put [of t "length u" s] assms(1) by (auto simp: writes_def)
  then have "m s = (Ret (), put t s)" "n (put t s) = (Ret (), put u (put t s))"
    using assms by (simp_all add: writes_def)
  then show "bindM m (\<lambda>_. n) s = (Ret (), put (t @ u) s)"
    using put_put [of t u s] f assms(1,2) by (simp add: bind_run writes_def)
qed

lemma writes_list:
  "NUL \<notin> set (concat ts) \<Longrightarrow> writes s (puts_list puts ts) (concat ts)"
proof (induction ts arbitrary: s)
  case (Cons t ts)
  then show ?case by (auto intro!: writes_seq writes_puts)
qed (simp add: writes_def put_nil)

lemma writes_string:
  assumes "NUL \<notin> set t"
  shows "writes s (puts_string puts t) (concat (map quoted_char t))"
proof -
  have n: "NUL \<notin> set (concat (map quoted_char t))" using assms by (rule quoted_text_no_NUL)
  show ?thesis
  proof (cases "list_all (\<lambda>c. c \<notin> set [CHR 0x22, CHR 0x5C, CHR 0x0A, CHR 0x0D, CHR 0x09]) t")
    case True
    then have "concat (map quoted_char t) = t" by (induction t) (simp_all add: quoted_char_def)
    then show ?thesis using True assms writes_puts [of t] by (simp add: puts_string_def)
  next
    case False
    then show ?thesis using writes_list [OF n] by (simp add: puts_string_def)
  qed
qed

lemma rep_put: "rep ok nm s x e \<Longrightarrow> rep ok nm (put t s) x e"
  by (erule rep_mono) (auto intro: put_obj)

lemma writes_tuple:
  assumes "NUL \<notin> set u" "NUL \<notin> set t" "NUL \<notin> set w" "\<And>s. writes s m u"
  shows "writes s (bindM (puts t) (\<lambda>_. bindM m (\<lambda>_. puts w))) (t @ u @ w)"
  using assms(1-3) by (intro writes_seq [OF writes_puts] writes_seq [OF assms(4)] writes_puts) simp_all

lemma writes_cong: "m s = m' s \<Longrightarrow> writes s m' t \<Longrightarrow> writes s m t"
  by (simp add: writes_def)

lemma writes_atom:
  assumes "readable e" "rep ok nm s x e" "\<nexists>a d. e = Sx_cons a d"
  shows "writes s (siod_lprin1g lib (Suc k) puts x) (show_sexp e)"
proof (cases e)
  case Sx_nil
  have "writes s (siod_lprin1g lib (Suc k) puts NIL) ''()''"
    by (rule writes_cong [OF lprin1g_steps(1)]) (simp add: writes_puts)
  then show ?thesis using assms(2) Sx_nil by simp
next
  case (Sx_num i)
  then have "siod_lprin1g lib (Suc k) puts x s = puts (long_digits i) s"
    using assms(1,2) lprin1g_steps(3) [of s x "of_long i"] by (simp add: flonum_text_long)
  then show ?thesis
    by (rule writes_cong) (use show_no_NUL [OF assms(1)] Sx_num in \<open>simp add: writes_puts\<close>)
next
  case (Sx_sym p)
  then have "siod_lprin1g lib (Suc k) puts x s = puts p s" using assms(2) lprin1g_steps(4) [of s x p] by auto
  then show ?thesis
    by (rule writes_cong) (use show_no_NUL [OF assms(1)] Sx_sym in \<open>simp add: writes_puts\<close>)
next
  case (Sx_str t)
  then have n: "NUL \<notin> set t" using assms(1) by simp
  have c: "cstr (t @ [NUL]) = t" using n by (simp add: cstr_terminated)
  have "obj_at s x = Some (Tc_string (length t) (t @ [NUL]))" using assms(2) Sx_str by (simp add: string_cell_def)
  from lprin1g_steps(5) [OF this, of lib k puts] have "siod_lprin1g lib (Suc k) puts x s =
      bindM (puts [CHR 0x22]) (\<lambda>_. bindM (puts_string puts t) (\<lambda>_. puts [CHR 0x22])) s"
    unfolding c .
  then show ?thesis
    unfolding Sx_str show_sexp.simps
    by (rule writes_cong) (use n quoted_text_no_NUL [OF n] in \<open>intro writes_tuple writes_string; simp\<close>)
qed (use assms(3) in blast)

lemma writes_tail_atom:
  assumes "readable e" "rep ok nm s x e" "\<nexists>a d. e = Sx_cons a d"
  shows "writes s (prin1_tail lib (Suc (Suc k)) puts x) (show_tail e)"
proof (cases "e = Sx_nil")
  case True
  then show ?thesis using assms by (simp add: writes_def put_nil prin1_tail_steps(1))
next
  case False
  then obtain ob where ob: "obj_at s x = Some ob" "\<not> is_cons (Some ob)" "show_tail e = '' . '' @ show_sexp e"
    using assms by (cases e) (auto simp: is_cons_def string_cell_def)
  have "writes s (bindM (puts '' . '') (\<lambda>_. siod_lprin1g lib (Suc k) puts x)) ('' . '' @ show_sexp e)"
    using assms show_no_NUL [OF assms(1)] by (intro writes_seq writes_puts writes_atom rep_put) auto
  then show ?thesis unfolding ob(3) using prin1_tail_steps(3) [OF ob(1,2)] by (rule writes_cong [rotated])
qed

lemma writes_sexp:
  assumes "readable e" "rep ok nm s x e"
  shows "steps e \<le> k \<Longrightarrow> writes s (siod_lprin1g lib k puts x) (show_sexp e)"
    and "steps e \<le> k \<Longrightarrow> writes s (prin1_tail lib k puts x) (show_tail e)"
  using assms
proof (induction e arbitrary: s x k)
  case (Sx_cons a d)
  {
    case 1
    then obtain k' where k: "k = Suc k'" "steps a \<le> k'" "steps d \<le> k'" by (cases k) auto
    obtain xa xd where x: "obj_at s x = Some (Tc_cons xa xd)" "rep ok nm s xa a" "rep ok nm s xd d"
      using 1 by auto
    have "writes s (bindM (puts ''('') (\<lambda>_. bindM (siod_lprin1g lib k' puts xa) (\<lambda>_.
        bindM (prin1_tail lib k' puts xd) (\<lambda>_. puts '')'')))) (''('' @ show_sexp a @ show_tail d @ '')'')"
      using 1 k x show_no_NUL [of a] show_no_NUL [of d]
      by (intro writes_seq writes_puts Sx_cons.IH(1) Sx_cons.IH(4) rep_put) auto
    then show ?case unfolding k(1) show_sexp.simps using lprin1g_steps(2) [OF x(1)] by (rule writes_cong [rotated])
  next
    case 2
    then obtain k' where k: "k = Suc k'" "steps a \<le> k'" "steps d \<le> k'" by (cases k) auto
    obtain xa xd where x: "obj_at s x = Some (Tc_cons xa xd)" "rep ok nm s xa a" "rep ok nm s xd d"
      using 2 by auto
    have "writes s (bindM (puts '' '') (\<lambda>_. bindM (siod_lprin1g lib k' puts xa) (\<lambda>_. prin1_tail lib k' puts xd)))
        ('' '' @ show_sexp a @ show_tail d)"
      using 2 k x show_no_NUL [of a] show_no_NUL [of d]
      by (intro writes_seq writes_puts Sx_cons.IH(1) Sx_cons.IH(4) rep_put) auto
    then show ?case unfolding k(1) show_tail.simps using prin1_tail_steps(2) [OF x(1)] by (rule writes_cong [rotated])
  }
qed (metis writes_atom writes_tail_atom Suc_le_D steps_pos numeral_2_eq_2 le_trans sexp.distinct Suc_le_mono)+

text \<open>Printing an object whose representation fits.\<close>

lemma lprin1g_run:
  assumes "readable e" "rep ok nm s x e" "steps e \<le> k" "fits (length (show_sexp e)) s"
  shows "siod_lprin1g lib k puts x s = (Ret (), put (show_sexp e) s)"
  using writes_sexp(1) [OF assms(1-3)] assms(4) by (simp add: writes_def)

end

section \<open>The sinks of the program\<close>

definition console_put :: "string \<Rightarrow> siod \<Rightarrow> siod" where
  "console_put t s = s\<lparr>console := console s @ t\<rparr>"

lemma obj_at_console [simp]: "obj_at (s\<lparr>console := c\<rparr>) y = obj_at s y"
  by (cases y) (simp_all add: obj_at_def)

interpretation stdout: sink "siod_fput_st c_stdout" console_put "\<lambda>_ _. True" "\<lambda>_. True"
  by unfold_locales (simp_all add: siod_fput_st_def c_write_def put_st_def modifyM_def console_put_def)

text \<open>The string cell at str after text is printed to it, and the room it has.\<close>

definition string_put :: "siod_LISP \<Rightarrow> string \<Rightarrow> siod \<Rightarrow> siod" where
  "string_put str t s = (case (str, obj_at s str) of
       (Ref a, Some (Tc_string n d)) \<Rightarrow> (case put_cstr d (length (cstr d)) t of
           Some d' \<Rightarrow> set_cell a (Tc_string n d') s | None \<Rightarrow> s)
     | _ \<Rightarrow> s)"

definition string_fits :: "siod_LISP \<Rightarrow> nat \<Rightarrow> siod \<Rightarrow> bool" where
  "string_fits str k s = (case obj_at s str of
       Some (Tc_string n d) \<Rightarrow> NUL \<in> set d \<and> length (cstr d) + k \<le> n \<and> n < length d | _ \<Rightarrow> False)"

lemma string_fitsE:
  assumes "string_fits str k s"
  obtains a n d where "str = Ref a" "a < length (cells s)" "cells s ! a = Tc_string n d" "obj_at s str = Some (Tc_string n d)"
    "length (cstr d) + k \<le> n" "n < length d" "NUL \<in> set d"
  using assms that
  by (auto simp: string_fits_def obj_at_def split: option.splits obj.splits siod_LISP.splits if_splits)

lemma cstr_split: "NUL \<in> set d \<Longrightarrow> d = cstr d @ NUL # drop (Suc (length (cstr d))) d"
proof -
  assume "NUL \<in> set d"
  then obtain u v where d: "d = u @ NUL # v" "NUL \<notin> set u" using split_list_first by force
  then have "cstr d = u" by (simp add: cstr_terminated)
  then show ?thesis using d by simp
qed

lemma put_cstr_run:
  assumes "NUL \<in> set d" "length (cstr d) + length t < length d" "NUL \<notin> set t"
  shows "\<exists>d'. put_cstr d (length (cstr d)) t = Some d' \<and> cstr d' = cstr d @ t \<and> length d' = length d \<and> NUL \<in> set d' \<and>
    drop (Suc (length (cstr d'))) d' = drop (Suc (length (cstr d) + length t)) d"
proof -
  let ?d = "cstr d @ t @ [NUL] @ drop (Suc (length (cstr d) + length t)) d"
  have t: "take (length (cstr d)) d = cstr d" by (subst (2) cstr_split [OF assms(1)]) simp
  then have "put_cstr d (length (cstr d)) t = Some ?d" using assms(2) by (simp add: put_cstr_def)
  moreover have c: "cstr ?d = cstr d @ t"
    using cstr_terminated [of "cstr d @ t"] assms(3) cstr_no_NUL [of d] by simp
  moreover have "length ?d = length d" using assms(2) by simp
  ultimately show ?thesis by (intro exI [of _ ?d]) simp
qed

lemma string_put_run:
  assumes "string_fits str (length t) s" "NUL \<notin> set t"
  shows "\<exists>a n d d'. str = Ref a \<and> a < length (cells s) \<and> cells s ! a = Tc_string n d \<and>
    string_put str t s = set_cell a (Tc_string n d') s \<and> NUL \<in> set d \<and> n < length d \<and> length (cstr d) + length t \<le> n \<and>
    put_cstr d (length (cstr d)) t = Some d' \<and> cstr d' = cstr d @ t \<and> length d' = length d \<and> NUL \<in> set d' \<and>
    drop (Suc (length (cstr d'))) d' = drop (Suc (length (cstr d) + length t)) d"
  using assms(1)
proof (rule string_fitsE)
  fix a n d
  assume 1: "str = Ref a" "a < length (cells s)" "cells s ! a = Tc_string n d" "obj_at s str = Some (Tc_string n d)"
    "length (cstr d) + length t \<le> n" "n < length d" "NUL \<in> set d"
  then obtain d' where "put_cstr d (length (cstr d)) t = Some d'" "cstr d' = cstr d @ t" "length d' = length d"
    "NUL \<in> set d'" "drop (Suc (length (cstr d'))) d' = drop (Suc (length (cstr d) + length t)) d"
    using put_cstr_run [of d t] assms(2) by auto
  with 1 show ?thesis
    by (intro exI [of _ a] exI [of _ n] exI [of _ d] exI [of _ d']) (simp add: string_put_def)
qed

lemma cstr_buffer_eq:
  assumes "NUL \<in> set d" "NUL \<in> set e" "cstr d = cstr e" "drop (Suc (length (cstr d))) d = drop (Suc (length (cstr e))) e"
  shows "d = e"
  using cstr_split [OF assms(1)] cstr_split [OF assms(2)] assms(3,4) by simp

lemma string_put_puts:
  assumes "NUL \<notin> set t" "string_fits str (length t) s"
  shows "siod_ptsiod_s_puts str t s = (Ret (), string_put str t s)"
proof -
  obtain a n d d' where 1: "str = Ref a" "a < length (cells s)" "cells s ! a = Tc_string n d"
    "string_put str t s = set_cell a (Tc_string n d') s" "length (cstr d) + length t \<le> n"
    "put_cstr d (length (cstr d)) t = Some d'"
    using string_put_run [OF assms(2,1)] by blast
  then show ?thesis
    by (simp add: siod_ptsiod_s_puts_def bind_run store_def Let_def)
qed

lemma string_put_fits:
  assumes "NUL \<notin> set t" "string_fits str (length t + k) s"
  shows "string_fits str k (string_put str t s)"
proof -
  have "string_fits str (length t) s"
    using assms(2) by (auto simp: string_fits_def split: option.splits obj.splits)
  from string_put_run [OF this assms(1)] show ?thesis
    using assms(2) by (auto simp: string_fits_def obj_at_def)
qed

lemma string_put_put:
  assumes "NUL \<notin> set t" "NUL \<notin> set u" "string_fits str (length t + length u) s"
  shows "string_put str u (string_put str t s) = string_put str (t @ u) s"
proof -
  have f: "string_fits str (length t) s" "string_fits str (length (t @ u)) s"
    using assms(3) by (auto simp: string_fits_def split: option.splits obj.splits)
  obtain a n d d1 where 1: "str = Ref a" "a < length (cells s)" "cells s ! a = Tc_string n d"
    "string_put str t s = set_cell a (Tc_string n d1) s" "NUL \<in> set d1" "cstr d1 = cstr d @ t" "length d1 = length d"
    "drop (Suc (length (cstr d1))) d1 = drop (Suc (length (cstr d) + length t)) d"
    using string_put_run [OF f(1) assms(1)] by blast
  obtain d2 where 2: "string_put str u (string_put str t s) = set_cell a (Tc_string n d2) (string_put str t s)"
    "NUL \<in> set d2" "cstr d2 = cstr d1 @ u" "drop (Suc (length (cstr d2))) d2 = drop (Suc (length (cstr d1) + length u)) d1"
    using string_put_run [OF string_put_fits [OF assms(1,3)] assms(2)] 1(1-4) by auto
  obtain d3 where 3: "string_put str (t @ u) s = set_cell a (Tc_string n d3) s" "NUL \<in> set d3" "cstr d3 = cstr d @ t @ u"
    "drop (Suc (length (cstr d3))) d3 = drop (Suc (length (cstr d) + length (t @ u))) d"
    using string_put_run [OF f(2)] assms(1,2) 1(1-3) by auto
  have "drop (Suc (length (cstr d1) + length u)) d1 = drop (length u) (drop (Suc (length (cstr d1))) d1)"
    by (simp add: add.commute)
  also have "\<dots> = drop (Suc (length (cstr d3))) d3"
    unfolding 1(8) 3(4) by (simp add: add.commute add.left_commute)
  finally have "drop (Suc (length (cstr d2))) d2 = drop (Suc (length (cstr d3))) d3" using 2(4) by simp
  moreover have "cstr d2 = cstr d3" using 1(6) 2(3) 3(3) by simp
  ultimately have "d2 = d3" by - (rule cstr_buffer_eq [OF 2(2) 3(2)])
  then show ?thesis using 1(4) 2(1) 3(1) by (simp add: set_cell_def)
qed

lemma set_cell_same: "cells s ! a = ob \<Longrightarrow> set_cell a ob s = s"
  by (auto simp: set_cell_def)

interpretation string_sink: sink "siod_ptsiod_s_puts str" "string_put str" "string_fits str" "\<lambda>y. y \<noteq> str" for str
proof unfold_locales
  show "string_put str [] s = s" if "string_fits str n s" for n s
  proof -
    have "string_fits str (length []) s" using that by (auto simp: string_fits_def split: option.splits obj.splits)
    then obtain a n d d' where 1: "a < length (cells s)" "cells s ! a = Tc_string n d"
      "string_put str [] s = set_cell a (Tc_string n d') s" "NUL \<in> set d" "NUL \<in> set d'" "cstr d' = cstr d @ []"
      "drop (Suc (length (cstr d'))) d' = drop (Suc (length (cstr d) + length [])) d"
      using string_put_run [of str "[]" s] by auto
    have "drop (Suc (length (cstr d'))) d' = drop (Suc (length (cstr d))) d" "cstr d' = cstr d"
      using 1(6,7) by simp_all
    then have "d' = d" by - (rule cstr_buffer_eq [OF 1(5,4)])
    then show ?thesis using 1(1-3) set_cell_same by simp
  qed
  show "obj_at (string_put str t s) y = Some ob" if "y \<noteq> str" "obj_at s y = Some ob" for t s y ob
    using that by (auto simp: string_put_def obj_at_def set_cell_def nth_list_update
        split: siod_LISP.splits option.splits obj.splits if_splits)
qed (simp_all add: string_put_puts string_put_fits string_put_put, auto simp: string_fits_def split: option.splits obj.splits)

end
