(* ===== verification/Read_Facts.thy ===== *)
theory Read_Facts
  imports Print_Facts
begin

text \<open>
  What the reader reads: on the external representation of an object, from a file or a string, siod_lreadr builds
  an object with that representation, enters the names it meets in the symbol table, and leaves the other cells
  alone.
\<close>

section \<open>States in which the reader works\<close>

definition reader_ok :: "siod \<Rightarrow> bool" where
  "reader_ok s = (wf_state s \<and> symtab_ok s \<and> table s ''.'' = Some (sym_dot s))"

text \<open>The second state is the first with at most n more cells and maybe more symbols.\<close>

definition grows :: "nat \<Rightarrow> siod \<Rightarrow> siod \<Rightarrow> bool" where
  "grows n s s' = (extends s s' \<and> wf_state s' \<and> symtab_ok s' \<and> table s \<subseteq>\<^sub>m table s' \<and>
     length (cells s') \<le> length (cells s) + n \<and>
     bucket_conses s' \<subseteq> bucket_conses s \<union> {a. length (cells s) \<le> a})"

definition denotes :: "siod \<Rightarrow> siod_LISP \<Rightarrow> sexp \<Rightarrow> bool" where
  "denotes s x e = rep (\<lambda>_. True) (\<lambda>p y. table s p = Some y) s x e"

lemma grows_refl: "wf_state s \<Longrightarrow> symtab_ok s \<Longrightarrow> grows n s s"
  by (simp add: grows_def)

lemma grows_trans:
  assumes "grows m s1 s2" "grows n s2 s3" shows "grows (m + n) s1 s3"
proof -
  have "bucket_conses s3 \<subseteq> bucket_conses s1 \<union> {a. length (cells s1) \<le> a}"
    using assms extends_length [of s1 s2] by (fastforce simp: grows_def)
  then show ?thesis using assms by (auto simp: grows_def intro: extends_trans map_le_trans)
qed

lemma grows_more: "grows m s s' \<Longrightarrow> m \<le> n \<Longrightarrow> grows n s s'"
  by (auto simp: grows_def)

lemma grows_ok: "grows n s s' \<Longrightarrow> reader_ok s \<Longrightarrow> reader_ok s'"
  by (auto simp: grows_def reader_ok_def map_le_def extends_def constants_eq dom_def)

lemma grows_room: "grows n s s' \<Longrightarrow> room (n + m) s \<Longrightarrow> room m s'"
  by (auto simp: grows_def room_def extends_def)

lemma grows_hashable: "grows n s s' \<Longrightarrow> hashable s' p = hashable s p"
  by (simp add: grows_def extends_def hashable_def hash_of_def)

lemma denotes_grows: "denotes s x e \<Longrightarrow> grows n s s' \<Longrightarrow> denotes s' x e"
  unfolding denotes_def
  by (erule rep_mono) (auto simp: grows_def intro: extends_obj_at, auto simp: map_le_def dom_def)

text \<open>Here the conses of the representation are new, and not those of the first state.\<close>

definition builds :: "siod \<Rightarrow> siod \<Rightarrow> siod_LISP \<Rightarrow> sexp \<Rightarrow> bool" where
  "builds s s' x e = rep (\<lambda>y. \<not> is_cons (obj_at s y)) (\<lambda>p y. table s' p = Some y) s' x e"

lemma builds_denotes: "builds s s' x e \<Longrightarrow> denotes s' x e"
  unfolding builds_def denotes_def by (erule rep_mono) simp_all

lemma builds_grows: "builds s s1 x e \<Longrightarrow> grows n s1 s2 \<Longrightarrow> builds s s2 x e"
  unfolding builds_def
  by (erule rep_mono) (auto simp: grows_def intro: extends_obj_at, auto simp: map_le_def dom_def)

lemma grows_cons: "grows n s s' \<Longrightarrow> is_cons (obj_at s y) \<Longrightarrow> is_cons (obj_at s' y)"
  by (auto simp: grows_def is_cons_def dest: extends_obj_at split: option.splits)

lemma builds_from: "builds s1 s2 x e \<Longrightarrow> grows n s s1 \<Longrightarrow> builds s s2 x e"
  unfolding builds_def by (erule rep_mono) (auto dest: grows_cons)

lemma builds_leaf: "denotes s' x e \<Longrightarrow> grows n s s' \<Longrightarrow> \<nexists>a d. e = Sx_cons a d \<Longrightarrow> builds s s' x e"
  by (cases e) (auto simp: builds_def denotes_def is_cons_def string_cell_def dest!: grows_cons [of n s s' x])

lemma okM_Ret: "okM s m Q \<Longrightarrow> wf_state s \<Longrightarrow> m s = (Ret a, s') \<Longrightarrow> wf_state s' \<and> Q a s'"
  by (simp add: okM_def)

lemma grows_grow:
  assumes "wf_state s" "symtab_ok s" "wf_state (grow obs s)" "length obs \<le> n"
  shows "grows n s (grow obs s)"
proof -
  have "obarray (grow obs s) = obarray s" "oblistvar (grow obs s) = oblistvar s" by (simp_all add: grow_def)
  then show ?thesis
    using assms table_extends [OF assms(1,2) extends_grow] extends_grow [of s obs] by (simp add: grows_def)
qed

lemma newcell_grows:
  assumes "wf_state s" "symtab_ok s" "room 1 s" "okR s (newcell ob)"
  shows "\<exists>x s'. newcell ob s = (Ret x, s') \<and> grows 1 s s' \<and> obj_at s' x = Some ob \<and> obj_at s x = None"
proof -
  have 1: "newcell ob s = (Ret (Ref (length (cells s))), grow [ob] s)" using assms(3) by (simp add: newcell_run)
  with okM_Ret [OF assms(4,1)] have "wf_state (grow [ob] s)" by blast
  then show ?thesis
    using 1 grows_grow [OF assms(1,2), of "[ob]" 1] by (auto simp: obj_at_def)
qed

lemma read_cons:
  assumes "wf_state s" "symtab_ok s" "room 1 s" "builds s0 s xa a" "builds s0 s xd d" "ref_ok s xa" "ref_ok s xd" "grows n s0 s"
  shows "\<exists>x s'. siod_cons xa xd s = (Ret x, s') \<and> grows 1 s s' \<and> builds s0 s' x (Sx_cons a d) \<and>
    obj_at s' x = Some (Tc_cons xa xd) \<and> obj_at s x = None"
proof -
  obtain x s' where 1: "siod_cons xa xd s = (Ret x, s')" "grows 1 s s'" "obj_at s' x = Some (Tc_cons xa xd)" "obj_at s x = None"
    using newcell_grows [OF assms(1-3), of "Tc_cons xa xd"] ok_cons [OF assms(6,7)] unfolding siod_cons_def by blast
  have "\<not> is_cons (obj_at s0 x)" using grows_cons [OF assms(8), of x] 1(4) by (auto simp: is_cons_def)
  then show ?thesis
    using builds_grows [OF assms(4) 1(2)] builds_grows [OF assms(5) 1(2)] 1 by (auto simp: builds_def)
qed

lemma read_str:
  assumes "wf_state s" "symtab_ok s" "room 1 s"
  shows "\<exists>x s'. siod_strcons t s = (Ret x, s') \<and> grows 1 s s' \<and> denotes s' x (Sx_str t)"
  using newcell_grows [OF assms, of "string_cell t"] ok_strcons [of s t]
  unfolding siod_strcons_def denotes_def by auto

lemma dsub_self: "\<bar>i\<bar> < 2 ^ 53 \<Longrightarrow> dsub (of_long i) (of_long i) = of_long 0"
  by (cases "i = 0") (simp_all add: dsub_def dneg_of_long dadd_of_long)

lemma read_num:
  assumes "wf_state s" "symtab_ok s" "room 1 s" "\<bar>i\<bar> < 2 ^ 53"
  shows "\<exists>x s'. siod_flocons (of_long i) s = (Ret x, s') \<and> grows 1 s s' \<and> denotes s' x (Sx_num i)"
proof (cases "0 \<le> i \<and> i < int (length (inums s))")
  case True
  then have "nat i < length (inums s)" by auto
  then have o: "obj_at s (inums s ! nat i) = Some (Tc_flonum (of_long i))"
    using assms(1) True by (simp add: wf_state_def inums_ok_def)
  have "0 < length (inums s)" using True by linarith
  moreover have "dle (DZero False) (of_long i)" "deq (dsub (of_long i) (of_long i)) (DZero False)"
    using assms(4) True dlt_of_long [of 0 i] deq_of_long [of 0 i] by (auto simp: dle_def dsub_self)
  ultimately have "siod_flocons (of_long i) s = (Ret (inums s ! nat i), s)"
    using True assms(4) by (simp add: siod_flocons_def c_long_of_long Let_def)
  then show ?thesis using o grows_refl [OF assms(1,2)] by (auto simp: denotes_def)
next
  case False
  have "\<not> dle (DZero False) (of_long i)" if "i < 0"
    using dlt_of_long [of 0 i] deq_of_long [of 0 i] assms(4) that by (simp add: dle_def)
  then have "siod_flocons (of_long i) s = newcell (Tc_flonum (of_long i)) s"
    using False assms(4) by (auto simp: siod_flocons_def c_long_of_long Let_def)
  moreover have "okR s (newcell (Tc_flonum (of_long i)))" by (rule okR_newcell) simp
  ultimately show ?thesis
    using newcell_grows [OF assms(1-3), of "Tc_flonum (of_long i)"] by (auto simp: denotes_def)
qed

lemma read_sym:
  assumes "wf_state s" "symtab_ok s" "room 3 s" "hashable s p"
  shows "\<exists>x s'. siod_rintern p s = (Ret x, s') \<and> grows 3 s s' \<and> denotes s' x (Sx_sym p)"
proof (cases "table s p")
  case None
  let ?s = "entered p s"
  have 1: "siod_rintern p s = (Ret (Ref (length (cells s))), ?s)"
    using intern_run [OF assms(1,2,4,3)] None by (simp add: siod_rintern_def)
  then have "wf_state ?s" using okM_Ret [OF ok_interns(2) [of s p] assms(1)] by blast
  moreover have "table s \<subseteq>\<^sub>m table ?s" using None entered_table(2) [OF assms(1,2,4) None] by (auto simp: map_le_def)
  ultimately show ?thesis
    using 1 entered_table [OF assms(1,2,4) None] entered_simps(1,2) [of p s] entered_extends [of s p]
      entered_conses [OF assms(1,2,4)] by (auto simp: grows_def denotes_def)
next
  case (Some x)
  then show ?thesis
    using intern_run [OF assms(1,2,4,3)] table_symbol [OF assms(1,2) Some] grows_refl [OF assms(1,2), of 3]
    by (auto simp: denotes_def siod_rintern_def)
qed

section \<open>Characters\<close>

abbreviation skip :: "char list \<Rightarrow> char list" where
  "skip \<equiv> dropWhile c_isspace"

definition stops :: "char list \<Rightarrow> bool" where
  "stops rest = (rest = [] \<or> c_isspace (hd rest) \<or> delimiter (hd rest))"

lemma get_run:
  assumes "left f = c # r"
  obtains f1 where "GETC_FCN f = (Some c, f1)" "left f1 = r" "UNGETC_FCN (Some c) f1 = f" "rd_text f1 = rd_text f"
  using get_left(2) [OF assms] by blast

lemma skip_ws_run:
  assumes "skip (left f) = c # r" "c \<noteq> CHR '';''"
  shows "\<exists>f1. skip_ws False f = (Some c, f1) \<and> left f1 = r \<and> left (UNGETC_FCN (Some c) f1) = c # r"
  using assms
proof (induction "length (left f)" arbitrary: f rule: less_induct)
  case less
  show ?case
  proof (cases "left f")
    case (Cons x r')
    then obtain f1 where f1: "GETC_FCN f = (Some x, f1)" "left f1 = r'" "UNGETC_FCN (Some x) f1 = f" by (rule get_run)
    have nl: "\<not> c_isspace (CHR '';'')" by (simp add: c_isspace_def)
    show ?thesis
    proof (cases "c_isspace x")
      case True
      then have "skip (left f1) = c # r" using less.prems(1) Cons f1(2) by simp
      moreover have "length (left f1) < length (left f)" using f1(2) Cons by simp
      ultimately have "\<exists>f2. skip_ws False f1 = (Some c, f2) \<and> left f2 = r \<and> left (UNGETC_FCN (Some c) f2) = c # r"
        using less.hyps less.prems(2) by blast
      then show ?thesis using True nl f1(1) by (subst skip_ws.simps) auto
    next
      case False
      then have "x = c" "r' = r" using less.prems(1) Cons by simp_all
      then show ?thesis using False less.prems(2) f1 Cons by (subst skip_ws.simps) auto
    qed
  qed (use less.prems in simp)
qed

lemma flush_run:
  assumes "skip (left f) = c # r" "c \<noteq> CHR '';''"
  obtains f1 where "siod_flush_ws f m s = (Ret (Some c, f1), s)" "left f1 = r" "left (UNGETC_FCN (Some c) f1) = c # r"
proof -
  obtain f1 where f1: "skip_ws False f = (Some c, f1)" "left f1 = r" "left (UNGETC_FCN (Some c) f1) = c # r"
    using skip_ws_run [OF assms] by blast
  then have "siod_flush_ws f m s = (Ret (Some c, f1), s)" by (simp add: siod_flush_ws_def)
  then show ?thesis using f1(2,3) by (rule that)
qed

lemma read_token_run:
  assumes "list_all (\<lambda>c. \<not> c_isspace c \<and> \<not> delimiter c) t" "stops rest"
  shows "left f = t @ rest \<Longrightarrow> length t < n \<Longrightarrow>
    \<exists>f1. read_token n buf f = Some (buf @ t, f1) \<and> skip (left f1) = skip rest"
  using assms(1)
proof (induction t arbitrary: f n buf)
  case Nil
  then obtain n' where n: "n = Suc n'" by (cases n) auto
  show ?case
  proof (cases rest)
    case Nil
    then show ?thesis using get_left(1) [of f] Nil.prems n by auto
  next
    case (Cons c r)
    then have "left f = c # r" using Nil.prems(1) by simp
    then obtain f1 where "GETC_FCN f = (Some c, f1)" "left f1 = r" "UNGETC_FCN (Some c) f1 = f" by (rule get_run)
    then show ?thesis using assms(2) Cons Nil.prems(1) n by (auto simp: stops_def)
  qed
next
  case (Cons c t)
  then obtain n' where n: "n = Suc n'" "length t < n'" by (cases n) auto
  have "left f = c # (t @ rest)" using Cons.prems(1) by simp
  then obtain f1 where f1: "GETC_FCN f = (Some c, f1)" "left f1 = t @ rest" by (rule get_run)
  then show ?case using Cons.IH [OF f1(2) n(2), of "buf @ [c]"] Cons.prems(3) n by auto
qed

text \<open>A token that does not start with a number sign is read up to what stops it.\<close>

definition token :: "char list \<Rightarrow> bool" where
  "token t = (t \<noteq> [] \<and> length t < 5120 \<and> list_all (\<lambda>c. \<not> c_isspace c \<and> \<not> delimiter c) t \<and> hd t \<noteq> CHR ''#'')"

lemma token_run:
  assumes "token t" "stops rest" "skip (left f) = t @ rest"
  shows "\<exists>f2. siod_lreadr mem rc (Suc k) f s = bindM (siod_lreadtk t) (\<lambda>x. ret (x, f2)) s \<and> skip (left f2) = skip rest"
proof -
  obtain c u where t: "t = c # u" "\<not> delimiter c" "c \<noteq> CHR ''#''" "length u < 5119"
    "list_all (\<lambda>c. \<not> c_isspace c \<and> \<not> delimiter c) u"
    using assms(1) by (cases t) (auto simp: token_def)
  have c: "c \<noteq> CHR ''(''" "c \<noteq> CHR '')''" "c \<noteq> CHR 0x27" "c \<noteq> CHR 0x60" "c \<noteq> CHR '',''" "c \<noteq> CHR 0x22" "c \<noteq> CHR '';''"
    using t(2) by (auto simp: delimiter_def)
  have "skip (left f) = c # (u @ rest)" using assms(3) t(1) by simp
  then obtain f1 where f1: "siod_flush_ws f (Some ''end of file inside read'') s = (Ret (Some c, f1), s)" "left f1 = u @ rest"
    using c(7) by (rule flush_run)
  obtain f2 where f2: "read_token 5119 [c] f1 = Some ([c] @ u, f2)" "skip (left f2) = skip rest"
    using read_token_run [OF t(5) assms(2) f1(2) t(4)] by blast
  have "siod_lreadr mem rc (Suc k) f s = bindM (siod_lreadtk t) (\<lambda>x. ret (x, f2)) s"
    unfolding siod_lreadr.simps by (subst bindM_Ret, rule f1(1)) (simp add: c t(1,3) f2(1) del: read_token.simps)
  then show ?thesis using f2(2) by blast
qed

text \<open>Strings.\<close>

lemma read_string_run:
  "left f = concat (map quoted_char t) @ CHR 0x22 # rest \<Longrightarrow> length t < k \<Longrightarrow> length buf + length t < 5120 \<Longrightarrow>
   \<exists>f1. read_string k buf f s = (Ret (buf @ t, f1), s) \<and> left f1 = rest"
proof (induction t arbitrary: f k buf)
  case Nil
  then obtain k' where k: "k = Suc k'" by (cases k) auto
  have "left f = CHR 0x22 # rest" using Nil.prems(1) by simp
  then obtain f1 where "GETC_FCN f = (Some (CHR 0x22), f1)" "left f1 = rest" by (rule get_run)
  then show ?case using k by simp
next
  case (Cons c t)
  then obtain k' where k: "k = Suc k'" "length t < k'" by (cases k) auto
  let ?r = "concat (map quoted_char t) @ CHR 0x22 # rest"
  have rest: "\<exists>f3. read_string k' (buf @ [c]) f2 s = (Ret (buf @ c # t, f3), s) \<and> left f3 = rest" if "left f2 = ?r" for f2
    using Cons.IH [OF that k(2), of "buf @ [c]"] Cons.prems(3) by simp
  have room: "\<not> 5120 \<le> length buf + 1" using Cons.prems(3) by simp
  show ?case
  proof (cases "quoted_char c = [c]")
    case True
    then have c: "c \<noteq> CHR 0x22" "c \<noteq> CHR 0x5C" by (auto simp: quoted_char_def)
    have "left f = c # ?r" using Cons.prems(1) True by simp
    then obtain f1 where "GETC_FCN f = (Some c, f1)" "left f1 = ?r" by (rule get_run)
    then show ?thesis using rest [of f1] c room k(1) by simp
  next
    case False
    then obtain d where d: "quoted_char c = [CHR 0x5C, d]" "\<And>g. read_escape d g = ret (c, g)"
      by (auto simp: quoted_char_def read_escape_def split: if_splits)
    have "left f = CHR 0x5C # (d # ?r)" using Cons.prems(1) d(1) by simp
    then obtain f1 where f1: "GETC_FCN f = (Some (CHR 0x5C), f1)" "left f1 = d # ?r" by (rule get_run)
    from f1(2) obtain f2 where f2: "GETC_FCN f1 = (Some d, f2)" "left f2 = ?r" by (rule get_run)
    show ?thesis using rest [OF f2(2)] f1(1) f2(1) d(2) room k(1) by simp
  qed
qed

lemma quoted_length: "length t \<le> length (concat (map quoted_char t))"
  by (induction t) (auto simp: quoted_char_def)

lemma lreadstring_run:
  assumes "left f = concat (map quoted_char t) @ CHR 0x22 # rest" "length t < 5120"
  shows "\<exists>f1. siod_lreadstring f s = bindM (siod_strcons t) (\<lambda>x. ret (x, f1)) s \<and> left f1 = rest"
proof -
  have "length (left f) \<le> length (rd_text f)" using length_cstr_le [of "rd_text f"] by (auto simp: left_def)
  then have "length t < Suc (length (rd_text f))" using assms(1) quoted_length [of t] by simp
  then obtain f1 where 1: "read_string (Suc (length (rd_text f))) [] f s = (Ret (t, f1), s)" "left f1 = rest"
    using read_string_run [OF assms(1), of "Suc (length (rd_text f))" "[]" s] assms(2) by (auto simp del: read_string.simps)
  have "siod_lreadstring f s = bindM (siod_strcons t) (\<lambda>x. ret (x, f1)) s"
    unfolding siod_lreadstring_def by (subst bindM_Ret, rule 1(1)) simp
  then show ?thesis using 1(2) by blast
qed

declare siod_lreadr.simps [simp del] siod_lreadparen.simps [simp del]

section \<open>Expressions\<close>

text \<open>The most cells that reading a representation takes, and the names in it.\<close>

fun cells_of :: "sexp \<Rightarrow> nat" where
  "cells_of Sx_nil = 0"
| "cells_of (Sx_sym p) = 3"
| "cells_of (Sx_cons a d) = Suc (cells_of a + cells_of d)"
| "cells_of _ = 1"

fun names_of :: "sexp \<Rightarrow> string set" where
  "names_of (Sx_sym p) = {p}"
| "names_of (Sx_cons a d) = names_of a \<union> names_of d"
| "names_of _ = {}"

definition may_read :: "siod \<Rightarrow> sexp \<Rightarrow> bool" where
  "may_read s e = (reader_ok s \<and> readable e \<and> (\<forall>p\<in>names_of e. hashable s p) \<and> room (cells_of e) s)"

text \<open>The outcome m of an action reads e: the source goes on with rest.\<close>

definition reads :: "(siod_LISP \<times> readio) outcome \<times> siod \<Rightarrow> siod \<Rightarrow> sexp \<Rightarrow> char list \<Rightarrow> bool" where
  "reads m s e rest = (\<exists>x f' s'. m = (Ret (x, f'), s') \<and> grows (cells_of e) s s' \<and> builds s s' x e \<and> skip (left f') = skip rest)"

lemma readsI:
  "m = (Ret (x, f'), s') \<Longrightarrow> grows (cells_of e) s s' \<Longrightarrow> builds s s' x e \<Longrightarrow> skip (left f') = skip rest \<Longrightarrow> reads m s e rest"
  by (auto simp: reads_def)

lemma read_object:
  assumes "\<exists>x s'. m s = (Ret x, s') \<and> grows (cells_of e) s s' \<and> denotes s' x e" "skip (left f') = skip rest"
    "\<nexists>a d. e = Sx_cons a d"
  shows "reads (bindM m (\<lambda>x. ret (x, f')) s) s e rest"
proof -
  obtain x s' where 1: "m s = (Ret x, s')" "grows (cells_of e) s s'" "denotes s' x e" using assms(1) by blast
  from 1(1) have "bindM m (\<lambda>x. ret (x, f')) s = (Ret (x, f'), s')" by (simp add: bind_run)
  then show ?thesis using 1(2) builds_leaf [OF 1(3,2) assms(3)] assms(2) by (rule readsI)
qed

lemma token_long: "\<bar>i\<bar> < 2 ^ 53 \<Longrightarrow> token (long_digits i)"
  using long_digits_length [of i] long_digits_chars [of _ i] hd_in_set [of "long_digits i"]
  by (auto simp: token_def list_all_iff)

lemma token_no_NUL: "token t \<Longrightarrow> cstr t = t"
  by (rule cstr_id) (auto simp: token_def list_all_iff delimiter_def)

lemma read_atom:
  assumes "may_read s e" "skip (left f) = show_sexp e @ rest" "stops rest" "\<nexists>a d. e = Sx_cons a d" "e \<noteq> Sx_nil"
  shows "reads (siod_lreadr mem rc (Suc k) f s) s e rest"
proof -
  have s: "wf_state s" "symtab_ok s" using assms(1) by (simp_all add: may_read_def reader_ok_def)
  show ?thesis
  proof (cases e)
    case (Sx_num i)
    then have i: "\<bar>i\<bar> < 2 ^ 53" "room 1 s" using assms(1) by (simp_all add: may_read_def)
    obtain f2 where f2: "siod_lreadr mem rc (Suc k) f s = bindM (siod_lreadtk (long_digits i)) (\<lambda>x. ret (x, f2)) s"
      "skip (left f2) = skip rest"
      using token_run [OF token_long [OF i(1)] assms(3)] assms(2) Sx_num by (metis show_sexp.simps(2))
    have tk: "siod_lreadtk (long_digits i) = siod_flocons (of_long i)"
      using token_no_NUL [OF token_long [OF i(1)]] i(1) by (simp add: siod_lreadtk_def long_digits_token atof_long_digits)
    show ?thesis unfolding f2(1) tk using f2(2)
      by (rule read_object [rotated]) (use read_num [OF s i(2,1)] Sx_num in simp_all)
  next
    case (Sx_sym p)
    then have p: "plain_name p" "room 3 s" "hashable s p" using assms(1) by (simp_all add: may_read_def)
    then have t: "token p" "\<not> number_token p" by (simp_all add: plain_name_def token_def)
    obtain f2 where f2: "siod_lreadr mem rc (Suc k) f s = bindM (siod_lreadtk p) (\<lambda>x. ret (x, f2)) s"
      "skip (left f2) = skip rest"
      using token_run [OF t(1) assms(3)] assms(2) Sx_sym by (metis show_sexp.simps(3))
    have tk: "siod_lreadtk p = siod_rintern p"
      using token_no_NUL [OF t(1)] t(2) by (simp add: siod_lreadtk_def)
    show ?thesis unfolding f2(1) tk using f2(2)
      by (rule read_object [rotated]) (use read_sym [OF s p(2,3)] Sx_sym in simp_all)
  next
    case (Sx_str t)
    then have t: "length t < 5120" "room 1 s" using assms(1) by (simp_all add: may_read_def)
    have "skip (left f) = CHR 0x22 # (concat (map quoted_char t) @ CHR 0x22 # rest)" using assms(2) Sx_str by simp
    then obtain f1 where f1: "siod_flush_ws f (Some ''end of file inside read'') s = (Ret (Some (CHR 0x22), f1), s)"
      "left f1 = concat (map quoted_char t) @ CHR 0x22 # rest" by (rule flush_run) simp
    obtain f2 where f2: "siod_lreadstring f1 s = bindM (siod_strcons t) (\<lambda>x. ret (x, f2)) s" "left f2 = rest"
      using lreadstring_run [OF f1(2) t(1)] by blast
    have "siod_lreadr mem rc (Suc k) f s = siod_lreadstring f1 s"
      unfolding siod_lreadr.simps by (subst bindM_Ret, rule f1(1)) simp
    then show ?thesis unfolding f2(1)
      by (metis read_object read_str [OF s t(2)] Sx_str cells_of.simps(5) f2(2) assms(4))
  qed (use assms(4,5) in auto)
qed

lemma read_dot:
  assumes "reader_ok s" "skip (left f) = CHR ''.'' # rest" "stops rest"
  shows "\<exists>f2. siod_lreadr mem rc (Suc k) f s = (Ret (sym_dot s, f2), s) \<and> skip (left f2) = skip rest"
proof -
  have t: "token ''.''" "\<not> number_token ''.''"
    by (simp_all add: token_def c_isspace_def delimiter_def number_token_def split_digits_def c_isdigit_def)
  obtain f2 where f2: "siod_lreadr mem rc (Suc k) f s = bindM (siod_lreadtk ''.'') (\<lambda>x. ret (x, f2)) s"
    "skip (left f2) = skip rest" using token_run [OF t(1) assms(3), of f mem rc k s] assms(2) by auto
  have h: "hashable s ''.''" "table s ''.'' = Some (sym_dot s)"
    using assms(1) by (auto simp: reader_ok_def table_def split: if_splits)
  have "siod_lreadtk ''.'' = siod_rintern ''.''" using token_no_NUL [OF t(1)] t(2) by (simp add: siod_lreadtk_def)
  moreover have "siod_rintern ''.'' s = (Ret (sym_dot s), s)"
    using intern_table [OF _ _ h(1)] h(2) assms(1) by (simp add: siod_rintern_def reader_ok_def)
  ultimately show ?thesis using f2 by (simp add: bind_run)
qed


lemma is_space [simp]:
  "c_isspace (CHR '' '')" "\<not> c_isspace (CHR '')'')" "\<not> c_isspace (CHR ''('')" "\<not> c_isspace (CHR ''.'')"
  "\<not> c_isspace (CHR 0x22)"
  by (simp_all add: c_isspace_def)

lemma show_start:
  assumes "readable e"
  obtains c r where "show_sexp e = c # r" "\<not> c_isspace c" "c \<noteq> CHR '';''" "c \<noteq> CHR '')''"
proof (cases e)
  case (Sx_num i)
  then show ?thesis using token_long [of i] assms that by (cases "long_digits i") (auto simp: token_def delimiter_def)
next
  case (Sx_sym p)
  then show ?thesis using assms that by (cases p) (auto simp: plain_name_def delimiter_def)
qed (use that in \<open>simp_all\<close>)

lemma skip_show: "readable e \<Longrightarrow> skip (show_sexp e @ rest) = show_sexp e @ rest"
  by (erule show_start) simp

lemma stops_tail: "stops (show_tail d @ '')'' @ rest)"
  by (cases d) (simp_all add: stops_def delimiter_def)

lemma may_read_grows:
  "may_read s e \<Longrightarrow> grows n s s' \<Longrightarrow> room (n + cells_of e) s \<Longrightarrow> may_read s' e"
  by (auto simp: may_read_def grows_ok grows_hashable grows_room)

lemma denotes_ref_ok: "denotes s x e \<Longrightarrow> ref_ok s x"
  by (cases e) (auto simp: denotes_def obj_at_def ref_ok_def split: siod_LISP.splits if_splits)

lemma denotes_not_dot:
  assumes "reader_ok s" "denotes s x e" "readable e"
  shows "x \<noteq> sym_dot s"
proof -
  obtain v where "obj_at s (sym_dot s) = Some (Tc_symbol ''.'' v)"
    using assms(1) table_symbol [of s "''.''" "sym_dot s"] by (auto simp: reader_ok_def)
  then show ?thesis using assms(2,3) by (cases e) (auto simp: denotes_def plain_name_def string_cell_def obj_at_def)
qed

lemma lreadparen_steps:
  assumes "skip (left f) = c # r" "c \<noteq> CHR '';''"
  shows "c = CHR '')'' \<Longrightarrow> \<exists>f1. siod_lreadparen mem rc (Suc k) f s = (Ret (NIL, f1), s) \<and> left f1 = r"
    and "c \<noteq> CHR '')'' \<Longrightarrow> \<exists>f1. left f1 = c # r \<and> (\<forall>x f2 s2. siod_lreadr mem rc k f1 s = (Ret (x, f2), s2) \<longrightarrow>
      siod_lreadparen mem rc (Suc k) f s =
       (if x = sym_dot s2 then bindM (siod_lreadr mem rc k f2) (\<lambda>(tmp, f3).
         bindM (siod_flush_ws f3 (Some ''end of file inside list'')) (\<lambda>(c, f4).
         if c \<noteq> Some (CHR '')'') then errm ''missing close paren'' NIL else ret (tmp, f4))) s2
       else bindM (siod_lreadparen mem rc k f2) (\<lambda>(d, f3). bindM (siod_cons x d) (\<lambda>r. ret (r, f3))) s2))"
proof -
  obtain f1 where f1: "siod_flush_ws f (Some ''end of file inside list'') s = (Ret (Some c, f1), s)" "left f1 = r"
      "left (UNGETC_FCN (Some c) f1) = c # r"
    using assms by (rule flush_run)
  show "c = CHR '')'' \<Longrightarrow> \<exists>f1. siod_lreadparen mem rc (Suc k) f s = (Ret (NIL, f1), s) \<and> left f1 = r"
    unfolding siod_lreadparen.simps by (subst bindM_Ret, rule f1(1)) (simp add: f1(2))
  show "c \<noteq> CHR '')'' \<Longrightarrow> \<exists>f1. left f1 = c # r \<and> (\<forall>x f2 s2. siod_lreadr mem rc k f1 s = (Ret (x, f2), s2) \<longrightarrow>
      siod_lreadparen mem rc (Suc k) f s =
       (if x = sym_dot s2 then bindM (siod_lreadr mem rc k f2) (\<lambda>(tmp, f3).
         bindM (siod_flush_ws f3 (Some ''end of file inside list'')) (\<lambda>(c, f4).
         if c \<noteq> Some (CHR '')'') then errm ''missing close paren'' NIL else ret (tmp, f4))) s2
       else bindM (siod_lreadparen mem rc k f2) (\<lambda>(d, f3). bindM (siod_cons x d) (\<lambda>r. ret (r, f3))) s2))"
    unfolding siod_lreadparen.simps
    by (subst bindM_Ret, rule f1(1), rule exI [of _ "UNGETC_FCN (Some c) f1"]) (auto simp: bind_run f1(3))
qed

lemma paren_nil:
  assumes "may_read s Sx_nil" "skip (left f) = CHR '')'' # rest"
  shows "reads (siod_lreadparen mem rc (Suc k) f s) s Sx_nil rest"
proof -
  obtain f1 where "siod_lreadparen mem rc (Suc k) f s = (Ret (NIL, f1), s)" "left f1 = rest"
    using lreadparen_steps(1) [OF assms(2), of mem rc k s] by auto
  then show ?thesis
    using assms(1) by (auto intro!: readsI grows_refl simp: builds_def may_read_def reader_ok_def)
qed

lemma paren_atom:
  assumes "may_read s e" "skip (left f) = skip (show_tail e @ '')'' @ rest)" "\<nexists>a d. e = Sx_cons a d" "e \<noteq> Sx_nil"
  shows "reads (siod_lreadparen mem rc (Suc (Suc k)) f s) s e rest"
proof -
  have r: "readable e" and o: "reader_ok s" using assms(1) by (simp_all add: may_read_def)
  have "skip (left f) = skip ('' . '' @ show_sexp e @ '')'' @ rest)"
    using assms(2-4) by (cases e) auto
  then have f: "skip (left f) = CHR ''.'' # '' '' @ show_sexp e @ '')'' @ rest" by simp
  obtain f1 where f1: "left f1 = CHR ''.'' # '' '' @ show_sexp e @ '')'' @ rest"
    "\<And>x f2 s2. siod_lreadr mem rc (Suc k) f1 s = (Ret (x, f2), s2) \<Longrightarrow>
      siod_lreadparen mem rc (Suc (Suc k)) f s =
       (if x = sym_dot s2 then bindM (siod_lreadr mem rc (Suc k) f2) (\<lambda>(tmp, f3).
         bindM (siod_flush_ws f3 (Some ''end of file inside list'')) (\<lambda>(c, f4).
         if c \<noteq> Some (CHR '')'') then errm ''missing close paren'' NIL else ret (tmp, f4))) s2
       else bindM (siod_lreadparen mem rc (Suc k) f2) (\<lambda>(d, f3). bindM (siod_cons x d) (\<lambda>r. ret (r, f3))) s2)"
    using lreadparen_steps(2) [OF f] by fastforce
  have "skip (left f1) = CHR ''.'' # ('' '' @ show_sexp e @ '')'' @ rest)" unfolding f1(1) by simp
  moreover have "stops ('' '' @ show_sexp e @ '')'' @ rest)" by (simp add: stops_def)
  ultimately obtain f2 where f2: "siod_lreadr mem rc (Suc k) f1 s = (Ret (sym_dot s, f2), s)"
    "skip (left f2) = skip ('' '' @ show_sexp e @ '')'' @ rest)"
    using read_dot [OF o, of f1] by meson
  then have f3: "skip (left f2) = show_sexp e @ ('')'' @ rest)"
    using skip_show [OF r, of "'')'' @ rest"] by simp
  obtain x f4 s2 where 4: "siod_lreadr mem rc (Suc k) f2 s = (Ret (x, f4), s2)" "grows (cells_of e) s s2" "builds s s2 x e"
    "skip (left f4) = skip ('')'' @ rest)"
    using read_atom [OF assms(1) f3 _ assms(3,4), of mem rc k] by (auto simp: reads_def stops_def delimiter_def)
  have "skip (left f4) = CHR '')'' # rest" using 4(4) by simp
  then obtain f5 where 5: "siod_flush_ws f4 (Some ''end of file inside list'') s2 = (Ret (Some (CHR '')''), f5), s2)"
    "left f5 = rest" by (rule flush_run) simp
  have "siod_lreadparen mem rc (Suc (Suc k)) f s = (Ret (x, f5), s2)"
    unfolding f1(2) [OF f2(1)] using 4(1) 5(1) by (simp add: bind_run)
  then show ?thesis using 4(2,3) 5(2) by (auto intro: readsI)
qed

lemma paren_cons:
  assumes A: "\<And>s f rest. may_read s a \<Longrightarrow> skip (left f) = show_sexp a @ rest \<Longrightarrow> stops rest \<Longrightarrow>
      reads (siod_lreadr mem rc k f s) s a rest"
    and D: "\<And>s f. may_read s d \<Longrightarrow> skip (left f) = skip (show_tail d @ '')'' @ rest) \<Longrightarrow>
      reads (siod_lreadparen mem rc k f s) s d rest"
    and r: "may_read s (Sx_cons a d)" "skip (left f) = show_sexp a @ show_tail d @ '')'' @ rest"
  shows "reads (siod_lreadparen mem rc (Suc k) f s) s (Sx_cons a d) rest"
proof -
  have ra: "readable a" "may_read s a" "may_read s d" using r(1) by (auto simp: may_read_def room_def)
  obtain c u where c: "show_sexp a = c # u" "\<not> c_isspace c" "c \<noteq> CHR '';''" "c \<noteq> CHR '')''" using ra(1) by (rule show_start)
  have "skip (left f) = c # (u @ show_tail d @ '')'' @ rest)" using r(2) c(1) by simp
  from lreadparen_steps(2) [OF this c(3,4), of mem rc k s] obtain f1 where
    f1: "left f1 = show_sexp a @ show_tail d @ '')'' @ rest"
    "\<And>x f2 s2. siod_lreadr mem rc k f1 s = (Ret (x, f2), s2) \<Longrightarrow> x \<noteq> sym_dot s2 \<Longrightarrow>
      siod_lreadparen mem rc (Suc k) f s =
        bindM (siod_lreadparen mem rc k f2) (\<lambda>(d, f3). bindM (siod_cons x d) (\<lambda>r. ret (r, f3))) s2"
    using c(1) by auto
  have "skip (left f1) = show_sexp a @ (show_tail d @ '')'' @ rest)" unfolding f1(1) by (rule skip_show [OF ra(1)])
  from A [OF ra(2) this stops_tail] obtain xa f2 s1 where
    1: "siod_lreadr mem rc k f1 s = (Ret (xa, f2), s1)" "grows (cells_of a) s s1" "builds s s1 xa a"
      "skip (left f2) = skip (show_tail d @ '')'' @ rest)"
    by (auto simp: reads_def)
  have "may_read s1 d" using may_read_grows [OF ra(3) 1(2)] r(1) by (auto simp: may_read_def room_def)
  from D [OF this 1(4)] obtain xd f3 s2 where
    2: "siod_lreadparen mem rc k f2 s1 = (Ret (xd, f3), s2)" "grows (cells_of d) s1 s2" "builds s1 s2 xd d"
      "skip (left f3) = skip rest"
    by (auto simp: reads_def)
  have g: "grows (cells_of a + cells_of d) s s2" using 1(2) 2(2) by (rule grows_trans)
  have a2: "builds s s2 xa a" "builds s s2 xd d" using 1(3) 2(2) builds_grows 2(3) 1(2) builds_from by blast+
  have "room (cells_of a + cells_of d + 1) s" using r(1) by (simp add: may_read_def)
  with g have "room 1 s2" by (rule grows_room)
  moreover have "wf_state s2" "symtab_ok s2" using g by (simp_all add: grows_def)
  ultimately obtain x s3 where
    3: "siod_cons xa xd s2 = (Ret x, s3)" "grows 1 s2 s3" "builds s s3 x (Sx_cons a d)"
    using read_cons [OF _ _ _ a2 _ _ g] denotes_ref_ok a2 builds_denotes by blast
  have "xa \<noteq> sym_dot s1" using 1(2) builds_denotes [OF 1(3)] ra(1) r(1) denotes_not_dot grows_ok unfolding may_read_def by blast
  from f1(2) [OF 1(1) this] have "siod_lreadparen mem rc (Suc k) f s = (Ret (x, f3), s3)"
    using 2(1) 3(1) by (simp add: bind_run)
  moreover have "grows (cells_of (Sx_cons a d)) s s3" using grows_trans [OF g 3(2)] by simp
  ultimately show ?thesis using 3(3) 2(4) by (rule readsI)
qed

text \<open>A list is read from its parenthesis.\<close>

lemma read_open:
  assumes "skip (left f) = CHR ''('' # r"
  shows "\<exists>f1. siod_lreadr mem rc (Suc k) f s = siod_lreadparen mem rc k f1 s \<and> left f1 = r"
proof -
  obtain f1 where f1: "siod_flush_ws f (Some ''end of file inside read'') s = (Ret (Some (CHR ''(''), f1), s)" "left f1 = r"
    using assms by (rule flush_run) simp
  show ?thesis unfolding siod_lreadr.simps by (subst bindM_Ret, rule f1(1)) (auto simp: f1(2))
qed

lemma read_leaf:
  assumes "may_read s e" "skip (left f) = show_sexp e @ rest" "stops rest" "steps e \<le> k"
    "\<nexists>a d. e = Sx_cons a d" "e \<noteq> Sx_nil"
  shows "reads (siod_lreadr mem rc k f s) s e rest"
proof -
  obtain k' where "k = Suc k'" using assms(4) steps_pos [of e] by (cases k) auto
  then show ?thesis using read_atom [OF assms(1-3,5,6)] by simp
qed

lemma paren_leaf:
  assumes "may_read s e" "skip (left f) = skip (show_tail e @ '')'' @ rest)" "steps e \<le> k"
    "\<nexists>a d. e = Sx_cons a d" "e \<noteq> Sx_nil"
  shows "reads (siod_lreadparen mem rc k f s) s e rest"
proof -
  obtain k' where "k = Suc (Suc k')" using assms(3) steps_pos [of e] by (cases k; cases "k - 1") auto
  then show ?thesis using paren_atom [OF assms(1,2,4,5)] by simp
qed

lemma read_sexp:
  "may_read s e \<Longrightarrow> skip (left f) = show_sexp e @ rest \<Longrightarrow> stops rest \<Longrightarrow> steps e \<le> k \<Longrightarrow>
     reads (siod_lreadr mem rc k f s) s e rest"
  "may_read s e \<Longrightarrow> skip (left f) = skip (show_tail e @ '')'' @ rest) \<Longrightarrow> steps e \<le> k \<Longrightarrow>
     reads (siod_lreadparen mem rc k f s) s e rest"
proof (induction e arbitrary: s f rest k)
  case Sx_nil
  {
    case 1
    then obtain k' where k: "k = Suc (Suc k')" by (cases k; cases "k - 1") auto
    obtain f1 where "siod_lreadr mem rc k f s = siod_lreadparen mem rc (Suc k') f1 s" "left f1 = CHR '')'' # rest"
      using read_open [of f "CHR '')'' # rest" mem rc "Suc k'" s] 1(2) k by auto
    then show ?case using paren_nil [OF 1(1)] by simp
  next
    case 2
    then obtain k' where "k = Suc k'" by (cases k) auto
    then show ?case using paren_nil [OF 2(1)] 2(2) by simp
  }
next
  case (Sx_cons a d)
  have tail: "reads (siod_lreadparen mem rc (Suc k) f s) s (Sx_cons a d) rest"
    if "may_read s (Sx_cons a d)" "skip (left f) = show_sexp a @ show_tail d @ '')'' @ rest" "steps a + steps d \<le> k"
    for s f rest k
    using that by (intro paren_cons Sx_cons.IH(1) Sx_cons.IH(4)) auto
  {
    case 1
    then obtain k' where k: "k = Suc (Suc k')" "steps a + steps d \<le> k'"
      by (cases k; cases "k - 1") auto
    obtain f1 where f1: "siod_lreadr mem rc k f s = siod_lreadparen mem rc (Suc k') f1 s"
      "left f1 = show_sexp a @ show_tail d @ '')'' @ rest"
      using read_open [of f "show_sexp a @ show_tail d @ '')'' @ rest" mem rc "Suc k'" s] 1(2) k by auto
    have "skip (left f1) = show_sexp a @ show_tail d @ '')'' @ rest"
      unfolding f1(2) by (rule skip_show) (use 1(1) in \<open>simp add: may_read_def\<close>)
    from tail [OF 1(1) this k(2)] show ?case unfolding f1(1) .
  next
    case 2
    then obtain k' where k: "k = Suc k'" "steps a + steps d \<le> k'" by (cases k) auto
    have "skip (left f) = skip (show_sexp a @ (show_tail d @ '')'' @ rest))" using 2(2) by simp
    also have "\<dots> = show_sexp a @ show_tail d @ '')'' @ rest"
      by (rule skip_show) (use 2(1) in \<open>simp add: may_read_def\<close>)
    finally show ?case unfolding k(1) using tail [OF 2(1) _ k(2)] by blast
  }
qed (rule read_leaf paren_leaf, assumption+, simp, simp)+

end
