(* ===== verification/Round_Trip.thy ===== *)
theory Round_Trip
  imports Read_Facts
begin

text \<open>
  Printing an object to a string and reading it back gives an object that equal cannot tell from it.
\<close>

section \<open>Equality of representations\<close>

lemma sym_t_not_NIL: "wf_state s \<Longrightarrow> sym_t s \<noteq> NIL"
  by (auto simp: wf_state_def symbol_at_def obj_at_def)

lemma denotes_equal:
  assumes "wf_state s"
  shows "readable e \<Longrightarrow> denotes s x e \<Longrightarrow> denotes s y e \<Longrightarrow> steps e \<le> k \<Longrightarrow> siod_equal k x y s = (Ret (sym_t s), s)"
proof (induction e arbitrary: x y k)
  case (Sx_cons a d)
  then obtain k' where k: "k = Suc k'" "steps a \<le> k'" "steps d \<le> k'" by (cases k) auto
  obtain xa xd ya yd where c: "obj_at s x = Some (Tc_cons xa xd)" "obj_at s y = Some (Tc_cons ya yd)"
    "denotes s xa a" "denotes s ya a" "denotes s xd d" "denotes s yd d"
    using Sx_cons.prems by (auto simp: denotes_def)
  show ?case
    using Sx_cons.IH(1) [OF _ c(3,4) k(2)] Sx_cons.IH(2) [OF _ c(5,6) k(3)] Sx_cons.prems(1) c(1,2) k(1)
      sym_t_not_NIL [OF assms]
    by (auto simp: equal_objects_def bind_run obj_at_look gets_def)
next
  case (Sx_num i)
  then show ?case using deq_of_long [of i i]
    by (cases k) (auto simp: denotes_def equal_objects_def bind_run obj_at_look answer_def gets_def)
next
  case (Sx_str t)
  then show ?case
    by (cases k) (auto simp: denotes_def equal_objects_def bind_run obj_at_look answer_def gets_def string_cell_def
        array_type_def siod_array_siod_equal_def)
next
  case Sx_nil
  then show ?case by (cases k) (auto simp: denotes_def gets_def)
next
  case (Sx_sym p)
  then show ?case by (cases k) (auto simp: denotes_def gets_def)
qed

section \<open>The store of a string\<close>

lemma list_seg_string_cell:
  "list_seg s r as xs e \<Longrightarrow> cells s ! a = Tc_string n d \<Longrightarrow> s' = set_cell a (Tc_string n d') s \<Longrightarrow> list_seg s' r as xs e"
proof (induction as arbitrary: r xs)
  case (Cons b as)
  then have "a \<noteq> b" by (auto simp: list_seg_Cons)
  then show ?case using Cons by (auto simp: list_seg_Cons set_cell_def)
qed simp

lemma string_store_table:
  assumes "wf_state s" "symtab_ok s" "cells s ! a = Tc_string n d" "s' = set_cell a (Tc_string n d') s"
  shows "symtab_ok s'" "table s' = table s"
proof -
  have g: "obarray s' = obarray s" "obarray_dim s' = obarray_dim s" "oblistvar s' = oblistvar s"
    by (simp_all add: assms(4) set_cell_def)
  have l: "list_on s' l as xs" if "list_on s l as xs" for l as xs
    using that assms(3) by (rule list_seg_string_cell [OF _ _ assms(4)])
  have o: "obj_at s' x = obj_at s x" if "symbol_at s x" for x
  proof (cases "x = Ref a")
    case True
    then show ?thesis using symbol_at_cases [OF that] assms(3) by (auto simp: obj_at_def split: if_splits)
  qed (cases x; simp add: obj_at_def assms(4) set_cell_def)
  have "symbol_at s' x = symbol_at s x" "names_in s' p x = names_in s p x" if "symbol_at s x" for x p
    using o [OF that] by (simp_all add: symbol_at_def names_in_def)
  then show "symtab_ok s'" "table s' = table s" using l by (intro table_same [OF assms(1,2) g]; blast)+
qed

section \<open>Round trip\<close>

lemma rep_names: "rep ok (\<lambda>p y. table s p = Some y) s x e \<Longrightarrow> p \<in> names_of e \<Longrightarrow> hashable s p"
  by (induction e arbitrary: x) (auto simp: table_def split: if_splits)

text \<open>Reading a representation from a string.\<close>

lemma read_string_sexp:
  assumes "may_read s e" "obj_at s str = Some (Tc_string n d)" "cstr d = show_sexp e" "steps e \<le> k"
  shows "\<exists>y s'. siod_read_from_string mem rc k str s = (Ret y, s') \<and> grows (cells_of e) s s' \<and> denotes s' y e"
proof -
  let ?f = "\<lparr>rd_text = show_sexp e, rd_pos = 0, rd_file = False\<rparr>"
  have r: "readable e" using assms(1) by (simp add: may_read_def)
  obtain c u where c: "show_sexp e = c # u" "\<not> c_isspace c" "c \<noteq> CHR '';''" using r by (rule show_start)
  have "cstr (show_sexp e) = show_sexp e" using show_no_NUL [OF r] by (intro cstr_id) simp
  then have "skip (left ?f) = c # u" by (simp add: left_def c)
  then obtain f1 where f1: "siod_flush_ws ?f None s = (Ret (Some c, f1), s)" "left (UNGETC_FCN (Some c) f1) = c # u"
    using c(3) by (rule flush_run)
  have "skip (left (UNGETC_FCN (Some c) f1)) = show_sexp e @ []" unfolding f1(2) by (simp add: c)
  from read_sexp(1) [OF assms(1) this _ assms(4), of mem rc] obtain y f2 s' where
    1: "siod_lreadr mem rc k (UNGETC_FCN (Some c) f1) s = (Ret (y, f2), s')" "grows (cells_of e) s s'" "denotes s' y e"
    by (auto simp: reads_def stops_def dest: builds_denotes)
  have "siod_readtl mem rc k ?f s = (Ret (y, f2), s')"
    unfolding siod_readtl_def using f1(1) 1(1) by (simp add: bind_run)
  then have "siod_read_from_string mem rc k str s = (Ret y, s')"
    using assms(2,3) by (simp add: siod_read_from_string_def get_c_string_def bind_run obj_at_look)
  then show ?thesis using 1(2,3) by blast
qed

text \<open>Printing a representation to a string.\<close>

lemma print_string_sexp:
  assumes "wf_state s" "symtab_ok s" "readable e" "rep (\<lambda>y. y \<noteq> str) (\<lambda>p y. table s p = Some y) s x e" "steps e \<le> k"
    "obj_at s str = Some (Tc_string n d)" "length (show_sexp e) \<le> n" "n < length d"
  shows "\<exists>a d'. str = Ref a \<and> a < length (cells s) \<and> cells s ! a = Tc_string n d \<and> cstr d' = show_sexp e \<and>
    siod_print_to_string lib k x str NIL s = (Ret str, set_cell a (Tc_string n d') s)"
proof -
  obtain a where a: "str = Ref a" "a < length (cells s)" "cells s ! a = Tc_string n d"
    using assms(6) by (auto simp: obj_at_def split: siod_LISP.splits if_splits)
  let ?d = "d[0 := NUL]" let ?s = "set_cell a (Tc_string n ?d) s"
  have d: "d \<noteq> []" "cstr ?d = []" "NUL \<in> set ?d" using assms(8) by (cases d; simp add: cstr_def)+
  have n: "NUL \<notin> set (show_sexp e)" using show_no_NUL [OF assms(3)] by simp
  have "obj_at ?s str = Some (Tc_string n ?d)" using a by (simp add: obj_at_def set_cell_def)
  then have fits: "string_fits str (length (show_sexp e)) ?s"
    using d assms(7,8) by (simp add: string_fits_def)
  have "rep (\<lambda>y. y \<noteq> str) (\<lambda>p y. table s p = Some y) ?s x e"
    using assms(4) by (rule rep_mono) (use a in \<open>auto simp: obj_at_def set_cell_def split: siod_LISP.splits if_splits\<close>)
  from string_sink.lprin1g_run [OF assms(3) this assms(5) fits]
  have p: "siod_lprin1g lib k (siod_ptsiod_s_puts str) x ?s = (Ret (), string_put str (show_sexp e) ?s)" .
  obtain d' where d': "string_put str (show_sexp e) ?s = set_cell a (Tc_string n d') ?s" "cstr d' = show_sexp e"
    using string_put_run [OF fits n] a d(2) by (auto simp: set_cell_def)
  have "siod_print_to_string lib k x str NIL s = (Ret str, set_cell a (Tc_string n d') s)"
    using a d(1) p d'(1) by (simp add: siod_print_to_string_def bind_run obj_at_look assms(6) store_def set_cell_def)
  then show ?thesis using a d'(2) by blast
qed

text \<open>
  C10. Printing a list structure of integers, strings and symbols to a string that has room for it, and reading it
  back from there: print-to-string and read-from-string return, the object that is read has the same
  representation, and equal finds it equal to the one that was printed, which itself has not changed.
\<close>

theorem print_read_roundtrip:
  assumes "reader_ok s" "readable e" "rep (\<lambda>y. y \<noteq> str) (\<lambda>p y. table s p = Some y) s x e"
    "obj_at s str = Some (Tc_string n d)" "length (show_sexp e) \<le> n" "n < length d"
    "steps e \<le> k" "room (cells_of e) s"
  shows "\<exists>s1 y s2. siod_print_to_string lib k x str NIL s = (Ret str, s1) \<and>
    siod_read_from_string mem rc k str s1 = (Ret y, s2) \<and> denotes s2 x e \<and> denotes s2 y e \<and>
    siod_equal k x y s2 = (Ret (sym_t s2), s2)"
proof -
  have s: "wf_state s" "symtab_ok s" using assms(1) by (simp_all add: reader_ok_def)
  obtain a d' where 1: "str = Ref a" "a < length (cells s)" "cells s ! a = Tc_string n d" "cstr d' = show_sexp e"
    "siod_print_to_string lib k x str NIL s = (Ret str, set_cell a (Tc_string n d') s)"
    using print_string_sexp [OF s assms(2,3,7,4,5,6)] by blast
  let ?s = "set_cell a (Tc_string n d') s"
  have "ref_ok s x" using denotes_ref_ok [of s x e] rep_mono [OF assms(3)] by (auto simp: denotes_def)
  then have w: "wf_state ?s"
    using okM_Ret [OF ok_print_to_string s(1) 1(5)] 1(1,2) by (simp add: ref_ok_def)
  have t: "symtab_ok ?s" "table ?s = table s"
    using string_store_table [OF s 1(3) refl] .
  have str: "obj_at ?s str = Some (Tc_string n d')" using 1(1,2) by (simp add: obj_at_def set_cell_def)
  have x: "denotes ?s x e"
    unfolding denotes_def t(2) using assms(3)
    by (rule rep_mono) (use 1 in \<open>auto simp: obj_at_def set_cell_def split: siod_LISP.splits if_splits\<close>)
  then have "may_read ?s e"
    using rep_names [of _ ?s x e] assms(1,2,8) w t by (auto simp: may_read_def reader_ok_def room_def denotes_def set_cell_def)
  from read_string_sexp [OF this str 1(4) assms(7), of mem rc] obtain y s2 where
    2: "siod_read_from_string mem rc k str ?s = (Ret y, s2)" "grows (cells_of e) ?s s2" "denotes s2 y e" by blast
  have "wf_state s2" "denotes s2 x e" using 2(2) denotes_grows [OF x 2(2)] by (simp_all add: grows_def)
  then show ?thesis using 1(5) 2(1,3) denotes_equal [OF _ assms(2) _ 2(3) assms(7)] by blast
qed


text \<open>A state with the symbols of the dot and of ab, the list of ab and a string, and a buffer of twenty characters.\<close>

definition trip_state :: siod where
  "trip_state = (small_state [Tc_symbol ''.'' NIL, Tc_symbol ''ab'' NIL, Tc_cons (Ref 1) (Ref 4), Tc_cons (Ref 2) NIL,
     string_cell ''x'', Tc_cons (Ref 5) NIL, Tc_cons (Ref 2) (Ref 6), Tc_string 20 (replicate 21 NUL)])
     \<lparr>oblistvar := Ref 3, sym_dot := Ref 1\<rparr>"

lemma two_symbols_ok:
  assumes "wf_state s" "obarray_dim s = 1" "oblistvar s = Ref 3" "list_on s (Ref 3) [3, 4] [Ref 1, Ref 2]"
    "obj_at s (Ref 1) = Some (Tc_symbol ''.'' v)" "obj_at s (Ref 2) = Some (Tc_symbol ''ab'' w)" "sym_dot s = Ref 1"
  shows "reader_ok s" "table s ''ab'' = Some (Ref 2)"
proof -
  have y: "list_all (symbol_at s) [Ref 1, Ref 2]" using assms(5,6) by (simp add: symbol_at_def)
  have "(if 1 < obarray_dim s then set (obarray s) else {oblistvar s}) = {Ref 3}" using assms(2,3) by simp
  then have t: "symtab_ok s"
    unfolding symtab_ok_def using assms(4) y by (simp only: ball_simps) blast
  have "table s p = List.find (names_in s p) [Ref 1, Ref 2]" for p
  proof -
    have b: "hashable s p" "bucket_of s p = Ref 3" using assms(2,3) by (simp_all add: hashable_def bucket_of_def)
    show ?thesis
      using bucket_list [OF assms(1) t b(1)] list_on_unique [OF assms(4)] unfolding b(2) by metis
  qed
  then have "table s ''ab'' = Some (Ref 2)" "table s ''.'' = Some (sym_dot s)"
    using assms(5-7) by (simp_all add: names_in_def)
  then show "reader_ok s" "table s ''ab'' = Some (Ref 2)"
    using assms(1) t by (simp_all add: reader_ok_def)
qed

lemma trip_state_ok: "reader_ok trip_state" "table trip_state ''ab'' = Some (Ref 2)"
proof -
  have "wf_state trip_state"
    by (simp add: trip_state_def wf_state_def refs_ok_def inums_ok_def obarray_ok_def small_state_def symbol_at_def
      obj_at_def ref_ok_def globals_def constants_def string_cell_def)
  then show "reader_ok trip_state" "table trip_state ''ab'' = Some (Ref 2)"
    by (rule two_symbols_ok; simp add: trip_state_def small_state_def obj_at_def)+
qed

theorem print_read_roundtrip_witness:
  "\<forall>lib mem rc. \<exists>s1 y s2. siod_print_to_string lib 12 (Ref 7) (Ref 8) NIL trip_state = (Ret (Ref 8), s1) \<and>
     siod_read_from_string mem rc 12 (Ref 8) s1 = (Ret y, s2) \<and>
     denotes s2 y (Sx_cons (Sx_sym ''ab'') (Sx_cons (Sx_str ''x'') Sx_nil))"
proof (intro allI)
  fix lib mem rc
  let ?e = "Sx_cons (Sx_sym ''ab'') (Sx_cons (Sx_str ''x'') Sx_nil)"
  have 1: "readable ?e"
    by (simp add: plain_name_def c_isspace_def delimiter_def number_token_def split_digits_def c_isdigit_def)
  have 2: "rep (\<lambda>y. y \<noteq> Ref 8) (\<lambda>p y. table trip_state p = Some y) trip_state (Ref 7) ?e"
    using trip_state_ok(2) by (simp add: trip_state_def small_state_def obj_at_def)
  have 3: "obj_at trip_state (Ref 8) = Some (Tc_string 20 (replicate 21 NUL))"
    by (simp add: trip_state_def small_state_def obj_at_def)
  have 4: "length (show_sexp ?e) \<le> 20" "20 < length (replicate 21 NUL)" "steps ?e \<le> 12" by (simp_all add: quoted_char_def)
  have 5: "room (cells_of ?e) trip_state" by (simp add: room_def trip_state_def small_state_def)
  show "\<exists>s1 y s2. siod_print_to_string lib 12 (Ref 7) (Ref 8) NIL trip_state = (Ret (Ref 8), s1) \<and>
     siod_read_from_string mem rc 12 (Ref 8) s1 = (Ret y, s2) \<and> denotes s2 y ?e"
    using print_read_roundtrip [OF trip_state_ok(1) 1 2 3 4 5] by blast
qed

end
