(* ===== verification/Repl_Facts.thy ===== *)
theory Repl_Facts
  imports Repl Round_Trip
begin

text \<open>
  The loop on a string: reading, evaluating and printing one expression, and what happens when the evaluation
  ends in an error.
\<close>

section \<open>The output buffer as a sink\<close>

definition rcsp_put :: "string \<Rightarrow> siod \<Rightarrow> siod" where
  "rcsp_put t s = (case repl_c_string_out s of None \<Rightarrow> s
     | Some b \<Rightarrow> s\<lparr>repl_c_string_out := Some (take (rcsp_pos s) b @ t @ NUL # drop (Suc (rcsp_pos s + length t)) b),
         rcsp_pos := rcsp_pos s + length t\<rparr>)"

definition rcsp_fits :: "nat \<Rightarrow> siod \<Rightarrow> bool" where
  "rcsp_fits n s = (case repl_c_string_out s of None \<Rightarrow> False
     | Some b \<Rightarrow> int (rcsp_pos s + n) < repl_c_string_print_len s \<and> repl_c_string_print_len s \<le> int (length b) \<and>
         b ! rcsp_pos s = NUL)"

lemma buffer_write:
  "p + length t < length b \<Longrightarrow>
   (take p b @ t @ drop (p + length t) b)[p + length t := NUL] = take p b @ t @ NUL # drop (Suc (p + length t)) b"
  by (simp add: list_update_append Cons_nth_drop_Suc [symmetric] min_def)

lemma obj_at_repl [simp]:
  "obj_at (s\<lparr>repl_c_string_out := b\<rparr>) y = obj_at s y" "obj_at (s\<lparr>rcsp_pos := p\<rparr>) y = obj_at s y"
  by (cases y; simp add: obj_at_def)+

interpretation rcsp: sink rcsp_sink rcsp_put rcsp_fits "\<lambda>_. True"
proof
  show "rcsp_sink t s = (Ret (), rcsp_put t s)" if "NUL \<notin> set t" "rcsp_fits (length t) s" for t s
    using that buffer_write [of "rcsp_pos s" t]
    by (auto simp: rcsp_fits_def rcsp_sink_def rcsp_put_def siod_rcsp_puts_def Let_def split: option.splits)
  show "rcsp_fits n (rcsp_put t s)" if "NUL \<notin> set t" "rcsp_fits (length t + n) s" for t n s
    using that by (auto simp: rcsp_fits_def rcsp_put_def nth_append split: option.splits)
  show "rcsp_put [] s = s" if "rcsp_fits n s" for n s
  proof -
    note f = that
    obtain b where b: "repl_c_string_out s = Some b" "rcsp_pos s < length b" "b ! rcsp_pos s = NUL"
      using f by (auto simp: rcsp_fits_def split: option.splits)
    then have "take (rcsp_pos s) b @ NUL # drop (Suc (rcsp_pos s)) b = b" by (metis id_take_nth_drop)
    with b(1) show ?thesis by (simp add: rcsp_put_def)
  qed
  show "rcsp_put u (rcsp_put t s) = rcsp_put (t @ u) s"
    if "NUL \<notin> set t" "NUL \<notin> set u" "rcsp_fits (length t + length u) s" for t u s
    using that by (auto simp: rcsp_fits_def rcsp_put_def add_ac split: option.splits)
  show "obj_at (rcsp_put t s) y = Some ob" if "True" "obj_at s y = Some ob" for t s y ob
    using that by (auto simp: rcsp_put_def split: option.split)
qed (auto simp: rcsp_fits_def split: option.splits)

section \<open>States of the loop\<close>

text \<open>What the symbol table and the invariant depend on.\<close>

lemma same_table:
  assumes "reader_ok s" "wf_state s'" "cells s' = cells s" "obarray s' = obarray s" "obarray_dim s' = obarray_dim s"
    "oblistvar s' = oblistvar s" "constants s' = constants s"
  shows "reader_ok s'" "table s' = table s" "denotes s' x e = denotes s x e" "hashable s' p = hashable s p"
proof -
  have s: "wf_state s" "symtab_ok s" "table s ''.'' = Some (sym_dot s)" using assms(1) by (simp_all add: reader_ok_def)
  have o: "obj_at s' = obj_at s" by (rule ext) (simp add: obj_at_def assms(3) split: siod_LISP.split)
  have l: "list_on s l as xs \<Longrightarrow> list_on s' l as xs" for l as xs
    by (erule list_seg_frame) (simp add: assms(3))
  have n: "names_in s' = names_in s" "symbol_at s' = symbol_at s"
    by (intro ext, simp add: names_in_def o) (intro ext, simp add: symbol_at_def o)
  note same = table_same [OF s(1,2) assms(4-6)]
  show "hashable s' p = hashable s p" using l n by (intro same) simp_all
  have s': "symtab_ok s'" using l n by (intro same) simp_all
  show t: "table s' = table s" using l n by (intro same) simp_all
  show "reader_ok s'" using assms(2,7) s s' t by (simp add: reader_ok_def constants_eq)
  show "denotes s' x e = denotes s x e" unfolding denotes_def t
    by (auto elim!: rep_mono simp: o)
qed

lemma wf_frame_calls:
  assumes "wf_state s" "cells s' = cells s" "obarray s' = obarray s" "obarray_dim s' = obarray_dim s"
    "oblistvar s' = oblistvar s" "constants s' = constants s" "inums s' = inums s" "heap_size s' = heap_size s"
    "catch_framep s' = fr" "fr = catch_framep s \<or> fr = []"
  shows "wf_state s'"
proof -
  let ?s = "s\<lparr>catch_framep := fr\<rparr>"
  have f: "wf_state ?s" using assms(1,10) by (intro wf_state_frames) (auto simp: wf_frames_ok)
  have c: "constants s' = constants ?s" by (simp add: constants_def assms(6) [unfolded constants_def])
  have g: "globals s' = globals ?s" unfolding globals_def c by (simp add: assms)
  have "wf_state s' = wf_state ?s" by (rule wf_frame(1) [OF _ g c]) (simp_all add: assms)
  with f show ?thesis by simp
qed

text \<open>A change of the globals that only the loop uses.\<close>

lemma loop_globals:
  assumes "reader_ok s" "cells s' = cells s" "obarray s' = obarray s" "obarray_dim s' = obarray_dim s"
    "oblistvar s' = oblistvar s" "constants s' = constants s" "inums s' = inums s" "heap_size s' = heap_size s"
    "catch_framep s' = fr" "fr = catch_framep s \<or> fr = []"
  shows "reader_ok s'" "table s' = table s" "denotes s' x e = denotes s x e" "hashable s' p = hashable s p"
proof -
  have "wf_state s'" using assms(1) by - (rule wf_frame_calls [OF _ assms(2-10)], simp add: reader_ok_def)
  from same_table [OF assms(1) this assms(2-6)]
  show "reader_ok s'" "table s' = table s" "denotes s' x e = denotes s x e" "hashable s' p = hashable s p" by auto
qed

section \<open>A round of the loop\<close>

lemma okM_repl_frame:
  assumes "okM s m Q" "wf_state s" "m s = (r, s')"
  shows "wf_state s'" "later s s'" "r = Ret a \<Longrightarrow> Q a s' \<and> catch_framep s' = catch_framep s"
  using assms by (auto simp: okM_def)

text \<open>What the loop has left to read and print, and its frames.\<close>

abbreviation loop_state where
  "loop_state s \<equiv> (repl_c_string_arg s, repl_c_string_out s, repl_c_string_flag s, repl_c_string_print_len s)"

lemma later_loop: "later s s' \<Longrightarrow> loop_state s' = loop_state s \<and> errjmp_ok s' = errjmp_ok s"
  by (simp add: later_def top_level_def)

lemma c_string_read_run:
  assumes "reader_ok s" "repl_c_string_arg s = Some (show_sexp e)" "readable e" "\<forall>p\<in>names_of e. hashable s p"
    "room (Suc (cells_of e)) s" "steps e \<le> re_depth env" "sound_server (re_rc env)"
  shows "\<exists>y s'. siod_repl_c_string_read env s = (Ret y, s') \<and> reader_ok s' \<and> denotes s' y e \<and> extends s s' \<and>
    length (cells s') \<le> length (cells s) + Suc (cells_of e) \<and> catch_framep s' = catch_framep s \<and>
    loop_state s' = (None, map_option (\<lambda>b. b[0 := NUL]) (repl_c_string_out s), repl_c_string_flag s, repl_c_string_print_len s) \<and>
    errjmp_ok s' = errjmp_ok s"
proof -
  let ?t = "show_sexp e" let ?x = "Ref (length (cells s))" let ?s1 = "grow [string_cell ?t] s"
  let ?s2 = "?s1\<lparr>repl_c_string_arg := None, repl_c_string_out := map_option (\<lambda>b. b[0 := NUL]) (repl_c_string_out s)\<rparr>"
  have w: "wf_state s" "symtab_ok s" using assms(1) by (simp_all add: reader_ok_def)
  have r1: "room 1 s" using assms(5) by (simp add: room_def)
  have 1: "siod_strcons ?t s = (Ret ?x, ?s1)" using assms(5) by (simp add: siod_strcons_def newcell_run room_def)
  have g1: "grows 1 s ?s1"
    using grows_grow [OF w, of "[string_cell ?t]" 1] okM_repl_frame(1) [OF ok_strcons w(1) 1] by simp
  have ok1: "reader_ok ?s1" using g1 assms(1) by (rule grows_ok)
  note g2 = loop_globals [OF ok1, of ?s2 "catch_framep ?s1"]
  have ok2: "reader_ok ?s2" by (rule g2(1)) (simp_all add: constants_def)
  have h2: "hashable ?s2 p = hashable s p" for p
    using g2(4) [of p] grows_hashable [OF g1, of p] by (simp add: constants_def)
  have "room (cells_of e) ?s2" using assms(5) by (simp add: room_def)
  then have m: "may_read ?s2 e" using ok2 h2 assms(3,4) by (simp add: may_read_def)
  have o: "obj_at ?s2 ?x = Some (Tc_string (length ?t) (?t @ [NUL]))" by (simp add: obj_at_def string_cell_def)
  have c: "cstr (?t @ [NUL]) = ?t" using show_no_NUL [OF assms(3)] by (simp add: cstr_terminated)
  obtain y s' where 2: "siod_read_from_string (re_memory env) (re_rc env) (re_depth env) ?x ?s2 = (Ret y, s')"
    "grows (cells_of e) ?s2 s'" "denotes s' y e"
    using read_string_sexp [OF m o c assms(6)] by blast
  have w2: "wf_state ?s2" using ok2 by (simp add: reader_ok_def)
  have l: "later ?s2 s'" "catch_framep s' = catch_framep ?s2"
    using okM_repl_frame(2) [OF sound_server.ok_read_from_string [OF assms(7)] w2 2(1)] okM_repl_frame(3) [OF sound_server.ok_read_from_string [OF assms(7)] w2 2(1) refl] by simp_all
  have "siod_repl_c_string_read env s = (Ret y, s')"
    unfolding siod_repl_c_string_read_def using 1 2(1) assms(2)
    by (simp add: bind_run modifyM_def grow_def)
  moreover have "reader_ok s'" using 2(2) ok2 by (rule grows_ok)
  moreover have "extends s ?s2" by (simp add: extends_def grow_def constants_def)
  then have "extends s s'" using 2(2) extends_trans unfolding grows_def by blast
  moreover have "length (cells s') \<le> length (cells s) + Suc (cells_of e)" using 2(2) by (simp add: grows_def)
  moreover have "loop_state s' = loop_state ?s2 \<and> errjmp_ok s' = errjmp_ok ?s2" by (rule later_loop [OF l(1)])
  ultimately show ?thesis using 2(3) l(2) by (intro exI [of _ y] exI [of _ s']) (simp add: grow_def)
qed

lemma quiet_puts: "h_puts h = Some siod_ignore_puts \<Longrightarrow> verbose_puts h st s = (Ret (), s)"
  by (simp add: verbose_puts_def siod_gsiod_repl_puts_def siod_ignore_puts_def)

lemma no_collect: "\<not> gc_due env s \<Longrightarrow> repl_collect env h s = (Ret (), s)"
  by (simp add: repl_collect_def)

text \<open>A round that evaluates, and the round that finds nothing to read.\<close>

lemma round_eval:
  assumes "h = c_string_hooks env w" "1 < w" "\<not> gc_due env s" "siod_repl_c_string_read env s = (Ret y, s1)" "y \<noteq> eof_val s1"
  shows "repl_round env h s = bindM (ev (re_rc env) y NIL) (\<lambda>v.
    bindM (siod_repl_c_string_print env v) (\<lambda>_. ret True)) s1"
proof -
  have h: "h_puts h = Some siod_ignore_puts" "h_read h = Some (siod_repl_c_string_read env)" "h_eval h = None"
    "h_print h = Some (siod_repl_c_string_print env)"
    using assms(1,2) by (simp_all add: c_string_hooks_def)
  have "repl_round env h s = bindM (gets (\<lambda>s. length (cells s))) (\<lambda>used. bindM (repl_eval env h y) (\<lambda>y.
       bindM (gets (evaluation_text env used)) (\<lambda>st. bindM (verbose_puts h st) (\<lambda>_.
       bindM (repl_print env h y) (\<lambda>_. ret True))))) s1"
    unfolding repl_round_def using assms(3-5) h
    by (simp add: bind_run no_collect quiet_puts repl_read_def siod_get_eof_val_def)
  also have "\<dots> = bindM (repl_eval env h y) (\<lambda>y. bindM (repl_print env h y) (\<lambda>_. ret True)) s1"
    by (simp add: bindM_def [of "repl_eval env h y"] quiet_puts [OF h(1)] bind_run split: prod.split outcome.split)
  finally have "repl_round env h s = bindM (repl_eval env h y) (\<lambda>y. bindM (repl_print env h y) (\<lambda>_. ret True)) s1" .
  moreover have "repl_print env h = siod_repl_c_string_print env" by (rule ext) (simp add: repl_print_def h)
  moreover have "repl_eval env h y = ev (re_rc env) y NIL" by (simp add: repl_eval_def h)
  ultimately show ?thesis by (simp only:)
qed

lemma round_eof:
  assumes "h = c_string_hooks env w" "1 < w" "\<not> gc_due env s" "repl_c_string_arg s = None"
  shows "repl_round env h s = (Ret False, s)"
  using assms
  by (simp add: repl_round_def bind_run no_collect quiet_puts repl_read_def c_string_hooks_def siod_repl_c_string_read_def
      siod_get_eof_val_def gets_def)

lemma c_string_print_run:
  assumes "readable e" "rep (\<lambda>_. True) nm s v e" "steps e \<le> re_depth env" "repl_c_string_out s = Some b"
    "int (length (show_sexp e)) < repl_c_string_print_len s" "repl_c_string_print_len s \<le> int (length b)" "b ! 0 = NUL"
  shows "\<exists>s' b'. siod_repl_c_string_print env v s = (Ret (), s') \<and> repl_c_string_out s' = Some b' \<and> cstr b' = show_sexp e \<and>
    repl_c_string_flag s' \<and> repl_c_string_arg s' = repl_c_string_arg s \<and> cells s' = cells s \<and>
    heap_size s' = heap_size s \<and> catch_framep s' = catch_framep s"
proof -
  let ?s = "s\<lparr>rcsp_pos := 0\<rparr>" let ?t = "show_sexp e"
  have "rep (\<lambda>_. True) nm ?s v e" using assms(2) by (rule rep_mono) simp_all
  moreover have "rcsp_fits (length ?t) ?s" using assms(4-7) by (simp add: rcsp_fits_def)
  ultimately have "siod_lprin1g (re_lib env) (re_depth env) rcsp_sink v ?s = (Ret (), rcsp_put ?t ?s)"
    using assms(1,3) by - (rule rcsp.lprin1g_run)
  then have "siod_repl_c_string_print env v s = (Ret (), (rcsp_put ?t ?s)\<lparr>repl_c_string_flag := True\<rparr>)"
    by (simp add: siod_repl_c_string_print_def bind_run modifyM_def)
  moreover have "cstr (?t @ NUL # drop (Suc (length ?t)) b) = ?t"
    using show_no_NUL [OF assms(1)] by (simp add: cstr_terminated)
  ultimately show ?thesis using assms(4) by (simp add: rcsp_put_def)
qed

section \<open>The loop on a string\<close>

definition c_string_start :: "char list \<Rightarrow> int \<Rightarrow> siod \<Rightarrow> siod" where
  "c_string_start str w s = s\<lparr>repl_c_string_print_len := w, repl_c_string_out := Some str,
     repl_c_string_arg := Some (cstr str), repl_c_string_flag := False, catch_framep := [], errjmp_ok := True\<rparr>"

lemma repl_c_string_start:
  assumes "1 < w" "n = Suc n'" "re_init_file env = None \<or> \<not> want_init"
  shows "siod_repl_c_string n env str want_init w s =
    bindM (\<lambda>s. case siod_repl n' env (c_string_hooks env w) s of
          (Errjmp j, s1) \<Rightarrow> siod_repl_driver n' env want_init j (c_string_hooks env w) s1
        | (r, s1) \<Rightarrow> (r, s1)) (\<lambda>retval. if retval \<noteq> 0 then ret retval
     else bindM (gets repl_c_string_flag) (\<lambda>flag. if flag then ret 0 else ret 2)) (c_string_start str w s)"
  using assms
  by (auto simp: siod_repl_c_string_def bind_run modifyM_def repl_setup_def bindM_def [of "siod_repl_driver _ _ _ _ _"]
      bindM_def [of "\<lambda>s. _ s"] c_string_start_def split: option.split)

lemma gc_due_frame: "cells s' = cells s \<Longrightarrow> heap_size s' = heap_size s \<Longrightarrow> gc_due env s' = gc_due env s"
  by (simp add: gc_due_def)

text \<open>The first round up to the call of the evaluator.\<close>

lemma c_string_first:
  assumes "reader_ok s" "cstr str = show_sexp e" "readable e" "\<forall>p\<in>names_of e. hashable s p"
    "room (Suc (cells_of e)) s" "steps e \<le> re_depth env" "1 < w" "w \<le> int (length str)" "\<not> gc_due env s"
    "sound_server (re_rc env)"
  shows "\<exists>y s1. reader_ok s1 \<and> denotes s1 y e \<and> extends s s1 \<and> catch_framep s1 = [] \<and> errjmp_ok s1 \<and>
    length (cells s1) \<le> length (cells s) + Suc (cells_of e) \<and> loop_state s1 = (None, Some (str[0 := NUL]), False, w) \<and>
    (y \<noteq> eof_val s \<longrightarrow> repl_round env (c_string_hooks env w) (c_string_start str w s) =
       bindM (ev (re_rc env) y NIL) (\<lambda>v. bindM (siod_repl_c_string_print env v) (\<lambda>_. ret True)) s1)"
proof -
  let ?s = "c_string_start str w s"
  have f: "cells ?s = cells s" "obarray ?s = obarray s" "obarray_dim ?s = obarray_dim s" "oblistvar ?s = oblistvar s"
    "constants ?s = constants s" "inums ?s = inums s" "heap_size ?s = heap_size s" "catch_framep ?s = []"
    by (simp_all add: c_string_start_def constants_def)
  note g = loop_globals [OF assms(1) f]
  have h: "\<forall>p\<in>names_of e. hashable ?s p" using g(4) assms(4) by simp
  have r: "room (Suc (cells_of e)) ?s" using assms(5) f(1,7) by (simp add: room_def)
  have a: "repl_c_string_arg ?s = Some (show_sexp e)" by (simp add: c_string_start_def assms(2))
  obtain y s1 where 1: "siod_repl_c_string_read env ?s = (Ret y, s1)" "reader_ok s1" "denotes s1 y e" "extends ?s s1"
    "catch_framep s1 = []"
    "loop_state s1 = (None, map_option (\<lambda>b. b[0 := NUL]) (repl_c_string_out ?s), repl_c_string_flag ?s, repl_c_string_print_len ?s)"
    "errjmp_ok s1 = errjmp_ok ?s" "length (cells s1) \<le> length (cells s) + Suc (cells_of e)"
    using c_string_read_run [OF g(1) a assms(3) h r assms(6,10)] f(1,8) by auto
  have e: "extends s ?s" using f by (simp add: extends_def c_string_start_def)
  have "eof_val s1 = eof_val s" using 1(4) f(5) by (simp add: extends_def constants_eq)
  moreover have "\<not> gc_due env ?s" using assms(9) f(1,7) gc_due_frame by blast
  moreover have "errjmp_ok s1" using 1(7) by (simp add: c_string_start_def)
  ultimately show ?thesis
    using 1(2,3,5,6,8) extends_trans [OF e 1(4)] round_eval [OF refl assms(7) _ 1(1)]
    by - (rule exI [of _ y], rule exI [of _ s1], simp add: c_string_start_def)
qed

lemma repl_steps:
  "repl_round env h s = (Ret True, s1) \<Longrightarrow> siod_repl (Suc n) env h s = siod_repl n env h s1"
  "repl_round env h s = (Ret False, s1) \<Longrightarrow> siod_repl (Suc n) env h s = (Ret 0, s1)"
  "repl_round env h s = (Errjmp j, s1) \<Longrightarrow> siod_repl (Suc n) env h s = (Errjmp j, s1)"
  by (simp_all add: bindM_def ret_def)

text \<open>Nothing is left to read: the loop ends, and so does the driver.\<close>

lemma repl_ends:
  assumes "h = c_string_hooks env w" "1 < w" "\<not> gc_due env s" "repl_c_string_arg s = None"
  shows "siod_repl (Suc n) env h s = (Ret 0, s)"
    "re_init_file env = None \<or> \<not> want_init \<Longrightarrow>
     siod_repl_driver (Suc (Suc n)) env want_init 1 h s = (Ret 0, s\<lparr>catch_framep := [], errjmp_ok := True\<rparr>)"
proof -
  have 1: "siod_repl (Suc n) env h s = (Ret 0, s)" if "\<not> gc_due env s" "repl_c_string_arg s = None" for s
    by (rule repl_steps(2) [OF round_eof [OF assms(1,2) that]])
  show "siod_repl (Suc n) env h s = (Ret 0, s)" using assms(3,4) by (rule 1)
  let ?s = "s\<lparr>catch_framep := [], errjmp_ok := True\<rparr>"
  have "siod_repl (Suc n) env h ?s = (Ret 0, ?s)" by (rule 1) (use assms(3,4) in \<open>simp_all add: gc_due_def\<close>)
  then show "siod_repl_driver (Suc (Suc n)) env want_init 1 h s = (Ret 0, ?s)"
    if "re_init_file env = None \<or> \<not> want_init"
    using that by (auto simp: repl_setup_def modifyM_def bind_run simp del: siod_repl.simps split: option.split)
qed

text \<open>
  C13. The loop on a string (siod_repl_c_string), with any evaluator that keeps the invariant: from a buffer that holds
  the text of an expression it reads that expression; when the evaluation of what it read gives a value with a representation that fits into the buffer,
  and no collection is due, then the call returns 0 and leaves the representation in the buffer as a C string,
  with the store as the evaluation left it.
\<close>

theorem repl_c_string_answers:
  assumes "reader_ok s" "cstr str = show_sexp e" "readable e" "\<forall>p\<in>names_of e. hashable s p"
    "room (Suc (cells_of e)) s" "steps e \<le> re_depth env" "1 < w" "w \<le> int (length str)" "\<not> gc_due env s"
    "re_init_file env = None \<or> \<not> want_init" "3 \<le> n" "sound_server (re_rc env)"
  shows "\<exists>y s1. reader_ok s1 \<and> denotes s1 y e \<and> extends s s1 \<and> catch_framep s1 = [] \<and> errjmp_ok s1 \<and>
    length (cells s1) \<le> length (cells s) + Suc (cells_of e) \<and>
    (\<forall>v s2 d. y \<noteq> eof_val s \<and> ev (re_rc env) y NIL s1 = (Ret v, s2) \<and> \<not> gc_due env s2 \<and>
       readable d \<and> rep (\<lambda>_. True) (\<lambda>_ _. True) s2 v d \<and> steps d \<le> re_depth env \<and> int (length (show_sexp d)) < w \<longrightarrow>
       (\<exists>s3 b. siod_repl_c_string n env str want_init w s = (Ret 0, s3) \<and> repl_c_string_out s3 = Some b \<and>
          cstr b = show_sexp d \<and> cells s3 = cells s2))"
proof -
  let ?h = "c_string_hooks env w"
  obtain y s1 where first: "reader_ok s1" "denotes s1 y e" "extends s s1" "catch_framep s1 = []" "errjmp_ok s1"
    "length (cells s1) \<le> length (cells s) + Suc (cells_of e)" "loop_state s1 = (None, Some (str[0 := NUL]), False, w)"
    "y \<noteq> eof_val s \<Longrightarrow> repl_round env ?h (c_string_start str w s) =
       bindM (ev (re_rc env) y NIL) (\<lambda>v. bindM (siod_repl_c_string_print env v) (\<lambda>_. ret True)) s1"
    using c_string_first [OF assms(1-9,12)] by blast
  obtain n' where n: "n = Suc (Suc (Suc n'))" using assms(11) by (metis Suc_le_D numeral_3_eq_3 Suc_le_mono)
  have w1: "wf_state s1" using first(1) by (simp add: reader_ok_def)
  have "\<exists>s3 b. siod_repl_c_string n env str want_init w s = (Ret 0, s3) \<and> repl_c_string_out s3 = Some b \<and>
          cstr b = show_sexp d \<and> cells s3 = cells s2"
    if "y \<noteq> eof_val s" "ev (re_rc env) y NIL s1 = (Ret v, s2)" "\<not> gc_due env s2" "readable d"
      "rep (\<lambda>_. True) (\<lambda>_ _. True) s2 v d" "steps d \<le> re_depth env" "int (length (show_sexp d)) < w" for v s2 d
  proof -
    note h = that
    have l: "loop_state s2 = loop_state s1"
      using later_loop [OF okM_repl_frame(2) [OF sound_server.ok_ev [OF assms(12)] w1 h(2)]] denotes_ref_ok [OF first(2)] by simp
    have b: "repl_c_string_print_len s2 = w" "repl_c_string_out s2 = Some (str[0 := NUL])" "str[0 := NUL] ! 0 = NUL"
      "w \<le> int (length (str[0 := NUL]))"
      using l first(7) assms(7,8) by (cases str; simp)+
    obtain s3 b' where 3: "siod_repl_c_string_print env v s2 = (Ret (), s3)" "repl_c_string_out s3 = Some b'"
      "cstr b' = show_sexp d" "repl_c_string_flag s3" "repl_c_string_arg s3 = None" "cells s3 = cells s2" "heap_size s3 = heap_size s2"
      using c_string_print_run [OF h(4-6) b(2)] h(7) b l first(7) by auto
    have "repl_round env ?h (c_string_start str w s) = (Ret True, s3)"
      using first(8) [OF h(1)] h(2) 3(1) by (simp add: bind_run)
    moreover have "siod_repl (Suc n') env ?h s3 = (Ret 0, s3)"
      using h(3) 3(5-7) by (intro repl_ends(1) [OF refl assms(7)]) (simp_all add: gc_due_def)
    ultimately have "siod_repl (Suc (Suc n')) env ?h (c_string_start str w s) = (Ret 0, s3)" by (simp only: repl_steps(1))
    then show ?thesis
      using 3 repl_c_string_start [OF assms(7) n assms(10), of str s] by (simp add: bind_run del: siod_repl.simps)
  qed
  then show ?thesis using first(1-6) by blast
qed

definition plain_env :: repl_env where
  "plain_env = \<lparr>re_rc = run 3, re_depth = 20, re_lib = \<lparr>nan_text = ''nan'', pointer_text = (\<lambda>_. ''p''), file_text = (\<lambda>_. ''f'')\<rparr>,
     re_memory = \<lparr>mem_char = (\<lambda>_. NUL), mem_long = (\<lambda>_. 0), mem_double = (\<lambda>_. DZero False)\<rparr>, re_runtime = (\<lambda>_. DZero False), re_realtime = (\<lambda>_. DZero False),
     re_gc_status_flag = False, re_init_file = None, re_lost = length\<rparr>"

text \<open>The state trip_state once it is extended: the history of evaluations is off, and ab has no value.\<close>

lemma trip_extended:
  assumes "extends trip_state s"
  shows "eval_history x s = (Ret (), s)" "eof_val s = NIL" "unbound_marker s = NIL" "heap_size s = 40"
    "obj_at s (Ref 2) = Some (Tc_symbol ''ab'' NIL)"
proof -
  have c: "sym_eval_history_ptr s = Ref 0" "eof_val s = NIL" "unbound_marker s = NIL" "heap_size s = 40"
    using assms by (simp_all add: extends_def constants_eq trip_state_def small_state_def)
  have o: "obj_at s (Ref 0) = Some (Tc_symbol ''t'' (Ref 0))" "obj_at s (Ref 2) = Some (Tc_symbol ''ab'' NIL)"
    by (rule extends_obj_at [OF assms], simp add: trip_state_def small_state_def obj_at_def)+
  show "eval_history x s = (Ret (), s)"
    using c o by (simp add: eval_history_def VCELL_def bind_run obj_at_look is_cons_def)
  show "eof_val s = NIL" "unbound_marker s = NIL" "heap_size s = 40" "obj_at s (Ref 2) = Some (Tc_symbol ''ab'' NIL)"
    using c o by simp_all
qed

theorem repl_c_string_answers_witness:
  "\<exists>s b. siod_repl_c_string 3 plain_env (''42'' @ replicate 18 NUL) False 20 trip_state = (Ret 0, s) \<and>
     repl_c_string_out s = Some b \<and> cstr b = ''42''"
proof -
  let ?e = "Sx_num 42"
  have t: "show_sexp ?e = ''42''" by (simp add: long_digits_def nat_digits.simps) code_simp
  have p: "cstr (''42'' @ replicate 18 NUL) = show_sexp ?e" unfolding t by (simp add: cstr_def)
  have r: "room (Suc (cells_of ?e)) trip_state" "\<not> gc_due plain_env trip_state" "length (cells trip_state) = 9"
    by (simp_all add: room_def gc_due_def plain_env_def trip_state_def small_state_def)
  obtain y s1 where 1: "denotes s1 y ?e" "extends trip_state s1" "length (cells s1) \<le> 11"
    "\<And>v s2 d. y \<noteq> eof_val trip_state \<Longrightarrow> ev (re_rc plain_env) y NIL s1 = (Ret v, s2) \<Longrightarrow> \<not> gc_due plain_env s2 \<Longrightarrow>
       readable d \<Longrightarrow> rep (\<lambda>_. True) (\<lambda>_ _. True) s2 v d \<Longrightarrow> steps d \<le> re_depth plain_env \<Longrightarrow> int (length (show_sexp d)) < 20 \<Longrightarrow>
       \<exists>s3 b. siod_repl_c_string 3 plain_env (''42'' @ replicate 18 NUL) False 20 trip_state = (Ret 0, s3) \<and>
         repl_c_string_out s3 = Some b \<and> cstr b = show_sexp d"
    using repl_c_string_answers [OF trip_state_ok(1) p _ _ r(1) _ _ _ r(2), of 20 False 3] r(3) interpreter.sound_server_axioms
    by (auto simp: plain_env_def) blast
  have y: "obj_at s1 y = Some (Tc_flonum (of_long 42))" "y \<noteq> NIL" using 1(1) by (auto simp: denotes_def obj_at_def)
  then have "ev (re_rc plain_env) y NIL s1 = (Ret y, s1)"
    by (simp add: plain_env_def siod_leval_def numeral_3_eq_3 serve_def leval_body_def bind_run trip_extended(1) [OF 1(2)] obj_at_look)
  from 1(4) [OF _ this, of ?e] show ?thesis
    using 1(1,3) y trip_extended(2,4) [OF 1(2)] unfolding t
    by (simp add: trip_state_def small_state_def gc_due_def plain_env_def)
qed

text \<open>
  C14. An error in that evaluation ends the loop on a string with the code 2, and so does siod_quit: the driver
  comes back, finds nothing more to read and returns, with no catch frame left and the store as the error left it.
\<close>

theorem repl_c_string_recovers:
  assumes "reader_ok s" "cstr str = show_sexp e" "readable e" "\<forall>p\<in>names_of e. hashable s p"
    "room (Suc (cells_of e)) s" "steps e \<le> re_depth env" "1 < w" "w \<le> int (length str)" "\<not> gc_due env s"
    "re_init_file env = None \<or> \<not> want_init" "3 \<le> n" "sound_server (re_rc env)"
  shows "\<exists>y s1. reader_ok s1 \<and> denotes s1 y e \<and> extends s s1 \<and> catch_framep s1 = [] \<and> errjmp_ok s1 \<and>
    length (cells s1) \<le> length (cells s) + Suc (cells_of e) \<and>
    (\<forall>j s2. y \<noteq> eof_val s \<and> ev (re_rc env) y NIL s1 = (Errjmp j, s2) \<and> \<not> gc_due env s2 \<and> j \<in> {1, 2} \<longrightarrow>
       (\<exists>s3. siod_repl_c_string n env str want_init w s = (Ret 2, s3) \<and> cells s3 = cells s2 \<and> errjmp_ok s3 \<and>
          (j = 1 \<longrightarrow> catch_framep s3 = [])))"
proof -
  let ?h = "c_string_hooks env w"
  obtain y s1 where first: "reader_ok s1" "denotes s1 y e" "extends s s1" "catch_framep s1 = []" "errjmp_ok s1"
    "length (cells s1) \<le> length (cells s) + Suc (cells_of e)"
    "loop_state s1 = (None, Some (str[0 := NUL]), False, w)"
    "y \<noteq> eof_val s \<Longrightarrow> repl_round env ?h (c_string_start str w s) =
       bindM (ev (re_rc env) y NIL) (\<lambda>v. bindM (siod_repl_c_string_print env v) (\<lambda>_. ret True)) s1"
    using c_string_first [OF assms(1-9,12)] by blast
  obtain n' where n: "n = Suc (Suc (Suc n'))" using assms(11) by (metis Suc_le_D numeral_3_eq_3 Suc_le_mono)
  have w1: "wf_state s1" using first(1) by (simp add: reader_ok_def)
  have "\<exists>s3. siod_repl_c_string n env str want_init w s = (Ret 2, s3) \<and> cells s3 = cells s2 \<and> errjmp_ok s3 \<and>
          (j = 1 \<longrightarrow> catch_framep s3 = [])"
    if "y \<noteq> eof_val s" "ev (re_rc env) y NIL s1 = (Errjmp j, s2)" "\<not> gc_due env s2" "j \<in> {1, 2}" for j s2
  proof -
    note h = that
    have l: "loop_state s2 = loop_state s1" "errjmp_ok s2"
      using later_loop [OF okM_repl_frame(2) [OF sound_server.ok_ev [OF assms(12)] w1 h(2)]] denotes_ref_ok [OF first(2)] first(5) by simp_all
    have "repl_round env ?h (c_string_start str w s) = (Errjmp j, s2)"
      using first(8) [OF h(1)] h(2) by (simp add: bindM_def)
    then have "siod_repl (Suc (Suc n')) env ?h (c_string_start str w s) = (Errjmp j, s2)" by (rule repl_steps(3))
    then have r: "siod_repl_c_string n env str want_init w s =
      bindM (siod_repl_driver (Suc (Suc n')) env want_init j ?h) (\<lambda>retval. if retval \<noteq> 0 then ret retval
        else bindM (gets repl_c_string_flag) (\<lambda>flag. if flag then ret 0 else ret 2)) s2"
      unfolding repl_c_string_start [OF assms(7) n assms(10)] by (simp add: bindM_def)
    consider "j = 1" | "j = 2" using h(4) by auto
    then show ?thesis
    proof cases
      case 1
      have "siod_repl_driver (Suc (Suc n')) env want_init 1 ?h s2 = (Ret 0, s2\<lparr>catch_framep := [], errjmp_ok := True\<rparr>)"
        using l(1) first(7) by (intro repl_ends(2) [OF refl assms(7) h(3) _ assms(10)]) simp
      then show ?thesis using r l(1) first(7) 1 by (simp add: bind_run del: siod_repl_driver.simps)
    next
      case 2
      then show ?thesis using r l(2) by (simp add: bindM_def ret_def)
    qed
  qed
  then show ?thesis using first(1-6) by blast
qed


lemma err_top:
  assumes "errjmp_ok s" "catch_framep s = []"
  shows "\<exists>s'. errm m x s = (Errjmp 1, s') \<and> length (cells s') = length (cells s) \<and> heap_size s' = heap_size s"
proof -
  obtain c where c: "err_print (Some m) x s = s\<lparr>console := c\<rparr>" using err_print_frame by blast
  have "catch_framep (set_errobj x t) = catch_framep t \<and> length (cells (set_errobj x t)) = length (cells t) \<and>
      heap_size (set_errobj x t) = heap_size t" for t
    by (simp add: set_errobj_def set_cell_def split: siod_LISP.split option.split obj.split)
  then show ?thesis using assms by (simp add: err_def err_split_def c Let_def)
qed

theorem repl_c_string_recovers_witness:
  "\<exists>s. siod_repl_c_string 3 plain_env (''(1)'' @ replicate 17 NUL) False 20 trip_state = (Ret 2, s) \<and> catch_framep s = []"
proof -
  let ?e = "Sx_cons (Sx_num 1) Sx_nil"
  have t: "show_sexp ?e = ''(1)''" by (simp add: long_digits_def nat_digits.simps) code_simp
  have p: "cstr (''(1)'' @ replicate 17 NUL) = show_sexp ?e" unfolding t by (simp add: cstr_def)
  have r: "room (Suc (cells_of ?e)) trip_state" "\<not> gc_due plain_env trip_state" "length (cells trip_state) = 9"
    by (simp_all add: room_def gc_due_def plain_env_def trip_state_def small_state_def)
  obtain y s1 where 1: "denotes s1 y ?e" "extends trip_state s1" "catch_framep s1 = []" "errjmp_ok s1" "length (cells s1) \<le> 12"
    "\<And>s2. y \<noteq> eof_val trip_state \<Longrightarrow> ev (re_rc plain_env) y NIL s1 = (Errjmp 1, s2) \<Longrightarrow> \<not> gc_due plain_env s2 \<Longrightarrow>
       \<exists>s3. siod_repl_c_string 3 plain_env (''(1)'' @ replicate 17 NUL) False 20 trip_state = (Ret 2, s3) \<and> catch_framep s3 = []"
    using repl_c_string_recovers [OF trip_state_ok(1) p _ _ r(1) _ _ _ r(2), of 20 False 3] r(3) interpreter.sound_server_axioms
    by (auto simp: plain_env_def) blast
  obtain x where y: "obj_at s1 y = Some (Tc_cons x NIL)" "obj_at s1 x = Some (Tc_flonum (of_long 1))"
    using 1(1) by (auto simp: denotes_def)
  have "y \<noteq> NIL" using y(1) by (auto simp: obj_at_def)
  obtain s2 where e: "(errm ''bad function'' x :: siod_LISP act) s1 = (Errjmp 1, s2)" "length (cells s2) = length (cells s1)" "heap_size s2 = heap_size s1"
    using err_top [OF 1(4,3)] by blast
  have "ev (re_rc plain_env) y NIL s1 = (Errjmp 1, s2)"
    using y e(1) by (simp add: plain_env_def siod_leval_def numeral_3_eq_3 serve_def leval_body_def bind_run
        trip_extended(1) [OF 1(2)] obj_at_look eval_operator_def leval_call_def)
  moreover have "\<not> gc_due plain_env s2"
    unfolding gc_due_def e(2,3) trip_extended(4) [OF 1(2)] using 1(5) by (simp add: plain_env_def)
  ultimately show ?thesis
    using \<open>y \<noteq> NIL\<close> by - (rule 1(6), simp_all add: trip_state_def small_state_def)
qed

end
