(* ===== verification/Higher.thy ===== *)
theory Higher
  imports Complex_Main "HOL-Library.Multiset" Eval_Sound Symtab
begin

text \<open>
  Operations on lists that call a function (sliba.c): qsort, subset, lref-default and the benchmarks.  The
  server rc answers the calls of the evaluator.  The numbers of rand come from a generator rnd with an explicit
  state.
\<close>

section \<open>qsort\<close>

text \<open>The conses of a list: what follows them, and how many there are.\<close>

fun conses :: "nat \<Rightarrow> siod_LISP \<Rightarrow> nat \<Rightarrow> (siod_LISP \<times> nat) act" where
  "conses 0 v n = nofuel"
| "conses (Suc k) v n = bindM (look v) (\<lambda>ob. if is_cons ob then bindM (CDR v) (\<lambda>d. conses k d (Suc n)) else ret (v, n))"

fun cdr_times :: "nat \<Rightarrow> siod_LISP \<Rightarrow> siod_LISP act" where
  "cdr_times 0 v = ret v"
| "cdr_times (Suc j) v = bindM (CDR v) (cdr_times j)"

definition key_of :: "server \<Rightarrow> siod_LISP \<Rightarrow> siod_LISP \<Rightarrow> siod_LISP act" where
  "key_of rc g x = (if g = NIL then ret x else siod_funcall1 rc g x)"

definition compare_keys :: "server \<Rightarrow> siod_LISP \<Rightarrow> siod_LISP \<Rightarrow> siod_LISP \<Rightarrow> siod_LISP \<Rightarrow> siod_LISP act" where
  "compare_keys rc f g x mark = bindM (key_of rc g x) (\<lambda>a. bindM (key_of rc g mark) (siod_funcall2 rc f a))"

fun qsort_split :: "nat \<Rightarrow> server \<Rightarrow> siod_LISP \<Rightarrow> siod_LISP \<Rightarrow> siod_LISP \<Rightarrow> nat \<Rightarrow> nat \<Rightarrow> siod_LISP \<Rightarrow>
    siod_LISP \<Rightarrow> siod_LISP \<Rightarrow> (siod_LISP \<times> siod_LISP) act" where
  "qsort_split 0 rc f g mark j n v lesser others = nofuel"
| "qsort_split (Suc k) rc f g mark j n v lesser others =
     (if v = NIL then ret (lesser, others)
      else bindM (if j = n then ret (lesser, others)
                  else bindM (CAR v) (\<lambda>x. bindM (compare_keys rc f g x mark) (\<lambda>r. bindM (CAR v) (\<lambda>y.
                    if r \<noteq> NIL then bindM (siod_cons y lesser) (\<lambda>l. ret (l, others))
                    else bindM (siod_cons y others) (\<lambda>l. ret (lesser, l))))))
           (\<lambda>(lesser, others). bindM (CDR v) (\<lambda>d. qsort_split k rc f g mark j (Suc n) d lesser others)))"

fun siod_lqsort :: "nat \<Rightarrow> server \<Rightarrow> ('r \<Rightarrow> nat \<times> 'r) \<Rightarrow> 'r \<Rightarrow> siod_LISP \<Rightarrow> siod_LISP \<Rightarrow> siod_LISP \<Rightarrow>
    (siod_LISP \<times> 'r) act" where
  "siod_lqsort 0 rc rnd seed l f g = nofuel"
| "siod_lqsort (Suc k) rc rnd seed l f g = bindM (gets bound) (\<lambda>b. bindM (conses b l 0) (\<lambda>(v, n).
     if v \<noteq> NIL then errm ''bad list to qsort'' l
     else if n = 0 then ret (NIL, seed)
     else (case rnd seed of (i, seed1) \<Rightarrow>
       bindM (cdr_times (i mod n) l) (\<lambda>m. bindM (CAR m) (\<lambda>mark.
       bindM (qsort_split b rc f g mark (i mod n) 0 l NIL NIL) (\<lambda>(lesser, others).
       bindM (siod_lqsort k rc rnd seed1 lesser f g) (\<lambda>(r1, seed2).
       bindM (siod_lqsort k rc rnd seed2 others f g) (\<lambda>(r2, seed3).
       bindM (siod_cons mark r2) (\<lambda>p. bindM (siod_nconc r1 p) (\<lambda>r. ret (r, seed3)))))))))))"

section \<open>Other operations\<close>

fun subset_loop :: "nat \<Rightarrow> server \<Rightarrow> siod_LISP \<Rightarrow> siod_LISP \<Rightarrow> siod_LISP \<Rightarrow> siod_LISP act" where
  "subset_loop 0 rc fcn result v = nofuel"
| "subset_loop (Suc k) rc fcn result v = bindM (look v) (\<lambda>ob. if is_cons ob
       then bindM (CAR v) (\<lambda>x. bindM (siod_funcall1 rc fcn x) (\<lambda>r.
         bindM (if r \<noteq> NIL then bindM (CAR v) (\<lambda>y. siod_cons y result) else ret result) (\<lambda>result.
         bindM (CDR v) (subset_loop k rc fcn result))))
       else ret result)"

definition siod_lsubset :: "server \<Rightarrow> siod_LISP \<Rightarrow> siod_LISP \<Rightarrow> siod_LISP act" where
  "siod_lsubset rc fcn l = bindM (gets bound) (\<lambda>k. bindM (subset_loop k rc fcn NIL l) siod_nreverse)"

definition siod_lref_default :: "server \<Rightarrow> siod_LISP \<Rightarrow> siod_LISP \<Rightarrow> siod_LISP \<Rightarrow> siod_LISP act" where
  "siod_lref_default rc li x fcn = bindM (siod_get_c_long x) (\<lambda>n. bindM (gets bound) (\<lambda>k.
     bindM (cdr_down k n li) (\<lambda>l. bindM (look l) (\<lambda>ob.
     if is_cons ob then CAR l
     else if fcn \<noteq> NIL then rc (Apply fcn NIL)
     else ret NIL))))"

text \<open>The benchmarks repeat a call and return its last value.\<close>

fun repeat_call :: "nat \<Rightarrow> siod_LISP act \<Rightarrow> siod_LISP \<Rightarrow> siod_LISP act" where
  "repeat_call 0 m value = ret value"
| "repeat_call (Suc n) m value = bindM m (repeat_call n m)"

definition siod_benchmark_siod_funcall1 :: "server \<Rightarrow> siod_LISP \<Rightarrow> siod_LISP \<Rightarrow> siod_LISP \<Rightarrow> siod_LISP act" where
  "siod_benchmark_siod_funcall1 rc repeats f a1 = bindM (siod_get_c_long repeats) (\<lambda>n.
     repeat_call (nat n) (siod_funcall1 rc f a1) NIL)"

definition siod_benchmark_siod_funcall2 :: "server \<Rightarrow> siod_LISP \<Rightarrow> siod_LISP act" where
  "siod_benchmark_siod_funcall2 rc l =
     bindM (siod_car l) (\<lambda>repeats. bindM (siod_cdr l) (\<lambda>d1. bindM (siod_car d1) (\<lambda>f.
     bindM (siod_cdr l) (\<lambda>d1. bindM (siod_cdr d1) (\<lambda>d2. bindM (siod_car d2) (\<lambda>a1.
     bindM (siod_cdr l) (\<lambda>d1. bindM (siod_cdr d1) (\<lambda>d2. bindM (siod_cdr d2) (\<lambda>d3. bindM (siod_car d3) (\<lambda>a2.
     bindM (siod_get_c_long repeats) (\<lambda>n. repeat_call (nat n) (siod_funcall2 rc f a1 a2) NIL)))))))))))"

definition siod_benchmark_eval :: "server \<Rightarrow> siod_LISP \<Rightarrow> siod_LISP \<Rightarrow> siod_LISP \<Rightarrow> siod_LISP act" where
  "siod_benchmark_eval rc repeats x env = bindM (siod_get_c_long repeats) (\<lambda>n. repeat_call (nat n) (rc (Eval x env)) NIL)"


section \<open>These operations keep the invariant\<close>

context sound_server
begin

lemma ok_subset_loop:
  "ref_ok s fcn \<Longrightarrow> ref_ok s result \<Longrightarrow> ref_ok s v \<Longrightarrow> okR s (subset_loop k rc fcn result v)"
proof (induction k arbitrary: s result v)
  case (Suc k)
  show ?case
    unfolding subset_loop.simps
    by (intro okM_look okM_if okM_ret okR_bind [OF ok_CAR] okR_bind [OF ok_funcall1] okR_bind [OF okM_if] ok_cons
        okR_bind [OF ok_CDR] Suc.IH)
      (use Suc.prems in \<open>(meson ref_ok_later ref_ok_NIL)+\<close>)
qed (simp add: sound_rules)

lemma ok_lsubset: "ref_ok s fcn \<Longrightarrow> ref_ok s l \<Longrightarrow> okR s (siod_lsubset rc fcn l)"
  unfolding siod_lsubset_def
  by (rule okM_bind_gets) (intro okR_bind [OF ok_subset_loop] ok_nreverse; simp)

lemma ok_lref_default: "ref_ok s li \<Longrightarrow> ref_ok s x \<Longrightarrow> ref_ok s fcn \<Longrightarrow> okR s (siod_lref_default rc li x fcn)"
  unfolding siod_lref_default_def
  by (intro okU_bind [OF ok_get_c_long] okM_bind_gets okR_bind [OF ok_cdr_down] okM_look okM_if ok_CAR ok_apply okM_ret)
    (meson ref_ok_later ref_ok_NIL)+

lemma ok_repeat_call:
  assumes "\<And>s'. later s s' \<Longrightarrow> okR s' m" "ref_ok s v" shows "okR s (repeat_call n m v)"
  using assms
proof (induction n arbitrary: s v)
  case (Suc n)
  then show ?case
    unfolding repeat_call.simps by (intro okR_bind [OF Suc.prems(1)]) (auto intro: later_trans later_refl)
qed (simp add: okM_ret)

lemma ok_benchmarks:
  "ref_ok s f \<Longrightarrow> ref_ok s a \<Longrightarrow> okR s (siod_benchmark_siod_funcall1 rc x f a)"
  "ref_ok s e \<Longrightarrow> ref_ok s env \<Longrightarrow> okR s (siod_benchmark_eval rc x e env)"
  unfolding siod_benchmark_siod_funcall1_def siod_benchmark_eval_def
  by (intro okU_bind [OF ok_get_c_long] ok_repeat_call ok_funcall1 ok_ev; (meson ref_ok_later ref_ok_NIL)?)+

end

section \<open>qsort sorts\<close>

lemma conses_run: "list_on s l as xs \<Longrightarrow> length as < k \<Longrightarrow> conses k l n s = (Ret (NIL, n + length as), s)"
proof (induction as arbitrary: l xs k n)
  case Nil
  then show ?case by (cases k) (auto simp: bind_run is_cons_def)
next
  case (Cons a as)
  then show ?case by (cases k) (auto simp: list_seg_Cons bind_run is_cons_def cons_cell_run)
qed

lemma cdr_times_run:
  "list_on s l as xs \<Longrightarrow> j < length as \<Longrightarrow>
   \<exists>a d. cdr_times j l s = (Ret (Ref a), s) \<and> a < length (cells s) \<and> cells s ! a = Tc_cons (xs ! j) d"
proof (induction j arbitrary: l as xs)
  case 0
  then show ?case by (cases as) (auto simp: list_seg_Cons)
next
  case (Suc j)
  then show ?case by (cases as) (auto simp: list_seg_Cons bind_run cons_cell_run)
qed

lemma mset_without: "j < length xs \<Longrightarrow> add_mset (xs ! j) (mset (nths xs {i. i \<noteq> j})) = mset xs"
proof (induction xs arbitrary: j)
  case (Cons x xs)
  have "{i. Suc i \<noteq> j} = (case j of 0 \<Rightarrow> UNIV | Suc j' \<Rightarrow> {i. i \<noteq> j'})" by (auto split: nat.split)
  then show ?case using Cons by (cases j) (auto simp: nths_Cons nths_all)
qed simp

lemma extends_only_changes:
  assumes "extends s s1" "only_changes A s1 s2" "\<And>a. a \<in> A \<Longrightarrow> length (cells s) \<le> a"
  shows "extends s s2"
proof -
  have "cells s2 ! a = cells s ! a" if "a < length (cells s)" for a
  proof -
    have "a \<notin> A" using assms(3) [of a] that by auto
    then show ?thesis using extends_nth [OF assms(1) that] assms(2) by (auto simp: only_changes_def)
  qed
  then have "take (length (cells s)) (cells s2) = cells s"
    using extends_length [OF assms(1)] assms(2) by (intro nth_equalityI) (auto simp: only_changes_def)
  moreover have eq: "s2 = s1\<lparr>cells := cells s2\<rparr>" using assms(2) by (simp add: only_changes_def)
  have "constants s2 = constants s1" "inums s2 = inums s1" "heap_size s2 = heap_size s1" "obarray_dim s2 = obarray_dim s1"
    "disk s2 = disk s1" "may_open s2 = may_open s1" "streams s2 = streams s1"
    "siod_verbose_level s2 = siod_verbose_level s1"
    by (subst eq, simp add: constants_def)+
  ultimately show ?thesis using assms(1) by (simp add: extends_def)
qed

lemma split_cost: "n = Suc m \<Longrightarrow> m = p + q \<Longrightarrow> Suc (m + p * p + q * q) \<le> n * (n :: nat)"
  by (simp add: algebra_simps)

text \<open>The last step joins two fresh lists around the mark.\<close>

lemma join_run:
  assumes "list_on s l1 bs xs" "list_on s l2 cs ys" "set bs \<inter> set cs = {}" "room 1 s"
  shows "\<exists>r s' ds. bindM (siod_cons mark l2) (siod_nconc l1) s = (Ret r, s') \<and> list_on s' r ds (xs @ mark # ys) \<and>
    only_changes (set bs) (grow [Tc_cons mark l2] s) s' \<and> set ds = insert (length (cells s)) (set bs \<union> set cs)"
proof -
  let ?n = "length (cells s)" and ?s = "grow [Tc_cons mark l2] s"
  have c: "siod_cons mark l2 s = (Ret (Ref ?n), ?s)" using assms(4) by (simp add: cons_run)
  have l1: "list_on ?s l1 bs xs" using assms(1) by (rule list_seg_grow)
  have p: "list_on ?s (Ref ?n) (?n # cs) (mark # ys)" using assms(2) by (rule list_seg_new_cons) simp
  show ?thesis
  proof (cases "bs = []")
    case True
    then have "l1 = NIL" "xs = []" using l1 by (cases xs; simp)+
    then show ?thesis using True c p by (intro exI [of _ "Ref ?n"] exI [of _ ?s] exI [of _ "?n # cs"]) (simp add: bind_run siod_nconc_def)
  next
    case False
    obtain s' where s': "siod_nconc l1 (Ref ?n) ?s = (Ret l1, s')" "only_changes {last bs} ?s s'" "list_seg s' l1 bs xs (Ref ?n)"
      using nconc_run [OF l1 False] by blast
    have "?n \<notin> set bs" using list_seg_addrs [OF assms(1)] by auto
    then have "set (?n # cs) \<inter> {last bs} = {}" using assms(3) last_in_set [OF False] by (auto simp del: last_in_set)
    then have "list_on s' (Ref ?n) (?n # cs) (mark # ys)" by (rule list_seg_only_changes [OF p s'(2)])
    with s'(3) have "list_on s' l1 (bs @ ?n # cs) (xs @ mark # ys)" by (rule list_seg_appendI)
    moreover have "only_changes (set bs) ?s s'" using s'(2) False by (rule_tac only_changes_mono) auto
    ultimately show ?thesis using c s'(1) by (intro exI [of _ l1] exI [of _ s'] exI [of _ "bs @ ?n # cs"]) (auto simp: bind_run)
  qed
qed

text \<open>
  The contract of the function a list is sorted with: a call that compares two elements changes nothing and says
  whether lt holds of them, now and when the store has grown; and lt is a strict order.
\<close>

locale order_call =
  fixes rc :: server and f g :: siod_LISP
    and element :: "siod \<Rightarrow> siod_LISP \<Rightarrow> bool"
    and lt :: "siod \<Rightarrow> siod_LISP \<Rightarrow> siod_LISP \<Rightarrow> bool"
  assumes call: "element s x \<Longrightarrow> element s y \<Longrightarrow> \<exists>r. compare_keys rc f g x y s = (Ret r, s) \<and> (r \<noteq> NIL) = lt s x y"
    and element_extends: "element s x \<Longrightarrow> extends s s' \<Longrightarrow> element s' x"
    and lt_extends: "element s x \<Longrightarrow> element s y \<Longrightarrow> extends s s' \<Longrightarrow> lt s' x y = lt s x y"
    and lt_asym: "lt s x y \<Longrightarrow> \<not> lt s y x"
    and lt_trans: "lt s x y \<Longrightarrow> lt s y z \<Longrightarrow> lt s x z"
begin

text \<open>The elements at the positions from n on that are not j.\<close>

abbreviation others_of :: "nat \<Rightarrow> nat \<Rightarrow> 'a list \<Rightarrow> 'a list" where
  "others_of j n xs \<equiv> nths xs {i. n + i \<noteq> j}"

lemma split_run:
  assumes "element s0 mark"
  shows "list_on s v as xs \<Longrightarrow> extends s0 s \<Longrightarrow> list_all (element s0) xs \<Longrightarrow> length as < k \<Longrightarrow> room (length xs) s \<Longrightarrow>
    list_on s lesser bs ls \<Longrightarrow> list_on s others cs hs \<Longrightarrow>
    \<exists>s' l h bs' cs'. qsort_split k rc f g mark j n v lesser others s = (Ret (l, h), s') \<and> extends s s' \<and>
      length (cells s') \<le> length (cells s) + length (others_of j n xs) \<and>
      list_on s' l bs' (rev (filter (\<lambda>x. lt s0 x mark) (others_of j n xs)) @ ls) \<and>
      list_on s' h cs' (rev (filter (\<lambda>x. \<not> lt s0 x mark) (others_of j n xs)) @ hs)"
proof (induction as arbitrary: s v xs k n lesser others bs ls cs hs)
  case Nil
  then show ?case by (cases k) (auto intro!: exI [of _ s])
next
  case (Cons a as)
  obtain x ys d k' where 1: "xs = x # ys" "v = Ref a" "a < length (cells s)" "cells s ! a = Tc_cons x d"
    "list_on s d as ys" "k = Suc k'" "length as < k'"
    using Cons.prems(1,4) by (cases k) (auto simp: list_seg_Cons)
  have next_others: "{i. Suc i \<in> {i. n + i \<noteq> j}} = {i. Suc n + i \<noteq> j}" by auto
  let ?step = "\<lambda>s1 l1 h1. \<exists>m. qsort_split k rc f g mark j n v lesser others s = m s1 \<and>
      m = bindM (CDR v) (\<lambda>d. qsort_split k' rc f g mark j (Suc n) d l1 h1)"
  have finish: "\<exists>s' l h bs' cs'. qsort_split k rc f g mark j n v lesser others s = (Ret (l, h), s') \<and> extends s s' \<and>
      length (cells s') \<le> length (cells s) + e + length (others_of j (Suc n) ys) \<and>
      list_on s' l bs' (rev (filter (\<lambda>x. lt s0 x mark) (others_of j (Suc n) ys)) @ ls1) \<and>
      list_on s' h cs' (rev (filter (\<lambda>x. \<not> lt s0 x mark) (others_of j (Suc n) ys)) @ hs1)"
    if "?step s1 l1 h1" "extends s s1" "length (cells s1) \<le> length (cells s) + e" "e \<le> 1" "list_on s1 l1 bs1 ls1" "list_on s1 h1 cs1 hs1"
    for s1 l1 h1 bs1 ls1 cs1 hs1 e
  proof -
    note h = that
    have a1: "a < length (cells s1)" "cells s1 ! a = Tc_cons x d"
      using extends_length [OF h(2)] extends_nth [OF h(2) 1(3)] 1(3,4) by simp_all
    have step: "qsort_split k rc f g mark j n v lesser others s = qsort_split k' rc f g mark j (Suc n) d l1 h1 s1"
      using h(1) cons_cell_run(4) [OF a1] 1(2) by (auto simp: bind_run)
    have "room (length ys) s1" using Cons.prems(5) h(2,3,4) 1(1) by (auto simp: room_def extends_def)
    moreover have "list_all (element s0) ys" using Cons.prems(3) 1(1) by simp
    ultimately obtain s' l h bs' cs' where
      "qsort_split k' rc f g mark j (Suc n) d l1 h1 s1 = (Ret (l, h), s')" "extends s1 s'"
      "length (cells s') \<le> length (cells s1) + length (others_of j (Suc n) ys)"
      "list_on s' l bs' (rev (filter (\<lambda>x. lt s0 x mark) (others_of j (Suc n) ys)) @ ls1)"
      "list_on s' h cs' (rev (filter (\<lambda>x. \<not> lt s0 x mark) (others_of j (Suc n) ys)) @ hs1)"
      using Cons.IH [OF extends_list [OF h(2) 1(5)] extends_trans [OF Cons.prems(2) h(2)] _ 1(7) _ h(5,6)] by blast
    then show ?thesis using step extends_trans [OF h(2)] h(3) 1(1) by (intro exI [of _ s'] exI [of _ l] exI [of _ h] exI [of _ bs'] exI [of _ cs']) simp
  qed
  show ?case
  proof (cases "j = n")
    case True
    then have "?step s lesser others" using 1(2,6) by (simp add: bind_run)
    from finish [OF this extends_refl _ _ Cons.prems(6,7), of 0] show ?thesis using True 1(1) by (simp add: nths_Cons next_others)
  next
    case False
    obtain r where r: "compare_keys rc f g x mark s = (Ret r, s)" "(r \<noteq> NIL) = lt s0 x mark"
      using call [of s x mark] element_extends [OF _ Cons.prems(2)] lt_extends [OF _ _ Cons.prems(2)] assms Cons.prems(3) 1(1)
      by auto
    let ?n = "Ref (length (cells s))"
    let ?s = "\<lambda>l. grow [Tc_cons x l] s"
    have c: "siod_cons x l s = (Ret ?n, ?s l)" for l using Cons.prems(5) 1(1) by (simp add: cons_run)
    show ?thesis
    proof (cases "lt s0 x mark")
      case True
      then have "?step (?s lesser) ?n others"
        using False 1(2,6) r c cons_cell_run [OF 1(3,4)] by (simp add: bind_run)
      from finish [OF this extends_grow _ _ list_seg_new_cons [OF Cons.prems(6) refl] list_seg_grow [OF Cons.prems(7)], of 1]
      show ?thesis using True False 1(1) by (simp add: nths_Cons next_others)
    next
      case ge: False
      then have "?step (?s others) lesser ?n"
        using False 1(2,6) r c cons_cell_run [OF 1(3,4)] by (simp add: bind_run)
      from finish [OF this extends_grow _ _ list_seg_grow [OF Cons.prems(6)] list_seg_new_cons [OF Cons.prems(7) refl], of 1]
      show ?thesis using ge False 1(1) by (simp add: nths_Cons next_others)
    qed
  qed
qed

lemma lt_sorted:
  assumes "sorted_wrt (\<lambda>x y. \<not> lt s y x) xs" "sorted_wrt (\<lambda>x y. \<not> lt s y x) ys"
    "\<forall>x\<in>set xs. lt s x m" "\<forall>y\<in>set ys. \<not> lt s y m"
  shows "sorted_wrt (\<lambda>x y. \<not> lt s y x) (xs @ m # ys)"
proof -
  have "\<not> lt s m x" if "x \<in> set xs" for x using assms(3) that lt_asym by blast
  moreover have "\<not> lt s y x" if "x \<in> set xs" "y \<in> set ys" for x y
    using assms(3,4) that lt_trans [of s y x m] by blast
  ultimately show ?thesis using assms by (auto simp: sorted_wrt_append)
qed

lemma lqsort_run:
  "list_on s l as xs \<Longrightarrow> extends s0 s \<Longrightarrow> list_all (element s0) xs \<Longrightarrow> length xs < k \<Longrightarrow> room (length xs * length xs) s \<Longrightarrow>
   \<exists>r seed' s' bs ys. siod_lqsort k rc rnd seed l f g s = (Ret (r, seed'), s') \<and> extends s s' \<and>
     length (cells s') \<le> length (cells s) + length xs * length xs \<and> list_on s' r bs ys \<and>
     mset ys = mset xs \<and> sorted_wrt (\<lambda>x y. \<not> lt s0 y x) ys \<and> (\<forall>b\<in>set bs. length (cells s) \<le> b)"
proof (induction k arbitrary: s l as xs seed)
  case (Suc k)
  let ?n = "length xs"
  have len: "length as = ?n" using Suc.prems(1) by (rule list_seg_length)
  have c: "conses (bound s) l 0 s = (Ret (NIL, ?n), s)"
    using conses_run [OF Suc.prems(1) list_on_bound [OF Suc.prems(1)]] len by simp
  show ?case
  proof (cases "xs = []")
    case True
    then show ?thesis
      using c Suc.prems(1) by (intro exI [of _ NIL] exI [of _ seed] exI [of _ s] exI [of _ "[]"]) (simp add: bind_run)
  next
    case False
    obtain i seed1 where i: "rnd seed = (i, seed1)" by fastforce
    let ?j = "i mod ?n"
    have j: "?j < ?n" using False by simp
    let ?m = "xs ! ?j"
    obtain a d where a: "cdr_times ?j l s = (Ret (Ref a), s)" "a < length (cells s)" "cells s ! a = Tc_cons ?m d"
      using cdr_times_run [OF Suc.prems(1)] j len by metis
    have m: "element s0 ?m" using Suc.prems(3) j by (simp add: list_all_length)
    let ?rest = "others_of ?j 0 xs"
    have rest: "add_mset ?m (mset ?rest) = mset xs" using mset_without [OF j] by simp
    then have rest_n: "Suc (length ?rest) = ?n" by (metis size_add_mset size_mset)
    have rest_el: "list_all (element s0) ?rest" using Suc.prems(3) set_nths_subset by (fastforce simp: list_all_iff)
    let ?lo = "rev (filter (\<lambda>x. lt s0 x ?m) ?rest)" and ?hi = "rev (filter (\<lambda>x. \<not> lt s0 x ?m) ?rest)"
    have sz: "length ?lo + length ?hi = length ?rest" by (simp add: sum_length_filter_compl)
    have "?n \<le> ?n * ?n" by (cases ?n) auto
    then have "room ?n s" using Suc.prems(5) unfolding room_def by linarith
    then obtain s1 lo hi as1 as2 where
      1: "qsort_split (bound s) rc f g ?m ?j 0 l NIL NIL s = (Ret (lo, hi), s1)" "extends s s1"
        "length (cells s1) \<le> length (cells s) + length ?rest" "list_on s1 lo as1 ?lo" "list_on s1 hi as2 ?hi"
      using split_run [OF m Suc.prems(1-3) list_on_bound [OF Suc.prems(1)],
          where j = ?j and n = 0 and lesser = NIL and bs = "[]" and ls = "[]" and others = NIL and cs = "[]" and hs = "[]"]
      by auto
    have n1: "length ?lo < k" "length ?hi < k" using sz rest_n Suc.prems(4) by linarith+
    have el: "list_all (element s0) ?lo" "list_all (element s0) ?hi" using rest_el by (auto simp: list_all_iff)
    let ?p = "length ?lo" and ?q = "length ?hi"
    have cost: "Suc (length ?rest + ?p * ?p + ?q * ?q) \<le> ?n * ?n"
      by (rule split_cost) (use sz rest_n in simp_all)
    have r1: "room (?p * ?p) s1" using cost 1(2,3) Suc.prems(5) by (simp add: room_def extends_def)
    obtain l1 seed2 s2 bs ys where
      2: "siod_lqsort k rc rnd seed1 lo f g s1 = (Ret (l1, seed2), s2)" "extends s1 s2"
        "length (cells s2) \<le> length (cells s1) + ?p * ?p" "list_on s2 l1 bs ys" "mset ys = mset ?lo"
        "sorted_wrt (\<lambda>x y. \<not> lt s0 y x) ys" "\<forall>b\<in>set bs. length (cells s1) \<le> b"
      using Suc.IH [OF 1(4) extends_trans [OF Suc.prems(2) 1(2)] el(1) n1(1) r1] by blast
    have e2: "extends s s2" using 1(2) 2(2) by (rule extends_trans)
    have r2: "room (?q * ?q) s2" using cost 1(3) 2(3) e2 Suc.prems(5) by (simp add: room_def extends_def)
    obtain l2 seed3 s3 cs zs where
      3: "siod_lqsort k rc rnd seed2 hi f g s2 = (Ret (l2, seed3), s3)" "extends s2 s3"
        "length (cells s3) \<le> length (cells s2) + ?q * ?q" "list_on s3 l2 cs zs" "mset zs = mset ?hi"
        "sorted_wrt (\<lambda>x y. \<not> lt s0 y x) zs" "\<forall>b\<in>set cs. length (cells s2) \<le> b"
      using Suc.IH [OF extends_list [OF 2(2) 1(5)] extends_trans [OF Suc.prems(2) e2] el(2) n1(2) r2] by blast
    have e3: "extends s s3" using e2 3(2) by (rule extends_trans)
    have "set bs \<inter> set cs = {}" using list_seg_addrs [OF 2(4)] 3(7) by fastforce
    moreover have n3: "Suc (length (cells s3)) \<le> length (cells s) + ?n * ?n" using cost 1(3) 2(3) 3(3) by linarith
    moreover have "room 1 s3" using e3 Suc.prems(5) n3 by (simp add: room_def extends_def)
    ultimately obtain r s4 ds where
      4: "bindM (siod_cons ?m l2) (siod_nconc l1) s3 = (Ret r, s4)" "list_on s4 r ds (ys @ ?m # zs)"
        "only_changes (set bs) (grow [Tc_cons ?m l2] s3) s4" "set ds = insert (length (cells s3)) (set bs \<union> set cs)"
      using join_run [OF extends_list [OF 3(2) 2(4)] 3(4)] by blast
    have len4: "length (cells s4) = Suc (length (cells s3))" using 4(3) by (simp add: only_changes_def)
    have ge: "length (cells s) \<le> b" if "b \<in> set ds" for b
      using that 4(4) 2(7) 3(7) extends_length [OF 1(2)] extends_length [OF 2(2)] extends_length [OF 3(2)] by fastforce
    have last: "bindM (siod_cons ?m l2) (\<lambda>p. bindM (siod_nconc l1 p) (\<lambda>r. ret (r, seed3))) s3 = (Ret (r, seed3), s4)"
      unfolding bindM_assoc [symmetric] using 4(1) by (simp add: bind_run)
    have "extends s s4"
      using extends_trans [OF e3 extends_grow] 4(3) by (rule extends_only_changes) (use ge 4(4) in auto)
    moreover have "siod_lqsort (Suc k) rc rnd seed l f g s = (Ret (r, seed3), s4)"
      using c i a(1) cons_cell_run(3) [OF a(2,3)] 1(1) 2(1) 3(1) last False by (simp add: bind_run)
    moreover have "mset (ys @ ?m # zs) = mset xs" using 2(5) 3(5) rest by (simp add: mset_filter)
    moreover have "sorted_wrt (\<lambda>x y. \<not> lt s0 y x) (ys @ ?m # zs)"
      by (rule lt_sorted [OF 2(6) 3(6)]) (use mset_eq_setD [OF 2(5)] mset_eq_setD [OF 3(5)] in auto)
    ultimately show ?thesis using 4(2) ge n3 len4 by (metis (no_types, lifting))
  qed
qed simp

end

section \<open>Sorting numbers\<close>

text \<open>The order of doubles is that of their values.\<close>

definition dvalue :: "double \<Rightarrow> real" where
  "dvalue d = (case d of DFin m e \<Rightarrow> real_of_int m * 2 powi e | _ \<Rightarrow> 0)"

definition drank :: "double \<Rightarrow> int" where
  "drank d = (case d of DInf neg \<Rightarrow> if neg then - 1 else 1 | _ \<Rightarrow> 0)"

lemma dlt_value:
  "dlt x y = (x \<noteq> DNaN \<and> y \<noteq> DNaN \<and> (drank x < drank y \<or> (drank x = 0 \<and> drank y = 0 \<and> dvalue x < dvalue y)))"
proof (cases "\<exists>m1 e1 m2 e2. x = DFin m1 e1 \<and> y = DFin m2 e2")
  case True
  then obtain m1 e1 m2 e2 where xy: "x = DFin m1 e1" "y = DFin m2 e2" by blast
  let ?e = "min e1 e2"
  have p: "real_of_int (pow2 (k - ?e)) = 2 powi (k - ?e)" if "?e \<le> k" for k
    using that by (simp add: pow2_def power_int_def)
  have s: "2 powi k = 2 powi (k - ?e) * (2 powi ?e :: real)" for k :: int
    by (simp add: power_int_add [symmetric])
  have "dvalue x < dvalue y \<longleftrightarrow> real_of_int (m1 * pow2 (e1 - ?e)) * 2 powi ?e < real_of_int (m2 * pow2 (e2 - ?e)) * 2 powi ?e"
    using p [of e1] p [of e2] s [of e1] s [of e2] by (simp add: dvalue_def xy mult.assoc)
  also have "\<dots> \<longleftrightarrow> m1 * pow2 (e1 - ?e) < m2 * pow2 (e2 - ?e)"
    by (simp only: mult_less_cancel_right_pos zero_less_power_int of_int_less_iff zero_less_numeral)
  finally show ?thesis by (simp add: xy drank_def Let_def)
next
  case False
  have "\<not> 2 powi k < (0 :: real)" for k :: int by (simp add: not_less)
  then show ?thesis
    using False by (cases x; cases y) (auto simp: dvalue_def drank_def zero_less_mult_iff mult_less_0_iff)
qed

lemma dlt_order: "dlt x y \<Longrightarrow> \<not> dlt y x" "dlt x y \<Longrightarrow> dlt y z \<Longrightarrow> dlt x z"
  by (auto simp: dlt_value)

definition num_at :: "siod \<Rightarrow> siod_LISP \<Rightarrow> double" where
  "num_at s x = (case obj_at s x of Some (Tc_flonum d) \<Rightarrow> d | _ \<Rightarrow> DNaN)"

definition numbers_and :: "siod_LISP \<Rightarrow> siod \<Rightarrow> siod_LISP \<Rightarrow> bool" where
  "numbers_and f s x = ((\<exists>name. obj_at s f = Some (Tc_subr_2 name F_lessp)) \<and> sym_t s \<noteq> NIL \<and>
     (\<exists>d. obj_at s x = Some (Tc_flonum d)))"

interpretation lessp: order_call "run (Suc n)" f NIL "numbers_and f" "\<lambda>s x y. dlt (num_at s x) (num_at s y)" for n f
proof
  show "\<exists>r. compare_keys (run (Suc n)) f NIL x y s = (Ret r, s) \<and> (r \<noteq> NIL) = dlt (num_at s x) (num_at s y)"
    if "numbers_and f s x" "numbers_and f s y" for s x y
    using that by (auto simp: numbers_and_def compare_keys_def key_of_def siod_funcall2_def bind_run obj_at_look
        serve_def siod_lessp_def num_test_def flonm_def num_at_def gets_def)
  show "numbers_and f s' x" if "numbers_and f s x" "extends s s'" for s s' x
    using that extends_obj_at [OF that(2)] by (auto simp: numbers_and_def extends_def constants_eq)
  show "dlt (num_at s' x) (num_at s' y) = dlt (num_at s x) (num_at s y)"
    if "numbers_and f s x" "numbers_and f s y" "extends s s'" for s s' x y
    using that extends_obj_at [OF that(3)] by (auto simp: numbers_and_def num_at_def)
qed (use dlt_order in blast)+

text \<open>
  C15. Sorting a list of numbers with the function of the symbol <, whatever numbers rand gives: qsort returns a
  new list of the same elements, in which none is less than one in front of it.  Every old cell is as it was,
  and the sort takes at most the square of the length of the list in new cells.
\<close>

theorem lqsort_sorts:
  assumes "list_on s l as xs" "\<forall>x\<in>set xs. \<exists>d. obj_at s x = Some (Tc_flonum d)"
    "obj_at s f = Some (Tc_subr_2 name F_lessp)" "sym_t s \<noteq> NIL" "length xs < k" "room (length xs * length xs) s"
  shows "\<exists>r seed' s' bs ys. siod_lqsort k (run (Suc n)) rnd seed l f NIL s = (Ret (r, seed'), s') \<and> extends s s' \<and>
    length (cells s') \<le> length (cells s) + length xs * length xs \<and>
    list_on s' r bs ys \<and> mset ys = mset xs \<and> sorted_wrt (\<lambda>x y. \<not> dlt (num_at s y) (num_at s x)) ys \<and>
    (\<forall>b\<in>set bs. length (cells s) \<le> b)"
  using assms by (intro lessp.lqsort_run) (auto simp: numbers_and_def list_all_iff)

definition sort_example :: siod where
  "sort_example = small_state [Tc_subr_2 ''<'' F_lessp, Tc_flonum (of_long 2), Tc_flonum (of_long 1),
     Tc_cons (Ref 3) NIL, Tc_cons (Ref 2) (Ref 4)]"

theorem lqsort_sorts_witness:
  "\<exists>r seed' s' bs. siod_lqsort 3 (run 1) (\<lambda>i. (i, i + 1)) (0 :: nat) (Ref 5) (Ref 1) NIL sort_example = (Ret (r, seed'), s') \<and>
     list_on s' r bs [Ref 3, Ref 2]"
proof -
  have l: "list_on sort_example (Ref 5) [5, 4] [Ref 2, Ref 3]" by (simp add: sort_example_def small_state_def)
  have d: "num_at sort_example (Ref 2) = of_long 2" "num_at sort_example (Ref 3) = of_long 1"
    by (simp_all add: num_at_def sort_example_def small_state_def obj_at_def)
  have e: "\<forall>x\<in>set [Ref 2, Ref 3]. \<exists>d. obj_at sort_example x = Some (Tc_flonum d)"
    "obj_at sort_example (Ref 1) = Some (Tc_subr_2 ''<'' F_lessp)" "sym_t sort_example \<noteq> NIL"
    "room (length [Ref 2, Ref 3] * length [Ref 2, Ref 3]) sort_example"
    by (simp_all add: sort_example_def small_state_def obj_at_def room_def)
  obtain r seed' s' bs ys where
    1: "siod_lqsort 3 (run 1) (\<lambda>i. (i, i + 1)) (0 :: nat) (Ref 5) (Ref 1) NIL sort_example = (Ret (r, seed'), s')"
      "list_on s' r bs ys" "mset ys = mset [Ref 2, Ref 3]"
      "sorted_wrt (\<lambda>x y. \<not> dlt (num_at sort_example y) (num_at sort_example x)) ys"
    using lqsort_sorts [OF l e(1-3) _ e(4), of 3 0 "\<lambda>i. (i, i + 1)" 0] by auto
  then have "length ys = 2" "set ys = {Ref 2, Ref 3}"
    using mset_eq_length [OF 1(3)] mset_eq_setD [OF 1(3)] by simp_all
  then obtain y1 y2 where "ys = [y1, y2]" "{y1, y2} = {Ref 2, Ref 3}" by (cases ys; cases "tl ys") auto
  then have "ys = [Ref 2, Ref 3] \<or> ys = [Ref 3, Ref 2]" by (auto simp: doubleton_eq_iff)
  then have "ys = [Ref 3, Ref 2]" using 1(4) dlt_of_long [of 1 2] by (auto simp: d)
  then show ?thesis using 1(1,2) by blast
qed

end
