(* ===== verification/Load.thy ===== *)
theory Load
  imports Reader Startup
begin

text \<open>
  Programs in files (slib.c): load with its option for another parser, require, and save-forms.
\<close>

text \<open>
  What loading depends on: the server of calls to the evaluator, the fuel of the reader and the printer and of the loop over the forms, what
  the C library prints, uninitialised memory, how far the reader gets where it fails, and the directory siod_lib.
\<close>

record load_env =
  le_rc :: server
  le_depth :: nat
  le_forms :: nat
  le_lib :: print_lib
  le_memory :: memory
  le_lost :: "char list \<Rightarrow> nat"
  siod_lib :: string

definition verbose_message :: "int \<Rightarrow> string list \<Rightarrow> unit act" where
  "verbose_message level ts = bindM (gets siod_verbose_level) (\<lambda>v.
     if level \<le> v then puts_list siod_put_st ts else ret ())"

section \<open>The name of the file\<close>

text \<open>A name may start with the number of bytes to skip and a bar.\<close>

definition split_offset :: "string \<Rightarrow> int \<times> string" where
  "split_offset ofname =
     (if CHR ''|'' \<in> set ofname
      then (c_atol ofname, drop (Suc (length (takeWhile (\<lambda>c. c \<noteq> CHR ''|'') ofname))) ofname)
      else (0, ofname))"

text \<open>Whether a file can be opened for reading; it is closed again.\<close>

definition probe_file :: "string \<Rightarrow> bool act" where
  "probe_file fname = bindM (c_fopen fname ''r'') (\<lambda>r. case r of
       Some f \<Rightarrow> bindM (c_fclose f) (\<lambda>_. ret True)
     | None \<Rightarrow> ret False)"

text \<open>A file that is not found is looked for in siod_lib, as far as the path fits a buffer of 512 bytes.\<close>

definition find_file :: "load_env \<Rightarrow> string \<Rightarrow> string act" where
  "find_file e fname = bindM (probe_file fname) (\<lambda>found.
     if found then ret fname
     else if (fname = [] \<or> hd fname \<noteq> CHR ''/'') \<and> length (siod_lib e) + length fname + 1 < 512
       then bindM (probe_file (siod_lib e @ ''/'' @ fname)) (\<lambda>found.
         ret (if found then siod_lib e @ ''/'' @ fname else fname))
     else ret fname)"

section \<open>The head of the file\<close>

text \<open>The lines that start with a number sign or a semicolon: their text, and what is behind them.\<close>

function skip_comments :: "char list \<Rightarrow> char list \<Rightarrow> char list \<times> char list" where
  "skip_comments t buffer = (case t of
       [] \<Rightarrow> (buffer, [])
     | c # r \<Rightarrow>
         if c = CHR ''#'' \<or> c = CHR '';'' then
           (let line = takeWhile (\<lambda>c. c \<noteq> CHR 0x0A) r in
            skip_comments (drop (Suc (length line)) r) (buffer @ line))
         else (buffer, t))"
  by pat_completeness auto
termination by (relation "measure (\<lambda>(t, b). length t)") auto

declare skip_comments.simps [simp del]

text \<open>The buffer keeps 511 characters and a NUL.\<close>

definition read_comments :: "nat \<Rightarrow> string act" where
  "read_comments f = on_stream f (\<lambda>st. bindM (gets (\<lambda>s. ahead s st)) (\<lambda>t.
     case skip_comments t [] of (buffer, rest) \<Rightarrow>
       bindM (set_stream f (advance (length t - length rest) st)) (\<lambda>_. ret (cstr (take 511 buffer)))))"

text \<open>The name of a parser, from parser:name in the comments.\<close>

definition parser_name :: "string \<Rightarrow> string option" where
  "parser_name buffer = (case strstr buffer ''parser:'' of
       None \<Rightarrow> None
     | Some i \<Rightarrow> Some (''parser_'' @ takeWhile c_isalnum (drop (i + 7) buffer)))"

fun skip_bytes :: "nat \<Rightarrow> nat \<Rightarrow> unit act" where
  "skip_bytes 0 f = ret ()"
| "skip_bytes (Suc n) f = bindM (c_getc f) (\<lambda>_. skip_bytes n f)"

section \<open>Load and require\<close>

definition read_form :: "load_env \<Rightarrow> siod_LISP \<Rightarrow> siod_LISP \<Rightarrow> siod_LISP act" where
  "read_form e reader lf =
     (if reader = NIL then siod_lread (le_memory e) (le_lost e) (le_rc e) (le_depth e) lf
      else siod_funcall1 (le_rc e) reader lf)"

text \<open>Evaluating the forms, or collecting them in a list with its last cons at tail.\<close>

fun load_forms :: "nat \<Rightarrow> load_env \<Rightarrow> bool \<Rightarrow> siod_LISP \<Rightarrow> siod_LISP \<Rightarrow> siod_LISP \<Rightarrow> siod_LISP \<Rightarrow> siod_LISP act" where
  "load_forms 0 e cflag reader lf result tail = nofuel"
| "load_forms (Suc k) e cflag reader lf result tail = bindM (read_form e reader lf) (\<lambda>form. bindM (gets eof_val) (\<lambda>eof.
     if form = eof then ret result
     else bindM (gets siod_verbose_level) (\<lambda>v.
       bindM (if 5 \<le> v then siod_lprint (le_lib e) (le_depth e) form NIL else ret NIL) (\<lambda>_.
       if cflag then bindM (siod_cons form NIL) (\<lambda>p.
         if result = NIL then load_forms k e cflag reader lf p p
         else bindM (siod_setcdr tail p) (load_forms k e cflag reader lf result))
       else bindM (ev (le_rc e) form NIL) (\<lambda>_. load_forms k e cflag reader lf result tail)))))"

text \<open>The fuel bounds how deep the files for parsers are nested.\<close>

fun siod_vload :: "nat \<Rightarrow> load_env \<Rightarrow> string \<Rightarrow> bool \<Rightarrow> bool \<Rightarrow> siod_LISP act"
  and siod_load :: "nat \<Rightarrow> load_env \<Rightarrow> siod_LISP \<Rightarrow> siod_LISP \<Rightarrow> siod_LISP \<Rightarrow> siod_LISP act"
  and siod_require :: "nat \<Rightarrow> load_env \<Rightarrow> siod_LISP \<Rightarrow> siod_LISP act" where
  "siod_vload 0 e ofname cflag rflag = nofuel"
| "siod_vload (Suc d) e ofname cflag rflag = (case split_offset ofname of (len, fname0) \<Rightarrow>
     bindM (if rflag then find_file e fname0 else ret fname0) (\<lambda>fname.
     bindM (verbose_message 3 [''siod_loading '', fname, [CHR 0x0A]]) (\<lambda>_.
     bindM (siod_fopen_c fname (if len \<noteq> 0 then ''rb'' else ''r'')) (\<lambda>lf.
     bindM (siod_get_c_file lf None) (\<lambda>f.
     bindM (skip_bytes (nat len) f) (\<lambda>_.
     bindM (read_comments f) (\<lambda>buffer.
     bindM (case parser_name buffer of
         None \<Rightarrow> ret NIL
       | Some name \<Rightarrow>
           if 512 \<le> length name + 4 then undef
           else bindM (siod_strcons (name @ ''.scm'')) (\<lambda>st. bindM (siod_require d e st) (\<lambda>_.
             bindM (siod_rintern name) (\<lambda>sym. bindM (ev (le_rc e) sym NIL) (\<lambda>fcn.
             bindM (siod_funcall1 (le_rc e) fcn sym) (\<lambda>reader. bindM (gets siod_verbose_level) (\<lambda>v.
             bindM (if 5 \<le> v then bindM (siod_put_st ''parser:'') (\<lambda>_.
                 bindM (siod_lprin1 (le_lib e) (le_depth e) reader NIL) (\<lambda>_. siod_put_st [CHR 0x0A])) else ret ()) (\<lambda>_.
             ret reader)))))))) (\<lambda>reader.
     bindM (load_forms (le_forms e) e cflag reader lf NIL NIL) (\<lambda>result.
     bindM (siod_fclose_l lf) (\<lambda>_.
     bindM (verbose_message 3 [''done.'' @ [CHR 0x0A]]) (\<lambda>_. ret result)))))))))))"
| "siod_load 0 e fname cflag rflag = nofuel"
| "siod_load (Suc d) e fname cflag rflag = bindM (get_c_string fname) (\<lambda>name.
     siod_vload d e name (cflag \<noteq> NIL) (rflag \<noteq> NIL))"
| "siod_require 0 e fname = nofuel"
| "siod_require (Suc d) e fname =
     bindM (siod_cintern ''*'') (\<lambda>star. bindM (siod_cintern ''-siod_loaded*'') (\<lambda>suffix.
     bindM (siod_cons suffix NIL) (\<lambda>p1. bindM (siod_cons fname p1) (\<lambda>p2. bindM (siod_cons star p2) (\<lambda>p3.
     bindM (siod_string_append p3) (\<lambda>name. bindM (siod_intern name) (\<lambda>sym.
     bindM (bindM (siod_symbol_boundp sym NIL) (\<lambda>b.
         if b = NIL then ret True else bindM (siod_symbol_value sym NIL) (\<lambda>v. ret (v = NIL)))) (\<lambda>missing.
     bindM (if missing then bindM (gets sym_t) (\<lambda>t. bindM (siod_load d e fname NIL t) (\<lambda>_.
         bindM (gets sym_t) (\<lambda>t. siod_setvar sym t NIL))) else ret NIL) (\<lambda>_. ret sym)))))))))"

section \<open>Saving\<close>

fun save_loop :: "nat \<Rightarrow> load_env \<Rightarrow> nat \<Rightarrow> siod_LISP \<Rightarrow> unit act" where
  "save_loop 0 e f l = nofuel"
| "save_loop (Suc k) e f l =
     (if l = NIL then ret ()
      else bindM (siod_car l) (\<lambda>x. bindM (siod_lprin1f (le_lib e) (le_depth e) x f) (\<lambda>_.
        bindM (c_write f [CHR 0x0A]) (\<lambda>_. bindM (siod_cdr l) (save_loop k e f)))))"

definition siod_save_forms :: "load_env \<Rightarrow> siod_LISP \<Rightarrow> siod_LISP \<Rightarrow> siod_LISP \<Rightarrow> siod_LISP act" where
  "siod_save_forms e fname forms how = bindM (get_c_string fname) (\<lambda>cname.
     bindM (if how = NIL then ret ''w''
       else bindM (siod_cintern ''a'') (\<lambda>a. if how = a then ret ''a'' else errm ''bad argument to save-forms'' how)) (\<lambda>chow.
     bindM (verbose_message 3 [if chow = ''a'' then ''siod_appending'' else ''saving'', '' forms to '', cname, [CHR 0x0A]]) (\<lambda>_.
     bindM (siod_fopen_c cname chow) (\<lambda>lf. bindM (siod_get_c_file lf None) (\<lambda>f.
     bindM (gets bound) (\<lambda>k. bindM (save_loop k e f forms) (\<lambda>_.
     bindM (siod_fclose_l lf) (\<lambda>_. bindM (verbose_message 3 [''done.'' @ [CHR 0x0A]]) (\<lambda>_. gets sym_t)))))))))"

section \<open>Loading keeps the invariant\<close>

lemma ok_puts_list_put_st: "okU s (puts_list siod_put_st ts)"
  by (rule ok_puts_list) (simp add: siod_put_st_def ok_fput_st)

lemma ok_verbose_message: "okU s (verbose_message v ts)"
  unfolding verbose_message_def by (intro okM_bind_gets okM_if ok_puts_list_put_st okM_ret TrueI)

lemma ok_probe_file: "okU s (probe_file n)"
  unfolding probe_file_def by (rule okU_library) (auto split: option.split intro!: okM_ret okU_library)

lemma ok_find_file: "okU s (find_file e n)"
  unfolding find_file_def by (intro okU_bind [OF ok_probe_file] okM_if okM_ret TrueI)

lemma ok_skip_bytes: "okU s (skip_bytes n f)"
  by (induction n arbitrary: s) (auto intro!: okM_ret okU_library)

lemma ok_read_comments: "okU s (read_comments f)"
  unfolding read_comments_def
  by (intro ok_on_stream okM_bind_gets) (auto split: prod.split intro!: okM_ret okU_library)

context sound_server
begin

lemma ok_read_form: "le_rc e = rc \<Longrightarrow> ref_ok s reader \<Longrightarrow> ref_ok s lf \<Longrightarrow> okR s (read_form e reader lf)"
  unfolding read_form_def by (simp add: ok_lread ok_funcall1)

lemma ok_load_forms:
  "le_rc e = rc \<Longrightarrow> ref_ok s reader \<Longrightarrow> ref_ok s lf \<Longrightarrow> ref_ok s result \<Longrightarrow> ref_ok s tail \<Longrightarrow> okR s (load_forms k e cflag reader lf result tail)"
proof (induction k arbitrary: s result tail)
  case (Suc k)
  have print: "okU s (if 5 \<le> v then siod_lprint lib d form NIL else ret NIL)" for s lib d form and v :: int
    by (intro okM_if okM_ret TrueI okM_weaken [OF ok_console(1)]) simp_all
  show ?case
    unfolding load_forms.simps Suc.prems(1)
    by (intro okR_bind [OF ok_read_form] okM_bind_gets okM_if okM_ret okU_bind [OF print] okR_bind [OF ok_cons]
        okR_bind [OF ok_setcdr] okR_bind [OF ok_ev] Suc.IH Suc.prems(1)) (use Suc.prems in \<open>(meson ref_ok_later ref_ok_NIL)+\<close>)
qed (simp add: okM_stop)

lemma ok_loads:
  assumes e: "le_rc e = rc"
  shows "okR s (siod_vload d e name cflag rflag)"
  "ref_ok s fname \<Longrightarrow> okR s (siod_load d e fname c r)"
  "ref_ok s fname \<Longrightarrow> okR s (siod_require d e fname)"
proof (induction d arbitrary: s name fname cflag rflag c r)
  case (Suc d)
  {
    case 1
    have parser: "okR s (case parser_name buffer of
         None \<Rightarrow> ret NIL
       | Some name \<Rightarrow>
           if 512 \<le> length name + 4 then undef
           else bindM (siod_strcons (name @ ''.scm'')) (\<lambda>st. bindM (siod_require d e st) (\<lambda>_.
             bindM (siod_rintern name) (\<lambda>sym. bindM (ev (le_rc e) sym NIL) (\<lambda>fcn.
             bindM (siod_funcall1 (le_rc e) fcn sym) (\<lambda>reader. bindM (gets siod_verbose_level) (\<lambda>v.
             bindM (if 5 \<le> v then bindM (siod_put_st ''parser:'') (\<lambda>_.
                 bindM (siod_lprin1 (le_lib e) (le_depth e) reader NIL) (\<lambda>_. siod_put_st [CHR 0x0A])) else ret ()) (\<lambda>_.
             ret reader))))))))" for s buffer
    proof (cases "parser_name buffer")
      case (Some name)
      have put: "okU s (siod_put_st t)" for s t by (simp add: siod_put_st_def ok_fput_st)
      show ?thesis
        unfolding Some option.simps e
        by (intro okM_if okM_stop okR_bind [OF ok_strcons] okR_bind [OF Suc.IH(3)] okR_bind [OF ok_interns(2)]
            okR_bind [OF ok_ev] okR_bind [OF ok_funcall1] okM_bind_gets okU_bind [OF okM_if] okM_ret okU_bind [OF put]
            okR_bind [OF ok_console(2)] put TrueI ref_ok_NIL) (assumption | meson ref_ok_later)+
    qed (simp add: okM_ret)
    show ?case
      unfolding siod_vload.simps
      by (auto split: prod.split intro!: okU_bind [OF okM_if] okU_bind [OF ok_find_file] okM_ret ok_find_file
          okU_bind [OF ok_verbose_message] okR_bind [OF ok_fopen_c] okU_bind [OF ok_get_c_file] okU_bind [OF ok_skip_bytes]
          okU_bind [OF ok_read_comments] okR_bind [OF parser] okR_bind [OF ok_load_forms [OF e]] okR_bind [OF ok_fclose_l])
        (meson ref_ok_later)+
  next
    case 2
    show ?case
      unfolding siod_load.simps by (intro okU_bind [OF ok_get_c_string] Suc.IH(1))
  next
    case 3
    have missing: "okU s (bindM (siod_symbol_boundp x NIL) (\<lambda>b.
         if b = NIL then ret True else bindM (siod_symbol_value x NIL) (\<lambda>v. ret (v = NIL))))" if "ref_ok s x" for s x
      using that by (intro okR_bind [OF ok_symbol_boundp] okM_if okM_ret okR_bind [OF ok_symbol_value] TrueI ref_ok_NIL)
        (assumption | meson ref_ok_later)+
    have load: "okU s (if m then bindM (gets sym_t) (\<lambda>t. bindM (siod_load d e fname NIL t) (\<lambda>_.
         bindM (gets sym_t) (\<lambda>t. siod_setvar x t NIL))) else ret NIL)" if "ref_ok s x" "ref_ok s fname" for s x m
      using that by (intro okM_if okM_bind_gets okR_bind [OF Suc.IH(2)] okM_weaken [OF ok_setvar] okM_ret TrueI ref_ok_NIL)
        (assumption | (rule wf_global_refs, assumption) | meson ref_ok_later)+
    show ?case
      unfolding siod_require.simps
      by (intro okR_bind [OF ok_interns(1)] okR_bind [OF ok_cons] okR_bind [OF ok_string_append] okR_bind [OF ok_interns(3)]
          okU_bind [OF missing] okU_bind [OF load] okM_ret) (use 3 in \<open>(assumption | meson ref_ok_later ref_ok_NIL)+\<close>)
  }
qed (simp_all add: okM_stop)

end

end
