(* ===== verification/Load_Facts.thy ===== *)
theory Load_Facts
  imports Load Repl_Facts
begin

text \<open>
  What save-forms writes, load reads back: the stream of a file as a sink of the printer and as a source of the reader,
  and the round trip of a list of forms through a file.
\<close>

section \<open>Reading does not change the text of a source\<close>

definition keeps :: "readio \<Rightarrow> ('a \<times> readio) act \<Rightarrow> bool" where
  "keeps f m = (\<forall>s x f' s'. m s = (Ret (x, f'), s') \<longrightarrow> rd_text f' = rd_text f \<and> rd_file f' = rd_file f)"

lemma keeps_bind:
  assumes "keeps f m" "\<And>x f'. rd_text f' = rd_text f \<Longrightarrow> rd_file f' = rd_file f \<Longrightarrow> keeps f' (g (x, f'))"
  shows "keeps f (bindM m g)"
  unfolding keeps_def
proof (intro allI impI)
  fix s x f' s'
  assume r: "bindM m g s = (Ret (x, f'), s')"
  then obtain y f1 s1 where 1: "m s = (Ret (y, f1), s1)" "g (y, f1) s1 = (Ret (x, f'), s')"
    by (auto elim: bindM_RetE)
  then have "rd_text f1 = rd_text f" "rd_file f1 = rd_file f" using assms(1) by (auto simp: keeps_def)
  then show "rd_text f' = rd_text f \<and> rd_file f' = rd_file f" using assms(2) 1(2) unfolding keeps_def by metis
qed

lemma keeps_seq: "(\<And>a. keeps f (g a)) \<Longrightarrow> keeps f (bindM m g)"
  unfolding keeps_def by (metis bindM_RetE)

lemma keeps_simple:
  "rd_text f' = rd_text f \<Longrightarrow> rd_file f' = rd_file f \<Longrightarrow> keeps f (ret (x, f'))"
  "keeps f undef" "keeps f nofuel" "keeps f (err m y)"
  by (simp_all add: keeps_def undef_def nofuel_def ret_def)

lemma keeps_other: "keeps f' m \<Longrightarrow> rd_text f' = rd_text f \<Longrightarrow> rd_file f' = rd_file f \<Longrightarrow> keeps f m"
  by (simp add: keeps_def)

lemma same_UNGETC [simp]: "rd_text (UNGETC_FCN c f) = rd_text f" "rd_file (UNGETC_FCN c f) = rd_file f"
  by (simp_all add: UNGETC_FCN_def siod_f_ungetc_def siod_rfs_ungetc_def)

lemma same_GETC: "GETC_FCN f = (c, f') \<Longrightarrow> rd_text f' = rd_text f \<and> rd_file f' = rd_file f"
  "(c, f') = GETC_FCN f \<Longrightarrow> rd_text f' = rd_text f \<and> rd_file f' = rd_file f"
  by (auto simp: GETC_FCN_def siod_f_getc_def siod_rfs_getc_def split: if_splits)

lemma same_skip_ws: "skip_ws b f = (c, f') \<Longrightarrow> rd_text f' = rd_text f \<and> rd_file f' = rd_file f"
proof (induction b f arbitrary: c f' rule: skip_ws.induct)
  case (1 b f)
  obtain oc f1 where g: "GETC_FCN f = (oc, f1)" by (cases "GETC_FCN f")
  note s = same_GETC(1) [OF g]
  show ?case
  proof (cases oc)
    case None
    then show ?thesis using 1(4) g s by (simp add: skip_ws.simps [of b f])
  next
    case (Some ch)
    then show ?thesis
      using 1(4) g s 1(1) [OF g [unfolded Some, symmetric] refl] 1(2,3) [OF g [unfolded Some, symmetric] refl]
      by (auto simp: skip_ws.simps [of b f] split: if_splits)
  qed
qed

lemma same_read_token: "read_token n buf f = Some (t, f') \<Longrightarrow> rd_text f' = rd_text f \<and> rd_file f' = rd_file f"
  by (induction n arbitrary: buf f) (auto split: prod.splits option.splits if_splits dest!: same_GETC)

lemma same_read_octal: "read_octal n f = (r, f') \<Longrightarrow> rd_text f' = rd_text f \<and> rd_file f' = rd_file f"
proof (induction n f arbitrary: r f' rule: read_octal.induct)
  case (1 n f)
  obtain oc f1 where g: "GETC_FCN f = (oc, f1)" by (cases "GETC_FCN f")
  note s = same_GETC(1) [OF g]
  note r = 1(2) [unfolded read_octal.simps [of n f] g prod.case]
  show ?case
  proof (cases oc)
    case None
    then show ?thesis using r s by simp
  next
    case (Some c)
    show ?thesis
    proof (cases "c_isdigit c \<and> n * 8 + of_char c < 2 ^ 31")
      case True
      then show ?thesis using 1(1) [OF g [unfolded Some, symmetric] refl, of r f'] r s by (simp only: Some option.case if_True simp_thms)
    next
      case False
      then show ?thesis using r s Some by (cases "c_isdigit c") auto
    qed
  qed
qed

lemma keeps_flush: "keeps f (siod_flush_ws f m)"
  unfolding siod_flush_ws_def by (auto split: prod.split option.split intro!: keeps_simple dest!: same_skip_ws)

lemma keeps_escape: "keeps f (read_escape c f)"
  unfolding read_escape_def
  by (auto split: prod.split sum.split option.split intro!: keeps_simple dest!: same_read_octal)

lemma keeps_if: "(b \<Longrightarrow> keeps f m) \<Longrightarrow> (\<not> b \<Longrightarrow> keeps f n) \<Longrightarrow> keeps f (if b then m else n)"
  by simp

lemma keeps_read_string: "keeps f (read_string k buf f)"
proof (induction k arbitrary: buf f)
  case (Suc k)
  have char: "keeps f1 (if c = CHR 0x5C then (case GETC_FCN f1 of
                         (None, f2) \<Rightarrow> errm m NIL
                       | (Some c2, f2) \<Rightarrow> read_escape c2 f2)
                     else ret (c, f1))" for f1 c m
    by (auto split: prod.split option.split intro!: keeps_simple keeps_other [OF keeps_escape] dest!: same_GETC)
  have step: "keeps f (bindM (if c = CHR 0x5C then (case GETC_FCN f1 of
                         (None, f2) \<Rightarrow> errm (''eof after '' @ [CHR 0x5C]) NIL
                       | (Some c2, f2) \<Rightarrow> read_escape c2 f2)
                     else ret (c, f1)) (\<lambda>(c, f2).
              if 5120 \<le> length buf + 1 then errm ''read string overflow'' NIL
              else read_string k (buf @ [c]) f2))" if "rd_text f1 = rd_text f" "rd_file f1 = rd_file f" for f1 c
    using that by (intro keeps_bind [OF keeps_other [OF char]]) (auto intro!: keeps_simple Suc.IH)
  obtain oc f1 where g: "GETC_FCN f = (oc, f1)" by (cases "GETC_FCN f")
  note s = same_GETC(1) [OF g]
  show ?case
    unfolding read_string.simps g prod.case
    by (cases oc; simp only: option.case) (intro keeps_if keeps_simple step s [THEN conjunct1] s [THEN conjunct2])+
qed (simp add: keeps_simple)

lemma keeps_lreadstring: "keeps f (siod_lreadstring f)"
  unfolding siod_lreadstring_def
  by (rule keeps_bind [OF keeps_read_string]) (auto intro!: keeps_seq keeps_simple)

lemma keeps_lreadsharp:
  assumes "\<And>f. keeps f (rd f)" shows "keeps f (siod_lreadsharp mem rc rd f)"
proof -
  have array: "keeps f (bindM (rd f) (\<lambda>(x, f2).
           bindM (siod_nlength x) (\<lambda>len. bindM (siod_ar_cons mem 16 len True) (\<lambda>result.
           bindM (fill_array len result 0 x) (\<lambda>_. ret (result, f2))))))" for f
    by (rule keeps_bind [OF assms]) (auto intro!: keeps_seq keeps_simple)
  have eval: "keeps f (bindM (rd f) (\<lambda>(x, f2). bindM (ev rc x NIL) (\<lambda>v. ret (v, f2))))" for f
    by (rule keeps_bind [OF assms]) (auto intro!: keeps_seq keeps_simple)
  obtain oc f1 where g: "GETC_FCN f = (oc, f1)" by (cases "GETC_FCN f")
  note s = same_GETC(1) [OF g]
  show ?thesis
    unfolding siod_lreadsharp_def g prod.case
    by (cases oc; simp only: option.case)
      (intro keeps_if keeps_simple keeps_other [OF array] keeps_other [OF eval] keeps_seq; simp add: s)+
qed

lemma keeps_lreadr: "keeps f (siod_lreadr mem rc k f)"
  and keeps_lreadparen: "keeps f (siod_lreadparen mem rc k f)"
proof (induction k arbitrary: f)
  case (Suc k)
  note rd = keeps_other [OF Suc.IH(1)] and par = keeps_other [OF Suc.IH(2)]
  have comma: "comma_name f1 = (p, f2) \<Longrightarrow> rd_text f2 = rd_text f1 \<and> rd_file f2 = rd_file f1" for f1 p f2
    by (auto simp: comma_name_def split: prod.splits if_splits dest!: same_GETC)
  {
    case 1
    have quote: "keeps f (bindM (siod_lreadr mem rc k f) (\<lambda>(x, f2). bindM (siod_cons x NIL) (\<lambda>p.
           bindM (gets sym_quote) (\<lambda>q. bindM (siod_cons q p) (\<lambda>r. ret (r, f2))))))" for f
      by (rule keeps_bind [OF Suc.IH(1)]) (auto intro!: keeps_seq keeps_simple)
    have marked: "keeps f1 (bindM (siod_cintern m) (\<lambda>q. bindM (siod_lreadr mem rc k f) (\<lambda>(x, f2).
           bindM (siod_cons q x) (\<lambda>r. ret (r, f2)))))" if "rd_text f = rd_text f1" "rd_file f = rd_file f1" for f f1 m
      by (rule keeps_seq, rule keeps_bind [OF keeps_other [OF Suc.IH(1) that]]) (auto intro!: keeps_seq keeps_simple)
    have comma: "keeps f (case comma_name f of (p, f2) \<Rightarrow> bindM (siod_cintern p) (\<lambda>q.
           bindM (siod_lreadr mem rc k f2) (\<lambda>(x, f3). bindM (siod_cons q x) (\<lambda>r. ret (r, f3)))))" for f
      using comma [of f] by (cases "comma_name f") (simp add: marked)
    have token: "keeps f (case read_token 5119 [c] f of
             None \<Rightarrow> errm ''token larger than TKBUFFERN'' NIL
           | Some (buf, f2) \<Rightarrow> bindM (siod_lreadtk buf) (\<lambda>x. ret (x, f2)))" for f c
      by (auto split: option.split intro!: keeps_simple keeps_seq dest: same_read_token simp del: read_token.simps)
    have char: "keeps f (if c = CHR ''('' then siod_lreadparen mem rc k f
         else if c = CHR '')'' then errm ''unexpected close paren'' NIL
         else if c = CHR 0x27 then bindM (siod_lreadr mem rc k f) (\<lambda>(x, f2). bindM (siod_cons x NIL) (\<lambda>p.
           bindM (gets sym_quote) (\<lambda>q. bindM (siod_cons q p) (\<lambda>r. ret (r, f2)))))
         else if c = CHR 0x60 then bindM (siod_cintern ''+siod_internal-backquote'') (\<lambda>q.
           bindM (siod_lreadr mem rc k f) (\<lambda>(x, f2). bindM (siod_cons q x) (\<lambda>r. ret (r, f2))))
         else if c = CHR '','' then (case comma_name f of (p, f2) \<Rightarrow>
           bindM (siod_cintern p) (\<lambda>q. bindM (siod_lreadr mem rc k f2) (\<lambda>(x, f3).
             bindM (siod_cons q x) (\<lambda>r. ret (r, f3)))))
         else if c = CHR 0x22 then siod_lreadstring f
         else if c = CHR ''#'' then siod_lreadsharp mem rc (siod_lreadr mem rc k) f
         else (case read_token 5119 [c] f of
             None \<Rightarrow> errm ''token larger than TKBUFFERN'' NIL
           | Some (buf, f2) \<Rightarrow> bindM (siod_lreadtk buf) (\<lambda>x. ret (x, f2))))" for f c
      by (intro keeps_if keeps_simple(4) Suc.IH(2) quote marked refl comma keeps_lreadstring keeps_lreadsharp Suc.IH(1) token)
    show ?case
      unfolding siod_lreadr.simps
    proof (rule keeps_bind [OF keeps_flush])
      fix oc :: "char option" and f'
      show "keeps f' (case (oc, f') of (oc, f1) \<Rightarrow> (case oc of
       None \<Rightarrow> undef
     | Some c \<Rightarrow>
         if c = CHR ''('' then siod_lreadparen mem rc k f1
         else if c = CHR '')'' then errm ''unexpected close paren'' NIL
         else if c = CHR 0x27 then bindM (siod_lreadr mem rc k f1) (\<lambda>(x, f2). bindM (siod_cons x NIL) (\<lambda>p.
           bindM (gets sym_quote) (\<lambda>q. bindM (siod_cons q p) (\<lambda>r. ret (r, f2)))))
         else if c = CHR 0x60 then bindM (siod_cintern ''+siod_internal-backquote'') (\<lambda>q.
           bindM (siod_lreadr mem rc k f1) (\<lambda>(x, f2). bindM (siod_cons q x) (\<lambda>r. ret (r, f2))))
         else if c = CHR '','' then (case comma_name f1 of (p, f2) \<Rightarrow>
           bindM (siod_cintern p) (\<lambda>q. bindM (siod_lreadr mem rc k f2) (\<lambda>(x, f3).
             bindM (siod_cons q x) (\<lambda>r. ret (r, f3)))))
         else if c = CHR 0x22 then siod_lreadstring f1
         else if c = CHR ''#'' then siod_lreadsharp mem rc (siod_lreadr mem rc k) f1
         else (case read_token 5119 [c] f1 of
             None \<Rightarrow> errm ''token larger than TKBUFFERN'' NIL
           | Some (buf, f2) \<Rightarrow> bindM (siod_lreadtk buf) (\<lambda>x. ret (x, f2)))))"
        unfolding prod.case by (cases oc; simp only: option.case) (rule keeps_simple(2) char)+
    qed
  next
    case 2
    have dot: "keeps f (bindM (siod_lreadr mem rc k f) (\<lambda>(tmp, f3).
         bindM (siod_flush_ws f3 (Some ''end of file inside list'')) (\<lambda>(c, f4).
         if c \<noteq> Some (CHR '')'') then errm ''missing close paren'' NIL else ret (tmp, f4))))" for f
      by (rule keeps_bind [OF Suc.IH(1)]) (auto intro!: keeps_bind [OF keeps_flush] keeps_simple keeps_if)
    have cdr: "keeps f (bindM (siod_lreadparen mem rc k f) (\<lambda>(d, f3). bindM (siod_cons x d) (\<lambda>r. ret (r, f3))))" for x f
      by (rule keeps_bind [OF Suc.IH(2)]) (auto intro!: keeps_seq keeps_simple)
    have item: "keeps f (bindM (siod_lreadr mem rc k (UNGETC_FCN c f)) (\<lambda>(tmp, f2). bindM (gets sym_dot) (\<lambda>dot.
       if tmp = dot
       then bindM (siod_lreadr mem rc k f2) (\<lambda>(tmp, f3).
         bindM (siod_flush_ws f3 (Some ''end of file inside list'')) (\<lambda>(c, f4).
         if c \<noteq> Some (CHR '')'') then errm ''missing close paren'' NIL else ret (tmp, f4)))
       else bindM (siod_lreadparen mem rc k f2) (\<lambda>(d, f3). bindM (siod_cons tmp d) (\<lambda>r. ret (r, f3))))))" for f c
      by (rule keeps_bind [OF rd]) (auto intro!: keeps_seq keeps_if dot cdr)
    show ?case
      unfolding siod_lreadparen.simps
      by (rule keeps_bind [OF keeps_flush]) (auto intro!: keeps_simple keeps_if item)
  }
qed (simp_all add: keeps_simple)

lemma keeps_readtl: "keeps f (siod_readtl mem rc k f)"
  unfolding siod_readtl_def
  by (rule keeps_bind [OF keeps_flush])
    (auto intro!: keeps_seq keeps_if keeps_simple keeps_other [OF keeps_lreadr])

section \<open>The stream of a file as a sink\<close>

definition file_put :: "nat \<Rightarrow> string \<Rightarrow> siod \<Rightarrow> siod" where
  "file_put f t s = (let st = streams s ! f in
     s\<lparr>disk := (disk s)(st_path st := Some (content s st @ t)),
       streams := (streams s)[f := st\<lparr>st_pos := st_pos st + length t, st_back := []\<rparr>]\<rparr>)"

definition file_fits :: "nat \<Rightarrow> nat \<Rightarrow> siod \<Rightarrow> bool" where
  "file_fits f n s = (let st = streams s ! f in f \<noteq> c_stdout \<and> f < length (streams s) \<and> st_open st \<and> st_writes st \<and>
     st_back st = [] \<and> disk s (st_path st) = Some (content s st) \<and> st_pos st = length (content s st))"

lemma file_write:
  assumes "file_fits f n s" shows "siod_fput_st f t s = (Ret (), file_put f t s)"
  using assms
  by (auto simp: siod_fput_st_def c_write_def on_stream_def set_stream_def file_put_def file_fits_def Let_def bindM_def
      gets_def modifyM_def write_at_def)

lemma obj_at_files [simp]: "obj_at (s\<lparr>disk := d, streams := x\<rparr>) y = obj_at s y" "obj_at (s\<lparr>streams := x\<rparr>) y = obj_at s y"
  "obj_at (s\<lparr>disk := d\<rparr>) y = obj_at s y"
  by (cases y; simp add: obj_at_def)+

interpretation file_sink: sink "siod_fput_st f" "file_put f" "file_fits f" "\<lambda>_. True" for f
proof unfold_locales
  show "siod_fput_st f t s = (Ret (), file_put f t s)" if "file_fits f (length t) s" for t s
    using that by (rule file_write)
  show "file_fits f n (file_put f t s)" if "file_fits f (length t + n) s" for t n s
    using that by (auto simp: file_fits_def file_put_def Let_def content_def)
  show "file_fits f m s" if "file_fits f n s" for n m s
    using that by (simp add: file_fits_def)
  show "file_put f [] s = s" if "file_fits f n s" for n s
  proof -
    have "(streams s)[f := (streams s ! f)\<lparr>st_pos := st_pos (streams s ! f), st_back := []\<rparr>] = streams s"
      using that by (intro list_update_same_conv [THEN iffD2]) (auto simp: file_fits_def Let_def)
    moreover have "(disk s)(st_path (streams s ! f) := Some (content s (streams s ! f))) = disk s"
      using that by (intro fun_upd_idem) (simp add: file_fits_def Let_def)
    ultimately show ?thesis by (simp add: file_put_def Let_def)
  qed
  show "file_put f u (file_put f t s) = file_put f (t @ u) s" if "file_fits f (length t + length u) s" for t u s
    using that by (simp add: file_put_def file_fits_def Let_def content_def add.assoc)
  show "obj_at (file_put f t s) y = Some ob" if "obj_at s y = Some ob" for t s y ob
    using that by (simp add: file_put_def Let_def)
qed

section \<open>Saving forms\<close>

definition saved :: "sexp list \<Rightarrow> string" where
  "saved es = concat (map (\<lambda>e. show_sexp e @ [CHR 0x0A]) es)"

lemma saved_simps [simp]: "saved [] = []" "saved (e # es) = show_sexp e @ CHR 0x0A # saved es"
  by (simp_all add: saved_def)

lemma saved_no_NUL: "list_all readable es \<Longrightarrow> NUL \<notin> set (saved es)"
  using show_no_NUL by (induction es) auto

lemma cells_file_put [simp]: "cells (file_put f t s) = cells s"
  by (simp add: file_put_def Let_def)

lemma save_loop_run:
  "list_on s l as xs \<Longrightarrow> list_all2 (rep (\<lambda>_. True) nm s) xs es \<Longrightarrow> list_all readable es \<Longrightarrow>
   list_all (\<lambda>e. steps e \<le> le_depth env) es \<Longrightarrow> file_fits f 0 s \<Longrightarrow> length as < k \<Longrightarrow>
   save_loop k env f l s = (Ret (), file_put f (saved es) s)"
proof (induction es arbitrary: s l as xs k)
  case Nil
  then show ?case using file_sink.put_nil [of f 0 s] by (cases k; cases as) auto
next
  case (Cons e es)
  then obtain k' where k: "k = Suc k'" by (cases k) auto
  obtain x ys a bs d where 1: "xs = x # ys" "as = a # bs" "l = Ref a" "a < length (cells s)" "cells s ! a = Tc_cons x d"
    "list_on s d bs ys" "rep (\<lambda>_. True) nm s x e" "list_all2 (rep (\<lambda>_. True) nm s) ys es"
    using Cons.prems(1,2) by (cases as) (auto simp: list_seg_Cons list_all2_Cons2)
  let ?t = "show_sexp e" let ?s1 = "file_put f ?t s" let ?s2 = "file_put f [CHR 0x0A] ?s1"
  have n: "NUL \<notin> set ?t" using show_no_NUL [of e] Cons.prems(3) by simp
  have f1: "file_fits f m s" for m using Cons.prems(5) by (simp add: file_fits_def)
  have f2: "file_fits f m ?s1" for m by (rule file_sink.fits_put [OF n f1])
  have f3: "file_fits f m ?s2" for m by (rule file_sink.fits_put [OF _ f2]) simp
  have p: "siod_lprin1f (le_lib env) (le_depth env) x f s = (Ret NIL, ?s1)"
    using file_sink.lprin1g_run [OF _ 1(7) _ f1] Cons.prems(3,4) by (simp add: siod_lprin1f_def bind_run)
  have w: "c_write f [CHR 0x0A] ?s1 = (Ret (), ?s2)" using file_write [OF f2] by (simp add: siod_fput_st_def)
  have "list_on ?s2 d bs ys" using 1(6) by (rule list_seg_frame) simp
  moreover have "list_all2 (rep (\<lambda>_. True) nm ?s2) ys es"
    using 1(8) by (rule list_all2_mono) (intro file_sink.rep_put)
  ultimately have r: "save_loop k' env f d ?s2 = (Ret (), file_put f (saved es) ?s2)"
    using Cons.prems(3-6) 1(2) k f3 by (intro Cons.IH) auto
  have "NUL \<notin> set (saved es)" using Cons.prems(3) by (simp add: saved_no_NUL)
  then have "file_put f (saved es) ?s2 = file_put f (saved (e # es)) s"
    using file_sink.put_put [of ?t "[CHR 0x0A]" f s] file_sink.put_put [of "?t @ [CHR 0x0A]" "saved es" f s] n f1 by simp
  moreover have "siod_car (Ref a) s = (Ret x, s)" "siod_cdr (Ref a) ?s2 = (Ret d, ?s2)"
    using 1(4,5) cons_cell_run(1) cons_cell_run(2) [of a ?s2 x d] by simp_all
  ultimately show ?case using p w r 1(3) k by (simp add: bind_run)
qed

text \<open>The state after the forms are saved: the cell of the file and its stream are closed.\<close>

definition saved_state :: "string \<Rightarrow> sexp list \<Rightarrow> siod \<Rightarrow> siod" where
  "saved_state name es s = (grow [Tc_c_file None None] s)\<lparr>disk := (disk s)(name := Some (saved es)),
     streams := streams s @ [(opened name False True False)\<lparr>st_pos := length (saved es), st_open := False\<rparr>]\<rparr>"

lemma verbose_quiet: "siod_verbose_level s < v \<Longrightarrow> verbose_message v ts s = (Ret (), s)"
  by (simp add: verbose_message_def)

lemma save_forms_run:
  assumes "c_string_of s fname = Some name" "list_on s l as xs" "list_all2 (rep (\<lambda>_. True) nm s) xs es"
    "list_all readable es" "list_all (\<lambda>e. steps e \<le> le_depth env) es" "siod_verbose_level s < 3" "may_open s name ''w''"
    "room 1 s" "1 < length (streams s)"
  shows "siod_save_forms env fname l NIL s = (Ret (sym_t s), saved_state name es s)"
proof -
  let ?a = "length (cells s)" let ?f = "length (streams s)"
  let ?s1 = "(grow [Tc_c_file None None] s)\<lparr>disk := (disk s)(name := Some []), streams := streams s @ [opened name False True False]\<rparr>"
  let ?s2 = "set_cell ?a (Tc_c_file (Some name) (Some ?f)) ?s1"
  let ?s3 = "file_put ?f (saved es) ?s2"
  have name: "get_c_string fname s = (Ret name, s)"
    using assms(1) by (cases fname) (auto simp: get_c_string_def c_string_of_def bindM_def look_def obj_at_def ret_def
        split: option.splits obj.splits if_splits)
  have "c_fopen name ''w'' (grow [Tc_c_file None None] s) = (Ret (Some ?f), ?s1)"
    using assms(7) by (simp add: c_fopen_def grow_def Let_def)
  moreover have "store (Ref ?a) (Tc_c_file (Some name) (Some ?f)) ?s1 = (Ret (), ?s2)"
    by (simp add: store_def grow_def)
  moreover have "newcell (Tc_c_file None None) s = (Ret (Ref ?a), grow [Tc_c_file None None] s)"
    using assms(8) by (intro newcell_run) simp
  ultimately have opens: "siod_fopen_c name ''w'' s = (Ret (Ref ?a), ?s2)"
    by (simp add: siod_fopen_c_def siod_fopen_cg_def bind_run)
  have cell: "cells ?s2 = cells s @ [Tc_c_file (Some name) (Some ?f)]" by (simp add: set_cell_def grow_def)
  have o: "obj_at s y = Some ob \<Longrightarrow> obj_at ?s2 y = Some ob" for y ob
    by (cases y) (auto simp: obj_at_def cell nth_append split: if_splits)
  have fits: "file_fits ?f 0 ?s2"
    using assms(9) by (simp add: file_fits_def set_cell_def Let_def opened_def content_def)
  have v: "siod_verbose_level ?s3 = siod_verbose_level s" "sym_t ?s3 = sym_t s"
    by (simp_all add: file_put_def Let_def set_cell_def grow_def)
  have at: "obj_at ?s2 (Ref ?a) = Some (Tc_c_file (Some name) (Some ?f))" "obj_at ?s3 (Ref ?a) = Some (Tc_c_file (Some name) (Some ?f))"
    by (simp_all add: obj_at_def cell)
  have "list_on ?s2 l as xs" using assms(2) by (rule list_seg_frame) (simp add: cell nth_append)
  moreover have "list_all2 (rep (\<lambda>_. True) nm ?s2) xs es"
    using assms(3) by (rule list_all2_mono) (erule rep_mono, auto intro: o)
  ultimately have loop: "save_loop (bound ?s2) env ?f l ?s2 = (Ret (), ?s3)"
    using list_on_short [OF assms(2)] assms(4,5) fits by (intro save_loop_run) (auto simp: bound_def cell)
  have stream: "siod_get_c_file (Ref ?a) None ?s2 = (Ret ?f, ?s2)"
    using obj_at_look [OF at(1)] by (simp add: siod_get_c_file_def bind_run)
  have "c_fclose ?f ?s3 = (Ret (), ?s3\<lparr>streams := (streams ?s3)[?f := (streams ?s3 ! ?f)\<lparr>st_open := False\<rparr>]\<rparr>)"
    by (simp add: c_fclose_def on_stream_def set_stream_def modifyM_def file_put_def Let_def set_cell_def opened_def)
  moreover have "set_cell ?a (Tc_c_file None None) (?s3\<lparr>streams := (streams ?s3)[?f := (streams ?s3 ! ?f)\<lparr>st_open := False\<rparr>]\<rparr>)
      = saved_state name es s"
    by (simp add: file_put_def Let_def set_cell_def saved_state_def grow_def content_def opened_def)
  ultimately have close: "siod_fclose_l (Ref ?a) ?s3 = (Ret NIL, saved_state name es s)"
    using obj_at_look [OF at(2)] cell by (simp add: siod_fclose_l_def siod_file_gc_free_def bind_run store_def)
  have "siod_verbose_level (saved_state name es s) < 3" "sym_t (saved_state name es s) = sym_t s"
    using assms(6) by (simp_all add: saved_state_def grow_def)
  then show ?thesis
    using name opens stream loop close assms(6) by (simp add: siod_save_forms_def bind_run verbose_quiet gets_def)
qed

section \<open>The stream of a file as a source\<close>

text \<open>The stream f has t to read, up to white space in front of it.\<close>

definition reads_from :: "nat \<Rightarrow> char list \<Rightarrow> siod \<Rightarrow> bool" where
  "reads_from f t s = (f < length (streams s) \<and> st_open (streams s ! f) \<and> st_reads (streams s ! f) \<and>
     skip (ahead s (streams s ! f)) = skip t)"

lemma reads_from_cong: "streams s' = streams s \<Longrightarrow> disk s' = disk s \<Longrightarrow> reads_from f t s' = reads_from f t s"
  by (simp add: reads_from_def ahead_def content_def)

lemma reads_from_newline: "reads_from f (CHR 0x0A # t) s = reads_from f t s"
  by (simp add: reads_from_def c_isspace_def)

definition moved :: "nat \<Rightarrow> nat \<Rightarrow> siod \<Rightarrow> siod" where
  "moved f j s = s\<lparr>streams := (streams s)[f := advance j (streams s ! f)]\<rparr>"

lemma ahead_advance: "ahead s (advance j st) = drop j (ahead s st)"
  by (simp add: ahead_def advance_def content_def add.commute)

lemma stream_simps [simp]:
  "st_open (advance j st) = st_open st" "st_reads (advance j st) = st_reads st" "st_path (advance j st) = st_path st"
  "content (s\<lparr>streams := x\<rparr>) st = content s st" "ahead (s\<lparr>streams := x\<rparr>) st = ahead s st"
  by (simp_all add: advance_def content_def ahead_def)

lemma moved_simps [simp]:
  "cells (moved f j s) = cells s" "obarray (moved f j s) = obarray s" "obarray_dim (moved f j s) = obarray_dim s"
  "oblistvar (moved f j s) = oblistvar s" "constants (moved f j s) = constants s" "inums (moved f j s) = inums s"
  "heap_size (moved f j s) = heap_size s" "catch_framep (moved f j s) = catch_framep s" "disk (moved f j s) = disk s"
  "siod_verbose_level (moved f j s) = siod_verbose_level s" "obj_at (moved f j s) y = obj_at s y"
  by (simp_all add: moved_def constants_def)

lemma moved_ok:
  assumes "reader_ok s"
  shows "reader_ok (moved f j s)" "table (moved f j s) = table s" "denotes (moved f j s) x e = denotes s x e"
    "hashable (moved f j s) p = hashable s p"
  by (rule loop_globals [OF assms, where fr = "catch_framep s"]; simp)+

lemma skip_ws_end: "skip (left f) = [] \<Longrightarrow> \<exists>f'. skip_ws False f = (None, f')"
proof (induction "length (left f)" arbitrary: f rule: less_induct)
  case less
  show ?case
  proof (cases "left f")
    case Nil
    then show ?thesis using get_left(1) [of f] by (simp add: skip_ws.simps [of False f])
  next
    case (Cons c r)
    then obtain f1 where f1: "GETC_FCN f = (Some c, f1)" "left f1 = r" by (rule get_run)
    have c: "c_isspace c" "skip r = []" using less.prems Cons by (auto split: if_splits)
    then have "c \<noteq> CHR '';''" by (auto simp: c_isspace_def)
    moreover obtain f' where "skip_ws False f1 = (None, f')" using less.hyps [of f1] f1 c(2) Cons by auto
    ultimately show ?thesis using f1 c(1) by (simp add: skip_ws.simps [of False f])
  qed
qed

lemma lreadf_run:
  assumes "reads_from f t s" "siod_readtl mem rc k \<lparr>rd_text = ahead s (streams s ! f), rd_pos = 0, rd_file = True\<rparr> s = (Ret (x, io), s1)"
    "streams s1 = streams s"
  shows "siod_lreadf mem lost rc k f s = (Ret x, moved f (rd_pos io) s1)"
    "left io = drop (rd_pos io) (ahead s (streams s ! f))"
proof -
  show "siod_lreadf mem lost rc k f s = (Ret x, moved f (rd_pos io) s1)"
    using assms by (simp add: siod_lreadf_def on_stream_def reads_from_def Let_def moved_def)
  show "left io = drop (rd_pos io) (ahead s (streams s ! f))"
    using keeps_readtl [of "\<lparr>rd_text = ahead s (streams s ! f), rd_pos = 0, rd_file = True\<rparr>" mem rc k,
        unfolded keeps_def, rule_format, OF assms(2)]
    by (simp add: left_def)
qed

lemma lreadf_end:
  assumes "reads_from f [] s"
  shows "\<exists>j. siod_lreadf mem lost rc k f s = (Ret (eof_val s), moved f j s)"
proof -
  let ?io = "\<lparr>rd_text = ahead s (streams s ! f), rd_pos = 0, rd_file = True\<rparr>"
  have "skip (left ?io) = []" using assms by (simp add: reads_from_def left_def)
  then obtain io where "skip_ws False ?io = (None, io)" using skip_ws_end by blast
  then have "siod_readtl mem rc k ?io s = (Ret (eof_val s, io), s)" by (simp add: siod_readtl_def siod_flush_ws_def)
  from lreadf_run(1) [OF assms this refl] show ?thesis by blast
qed

lemma lreadf_form:
  assumes "reads_from f (show_sexp e @ rest) s" "may_read s e" "stops rest" "steps e \<le> k"
  shows "\<exists>x j s1. siod_lreadf mem lost rc k f s = (Ret x, moved f j s1) \<and> grows (cells_of e) s s1 \<and> builds s s1 x e \<and>
    reads_from f rest (moved f j s1)"
proof -
  let ?t = "ahead s (streams s ! f)" let ?io = "\<lparr>rd_text = ?t, rd_pos = 0, rd_file = True\<rparr>"
  have r: "readable e" using assms(2) by (simp add: may_read_def)
  obtain c u where c: "show_sexp e = c # u" "\<not> c_isspace c" "c \<noteq> CHR '';''" using r by (rule show_start)
  have "skip (left ?io) = c # (u @ rest)" using assms(1) c by (simp add: reads_from_def left_def)
  then obtain f1 where f1: "siod_flush_ws ?io None s = (Ret (Some c, f1), s)" "left (UNGETC_FCN (Some c) f1) = c # (u @ rest)"
    using c(3) by (rule flush_run)
  have "skip (left (UNGETC_FCN (Some c) f1)) = show_sexp e @ rest" unfolding f1(2) using c by simp
  from read_sexp(1) [OF assms(2) this assms(3,4), of mem rc] obtain x io s1 where
    1: "siod_lreadr mem rc k (UNGETC_FCN (Some c) f1) s = (Ret (x, io), s1)" "grows (cells_of e) s s1" "builds s s1 x e"
      "skip (left io) = skip rest"
    by (auto simp: reads_def)
  have s1: "streams s1 = streams s" "disk s1 = disk s" using 1(2) by (simp_all add: grows_def extends_def)
  have "siod_readtl mem rc k ?io s = (Ret (x, io), s1)"
    unfolding siod_readtl_def using f1(1) 1(1) by (simp add: bind_run)
  note run = lreadf_run [OF assms(1) this s1(1)]
  let ?s = "moved f (rd_pos io) s1"
  have "ahead ?s (streams ?s ! f) = drop (rd_pos io) (ahead s (streams s ! f))"
    using assms(1) s1 ahead_advance [of s1 "rd_pos io" "streams s ! f"]
    by (simp add: moved_def reads_from_def ahead_def content_def advance_def)
  then have "reads_from f rest ?s"
    using assms(1) 1(4) s1 run(2) by (simp add: reads_from_def moved_def advance_def)
  then show ?thesis using run(1) 1(2,3) by blast
qed

end
