(* ===== verification/Load_Trip.thy ===== *)
theory Load_Trip
  imports Load_Facts
begin

text \<open>
  The round trip of a list of forms through a file: save-forms writes them, and load with its flag for collecting them
  returns a list that equal cannot tell from the one that was saved.
\<close>

section \<open>The table without conses outside its buckets\<close>

lemma bucket_conses_below: "bucket_conses s \<subseteq> {..<length (cells s)}"
  using list_seg_addrs unfolding bucket_conses_def by fastforce

text \<open>A cell that is no symbol and that no bucket uses may change.\<close>

lemma cell_store_table:
  assumes "wf_state s" "symtab_ok s" "a < length (cells s)" "\<nexists>p v. cells s ! a = Tc_symbol p v" "a \<notin> bucket_conses s"
    "s' = set_cell a ob s"
  shows "symtab_ok s'" "table s' = table s" "bucket_conses s' = bucket_conses s"
proof -
  have g: "obarray s' = obarray s" "obarray_dim s' = obarray_dim s" "oblistvar s' = oblistvar s"
    by (simp_all add: assms(6) set_cell_def)
  have l: "list_on s' l as xs" if "list_on s l as xs" "set as \<subseteq> bucket_conses s" for l as xs
    using that assms(5) unfolding assms(6) by (intro list_seg_set_cell) auto
  have o: "obj_at s' y = obj_at s y" if "symbol_at s y" for y
  proof (cases "y = Ref a")
    case True
    then show ?thesis using symbol_at_cases [OF that] assms(3,4) by (auto simp: obj_at_def)
  qed (cases y; simp add: obj_at_def assms(6) set_cell_def)
  have "symbol_at s' y = symbol_at s y" "names_in s' p y = names_in s p y" if "symbol_at s y" for y p
    using o [OF that] by (simp_all add: symbol_at_def names_in_def)
  then show "symtab_ok s'" "table s' = table s" "bucket_conses s' = bucket_conses s"
    using l by (intro table_same [OF assms(1,2) g]; blast)+
qed

lemma moved_buckets: "bucket_conses (moved f j s) = bucket_conses s"
proof -
  have "list_on (moved f j s) l as xs = list_on s l as xs" for l as xs
    using list_seg_frame [of s l as xs NIL "moved f j s"] list_seg_frame [of "moved f j s" l as xs NIL s] by auto
  then show ?thesis by (simp add: bucket_conses_def)
qed

lemma moved_commutes:
  "grow obs (moved f j s) = moved f j (grow obs s)" "set_cell a ob (moved f j s) = moved f j (set_cell a ob s)"
  by (simp_all add: grow_def moved_def set_cell_def advance_def)

lemma grow_streams [simp]:
  "streams (grow obs s) = streams s" "disk (grow obs s) = disk s" "may_open (grow obs s) = may_open s"
  "siod_verbose_level (grow obs s) = siod_verbose_level s"
  "streams (set_cell a ob s) = streams s" "disk (set_cell a ob s) = disk s" "may_open (set_cell a ob s) = may_open s"
  "siod_verbose_level (set_cell a ob s) = siod_verbose_level s"
  by (simp_all add: grow_def set_cell_def)

section \<open>The forms collected so far\<close>

text \<open>The cells of the first state are as they were, and its symbols are in the table.\<close>

definition old :: "siod \<Rightarrow> siod \<Rightarrow> bool" where
  "old s0 s = ((\<forall>y ob. obj_at s0 y = Some ob \<longrightarrow> obj_at s y = Some ob) \<and> length (cells s0) \<le> length (cells s) \<and>
     table s0 \<subseteq>\<^sub>m table s \<and> constants s = constants s0 \<and> heap_size s = heap_size s0 \<and>
     obarray_dim s = obarray_dim s0 \<and> siod_verbose_level s = siod_verbose_level s0)"

definition collected :: "siod \<Rightarrow> siod \<Rightarrow> siod_LISP \<Rightarrow> nat list \<Rightarrow> siod_LISP list \<Rightarrow> sexp list \<Rightarrow> bool" where
  "collected s0 s l as xs es = (reader_ok s \<and> old s0 s \<and> list_on s l as xs \<and>
     list_all2 (rep (\<lambda>y. y \<notin> Ref ` set as) (\<lambda>p y. table s p = Some y) s) xs es \<and>
     set as \<inter> bucket_conses s = {} \<and> (\<forall>a\<in>set as. length (cells s0) \<le> a))"

lemma collected_moved: "collected s0 s l as xs es \<Longrightarrow> collected s0 (moved f j s) l as xs es"
proof -
  assume c: "collected s0 s l as xs es"
  then have r: "reader_ok s" by (simp add: collected_def)
  have "list_on (moved f j s) l as xs" using c by (auto simp: collected_def elim!: list_seg_frame)
  moreover have "list_all2 (rep ok nm s) xs es \<Longrightarrow> list_all2 (rep ok nm (moved f j s)) xs es" for ok nm
    by (erule list_all2_mono, erule rep_mono) auto
  ultimately show ?thesis
    using c moved_ok(1,2) [OF r] by (auto simp: collected_def old_def moved_buckets)
qed

lemma collected_grows:
  assumes "collected s0 s l as xs es" "grows n s s1"
  shows "collected s0 s1 l as xs es"
proof -
  have e: "extends s s1" and t: "table s \<subseteq>\<^sub>m table s1" using assms(2) by (simp_all add: grows_def)
  have l: "list_on s l as xs" using assms(1) by (simp add: collected_def)
  have "old s0 s1"
    using assms(1) e t extends_length [OF e] extends_obj_at [OF e]
    by (auto simp: old_def collected_def extends_def intro: map_le_trans)
  moreover have "list_all2 (rep (\<lambda>y. y \<notin> Ref ` set as) (\<lambda>p y. table s1 p = Some y) s1) xs es"
    using assms(1) unfolding collected_def
    by (elim conjE list_all2_mono rep_mono) (auto intro: extends_obj_at [OF e], use t in \<open>auto simp: map_le_def dom_def\<close>)
  moreover have "set as \<inter> bucket_conses s1 = {}"
    using assms list_seg_addrs [OF l] by (fastforce simp: grows_def collected_def)
  ultimately show ?thesis
    using assms(1) grows_ok [OF assms(2)] extends_list [OF e l] by (simp add: collected_def)
qed


text \<open>The last cons of a list, and the list when something else is put behind it.\<close>

lemma list_on_end:
  assumes "list_on s l as xs" "as \<noteq> []"
  shows "last as < length (cells s)" "cells s ! last as = Tc_cons (last xs) NIL"
    "list_seg (set_cell (last as) (Tc_cons (last xs) b) s) l as xs b"
proof -
  obtain us c where as: "as = us @ [c]" using assms(2) by (metis append_butlast_last_id)
  obtain vs x d where seg: "xs = vs @ [x]" "list_seg s l us vs d" "list_on s d [c] [x]" "length us = length vs"
    using assms(1) list_seg_length [OF assms(1)] unfolding as by (cases xs rule: rev_cases) (auto simp: list_seg_append)
  then have c: "d = Ref c" "c < length (cells s)" "cells s ! c = Tc_cons x NIL" by (auto simp: list_seg_Cons)
  let ?s = "set_cell c (Tc_cons x b) s"
  have "c \<notin> set us" using list_on_distinct [OF assms(1)] as by simp
  then have "list_seg ?s l us vs (Ref c)" using seg(2) c(1) by (simp add: list_seg_set_cell)
  moreover have "list_seg ?s (Ref c) [c] [x] b" using c by simp
  ultimately have "list_seg ?s l as xs b" unfolding as seg(1) by (rule list_seg_appendI)
  then show "last as < length (cells s)" "cells s ! last as = Tc_cons (last xs) NIL"
    "list_seg (set_cell (last as) (Tc_cons (last xs) b) s) l as xs b" using c as seg(1) by simp_all
qed

text \<open>A form that was read is added at the end.\<close>

lemma collect_step:
  assumes c: "collected s0 s l as xs es" and g: "grows n s s1" and b: "builds s s1 x e" and r: "room 1 s1"
  defines "a \<equiv> length (cells s1)"
  shows "\<exists>s3. siod_cons x NIL (moved f j s1) = (Ret (Ref a), moved f j (grow [Tc_cons x NIL] s1)) \<and>
    (as = [] \<longrightarrow> s3 = grow [Tc_cons x NIL] s1) \<and>
    (as \<noteq> [] \<longrightarrow> siod_setcdr (Ref (last as)) (Ref a) (moved f j (grow [Tc_cons x NIL] s1)) = (Ret (Ref a), moved f j s3)) \<and>
    collected s0 s3 (if as = [] then Ref a else l) (as @ [a]) (xs @ [x]) (es @ [e]) \<and>
    length (cells s3) = Suc (length (cells s1)) \<and> streams s3 = streams s1 \<and> disk s3 = disk s1"
proof -
  let ?s2 = "grow [Tc_cons x NIL] s1" let ?x = "last xs"
  let ?s3 = "if as = [] then ?s2 else set_cell (last as) (Tc_cons ?x (Ref a)) ?s2"
  have c1: "collected s0 s1 l as xs es" by (rule collected_grows [OF c g])
  have ok1: "reader_ok s1" and w1: "wf_state s1" "symtab_ok s1" and l1: "list_on s1 l as xs" and old1: "old s0 s1"
    using c1 by (simp_all add: collected_def reader_ok_def)
  have below: "set as \<subseteq> {..<length (cells s)}" using c list_seg_addrs by (fastforce simp: collected_def)
  have conses: "is_cons (obj_at s (Ref i))" if "i \<in> set as" for i
    using that below list_seg_is_cons [of s l as xs NIL i] c by (fastforce simp: collected_def obj_at_def is_cons_def)
  have e: "extends s1 ?s2" by (simp add: extends_def grow_def constants_def)
  have x: "ref_ok s1 x" using b by (intro denotes_ref_ok builds_denotes)
  have run: "siod_cons x NIL s1 = (Ret (Ref a), ?s2)" using cons_run [of 0 s1 x NIL] r by (simp add: a_def)
  have w2: "wf_state ?s2" using okM_Ret [OF ok_cons [OF x ref_ok_NIL] w1(1) run] by simp
  have t2: "symtab_ok ?s2" "table ?s2 = table s1" "bucket_conses ?s2 = bucket_conses s1"
    using table_extends [OF w1 e] by (simp_all add: grow_def)
  have a: "a \<notin> bucket_conses ?s2" unfolding t2(3) using bucket_conses_below [of s1] by (auto simp: a_def)
  have len: "length as = length xs" using l1 by (rule list_seg_length)
  have last: "last as < length (cells ?s2) \<and> cells ?s2 ! last as = Tc_cons ?x NIL \<and> last as \<noteq> a \<and> last as \<in> set as \<and>
      last as \<notin> bucket_conses ?s2" if "as \<noteq> []"
  proof -
    note ne = that
    have "last as < a \<and> cells s1 ! last as = Tc_cons ?x NIL" using list_on_end [OF l1 ne] by (simp add: a_def)
    moreover have "last as \<in> set as" "set as \<inter> bucket_conses s1 = {}" using ne c1 by (simp_all add: collected_def)
    ultimately show ?thesis unfolding t2(3) by (auto simp: nth_append a_def)
  qed
  have set: "siod_setcdr (Ref (last as)) (Ref a) ?s2 = (Ret (Ref a), ?s3)" if "as \<noteq> []"
    using last [OF that] cons_cell_run(6) [of "last as" ?s2 ?x NIL "Ref a"] that by simp
  have "ref_ok ?s2 (Ref a)" by (simp add: ref_ok_def a_def)
  then have w3: "wf_state ?s3" using w2 okM_Ret [OF ok_setcdr w2 set] by simp
  have t3: "symtab_ok ?s3" "table ?s3 = table s1" "bucket_conses ?s3 = bucket_conses s1"
    using cell_store_table [OF w2 t2(1), of "last as" ?s3 "Tc_cons ?x (Ref a)"] last t2 by (cases "as = []"; simp)+
  have o: "obj_at ?s3 y = Some ob" if "obj_at s1 y = Some ob" "y \<notin> Ref ` set as" for y ob
    using that last by (cases y) (auto simp: obj_at_def set_cell_def nth_append nth_list_update split: if_splits)
  have new: "y \<noteq> Ref a" if "obj_at s1 y = Some ob" for y ob using that by (auto simp: obj_at_def a_def)
  have o2: "y \<notin> Ref ` set (as @ [a]) \<and> obj_at ?s3 y = Some ob" if "obj_at s1 y = Some ob" "\<not> is_cons (obj_at s y)" for y ob
  proof -
    have "y \<notin> Ref ` set as" using conses that(2) by auto
    then show ?thesis using o [OF that(1)] new [OF that(1)] by simp
  qed
  have cs: "constants ?s3 = constants s1" "heap_size ?s3 = heap_size s1" "obarray_dim ?s3 = obarray_dim s1"
    by (simp_all add: constants_def grow_def set_cell_def)
  have "reader_ok ?s3" using ok1 w3 t3 cs by (simp add: reader_ok_def constants_eq)
  moreover have "old s0 ?s3"
    unfolding old_def
  proof (intro conjI allI impI)
    show "obj_at ?s3 y = Some ob" if "obj_at s0 y = Some ob" for y ob
    proof (rule o)
      show "obj_at s1 y = Some ob" using that old1 by (simp add: old_def)
      show "y \<notin> Ref ` set as" using that c1 by (cases y) (auto simp: collected_def obj_at_def split: if_splits)
    qed
  qed (use old1 cs t3(2) in \<open>simp_all add: old_def\<close>)
  moreover have "list_on ?s3 (if as = [] then Ref a else l) (as @ [a]) (xs @ [x])"
  proof (cases "as = []")
    case True
    then show ?thesis using len by (simp add: list_seg_Cons a_def)
  next
    case False
    have "list_seg ?s3 l as xs (Ref a)" using list_on_end [OF extends_list [OF e l1] False] False by simp
    moreover have "list_on ?s3 (Ref a) [a] [x]" using last [OF False] False by (auto simp: a_def set_cell_def)
    ultimately show ?thesis using False list_seg_appendI by simp
  qed
  moreover have "list_all2 (rep (\<lambda>y. y \<notin> Ref ` set (as @ [a])) (\<lambda>p y. table ?s3 p = Some y) ?s3) (xs @ [x]) (es @ [e])"
  proof -
    have "list_all2 (rep (\<lambda>y. y \<notin> Ref ` set (as @ [a])) (\<lambda>p y. table ?s3 p = Some y) ?s3) xs es"
      using c1 unfolding collected_def t3(2)
      by (elim conjE list_all2_mono rep_mono) (use o new in auto)
    moreover have "rep (\<lambda>y. y \<notin> Ref ` set (as @ [a])) (\<lambda>p y. table ?s3 p = Some y) ?s3 x e"
      using b unfolding builds_def t3(2)
      by (elim rep_mono) (use o2 in blast)+
    ultimately show ?thesis by (intro list_all2_appendI) simp_all
  qed
  moreover have "set (as @ [a]) \<inter> bucket_conses ?s3 = {}" using c1 a unfolding t3(3) t2(3) by (simp add: collected_def)
  moreover have "\<forall>i\<in>set (as @ [a]). length (cells s0) \<le> i" using c1 by (auto simp: collected_def old_def a_def)
  ultimately have "collected s0 ?s3 (if as = [] then Ref a else l) (as @ [a]) (xs @ [x]) (es @ [e])"
    unfolding collected_def by blast
  moreover have "siod_cons x NIL (moved f j s1) = (Ret (Ref a), moved f j ?s2)"
    using cons_run [of 0 "moved f j s1" x NIL] r by (simp add: a_def moved_commutes room_def)
  moreover have "siod_setcdr (Ref (last as)) (Ref a) (moved f j ?s2) = (Ret (Ref a), moved f j ?s3)" if "as \<noteq> []"
    using last [OF that] cons_cell_run(6) [of "last as" "moved f j ?s2" ?x NIL "Ref a"] that by (simp add: moved_commutes)
  ultimately show ?thesis by (intro exI [of _ ?s3]) (auto simp: a_def)
qed


text \<open>What such a state has of the first one.\<close>

lemma collected_at:
  assumes "collected s0 s l as xs es" "obj_at s0 lf = Some (Tc_c_file nm (Some f))" "is_cons (obj_at s0 (eof_val s0))"
    "siod_verbose_level s0 < 5"
  shows "siod_get_c_file lf d s = (Ret f, s)" "is_cons (obj_at s (eof_val s))" "siod_verbose_level s < 5"
proof -
  have o: "old s0 s" using assms(1) by (simp add: collected_def)
  then have "obj_at s lf = Some (Tc_c_file nm (Some f))" using assms(2) by (simp add: old_def)
  moreover obtain a where "lf = Ref a" using assms(2) by (cases lf) (auto simp: obj_at_def)
  ultimately show "siod_get_c_file lf d s = (Ret f, s)"
    by (cases d) (simp_all add: siod_get_c_file_def bind_run obj_at_look)
  show "is_cons (obj_at s (eof_val s))" "siod_verbose_level s < 5"
    using o assms(3,4) by (auto simp: old_def constants_eq is_cons_def split: option.splits)
qed

lemma not_cons_NIL: "\<not> is_cons (obj_at s NIL)"
  by (simp add: is_cons_def obj_at_def)

lemma collected_heap: "collected s0 s l as xs es \<Longrightarrow> heap_size s = heap_size s0"
  by (simp add: collected_def old_def)

lemma collected_hashable: "collected s0 s l as xs es \<Longrightarrow> hashable s p = hashable s0 p"
  by (simp add: collected_def old_def hashable_def hash_of_def)

lemma moved_eof: "eof_val (moved f j s) = eof_val s"
  by (simp add: moved_def)

text \<open>The loop of load over the forms of a file.\<close>

definition form_cells :: "sexp list \<Rightarrow> nat" where
  "form_cells es = sum_list (map (\<lambda>e. Suc (cells_of e)) es)"

lemma load_forms_run:
  assumes "obj_at s0 lf = Some (Tc_c_file nm (Some f))" "is_cons (obj_at s0 (eof_val s0))" "siod_verbose_level s0 < 5"
  shows "collected s0 s l as xs ds \<Longrightarrow> (as \<noteq> [] \<longrightarrow> tail = Ref (last as)) \<Longrightarrow> reads_from f (saved es) s \<Longrightarrow>
    list_all readable es \<Longrightarrow> (\<forall>e\<in>set es. \<forall>p\<in>names_of e. hashable s p) \<Longrightarrow> list_all (\<lambda>e. steps e \<le> le_depth env) es \<Longrightarrow>
    room (form_cells es) s \<Longrightarrow> length es < k \<Longrightarrow>
    \<exists>r s' bs ys. load_forms k env True NIL lf l tail s = (Ret r, s') \<and> collected s0 s' r bs ys (ds @ es) \<and>
      reads_from f [] s' \<and> disk s' = disk s"
proof (induction es arbitrary: s l as xs ds tail k)
  case Nil
  then obtain k' where k: "k = Suc k'" by (cases k) auto
  note at = collected_at [OF Nil.prems(1) assms]
  obtain j where j: "siod_lreadf (le_memory env) (le_lost env) (le_rc env) (le_depth env) f s = (Ret (eof_val s), moved f j s)"
    using lreadf_end Nil.prems(3) by (metis saved_simps(1))
  have "load_forms k env True NIL lf l tail s = (Ret l, moved f j s)"
    using at j k by (simp add: read_form_def siod_lread_def bind_run gets_def moved_eof)
  moreover have "reads_from f [] (moved f j s)"
    using Nil.prems(3) set_drop_subset [of j "ahead s (streams s ! f)"] by (auto simp: reads_from_def moved_def ahead_advance)
  ultimately show ?case using collected_moved [OF Nil.prems(1)] by auto
next
  case (Cons e es)
  then obtain k' where k: "k = Suc k'" "length es < k'" by (cases k) auto
  note at = collected_at [OF Cons.prems(1) assms]
  have ok: "reader_ok s" using Cons.prems(1) by (simp add: collected_def)
  have m: "may_read s e" using ok Cons.prems(4,5,7) by (auto simp: may_read_def form_cells_def room_def)
  have r: "reads_from f (show_sexp e @ CHR 0x0A # saved es) s" using Cons.prems(3) by simp
  have st: "stops (CHR 0x0A # saved es)" "steps e \<le> le_depth env"
    using Cons.prems(6) by (simp_all add: stops_def c_isspace_def)
  obtain x j s1 where 1: "siod_lreadf (le_memory env) (le_lost env) (le_rc env) (le_depth env) f s = (Ret x, moved f j s1)"
    "grows (cells_of e) s s1" "builds s s1 x e" "reads_from f (CHR 0x0A # saved es) (moved f j s1)"
    using lreadf_form [OF r m st] by blast
  have room1: "room (Suc (form_cells es)) s1"
    using Cons.prems(7) by (intro grows_room [OF 1(2)]) (simp add: form_cells_def)
  then have "room 1 s1" by (simp add: room_def)
  from collect_step [OF Cons.prems(1) 1(2,3) this] obtain s3 where
    2: "siod_cons x NIL (moved f j s1) = (Ret (Ref (length (cells s1))), moved f j (grow [Tc_cons x NIL] s1))"
    "as = [] \<Longrightarrow> s3 = grow [Tc_cons x NIL] s1"
    "as \<noteq> [] \<Longrightarrow> siod_setcdr (Ref (last as)) (Ref (length (cells s1))) (moved f j (grow [Tc_cons x NIL] s1)) =
       (Ret (Ref (length (cells s1))), moved f j s3)"
    "collected s0 s3 (if as = [] then Ref (length (cells s1)) else l) (as @ [length (cells s1)]) (xs @ [x]) (ds @ [e])"
    "length (cells s3) = Suc (length (cells s1))" "streams s3 = streams s1" "disk s3 = disk s1"
    by blast
  let ?s3 = "moved f j s3" and ?p = "Ref (length (cells s1))"
  let ?l = "if as = [] then ?p else l"
  have form: "x \<noteq> eof_val s" using 1(3) at(2) by (cases e) (auto simp: builds_def not_cons_NIL)
  have same: "eof_val s1 = eof_val s" "siod_verbose_level s1 = siod_verbose_level s"
    using 1(2) by (simp_all add: grows_def extends_def constants_eq)
  have l: "l = NIL \<longleftrightarrow> as = []" using Cons.prems(1) by (cases as) (auto simp: collected_def list_seg_Cons)
  have "load_forms k env True NIL lf l tail s = load_forms k' env True NIL lf ?l ?p ?s3"
    using at 1(1) form same l Cons.prems(2) 2(1-3) k(1)
    by (auto simp: read_form_def siod_lread_def bind_run gets_def moved_eof)
  moreover have "collected s0 ?s3 ?l (as @ [length (cells s1)]) (xs @ [x]) (ds @ [e])" using 2(4) by (rule collected_moved)
  moreover have "reads_from f (saved es) ?s3"
    using 1(4) reads_from_cong [of ?s3 "moved f j s1"] 2(6,7) by (simp add: reads_from_newline moved_def)
  moreover have "room (form_cells es) ?s3" using room1 2(4,5) collected_heap [OF 2(4)] collected_heap [OF Cons.prems(1)] 1(2)
    by (simp add: room_def grows_def extends_def)
  moreover have "\<forall>e\<in>set es. \<forall>p\<in>names_of e. hashable ?s3 p"
    using Cons.prems(5) collected_hashable [OF Cons.prems(1)] collected_hashable [OF calculation(2)] by simp
  ultimately obtain r s' bs ys where "load_forms k env True NIL lf l tail s = (Ret r, s')"
    "collected s0 s' r bs ys ((ds @ [e]) @ es)" "reads_from f [] s'" "disk s' = disk ?s3"
    using Cons.IH [of ?s3 ?l "as @ [length (cells s1)]" "xs @ [x]" "ds @ [e]" ?p k'] Cons.prems(4,6) k(2) by auto
  moreover have "disk ?s3 = disk s" using 2(7) 1(2) by (simp add: grows_def extends_def)
  ultimately show ?case by auto
qed


section \<open>Loading the forms of a file\<close>

text \<open>The cell of a file is added, and the file is opened.\<close>

lemma file_cell_ok:
  assumes "reader_ok s" "room 1 s" "s' = (grow [Tc_c_file n f] s)\<lparr>disk := d, streams := x\<rparr>"
  shows "reader_ok s'" "old s s'" "table s' = table s"
proof -
  let ?g = "grow [Tc_c_file n f] s"
  have w: "wf_state s" "symtab_ok s" using assms(1) by (simp_all add: reader_ok_def)
  have e: "extends s ?g" by (simp add: extends_def grow_def constants_def)
  have "wf_state ?g" using okM_Ret [OF okM_newcell w(1) newcell_run [of 0 s]] assms(2) by simp
  moreover have t: "symtab_ok ?g" "table ?g = table s" using table_extends [OF w e] by (simp_all add: grow_def)
  ultimately have g: "reader_ok ?g" using assms(1) by (simp add: reader_ok_def grow_def)
  have same: "reader_ok s'" "table s' = table ?g"
    by (rule loop_globals [OF g, where fr = "catch_framep ?g"]; simp add: assms(3) constants_def)+
  then show "reader_ok s'" "table s' = table s" using t by simp_all
  show "old s s'"
    using same(2) t(2) extends_obj_at [OF e] e by (simp add: old_def assms(3) extends_def constants_eq grow_def)
qed

lemma old_denotes: "old s s' \<Longrightarrow> denotes s x e \<Longrightarrow> denotes s' x e"
  unfolding denotes_def by (erule rep_mono) (auto simp: old_def map_le_def dom_def)

lemma old_trans: "old s1 s2 \<Longrightarrow> old s2 s3 \<Longrightarrow> old s1 s3"
  by (auto simp: old_def intro: map_le_trans)

lemma collected_none: "reader_ok s \<Longrightarrow> collected s s NIL [] [] []"
  by (simp add: collected_def old_def)

text \<open>A file that holds forms has no comments at its head.\<close>

lemma saved_no_comments: "list_all readable es \<Longrightarrow> skip_comments (saved es) [] = ([], saved es)"
proof (cases es)
  case (Cons e fs)
  assume "list_all readable es"
  then have r: "readable e" using Cons by simp
  obtain c u where c: "show_sexp e = c # u" "c \<noteq> CHR '';''" using r by (rule show_start)
  have "c \<noteq> CHR ''#''"
  proof (cases e)
    case (Sx_num i)
    then show ?thesis using c token_long [of i] r by (cases "long_digits i") (auto simp: token_def)
  qed (use c r in \<open>auto simp: plain_name_def\<close>)
  then show ?thesis using c by (simp add: Cons skip_comments.simps)
qed (simp add: skip_comments.simps)


lemma rep_not_file:
  "rep ok nm s x e \<Longrightarrow> obj_at s lf = Some (Tc_c_file n f) \<Longrightarrow> rep (\<lambda>y. ok y \<and> y \<noteq> lf) nm s x e"
  by (induction e arbitrary: x) (auto simp: string_cell_def)

text \<open>The file is closed in the end.\<close>

lemma collected_close:
  assumes "collected s0 s l as xs es" "obj_at s0 (Ref a) = Some (Tc_c_file n (Some f))" "reads_from f [] s"
    "old sb s0" "length (cells sb) \<le> a"
  shows "\<exists>s'. siod_fclose_l (Ref a) s = (Ret NIL, s') \<and> reader_ok s' \<and> old sb s' \<and> list_on s' l as xs \<and>
    list_all2 (denotes s') xs es \<and> disk s' = disk s"
proof -
  let ?s1 = "s\<lparr>streams := (streams s)[f := (streams s ! f)\<lparr>st_open := False\<rparr>]\<rparr>"
  let ?s2 = "set_cell a (Tc_c_file None None) ?s1"
  have c: "reader_ok s" "old s0 s" "list_on s l as xs" using assms(1) by (simp_all add: collected_def)
  have cell: "obj_at s (Ref a) = Some (Tc_c_file n (Some f))" using c(2) assms(2) by (simp add: old_def)
  have cells: "a < length (cells s)" "cells s ! a = Tc_c_file n (Some f)" using cell by (simp_all add: obj_at_def split: if_splits)
  have ok1: "reader_ok ?s1" "table ?s1 = table s"
    by (rule loop_globals [OF c(1), where fr = "catch_framep s"]; simp add: constants_def)+
  have seg: "list_on ?s1 k bs ys = list_on s k bs ys" for k bs ys
    using list_seg_frame [of s k bs ys NIL ?s1] list_seg_frame [of ?s1 k bs ys NIL s] by auto
  have no_list: "a \<notin> set bs" if "list_on s k bs ys" for k bs ys
    using list_seg_is_cons [OF that, of a] cells(2) by auto
  then have b: "a \<notin> bucket_conses ?s1" by (auto simp: bucket_conses_def seg)
  have close: "siod_fclose_l (Ref a) s = (Ret NIL, ?s2)"
    using assms(3) cell cells
    by (simp add: siod_fclose_l_def siod_file_gc_free_def bind_run obj_at_look c_fclose_def on_stream_def set_stream_def
        modifyM_def reads_from_def store_def)
  have w1: "wf_state s" "wf_state ?s1" "symtab_ok ?s1" using c(1) ok1(1) by (simp_all add: reader_ok_def)
  have "ref_ok s (Ref a)" using cells by (simp add: ref_ok_def)
  from okM_Ret [OF ok_fclose_l [OF this] w1(1) close] have w2: "wf_state ?s2" by simp
  have t2: "symtab_ok ?s2" "table ?s2 = table s"
    using cell_store_table [OF w1(2,3) _ _ b, of ?s2 "Tc_c_file None None"] cells ok1(2) by auto
  have o: "obj_at ?s2 y = Some ob" if "obj_at s y = Some ob" "y \<noteq> Ref a" for y ob
    using that by (cases y) (auto simp: obj_at_def set_cell_def split: if_splits)
  have "reader_ok ?s2" using c(1) w2 t2 by (simp add: reader_ok_def set_cell_def)
  moreover have "old sb ?s2"
    using old_trans [OF assms(4) c(2)] o assms(5) t2(2)
    by (auto simp: old_def constants_def set_cell_def obj_at_def split: siod_LISP.splits if_splits)
  moreover have "list_on ?s2 l as xs" using c(3) no_list [OF c(3)] list_seg_set_cell by (simp add: seg)
  moreover have "list_all2 (denotes ?s2) xs es"
    using assms(1) unfolding collected_def denotes_def t2(2)
    by (elim conjE list_all2_mono) (drule rep_not_file [OF _ cell], erule rep_mono, auto intro: o)
  ultimately show ?thesis using close by (intro exI [of _ ?s2]) simp
qed

text \<open>Load with its flag for collecting the forms.\<close>

lemma load_run:
  assumes "reader_ok s" "c_string_of s fname = Some name" "CHR ''|'' \<notin> set name" "disk s name = Some (saved es)"
    "may_open s name ''r''" "list_all readable es" "\<forall>e\<in>set es. \<forall>p\<in>names_of e. hashable s p"
    "list_all (\<lambda>e. steps e \<le> le_depth env) es" "siod_verbose_level s < 3" "room (Suc (form_cells es)) s"
    "is_cons (obj_at s (eof_val s))" "length es < le_forms env" "c \<noteq> NIL"
  shows "\<exists>y s' bs ys. siod_load (Suc (Suc d)) env fname c NIL s = (Ret y, s') \<and> reader_ok s' \<and> old s s' \<and>
    list_on s' y bs ys \<and> list_all2 (denotes s') ys es \<and> disk s' = disk s"
proof -
  let ?a = "length (cells s)" let ?f = "length (streams s)" let ?st = "opened name True False False"
  let ?s0 = "(grow [Tc_c_file (Some name) (Some ?f)] s)\<lparr>disk := disk s, streams := streams s @ [?st]\<rparr>"
  have "room 1 s" using assms(10) by (simp add: room_def)
  note open_ok = file_cell_ok [OF assms(1) this refl, where n = "Some name" and f = "Some ?f" and d = "disk s" and
    x = "streams s @ [?st]"]
  have name: "get_c_string fname s = (Ret name, s)" using assms(2) by (rule c_string_run)
  have split: "split_offset name = (0, name)" using assms(3) by (simp add: split_offset_def)
  have "newcell (Tc_c_file None None) s = (Ret (Ref ?a), grow [Tc_c_file None None] s)"
    using assms(10) by (intro newcell_run [of "form_cells es"])
  moreover have "c_fopen name ''r'' (grow [Tc_c_file None None] s) =
      (Ret (Some ?f), (grow [Tc_c_file None None] s)\<lparr>disk := disk s, streams := streams s @ [?st]\<rparr>)"
    using assms(4,5) by (simp add: c_fopen_def grow_def fun_upd_idem)
  moreover have "store (Ref ?a) (Tc_c_file (Some name) (Some ?f))
      ((grow [Tc_c_file None None] s)\<lparr>disk := disk s, streams := streams s @ [?st]\<rparr>) = (Ret (), ?s0)"
    by (simp add: store_def grow_def set_cell_def)
  ultimately have opens: "siod_fopen_c name ''r'' s = (Ret (Ref ?a), ?s0)"
    by (simp add: siod_fopen_c_def siod_fopen_cg_def bind_run)
  have cell: "obj_at ?s0 (Ref ?a) = Some (Tc_c_file (Some name) (Some ?f))" by (simp add: obj_at_def)
  have stream: "siod_get_c_file (Ref ?a) None ?s0 = (Ret ?f, ?s0)"
    using obj_at_look [OF cell] by (simp add: siod_get_c_file_def bind_run)
  have ahead: "ahead ?s0 ?st = saved es" using assms(4) by (simp add: ahead_def opened_def content_def)
  have head: "read_comments ?f ?s0 = (Ret [], ?s0)"
    using ahead saved_no_comments [OF assms(6)]
    by (simp add: read_comments_def on_stream_def opened_def gets_def bind_run set_stream_def modifyM_def advance_def cstr_def)
  have "reads_from ?f (saved es) ?s0" using ahead by (simp add: reads_from_def opened_def)
  moreover have "is_cons (obj_at ?s0 (eof_val ?s0))" "siod_verbose_level ?s0 < 5"
    using assms(9,11) open_ok(2) by (auto simp: is_cons_def old_def constants_eq split: option.splits)
  moreover have "room (form_cells es) ?s0" using assms(10) by (simp add: room_def grow_def)
  moreover have "\<forall>e\<in>set es. \<forall>p\<in>names_of e. hashable ?s0 p"
    using assms(7) by (simp add: hashable_def hash_of_def grow_def)
  ultimately obtain y s1 bs ys where 1: "load_forms (le_forms env) env True NIL (Ref ?a) NIL NIL ?s0 = (Ret y, s1)"
    "collected ?s0 s1 y bs ys es" "reads_from ?f [] s1" "disk s1 = disk ?s0"
    using load_forms_run [OF cell _ _ collected_none [OF open_ok(1)], of NIL es env "le_forms env"] assms(6,8,12) by auto
  then have d1: "disk s1 = disk s" by simp
  obtain s' where 2: "siod_fclose_l (Ref ?a) s1 = (Ret NIL, s')" "reader_ok s'" "old s s'" "list_on s' y bs ys"
    "list_all2 (denotes s') ys es" "disk s' = disk s1"
    using collected_close [OF 1(2) cell 1(3) open_ok(2)] by auto
  have v: "siod_verbose_level s' < 3" using 2(3) assms(9) by (simp add: old_def)
  have "siod_load (Suc (Suc d)) env fname c NIL s = (Ret y, s')"
    using name split assms(9,13) opens stream head 1(1) 2(1) v
    by (simp add: bind_run verbose_quiet parser_name_def)
  then show ?thesis using 2(2-6) d1 by (metis)
qed


section \<open>The round trip\<close>

lemma denotes_list:
  "list_on s l as xs \<Longrightarrow> list_all2 (denotes s) xs es \<Longrightarrow> denotes s l (foldr Sx_cons es Sx_nil)"
proof (induction es arbitrary: l as xs)
  case (Cons e es)
  then obtain x ys where x: "xs = x # ys" "denotes s x e" "list_all2 (denotes s) ys es" by (auto simp: list_all2_Cons2)
  with Cons.prems(1) obtain a bs d where l: "l = Ref a" "a < length (cells s)" "cells s ! a = Tc_cons x d" "list_on s d bs ys"
    by (auto simp: list_seg_Cons_vals)
  show ?case using Cons.IH [OF l(4) x(3)] x(2) l(1-3) by (simp add: denotes_def obj_at_def)
next
  case Nil
  then show ?case by (cases as) (auto simp: denotes_def)
qed

lemma readable_list: "readable (foldr Sx_cons es Sx_nil) = list_all readable es"
  by (induction es) auto

text \<open>
  C11. Saving a list of forms to a file with save-forms and loading the file again with the flag for collecting its
  forms: both return, the file holds the representations of the forms, each with a newline, and the list that load
  returns has the representation of the one that was saved, so that equal finds them equal.  The forms are those that
  the printer writes in full (readable): conses of integers below 2^53, strings without NUL that fit the buffer of the
  reader, and symbols that need no quoting; for a fraction, which is printed to six digits, this does not hold.  The
  verbosity is below 3, where load is silent.
\<close>

theorem save_load_roundtrip:
  assumes "reader_ok s" "c_string_of s fname = Some name" "CHR ''|'' \<notin> set name" "list_on s l as xs"
    "list_all2 (denotes s) xs es" "list_all readable es" "list_all (\<lambda>e. steps e \<le> le_depth env) es"
    "siod_verbose_level s < 3" "may_open s name ''w''" "may_open s name ''r''" "room (2 + form_cells es) s"
    "is_cons (obj_at s (eof_val s))" "1 < length (streams s)" "length es < le_forms env" "c \<noteq> NIL"
  shows "\<exists>s1 y s2. siod_save_forms env fname l NIL s = (Ret (sym_t s), s1) \<and> disk s1 name = Some (saved es) \<and>
    siod_load (Suc (Suc d)) env fname c NIL s1 = (Ret y, s2) \<and> disk s2 name = Some (saved es) \<and>
    denotes s2 l (foldr Sx_cons es Sx_nil) \<and> denotes s2 y (foldr Sx_cons es Sx_nil) \<and>
    (steps (foldr Sx_cons es Sx_nil) \<le> k \<longrightarrow> siod_equal k l y s2 = (Ret (sym_t s2), s2))"
proof -
  let ?s1 = "saved_state name es s" let ?e = "foldr Sx_cons es Sx_nil"
  have r: "room 1 s" using assms(11) by (simp add: room_def)
  have save: "siod_save_forms env fname l NIL s = (Ret (sym_t s), ?s1)"
    using assms(5) unfolding denotes_def by (rule save_forms_run [OF assms(2,4) _ assms(6-9) r assms(13)])
  note ok = file_cell_ok [OF assms(1) r saved_state_def]
  have str: "c_string_of ?s1 fname = Some name"
    using assms(2) ok(2) by (auto simp: c_string_of_def old_def split: option.splits)
  have names: "\<forall>e\<in>set es. \<forall>p\<in>names_of e. hashable ?s1 p"
    using assms(5) rep_names
    by (fastforce simp: denotes_def list_all2_conv_all_nth in_set_conv_nth saved_state_def grow_def hashable_def hash_of_def)
  have eof: "is_cons (obj_at ?s1 (eof_val ?s1))"
    using assms(12) ok(2) by (auto simp: is_cons_def old_def constants_eq split: option.splits)
  have state: "may_open ?s1 name ''r''" "siod_verbose_level ?s1 < 3" "room (Suc (form_cells es)) ?s1"
      "disk ?s1 name = Some (saved es)"
    using assms(8,10,11) by (simp_all add: saved_state_def room_def)
  from load_run [OF ok(1) str assms(3) state(4,1) assms(6) names assms(7) state(2,3) eof assms(14,15), of d]
  obtain y s2 bs ys where load: "siod_load (Suc (Suc d)) env fname c NIL ?s1 = (Ret y, s2)" "reader_ok s2" "old ?s1 s2"
    "list_on s2 y bs ys" "list_all2 (denotes s2) ys es" "disk s2 = disk ?s1" by blast
  have l: "denotes s2 l ?e" by (rule old_denotes [OF old_trans [OF ok(2) load(3)] denotes_list [OF assms(4,5)]])
  have y: "denotes s2 y ?e" by (rule denotes_list [OF load(4,5)])
  have "wf_state s2" "readable ?e" using load(2) assms(6) by (simp_all add: reader_ok_def readable_list)
  then show ?thesis using save load(1,6) l y state(4) denotes_equal [of s2 ?e l y k] by auto
qed

text \<open>A state with the symbols of the dot and of ab, the list of ab, the name of a file and the mark of the end of a file.\<close>

definition forms_state :: siod where
  "forms_state = (small_state [Tc_symbol ''.'' NIL, Tc_symbol ''ab'' NIL, Tc_cons (Ref 1) (Ref 4), Tc_cons (Ref 2) NIL,
     string_cell ''f'', Tc_cons NIL NIL, Tc_cons (Ref 2) NIL])
     \<lparr>oblistvar := Ref 3, sym_dot := Ref 1, eof_val := Ref 6\<rparr>"

lemma forms_state_ok: "reader_ok forms_state" "table forms_state ''ab'' = Some (Ref 2)"
proof -
  have "wf_state forms_state"
    by (simp add: forms_state_def wf_state_def refs_ok_def inums_ok_def obarray_ok_def small_state_def symbol_at_def
      obj_at_def ref_ok_def globals_def constants_def string_cell_def)
  then show "reader_ok forms_state" "table forms_state ''ab'' = Some (Ref 2)"
    by (rule two_symbols_ok; simp add: forms_state_def small_state_def obj_at_def)+
qed

definition forms_env :: load_env where
  "forms_env = \<lparr>le_rc = run 3, le_depth = 20, le_forms = 5, le_lib = re_lib plain_env, le_memory = re_memory plain_env,
     le_lost = length, siod_lib = ''/usr/local/lib/siod''\<rparr>"

theorem save_load_roundtrip_witness:
  "\<exists>s1 y s2. siod_save_forms forms_env (Ref 5) (Ref 7) NIL forms_state = (Ret (Ref 0), s1) \<and>
     siod_load 2 forms_env (Ref 5) (Ref 0) NIL s1 = (Ret y, s2) \<and> disk s2 ''f'' = Some (''ab'' @ [CHR 0x0A]) \<and>
     siod_equal 10 (Ref 7) y s2 = (Ret (sym_t s2), s2)"
proof -
  have 1: "c_string_of forms_state (Ref 5) = Some ''f''"
    by (simp add: c_string_of_def obj_at_def forms_state_def small_state_def string_cell_def cstr_def)
  have 2: "list_on forms_state (Ref 7) [7] [Ref 2]" by (simp add: forms_state_def small_state_def)
  have 3: "list_all2 (denotes forms_state) [Ref 2] [Sx_sym ''ab'']"
    using forms_state_ok(2) by (simp add: denotes_def obj_at_def forms_state_def small_state_def)
  have 4: "list_all readable [Sx_sym ''ab'']" by code_simp
  have 5: "siod_verbose_level forms_state < 3" "may_open forms_state n h" "room (2 + form_cells [Sx_sym ''ab'']) forms_state"
      "is_cons (obj_at forms_state (eof_val forms_state))" "1 < length (streams forms_state)" "sym_t forms_state = Ref 0" for n h
    by (simp_all add: forms_state_def small_state_def room_def form_cells_def is_cons_def obj_at_def standard_streams_def)
  have 6: "list_all (\<lambda>e. steps e \<le> le_depth forms_env) [Sx_sym ''ab'']" "length [Sx_sym ''ab''] < le_forms forms_env"
    by (simp_all add: forms_env_def)
  show ?thesis
    using save_load_roundtrip [OF forms_state_ok(1) 1 _ 2 3 4 6(1) 5(1,2,2,3,4,5) 6(2), of "Ref 0" 0 10]
    unfolding 5(6) by (auto simp: numeral_2_eq_2 simp del: siod_load.simps siod_equal.simps)
qed

end
