(* ===== verification/Writer.thy ===== *)
theory Writer
  imports Load_Facts
begin

text \<open>
  Writing objects to files without quoting them (sliba.c): writes, which goes through lists, and swrite, which fills in
  a template from a hash table.
\<close>

section \<open>writes\<close>

text \<open>The loop over the conses of a list goes on as the function itself on what is behind a cons.\<close>

fun siod_writes1 :: "print_lib \<Rightarrow> nat \<Rightarrow> nat \<Rightarrow> siod_LISP \<Rightarrow> siod_LISP act" where
  "siod_writes1 lib 0 f l = nofuel"
| "siod_writes1 lib (Suc k) f l = bindM (look l) (\<lambda>ob. case ob of
       Some (Tc_cons a d) \<Rightarrow> bindM (siod_writes1 lib k f a) (\<lambda>_. bindM (CDR l) (siod_writes1 lib k f))
     | None \<Rightarrow> ret NIL
     | Some (Tc_symbol p v) \<Rightarrow> bindM (get_c_string l) (\<lambda>st. bindM (siod_fput_st f st) (\<lambda>_. ret NIL))
     | Some (Tc_string n b) \<Rightarrow> bindM (get_c_string l) (\<lambda>st. bindM (siod_fput_st f st) (\<lambda>_. ret NIL))
     | _ \<Rightarrow> bindM (siod_lprin1f lib k l f) (\<lambda>_. ret NIL))"

definition siod_writes :: "print_lib \<Rightarrow> nat \<Rightarrow> siod_LISP \<Rightarrow> siod_LISP act" where
  "siod_writes lib k args = bindM (siod_car args) (\<lambda>p. bindM (siod_get_c_file p (Some c_stdout)) (\<lambda>f.
     bindM (siod_cdr args) (siod_writes1 lib k f)))"

section \<open>swrite\<close>

definition siod_swrite1 :: "print_lib \<Rightarrow> nat \<Rightarrow> siod_LISP \<Rightarrow> siod_LISP \<Rightarrow> unit act" where
  "siod_swrite1 lib k stream data = bindM (siod_get_c_file stream (Some c_stdout)) (\<lambda>f. bindM (look data) (\<lambda>ob. case ob of
       Some (Tc_symbol p v) \<Rightarrow> bindM (get_c_string data) (siod_fput_st f)
     | Some (Tc_string n b) \<Rightarrow> bindM (get_c_string data) (siod_fput_st f)
     | _ \<Rightarrow> bindM (siod_lprin1f lib k data f) (\<lambda>_. ret ())))"

text \<open>
  What a name stands for.  A list of values gives its first one, and moves to the next one unless the name has a point in
  front of it.
\<close>

definition siod_swrite2 :: "siod_LISP \<Rightarrow> siod_LISP \<Rightarrow> siod_LISP act" where
  "siod_swrite2 name tab = bindM (look name) (\<lambda>ob.
     bindM (case ob of
         Some (Tc_symbol p v) \<Rightarrow> if p \<noteq> [] \<and> hd p = CHR ''.'' then siod_rintern (tl p) else ret name
       | _ \<Rightarrow> ret name) (\<lambda>key.
     bindM (siod_href tab key) (\<lambda>v. bindM (look v) (\<lambda>vob.
       if is_cons vob then
         bindM (CDR v) (\<lambda>d. bindM (look d) (\<lambda>dob.
         bindM (if is_cons dob \<and> name = key then siod_hset tab key d else ret NIL) (\<lambda>_. CAR v)))
       else if v = NIL then ret name
       else ret v))))"

text \<open>An array is its first element, the number of repetitions, and a template: the loops over both.\<close>

fun swrite_elements :: "(siod_LISP \<Rightarrow> siod_LISP act) \<Rightarrow> siod_LISP \<Rightarrow> nat list \<Rightarrow> unit act" where
  "swrite_elements sw data [] = ret ()"
| "swrite_elements sw data (j # js) = bindM (look data) (\<lambda>ob. case ob of
       Some (Tc_lisp_array xs) \<Rightarrow>
         if j < length xs then bindM (sw (xs ! j)) (\<lambda>_. swrite_elements sw data js) else undef
     | _ \<Rightarrow> undef)"

fun swrite_repeat :: "(siod_LISP \<Rightarrow> siod_LISP act) \<Rightarrow> siod_LISP \<Rightarrow> nat \<Rightarrow> nat \<Rightarrow> unit act" where
  "swrite_repeat sw data n 0 = ret ()"
| "swrite_repeat sw data n (Suc m) = bindM (swrite_elements sw data [1..<n]) (\<lambda>_. swrite_repeat sw data n m)"

text \<open>A list writes nothing.\<close>

fun siod_swrite :: "print_lib \<Rightarrow> nat \<Rightarrow> siod_LISP \<Rightarrow> siod_LISP \<Rightarrow> siod_LISP \<Rightarrow> siod_LISP act" where
  "siod_swrite lib 0 stream tab data = nofuel"
| "siod_swrite lib (Suc k) stream tab data = bindM (look data) (\<lambda>ob. case ob of
       Some (Tc_symbol p v) \<Rightarrow> bindM (siod_swrite2 data tab) (\<lambda>x. bindM (siod_swrite1 lib k stream x) (\<lambda>_. ret NIL))
     | Some (Tc_lisp_array xs) \<Rightarrow>
         if length xs < 1 then errm ''no object repeat count'' data
         else bindM (siod_swrite2 (xs ! 0) tab) (\<lambda>c. bindM (siod_get_c_long c) (\<lambda>m.
           bindM (swrite_repeat (siod_swrite lib k stream tab) data (length xs) (nat m)) (\<lambda>_. ret NIL)))
     | Some (Tc_cons a d) \<Rightarrow> ret NIL
     | _ \<Rightarrow> bindM (siod_swrite1 lib k stream data) (\<lambda>_. ret NIL))"

section \<open>They keep the invariant\<close>

lemma ok_write_string: "okR s (bindM (get_c_string l) (\<lambda>st. bindM (siod_fput_st f st) (\<lambda>_. ret NIL)))"
  by (intro okU_bind [OF ok_get_c_string] okU_bind [OF ok_fput_st] okM_ret ref_ok_NIL)

lemma ok_writes1: "okR s (siod_writes1 lib k f l)"
proof (induction k arbitrary: s l)
  case (Suc k)
  show ?case
    unfolding siod_writes1.simps
    by (rule okM_look) (auto split: option.split obj.split intro!: okM_ret ok_write_string okR_bind [OF ok_lprin1f]
        okR_bind [OF Suc.IH] okR_bind [OF ok_CDR] Suc.IH)
qed (simp add: okM_stop)

lemma ok_writes: "okR s (siod_writes lib k args)"
  unfolding siod_writes_def
  by (intro okR_bind [OF ok_car] okU_bind [OF ok_get_c_file] okR_bind [OF ok_cdr] ok_writes1)

lemma ok_swrite1: "ref_ok s stream \<Longrightarrow> okU s (siod_swrite1 lib k stream data)"
  unfolding siod_swrite1_def
  by (intro okU_bind [OF ok_get_c_file] okM_look)
    (auto split: option.split obj.split intro!: okU_bind [OF ok_get_c_string] ok_fput_st okR_bind [OF ok_lprin1f] okM_ret)

lemma ok_swrite2: "ref_ok s name \<Longrightarrow> ref_ok s tab \<Longrightarrow> okR s (siod_swrite2 name tab)"
proof -
  have key: "ref_ok s name \<Longrightarrow> okR s (case ob of Some (Tc_symbol p v) \<Rightarrow> if p \<noteq> [] \<and> hd p = CHR ''.'' then siod_rintern (tl p) else ret name
       | _ \<Rightarrow> ret name)" for s ob
    by (auto split: option.split obj.split intro!: okM_ret ok_interns)
  have move: "ref_ok s tab \<Longrightarrow> ref_ok s key \<Longrightarrow> ref_ok s d \<Longrightarrow> okR s (if b then siod_hset tab key d else ret NIL)" for s b key d
    by (intro okM_if ok_hset okM_ret ref_ok_NIL)
  show "ref_ok s name \<Longrightarrow> ref_ok s tab \<Longrightarrow> okR s (siod_swrite2 name tab)"
    unfolding siod_swrite2_def
    by (intro okM_look okR_bind [OF key] okR_bind [OF ok_href] okM_if okR_bind [OF ok_CDR] okR_bind [OF move] ok_CAR okM_ret)
      (assumption | meson ref_ok_later)+
qed

lemma ok_swrite_loops:
  assumes "\<And>s x. ref_ok s x \<Longrightarrow> ref_ok s stream \<Longrightarrow> ref_ok s tab \<Longrightarrow> okR s (sw x)"
  shows "ref_ok s stream \<Longrightarrow> ref_ok s tab \<Longrightarrow> okU s (swrite_elements sw data js)"
    "ref_ok s stream \<Longrightarrow> ref_ok s tab \<Longrightarrow> okU s (swrite_repeat sw data n m)"
proof -
  show el: "ref_ok s stream \<Longrightarrow> ref_ok s tab \<Longrightarrow> okU s (swrite_elements sw data js)" for s js
  proof (induction js arbitrary: s)
    case (Cons j js)
    show ?case
      unfolding swrite_elements.simps
      by (rule okM_look) (use Cons in \<open>auto split: option.split obj.split simp: list_all_length
          intro!: okM_stop okR_bind [OF assms] Cons.IH intro: ref_ok_later\<close>)
  qed (simp add: okM_ret)
  show "ref_ok s stream \<Longrightarrow> ref_ok s tab \<Longrightarrow> okU s (swrite_repeat sw data n m)"
    by (induction m arbitrary: s) (auto intro!: okM_ret okU_bind [OF el] intro: ref_ok_later)
qed

lemma ok_swrite: "ref_ok s stream \<Longrightarrow> ref_ok s tab \<Longrightarrow> ref_ok s data \<Longrightarrow> okR s (siod_swrite lib k stream tab data)"
proof (induction k arbitrary: s data)
  case (Suc k)
  note loop = ok_swrite_loops(2) [of stream tab "siod_swrite lib k stream tab", OF Suc.IH]
  show ?case
    unfolding siod_swrite.simps
    by (rule okM_look) (use Suc.prems in \<open>auto split: option.split obj.split simp: list_all_length intro!: okM_ret okM_err okM_if
        okU_bind [OF ok_swrite1] okR_bind [OF ok_swrite2] okU_bind [OF ok_get_c_long] okU_bind [OF loop] intro: ref_ok_later\<close>)
qed (simp add: okM_stop)

section \<open>What writes writes\<close>

fun plain_text :: "sexp \<Rightarrow> string" where
  "plain_text Sx_nil = []"
| "plain_text (Sx_num i) = long_digits i"
| "plain_text (Sx_sym p) = p"
| "plain_text (Sx_str t) = t"
| "plain_text (Sx_cons a d) = plain_text a @ plain_text d"

lemma plain_text_no_NUL: "readable e \<Longrightarrow> NUL \<notin> set (plain_text e)"
  using show_no_NUL [of "Sx_num _"] show_no_NUL [of "Sx_sym _"] by (induction e) auto

lemma fits_any: "file_fits f 0 s \<Longrightarrow> file_fits f n s"
  by (simp add: file_fits_def)

text \<open>
  C12. writes of a list structure of integers, strings and symbols to a file writes their texts one after another, the
  strings without quotes and escapes and the lists without parentheses, and changes nothing but the file.
\<close>

theorem writes1_flattens:
  "readable e \<Longrightarrow> rep (\<lambda>_. True) nm s x e \<Longrightarrow> steps e \<le> k \<Longrightarrow> file_fits f 0 s \<Longrightarrow>
   siod_writes1 lib k f x s = (Ret NIL, file_put f (plain_text e) s)"
proof (induction e arbitrary: x k s)
  case Sx_nil
  then show ?case using file_sink.put_nil [of f 0 s] by (cases k) (simp_all add: bind_run)
next
  case (Sx_num i)
  then obtain k' where k: "k = Suc (Suc k')" by (cases k rule: nat.exhaust; cases "k - 1") auto
  have "siod_lprin1f lib (Suc k') x f s = (Ret NIL, file_put f (long_digits i) s)"
    using file_sink.writes_atom [OF Sx_num.prems(1,2), of f lib k'] fits_any [OF Sx_num.prems(4)]
    by (simp add: file_sink.writes_def siod_lprin1f_def bind_run)
  then show ?case using Sx_num.prems k by (auto simp: bind_run obj_at_look)
next
  case (Sx_sym p)
  then show ?case by (cases k) (auto simp: bind_run obj_at_look get_c_string_def file_write [of f 0])
next
  case (Sx_str t)
  then show ?case
    by (cases k) (auto simp: bind_run obj_at_look get_c_string_def file_write [of f 0] string_cell_def cstr_terminated)
next
  case (Sx_cons a d)
  then obtain k' where k: "k = Suc k'" "steps a \<le> k'" "steps d \<le> k'" by (cases k) auto
  obtain xa xd where c: "obj_at s x = Some (Tc_cons xa xd)" "rep (\<lambda>_. True) nm s xa a" "rep (\<lambda>_. True) nm s xd d"
    using Sx_cons.prems(2) by auto
  let ?s = "file_put f (plain_text a) s"
  have n: "NUL \<notin> set (plain_text a)" "NUL \<notin> set (plain_text d)"
    using Sx_cons.prems(1) plain_text_no_NUL by auto
  have "siod_writes1 lib k' f xa s = (Ret NIL, ?s)" using Sx_cons c k by (intro Sx_cons.IH(1)) auto
  moreover have "obj_at ?s x = Some (Tc_cons xa xd)" using file_sink.put_obj [OF TrueI c(1)] .
  then have "CDR x ?s = (Ret xd, ?s)" by (simp add: CDR_def bind_run obj_at_look)
  moreover have "siod_writes1 lib k' f xd ?s = (Ret NIL, file_put f (plain_text d) ?s)"
    using Sx_cons.prems(1) k(3) file_sink.rep_put [OF c(3)] file_sink.fits_put [OF n(1) fits_any [OF Sx_cons.prems(4)], of 0]
    by (intro Sx_cons.IH(2)) auto
  moreover have "file_put f (plain_text d) ?s = file_put f (plain_text (Sx_cons a d)) s"
    using file_sink.put_put [OF n fits_any [OF Sx_cons.prems(4)]] by simp
  ultimately show ?case using c(1) k(1) by (simp add: bind_run obj_at_look)
qed

theorem writes1_flattens_witness:
  "\<forall>lib. siod_writes1 lib 20 3 (Ref 4) ((small_state [Tc_symbol ''ab'' NIL, string_cell ''x y'', Tc_cons (Ref 2) NIL,
       Tc_cons (Ref 1) (Ref 3)])\<lparr>disk := [''f'' \<mapsto> []], streams := standard_streams @ [opened ''f'' False True False]\<rparr>) =
     (Ret NIL, file_put 3 ''abx y'' ((small_state [Tc_symbol ''ab'' NIL, string_cell ''x y'', Tc_cons (Ref 2) NIL,
       Tc_cons (Ref 1) (Ref 3)])\<lparr>disk := [''f'' \<mapsto> []], streams := standard_streams @ [opened ''f'' False True False]\<rparr>))"
proof
  fix lib
  let ?s = "(small_state [Tc_symbol ''ab'' NIL, string_cell ''x y'', Tc_cons (Ref 2) NIL, Tc_cons (Ref 1) (Ref 3)])
    \<lparr>disk := [''f'' \<mapsto> []], streams := standard_streams @ [opened ''f'' False True False]\<rparr>"
  let ?e = "Sx_cons (Sx_sym ''ab'') (Sx_cons (Sx_str ''x y'') Sx_nil)"
  have r: "readable ?e" by code_simp
  have x: "rep (\<lambda>_. True) (\<lambda>_ _. True) ?s (Ref 4) ?e" by (simp add: small_state_def obj_at_def)
  have f: "file_fits 3 0 ?s" by (simp add: file_fits_def standard_streams_def opened_def content_def nth_append)
  show "siod_writes1 lib 20 3 (Ref 4) ?s = (Ret NIL, file_put 3 ''abx y'' ?s)"
    using writes1_flattens [OF r x _ f, of 20 lib] by simp
qed

end
