(* ===== verification/Fasl.thy ===== *)
theory Fasl
  imports Load
begin

text \<open>
  The binary format of objects in files (sliba.c): siod_fast_print and siod_fast_read with the table that both keep of
  the symbols, and siod_fast_load and siod_fast_save.  A table is a list of a file, a hash table or NIL, and the next
  index.  The cell bashnum is a flonum that the code uses for numbers it passes to other functions.
\<close>

section \<open>Numbers in memory\<close>

text \<open>The bits of a double in the IEEE 754 format, as a number, and its bytes.\<close>

definition double_bits :: "double \<Rightarrow> nat" where
  "double_bits d = (case d of
       DNaN \<Rightarrow> 2047 * 2 ^ 52 + 2 ^ 51
     | DInf neg \<Rightarrow> (if neg then 2 ^ 63 else 0) + 2047 * 2 ^ 52
     | DZero neg \<Rightarrow> (if neg then 2 ^ 63 else 0)
     | DFin m e \<Rightarrow>
         (let a = nat \<bar>m\<bar>; n = nbits a; top = e + int n - 1
          in (if m < 0 then 2 ^ 63 else 0) +
             (if - 1022 \<le> top then nat (top + 1023) * 2 ^ 52 + (a * 2 ^ (53 - n) - 2 ^ 52)
              else a * 2 ^ nat (e + 1074))))"

definition double_bytes :: "double \<Rightarrow> char list" where
  "double_bytes d = map (\<lambda>j. char_of ((double_bits d div 256 ^ j) mod 256)) [0..<8]"

abbreviation (input) FO_comment :: nat where "FO_comment \<equiv> 35"
abbreviation (input) FO_fetch :: nat where "FO_fetch \<equiv> 127"
abbreviation (input) FO_store :: nat where "FO_store \<equiv> 126"
abbreviation (input) FO_list :: nat where "FO_list \<equiv> 125"
abbreviation (input) FO_listd :: nat where "FO_listd \<equiv> 124"

definition put_code :: "nat \<Rightarrow> nat \<Rightarrow> unit act" where
  "put_code c f = c_write f [char_of c]"

definition siod_put_long :: "int \<Rightarrow> nat \<Rightarrow> unit act" where
  "siod_put_long i f = c_write f (long_bytes i)"

text \<open>Reading less than the eight bytes leaves a local variable without a value.\<close>

definition siod_get_long :: "nat \<Rightarrow> int act" where
  "siod_get_long f = bindM (c_fread 8 f) (\<lambda>t. if length t < 8 then undef else ret (wrap 64 (int (le_value t))))"

definition stream_of :: "siod_LISP \<Rightarrow> nat act" where
  "stream_of table = bindM (siod_car table) (\<lambda>p. siod_get_c_file p None)"

definition hash_of_table :: "siod_LISP \<Rightarrow> siod_LISP act" where
  "hash_of_table table = bindM (siod_cdr table) siod_car"

section \<open>Printing\<close>

text \<open>Whether the object is to be printed.\<close>

definition siod_fast_print_table :: "siod_LISP \<Rightarrow> siod_LISP \<Rightarrow> siod_LISP \<Rightarrow> bool act" where
  "siod_fast_print_table bashnum obj table = bindM (stream_of table) (\<lambda>f. bindM (hash_of_table table) (\<lambda>ht.
     if ht = NIL then ret True
     else bindM (siod_href ht obj) (\<lambda>index.
       if index \<noteq> NIL then bindM (put_code FO_fetch f) (\<lambda>_. bindM (siod_get_c_long index) (\<lambda>i.
         bindM (siod_put_long i f) (\<lambda>_. ret False)))
       else bindM (siod_cdr table) (\<lambda>t1. bindM (siod_cdr t1) (\<lambda>t2. bindM (siod_car t2) (\<lambda>index.
         if index = NIL then ret True
         else bindM (siod_hset ht obj index) (\<lambda>_. bindM (store bashnum (Tc_flonum (of_long 1))) (\<lambda>_.
           bindM (siod_plus index bashnum) (\<lambda>next. bindM (siod_setcar t2 next) (\<lambda>_.
           bindM (put_code FO_store f) (\<lambda>_. bindM (siod_get_c_long index) (\<lambda>i.
           bindM (siod_put_long i f) (\<lambda>_. ret True)))))))))))))"

text \<open>
  In the loops pr prints an element.  Printing the conses of a list gives what is behind them; the number bounds how
  many there are.  The hook of arrays is the only one that prints; a length of 2^31 bytes does not fit the int that
  holds it.
\<close>

fun fast_print_conses :: "(siod_LISP \<Rightarrow> siod_LISP act) \<Rightarrow> nat \<Rightarrow> siod_LISP \<Rightarrow> siod_LISP act" where
  "fast_print_conses pr 0 tmp = nofuel"
| "fast_print_conses pr (Suc k) tmp = bindM (look tmp) (\<lambda>ob. case ob of
       Some (Tc_cons a d) \<Rightarrow> bindM (pr a) (\<lambda>_. bindM (CDR tmp) (fast_print_conses pr k))
     | _ \<Rightarrow> ret tmp)"

fun fast_print_all :: "(siod_LISP \<Rightarrow> siod_LISP act) \<Rightarrow> siod_LISP list \<Rightarrow> unit act" where
  "fast_print_all pr [] = ret ()"
| "fast_print_all pr (x # xs) = bindM (pr x) (\<lambda>_. fast_print_all pr xs)"

definition print_block :: "nat \<Rightarrow> nat \<Rightarrow> nat \<Rightarrow> char list \<Rightarrow> siod_LISP act" where
  "print_block code f n bs =
     (if length bs < n \<or> 2 ^ 31 \<le> n then undef
      else bindM (put_code code f) (\<lambda>_. bindM (siod_put_long (int n) f) (\<lambda>_. bindM (c_write f (take n bs)) (\<lambda>_. ret NIL))))"

definition array_siod_fast_print :: "(siod_LISP \<Rightarrow> siod_LISP act) \<Rightarrow> siod_LISP \<Rightarrow> siod_LISP \<Rightarrow> siod_LISP act" where
  "array_siod_fast_print pr obj table = bindM (stream_of table) (\<lambda>f. bindM (look obj) (\<lambda>ob. case ob of
       Some (Tc_string n b) \<Rightarrow> print_block 13 f n b
     | Some (Tc_byte_array n b) \<Rightarrow> print_block 18 f n b
     | Some (Tc_double_array xs) \<Rightarrow> print_block 14 f (8 * length xs) (concat (map double_bytes xs))
     | Some (Tc_long_array xs) \<Rightarrow> print_block 15 f (8 * length xs) (concat (map long_bytes xs))
     | Some (Tc_lisp_array xs) \<Rightarrow>
         if 2 ^ 31 \<le> length xs then undef
         else bindM (put_code 16 f) (\<lambda>_. bindM (siod_put_long (int (length xs)) f) (\<lambda>_.
           bindM (fast_print_all pr xs) (\<lambda>_. ret NIL)))
     | _ \<Rightarrow> siod_errswitch))"

definition print_symbol :: "siod_LISP \<Rightarrow> nat \<Rightarrow> siod_LISP \<Rightarrow> string \<Rightarrow> siod_LISP \<Rightarrow> siod_LISP act" where
  "print_symbol bn f obj p table = bindM (siod_fast_print_table bn obj table) (\<lambda>b.
     if b then bindM (put_code 3 f) (\<lambda>_.
       if 5120 \<le> length p then errm ''symbol name too long'' obj
       else bindM (siod_put_long (int (length p)) f) (\<lambda>_. bindM (c_write f p) (\<lambda>_. gets sym_t)))
     else ret NIL)"

text \<open>The fuel bounds the nesting, and the number of conses of a list.\<close>

fun siod_fast_print :: "siod_LISP \<Rightarrow> nat \<Rightarrow> siod_LISP \<Rightarrow> siod_LISP \<Rightarrow> siod_LISP act" where
  "siod_fast_print bn 0 obj table = nofuel"
| "siod_fast_print bn (Suc k) obj table = bindM (stream_of table) (\<lambda>f. bindM (look obj) (\<lambda>ob.
     (let pr = (\<lambda>x. siod_fast_print bn k x table) in case ob of
       None \<Rightarrow> bindM (put_code 0 f) (\<lambda>_. ret NIL)
     | Some (Tc_cons a d) \<Rightarrow> bindM (cons_count k 0 obj) (\<lambda>(len, tmp).
         if len = 1 then bindM (put_code 1 f) (\<lambda>_. bindM (siod_car obj) (\<lambda>x. bindM (pr x) (\<lambda>_.
           bindM (siod_cdr obj) (\<lambda>y. bindM (pr y) (\<lambda>_. ret NIL)))))
         else if tmp = NIL then bindM (put_code FO_list f) (\<lambda>_. bindM (siod_put_long (int len) f) (\<lambda>_.
           bindM (fast_print_conses pr k obj) (\<lambda>_. ret NIL)))
         else bindM (put_code FO_listd f) (\<lambda>_. bindM (siod_put_long (int len) f) (\<lambda>_.
           bindM (fast_print_conses pr k obj) (\<lambda>tmp. bindM (pr tmp) (\<lambda>_. ret NIL)))))
     | Some (Tc_flonum d) \<Rightarrow> bindM (put_code 2 f) (\<lambda>_. bindM (c_write f (double_bytes d)) (\<lambda>_. ret NIL))
     | Some (Tc_symbol p v) \<Rightarrow> print_symbol bn f obj p table
     | Some ob \<Rightarrow>
         if type_code ob \<in> {13, 14, 15, 16, 18} then array_siod_fast_print pr obj table
         else errm ''cannot fast-print'' obj)))"

definition siod_array_siod_fast_print :: "siod_LISP \<Rightarrow> nat \<Rightarrow> siod_LISP \<Rightarrow> siod_LISP \<Rightarrow> siod_LISP act" where
  "siod_array_siod_fast_print bn k ptr table = array_siod_fast_print (\<lambda>x. siod_fast_print bn k x table) ptr table"

section \<open>Reading\<close>

text \<open>The rest of a comment, and the character that ends it: a newline or a NUL.\<close>

definition skip_comment :: "nat \<Rightarrow> char option act" where
  "skip_comment f = on_stream f (\<lambda>st. bindM (gets (\<lambda>s. ahead s st)) (\<lambda>t.
     (let n = length (takeWhile (\<lambda>c. c \<noteq> NUL \<and> c \<noteq> CHR 0x0A) t) in
      if n < length t then bindM (set_stream f (advance (Suc n) st)) (\<lambda>_. ret (Some (t ! n)))
      else bindM (set_stream f (advance n st)) (\<lambda>_. ret None))))"

text \<open>The elements of n bytes each, where all of the bytes were read.\<close>

fun chunks :: "nat \<Rightarrow> nat \<Rightarrow> char list \<Rightarrow> char list list" where
  "chunks n 0 t = []"
| "chunks n (Suc k) t = (if length t < n then [] else take n t # chunks n k (drop n t))"

definition long_of :: "char list \<Rightarrow> int" where
  "long_of t = wrap (8 * length t) (int (le_value t))"

text \<open>What was read of n elements, and the memory behind it.\<close>

definition filled :: "(nat \<Rightarrow> 'a) \<Rightarrow> nat \<Rightarrow> 'a list \<Rightarrow> 'a list" where
  "filled mem n xs = xs @ map mem [length xs..<n]"

text \<open>Fetching an object of the table by its index.\<close>

definition fast_fetch :: "siod_LISP \<Rightarrow> nat \<Rightarrow> siod_LISP \<Rightarrow> siod_LISP act" where
  "fast_fetch bn f table = bindM (siod_get_long f) (\<lambda>len. bindM (store bn (Tc_flonum (of_long len))) (\<lambda>_.
     bindM (hash_of_table table) (\<lambda>ht. siod_href ht bn)))"

text \<open>In the loops rd reads an object.  The cars of a list, of which the last cons is given back.\<close>

fun fast_read_cars :: "siod_LISP act \<Rightarrow> nat \<Rightarrow> siod_LISP \<Rightarrow> siod_LISP act" where
  "fast_read_cars rd 0 tmp = bindM rd (\<lambda>x. bindM (SET_CAR tmp x) (\<lambda>_. ret tmp))"
| "fast_read_cars rd (Suc n) tmp =
     bindM rd (\<lambda>x. bindM (SET_CAR tmp x) (\<lambda>_. bindM (CDR tmp) (fast_read_cars rd n)))"

definition fast_read_list :: "siod_LISP \<Rightarrow> siod_LISP act \<Rightarrow> bool \<Rightarrow> nat \<Rightarrow> siod_LISP act" where
  "fast_read_list bn rd dotted f = bindM (siod_get_long f) (\<lambda>len.
     bindM (store bn (Tc_flonum (of_long len))) (\<lambda>_. bindM (siod_make_list bn NIL) (\<lambda>l.
     bindM (fast_read_cars rd (nat (len - 1)) l) (\<lambda>tmp.
     bindM (if dotted then bindM rd (SET_CDR tmp) else ret ()) (\<lambda>_. ret l)))))"

definition fast_read_symbol :: "nat \<Rightarrow> siod_LISP act" where
  "fast_read_symbol f = bindM (siod_get_long f) (\<lambda>len.
     if 5120 \<le> len then errm ''symbol name too long'' NIL
     else if len < 0 then undef
     else bindM (c_fread (nat len) f) (\<lambda>t. if length t < nat len then undef else siod_rintern (cstr t)))"

definition fast_read_flonum :: "memory \<Rightarrow> nat \<Rightarrow> siod_LISP act" where
  "fast_read_flonum mem f = bindM (newcell (Tc_flonum (mem_double mem 0))) (\<lambda>tmp. bindM (c_fread 8 f) (\<lambda>t.
     if length t < 8 then undef
     else bindM (store tmp (Tc_flonum (ctype_value 2 t))) (\<lambda>_. ret tmp)))"

fun fast_read_elements :: "siod_LISP act \<Rightarrow> nat \<Rightarrow> nat \<Rightarrow> siod_LISP \<Rightarrow> unit act" where
  "fast_read_elements rd 0 j ptr = ret ()"
| "fast_read_elements rd (Suc n) j ptr = bindM rd (\<lambda>x. bindM (look ptr) (\<lambda>ob. case ob of
       Some (Tc_lisp_array xs) \<Rightarrow>
         if j < length xs then bindM (store ptr (Tc_lisp_array (xs[j := x]))) (\<lambda>_. fast_read_elements rd n (Suc j) ptr)
         else undef
     | _ \<Rightarrow> undef))"

definition array_siod_fast_read :: "siod_LISP \<Rightarrow> memory \<Rightarrow> siod_LISP act \<Rightarrow> nat \<Rightarrow> siod_LISP \<Rightarrow> siod_LISP act" where
  "array_siod_fast_read bn mem rd code table = bindM (stream_of table) (\<lambda>f.
     if code \<notin> {13, 14, 15, 16, 18} then siod_errswitch
     else bindM (siod_get_long f) (\<lambda>len.
       if code = 16 then bindM (store bn (Tc_flonum (of_long len))) (\<lambda>_. bindM (siod_cons_array bn NIL) (\<lambda>ptr.
         bindM (fast_read_elements rd (nat len) 0 ptr) (\<lambda>_. ret ptr)))
       else if len < 0 then undef
       else (let n = nat len;
                 fill = (\<lambda>size mk. bindM (newcell (mk [])) (\<lambda>ptr. bindM (c_fread (size * n) f) (\<lambda>t.
                   bindM (store ptr (mk t)) (\<lambda>_. ret ptr))))
             in if code = 13 then fill 1 (\<lambda>t. Tc_string n (filled (mem_char mem) n t @ [NUL]))
                else if code = 18 then fill 1 (\<lambda>t. Tc_byte_array n (filled (mem_char mem) n t))
                else if code = 14 then fill 8 (\<lambda>t. Tc_double_array (filled (mem_double mem) n (map (ctype_value 2) (chunks 8 n t))))
                else fill 8 (\<lambda>t. Tc_long_array (filled (mem_long mem) n (map long_of (chunks 8 n t)))))))"

fun siod_fast_read :: "siod_LISP \<Rightarrow> memory \<Rightarrow> nat \<Rightarrow> siod_LISP \<Rightarrow> siod_LISP act" where
  "siod_fast_read bn mem 0 table = nofuel"
| "siod_fast_read bn mem (Suc k) table = bindM (stream_of table) (\<lambda>f. bindM (c_getc f) (\<lambda>oc.
     (let rd = siod_fast_read bn mem k table; c = map_option of_char oc :: nat option in
         if c = None then ret table
         else if c = Some FO_comment then bindM (skip_comment f) (\<lambda>r.
             if r = None then ret table
             else if r = Some (CHR 0x0A) then rd
             else fast_fetch bn f table)
         else if c = Some FO_fetch then fast_fetch bn f table
         else if c = Some FO_store then bindM (siod_get_long f) (\<lambda>len. bindM rd (\<lambda>tmp.
           bindM (hash_of_table table) (\<lambda>ht. bindM (siod_flocons (of_long len)) (\<lambda>key.
           bindM (siod_hset ht key tmp) (\<lambda>_. ret tmp)))))
         else if c = Some 0 then ret NIL
         else if c = Some 1 then bindM rd (\<lambda>tmp. bindM rd (siod_cons tmp))
         else if c = Some FO_list then fast_read_list bn rd False f
         else if c = Some FO_listd then fast_read_list bn rd True f
         else if c = Some 2 then fast_read_flonum mem f
         else if c = Some 3 then fast_read_symbol f
         else if 100 \<le> the c then errm ''type number out of range'' NIL
         else if the c \<in> {13, 14, 15, 16, 18} then array_siod_fast_read bn mem rd (the c) table
         else bindM (siod_flocons (of_long (int (the c)))) (errm ''unknown fast-read opcode''))))"

definition siod_array_siod_fast_read :: "siod_LISP \<Rightarrow> memory \<Rightarrow> nat \<Rightarrow> nat \<Rightarrow> siod_LISP \<Rightarrow> siod_LISP act" where
  "siod_array_siod_fast_read bn mem k code table = array_siod_fast_read bn mem (siod_fast_read bn mem k table) code table"


section \<open>Files of objects\<close>

text \<open>The form that is eq to the stream is the end of the file.\<close>

fun fast_load_forms :: "nat \<Rightarrow> siod_LISP \<Rightarrow> load_env \<Rightarrow> siod_LISP \<Rightarrow> bool \<Rightarrow> siod_LISP \<Rightarrow> siod_LISP act" where
  "fast_load_forms 0 bn e stream noeval result = nofuel"
| "fast_load_forms (Suc k) bn e stream noeval result = bindM (siod_fast_read bn (le_memory e) (le_depth e) stream) (\<lambda>form.
     if form = stream then ret result
     else bindM (gets siod_verbose_level) (\<lambda>v.
       bindM (if 5 \<le> v then siod_lprint (le_lib e) (le_depth e) form NIL else ret NIL) (\<lambda>_.
       if noeval then bindM (siod_cons form result) (fast_load_forms k bn e stream noeval)
       else bindM (ev (le_rc e) form NIL) (\<lambda>_. fast_load_forms k bn e stream noeval result))))"

definition siod_fast_load :: "siod_LISP \<Rightarrow> load_env \<Rightarrow> siod_LISP \<Rightarrow> siod_LISP \<Rightarrow> siod_LISP act" where
  "siod_fast_load bn e lfname noeval = bindM (get_c_string lfname) (\<lambda>fname.
     bindM (verbose_message 3 [''fast siod_loading '', fname, [CHR 0x0A]]) (\<lambda>_.
     bindM (siod_fopen_c fname ''rb'') (\<lambda>file_cell. bindM (siod_flocons (of_long 100)) (\<lambda>n. bindM (siod_cons_array n NIL) (\<lambda>ht.
     bindM (siod_flocons (of_long 0)) (\<lambda>index. bindM (siod_listn [file_cell, ht, index]) (\<lambda>stream.
     bindM (fast_load_forms (le_forms e) bn e stream (noeval \<noteq> NIL) NIL) (\<lambda>result.
     bindM (siod_car stream) (\<lambda>p. bindM (siod_fclose_l p) (\<lambda>_.
     bindM (verbose_message 3 [''done.'' @ [CHR 0x0A]]) (\<lambda>_. siod_nreverse result)))))))))))"

text \<open>Two digits for each byte.\<close>

definition siod_ssiod_hexstr :: "char list \<Rightarrow> string" where
  "siod_ssiod_hexstr buff = concat (map (\<lambda>c. [upper_digits ! (of_char c div 16), upper_digits ! (of_char c mod 16)]) buff)"

text \<open>The comments in front of the objects say how numbers are laid out.\<close>

definition format_lines :: "string list" where
  "format_lines = map (\<lambda>l. l @ [CHR 0x0A]) [''# Siod Binary Object Save File'', ''# sizeof(long) = 8'', ''# sizeof(double) = 8'',
     ''# 1 = '' @ siod_ssiod_hexstr (long_bytes 1), ''# 1.0 = '' @ siod_ssiod_hexstr (double_bytes (of_long 1))]"

fun fast_save_forms :: "nat \<Rightarrow> siod_LISP \<Rightarrow> load_env \<Rightarrow> siod_LISP \<Rightarrow> siod_LISP \<Rightarrow> unit act" where
  "fast_save_forms 0 bn e stream l = nofuel"
| "fast_save_forms (Suc k) bn e stream l =
     (if l = NIL then ret ()
      else bindM (siod_car l) (\<lambda>x. bindM (siod_fast_print bn (le_depth e) x stream) (\<lambda>_.
        bindM (siod_cdr l) (fast_save_forms k bn e stream))))"

definition siod_fast_save :: "siod_LISP \<Rightarrow> load_env \<Rightarrow> siod_LISP \<Rightarrow> siod_LISP \<Rightarrow> siod_LISP \<Rightarrow> siod_LISP \<Rightarrow> siod_LISP \<Rightarrow> siod_LISP act" where
  "siod_fast_save bn e fname forms nohash comment fmode = bindM (get_c_string fname) (\<lambda>cname.
     bindM (verbose_message 3 [''fast saving forms to '', cname, [CHR 0x0A]]) (\<lambda>_.
     bindM (if fmode \<noteq> NIL then get_c_string fmode else ret ''wb'') (\<lambda>how. bindM (siod_fopen_c cname how) (\<lambda>file_cell.
     bindM (if nohash \<noteq> NIL then ret NIL
       else bindM (siod_flocons (of_long 100)) (\<lambda>n. siod_cons_array n NIL)) (\<lambda>ht.
     bindM (siod_flocons (of_long 0)) (\<lambda>index. bindM (siod_listn [file_cell, ht, index]) (\<lambda>stream.
     bindM (stream_of stream) (\<lambda>f.
     bindM (if comment \<noteq> NIL then bindM (get_c_string comment) (siod_fput_st f) else ret ()) (\<lambda>_.
     bindM (puts_list (siod_fput_st f) format_lines) (\<lambda>_.
     bindM (gets bound) (\<lambda>k. bindM (fast_save_forms k bn e stream forms) (\<lambda>_.
     bindM (siod_car stream) (\<lambda>p. bindM (siod_fclose_l p) (\<lambda>_.
     bindM (verbose_message 3 [''done.'' @ [CHR 0x0A]]) (\<lambda>_. ret NIL)))))))))))))))"

section \<open>The parser of binary files\<close>

definition siod_parser_fasl :: "server \<Rightarrow> siod_LISP \<Rightarrow> siod_LISP act" where
  "siod_parser_fasl rc ignore = bindM (siod_flocons (of_long 100)) (\<lambda>d. bindM (siod_cons_array d NIL) (\<lambda>ht.
     bindM (siod_flocons (of_long 0)) (\<lambda>index. bindM (siod_listn [NIL, ht, index]) (\<lambda>env.
     bindM (siod_cintern ''siod_parser_fasl_hook'') (\<lambda>sy. bindM (ev rc sy NIL) (siod_closure env))))))"

definition siod_parser_fasl_hook :: "siod_LISP \<Rightarrow> load_env \<Rightarrow> siod_LISP \<Rightarrow> siod_LISP \<Rightarrow> siod_LISP act" where
  "siod_parser_fasl_hook bn e env f = bindM (siod_setcar env f) (\<lambda>_.
     bindM (siod_fast_read bn (le_memory e) (le_depth e) env) (\<lambda>result.
     if result = env then siod_get_eof_val else ret result))"

end
