(* ===== verification/Subrs.thy ===== *)
theory Subrs
  imports Init Data Codecs Read_Facts
begin

text \<open>
  The global environment (slib.c, sliba.c, slibu.c): the tables of the names that the C code binds when it starts, on
  Linux, and what the symbols are bound to once the tables have been gone through.
\<close>

section \<open>Entries\<close>

text \<open>
  A name is only interned, or also given a value: a cell of a C function, the symbol t, another symbol, a number, an array
  of NILs, or NIL.
\<close>

datatype init_value = Cell obj | True_value | Interned string | Number double | Lisp_array nat | No_value

datatype init_item = Protect string | Bind string init_value

fun make_value :: "memory \<Rightarrow> init_value \<Rightarrow> siod_LISP act" where
  "make_value mem (Cell ob) = newcell ob"
| "make_value mem True_value = gets sym_t"
| "make_value mem (Interned st) = siod_cintern st"
| "make_value mem (Number d) = siod_flocons d"
| "make_value mem (Lisp_array n) = siod_ar_cons mem 16 n True"
| "make_value mem No_value = ret NIL"

fun do_item :: "memory \<Rightarrow> init_item \<Rightarrow> unit act" where
  "do_item mem (Protect st) = bindM (siod_cintern st) (\<lambda>_. ret ())"
| "do_item mem (Bind name v) = set_global name (make_value mem v)"

fun init_items :: "memory \<Rightarrow> init_item list \<Rightarrow> unit act" where
  "init_items mem [] = ret ()"
| "init_items mem (i # is) = bindM (do_item mem i) (\<lambda>_. init_items mem is)"

definition siod_init_subr_0 :: "string \<Rightarrow> fn0 \<Rightarrow> init_item" where
  "siod_init_subr_0 name fcn = Bind name (Cell (Tc_subr_0 name fcn))"

definition siod_init_subr_1 :: "string \<Rightarrow> fn1 \<Rightarrow> init_item" where
  "siod_init_subr_1 name fcn = Bind name (Cell (Tc_subr_1 name fcn))"

definition siod_init_subr_2 :: "string \<Rightarrow> fn2 \<Rightarrow> init_item" where
  "siod_init_subr_2 name fcn = Bind name (Cell (Tc_subr_2 name fcn))"

definition siod_init_subr_2n :: "string \<Rightarrow> fn2 \<Rightarrow> init_item" where
  "siod_init_subr_2n name fcn = Bind name (Cell (Tc_subr_2n name fcn))"

definition siod_init_subr_3 :: "string \<Rightarrow> fn3 \<Rightarrow> init_item" where
  "siod_init_subr_3 name fcn = Bind name (Cell (Tc_subr_3 name fcn))"

definition siod_init_subr_4 :: "string \<Rightarrow> fn4 \<Rightarrow> init_item" where
  "siod_init_subr_4 name fcn = Bind name (Cell (Tc_subr_4 name fcn))"

definition siod_init_subr_5 :: "string \<Rightarrow> fn5 \<Rightarrow> init_item" where
  "siod_init_subr_5 name fcn = Bind name (Cell (Tc_subr_5 name fcn))"

definition siod_init_lsubr :: "string \<Rightarrow> fn1 \<Rightarrow> init_item" where
  "siod_init_lsubr name fcn = Bind name (Cell (Tc_lsubr name fcn))"

definition siod_init_fsubr :: "string \<Rightarrow> fn2 \<Rightarrow> init_item" where
  "siod_init_fsubr name fcn = Bind name (Cell (Tc_fsubr name fcn))"

definition siod_init_msubr :: "string \<Rightarrow> fnm \<Rightarrow> init_item" where
  "siod_init_msubr name fcn = Bind name (Cell (Tc_msubr name fcn))"

section \<open>The tables\<close>

definition siod_init_subrs_1 :: "init_item list" where
  "siod_init_subrs_1 =
    [siod_init_subr_2 ''cons'' F_cons, siod_init_subr_1 ''car'' F_car, siod_init_subr_1 ''cdr'' F_cdr,
     siod_init_subr_2 ''set-car!'' F_setcar, siod_init_subr_2 ''set-cdr!'' F_setcdr, siod_init_subr_2n ''+'' F_plus,
     siod_init_subr_2n ''-'' F_difference, siod_init_subr_2n ''*'' F_ltimes, siod_init_subr_2n ''/'' F_Quotient,
     siod_init_subr_2n ''//'' F_IntQuotient, siod_init_subr_2n ''%'' F_Remainder,
     siod_init_subr_1 ''closure?'' F_ClosureP, siod_init_subr_2n ''min'' F_lmin, siod_init_subr_2n ''max'' F_lmax,
     siod_init_subr_1 ''abs'' F_lllabs, siod_init_subr_1 ''sqrt'' (C_fn1 ''siod_lsqrt''),
     siod_init_subr_2 ''>'' F_greaterp, siod_init_subr_2 ''<'' F_lessp, siod_init_subr_2 ''>='' F_greaterEp,
     siod_init_subr_2 ''<='' F_lessEp, siod_init_subr_2 ''eq?'' F_eq, siod_init_subr_2 ''eqv?'' F_eql,
     siod_init_subr_2 ''='' F_eql, siod_init_subr_2 ''assq'' F_assq, siod_init_subr_2 ''delq'' F_delq,
     siod_init_subr_1 ''read'' (C_fn1 ''siod_lread''), siod_init_subr_1 ''parser_read'' (C_fn1 ''siod_parser_read''),
     Bind ''*parser_read.scm-loaded*'' True_value, siod_init_subr_0 ''eof-val'' F_get_eof_val,
     siod_init_subr_2 ''print'' (C_fn2 ''siod_lprint''), siod_init_subr_2 ''prin1'' (C_fn2 ''siod_lprin1''),
     siod_init_subr_2 ''eval'' F_leval, siod_init_subr_2 ''apply'' F_lapply,
     siod_init_fsubr ''define'' F_leval_define, siod_init_fsubr ''lambda'' F_leval_lambda,
     siod_init_msubr ''if'' F_leval_if, siod_init_fsubr ''while'' F_leval_while,
     siod_init_msubr ''begin'' F_leval_progn, siod_init_fsubr ''set'' F_leval_set,
     siod_init_fsubr ''set!'' F_leval_setq, siod_init_msubr ''or'' F_leval_or, siod_init_msubr ''and'' F_leval_and,
     siod_init_fsubr ''*catch'' F_leval_catch, siod_init_subr_2 ''*throw'' F_lthrow,
     siod_init_fsubr ''quote'' F_leval_quote, siod_init_lsubr ''apropos'' (C_fn1 ''siod_apropos''),
     siod_init_lsubr ''verbose'' (C_fn1 ''siod_verbose''), siod_init_subr_1 ''copy-list'' F_copy_list,
     siod_init_lsubr ''gc-messages'' (C_fn1 ''siod_gc_messages''),
     siod_init_lsubr ''gc-status'' (C_fn1 ''siod_gc_status''), siod_init_lsubr ''gc'' (C_fn1 ''siod_user_gc''),
     siod_init_subr_3 ''load'' (C_fn3 ''siod_load''), siod_init_subr_1 ''require'' (C_fn1 ''siod_require''),
     siod_init_subr_1 ''pair?'' F_consp, siod_init_subr_1 ''symbol?'' F_symbolp,
     siod_init_subr_1 ''number?'' F_numberp, siod_init_msubr ''let-siod_internal'' F_leval_let,
     siod_init_subr_1 ''let-siod_internal-macro'' F_let_macro, siod_init_subr_1 ''let*-macro'' F_letstar_macro,
     siod_init_subr_1 ''letrec-macro'' F_letrec_macro, siod_init_subr_2 ''symbol-bound?'' F_symbol_boundp,
     siod_init_subr_2 ''symbol-value'' F_symbol_value, siod_init_subr_3 ''set-symbol-value!'' F_setvar,
     siod_init_fsubr ''the-environment'' F_leval_tenv, siod_init_subr_2 ''error'' F_lerr,
     siod_init_subr_0 ''quit'' F_quit, siod_init_subr_1 ''not'' F_nullp, siod_init_subr_1 ''null?'' F_nullp,
     siod_init_subr_2 ''env-lookup'' F_envlookup, siod_init_subr_1 ''reverse'' F_reverse,
     siod_init_lsubr ''symbolconc'' (C_fn1 ''siod_symbolconc''),
     siod_init_subr_3 ''save-forms'' (C_fn3 ''siod_save_forms''), siod_init_subr_2 ''fopen'' (C_fn2 ''siod_fopen_l''),
     siod_init_subr_1 ''fclose'' (C_fn1 ''siod_fclose_l''), siod_init_subr_1 ''getc'' (C_fn1 ''siod_lgetc''),
     siod_init_subr_2 ''ungetc'' (C_fn2 ''siod_lungetc''), siod_init_subr_2 ''putc'' (C_fn2 ''siod_lputc''),
     siod_init_subr_2 ''puts'' (C_fn2 ''siod_lputs''), siod_init_subr_1 ''ftell'' (C_fn1 ''siod_lftell''),
     siod_init_subr_3 ''fseek'' (C_fn3 ''siod_lfseek''),
     siod_init_subr_1 ''parse-number'' (C_fn1 ''siod_parse_number''),
     siod_init_subr_2 ''%%stack-limit'' (C_fn2 ''siod_stack_limit''), siod_init_subr_1 ''intern'' F_intern,
     siod_init_subr_2 ''%%closure'' F_closure, siod_init_subr_1 ''%%closure-code'' F_closure_code,
     siod_init_subr_1 ''%%closure-env'' F_closure_env, siod_init_fsubr ''while'' F_lwhile,
     siod_init_subr_1 ''nreverse'' F_nreverse, siod_init_subr_0 ''allocate-heap'' (C_fn0 ''siod_allocate_aheap''),
     siod_init_subr_1 ''gc-info'' (C_fn1 ''siod_gc_info''), siod_init_subr_0 ''runtime'' (C_fn0 ''siod_lruntime''),
     siod_init_subr_0 ''realtime'' (C_fn0 ''siod_lrealtime''), siod_init_subr_1 ''caar'' F_caar,
     siod_init_subr_1 ''cadr'' F_cadr, siod_init_subr_1 ''cdar'' F_cdar, siod_init_subr_1 ''cddr'' F_cddr,
     siod_init_subr_1 ''rand'' (C_fn1 ''siod_lrand''), siod_init_subr_1 ''srand'' (C_fn1 ''siod_lsrand''),
     siod_init_subr_0 ''last-c-error'' (C_fn0 ''siod_lsiod_llast_c_errmsg''),
     siod_init_subr_0 ''os-classification'' (C_fn0 ''siod_os_classification''),
     Bind ''*slib-version*'' (Interned ''$Id: slib.c,v 1.16 1997/12/05 14:44:44 gjc Exp $'')]"

text \<open>The number is four times the arctangent of 1, as the C library computes it.\<close>

definition siod_init_subrs_a :: "double \<Rightarrow> init_item list" where
  "siod_init_subrs_a pi4 =
    [siod_init_subr_2 ''aref'' (C_fn2 ''siod_aref1''), siod_init_subr_3 ''aset'' (C_fn3 ''siod_aset1''),
     siod_init_lsubr ''string-append'' (C_fn1 ''siod_string_append''),
     siod_init_lsubr ''bytes-append'' (C_fn1 ''siod_bytes_append''),
     siod_init_subr_1 ''string-length'' (C_fn1 ''siod_string_length''),
     siod_init_subr_1 ''string-dimension'' (C_fn1 ''siod_string_dim''),
     siod_init_subr_1 ''read-from-string'' (C_fn1 ''siod_read_from_string''),
     siod_init_subr_3 ''print-to-string'' (C_fn3 ''siod_print_to_string''),
     siod_init_subr_2 ''cons-array'' (C_fn2 ''siod_cons_array''), siod_init_subr_2 ''sxhash'' (C_fn2 ''siod_sxhash''),
     siod_init_subr_2 ''equal?'' (C_fn2 ''siod_equal''), siod_init_subr_2 ''href'' (C_fn2 ''siod_href''),
     siod_init_subr_3 ''hset'' (C_fn3 ''siod_hset''), siod_init_subr_2 ''assoc'' (C_fn2 ''siod_assoc''),
     siod_init_subr_2 ''assv'' F_assv, siod_init_subr_1 ''fast-read'' (C_fn1 ''siod_fast_read''),
     siod_init_subr_2 ''fast-print'' (C_fn2 ''siod_fast_print''), siod_init_subr_2 ''make-list'' F_make_list,
     siod_init_subr_2 ''fread'' (C_fn2 ''siod_lfread''), siod_init_subr_2 ''fwrite'' (C_fn2 ''siod_lfwrite''),
     siod_init_subr_1 ''fflush'' (C_fn1 ''siod_lfflush''), siod_init_subr_1 ''length'' F_llength,
     siod_init_subr_4 ''number->string'' (C_fn4 ''siod_number2string''),
     siod_init_subr_2 ''string->number'' (C_fn2 ''siod_string2number''),
     siod_init_subr_3 ''substring'' (C_fn3 ''siod_substring''),
     siod_init_subr_2 ''string-search'' (C_fn2 ''siod_string_search''),
     siod_init_subr_1 ''string-trim'' (C_fn1 ''siod_string_trim''),
     siod_init_subr_1 ''string-trim-left'' (C_fn1 ''siod_string_trim_left''),
     siod_init_subr_1 ''string-trim-right'' (C_fn1 ''siod_string_trim_right''),
     siod_init_subr_1 ''string-upcase'' (C_fn1 ''siod_string_upcase''),
     siod_init_subr_1 ''string-downcase'' (C_fn1 ''siod_string_downcase''),
     siod_init_subr_2 ''strcmp'' (C_fn2 ''siod_lstrcmp''), siod_init_subr_2 ''strcat'' (C_fn2 ''siod_lstrcat''),
     siod_init_subr_2 ''strcpy'' (C_fn2 ''siod_lstrcpy''),
     siod_init_subr_2 ''strbreakup'' (C_fn2 ''siod_lstrbreakup''),
     siod_init_subr_2 ''unbreakupstr'' (C_fn2 ''siod_lstrunbreakup''), siod_init_subr_1 ''string?'' F_stringp,
     Protect ''e'', Protect ''f'', Protect ''*plists*'', Bind ''*plists*'' (Lisp_array 100),
     siod_init_subr_3 ''lref-default'' (C_fn3 ''siod_lref_default''),
     siod_init_subr_3 ''larg-default'' (C_fn3 ''siod_larg_default''),
     siod_init_subr_3 ''lkey-default'' (C_fn3 ''siod_lkey_default''), siod_init_lsubr ''list'' F_llist,
     siod_init_lsubr ''writes'' (C_fn1 ''siod_writes''), siod_init_subr_3 ''qsort'' (C_fn3 ''siod_lqsort''),
     siod_init_subr_2 ''string-lessp'' (C_fn2 ''siod_string_lessp''), siod_init_lsubr ''mapcar'' F_mapcar,
     siod_init_subr_3 ''mapcar2'' F_mapcar2, siod_init_subr_2 ''mapcar1'' F_mapcar1,
     siod_init_subr_3 ''benchmark-siod_funcall1'' (C_fn3 ''siod_benchmark_siod_funcall1''),
     siod_init_lsubr ''benchmark-siod_funcall2'' (C_fn1 ''siod_benchmark_siod_funcall2''),
     siod_init_subr_3 ''benchmark-eval'' (C_fn3 ''siod_benchmark_eval''),
     siod_init_subr_2 ''fmod'' (C_fn2 ''siod_lfmod''), siod_init_subr_2 ''subset'' (C_fn2 ''siod_lsubset''),
     siod_init_subr_1 ''base64encode'' (C_fn1 ''siod_base64encode''),
     siod_init_subr_1 ''base64decode'' (C_fn1 ''siod_base64decode''), siod_init_subr_3 ''ass'' F_ass,
     siod_init_subr_2 ''append2'' F_append2, siod_init_lsubr ''append'' F_append,
     siod_init_subr_5 ''fast-save'' (C_fn5 ''siod_fast_save''),
     siod_init_subr_2 ''fast-load'' (C_fn2 ''siod_fast_load''), siod_init_subr_3 ''swrite'' (C_fn3 ''siod_swrite''),
     siod_init_subr_2 ''pow'' (C_fn2 ''siod_lpow''), siod_init_subr_1 ''exp'' (C_fn1 ''siod_lexp''),
     siod_init_subr_1 ''log'' (C_fn1 ''siod_llog''), siod_init_subr_1 ''sin'' (C_fn1 ''siod_lsin''),
     siod_init_subr_1 ''cos'' (C_fn1 ''siod_lcos''), siod_init_subr_1 ''tan'' (C_fn1 ''siod_ltan''),
     siod_init_subr_1 ''asin'' (C_fn1 ''siod_lasin''), siod_init_subr_1 ''acos'' (C_fn1 ''siod_lacos''),
     siod_init_subr_1 ''atan'' (C_fn1 ''siod_latan''), siod_init_subr_2 ''atan2'' (C_fn2 ''siod_latan2''),
     siod_init_subr_1 ''sinh'' (C_fn1 ''siod_lsinh''), siod_init_subr_1 ''cosh'' (C_fn1 ''siod_lcosh''),
     siod_init_subr_1 ''tanh'' (C_fn1 ''siod_ltanh''), siod_init_subr_1 ''asinh'' (C_fn1 ''siod_lasinh''),
     siod_init_subr_1 ''acosh'' (C_fn1 ''siod_lacosh''), siod_init_subr_1 ''atanh'' (C_fn1 ''siod_latanh''),
     siod_init_subr_1 ''typeof'' (C_fn1 ''siod_ltypeof''), siod_init_subr_1 ''caaar'' F_caaar,
     siod_init_subr_1 ''caadr'' F_caadr, siod_init_subr_1 ''cadar'' F_cadar, siod_init_subr_1 ''caddr'' F_caddr,
     siod_init_subr_1 ''cdaar'' F_cdaar, siod_init_subr_1 ''cdadr'' F_cdadr, siod_init_subr_1 ''cddar'' F_cddar,
     siod_init_subr_1 ''cdddr'' F_cdddr, Bind ''*pi*'' (Number pi4),
     siod_init_subr_1 ''array->siod_hexstr'' (C_fn1 ''siod_hexstr''),
     siod_init_subr_1 ''hexstr->bytes'' (C_fn1 ''siod_hexstr2bytes''), siod_init_subr_3 ''ass'' F_ass,
     siod_init_subr_2 ''bit-and'' (C_fn2 ''siod_bitand''), siod_init_subr_2 ''bit-or'' (C_fn2 ''siod_bitor''),
     siod_init_subr_2 ''bit-xor'' (C_fn2 ''siod_bitxor''), siod_init_subr_1 ''bit-not'' (C_fn1 ''siod_bitnot''),
     siod_init_msubr ''cond'' F_leval_cond, siod_init_fsubr ''prog1'' F_leval_prog1,
     siod_init_subr_2 ''strspn'' (C_fn2 ''siod_lstrspn''), siod_init_subr_2 ''strcspn'' (C_fn2 ''siod_lstrcspn''),
     siod_init_subr_4 ''substring-equal?'' (C_fn4 ''siod_substring_equal''),
     siod_init_subr_4 ''substring-equalcase?'' (C_fn4 ''siod_substring_equalcase''),
     siod_init_subr_1 ''butlast'' F_butlast, siod_init_subr_2 ''ash'' (C_fn2 ''siod_ash''),
     siod_init_subr_2 ''get'' (C_fn2 ''siod_getprop''), siod_init_subr_3 ''setprop'' (C_fn3 ''siod_setprop''),
     siod_init_subr_3 ''putprop'' (C_fn3 ''siod_putprop''), siod_init_subr_1 ''last'' F_last,
     siod_init_subr_2 ''memq'' F_memq, siod_init_subr_2 ''memv'' F_memv,
     siod_init_subr_2 ''member'' (C_fn2 ''siod_member''), siod_init_subr_2 ''nth'' F_nth,
     siod_init_subr_2 ''nconc'' F_nconc, siod_init_subr_2 ''set-eval-history'' (C_fn2 ''siod_set_eval_history''),
     siod_init_subr_1 ''parser_fasl'' (C_fn1 ''siod_parser_fasl''),
     Bind ''*siod_parser_fasl.scm-siod_loaded*'' True_value,
     siod_init_subr_2 ''parser_fasl_hook'' (C_fn2 ''siod_parser_fasl_hook''),
     Bind ''*sliba-version*'' (Interned ''$Id: sliba.c,v 1.1 2001/02/03 15:38:49 gjcarret Exp gjcarret $'')]"

text \<open>The names of slibu.c, up to where the path of shared libraries is put in the environment, and behind it.\<close>

definition init_slibu_subrs :: "init_item list" where
  "init_slibu_subrs =
    [siod_init_subr_2 ''chmod'' (C_fn2 ''siod_l_chmod''), Protect ''*channels*'', Bind ''*channels*'' No_value,
     siod_init_lsubr ''system'' (C_fn1 ''siod_lsystem''), siod_init_subr_0 ''getgid'' (C_fn0 ''siod_lgetgid''),
     siod_init_subr_0 ''getuid'' (C_fn0 ''siod_lgetuid''), siod_init_subr_0 ''getcwd'' (C_fn0 ''siod_lgetcwd''),
     siod_init_subr_2 ''crypt'' (C_fn2 ''siod_lcrypt''), siod_init_subr_1 ''getpwuid'' (C_fn1 ''siod_lgetpwuid''),
     siod_init_subr_1 ''getpwnam'' (C_fn1 ''siod_lgetpwnam''),
     siod_init_subr_0 ''getpwent'' (C_fn0 ''siod_lgetpwent''),
     siod_init_subr_0 ''setpwent'' (C_fn0 ''siod_lsetpwent''),
     siod_init_subr_0 ''endpwent'' (C_fn0 ''siod_lendpwent''), siod_init_subr_1 ''setuid'' (C_fn1 ''siod_lsetuid''),
     siod_init_subr_1 ''seteuid'' (C_fn1 ''siod_lseteuid''), siod_init_subr_0 ''geteuid'' (C_fn0 ''siod_lgeteuid''),
     siod_init_subr_2 ''putpwent'' (C_fn2 ''siod_lputpwent''),
     siod_init_subr_2 ''access-problem?'' (C_fn2 ''siod_laccess_problem''),
     siod_init_subr_3 ''utime'' (C_fn3 ''siod_lutime''), siod_init_subr_2 ''fchmod'' (C_fn2 ''siod_lfchmod''),
     siod_init_subr_1 ''random'' (C_fn1 ''siod_lrandom''), siod_init_subr_1 ''srandom'' (C_fn1 ''siod_lsrandom''),
     siod_init_subr_1 ''first'' F_car, siod_init_subr_1 ''rest'' F_cdr,
     siod_init_subr_0 ''fork'' (C_fn0 ''siod_lfork''), siod_init_subr_3 ''exec'' (C_fn3 ''siod_lexec''),
     siod_init_subr_1 ''nice'' (C_fn1 ''siod_lnice''), siod_init_subr_2 ''wait'' (C_fn2 ''siod_lwait''),
     siod_init_subr_0 ''getpgrp'' (C_fn0 ''siod_lgetpgrp''), siod_init_subr_1 ''getgrgid'' (C_fn1 ''siod_lgetgrgid''),
     siod_init_subr_2 ''setpgid'' (C_fn2 ''siod_lsetpgid''), siod_init_subr_2 ''kill'' (C_fn2 ''siod_lkill''),
     siod_init_subr_1 ''%%%memref'' (C_fn1 ''siod_lmemref_byte''),
     siod_init_subr_0 ''getpid'' (C_fn0 ''siod_lgetpid''), siod_init_subr_0 ''getppid'' (C_fn0 ''siod_lgetppid''),
     siod_init_subr_1 ''exit'' (C_fn1 ''siod_lexit''), siod_init_subr_1 ''trunc'' (C_fn1 ''siod_ltrunc''),
     siod_init_subr_1 ''putenv'' (C_fn1 ''siod_lputenv''), siod_init_subr_0 ''md5-init'' (C_fn0 ''siod_md5_init''),
     siod_init_subr_3 ''md5-update'' (C_fn3 ''siod_md5_update''),
     siod_init_subr_1 ''md5-final'' (C_fn1 ''siod_md5_final''),
     siod_init_subr_1 ''opendir'' (C_fn1 ''siod_l_opendir''),
     siod_init_subr_1 ''closedir'' (C_fn1 ''siod_l_closedir''),
     siod_init_subr_1 ''readdir'' (C_fn1 ''siod_l_readdir''),
     siod_init_subr_1 ''delete-file'' (C_fn1 ''siod_delete_file''),
     siod_init_subr_1 ''file-times'' (C_fn1 ''siod_file_times''),
     siod_init_subr_1 ''unix-time->strtime'' (C_fn1 ''siod_utime2str''),
     siod_init_subr_0 ''unix-time'' (C_fn0 ''siod_unix_time''),
     siod_init_subr_1 ''unix-ctime'' (C_fn1 ''siod_unix_ctime''),
     siod_init_subr_1 ''getenv'' (C_fn1 ''siod_lgetenv''), siod_init_subr_1 ''sleep'' (C_fn1 ''siod_lsleep''),
     siod_init_subr_1 ''url-encode'' (C_fn1 ''siod_url_encode''),
     siod_init_subr_1 ''url-decode'' (C_fn1 ''siod_url_decode''), siod_init_subr_2 ''gets'' (C_fn2 ''siod_lgets''),
     siod_init_subr_1 ''siod_readline'' (C_fn1 ''siod_readline''),
     siod_init_subr_1 ''html-encode'' (C_fn1 ''siod_html_encode''),
     siod_init_subr_1 ''html-decode'' (C_fn1 ''siod_html_decode''),
     siod_init_subr_1 ''decode-file-mode'' (C_fn1 ''siod_decode_st_mode''),
     siod_init_subr_1 ''encode-file-mode'' (C_fn1 ''siod_encode_st_mode''),
     siod_init_subr_1 ''stat'' (C_fn1 ''siod_l_stat''), siod_init_subr_1 ''fstat'' (C_fn1 ''siod_l_fstat''),
     siod_init_subr_1 ''encode-open-flags'' (C_fn1 ''siod_encode_open_flags''),
     siod_init_subr_1 ''lstat'' (C_fn1 ''siod_l_lstat''), siod_init_subr_2 ''symlink'' (C_fn2 ''siod_lsymlink''),
     siod_init_subr_2 ''link'' (C_fn2 ''siod_llink''), siod_init_subr_1 ''unlink'' (C_fn1 ''siod_lunlink''),
     siod_init_subr_1 ''rmdir'' (C_fn1 ''siod_lrmdir''), siod_init_subr_2 ''mkdir'' (C_fn2 ''siod_lmkdir''),
     siod_init_subr_2 ''rename'' (C_fn2 ''siod_lrename''), siod_init_subr_1 ''readlink'' (C_fn1 ''siod_lreadlink''),
     siod_init_subr_3 ''chown'' (C_fn3 ''siod_l_chown''), siod_init_subr_1 ''http-date'' (C_fn1 ''siod_http_date''),
     siod_init_subr_2 ''popen'' (C_fn2 ''siod_popen_l''), siod_init_subr_1 ''pclose'' (C_fn1 ''siod_pclose_l''),
     siod_init_subr_2 ''siod_load-so'' (C_fn2 ''siod_load_so''),
     siod_init_subr_1 ''siod_require-so'' (C_fn1 ''siod_require_so''),
     siod_init_subr_1 ''so-ext'' (C_fn1 ''siod_so_ext''), Bind ''SEEK_SET'' (Number (of_long 0)),
     Bind ''SEEK_CUR'' (Number (of_long 1)), Bind ''SEEK_END'' (Number (of_long 2)),
     Bind ''F_RDLCK'' (Number (of_long 0)), Bind ''F_WRLCK'' (Number (of_long 1)),
     Bind ''F_UNLCK'' (Number (of_long 2)), siod_init_subr_5 ''F_SETLK'' (C_fn5 ''siod_lF_SETLK''),
     siod_init_subr_5 ''F_SETLKW'' (C_fn5 ''siod_lF_SETLKW''), siod_init_subr_5 ''F_GETLK'' (C_fn5 ''siod_lF_GETLK''),
     siod_init_subr_0 ''siod-lib'' (C_fn0 ''siod_lib_l'')]"

definition init_slibu_rest :: "init_item list" where
  "init_slibu_rest =
    [siod_init_subr_1 ''localtime'' (C_fn1 ''siod_llocaltime''), siod_init_subr_1 ''gmtime'' (C_fn1 ''siod_lgmtime''),
     siod_init_subr_0 ''tzset'' (C_fn0 ''siod_ltzset''), siod_init_subr_1 ''mktime'' (C_fn1 ''siod_lmktime''),
     siod_init_subr_1 ''chdir'' (C_fn1 ''siod_lchdir''), siod_init_subr_3 ''strptime'' (C_fn3 ''siod_lstrptime''),
     siod_init_subr_2 ''strftime'' (C_fn2 ''siod_lstrftime''), siod_init_subr_1 ''getpass'' (C_fn1 ''siod_lgetpass''),
     siod_init_subr_0 ''pipe'' (C_fn0 ''siod_lpipe''), siod_init_subr_2 ''alarm'' (C_fn2 ''siod_lalarm''),
     Bind ''CTYPE_FLOAT'' (Number (of_long 1)), Bind ''CTYPE_DOUBLE'' (Number (of_long 2)),
     Bind ''CTYPE_LONG'' (Number (of_long 9)), Bind ''CTYPE_SHORT'' (Number (of_long 5)),
     Bind ''CTYPE_CHAR'' (Number (of_long 3)), Bind ''CTYPE_INT'' (Number (of_long 7)),
     Bind ''CTYPE_ULONG'' (Number (of_long 10)), Bind ''CTYPE_USHORT'' (Number (of_long 6)),
     Bind ''CTYPE_UCHAR'' (Number (of_long 4)), Bind ''CTYPE_UINT'' (Number (of_long 8)),
     siod_init_subr_3 ''siod_datref'' (C_fn3 ''siod_datref''),
     siod_init_subr_2 ''siod_ssiod_datref'' (C_fn2 ''siod_ssiod_datref''),
     siod_init_subr_2 ''siod_mksiod_datref'' (C_fn2 ''siod_mksiod_datref''),
     siod_init_subr_2 ''siod_datlength'' (C_fn2 ''siod_datlength''),
     siod_init_subr_1 ''position-script'' (C_fn1 ''siod_lsiod_position_script''),
     Bind ''*slibu-version*'' (Interned ''$Id: slibu.c,v 1.5 2001/02/01 16:03:29 gjcarret Exp gjcarret $'')]"

definition siod_init_trace :: "init_item list" where
  "siod_init_trace =
    [Protect ''*traced*'', Bind ''*traced*'' No_value, Protect ''begin'', Protect ''quote'',
     siod_init_fsubr ''trace'' (C_fn2 ''siod_ltrace''), siod_init_lsubr ''untrace'' (C_fn1 ''siod_luntrace''),
     Bind ''*trace-version*'' (Interned ''$Id: trace.c,v 1.3 1997/05/11 11:35:47 gjc Exp $'')]"

definition siod_init_subrs :: "memory \<Rightarrow> double \<Rightarrow> unit act" where
  "siod_init_subrs mem pi4 = bindM (init_items mem siod_init_subrs_1) (\<lambda>_. init_items mem (siod_init_subrs_a pi4))"

text \<open>
  The path of the shared libraries, of which old is the value in the environment of the process: what is put there, if the
  directory of the library is not in it already.
\<close>

definition library_path :: "string \<Rightarrow> string option \<Rightarrow> string option" where
  "library_path lib old =
     (if (case old of None \<Rightarrow> True | Some st \<Rightarrow> strstr st lib = None)
      then Some (''LD_LIBRARY_PATH='' @ (case old of None \<Rightarrow> [] | Some st \<Rightarrow> st @ '':'') @ lib) else None)"

definition siod_init_slibu :: "memory \<Rightarrow> string \<Rightarrow> string option \<Rightarrow> string option act" where
  "siod_init_slibu mem lib old = bindM (init_items mem init_slibu_subrs) (\<lambda>_.
     bindM (ret (library_path lib old)) (\<lambda>put. bindM (init_items mem init_slibu_rest) (\<lambda>_. ret put)))"

text \<open>What ulsiod_init does behind siod_init_storage.\<close>

definition ulsiod_init :: "memory \<Rightarrow> double \<Rightarrow> string \<Rightarrow> string option \<Rightarrow> string option act" where
  "ulsiod_init mem pi4 lib old = bindM (siod_init_subrs mem pi4) (\<lambda>_.
     bindM (init_items mem siod_init_trace) (\<lambda>_. siod_init_slibu mem lib old))"

section \<open>What the names are bound to\<close>

text \<open>The last value of a name in a table.\<close>

fun last_binding :: "init_item list \<Rightarrow> string \<Rightarrow> init_value option" where
  "last_binding [] name = None"
| "last_binding (Protect st # is) name = last_binding is name"
| "last_binding (Bind st v # is) name = (case last_binding is name of
       Some w \<Rightarrow> Some w
     | None \<Rightarrow> if st = name then Some v else None)"

text \<open>The symbol of the name has a cell of the C function as its value.\<close>

definition bound_to :: "siod \<Rightarrow> string \<Rightarrow> obj \<Rightarrow> bool" where
  "bound_to s name ob = (\<exists>y r. table s name = Some y \<and> obj_at s y = Some (Tc_symbol name r) \<and> obj_at s r = Some ob)"

definition item_name :: "init_item \<Rightarrow> string" where
  "item_name i = (case i of Protect st \<Rightarrow> st | Bind st v \<Rightarrow> st)"

definition item_names :: "init_item \<Rightarrow> string set" where
  "item_names i = (case i of Bind st (Interned n) \<Rightarrow> {st, n} | _ \<Rightarrow> {item_name i})"

definition init_ok :: "siod \<Rightarrow> bool" where
  "init_ok s = (wf_state s \<and> symtab_ok s)"

text \<open>A new value of a symbol keeps the table.\<close>

lemma symbol_store_table:
  assumes "init_ok s" "a < length (cells s)" "cells s ! a = Tc_symbol p v" "ref_ok s w"
  shows "init_ok (set_cell a (Tc_symbol p w) s)" "table (set_cell a (Tc_symbol p w) s) = table s"
proof -
  let ?s = "set_cell a (Tc_symbol p w) s"
  have w: "wf_state s" "symtab_ok s" using assms(1) by (simp_all add: init_ok_def)
  have g: "obarray ?s = obarray s" "obarray_dim ?s = obarray_dim s" "oblistvar ?s = oblistvar s"
    by (simp_all add: set_cell_def)
  have l: "list_on ?s l as xs" if "list_on s l as xs" for l as xs
    using list_seg_is_cons [OF that, of a] assms(3) that by (intro list_seg_set_cell) auto
  have o: "obj_at ?s y = (if y = Ref a then Some (Tc_symbol p w) else obj_at s y)" for y
    using assms(2) by (cases y) (auto simp: obj_at_def set_cell_def)
  have "obj_at s (Ref a) = Some (Tc_symbol p v)" using assms(2,3) by (simp add: obj_at_def)
  then have y: "symbol_at ?s y = symbol_at s y" "names_in ?s q y = names_in s q y" for y q
    by (simp_all add: symbol_at_def names_in_def o)
  have "symtab_ok ?s" and t: "table ?s = table s" using l y by (intro table_same [OF w g]; blast)+
  moreover have "store (Ref a) (Tc_symbol p w) s = (Ret (), ?s)" using assms(2) by (simp add: store_def)
  then have "wf_state ?s"
    using okM_store [of s "Ref a" "Tc_symbol p v" "Tc_symbol p w" "\<lambda>_ _. True"] assms(2-4) w(1)
    by (auto simp: okM_def obj_at_def)
  ultimately show "init_ok ?s" "table ?s = table s" by (simp_all add: init_ok_def)
qed

text \<open>The symbols and cells of the first state are in the second one, where symbols may have other values.\<close>

definition is_sym :: "obj \<Rightarrow> bool" where
  "is_sym ob = (\<exists>p v. ob = Tc_symbol p v)"

definition progress :: "nat \<Rightarrow> siod \<Rightarrow> siod \<Rightarrow> bool" where
  "progress n s s' = (init_ok s' \<and> table s \<subseteq>\<^sub>m table s' \<and> obarray_dim s' = obarray_dim s \<and> heap_size s' = heap_size s \<and>
     length (cells s') \<le> length (cells s) + n \<and>
     (\<forall>y ob. obj_at s y = Some ob \<longrightarrow> \<not> is_sym ob \<longrightarrow> obj_at s' y = Some ob))"

lemma grows_progress: "grows n s s' \<Longrightarrow> progress n s s'"
  by (auto simp: grows_def progress_def init_ok_def extends_def intro: extends_obj_at [unfolded extends_def])

lemma progress_trans: "progress m s1 s2 \<Longrightarrow> progress n s2 s3 \<Longrightarrow> progress (m + n) s1 s3"
  by (auto simp: progress_def intro: map_le_trans)

lemma make_value_run:
  assumes "init_ok s" "room 3 s" "\<forall>ob. w = Cell ob \<longrightarrow> obj_refs ob = []" "\<forall>n. w = Interned n \<longrightarrow> hashable s n"
  shows "\<exists>v s'. make_value mem w s = (Ret v, s') \<and> grows 3 s s' \<and> ref_ok s' v \<and> (\<forall>ob. w = Cell ob \<longrightarrow> obj_at s' v = Some ob)"
proof -
  have s: "wf_state s" "symtab_ok s" "room 1 s" using assms(1,2) by (simp_all add: init_ok_def room_def)
  have new: "\<exists>v s'. newcell ob s = (Ret v, s') \<and> grows 3 s s' \<and> ref_ok s' v \<and> obj_at s' v = Some ob"
    if "list_all (ref_ok s) (obj_refs ob)" for ob
  proof -
    from newcell_grows [OF s okR_newcell [OF that]] obtain v s' where
      "newcell ob s = (Ret v, s')" "grows 1 s s'" "obj_at s' v = Some ob" by blast
    then show ?thesis using grows_more [of 1 s s' 3] by (auto simp: obj_at_def ref_ok_def split: siod_LISP.splits if_splits)
  qed
  show ?thesis
  proof (cases w)
    case (Cell ob)
    then show ?thesis using new [of ob] assms(3) by auto
  next
    case True_value
    then show ?thesis using s grows_refl [of s 3] wf_global_refs [of s] by (auto simp: gets_def)
  next
    case (Interned n)
    then show ?thesis using read_sym [OF s(1,2), of n] assms(2,4) denotes_ref_ok by (fastforce simp: siod_rintern_def siod_cintern_def)
  next
    case (Number d)
    have "siod_flocons d s = (Ret (inums s ! nat (c_long d)), s) \<and> nat (c_long d) < length (inums s) \<or>
        siod_flocons d s = newcell (Tc_flonum d) s"
      by (cases "0 \<le> c_long d") (auto simp: siod_flocons_def Let_def bindM_def gets_def ret_def nat_less_iff)
    moreover have "ref_ok s (inums s ! nat (c_long d))" if "nat (c_long d) < length (inums s)"
      using that s(1) by (auto simp: wf_state_def refs_ok_def globals_def list_all_iff)
    ultimately show ?thesis using Number new [of "Tc_flonum d"] grows_refl [OF s(1,2), of 3] by auto
  next
    case (Lisp_array n)
    then show ?thesis using new [of "Tc_lisp_array (replicate n NIL)"] by (auto simp: siod_ar_cons_def ar_obj_def list_all_iff)
  next
    case No_value
    then show ?thesis using s grows_refl [of s 3] by (auto simp: ret_def)
  qed
qed

text \<open>An entry of a table.\<close>

definition item_ok :: "siod \<Rightarrow> init_item \<Rightarrow> bool" where
  "item_ok s i = ((\<forall>p\<in>item_names i. hashable s p) \<and> (\<forall>st ob. i = Bind st (Cell ob) \<longrightarrow> obj_refs ob = [] \<and> \<not> is_sym ob))"

lemma intern_step:
  assumes "init_ok s" "room 3 s" "hashable s p"
  shows "\<exists>a v s'. siod_cintern p s = (Ret (Ref a), s') \<and> grows 3 s s' \<and> table s' p = Some (Ref a) \<and> a < length (cells s') \<and>
    cells s' ! a = Tc_symbol p v"
proof -
  obtain x s' where 1: "siod_cintern p s = (Ret x, s')" "grows 3 s s'" "denotes s' x (Sx_sym p)"
    using read_sym [of s p] assms by (auto simp: init_ok_def siod_rintern_def siod_cintern_def)
  then show ?thesis by (cases x) (auto simp: denotes_def obj_at_def split: if_splits)
qed

lemma bind_step:
  assumes "init_ok s" "room 6 s" "item_ok s (Bind st w)"
  shows "\<exists>s'. do_item mem (Bind st w) s = (Ret (), s') \<and> progress 6 s s' \<and> (\<forall>ob. w = Cell ob \<longrightarrow> bound_to s' st ob) \<and>
    (\<forall>name ob. name \<noteq> st \<longrightarrow> \<not> is_sym ob \<longrightarrow> bound_to s name ob \<longrightarrow> bound_to s' name ob)"
proof -
  have h: "hashable s st" "\<forall>n. w = Interned n \<longrightarrow> hashable s n" "\<forall>ob. w = Cell ob \<longrightarrow> obj_refs ob = [] \<and> \<not> is_sym ob"
    using assms(3) by (auto simp: item_ok_def item_names_def item_name_def split: init_value.splits)
  obtain a v0 s1 where 1: "siod_cintern st s = (Ret (Ref a), s1)" "grows 3 s s1" "table s1 st = Some (Ref a)" "a < length (cells s1)"
    "cells s1 ! a = Tc_symbol st v0" using intern_step [OF assms(1) _ h(1)] assms(2) by (auto simp: room_def)
  have "init_ok s1" "room 3 s1" "\<forall>n. w = Interned n \<longrightarrow> hashable s1 n"
    using 1(2) h(2) grows_room [OF 1(2), of 3] assms(2) by (simp_all add: grows_def init_ok_def grows_hashable [OF 1(2)] room_def)
  from make_value_run [OF this(1,2) _ this(3)] h(3) obtain v s2 where
    2: "make_value mem w s1 = (Ret v, s2)" "grows 3 s1 s2" "ref_ok s2 v" "\<forall>ob. w = Cell ob \<longrightarrow> obj_at s2 v = Some ob"
    by blast
  let ?s3 = "set_cell a (Tc_symbol st v) s2"
  have e: "extends s1 s2" "extends s s1" using 1(2) 2(2) by (simp_all add: grows_def)
  have a: "a < length (cells s2)" "cells s2 ! a = Tc_symbol st v0"
    using extends_length [OF e(1)] extends_nth [OF e(1) 1(4)] 1(4,5) by simp_all
  have sy: "obj_at s2 (Ref a) = Some (Tc_symbol st v0)" using a by (simp add: obj_at_def)
  have ok2: "init_ok s2" using 2(2) by (simp add: grows_def init_ok_def)
  note t = symbol_store_table [OF ok2 a 2(3)]
  have o: "obj_at ?s3 y = (if y = Ref a then Some (Tc_symbol st v) else obj_at s2 y)" for y
    using a(1) by (cases y) (auto simp: obj_at_def set_cell_def)
  have "siod_envlookup (Ref a) NIL s2 = (Ret NIL, s2)"
    by (simp add: siod_envlookup_def bind_run gets_def look_def bound_def ret_def)
  then have "siod_setvar (Ref a) v NIL s2 = (Ret v, ?s3)"
    using sy a(1) by (simp add: siod_setvar_def bind_run obj_at_look is_symbol_def SET_VCELL_def store_def)
  then have run: "do_item mem (Bind st w) s = (Ret (), ?s3)"
    using 1(1) 2(1) by (simp add: set_global_def bind_run)
  have "progress (3 + 3) s s2" by (rule grows_progress [OF grows_trans [OF 1(2) 2(2)]])
  then have p: "progress 6 s ?s3"
    using t o sy by (auto simp: progress_def is_sym_def set_cell_def)
  have t2: "table s2 st = Some (Ref a)" using 1(3) 2(2) by (auto simp: grows_def map_le_def dom_def)
  then have "bound_to ?s3 st ob" if "w = Cell ob" for ob
    using that 2(4) h(3) o t(2) sy by (auto simp: bound_to_def is_sym_def)
  moreover have "bound_to ?s3 name ob" if n: "name \<noteq> st" "\<not> is_sym ob" "bound_to s name ob" for name ob
  proof -
    obtain y r where y: "table s name = Some y" "obj_at s y = Some (Tc_symbol name r)" "obj_at s r = Some ob"
      using n(3) by (auto simp: bound_to_def)
    have e2: "extends s s2" using e extends_trans by blast
    have "table s2 name = Some y" using y(1) 1(2) 2(2) by (auto simp: grows_def map_le_def dom_def)
    moreover have "obj_at s2 y = Some (Tc_symbol name r)" "obj_at s2 r = Some ob"
      using y(2,3) extends_obj_at [OF e2] by blast+
    ultimately show ?thesis using n(1,2) o t(2) sy by (auto simp: bound_to_def is_sym_def)
  qed
  ultimately show ?thesis using run p by blast
qed

lemma protect_step:
  assumes "init_ok s" "room 6 s" "item_ok s (Protect st)"
  shows "\<exists>s'. do_item mem (Protect st) s = (Ret (), s') \<and> progress 6 s s' \<and>
    (\<forall>name ob. bound_to s name ob \<longrightarrow> bound_to s' name ob)"
proof -
  have "hashable s st" using assms(3) by (simp add: item_ok_def item_names_def item_name_def)
  moreover have "room 3 s" using assms(2) by (simp add: room_def)
  ultimately obtain a s' where 1: "siod_cintern st s = (Ret (Ref a), s')" "grows 3 s s'"
    using intern_step [OF assms(1)] by blast
  have "bound_to s' name ob" if "bound_to s name ob" for name ob
    using that 1(2) extends_obj_at [of s s'] by (fastforce simp: bound_to_def grows_def map_le_def dom_def)
  moreover have "progress 6 s s'" using grows_progress [OF grows_more [OF 1(2)]] by simp
  ultimately show ?thesis using 1(1) by (auto simp: bind_run)
qed

lemma item_ok_progress: "item_ok s i \<Longrightarrow> progress n s s' \<Longrightarrow> item_ok s' i"
  by (auto simp: item_ok_def progress_def hashable_def hash_of_def)

lemma items_bind:
  "init_ok s \<Longrightarrow> room (6 * length is) s \<Longrightarrow> list_all (item_ok s) is \<Longrightarrow>
   \<exists>s'. init_items mem is s = (Ret (), s') \<and> progress (6 * length is) s s' \<and>
     (\<forall>name ob. last_binding is name = Some (Cell ob) \<longrightarrow> bound_to s' name ob) \<and>
     (\<forall>name ob. last_binding is name = None \<longrightarrow> \<not> is_sym ob \<longrightarrow> bound_to s name ob \<longrightarrow> bound_to s' name ob)"
proof (induction "is" arbitrary: s)
  case Nil
  then show ?case by (auto simp: progress_def ret_def)
next
  case (Cons i "is")
  have i: "room 6 s" "item_ok s i" using Cons.prems(2,3) by (simp_all add: room_def)
  have "\<exists>s1. do_item mem i s = (Ret (), s1) \<and> progress 6 s s1 \<and>
     (\<forall>st ob. i = Bind st (Cell ob) \<longrightarrow> bound_to s1 st ob) \<and>
     (\<forall>name ob. (\<nexists>w. i = Bind name w) \<longrightarrow> \<not> is_sym ob \<longrightarrow> bound_to s name ob \<longrightarrow> bound_to s1 name ob)"
  proof (cases i)
    case (Protect st)
    obtain s' where "do_item mem (Protect st) s = (Ret (), s')" "progress 6 s s'" "\<And>name ob. bound_to s name ob \<Longrightarrow> bound_to s' name ob"
      using protect_step [OF Cons.prems(1) i(1) i(2) [unfolded Protect], of mem] by blast
    then show ?thesis unfolding Protect by (intro exI [of _ s']) simp
  next
    case (Bind st w)
    obtain s' where "do_item mem (Bind st w) s = (Ret (), s')" "progress 6 s s'" "\<And>ob. w = Cell ob \<Longrightarrow> bound_to s' st ob"
      "\<And>name ob. name \<noteq> st \<Longrightarrow> \<not> is_sym ob \<Longrightarrow> bound_to s name ob \<Longrightarrow> bound_to s' name ob"
      using bind_step [OF Cons.prems(1) i(1) i(2) [unfolded Bind], of mem] by blast
    then show ?thesis unfolding Bind by (intro exI [of _ s']) (auto simp del: do_item.simps)
  qed
  then obtain s1 where 1: "do_item mem i s = (Ret (), s1)" "progress 6 s s1"
    "\<And>st ob. i = Bind st (Cell ob) \<Longrightarrow> bound_to s1 st ob"
    "\<And>name ob. \<nexists>w. i = Bind name w \<Longrightarrow> \<not> is_sym ob \<Longrightarrow> bound_to s name ob \<Longrightarrow> bound_to s1 name ob" by blast
  have "init_ok s1" "room (6 * length is) s1" using 1(2) Cons.prems(2) by (simp_all add: progress_def room_def)
  moreover have "list_all (item_ok s1) is" using Cons.prems(3) item_ok_progress [OF _ 1(2)] by (auto simp: list_all_iff)
  ultimately obtain s2 where 2: "init_items mem is s1 = (Ret (), s2)" "progress (6 * length is) s1 s2"
    "\<And>name ob. last_binding is name = Some (Cell ob) \<Longrightarrow> bound_to s2 name ob"
    "\<And>name ob. last_binding is name = None \<Longrightarrow> \<not> is_sym ob \<Longrightarrow> bound_to s1 name ob \<Longrightarrow> bound_to s2 name ob"
    using Cons.IH by blast
  have "bound_to s2 name ob" if "last_binding (i # is) name = Some (Cell ob)" for name ob
  proof (cases "last_binding is name")
    case None
    then have b: "i = Bind name (Cell ob)" using that by (cases i) (auto split: if_splits)
    then have "\<not> is_sym ob" using i(2) by (auto simp: item_ok_def)
    then show ?thesis using 1(3) [OF b] 2(4) [OF None] by blast
  next
    case (Some w)
    then show ?thesis using that 2(3) by (cases i) auto
  qed
  moreover have "bound_to s2 name ob" if n: "last_binding (i # is) name = None" "\<not> is_sym ob" "bound_to s name ob" for name ob
  proof -
    have "last_binding is name = None" "\<nexists>w. i = Bind name w" using n(1) by (cases i; auto split: option.splits if_splits)+
    then show ?thesis using 1(4) [OF _ n(2,3)] 2(4) [OF _ n(2)] by blast
  qed
  ultimately show ?case
    using 1(1) 2(1) progress_trans [OF 1(2) 2(2)] by (intro exI [of _ s2]) (simp add: bind_run)
qed

lemma last_binding_append:
  "last_binding (xs @ ys) name = (case last_binding ys name of Some w \<Rightarrow> Some w | None \<Rightarrow> last_binding xs name)"
  by (induction xs name rule: last_binding.induct) (auto split: option.splits)

lemma init_items_append: "init_items mem (xs @ ys) = bindM (init_items mem xs) (\<lambda>_. init_items mem ys)"
proof (induction xs)
  case Nil
  show ?case by (rule ext) (simp add: bindM_def ret_def)
qed (simp add: bindM_assoc)


definition subr_item :: "init_item \<Rightarrow> bool" where
  "subr_item i = (case i of Bind st (Cell ob) \<Rightarrow> type_code ob \<in> {4..10} \<union> {19..21} | _ \<Rightarrow> True)"

lemma subr_cell: "type_code ob \<in> {4..10} \<union> {19..21} \<Longrightarrow> obj_refs ob = [] \<and> \<not> is_sym ob"
  by (cases ob) (auto simp: is_sym_def)

lemma subr_item_ok: "subr_item i \<Longrightarrow> \<forall>p\<in>item_names i. hashable s p \<Longrightarrow> item_ok s i"
  using subr_cell by (auto simp: subr_item_def item_ok_def split: init_item.splits init_value.splits)

abbreviation all_tables :: "double \<Rightarrow> init_item list" where
  "all_tables pi4 \<equiv> siod_init_subrs_1 @ siod_init_subrs_a pi4 @ siod_init_trace @ init_slibu_subrs @ init_slibu_rest"

lemmas table_defs = siod_init_subrs_1_def siod_init_subrs_a_def siod_init_trace_def init_slibu_subrs_def init_slibu_rest_def
  siod_init_subr_0_def siod_init_subr_1_def siod_init_subr_2_def siod_init_subr_2n_def siod_init_subr_3_def
  siod_init_subr_4_def siod_init_subr_5_def siod_init_lsubr_def siod_init_fsubr_def siod_init_msubr_def

lemma tables_subrs: "list_all subr_item siod_init_subrs_1" "list_all subr_item (siod_init_subrs_a pi4)"
  "list_all subr_item siod_init_trace" "list_all subr_item init_slibu_subrs" "list_all subr_item init_slibu_rest"
  unfolding table_defs by (simp_all add: subr_item_def)

text \<open>The names are in the table of the obarray, of the size that it has by default.\<close>

lemma table_names: "list_all (\<lambda>i. \<forall>p\<in>item_names i. 0 \<le> intern_hash 100 0 p) (all_tables pi4)"
  unfolding table_defs by (simp add: item_names_def item_name_def) code_simp

lemma tables_ok:
  assumes "obarray_dim s = 100 \<or> obarray_dim s \<le> 1"
  shows "list_all (item_ok s) (all_tables pi4)"
proof -
  have "item_ok s i" if i: "i \<in> set (all_tables pi4)" for i
  proof (rule subr_item_ok)
    show "subr_item i" using i tables_subrs(1,3-5) tables_subrs(2) [of pi4] by (auto simp: list_all_iff)
    have "0 \<le> intern_hash 100 0 p" if "p \<in> item_names i" for p
      using i that table_names [of pi4] unfolding list_all_iff by blast
    then show "\<forall>p\<in>item_names i. hashable s p" using assms by (auto simp: hashable_def hash_of_def)
  qed
  then show ?thesis by (simp add: list_all_iff)
qed

definition init_cells :: nat where
  "init_cells = 6 * length (all_tables (of_long 0))"

lemma init_cells_eq: "init_cells = 6 * length (all_tables pi4)"
  unfolding init_cells_def siod_init_subrs_a_def by simp

lemma ulsiod_init_items:
  "ulsiod_init mem pi4 lib old = bindM (init_items mem (all_tables pi4)) (\<lambda>_. ret (library_path lib old))"
  by (rule ext) (simp add: ulsiod_init_def siod_init_slibu_def siod_init_subrs_def init_items_append bindM_assoc bind_run)

text \<open>
  C17. The names of the global environment.  From a state with a well-formed obarray, of the size that siod has by
  default, the initialisation of slib, sliba, trace and slibu returns in a state with a well-formed obarray, where the symbol of
  every name of their tables has a cell of the C function that the last entry of the name in the tables gives: a name that is
  entered twice has its second function.  The directory of the library is put into the path of the process, behind what it
  was, unless it is there already.
\<close>

theorem init_subrs_bind:
  assumes "wf_state s" "symtab_ok s" "obarray_dim s = 100 \<or> obarray_dim s \<le> 1"
    "length (cells s) + init_cells \<le> heap_size s"
  shows "\<exists>s'. ulsiod_init mem pi4 lib old s = (Ret (library_path lib old), s') \<and> wf_state s' \<and> symtab_ok s' \<and>
    (\<forall>name ob. last_binding (all_tables pi4) name = Some (Cell ob) \<longrightarrow> bound_to s' name ob)"
proof -
  have "room (6 * length (all_tables pi4)) s" using assms(4) by (simp only: room_def init_cells_eq [of pi4])
  from items_bind [OF _ this tables_ok [OF assms(3)], of mem] assms(1,2) obtain s' where
    "init_items mem (all_tables pi4) s = (Ret (), s')" "progress (6 * length (all_tables pi4)) s s'"
    "\<forall>name ob. last_binding (all_tables pi4) name = Some (Cell ob) \<longrightarrow> bound_to s' name ob"
    unfolding init_ok_def by blast
  then show ?thesis
    by (intro exI [of _ s']) (simp add: ulsiod_init_items bind_run init_ok_def progress_def)
qed

lemma last_binding_Bind:
  "st \<noteq> name \<Longrightarrow> last_binding (Bind st v # is) name = last_binding is name"
  "last_binding (Bind name v # is) name = (case last_binding is name of Some w \<Rightarrow> Some w | None \<Rightarrow> Some v)"
  by (simp_all split: option.split)

lemma last_names:
  "last_binding (all_tables pi4) ''while'' = Some (Cell (Tc_fsubr ''while'' F_lwhile))"
  "last_binding (all_tables pi4) ''first'' = Some (Cell (Tc_subr_1 ''first'' F_car))"
  unfolding table_defs by (simp_all add: last_binding_Bind del: last_binding.simps(3))

theorem init_subrs_bind_witness:
  "\<forall>mem. \<exists>s'. ulsiod_init mem (of_long 0) ''/usr/lib/siod'' (Some ''/lib'') ((small_state [])\<lparr>heap_size := 10000\<rparr>) =
      (Ret (Some ''LD_LIBRARY_PATH=/lib:/usr/lib/siod''), s') \<and> wf_state s' \<and>
    bound_to s' ''while'' (Tc_fsubr ''while'' F_lwhile) \<and> bound_to s' ''first'' (Tc_subr_1 ''first'' F_car)"
proof
  fix mem
  let ?s = "(small_state [])\<lparr>heap_size := 10000\<rparr>"
  have "wf_state ?s"
    by (fastforce simp: wf_state_def refs_ok_def inums_ok_def obarray_ok_def small_state_def symbol_at_def
        obj_at_def ref_ok_def globals_def constants_def list_all_iff split: siod_LISP.splits)
  moreover have "symtab_ok ?s" by (simp add: symtab_ok_def small_state_def)
  moreover have "init_cells \<le> 9000" unfolding init_cells_def table_defs by simp
  then have "length (cells ?s) + init_cells \<le> heap_size ?s" by (simp add: small_state_def)
  moreover have "obarray_dim ?s \<le> 1" by (simp add: small_state_def)
  ultimately obtain s' where "ulsiod_init mem (of_long 0) ''/usr/lib/siod'' (Some ''/lib'') ?s =
      (Ret (library_path ''/usr/lib/siod'' (Some ''/lib'')), s')" "wf_state s'"
      "\<forall>name ob. last_binding (all_tables (of_long 0)) name = Some (Cell ob) \<longrightarrow> bound_to s' name ob"
    using init_subrs_bind [of ?s mem "of_long 0" "''/usr/lib/siod''" "Some ''/lib''"] by blast
  then show "\<exists>s'. ulsiod_init mem (of_long 0) ''/usr/lib/siod'' (Some ''/lib'') ?s =
      (Ret (Some ''LD_LIBRARY_PATH=/lib:/usr/lib/siod''), s') \<and> wf_state s' \<and>
      bound_to s' ''while'' (Tc_fsubr ''while'' F_lwhile) \<and> bound_to s' ''first'' (Tc_subr_1 ''first'' F_car)"
    using last_names [of "of_long 0"] by (intro exI [of _ s']) (simp add: library_path_def del: last_binding.simps)
qed

end
