(* ===== verification/System.thy ===== *)
theory System
  imports Load Printf_Facts
begin

text \<open>
  The system interface (slibu.c): the functions that call the operating system for files, users, processes and times,
  and the loading of shared objects.  What the system answers is a parameter.
\<close>

section \<open>The operating system\<close>

text \<open>
  The answer to a call is its result, with the numbers and the texts it stores for the caller.  A call may change the
  files, the streams and the message for errno.  The other fields are functions of the C library on times, users, status
  blocks and file descriptors, and the initialisers of shared objects.
\<close>

datatype sys_arg = Path string | Num int

record reply =
  result :: int
  numbers :: "int list"
  texts :: "char list list"

record passwd =
  pw_name :: string
  pw_passwd :: string
  pw_uid :: int
  pw_gid :: int
  pw_dir :: string
  pw_gecos :: string
  pw_shell :: string

record kernel =
  sys :: "string \<Rightarrow> sys_arg list \<Rightarrow> siod \<Rightarrow> reply \<times> siod"
  stat_of :: "string \<Rightarrow> sys_arg \<Rightarrow> siod \<Rightarrow> stat option"
  passwd_of :: "string \<Rightarrow> sys_arg list \<Rightarrow> siod \<Rightarrow> passwd option"
  gm_time :: "int \<Rightarrow> tm option"
  local_time :: "int \<Rightarrow> tm option"
  make_time :: "tm \<Rightarrow> int"
  parse_time :: "string \<Rightarrow> string \<Rightarrow> tm \<Rightarrow> tm option"
  format_time :: "nat \<Rightarrow> string \<Rightarrow> tm \<Rightarrow> char list"
  c_time :: "int \<Rightarrow> string option"
  file_no :: "nat \<Rightarrow> int"
  initialiser :: "int \<Rightarrow> string \<Rightarrow> unit act"

definition call :: "kernel \<Rightarrow> string \<Rightarrow> sys_arg list \<Rightarrow> reply act" where
  "call os name args s = (case sys os name args s of (r, s') \<Rightarrow> (Ret r, s'))"

text \<open>A text that a call gives, if its result is not a null pointer.\<close>

definition given_text :: "reply \<Rightarrow> siod_LISP act" where
  "given_text r = (if result r = 0 then ret NIL
     else case texts r of t # ts \<Rightarrow> siod_strcons (cstr t) | [] \<Rightarrow> undef)"

text \<open>A call that reports an error where its result is not zero.\<close>

definition checked :: "kernel \<Rightarrow> string \<Rightarrow> sys_arg list \<Rightarrow> siod_LISP act" where
  "checked os name args = bindM (call os name args) (\<lambda>r.
     if result r \<noteq> 0 then bindM siod_llast_c_errmsg (errm name) else ret NIL)"

definition get_c_int :: "siod_LISP \<Rightarrow> int act" where
  "get_c_int x = bindM (siod_get_c_long x) (\<lambda>i. ret (wrap 32 i))"

definition get_c_uint :: "siod_LISP \<Rightarrow> int act" where
  "get_c_uint x = bindM (siod_get_c_long x) (\<lambda>i. ret (i mod 2 ^ 32))"

definition number_of_call :: "kernel \<Rightarrow> string \<Rightarrow> sys_arg list \<Rightarrow> siod_LISP act" where
  "number_of_call os name args = bindM (call os name args) (\<lambda>r. siod_flocons (of_long (result r)))"

section \<open>Files and directories\<close>

definition siod_lsymlink :: "kernel \<Rightarrow> siod_LISP \<Rightarrow> siod_LISP \<Rightarrow> siod_LISP act" where
  "siod_lsymlink os p1 p2 = bindM (get_c_string p1) (\<lambda>a. bindM (get_c_string p2) (\<lambda>b.
     checked os ''symlink'' [Path a, Path b]))"

definition siod_llink :: "kernel \<Rightarrow> siod_LISP \<Rightarrow> siod_LISP \<Rightarrow> siod_LISP act" where
  "siod_llink os p1 p2 = bindM (get_c_string p1) (\<lambda>a. bindM (get_c_string p2) (\<lambda>b.
     checked os ''link'' [Path a, Path b]))"

definition siod_lunlink :: "kernel \<Rightarrow> siod_LISP \<Rightarrow> siod_LISP act" where
  "siod_lunlink os p = bindM (get_c_string p) (\<lambda>a. checked os ''unlink'' [Path a])"

definition siod_lrmdir :: "kernel \<Rightarrow> siod_LISP \<Rightarrow> siod_LISP act" where
  "siod_lrmdir os p = bindM (get_c_string p) (\<lambda>a. checked os ''rmdir'' [Path a])"

definition siod_lmkdir :: "kernel \<Rightarrow> siod_LISP \<Rightarrow> siod_LISP \<Rightarrow> siod_LISP act" where
  "siod_lmkdir os p m = bindM (get_c_string p) (\<lambda>a. bindM (get_c_uint m) (\<lambda>i. checked os ''mkdir'' [Path a, Num i]))"

definition siod_lreadlink :: "kernel \<Rightarrow> siod_LISP \<Rightarrow> siod_LISP act" where
  "siod_lreadlink os p = bindM (get_c_string p) (\<lambda>a. bindM (call os ''readlink'' [Path a, Num 4097]) (\<lambda>r.
     if result r < 0 then bindM siod_llast_c_errmsg (errm ''readlink'')
     else if concat (texts r) = [] \<and> 0 < result r \<or> 4097 < result r then undef
     else siod_strcons (take (nat (result r)) (concat (texts r)))))"

definition siod_lrename :: "kernel \<Rightarrow> siod_LISP \<Rightarrow> siod_LISP \<Rightarrow> siod_LISP act" where
  "siod_lrename os p1 p2 = bindM (get_c_string p1) (\<lambda>a. bindM (get_c_string p2) (\<lambda>b.
     checked os ''rename'' [Path a, Path b]))"

definition siod_l_chmod :: "kernel \<Rightarrow> siod_LISP \<Rightarrow> siod_LISP \<Rightarrow> siod_LISP act" where
  "siod_l_chmod os path mode = bindM (get_c_string path) (\<lambda>a. bindM (get_c_uint mode) (\<lambda>i.
     checked os ''chmod'' [Path a, Num i]))"

definition siod_lfchmod :: "kernel \<Rightarrow> siod_LISP \<Rightarrow> siod_LISP \<Rightarrow> siod_LISP act" where
  "siod_lfchmod os file mode = bindM (siod_get_c_file file None) (\<lambda>f. bindM (get_c_uint mode) (\<lambda>i.
     checked os ''fchmod'' [Num (file_no os f), Num i]))"

definition siod_lutime :: "kernel \<Rightarrow> siod_LISP \<Rightarrow> siod_LISP \<Rightarrow> siod_LISP \<Rightarrow> siod_LISP act" where
  "siod_lutime os fname modified ac = bindM (siod_get_c_long modified) (\<lambda>m.
     bindM (if ac \<noteq> NIL then siod_get_c_long ac else bindM (call os ''time'' []) (\<lambda>r. ret (result r))) (\<lambda>a.
     bindM (get_c_string fname) (\<lambda>p. checked os ''utime'' [Path p, Num m, Num a])))"

definition siod_l_chown :: "kernel \<Rightarrow> siod_LISP \<Rightarrow> siod_LISP \<Rightarrow> siod_LISP \<Rightarrow> siod_LISP act" where
  "siod_l_chown os path uid gid = bindM (get_c_string path) (\<lambda>p. bindM (get_c_uint uid) (\<lambda>u. bindM (get_c_uint gid) (\<lambda>g.
     bindM (call os ''chown'' [Path p, Num u, Num g]) (\<lambda>r.
       if result r \<noteq> 0 then bindM siod_llast_c_errmsg (\<lambda>m. bindM (siod_cons path m) (errm ''chown'')) else ret NIL))))"

definition siod_delete_file :: "kernel \<Rightarrow> siod_LISP \<Rightarrow> siod_LISP act" where
  "siod_delete_file os fname = bindM (get_c_string fname) (\<lambda>a. bindM (call os ''unlink'' [Path a]) (\<lambda>r.
     if result r \<noteq> 0 then bindM (gets errno_text) siod_strcons else ret NIL))"

text \<open>The bits of the modes of access: reading, writing, executing, and existing.\<close>

fun access_mode :: "siod_LISP \<Rightarrow> char list \<Rightarrow> int \<Rightarrow> int act" where
  "access_mode lacc [] amode = ret amode"
| "access_mode lacc (c # cs) amode =
     (if c = CHR ''r'' then access_mode lacc cs (amode OR 4)
      else if c = CHR ''w'' then access_mode lacc cs (amode OR 2)
      else if c = CHR ''x'' then access_mode lacc cs (amode OR 1)
      else if c = CHR ''f'' then access_mode lacc cs (amode OR 0)
      else errm ''bad access mode'' lacc)"

definition siod_laccess_problem :: "kernel \<Rightarrow> siod_LISP \<Rightarrow> siod_LISP \<Rightarrow> siod_LISP act" where
  "siod_laccess_problem os lfname lacc = bindM (get_c_string lfname) (\<lambda>fname. bindM (get_c_string lacc) (\<lambda>acc.
     bindM (access_mode lacc acc 0) (\<lambda>amode. bindM (call os ''access'' [Path fname, Num amode]) (\<lambda>r.
       if result r < 0 then siod_llast_c_errmsg else ret NIL))))"

definition siod_lgetcwd :: "kernel \<Rightarrow> siod_LISP act" where
  "siod_lgetcwd os = bindM (call os ''getcwd'' [Num 4097]) (\<lambda>r.
     if result r \<noteq> 0 then given_text r else bindM siod_llast_c_errmsg (errm ''getcwd''))"

definition siod_lchdir :: "kernel \<Rightarrow> siod_LISP \<Rightarrow> siod_LISP act" where
  "siod_lchdir os dir = bindM (look dir) (\<lambda>ob. case ob of
       Some (Tc_c_file name f) \<Rightarrow> bindM (siod_get_c_file dir None) (\<lambda>f. checked os ''fchdir'' [Num (file_no os f)])
     | _ \<Rightarrow> bindM (get_c_string dir) (\<lambda>path. checked os ''chdir'' [Path path]))"

definition siod_file_times :: "kernel \<Rightarrow> siod_LISP \<Rightarrow> siod_LISP act" where
  "siod_file_times os fname = bindM (get_c_string fname) (\<lambda>p. bindM (gets (stat_of os ''stat'' (Path p))) (\<lambda>st. case st of
       None \<Rightarrow> ret NIL
     | Some st \<Rightarrow> bindM (siod_flocons (of_long (st_ctime st))) (\<lambda>c. bindM (siod_flocons (of_long (st_mtime st))) (\<lambda>m.
         bindM (siod_cons m NIL) (siod_cons c)))))"

definition siod_g_stat :: "kernel \<Rightarrow> siod_LISP \<Rightarrow> string \<Rightarrow> siod_LISP act" where
  "siod_g_stat os fname fcn = bindM (get_c_string fname) (\<lambda>p. bindM (gets (stat_of os fcn (Path p))) (\<lambda>st. case st of
       None \<Rightarrow> ret NIL
     | Some st \<Rightarrow> siod_decode_stat st))"

definition siod_l_stat :: "kernel \<Rightarrow> siod_LISP \<Rightarrow> siod_LISP act" where
  "siod_l_stat os fname = siod_g_stat os fname ''stat''"

definition siod_l_lstat :: "kernel \<Rightarrow> siod_LISP \<Rightarrow> siod_LISP act" where
  "siod_l_lstat os fname = siod_g_stat os fname ''lstat''"

definition siod_l_fstat :: "kernel \<Rightarrow> siod_LISP \<Rightarrow> siod_LISP act" where
  "siod_l_fstat os p = bindM (siod_get_c_file p None) (\<lambda>f. bindM (gets (stat_of os ''fstat'' (Num (file_no os f)))) (\<lambda>st. case st of
       None \<Rightarrow> ret NIL
     | Some st \<Rightarrow> siod_decode_stat st))"

text \<open>Locks: the operations are those of fcntl, and the type, the origin and the range have their widths in struct flock.\<close>

definition siod_get_fd :: "kernel \<Rightarrow> siod_LISP \<Rightarrow> int act" where
  "siod_get_fd os ptr = bindM (look ptr) (\<lambda>ob. case ob of
       Some (Tc_c_file name f) \<Rightarrow> bindM (siod_get_c_file ptr None) (\<lambda>f. ret (file_no os f))
     | _ \<Rightarrow> get_c_int ptr)"

abbreviation (input) F_GETLK :: int where "F_GETLK \<equiv> 5"
abbreviation (input) F_SETLK :: int where "F_SETLK \<equiv> 6"
abbreviation (input) F_SETLKW :: int where "F_SETLKW \<equiv> 7"
abbreviation (input) F_UNLCK :: int where "F_UNLCK \<equiv> 2"

definition siod_gsetlk :: "kernel \<Rightarrow> int \<Rightarrow> siod_LISP \<Rightarrow> siod_LISP \<Rightarrow> siod_LISP \<Rightarrow> siod_LISP \<Rightarrow> siod_LISP \<Rightarrow> siod_LISP act" where
  "siod_gsetlk os op lfd ltype whence start len = bindM (siod_get_fd os lfd) (\<lambda>fd.
     bindM (siod_get_c_long ltype) (\<lambda>t. bindM (if whence \<noteq> NIL then siod_get_c_long whence else ret 0) (\<lambda>w.
     bindM (if start \<noteq> NIL then siod_get_c_long start else ret 0) (\<lambda>b.
     bindM (if len \<noteq> NIL then siod_get_c_long len else ret 0) (\<lambda>n.
     bindM (call os ''fcntl'' [Num fd, Num op, Num (wrap 16 t), Num (wrap 16 w), Num b, Num n, Num 0]) (\<lambda>r.
       if result r = - 1 then siod_llast_c_errmsg
       else if op \<noteq> F_GETLK then ret NIL
       else case numbers r of
           l_type # l_pid # rest \<Rightarrow>
             if l_type = F_UNLCK then ret NIL
             else bindM (siod_flocons (of_long l_type)) (\<lambda>x. bindM (siod_flocons (of_long l_pid)) (\<lambda>y. siod_listn [x, y]))
         | _ \<Rightarrow> undef))))))"

definition siod_lF_SETLK :: "kernel \<Rightarrow> siod_LISP \<Rightarrow> siod_LISP \<Rightarrow> siod_LISP \<Rightarrow> siod_LISP \<Rightarrow> siod_LISP \<Rightarrow> siod_LISP act" where
  "siod_lF_SETLK os = siod_gsetlk os F_SETLK"

definition siod_lF_SETLKW :: "kernel \<Rightarrow> siod_LISP \<Rightarrow> siod_LISP \<Rightarrow> siod_LISP \<Rightarrow> siod_LISP \<Rightarrow> siod_LISP \<Rightarrow> siod_LISP act" where
  "siod_lF_SETLKW os = siod_gsetlk os F_SETLKW"

definition siod_lF_GETLK :: "kernel \<Rightarrow> siod_LISP \<Rightarrow> siod_LISP \<Rightarrow> siod_LISP \<Rightarrow> siod_LISP \<Rightarrow> siod_LISP \<Rightarrow> siod_LISP act" where
  "siod_lF_GETLK os = siod_gsetlk os F_GETLK"

section \<open>Users\<close>

definition siod_lgetuid :: "kernel \<Rightarrow> siod_LISP act" where
  "siod_lgetuid os = number_of_call os ''getuid'' []"

definition siod_lgetgid :: "kernel \<Rightarrow> siod_LISP act" where
  "siod_lgetgid os = number_of_call os ''getgid'' []"

definition siod_lgeteuid :: "kernel \<Rightarrow> siod_LISP act" where
  "siod_lgeteuid os = number_of_call os ''geteuid'' []"

definition siod_lsetuid :: "kernel \<Rightarrow> siod_LISP \<Rightarrow> siod_LISP act" where
  "siod_lsetuid os n = bindM (get_c_uint n) (\<lambda>uid. checked os ''setuid'' [Num uid])"

definition siod_lseteuid :: "kernel \<Rightarrow> siod_LISP \<Rightarrow> siod_LISP act" where
  "siod_lseteuid os n = bindM (get_c_uint n) (\<lambda>uid. checked os ''seteuid'' [Num uid])"

definition siod_lcrypt :: "kernel \<Rightarrow> siod_LISP \<Rightarrow> siod_LISP \<Rightarrow> siod_LISP act" where
  "siod_lcrypt os key salt = bindM (get_c_string key) (\<lambda>k. bindM (get_c_string salt) (\<lambda>t.
     bindM (call os ''crypt'' [Path k, Path t]) given_text))"

definition siod_ldecode_pwent :: "passwd \<Rightarrow> siod_LISP act" where
  "siod_ldecode_pwent p = bindM (siod_strcons (pw_name p)) (\<lambda>name. bindM (siod_strcons (pw_passwd p)) (\<lambda>passwd.
     bindM (siod_flocons (of_long (pw_uid p))) (\<lambda>uid. bindM (siod_flocons (of_long (pw_gid p))) (\<lambda>gid.
     bindM (siod_strcons (pw_dir p)) (\<lambda>dir. bindM (siod_strcons (pw_gecos p)) (\<lambda>gecos. bindM (siod_strcons (pw_shell p)) (\<lambda>shell.
       siod_symalist [(''name'', name), (''passwd'', passwd), (''uid'', uid), (''gid'', gid), (''dir'', dir),
         (''gecos'', gecos), (''shell'', shell)])))))))"

definition siod_lencode_pwent :: "siod_LISP \<Rightarrow> passwd act" where
  "siod_lencode_pwent alist = bindM (strfield ''name'' alist) (\<lambda>name. bindM (strfield ''passwd'' alist) (\<lambda>passwd.
     bindM (siod_longfield ''uid'' alist) (\<lambda>uid. bindM (siod_longfield ''gid'' alist) (\<lambda>gid.
     bindM (strfield ''dir'' alist) (\<lambda>dir. bindM (strfield ''gecos'' alist) (\<lambda>gecos. bindM (strfield ''shell'' alist) (\<lambda>shell.
       ret \<lparr>pw_name = name, pw_passwd = passwd, pw_uid = uid mod 2 ^ 32, pw_gid = gid mod 2 ^ 32, pw_dir = dir,
         pw_gecos = gecos, pw_shell = shell\<rparr>)))))))"

definition user_entry :: "kernel \<Rightarrow> string \<Rightarrow> sys_arg list \<Rightarrow> siod_LISP act" where
  "user_entry os name args = bindM (gets (passwd_of os name args)) (\<lambda>p. case p of
       Some p \<Rightarrow> siod_ldecode_pwent p | None \<Rightarrow> ret NIL)"

definition siod_lgetpwuid :: "kernel \<Rightarrow> siod_LISP \<Rightarrow> siod_LISP act" where
  "siod_lgetpwuid os luid = bindM (get_c_uint luid) (\<lambda>uid. user_entry os ''getpwuid'' [Num uid])"

definition siod_lgetpwnam :: "kernel \<Rightarrow> siod_LISP \<Rightarrow> siod_LISP act" where
  "siod_lgetpwnam os nam = bindM (get_c_string nam) (\<lambda>n. user_entry os ''getpwnam'' [Path n])"

definition siod_lgetpwent :: "kernel \<Rightarrow> siod_LISP act" where
  "siod_lgetpwent os = user_entry os ''getpwent'' []"

definition siod_lsetpwent :: "kernel \<Rightarrow> siod_LISP act" where
  "siod_lsetpwent os = bindM (call os ''setpwent'' []) (\<lambda>_. ret NIL)"

definition siod_lendpwent :: "kernel \<Rightarrow> siod_LISP act" where
  "siod_lendpwent os = bindM (call os ''endpwent'' []) (\<lambda>_. ret NIL)"

definition siod_lputpwent :: "kernel \<Rightarrow> siod_LISP \<Rightarrow> siod_LISP \<Rightarrow> siod_LISP act" where
  "siod_lputpwent os alist file = bindM (siod_lencode_pwent alist) (\<lambda>p. bindM (siod_get_c_file file None) (\<lambda>f.
     bindM (call os ''putpwent'' [Path (pw_name p), Path (pw_passwd p), Num (pw_uid p), Num (pw_gid p), Path (pw_dir p),
       Path (pw_gecos p), Path (pw_shell p), Num (int f)]) (\<lambda>_. ret NIL)))"

text \<open>The name of a group and its members.\<close>

fun cons_strings :: "char list list \<Rightarrow> siod_LISP \<Rightarrow> siod_LISP act" where
  "cons_strings [] r = ret r"
| "cons_strings (t # ts) r = bindM (siod_strcons t) (\<lambda>x. bindM (siod_cons x r) (cons_strings ts))"

definition siod_lgetgrgid :: "kernel \<Rightarrow> siod_LISP \<Rightarrow> siod_LISP act" where
  "siod_lgetgrgid os n = bindM (get_c_uint n) (\<lambda>gid. bindM (call os ''getgrgid'' [Num gid]) (\<lambda>r.
     if result r = 0 then ret NIL
     else if texts r = [] then undef
     else bindM (cons_strings (map cstr (texts r)) NIL) siod_nreverse))"

section \<open>Processes\<close>

definition siod_lsystem :: "kernel \<Rightarrow> siod_LISP \<Rightarrow> siod_LISP act" where
  "siod_lsystem os args = bindM (siod_string_append args) (\<lambda>x. bindM (get_c_string x) (\<lambda>command.
     bindM (call os ''system'' [Path command]) (\<lambda>r. bindM (siod_flocons (of_long (result r))) (\<lambda>v.
       if result r < 0 then bindM siod_llast_c_errmsg (siod_cons v) else ret v))))"

definition siod_lgetpid :: "kernel \<Rightarrow> siod_LISP act" where
  "siod_lgetpid os = number_of_call os ''getpid'' []"

definition siod_lgetpgrp :: "kernel \<Rightarrow> siod_LISP act" where
  "siod_lgetpgrp os = number_of_call os ''getpgrp'' []"

definition siod_lgetppid :: "kernel \<Rightarrow> siod_LISP act" where
  "siod_lgetppid os = number_of_call os ''getppid'' []"

definition siod_lsetpgid :: "kernel \<Rightarrow> siod_LISP \<Rightarrow> siod_LISP \<Rightarrow> siod_LISP act" where
  "siod_lsetpgid os pid pgid = bindM (get_c_int pid) (\<lambda>p. bindM (get_c_int pgid) (\<lambda>g. checked os ''setpgid'' [Num p, Num g]))"

definition siod_lfork :: "kernel \<Rightarrow> siod_LISP act" where
  "siod_lfork os = bindM (call os ''fork'' []) (\<lambda>r.
     if result r = 0 then ret NIL
     else if result r = - 1 then bindM siod_llast_c_errmsg (errm ''fork'')
     else siod_flocons (of_long (result r)))"

text \<open>
  The strings of a list in memory that cells keep, which are consed in front of safe; the result is the strings and the
  new safe.
\<close>

fun copy_strings :: "memory \<Rightarrow> nat \<Rightarrow> siod_LISP \<Rightarrow> siod_LISP \<Rightarrow> (string list \<times> siod_LISP) act" where
  "copy_strings mem 0 l safe = ret ([], safe)"
| "copy_strings mem (Suc n) l safe = bindM (siod_car l) (\<lambda>x. bindM (get_c_string x) (\<lambda>tmp.
     bindM (siod_mallocl mem (Suc (length tmp))) (\<lambda>c. bindM (siod_cons c safe) (\<lambda>safe'.
     bindM (siod_cdr l) (\<lambda>l'. bindM (copy_strings mem n l' safe') (\<lambda>(ts, safe''). ret (tmp # ts, safe'')))))))"

definition list2char :: "memory \<Rightarrow> siod_LISP \<Rightarrow> siod_LISP \<Rightarrow> (string list \<times> siod_LISP) act" where
  "list2char mem safe v = bindM (siod_llength v) (\<lambda>x. bindM (siod_get_c_long x) (\<lambda>n.
     bindM (siod_mallocl mem (8 * nat (n + 1))) (\<lambda>c. bindM (siod_cons c safe) (copy_strings mem (nat n) v))))"

text \<open>The call of a program returns only when it fails.\<close>

definition siod_lexec :: "memory \<Rightarrow> kernel \<Rightarrow> siod_LISP \<Rightarrow> siod_LISP \<Rightarrow> siod_LISP \<Rightarrow> siod_LISP act" where
  "siod_lexec mem os path args env = bindM (list2char mem NIL args) (\<lambda>(argv, safe).
     bindM (if env \<noteq> NIL then bindM (list2char mem safe env) (\<lambda>(envp, safe'). ret (map Path envp)) else ret []) (\<lambda>envp.
     bindM (get_c_string path) (\<lambda>p.
     bindM (if env \<noteq> NIL then call os ''execve'' (Path p # Num (int (length argv)) # map Path argv @ envp)
       else call os ''execv'' (Path p # Num (int (length argv)) # map Path argv)) (\<lambda>_.
     bindM siod_llast_c_errmsg (errm ''exec'')))))"

definition siod_lnice :: "kernel \<Rightarrow> siod_LISP \<Rightarrow> siod_LISP act" where
  "siod_lnice os val = bindM (get_c_int val) (\<lambda>n. bindM (call os ''nice'' [Num n]) (\<lambda>r.
     if result r = - 1 then bindM siod_llast_c_errmsg (errm ''nice'') else siod_flocons (of_long (result r))))"

definition wait_options :: "(string \<times> nat) list" where
  "wait_options = [(''WCONTINUED'', 8), (''WNOWAIT'', 0x1000000), (''WNOHANG'', 1), (''WUNTRACED'', 2)]"

definition siod_lwait :: "kernel \<Rightarrow> siod_LISP \<Rightarrow> siod_LISP \<Rightarrow> siod_LISP act" where
  "siod_lwait os lpid loptions = bindM (if lpid = NIL then ret (- 1) else get_c_int lpid) (\<lambda>pid.
     bindM (siod_assemble_options loptions wait_options) (\<lambda>options.
     bindM (call os ''waitpid'' [Num pid, Num (int options)]) (\<lambda>r.
       if result r = 0 then ret NIL
       else if result r = - 1 then bindM siod_llast_c_errmsg (errm ''wait'')
       else bindM (siod_flocons (of_long (result r))) (\<lambda>p.
         bindM (siod_flocons (of_long (case numbers r of status # _ \<Rightarrow> status | [] \<Rightarrow> 0))) (\<lambda>status.
         bindM (siod_cons status NIL) (siod_cons p))))))"

definition siod_lkill :: "kernel \<Rightarrow> siod_LISP \<Rightarrow> siod_LISP \<Rightarrow> siod_LISP act" where
  "siod_lkill os pid sig = bindM (get_c_int pid) (\<lambda>p. bindM (if sig = NIL then ret 9 else get_c_int sig) (\<lambda>n.
     checked os ''kill'' [Num p, Num n]))"

definition siod_lputenv :: "kernel \<Rightarrow> siod_LISP \<Rightarrow> siod_LISP act" where
  "siod_lputenv os lstr = bindM (get_c_string lstr) (\<lambda>orig. checked os ''putenv'' [Path orig])"

definition siod_lgetenv :: "kernel \<Rightarrow> siod_LISP \<Rightarrow> siod_LISP act" where
  "siod_lgetenv os var = bindM (get_c_string var) (\<lambda>v. bindM (call os ''getenv'' [Path v]) given_text)"

definition siod_lgetpass :: "kernel \<Rightarrow> siod_LISP \<Rightarrow> siod_LISP act" where
  "siod_lgetpass os lprompt = bindM (if lprompt = NIL then ret [] else get_c_string lprompt) (\<lambda>p.
     bindM (call os ''getpass'' [Path p]) given_text)"

definition siod_lrandom :: "kernel \<Rightarrow> siod_LISP \<Rightarrow> siod_LISP act" where
  "siod_lrandom os n = bindM (call os ''random'' []) (\<lambda>r.
     if n \<noteq> NIL then bindM (siod_get_c_long n) (\<lambda>m.
       if m = 0 then undef else siod_flocons (of_long (c_rem (result r) m)))
     else siod_flocons (of_long (result r)))"

definition siod_lsrandom :: "kernel \<Rightarrow> siod_LISP \<Rightarrow> siod_LISP act" where
  "siod_lsrandom os n = bindM (siod_get_c_long n) (\<lambda>seed. bindM (call os ''srandom'' [Num (seed mod 2 ^ 32)]) (\<lambda>_. ret NIL))"

text \<open>The time in microseconds is an unsigned int.\<close>

definition siod_lsleep :: "kernel \<Rightarrow> siod_LISP \<Rightarrow> siod_LISP act" where
  "siod_lsleep os ns = bindM (flonm ''not a number'' ns) (\<lambda>val. case dtrunc (dmul val (of_long 1000000)) of
       Some i \<Rightarrow> if 0 \<le> i \<and> i < 2 ^ 32 then bindM (call os ''usleep'' [Num i]) (\<lambda>_. ret NIL) else undef
     | None \<Rightarrow> undef)"

definition siod_ltrunc :: "siod_LISP \<Rightarrow> siod_LISP act" where
  "siod_ltrunc x = bindM (flonm ''wta to trunc'' x) (\<lambda>d. siod_flocons (of_long (c_long d)))"

section \<open>Times\<close>

definition siod_unix_time :: "kernel \<Rightarrow> siod_LISP act" where
  "siod_unix_time os = number_of_call os ''time'' []"

text \<open>The time a number gives, or the present one.\<close>

definition time_arg :: "kernel \<Rightarrow> siod_LISP \<Rightarrow> int act" where
  "time_arg os v = (if v \<noteq> NIL then siod_get_c_long v else bindM (call os ''time'' []) (\<lambda>r. ret (result r)))"

definition siod_unix_ctime :: "kernel \<Rightarrow> siod_LISP \<Rightarrow> siod_LISP act" where
  "siod_unix_ctime os v = bindM (time_arg os v) (\<lambda>b. case c_time os b of
       Some buff \<Rightarrow> siod_strcons (takeWhile (\<lambda>c. c \<noteq> CHR 0x0A) buff)
     | None \<Rightarrow> ret NIL)"

text \<open>A number with leading zeros.\<close>

definition zeros :: "nat \<Rightarrow> int \<Rightarrow> char list" where
  "zeros width i = pad_zeros width (long_digits i)"

definition week_days :: "string list" where
  "week_days = [''Sun'', ''Mon'', ''Tue'', ''Wed'', ''Thu'', ''Fri'', ''Sat'']"

definition month_names :: "string list" where
  "month_names = [''Jan'', ''Feb'', ''Mar'', ''Apr'', ''May'', ''Jun'', ''Jul'', ''Aug'', ''Sep'', ''Oct'', ''Nov'', ''Dec'']"

text \<open>The fields are of type int: a year that overflows when 1900 is added is undefined, as are days and months out of range.\<close>

definition year_text :: "tm \<Rightarrow> char list option" where
  "year_text t = (if tm_year t + 1900 < 2 ^ 31 then Some (zeros 4 (tm_year t + 1900)) else None)"

definition date_text :: "tm \<Rightarrow> char list option" where
  "date_text t = (if tm_wday t \<notin> {0..<7} \<or> tm_mon t \<notin> {0..<12} then None
     else map_option (\<lambda>y. week_days ! nat (tm_wday t) @ '', '' @ zeros 2 (tm_mday t) @ '' '' @ month_names ! nat (tm_mon t) @ '' '' @
       y @ '' '' @ zeros 2 (tm_hour t) @ '':'' @ zeros 2 (tm_min t) @ '':'' @ zeros 2 (tm_sec t) @ '' GMT'') (year_text t))"

definition siod_http_date :: "kernel \<Rightarrow> siod_LISP \<Rightarrow> siod_LISP act" where
  "siod_http_date os v = bindM (time_arg os v) (\<lambda>b. case gm_time os b of
       None \<Rightarrow> ret NIL
     | Some t \<Rightarrow> (case date_text t of Some buff \<Rightarrow> siod_strcons buff | None \<Rightarrow> undef))"

definition siod_utime2str :: "kernel \<Rightarrow> siod_LISP \<Rightarrow> siod_LISP act" where
  "siod_utime2str os u = bindM (siod_get_c_long u) (\<lambda>bt. case local_time os bt of
       None \<Rightarrow> ret NIL
     | Some t \<Rightarrow> (case year_text t of
           None \<Rightarrow> undef
         | Some y \<Rightarrow> siod_strcons (y @ zeros 2 (tm_mon t + 1) @ zeros 2 (tm_mday t) @
             zeros 2 (tm_hour t) @ zeros 2 (tm_min t) @ zeros 2 (tm_sec t) @ zeros 2 0)))"

definition siod_llocaltime :: "kernel \<Rightarrow> siod_LISP \<Rightarrow> siod_LISP act" where
  "siod_llocaltime os v = bindM (time_arg os v) (\<lambda>b. case local_time os b of
       Some t \<Rightarrow> siod_decode_tm t | None \<Rightarrow> bindM siod_llast_c_errmsg (errm ''localtime''))"

definition siod_lgmtime :: "kernel \<Rightarrow> siod_LISP \<Rightarrow> siod_LISP act" where
  "siod_lgmtime os v = bindM (time_arg os v) (\<lambda>b. case gm_time os b of
       Some t \<Rightarrow> siod_decode_tm t | None \<Rightarrow> bindM siod_llast_c_errmsg (errm ''gmtime''))"

definition siod_ltzset :: "kernel \<Rightarrow> siod_LISP act" where
  "siod_ltzset os = bindM (call os ''tzset'' []) (\<lambda>_. ret NIL)"

definition siod_lmktime :: "kernel \<Rightarrow> siod_LISP \<Rightarrow> siod_LISP act" where
  "siod_lmktime os alist = bindM (siod_encode_tm alist) (\<lambda>t. siod_flocons (of_long (make_time os t)))"

definition siod_lstrptime :: "kernel \<Rightarrow> siod_LISP \<Rightarrow> siod_LISP \<Rightarrow> siod_LISP \<Rightarrow> siod_LISP act" where
  "siod_lstrptime os str fmt inp = bindM (siod_encode_tm inp) (\<lambda>t. bindM (get_c_string str) (\<lambda>a.
     bindM (get_c_string fmt) (\<lambda>b. case parse_time os a b t of Some t' \<Rightarrow> siod_decode_tm t' | None \<Rightarrow> ret NIL)))"

definition siod_lstrftime :: "kernel \<Rightarrow> siod_LISP \<Rightarrow> siod_LISP \<Rightarrow> siod_LISP act" where
  "siod_lstrftime os fmt inp = bindM (if inp \<noteq> NIL then bindM (siod_encode_tm inp) (\<lambda>t. ret (Some t))
       else bindM (call os ''time'' []) (\<lambda>r. ret (gm_time os (result r)))) (\<lambda>ot. case ot of
       None \<Rightarrow> ret NIL
     | Some t \<Rightarrow> bindM (get_c_string fmt) (\<lambda>f.
         (let buff = format_time os 1024 f t in if buff \<noteq> [] then siod_strcons buff else ret NIL)))"

section \<open>Shared objects\<close>

text \<open>The symbol for the initialiser: init_ and the name of the file without its directory and its suffix.\<close>

definition siod_so_init_name :: "siod_LISP \<Rightarrow> siod_LISP \<Rightarrow> siod_LISP act" where
  "siod_so_init_name fname iname =
     bindM (if iname \<noteq> NIL then ret iname
       else bindM (siod_cintern ''/'') (\<lambda>slash. bindM (siod_lstrbreakup fname slash) (\<lambda>l. bindM (siod_last l) (\<lambda>c.
         bindM (siod_car c) (\<lambda>base.
         bindM (siod_cintern ''.'') (\<lambda>dot. bindM (siod_lstrbreakup base dot) (\<lambda>l. bindM (siod_butlast l) (\<lambda>l.
         bindM (siod_cintern ''.'') (\<lambda>dot. bindM (siod_lstrunbreakup l dot) (\<lambda>stem.
         bindM (siod_cintern ''init_'') (\<lambda>p. bindM (siod_listn [p, stem]) siod_string_append)))))))))))
     siod_intern"

definition siod_so_ext :: "siod_LISP \<Rightarrow> siod_LISP act" where
  "siod_so_ext fname = bindM (siod_strcons ''.so'') (\<lambda>lext.
     if fname = NIL then ret lext else bindM (siod_listn [fname, lext]) siod_string_append)"

text \<open>An object that is not found is looked for in siod_lib.\<close>

definition find_object :: "kernel \<Rightarrow> string \<Rightarrow> siod_LISP \<Rightarrow> siod_LISP act" where
  "find_object os lib fname = bindM (get_c_string fname) (\<lambda>p. bindM (call os ''access'' [Path p, Num 0]) (\<lambda>r.
     if result r \<noteq> 0 then bindM (siod_strcons lib) (\<lambda>a. bindM (siod_strcons ''/'') (\<lambda>b.
       bindM (siod_listn [a, b, fname]) siod_string_append))
     else ret fname))"

definition dl_error :: "kernel \<Rightarrow> siod_LISP \<Rightarrow> 'a act" where
  "dl_error os x = bindM (call os ''dlerror'' []) (\<lambda>r. errm (cstr (concat (texts r))) x)"

definition siod_load_so :: "kernel \<Rightarrow> string \<Rightarrow> siod_LISP \<Rightarrow> siod_LISP \<Rightarrow> siod_LISP act" where
  "siod_load_so os lib fname iname = bindM (siod_so_init_name fname iname) (\<lambda>init_name.
     bindM (siod_verbose_check 3) (\<lambda>v.
     bindM (if v \<noteq> 0 then bindM (get_c_string fname) (\<lambda>p. puts_list siod_put_st [''so-siod_loading '', p, [CHR 0x0A]])
       else ret ()) (\<lambda>_.
     bindM (find_object os lib fname) (\<lambda>fname.
     bindM (get_c_string fname) (\<lambda>p. bindM (call os ''dlopen'' [Path p, Num 1]) (\<lambda>handle.
       if result handle = 0 then dl_error os fname
       else bindM (get_c_string init_name) (\<lambda>n. bindM (call os ''dlsym'' [Num (result handle), Path n]) (\<lambda>fcn.
         if result fcn = 0 then dl_error os init_name
         else bindM (initialiser os (result handle) n) (\<lambda>_. bindM (siod_verbose_check 3) (\<lambda>v.
           bindM (if v \<noteq> 0 then siod_put_st (''done.'' @ [CHR 0x0A]) else ret ()) (\<lambda>_. ret init_name)))))))))))"

text \<open>An object is loaded once: then the symbol of its initialiser has the value true.\<close>

definition siod_require_so :: "kernel \<Rightarrow> string \<Rightarrow> siod_LISP \<Rightarrow> siod_LISP act" where
  "siod_require_so os lib fname = bindM (siod_so_init_name fname NIL) (\<lambda>init_name.
     bindM (siod_symbol_boundp init_name NIL) (\<lambda>b.
     bindM (if b = NIL then ret True else bindM (siod_symbol_value init_name NIL) (\<lambda>v. ret (v = NIL))) (\<lambda>missing.
       if missing then bindM (siod_load_so os lib fname NIL) (\<lambda>_. bindM (gets sym_t) (\<lambda>t. siod_setvar init_name t NIL))
       else ret NIL)))"

definition siod_lib_l :: "string \<Rightarrow> siod_LISP act" where
  "siod_lib_l lib = siod_rintern lib"

section \<open>Catching errors in C, and the errors of a CGI program\<close>

definition siod_ccall_catch_1 :: "siod_LISP act \<Rightarrow> siod_LISP act" where
  "siod_ccall_catch_1 fcn = bindM fcn (\<lambda>val. bindM (modifyM (\<lambda>s. s\<lparr>catch_framep := tl (catch_framep s)\<rparr>)) (\<lambda>_. ret val))"

definition siod_ccall_catch :: "siod_LISP \<Rightarrow> siod_LISP act \<Rightarrow> siod_LISP act" where
  "siod_ccall_catch tag fcn = setjmp_frame tag (siod_ccall_catch_1 fcn)"

abbreviation (input) newline :: string where "newline \<equiv> [CHR 0x0A]"
abbreviation (input) dquote :: string where "dquote \<equiv> [CHR 0x22]"

definition cgi_page :: "string list" where
  "cgi_page = [''<?xml version='' @ dquote @ ''1.0'' @ dquote @ '' encoding='' @ dquote @ ''ISO-8859-1'' @ dquote @ '' ?>'' @ newline,
     ''<HTML><HEAD><TITLE>Server Error (Application)</TITLE></HEAD>'' @ newline,
     ''<BODY><H1>Server Error (Application)</H1>'' @ newline,
     ''An application on this server has encountered an error'' @ newline,
     ''which prevents it from fulfilling your request.'', ''<P><PRE><B>Error Message:</B> '']"

definition cgi_report :: "print_lib \<Rightarrow> nat \<Rightarrow> int \<Rightarrow> siod_LISP \<Rightarrow> siod_LISP act" where
  "cgi_report lib k code res =
     bindM (if code \<noteq> 4 \<and> code \<noteq> 6 then siod_put_st (''Status: 500 Server Error (Application)'' @ newline) else ret ()) (\<lambda>_.
     bindM (siod_put_st ((if code \<noteq> 5 \<and> code \<noteq> 6 then ''Content-type: text/html'' else ''Content-type: text/xml'')
       @ newline @ newline)) (\<lambda>_.
     bindM (puts_list siod_put_st cgi_page) (\<lambda>_. bindM (siod_car res) (\<lambda>x. bindM (siod_lprint lib k x NIL) (\<lambda>_.
     bindM (siod_cdr res) (\<lambda>y.
     bindM (if y \<noteq> NIL then bindM (siod_put_st newline) (\<lambda>_. bindM (siod_cdr res) (\<lambda>y. siod_lprint lib k y NIL))
       else ret NIL) (\<lambda>_.
     bindM (siod_put_st (''</PRE></P></BODY></HTML>'' @ newline)) (\<lambda>_. errm ''cgi-main'' NIL))))))))"

definition siod_cgi_main :: "print_lib \<Rightarrow> nat \<Rightarrow> siod_LISP \<Rightarrow> siod_LISP \<Rightarrow> siod_LISP act" where
  "siod_cgi_main lib k flag res = bindM (look flag) (\<lambda>fob. bindM (look res) (\<lambda>ob.
     bindM (if is_cons ob then bindM (siod_car res) look else ret None) (\<lambda>mob. case mob of
         Some (Tc_string n b) \<Rightarrow> cgi_report lib k (case fob of Some (Tc_flonum d) \<Rightarrow> c_long d | _ \<Rightarrow> 0) res
       | _ \<Rightarrow> ret NIL)))"

section \<open>They keep the invariant\<close>

text \<open>
  A call leaves the Lisp objects alone: it changes the files, the streams and the message for errno.
\<close>

definition kernel_ok :: "kernel \<Rightarrow> bool" where
  "kernel_ok os = (\<forall>name args s. case sys os name args s of (r, s') \<Rightarrow>
       s' = s\<lparr>disk := disk s', errno_text := errno_text s', streams := streams s'\<rparr>)"

text \<open>The initialiser of a shared object can do anything; one that keeps the invariant is sound.\<close>

definition initialisers_ok :: "kernel \<Rightarrow> bool" where
  "initialisers_ok os = (\<forall>s h n. okU s (initialiser os h n))"

lemma ok_call: "kernel_ok os \<Longrightarrow> okU s (call os name args)"
proof -
  assume k: "kernel_ok os"
  obtain r s' where c: "sys os name args s = (r, s')" by fastforce
  have "case sys os name args s of (r, s') \<Rightarrow> s' = s\<lparr>disk := disk s', errno_text := errno_text s', streams := streams s'\<rparr>"
    using k by (simp add: kernel_ok_def)
  then have e: "s' = s\<lparr>disk := disk s', errno_text := errno_text s', streams := streams s'\<rparr>" using c by simp
  have w: "wf_state s' = wf_state s" "later s s'"
    by (rule wf_frame; subst e, simp add: globals_def constants_def top_level_def)+
  moreover have "catch_framep s' = catch_framep s" by (subst e) simp
  ultimately show ?thesis using c by (simp add: okM_def call_def)
qed

lemma ok_given_text: "okR s (given_text r)"
  unfolding given_text_def by (auto intro!: okM_if okM_ret okM_stop ok_strcons split: list.split)

lemma ok_errno_err: "okM s (bindM siod_llast_c_errmsg (errm m)) Q"
  by (intro okR_bind [OF ok_llast_c_errmsg] okM_err) simp

lemma ok_checked: "kernel_ok os \<Longrightarrow> okR s (checked os name args)"
  unfolding checked_def by (intro okU_bind [OF ok_call] okM_if ok_errno_err okM_ret ref_ok_NIL)

lemma ok_get_c_int: "okU s (get_c_int x)" "okU s (get_c_uint x)"
  unfolding get_c_int_def get_c_uint_def by (intro okU_bind [OF ok_get_c_long] okM_ret TrueI)+

lemma ok_number_of_call: "kernel_ok os \<Longrightarrow> okR s (number_of_call os name args)"
  unfolding number_of_call_def by (intro okU_bind [OF ok_call] ok_flocons)

lemmas system_rules = ok_call ok_given_text ok_errno_err ok_checked ok_get_c_int ok_number_of_call okM_if okM_ret okM_stop okM_err
  ok_get_c_string ok_get_c_file ok_get_c_long ok_flocons ok_strcons ok_cons ok_car ok_cdr ok_llast_c_errmsg ok_interns ok_listn
  ok_string_append ok_nreverse ok_structures(1,2) ok_decode_stat ok_mallocl ok_llength

lemma ok_gets: "okU s (gets f)"
  by (rule okM_gets) simp

lemma ok_access_mode: "ref_ok s x \<Longrightarrow> okU s (access_mode x cs m)"
  by (induction cs arbitrary: m) (auto intro!: okM_ret okM_err)

lemma ok_files:
  assumes "kernel_ok os" "list_all (ref_ok s) [x, y, z]"
  shows "okR s (siod_lsymlink os x y)" "okR s (siod_llink os x y)" "okR s (siod_lunlink os x)" "okR s (siod_lrmdir os x)"
    "okR s (siod_lmkdir os x y)" "okR s (siod_lreadlink os x)" "okR s (siod_lrename os x y)" "okR s (siod_l_chmod os x y)"
    "okR s (siod_lfchmod os x y)" "okR s (siod_lutime os x y z)" "okR s (siod_l_chown os x y z)" "okR s (siod_delete_file os x)"
    "okR s (siod_laccess_problem os x y)" "okR s (siod_lgetcwd os)"
  using assms(2)
  unfolding siod_lsymlink_def siod_llink_def siod_lunlink_def siod_lrmdir_def siod_lmkdir_def siod_lreadlink_def siod_lrename_def
    siod_l_chmod_def siod_lfchmod_def siod_lutime_def siod_l_chown_def siod_delete_file_def siod_laccess_problem_def siod_lgetcwd_def
  by - (rule system_rules assms(1) ok_gets ok_access_mode | erule okR_seq okU_seq | (simp; fail))+

lemma ok_stats:
  assumes "kernel_ok os" "list_all (ref_ok s) [x]"
  shows "okR s (siod_file_times os x)" "okR s (siod_l_stat os x)" "okR s (siod_l_lstat os x)" "okR s (siod_l_fstat os x)"
  using assms(2)
  unfolding siod_file_times_def siod_l_stat_def siod_l_lstat_def siod_g_stat_def siod_l_fstat_def
  by - (rule system_rules okM_option ok_gets | erule okR_seq okU_seq | (simp; fail))+

lemma ok_chdir:
  assumes "kernel_ok os" "ref_ok s x"
  shows "okR s (siod_lchdir os x)" "okU s (siod_get_fd os x)"
  unfolding siod_lchdir_def siod_get_fd_def using assms
  by (auto split: option.split obj.split intro!: okM_look okU_bind [OF ok_get_c_file] okU_bind [OF ok_get_c_string] ok_checked
      ok_get_c_int okM_ret)

lemma ok_number_pair: "okR s (bindM (siod_flocons i) (\<lambda>x. bindM (siod_flocons j) (\<lambda>y. siod_listn [x, y])))"
proof -
  have "list_all (ref_ok s) []" by simp
  then show ?thesis by - (rule ok_flocons ok_listn | erule okR_seq | (simp; fail))+
qed

lemma ok_locks:
  assumes "kernel_ok os" "list_all (ref_ok s) [fd, ty, w, b, n]"
  shows "okR s (siod_lF_SETLK os fd ty w b n)" "okR s (siod_lF_SETLKW os fd ty w b n)" "okR s (siod_lF_GETLK os fd ty w b n)"
proof -
  have "okR s (siod_gsetlk os op fd ty w b n)" for op
    using assms(2) unfolding siod_gsetlk_def
    by - (rule system_rules assms(1) ok_chdir(2) ok_number_pair | erule okR_seq okU_seq | (auto split: list.split intro!: okM_stop okM_ret okM_if ok_number_pair; fail))+
  then show "okR s (siod_lF_SETLK os fd ty w b n)" "okR s (siod_lF_SETLKW os fd ty w b n)" "okR s (siod_lF_GETLK os fd ty w b n)"
    by (simp_all add: siod_lF_SETLK_def siod_lF_SETLKW_def siod_lF_GETLK_def)
qed

lemma ok_user_entry: "okR s (user_entry os name args)"
proof -
  have "okR s (siod_ldecode_pwent p)" for s p
  proof -
    have "list_all (ref_ok s) []" by simp
    then show ?thesis
      unfolding siod_ldecode_pwent_def
      by - (rule ok_strcons ok_flocons ok_symalist | erule okR_seq | (simp; fail))+
  qed
  then show ?thesis
    unfolding user_entry_def by (intro okM_bind_gets okM_option okM_ret ref_ok_NIL)
qed

lemma ok_encode_pwent: "ref_ok s x \<Longrightarrow> okU s (siod_lencode_pwent x)"
proof -
  assume "ref_ok s x"
  then have "list_all (ref_ok s) [x]" by simp
  then show ?thesis
    unfolding siod_lencode_pwent_def by - (rule ok_fields okM_ret TrueI | erule okU_seq | (simp; fail))+
qed

lemma ok_cons_strings: "ref_ok s x \<Longrightarrow> okR s (cons_strings ts x)"
  by (induction ts arbitrary: s x) (auto intro!: okM_ret okR_bind [OF ok_strcons] okR_bind [OF ok_cons] intro: ref_ok_later)

lemma ok_users:
  assumes "kernel_ok os" "list_all (ref_ok s) [x, y]"
  shows "okR s (siod_lgetuid os)" "okR s (siod_lgetgid os)" "okR s (siod_lgeteuid os)" "okR s (siod_lsetuid os x)" "okR s (siod_lseteuid os x)"
    "okR s (siod_lcrypt os x y)" "okR s (siod_lgetpwuid os x)" "okR s (siod_lgetpwnam os x)" "okR s (siod_lgetpwent os)"
    "okR s (siod_lsetpwent os)" "okR s (siod_lendpwent os)" "okR s (siod_lputpwent os x y)" "okR s (siod_lgetgrgid os x)"
  using assms(2)
  unfolding siod_lgetuid_def siod_lgetgid_def siod_lgeteuid_def siod_lsetuid_def siod_lseteuid_def siod_lcrypt_def
    siod_lgetpwuid_def siod_lgetpwnam_def siod_lgetpwent_def siod_lsetpwent_def siod_lendpwent_def siod_lputpwent_def siod_lgetgrgid_def
  by - (rule system_rules assms(1) ok_user_entry ok_encode_pwent ok_cons_strings | erule okR_seq okU_seq | (simp; fail))+

lemma ok_copy_strings:
  "list_all (ref_ok s) [l, safe] \<Longrightarrow> okM s (copy_strings mem n l safe) (\<lambda>(ts, r) s'. ref_ok s' r)"
proof (induction n arbitrary: s l safe)
  case 0
  then show ?case unfolding copy_strings.simps by - (rule okM_ret, simp)
next
  case (Suc n)
  have ext: "okM s (bindM (copy_strings mem n l' r') (\<lambda>(ts, r). ret (t # ts, r))) (\<lambda>(ts, r) s'. ref_ok s' r)"
    if "list_all (ref_ok s) [l', r']" for s l' r' t
    by (rule okM_bind [OF Suc.IH [OF that]]) (auto intro: okM_ret)
  show ?case
    unfolding copy_strings.simps using Suc.prems
    by - (rule system_rules ext | erule okR_seq okU_seq | (simp; fail))+
qed

lemma ok_list2char:
  assumes "ref_ok s safe" "ref_ok s x" shows "okM s (list2char mem safe x) (\<lambda>(ts, r) s'. ref_ok s' r)"
proof -
  have l: "list_all (ref_ok s) [safe, x]" using assms by simp
  show ?thesis
    unfolding list2char_def using l by - (rule system_rules ok_copy_strings | erule okR_seq okU_seq | (simp; fail))+
qed

lemma ok_exec:
  assumes "kernel_ok os" "ref_ok s path" "ref_ok s x" "ref_ok s env"
  shows "okR s (siod_lexec mem os path x env)"
  unfolding siod_lexec_def
  using assms
  by (auto intro!: okM_bind [OF ok_list2char] okU_bind [OF okM_if] okU_bind [OF ok_get_c_string] okU_bind [OF ok_call]
      okM_ret ok_call ok_errno_err okU_bind [OF okM_weaken [OF ok_list2char]] intro: ref_ok_later)

lemma ok_processes:
  assumes "kernel_ok os" "list_all (ref_ok s) [x, y]"
  shows "okR s (siod_lsystem os x)" "okR s (siod_lgetpid os)" "okR s (siod_lgetpgrp os)" "okR s (siod_lgetppid os)"
    "okR s (siod_lsetpgid os x y)" "okR s (siod_lfork os)" "okR s (siod_lnice os x)" "okR s (siod_lkill os x y)"
    "okR s (siod_lputenv os x)" "okR s (siod_lgetenv os x)" "okR s (siod_lgetpass os x)" "okR s (siod_lrandom os x)"
    "okR s (siod_lsrandom os x)"
  using assms(2)
  unfolding siod_lsystem_def siod_lgetpid_def siod_lgetpgrp_def siod_lgetppid_def siod_lsetpgid_def siod_lfork_def siod_lnice_def
    siod_lkill_def siod_lputenv_def siod_lgetenv_def siod_lgetpass_def siod_lrandom_def siod_lsrandom_def
  by - (rule system_rules assms(1) | erule okR_seq okU_seq | (simp; fail))+

lemma ok_wait:
  assumes "kernel_ok os" "ref_ok s x" "ref_ok s y" shows "okR s (siod_lwait os x y)"
  unfolding siod_lwait_def
proof (rule okU_bind)
  show "okU s (if x = NIL then ret (- 1) else get_c_int x)" by (intro okM_if okM_ret ok_get_c_int TrueI)
  fix pid s' assume "later s s'"
  then have "list_all (ref_ok s') [y]" using assms(3) ref_ok_later by simp
  then show "okR s' (bindM (siod_assemble_options y wait_options) (\<lambda>options.
     bindM (call os ''waitpid'' [Num pid, Num (int options)]) (\<lambda>r.
       if result r = 0 then ret NIL
       else if result r = - 1 then bindM siod_llast_c_errmsg (errm ''wait'')
       else bindM (siod_flocons (of_long (result r))) (\<lambda>p.
         bindM (siod_flocons (of_long (case numbers r of status # _ \<Rightarrow> status | [] \<Rightarrow> 0))) (\<lambda>status.
         bindM (siod_cons status NIL) (siod_cons p))))))"
    by - (rule system_rules assms(1) ok_assemble_options | erule okR_seq okU_seq | (simp; fail))+
qed

lemma ok_numbers: "okR s (siod_lsleep os x)" "okR s (siod_ltrunc x)" if "kernel_ok os"
  unfolding siod_lsleep_def siod_ltrunc_def
  by (auto intro!: okU_bind [OF ok_flonm] ok_flocons okM_stop okM_if okU_bind [OF ok_call [OF that]] okM_ret split: option.split)

lemma ok_time_arg: "kernel_ok os \<Longrightarrow> okU s (time_arg os x)"
  unfolding time_arg_def by (intro okM_if ok_get_c_long okU_bind [OF ok_call] okM_ret TrueI)

lemma ok_clock:
  assumes "kernel_ok os"
  shows "okR s (siod_unix_time os)" "okR s (siod_unix_ctime os x)" "okR s (siod_http_date os x)" "okR s (siod_utime2str os x)"
    "okR s (siod_llocaltime os x)" "okR s (siod_lgmtime os x)" "okR s (siod_ltzset os)"
  unfolding siod_unix_time_def siod_unix_ctime_def siod_http_date_def siod_utime2str_def siod_llocaltime_def siod_lgmtime_def
    siod_ltzset_def
  by (intro okU_bind [OF ok_time_arg [OF assms]] okU_bind [OF ok_get_c_long] okU_bind [OF ok_call [OF assms]] okM_option okM_ret
      okM_stop ok_strcons ok_structures(1) ok_errno_err ok_number_of_call assms ref_ok_NIL)+

lemma ok_calendar:
  assumes "kernel_ok os" "ref_ok s x" "ref_ok s y" "ref_ok s z"
  shows "okR s (siod_lmktime os x)" "okR s (siod_lstrptime os x y z)" "okR s (siod_lstrftime os x y)"
proof -
  show "okR s (siod_lmktime os x)" "okR s (siod_lstrptime os x y z)"
    unfolding siod_lmktime_def siod_lstrptime_def
    by (intro okU_bind [OF ok_encode_tm] okU_bind [OF ok_get_c_string] assms ok_flocons okM_option okM_ret ok_structures(1) ref_ok_NIL)+
  have "okU s (if y \<noteq> NIL then bindM (siod_encode_tm y) (\<lambda>t. ret (Some t))
       else bindM (call os ''time'' []) (\<lambda>r. ret (gm_time os (result r))))"
    by (intro okM_if okU_bind [OF ok_encode_tm] okU_bind [OF ok_call] assms okM_ret TrueI)
  then show "okR s (siod_lstrftime os x y)"
    unfolding siod_lstrftime_def
    by (rule okU_bind)
      (auto intro!: okU_bind [OF ok_get_c_string] okM_ret okM_if ok_strcons simp: Let_def split: option.split)
qed

lemma ok_so_init_name: "ref_ok s fname \<Longrightarrow> ref_ok s iname \<Longrightarrow> okR s (siod_so_init_name fname iname)"
proof -
  assume "ref_ok s fname" "ref_ok s iname"
  then have "list_all (ref_ok s) [fname, iname]" by simp
  then show ?thesis
    unfolding siod_so_init_name_def
    by - (rule okM_if okM_ret ok_interns ok_strbreakup ok_last ok_car ok_butlast ok_strunbreakup ok_listn ok_string_append
      | erule okR_seq | (simp; fail))+
qed

lemma ok_so_ext: "ref_ok s fname \<Longrightarrow> okR s (siod_so_ext fname)"
proof -
  assume "ref_ok s fname"
  then have "list_all (ref_ok s) [fname]" by simp
  then show ?thesis
    unfolding siod_so_ext_def by - (rule okM_if okM_ret ok_listn ok_string_append ok_strcons | erule okR_seq | (simp; fail))+
qed

lemma ok_load_so:
  assumes "kernel_ok os" "initialisers_ok os" "ref_ok s fname" "ref_ok s iname" shows "okR s (siod_load_so os lib fname iname)"
proof -
  have l: "list_all (ref_ok s) [fname, iname]" using assms by simp
  have i: "okU s (initialiser os h n)" for s h n using assms(2) by (simp add: initialisers_ok_def)
  have p: "okU s (siod_put_st t)" for s t by (simp add: siod_put_st_def ok_fput_st)
  have d: "list_all (ref_ok s) [x] \<Longrightarrow> okR s (dl_error os x)" for s x
    unfolding dl_error_def by - (rule ok_call [OF assms(1)] okM_err | erule okU_seq | (simp; fail))+
  have f: "list_all (ref_ok s) [x] \<Longrightarrow> okR s (find_object os lib x)" for s x
    unfolding find_object_def by - (rule system_rules assms(1) | erule okU_seq okR_seq | (simp; fail))+
  show ?thesis
    unfolding siod_load_so_def using l
    by - (rule ok_so_init_name ok_verbose_check ok_puts_list_put_st i p d f system_rules assms(1) | erule okU_seq okR_seq | (simp; fail))+
qed

lemma ok_require_so:
  assumes "kernel_ok os" "initialisers_ok os" "ref_ok s fname" shows "okR s (siod_require_so os lib fname)" "okR s (siod_lib_l lib)"
proof -
  have l: "list_all (ref_ok s) [fname]" using assms by simp
  have t: "list_all (ref_ok s) [x] \<Longrightarrow> okR s (bindM (gets sym_t) (\<lambda>t. siod_setvar x t NIL))" for s x
    by (rule okM_wf) (auto intro!: okM_bind_gets ok_setvar wf_global_refs)
  show "okR s (siod_require_so os lib fname)"
    unfolding siod_require_so_def using l
    by - (rule ok_so_init_name ok_symbol_boundp ok_symbol_value t ok_load_so assms(1,2) okM_if okM_ret | erule okU_seq okR_seq | (simp; fail))+
  show "okR s (siod_lib_l lib)" unfolding siod_lib_l_def by (rule ok_interns)
qed

lemma ok_ccall_catch:
  assumes "ref_ok s tag" "okR (s\<lparr>catch_framep := tag # catch_framep s\<rparr>) fcn"
  shows "okR s (siod_ccall_catch tag fcn)"
  unfolding siod_ccall_catch_def siod_ccall_catch_1_def by (rule ok_setjmp [OF assms])

lemma ok_cgi_report: "list_all (ref_ok s) [x] \<Longrightarrow> okR s (cgi_report lib k code x)"
proof -
  have p: "okU s (siod_put_st t)" for s t by (simp add: siod_put_st_def ok_fput_st)
  show "list_all (ref_ok s) [x] \<Longrightarrow> okR s (cgi_report lib k code x)"
    unfolding cgi_report_def
    by - (rule p ok_puts_list_put_st ok_car ok_cdr ok_console(1) okM_if okM_ret okM_err TrueI | erule okU_seq okR_seq | (simp; fail))+
qed

lemma ok_cgi_main: "ref_ok s x \<Longrightarrow> okR s (siod_cgi_main lib k flag x)"
proof -
  assume "ref_ok s x"
  then have "list_all (ref_ok s) [x]" by simp
  moreover have "okU s (if is_cons ob then bindM (siod_car x) look else ret None)" for s ob
    by (intro okM_if okR_bind [OF ok_car] okM_ret TrueI) (auto simp: look_def okM_def split: siod_LISP.split)
  ultimately show ?thesis
    unfolding siod_cgi_main_def
    by - (erule okM_look_seq okU_seq | assumption | rule okM_option okM_ret | (auto split: obj.split intro!: ok_cgi_report okM_ret; fail))+
qed

text \<open>
  The operations of the system interface, on their arguments.  Loading a shared object is none of them, since it runs code
  that is not of the program.
\<close>

definition system_operations :: "kernel \<Rightarrow> memory \<Rightarrow> siod_LISP \<Rightarrow> siod_LISP \<Rightarrow> siod_LISP \<Rightarrow> siod_LISP \<Rightarrow> siod_LISP \<Rightarrow>
    siod_LISP act list" where
  "system_operations os mem x y z p q =
    [siod_lsymlink os x y, siod_llink os x y, siod_lunlink os x, siod_lrmdir os x, siod_lmkdir os x y, siod_lreadlink os x,
     siod_lrename os x y, siod_l_chmod os x y, siod_lfchmod os x y, siod_lutime os x y z, siod_l_chown os x y z,
     siod_delete_file os x, siod_laccess_problem os x y, siod_lgetcwd os, siod_lchdir os x, siod_file_times os x,
     siod_l_stat os x, siod_l_lstat os x, siod_l_fstat os x, siod_lgetuid os, siod_lgetgid os, siod_lgeteuid os,
     siod_lsetuid os x, siod_lseteuid os x, siod_lcrypt os x y, siod_lgetpwuid os x, siod_lgetpwnam os x, siod_lgetpwent os,
     siod_lsetpwent os, siod_lendpwent os, siod_lputpwent os x y, siod_lgetgrgid os x, siod_lsystem os x, siod_lgetpid os,
     siod_lgetpgrp os, siod_lgetppid os, siod_lsetpgid os x y, siod_lfork os, siod_lexec mem os x y z, siod_lnice os x,
     siod_lwait os x y, siod_lkill os x y, siod_lputenv os x, siod_lgetenv os x, siod_lgetpass os x, siod_lrandom os x,
     siod_lsrandom os x, siod_lsleep os x, siod_unix_time os, siod_unix_ctime os x, siod_http_date os x, siod_utime2str os x,
     siod_llocaltime os x, siod_lgmtime os x, siod_ltzset os, siod_lmktime os x, siod_lstrptime os x y z, siod_lstrftime os x y,
     siod_lF_SETLK os x y z p q, siod_lF_SETLKW os x y z p q, siod_lF_GETLK os x y z p q]"

lemma ok_system_operations:
  assumes "kernel_ok os" "ref_ok s x" "ref_ok s y" "ref_ok s z" "ref_ok s p" "ref_ok s q"
  shows "list_all (okR s) (system_operations os mem x y z p q)"
  unfolding system_operations_def
  using ok_files [OF assms(1), of s x y z] ok_stats [OF assms(1), of s x] ok_chdir(1) [OF assms(1,2)] ok_users [OF assms(1), of s x y]
    ok_processes [OF assms(1), of s x y] ok_exec [OF assms(1-4), of mem] ok_wait [OF assms(1,2,3)] ok_numbers [OF assms(1), of s x]
    ok_calendar [OF assms(1-4)] ok_locks [OF assms(1), of s x y z p q]
  by (simp add: assms ok_clock [OF assms(1)])

text \<open>
  C34. The system interface keeps the store well-formed.  Whatever the operating system answers, as long as its calls change
  nothing of the program but the files, the streams and the message for errno, each operation of the interface, locks included, leaves a store
  without dangling pointers, where cells have their types and symbols their names, and it returns a valid object with the
  stack of catch frames as it was, or reports an error to a frame of that stack.
\<close>

theorem system_keeps_invariant:
  assumes "kernel_ok os" "wf_state s" "list_all (ref_ok s) [x, y, z, p, q]" "m \<in> set (system_operations os mem x y z p q)"
    "m s = (r, s')"
  shows "wf_state s' \<and> later s s' \<and> (case r of Ret v \<Rightarrow> ref_ok s' v \<and> catch_framep s' = catch_framep s
    | Jump k v \<Rightarrow> ref_ok s' v \<and> k < length (catch_framep s) | _ \<Rightarrow> True)"
  using ok_system_operations [OF assms(1), of s x y z p q mem] assms(2-5) by (auto simp: list_all_iff okM_def)

section \<open>Dates\<close>

lemma digits_zeros: "digits_value (replicate k (CHR ''0'') @ t) = digits_value t"
  by (induction k) (simp_all add: digits_value_def digit_value_def)

lemma zeros_digits:
  assumes "0 \<le> i" "i < 10 ^ Suc k"
  shows "length (zeros (Suc k) i) = Suc k" "digits_value (zeros (Suc k) i) = i"
proof -
  have z: "zeros (Suc k) i = replicate (Suc k - length (nat_digits (nat i))) (CHR ''0'') @ nat_digits (nat i)"
    using assms(1) hd_digits by (simp add: zeros_def pad_zeros_def long_digits_def)
  have "nat i < 10 ^ Suc k" using assms by (simp add: nat_less_iff)
  then have "length (nat_digits (nat i)) \<le> Suc k" by (rule nat_digits_length)
  then show "length (zeros (Suc k) i) = Suc k" using z by simp
  show "digits_value (zeros (Suc k) i) = i" using z assms(1) by (simp add: digits_zeros)
qed

lemma zeros_2: "0 \<le> i \<Longrightarrow> i < 100 \<Longrightarrow> length (zeros 2 i) = 2 \<and> digits_value (zeros 2 i) = i"
  using zeros_digits [of i 1] by (simp add: numeral_2_eq_2)

lemma zeros_4: "0 \<le> i \<Longrightarrow> i < 10000 \<Longrightarrow> length (zeros 4 i) = 4 \<and> digits_value (zeros 4 i) = i"
  using zeros_digits [of i 3] by (simp add: numeral_eq_Suc)

definition part :: "nat \<Rightarrow> nat \<Rightarrow> char list \<Rightarrow> char list" where
  "part k n t = take n (drop k t)"

text \<open>
  C35. http-date of a time from the year 0 to the year 9999 gives a string of 29 characters in the format of RFC 1123, from
  which the calendar fields of the time can be read back.
\<close>

theorem http_date_fields:
  assumes "siod_get_c_long v s = (Ret b, s)" "v \<noteq> NIL" "gm_time os b = Some t"
    "0 \<le> tm_wday t \<and> tm_wday t < 7" "0 \<le> tm_mon t \<and> tm_mon t < 12" "0 \<le> tm_year t + 1900 \<and> tm_year t + 1900 < 10000"
    "list_all (\<lambda>i. 0 \<le> i \<and> i < 100) [tm_mday t, tm_hour t, tm_min t, tm_sec t]"
  shows "\<exists>buff. siod_http_date os v s = siod_strcons buff s \<and> length buff = 29 \<and>
    part 0 3 buff = week_days ! nat (tm_wday t) \<and> digits_value (part 5 2 buff) = tm_mday t \<and>
    part 8 3 buff = month_names ! nat (tm_mon t) \<and> digits_value (part 12 4 buff) = tm_year t + 1900 \<and>
    digits_value (part 17 2 buff) = tm_hour t \<and> digits_value (part 20 2 buff) = tm_min t \<and>
    digits_value (part 23 2 buff) = tm_sec t \<and> drop 25 buff = '' GMT''"
proof -
  have "list_all (\<lambda>d. length d = 3) week_days" "list_all (\<lambda>d. length d = 3) month_names" "length week_days = 7" "length month_names = 12"
    by (simp_all add: week_days_def month_names_def)
  then have names: "length (week_days ! nat (tm_wday t)) = 3" "length (month_names ! nat (tm_mon t)) = 3"
    using assms(4,5) by (simp_all add: list_all_length nat_less_iff)
  obtain buff where b: "date_text t = Some buff" "buff = week_days ! nat (tm_wday t) @ '', '' @ zeros 2 (tm_mday t) @ '' '' @
       month_names ! nat (tm_mon t) @ '' '' @ zeros 4 (tm_year t + 1900) @ '' '' @ zeros 2 (tm_hour t) @ '':'' @ zeros 2 (tm_min t) @
       '':'' @ zeros 2 (tm_sec t) @ '' GMT''"
    using assms(4-6) by (auto simp: date_text_def year_text_def)
  note z = zeros_2 [of "tm_mday t"] zeros_2 [of "tm_hour t"] zeros_2 [of "tm_min t"] zeros_2 [of "tm_sec t"] zeros_4 [of "tm_year t + 1900"]
  have "siod_http_date os v s = siod_strcons buff s"
    using assms(1-3) b(1) by (simp add: siod_http_date_def time_arg_def bind_run)
  then show ?thesis
    using assms(6,7) names z by (intro exI [of _ buff]) (simp add: b(2) part_def)
qed

text \<open>A system that can remove files and knows one time.\<close>

definition small_kernel :: kernel where
  "small_kernel = \<lparr>sys = (\<lambda>name args s. case args of
       [Path p] \<Rightarrow> if name = ''unlink'' \<and> disk s p \<noteq> None then (\<lparr>result = 0, numbers = [], texts = []\<rparr>, s\<lparr>disk := (disk s)(p := None)\<rparr>)
         else (\<lparr>result = - 1, numbers = [], texts = []\<rparr>, s\<lparr>errno_text := ''No such file or directory''\<rparr>)
     | _ \<Rightarrow> (\<lparr>result = - 1, numbers = [], texts = []\<rparr>, s)),
     stat_of = (\<lambda>_ _ _. None), passwd_of = (\<lambda>_ _ _. None),
     gm_time = [784111777 \<mapsto> \<lparr>tm_sec = 37, tm_min = 49, tm_hour = 8, tm_mday = 6, tm_mon = 10, tm_year = 94, tm_wday = 0,
       tm_yday = 309, tm_isdst = 0\<rparr>], local_time = (\<lambda>_. None), make_time = (\<lambda>_. 0), parse_time = (\<lambda>_ _ _. None),
     format_time = (\<lambda>_ _ _. []), c_time = (\<lambda>_. None), file_no = int, initialiser = (\<lambda>_ _. ret ())\<rparr>"

lemma small_kernel_ok: "kernel_ok small_kernel"
  by (auto simp: kernel_ok_def small_kernel_def okM_ret split: list.split sys_arg.split)

theorem http_date_fields_witness:
  "\<exists>buff. siod_http_date small_kernel (Ref 1) (small_state [Tc_flonum (of_long 784111777)]) =
     siod_strcons buff (small_state [Tc_flonum (of_long 784111777)]) \<and> length buff = 29 \<and> digits_value (part 12 4 buff) = 1994"
proof -
  let ?s = "small_state [Tc_flonum (of_long 784111777)]"
  have "siod_get_c_long (Ref 1) ?s = (Ret 784111777, ?s)"
    by (simp add: siod_get_c_long_def bind_run flonm_run obj_at_def small_state_def c_long_of_long)
  from http_date_fields [OF this, of small_kernel] show ?thesis by (fastforce simp: small_kernel_def)
qed

text \<open>Removing a file, and then the error that it does not exist.\<close>

theorem system_keeps_invariant_witness:
  "\<forall>mem. (let s = (small_state [string_cell ''f''])\<lparr>disk := [''f'' \<mapsto> ''text'']\<rparr> in
     siod_lunlink small_kernel (Ref 1) s = (Ret NIL, s\<lparr>disk := Map.empty\<rparr>) \<and> wf_state (s\<lparr>disk := Map.empty\<rparr>) \<and>
     siod_lunlink small_kernel (Ref 1) s = (system_operations small_kernel mem (Ref 1) NIL NIL NIL NIL ! 2) s)"
proof (intro allI)
  fix mem
  let ?s = "(small_state [string_cell ''f''])\<lparr>disk := [''f'' \<mapsto> ''text'']\<rparr>"
  let ?m = "system_operations small_kernel mem (Ref 1) NIL NIL NIL NIL ! 2"
  have "wf_state (small_state [string_cell ''f''])" by (rule wf_small_state) (simp add: string_cell_def)
  then have w: "wf_state ?s" by simp
  have r: "siod_lunlink small_kernel (Ref 1) ?s = (Ret NIL, ?s\<lparr>disk := Map.empty\<rparr>)"
    by (simp add: siod_lunlink_def get_c_string_def bind_run obj_at_look obj_at_def small_state_def string_cell_def cstr_def
        checked_def call_def small_kernel_def ret_def)
  have m: "?m = siod_lunlink small_kernel (Ref 1)" "?m \<in> set (system_operations small_kernel mem (Ref 1) NIL NIL NIL NIL)"
    by (simp_all add: system_operations_def)
  have "?m ?s = (Ret NIL, ?s\<lparr>disk := Map.empty\<rparr>)" using r m(1) by simp
  moreover have "list_all (ref_ok ?s) [Ref 1, NIL, NIL, NIL, NIL]" by (simp add: ref_ok_def small_state_def)
  ultimately have "wf_state (?s\<lparr>disk := Map.empty\<rparr>)" using system_keeps_invariant [OF small_kernel_ok w _ m(2)] by blast
  then show "let s = ?s in siod_lunlink small_kernel (Ref 1) s = (Ret NIL, s\<lparr>disk := Map.empty\<rparr>) \<and> wf_state (s\<lparr>disk := Map.empty\<rparr>) \<and>
     siod_lunlink small_kernel (Ref 1) s = ?m s"
    unfolding Let_def using r m(1) by simp
qed

end
