(* ===== verification/Md5_Lisp.thy ===== *)
theory Md5_Lisp
  imports Md5 Fasl Load_Facts
begin

text \<open>
  Message digests of Lisp objects and files (slibu.c): the context of md5.c is the memory of a byte array.  The number of
  bits of a word of the context is that of UINT4, as in md5.c.
\<close>

section \<open>A context in memory\<close>

definition byte_of :: "char \<Rightarrow> 8 word" where "byte_of c = word_of_nat (of_char c)"

definition char_of_byte :: "8 word \<Rightarrow> char" where "char_of_byte b = char_of (unat b)"

definition word_bytes :: "('w :: len) word \<Rightarrow> char list" where
  "word_bytes w = map (\<lambda>j. char_of ((uint w div 256 ^ j) mod 256)) [0..<LENGTH('w) div 8]"

definition bytes_word :: "char list \<Rightarrow> ('w :: len) word" where
  "bytes_word bs = word_of_nat (le_value bs)"

definition ctx_size :: "('w :: len) itself \<Rightarrow> nat" where
  "ctx_size w = 6 * (LENGTH('w) div 8) + 64"

definition ctx_bytes :: "('w :: len) MD5_CTX \<Rightarrow> char list" where
  "ctx_bytes ctx = (case md_state ctx of (a, b, c, d) \<Rightarrow>
     concat (map word_bytes [a, b, c, d, md_count0 ctx, md_count1 ctx]) @ map char_of_byte (md_buffer ctx))"

definition ctx_of :: "char list \<Rightarrow> ('w :: len) MD5_CTX" where
  "ctx_of bs = (let n = LENGTH('w) div 8; w = (\<lambda>i. bytes_word (take n (drop (i * n) bs)))
     in \<lparr>md_state = (w 0, w 1, w 2, w 3), md_count0 = w 4, md_count1 = w 5,
         md_buffer = map byte_of (take 64 (drop (6 * n) bs))\<rparr>)"

definition siod_get_md5_ctx :: "siod_LISP \<Rightarrow> ('w :: len) MD5_CTX act" where
  "siod_get_md5_ctx a = bindM (look a) (\<lambda>ob. case ob of
       Some (Tc_byte_array n b) \<Rightarrow>
         if n = ctx_size TYPE('w) then (if length b < n then undef else ret (ctx_of b)) else errm ''not an MD5_CTX array'' a
     | _ \<Rightarrow> errm ''not an MD5_CTX array'' a)"

definition put_md5_ctx :: "siod_LISP \<Rightarrow> ('w :: len) MD5_CTX \<Rightarrow> unit act" where
  "put_md5_ctx a ctx = store a (Tc_byte_array (ctx_size TYPE('w)) (ctx_bytes ctx))"

section \<open>Operations\<close>

definition siod_md5_init :: "('w :: len) itself \<Rightarrow> memory \<Rightarrow> siod_LISP act" where
  "siod_md5_init w mem = bindM (siod_ar_cons mem 18 (ctx_size w) True) (\<lambda>a. bindM (siod_get_md5_ctx a) (\<lambda>ctx.
     bindM (put_md5_ctx a (MD5Init (ctx :: 'w MD5_CTX))) (\<lambda>_. ret a)))"

text \<open>One update of the context; the length is an unsigned int.\<close>

definition update_ctx :: "('w :: len) itself \<Rightarrow> siod_LISP \<Rightarrow> char list \<Rightarrow> unit act" where
  "update_ctx w a t = bindM (siod_get_md5_ctx a) (\<lambda>ctx.
     case MD5Update (ctx :: 'w MD5_CTX) (map byte_of (take (length t mod 2 ^ 32) t)) of
       None \<Rightarrow> undef
     | Some ctx' \<Rightarrow> put_md5_ctx a ctx')"

text \<open>An object whose memory starts with the given bytes.\<close>

fun overwritten :: "obj \<Rightarrow> char list \<Rightarrow> obj" where
  "overwritten (Tc_string n b) t = Tc_string n (t @ drop (length t) b)"
| "overwritten (Tc_byte_array n b) t = Tc_byte_array n (t @ drop (length t) b)"
| "overwritten (Tc_symbol p v) t = Tc_symbol (cstr (t @ drop (length t) p @ [NUL])) v"
| "overwritten (Tc_long_array xs) t =
     Tc_long_array (map long_of (chunks 8 (length xs) (t @ drop (length t) (concat (map long_bytes xs)))))"
| "overwritten ob t = ob"

text \<open>The pieces of a file go through the memory of the object str; the number bounds the number of pieces.\<close>

fun siod_md5_update_from_file :: "nat \<Rightarrow> ('w :: len) itself \<Rightarrow> siod_LISP \<Rightarrow> nat \<Rightarrow> siod_LISP \<Rightarrow> nat \<Rightarrow> unit act" where
  "siod_md5_update_from_file 0 w ctx f str dim = nofuel"
| "siod_md5_update_from_file (Suc k) w ctx f str dim = bindM (c_fread dim f) (\<lambda>t.
     if t = [] then ret ()
     else bindM (look str) (\<lambda>ob. case ob of
         None \<Rightarrow> undef
       | Some ob \<Rightarrow> bindM (store str (overwritten ob t)) (\<lambda>_. bindM (update_ctx w ctx t) (\<lambda>_.
           siod_md5_update_from_file k w ctx f str dim))))"

text \<open>A context that is its own input is left open.\<close>

definition siod_md5_update :: "('w :: len) itself \<Rightarrow> siod_LISP \<Rightarrow> siod_LISP \<Rightarrow> siod_LISP \<Rightarrow> siod_LISP act" where
  "siod_md5_update w ctx str len = bindM (get_c_siod_string_dim str) (\<lambda>buffer. bindM (look len) (\<lambda>lob.
     if str = ctx then undef
     else case lob of
       Some (Tc_c_file name fp) \<Rightarrow> bindM (siod_get_md5_ctx ctx :: 'w MD5_CTX act) (\<lambda>_. bindM (siod_get_c_file len None) (\<lambda>f.
         bindM (on_stream f (\<lambda>st. gets (\<lambda>s. Suc (length (ahead s st))))) (\<lambda>k.
         bindM (siod_md5_update_from_file k w ctx f str (length buffer)) (\<lambda>_. ret NIL))))
     | None \<Rightarrow> bindM (update_ctx w ctx buffer) (\<lambda>_. ret NIL)
     | _ \<Rightarrow> bindM (siod_get_c_long len) (\<lambda>n.
         if n < 0 \<or> int (length buffer) < n then errm ''invalid length for string'' len
         else bindM (update_ctx w ctx (take (nat n) buffer)) (\<lambda>_. ret NIL))))"

definition siod_md5_final :: "('w :: len) itself \<Rightarrow> memory \<Rightarrow> siod_LISP \<Rightarrow> siod_LISP act" where
  "siod_md5_final w mem ctx = bindM (siod_ar_cons mem 18 16 False) (\<lambda>res. bindM (siod_get_md5_ctx ctx) (\<lambda>c.
     case MD5Final (c :: 'w MD5_CTX) of
       None \<Rightarrow> undef
     | Some (digest, c') \<Rightarrow> bindM (store res (Tc_byte_array 16 (map char_of_byte digest))) (\<lambda>_.
         bindM (put_md5_ctx ctx c') (\<lambda>_. ret res))))"

section \<open>A context and its memory\<close>

lemma byte_char: "byte_of (char_of_byte b) = b"
proof -
  have "unat b < 2 ^ LENGTH(8)" by (rule unsigned_less)
  then have "unat b < 256" by simp
  then show ?thesis by (simp add: byte_of_def char_of_byte_def)
qed

lemma length_word_bytes [simp]: "length (word_bytes (w :: 32 word)) = 4"
  by (simp add: word_bytes_def)

lemma word_bytes_word [simp]: "bytes_word (word_bytes (w :: 32 word)) = w"
proof -
  have "int (le_value (word_bytes w)) = uint w mod 256 ^ 4"
    unfolding word_bytes_def using le_value_bytes [of "uint w" 4] by simp
  moreover have "uint w < 2 ^ LENGTH(32)" by (rule unsigned_less)
  then have "0 \<le> uint w" "uint w < 256 ^ 4" by simp_all
  ultimately have "int (le_value (word_bytes w)) = uint w" by (simp add: mod_pos_pos_trivial)
  then have "word_of_int (int (le_value (word_bytes w))) = w" by simp
  then show ?thesis by (simp only: bytes_word_def of_int_of_nat_eq)
qed

lemma word_slice:
  "k < length ws \<Longrightarrow> take 4 (drop (k * 4) (concat (map word_bytes (ws :: 32 word list)) @ r)) = word_bytes (ws ! k)"
proof (induction ws arbitrary: k)
  case (Cons x xs)
  then show ?case by (cases k) (simp_all add: add.commute)
qed simp

lemma length_words: "length (concat (map word_bytes (ws :: 32 word list))) = 4 * length ws"
  by (induction ws) simp_all

lemma ctx_memory:
  fixes ctx :: "32 MD5_CTX"
  assumes "length (md_buffer ctx) = 64"
  shows "ctx_of (ctx_bytes ctx) = ctx" "length (ctx_bytes ctx) = ctx_size TYPE(32)"
proof -
  obtain a b c d where st: "md_state ctx = (a, b, c, d)" by (cases "md_state ctx")
  let ?ws = "[a, b, c, d, md_count0 ctx, md_count1 ctx]" and ?r = "map char_of_byte (md_buffer ctx)"
  have c: "ctx_bytes ctx = concat (map word_bytes ?ws) @ ?r" by (simp only: ctx_bytes_def st prod.case)
  have l: "length (concat (map word_bytes ?ws)) = 24" using length_words [of ?ws] by simp
  then show "length (ctx_bytes ctx) = ctx_size TYPE(32)" using assms by (simp only: c) (simp add: ctx_size_def)
  have "take 64 (drop 24 (ctx_bytes ctx)) = ?r" using l assms by (simp only: c) simp
  then have b: "map byte_of (take 64 (drop 24 (ctx_bytes ctx))) = md_buffer ctx" by (simp add: o_def byte_char)
  have w: "bytes_word (take 4 (drop (k * 4) (ctx_bytes ctx))) = ?ws ! k" if "k < 6" for k
    using word_slice [of k ?ws ?r] that unfolding c by simp
  show "ctx_of (ctx_bytes ctx) = ctx"
    using w [of 0] w [of 1] w [of 2] w [of 3] w [of 4] w [of 5] b st by (simp add: ctx_of_def Let_def)
qed

section \<open>Running the operations\<close>

text \<open>The cell a holds a context to which the message msg was given.\<close>

definition holds :: "siod \<Rightarrow> siod_LISP \<Rightarrow> char list \<Rightarrow> bool" where
  "holds s a msg = (\<exists>ctx :: 32 MD5_CTX. obj_at s a = Some (Tc_byte_array (ctx_size TYPE(32)) (ctx_bytes ctx)) \<and> after (map byte_of msg) ctx)"

lemma get_held: 
  assumes "obj_at s a = Some (Tc_byte_array (ctx_size TYPE(32)) (ctx_bytes ctx))" "after msg ctx"
  shows "(siod_get_md5_ctx a :: 32 MD5_CTX act) s = (Ret ctx, s)"
  using assms ctx_memory [of ctx] by (simp add: siod_get_md5_ctx_def bind_run obj_at_look after_def)

definition with_cell :: "siod_LISP \<Rightarrow> obj \<Rightarrow> siod \<Rightarrow> siod" where
  "with_cell r ob s = (case r of Ref a \<Rightarrow> set_cell a ob s | NIL \<Rightarrow> s)"

lemma store_run: "obj_at s r = Some ob0 \<Longrightarrow> store r ob s = (Ret (), with_cell r ob s)"
  by (auto simp: store_def with_cell_def obj_at_def split: siod_LISP.splits if_splits)

lemma with_cell_obj: "obj_at s r = Some ob0 \<Longrightarrow> obj_at (with_cell r ob s) y = (if y = r then Some ob else obj_at s y)"
  by (cases r; cases y) (auto simp: with_cell_def obj_at_def set_cell_def split: if_splits)

lemma with_cell_files [simp]: "streams (with_cell r ob s) = streams s" "disk (with_cell r ob s) = disk s"
  "length (cells (with_cell r ob s)) = length (cells s)" "heap_size (with_cell r ob s) = heap_size s"
  by (cases r; simp add: with_cell_def set_cell_def)+

lemma update_ctx_run:
  assumes "holds s a msg" "length t + 64 \<le> 2 ^ 32"
  shows "\<exists>ob. update_ctx TYPE(32) a t s = (Ret (), with_cell a ob s) \<and> holds (with_cell a ob s) a (msg @ t)"
proof -
  obtain ctx :: "32 MD5_CTX" where c: "obj_at s a = Some (Tc_byte_array (ctx_size TYPE(32)) (ctx_bytes ctx))" "after (map byte_of msg) ctx"
    using assms(1) by (auto simp: holds_def)
  have t: "take (length t mod 2 ^ 32) t = t" using assms(2) by simp
  have "length (map byte_of t) + 64 \<le> 2 ^ 32" using assms(2) by simp
  then obtain ctx' where u: "MD5Update ctx (map byte_of t) = Some ctx'" "after (map byte_of msg @ map byte_of t) ctx'"
    using update_run [OF c(2)] by blast
  let ?ob = "Tc_byte_array (ctx_size TYPE(32)) (ctx_bytes ctx')"
  have "update_ctx TYPE(32) a t s = (Ret (), with_cell a ?ob s)"
    unfolding update_ctx_def t using get_held [OF c] u(1) store_run [OF c(1)] by (simp add: bind_run put_md5_ctx_def)
  moreover have "holds (with_cell a ?ob s) a (msg @ t)"
    using u(2) with_cell_obj [OF c(1)] by (auto simp: holds_def)
  ultimately show ?thesis by blast
qed

text \<open>The stream f has exactly t ahead; the cell str is a string whose buffer holds its dimension.\<close>

definition file_holds :: "siod \<Rightarrow> nat \<Rightarrow> char list \<Rightarrow> bool" where
  "file_holds s f t = (f < length (streams s) \<and> st_open (streams s ! f) \<and> ahead s (streams s ! f) = t)"

lemma ahead_cong: "disk s' = disk s \<Longrightarrow> ahead s' st = ahead s st"
  by (simp add: ahead_def content_def)

lemma file_holds_cell [simp]: "file_holds (with_cell r ob s) f t = file_holds s f t"
  by (simp add: file_holds_def ahead_cong [of "with_cell r ob s" s])

lemma holds_frame: "obj_at s' a = obj_at s a \<Longrightarrow> holds s' a msg = holds s a msg"
  by (simp add: holds_def)

lemma fread_run:
  assumes "file_holds s f t"
  shows "c_fread n f s = (Ret (take n t), moved f (length (take n t)) s)" "file_holds (moved f (length (take n t)) s) f (drop n t)"
proof -
  show "c_fread n f s = (Ret (take n t), moved f (length (take n t)) s)"
    using assms by (simp add: file_holds_def c_fread_def on_stream_def bind_run gets_def set_stream_def modifyM_def moved_def ret_def)
  have "ahead (moved f (length (take n t)) s) (advance (length (take n t)) (streams s ! f)) = drop (length (take n t)) t"
    using assms by (simp add: moved_def ahead_advance file_holds_def)
  moreover have "drop (length (take n t)) t = drop n t" by (simp add: min_def)
  ultimately show "file_holds (moved f (length (take n t)) s) f (drop n t)"
    using assms by (simp add: file_holds_def moved_def)
qed

lemma from_file_run:
  "holds s a msg \<Longrightarrow> file_holds s f t \<Longrightarrow> obj_at s str = Some (Tc_string n b) \<Longrightarrow> str \<noteq> a \<Longrightarrow> 0 < n \<Longrightarrow> n + 64 \<le> 2 ^ 32 \<Longrightarrow>
   length t < k \<Longrightarrow>
   \<exists>s'. siod_md5_update_from_file k TYPE(32) a f str n s = (Ret (), s') \<and> holds s' a (msg @ t) \<and>
     length (cells s') = length (cells s) \<and> heap_size s' = heap_size s"
proof (induction k arbitrary: s msg t b)
  case (Suc k)
  let ?p = "take n t" and ?s1 = "moved f (length (take n t)) s"
  note read = fread_run [OF Suc.prems(2), of n]
  show ?case
  proof (cases "t = []")
    case True
    then show ?thesis using Suc.prems(1) read holds_frame [of ?s1 a s msg] by (simp add: bind_run)
  next
    case False
    then have p: "?p \<noteq> []" using Suc.prems(5) by simp
    have o: "obj_at ?s1 str = Some (Tc_string n b)" using Suc.prems(3) by simp
    let ?s2 = "with_cell str (overwritten (Tc_string n b) ?p) ?s1"
    have str2: "obj_at ?s2 str = Some (Tc_string n (?p @ drop (length ?p) b))" using with_cell_obj [OF o] by simp
    have "holds ?s2 a msg" using Suc.prems(1,4) with_cell_obj [OF o] by (subst holds_frame [of _ _ s]) simp_all
    moreover have "length ?p + 64 \<le> 2 ^ 32" using Suc.prems(6) by simp
    ultimately obtain ob where u: "update_ctx TYPE(32) a ?p ?s2 = (Ret (), with_cell a ob ?s2)" "holds (with_cell a ob ?s2) a (msg @ ?p)"
      using update_ctx_run by blast
    let ?s3 = "with_cell a ob ?s2"
    have "obj_at ?s2 a \<noteq> None" using \<open>holds ?s2 a msg\<close> by (auto simp: holds_def)
    then have str3: "obj_at ?s3 str = Some (Tc_string n (?p @ drop (length ?p) b))"
      using str2 Suc.prems(4) with_cell_obj [of ?s2 a] by auto
    have f3: "file_holds ?s3 f (drop n t)" using read(2) by simp
    have "0 < length t" using False by simp
    then have "length (drop n t) < k" using Suc.prems(5,7) unfolding length_drop by linarith
    then obtain s' where "siod_md5_update_from_file k TYPE(32) a f str n ?s3 = (Ret (), s')" "holds s' a ((msg @ ?p) @ drop n t)"
      "length (cells s') = length (cells ?s3)" "heap_size s' = heap_size ?s3"
      using Suc.IH [OF u(2) f3 str3 Suc.prems(4-6)] by blast
    then show ?thesis
      using read(1) p obj_at_look [OF o] store_run [OF o] u(1) by (simp add: bind_run)
  qed
qed simp

text \<open>What the operations leave of the cells a state had, but for the context and the buffer.\<close>

lemma init_run:
  assumes "room 1 s"
  shows "\<exists>ob. siod_md5_init TYPE(32) mem s = (Ret (Ref (length (cells s))), grow [ob] s) \<and> holds (grow [ob] s) (Ref (length (cells s))) []"
proof -
  let ?b = "map (\<lambda>j. NUL) [0..<ctx_size TYPE(32)]"
  let ?ob = "Tc_byte_array (ctx_size TYPE(32)) ?b" and ?r = "Ref (length (cells s))"
  let ?c = "ctx_of ?b :: 32 MD5_CTX"
  let ?ob' = "Tc_byte_array (ctx_size TYPE(32)) (ctx_bytes (MD5Init ?c))"
  have "newcell ?ob s = (Ret ?r, grow [?ob] s)" using newcell_run [of 0 s] assms by simp
  then have new: "siod_ar_cons mem 18 (ctx_size TYPE(32)) True s = (Ret ?r, grow [?ob] s)"
    by (simp add: siod_ar_cons_def ar_obj_def)
  have o: "obj_at (grow [?ob] s) ?r = Some ?ob" by (simp add: obj_at_def grow_def)
  have l: "length (md_buffer ?c) = 64" by (simp add: ctx_of_def ctx_size_def Let_def)
  have "after [] (MD5Init ?c)" using after_init [of "md_buffer ?c"] l by (cases ?c) simp
  moreover have w: "with_cell ?r ?ob' (grow [?ob] s) = grow [?ob'] s" by (simp add: with_cell_def set_cell_def grow_def)
  ultimately have "holds (grow [?ob'] s) ?r []" by (auto simp: holds_def obj_at_def grow_def)
  moreover have "(siod_get_md5_ctx ?r :: 32 MD5_CTX act) (grow [?ob] s) = (Ret ?c, grow [?ob] s)"
    using obj_at_look [OF o] by (simp add: siod_get_md5_ctx_def bind_run)
  then have "siod_md5_init TYPE(32) mem s = (Ret ?r, grow [?ob'] s)"
    using new store_run [OF o, of ?ob'] w unfolding siod_md5_init_def put_md5_ctx_def by (simp add: bind_run)
  ultimately show ?thesis by blast
qed

lemma md5_final_run:
  assumes "holds s a msg" "room 1 s"
  shows "\<exists>s'. siod_md5_final TYPE(32) mem a s = (Ret (Ref (length (cells s))), s') \<and>
    obj_at s' (Ref (length (cells s))) = Some (Tc_byte_array 16 (map char_of_byte (md5_digest (map byte_of msg))))"
proof -
  let ?r = "Ref (length (cells s))"
  obtain ctx :: "32 MD5_CTX" where c: "obj_at s a = Some (Tc_byte_array (ctx_size TYPE(32)) (ctx_bytes ctx))" "after (map byte_of msg) ctx"
    using assms(1) by (auto simp: holds_def)
  let ?ob = "Tc_byte_array 16 (map (\<lambda>j. mem_char mem j) [0..<16])"
  let ?s1 = "grow [?ob] s"
  have new: "siod_ar_cons mem 18 16 False s = (Ret ?r, ?s1)"
    using newcell_run [of 0 s] assms(2) by (simp add: siod_ar_cons_def ar_obj_def)
  have c1: "obj_at ?s1 a = Some (Tc_byte_array (ctx_size TYPE(32)) (ctx_bytes ctx))"
    using c(1) by (auto simp: obj_at_def grow_def nth_append split: siod_LISP.splits if_splits)
  have r: "obj_at ?s1 ?r = Some ?ob" "a \<noteq> ?r" using c(1) by (auto simp: obj_at_def grow_def)
  obtain ctx' where f: "MD5Final ctx = Some (md5_digest (map byte_of msg), ctx')" using final_run [OF c(2)] by blast
  let ?d = "Tc_byte_array 16 (map char_of_byte (md5_digest (map byte_of msg)))"
  let ?s2 = "with_cell ?r ?d ?s1"
  have "obj_at ?s2 a = Some (Tc_byte_array (ctx_size TYPE(32)) (ctx_bytes ctx))" using with_cell_obj [OF r(1)] r(2) c1 by simp
  note st = store_run [OF this] with_cell_obj [OF this]
  have "siod_md5_final TYPE(32) mem a s = (Ret ?r, with_cell a (Tc_byte_array (ctx_size TYPE(32)) (ctx_bytes ctx')) ?s2)"
    unfolding siod_md5_final_def put_md5_ctx_def
    using new get_held [OF c1 c(2)] f store_run [OF r(1)] st(1) by (simp add: bind_run)
  moreover have "obj_at (with_cell a (Tc_byte_array (ctx_size TYPE(32)) (ctx_bytes ctx')) ?s2) ?r = Some ?d"
    using st(2) r with_cell_obj [OF r(1)] by simp
  ultimately show ?thesis by blast
qed

text \<open>
  C33. The digest of a string and a file, where UINT4 has 32 bits: a new context that is updated with a string and then
  with a file, read in pieces of any length through the memory of a buffer, gives the MD5 digest of the string followed by
  the rest of the file.
\<close>

theorem md5_of_file:
  assumes "obj_at s str = Some (Tc_string m d)" "m + 64 \<le> 2 ^ 32"
    "obj_at s buf = Some (Tc_string n b)" "0 < n" "n \<le> length b" "n + 64 \<le> 2 ^ 32"
    "obj_at s fp = Some (Tc_c_file name (Some f))" "file_holds s f t" "room 2 s"
  shows "\<exists>r s'. bindM (siod_md5_init TYPE(32) mem) (\<lambda>ctx. bindM (siod_md5_update TYPE(32) ctx str NIL) (\<lambda>_.
      bindM (siod_md5_update TYPE(32) ctx buf fp) (\<lambda>_. siod_md5_final TYPE(32) mem ctx))) s = (Ret r, s') \<and>
    obj_at s' r = Some (Tc_byte_array 16 (map char_of_byte (md5_digest (map byte_of (take m d @ t)))))"
proof -
  let ?c = "Ref (length (cells s))"
  obtain ob where 1: "siod_md5_init TYPE(32) mem s = (Ret ?c, grow [ob] s)" "holds (grow [ob] s) ?c []"
    using init_run [of s mem] assms(9) by (auto simp: room_def)
  let ?s1 = "grow [ob] s"
  have old: "obj_at ?s1 y = Some x" "y \<noteq> ?c" if "obj_at s y = Some x" for x y
    using that by (auto simp: obj_at_def grow_def nth_append split: siod_LISP.splits if_splits)
  note o1 = old [OF assms(1)] and o2 = old [OF assms(3)] and o3 = old [OF assms(7)]
  have "length (take m d) + 64 \<le> 2 ^ 32" using assms(2) by simp
  then obtain ob2 where 2: "update_ctx TYPE(32) ?c (take m d) ?s1 = (Ret (), with_cell ?c ob2 ?s1)" "holds (with_cell ?c ob2 ?s1) ?c (take m d)"
    using update_ctx_run [OF 1(2)] by fastforce
  let ?s2 = "with_cell ?c ob2 ?s1"
  have cc: "obj_at ?s1 ?c = Some ob" by (simp add: obj_at_def grow_def)
  have u1: "siod_md5_update TYPE(32) ?c str NIL ?s1 = (Ret NIL, ?s2)"
    using obj_at_look [OF o1(1)] o1(2) 2(1) by (simp add: siod_md5_update_def get_c_siod_string_dim_def bind_run look_def)
  have b2: "obj_at ?s2 buf = Some (Tc_string n b)" "obj_at ?s2 fp = Some (Tc_c_file name (Some f))"
    using with_cell_obj [OF cc] o2 o3 by simp_all
  have "file_holds ?s1 f t" using assms(8) ahead_cong [of ?s1 s] by (simp add: file_holds_def grow_def)
  then have f2: "file_holds ?s2 f t" by simp
  obtain s3 where 3: "siod_md5_update_from_file (Suc (length t)) TYPE(32) ?c f buf n ?s2 = (Ret (), s3)" "holds s3 ?c (take m d @ t)"
    "length (cells s3) = length (cells ?s2)" "heap_size s3 = heap_size ?s2"
    using from_file_run [OF 2(2) f2 b2(1) o2(2) assms(4,6), of "Suc (length t)"] by auto
  obtain ctx :: "32 MD5_CTX" where "(siod_get_md5_ctx ?c :: 32 MD5_CTX act) ?s2 = (Ret ctx, ?s2)"
    using 2(2) get_held [of ?s2 ?c] by (auto simp: holds_def)
  moreover have "siod_get_c_file fp None ?s2 = (Ret f, ?s2)"
    using obj_at_look [OF b2(2)] by (cases fp) (simp_all add: siod_get_c_file_def bind_run)
  moreover have "min (length b) n = n" using assms(5) by simp
  ultimately have u2: "siod_md5_update TYPE(32) ?c buf fp ?s2 = (Ret NIL, s3)"
    using obj_at_look [OF b2(1)] obj_at_look [OF b2(2)] o2(2) 3(1) f2
    by (simp add: siod_md5_update_def get_c_siod_string_dim_def bind_run on_stream_def gets_def file_holds_def)
  have "room 1 s3" using assms(9) 3(3,4) by (simp add: room_def grow_def)
  from md5_final_run [OF 3(2) this, of mem] obtain s4 where "siod_md5_final TYPE(32) mem ?c s3 = (Ret (Ref (length (cells s3))), s4)"
    "obj_at s4 (Ref (length (cells s3))) = Some (Tc_byte_array 16 (map char_of_byte (md5_digest (map byte_of (take m d @ t)))))"
    by blast
  then show ?thesis using 1(1) u1 u2 by (simp add: bind_run)
qed

theorem md5_of_file_witness:
  "\<forall>mem. \<exists>r s'. bindM (siod_md5_init TYPE(32) mem) (\<lambda>ctx. bindM (siod_md5_update TYPE(32) ctx (Ref 1) NIL) (\<lambda>_.
      bindM (siod_md5_update TYPE(32) ctx (Ref 2) (Ref 3)) (\<lambda>_. siod_md5_final TYPE(32) mem ctx)))
      ((small_state [string_cell ''ab'', string_cell ''xy'', Tc_c_file (Some ''f'') (Some 3)])
        \<lparr>disk := [''f'' \<mapsto> ''cde''], streams := standard_streams @ [opened ''f'' True False False]\<rparr>) = (Ret r, s') \<and>
    obj_at s' r = Some (Tc_byte_array 16 (map char_of_byte (md5_digest (map byte_of ''abcde''))))"
proof
  fix mem
  let ?s = "(small_state [string_cell ''ab'', string_cell ''xy'', Tc_c_file (Some ''f'') (Some 3)])
    \<lparr>disk := [''f'' \<mapsto> ''cde''], streams := standard_streams @ [opened ''f'' True False False]\<rparr>"
  have o: "obj_at ?s (Ref 1) = Some (Tc_string 2 (''ab'' @ [NUL]))" "obj_at ?s (Ref 2) = Some (Tc_string 2 (''xy'' @ [NUL]))"
    "obj_at ?s (Ref 3) = Some (Tc_c_file (Some ''f'') (Some 3))" "room 2 ?s"
    by (simp_all add: small_state_def obj_at_def string_cell_def room_def)
  have f: "file_holds ?s 3 ''cde''"
    by (simp add: file_holds_def standard_streams_def opened_def ahead_def content_def nth_append)
  show "\<exists>r s'. bindM (siod_md5_init TYPE(32) mem) (\<lambda>ctx. bindM (siod_md5_update TYPE(32) ctx (Ref 1) NIL) (\<lambda>_.
      bindM (siod_md5_update TYPE(32) ctx (Ref 2) (Ref 3)) (\<lambda>_. siod_md5_final TYPE(32) mem ctx))) ?s = (Ret r, s') \<and>
    obj_at s' r = Some (Tc_byte_array 16 (map char_of_byte (md5_digest (map byte_of ''abcde''))))"
    using md5_of_file [OF o(1) _ o(2) _ _ _ o(3) f o(4), of mem] by simp
qed

end
