(* ===== verification/GC_Stats.thy ===== *)
theory GC_Stats
  imports GC_Mark Printer
begin

text \<open>
  The collector as a Lisp program sees it (slib.c): gc, gc-messages, gc-status, gc-info and allocate-heap, on the state of
  the mark-and-sweep collector with the flags and counts these operations use.  In the mode of the stop-and-copy collector
  the fields of the heap are those of the current space.
\<close>

section \<open>State\<close>

text \<open>The text is what is printed; the times of the process are parameters of a collection.\<close>

record gc_user = gcs +
  gc_kind_copying :: bool
  siod_gc_count :: nat
  siod_gc_status_flag :: bool
  siod_gc_messages_flag :: bool
  gc_time_taken :: double
  gc_text :: string

definition gc_print :: "string \<Rightarrow> gc_user \<Rightarrow> gc_user" where
  "gc_print t st = st\<lparr>gc_text := gc_text st @ t\<rparr>"

definition siod_gc_kind_check :: "gc_user \<Rightarrow> string option" where
  "siod_gc_kind_check st = (if gc_kind_copying st
     then Some (''cannot perform operation with stop-and-copy GC mode. Use -g0'' @ [CHR 0x0A]) else None)"

section \<open>Counting\<close>

definition siod_nactive_heaps :: "gc_user \<Rightarrow> nat" where
  "siod_nactive_heaps st = min (nheaps st) (length (bases st))"

text \<open>The conses of the free list; the number bounds how many there are, for a pointer out of it is undefined.\<close>

fun chain_length :: "nat \<Rightarrow> siod_LISP \<Rightarrow> gcell list \<Rightarrow> nat option" where
  "chain_length 0 l m = None"
| "chain_length (Suc k) l m = (case l of NIL \<Rightarrow> Some 0 | Ref a \<Rightarrow>
     if length m \<le> a then None
     else case snd (m ! a) of Core (Tc_free_cell next) \<Rightarrow> map_option Suc (chain_length k next m) | _ \<Rightarrow> None)"

definition siod_freelist_length :: "gc_user \<Rightarrow> nat option" where
  "siod_freelist_length st =
     map_option (\<lambda>n. n + (heap_sz st - heap_next st)) (chain_length (Suc (length (mem st))) (freelist st) (mem st))"

section \<open>The operations\<close>

text \<open>The argument list is empty (None), or its first element is NIL or not.\<close>

definition siod_gc_messages :: "bool option \<Rightarrow> gc_user \<Rightarrow> bool \<times> gc_user" where
  "siod_gc_messages args st = (let st1 = (case args of None \<Rightarrow> st | Some b \<Rightarrow> st\<lparr>siod_gc_messages_flag := b\<rparr>)
     in (siod_gc_messages_flag st1, st1))"

definition siod_gc_status :: "bool option \<Rightarrow> gc_user \<Rightarrow> gc_user option" where
  "siod_gc_status args st =
     (let st1 = (case args of None \<Rightarrow> st | Some b \<Rightarrow> st\<lparr>siod_gc_status_flag := b\<rparr>) in
      if gc_kind_copying st1 then
        Some (gc_print ((if siod_gc_status_flag st1 then ''garbage collection is on'' else ''garbage collection is off'') @ [CHR 0x0A] @
          long_digits (int (heap_next st1)) @ '' allocated '' @ long_digits (int (heap_sz st1) - int (heap_next st1)) @ '' free'' @ [CHR 0x0A]) st1)
      else map_option (\<lambda>n. (let m = siod_nactive_heaps st1 in
        gc_print ((if siod_gc_status_flag st1 then ''garbage collection verbose'' else ''garbage collection silent'') @ [CHR 0x0A] @
          long_digits (int m) @ ''/'' @ long_digits (int (nheaps st1)) @ '' heaps, '' @
          long_digits (int (m * heap_sz st1) - int n) @ '' allocated '' @ long_digits (int n) @ '' free'' @ [CHR 0x0A]) st1))
        (siod_freelist_length st1))"

datatype gc_answer = Info_true | Info_nil | Info_number int

definition siod_gc_info :: "int \<Rightarrow> gc_user \<Rightarrow> gc_answer option" where
  "siod_gc_info arg st =
     (if arg = 0 then Some (if gc_kind_copying st then Info_true else Info_nil)
      else if arg = 1 then Some (Info_number (int (siod_nactive_heaps st)))
      else if arg = 2 then Some (Info_number (int (nheaps st)))
      else if arg = 3 then Some (Info_number (int (heap_sz st)))
      else if arg = 4 then
        (if gc_kind_copying st then Some (Info_number (int (heap_sz st) - int (heap_next st)))
         else map_option (\<lambda>n. Info_number (int n)) (siod_freelist_length st))
      else if arg = 5 then Some (Info_number (int (siod_gc_count st)))
      else Some Info_nil)"

text \<open>The statistics around a collection: the times before and after it, and the printed text of NaN.\<close>

definition siod_gc_ms_stats_start :: "gc_user \<Rightarrow> gc_user" where
  "siod_gc_ms_stats_start st = (let st1 = st\<lparr>gc_cells_collected := 0\<rparr> in
     if siod_gc_messages_flag st1 then gc_print (''[starting GC]'' @ [CHR 0x0A]) st1 else st1)"

definition siod_gc_ms_stats_end :: "string \<Rightarrow> double \<Rightarrow> double \<Rightarrow> gc_user \<Rightarrow> gc_user" where
  "siod_gc_ms_stats_end nan t0 t1 st =
     (let gc_rt = dsub t1 t0; st1 = st\<lparr>gc_time_taken := dadd (gc_time_taken st) gc_rt\<rparr> in
      if siod_gc_messages_flag st1 then
        gc_print (''[GC took '' @ format_double nan Conv_g False 6 gc_rt @ '' cpu seconds, '' @
          long_digits (int (gc_cells_collected st1)) @ '' cells collected]'' @ [CHR 0x0A]) st1
      else st1)"

text \<open>A collection, with the part of the state that the collector works on and the rest.\<close>

definition collect :: "string \<Rightarrow> double \<Rightarrow> double \<Rightarrow> int list \<Rightarrow> int list \<Rightarrow> gc_user \<Rightarrow> gc_user option" where
  "collect nan t0 t1 save_regs stack st =
     (let st1 = siod_gc_ms_stats_start (st\<lparr>siod_gc_count := Suc (siod_gc_count st)\<rparr>)
      in map_option (\<lambda>core. siod_gc_ms_stats_end nan t0 t1 (st1\<lparr>mem := mem core, freelist := freelist core,
             gc_cells_collected := gc_cells_collected core, heap_next := heap_next core\<rparr>))
           (siod_gc_mark_and_sweep save_regs stack (gcs.truncate st1)))"

datatype gc_outcome = Gc_done gc_user | Gc_error string | Gc_undefined

definition siod_user_gc :: "string \<Rightarrow> double \<Rightarrow> double \<Rightarrow> int list \<Rightarrow> int list \<Rightarrow> bool option \<Rightarrow> gc_user \<Rightarrow> gc_outcome" where
  "siod_user_gc nan t0 t1 save_regs stack args st = (case siod_gc_kind_check st of
       Some msg \<Rightarrow> Gc_error msg
     | None \<Rightarrow>
         (let old_status_flag = siod_gc_status_flag st; st0 = st\<lparr>jmp_ok := False\<rparr>;
              st1 = (case args of None \<Rightarrow> st0 | Some b \<Rightarrow> st0\<lparr>siod_gc_messages_flag := b, siod_gc_status_flag := b\<rparr>)
          in case collect nan t0 t1 save_regs stack st1 of
               None \<Rightarrow> Gc_undefined
             | Some st2 \<Rightarrow> Gc_done (st2\<lparr>siod_gc_status_flag := old_status_flag, jmp_ok := True\<rparr>)))"

section \<open>Counting the free cells\<close>

lemma free_list_chain: "free_list m l as \<Longrightarrow> length as < k \<Longrightarrow> chain_length k l m = Some (length as)"
proof (induction as arbitrary: k l)
  case Nil
  then show ?case by (cases k) auto
next
  case (Cons a as)
  then obtain k' where k: "k = Suc k'" by (cases k) auto
  obtain nx where "l = Ref a" "a < length m" "snd (m ! a) = Core (Tc_free_cell nx)" "free_list m nx as"
    using Cons.prems(1) by (auto split: gobj.splits obj.splits)
  then show ?case using Cons.IH [of nx k'] Cons.prems(2) k by simp
qed

lemma sweep_keeps:
  assumes "siod_gc_mark_and_sweep save_regs stack st = Some st'"
  shows "heap_next st' = heap_sz st" "heap_sz st' = heap_sz st" "nheaps st' = nheaps st" "bases st' = bases st"
  using assms by (auto simp: siod_gc_mark_and_sweep_def bind_eq_Some_conv case_prod_beta)

lemma sweep_count_irrelevant:
  "siod_gc_mark_and_sweep save_regs stack (st\<lparr>gc_cells_collected := n, jmp_ok := b\<rparr>) =
   map_option (\<lambda>st'. st'\<lparr>jmp_ok := b\<rparr>) (siod_gc_mark_and_sweep save_regs stack st)"
proof -
  have w: "siod_mark_locations_array (st\<lparr>gc_cells_collected := n, jmp_ok := b\<rparr>) ws m = siod_mark_locations_array st ws m" for ws m
    by (induction ws arbitrary: m) (auto simp: siod_looks_pointerp_def split: option.split Option.bind_split)
  show ?thesis
    by (auto simp: siod_gc_mark_and_sweep_def free_rest_def w split: Option.bind_split prod.split)
qed

lemma collect_outcome:
  assumes "siod_gc_mark_and_sweep save_regs stack (gcs.truncate st) = Some core"
  shows "\<exists>st'. collect nan t0 t1 save_regs stack st = Some st' \<and> mem st' = mem core \<and> freelist st' = freelist core \<and>
    gc_cells_collected st' = gc_cells_collected core \<and> heap_next st' = heap_next core \<and> heap_sz st' = heap_sz st \<and>
    nheaps st' = nheaps st \<and> bases st' = bases st \<and> siod_gc_count st' = Suc (siod_gc_count st) \<and> gc_kind_copying st' = gc_kind_copying st"
proof -
  let ?st1 = "siod_gc_ms_stats_start (st\<lparr>siod_gc_count := Suc (siod_gc_count st)\<rparr>)"
  have "gcs.truncate ?st1 = (gcs.truncate st)\<lparr>gc_cells_collected := 0, jmp_ok := jmp_ok st\<rparr>"
    by (simp add: siod_gc_ms_stats_start_def gc_print_def gcs.defs Let_def)
  then have "siod_gc_mark_and_sweep save_regs stack (gcs.truncate ?st1) = Some (core\<lparr>jmp_ok := jmp_ok st\<rparr>)"
    using assms sweep_count_irrelevant [where st = "gcs.truncate st" and n = 0 and b = "jmp_ok st"] by simp
  then show ?thesis
    by (simp add: collect_def siod_gc_ms_stats_end_def siod_gc_ms_stats_start_def gc_print_def Let_def)
qed

lemma collection_leaves:
  fixes save_regs stack :: "int list"
  assumes "gc_inv st" "all_core st"
  defines "live \<equiv> {a. a < length (mem st) \<and> reach (free_rest st) (gc_roots save_regs stack st) a}"
  obtains gs where "siod_gc_mark_and_sweep save_regs stack st = Some gs" "length (mem gs) = length (mem st)" "heap_next gs = heap_sz st"
    "\<forall>a\<in>live. mem gs ! a = free_rest st ! a" "card live \<le> length (mem st)"
    "chain_length (Suc (length (mem gs))) (freelist gs) (mem gs) = Some (length (mem st) - card live)"
proof -
  let ?m = "free_rest st" and ?R = "gc_roots save_regs stack st"
  have l: "length ?m = length (mem st)" using free_rest_length [OF assms(1)] by simp
  have s: "sized st ?m" using assms(1) l by (simp add: gc_inv_def sized_def)
  have roots: "\<forall>a. Ref a \<in> set ?R \<longrightarrow> a < length ?m"
    using assms(1) word_roots_less [OF s] l by (auto simp: gc_roots_def gc_inv_def)
  have core: "\<forall>c\<in>set ?m. case snd c of Core ob \<Rightarrow> True | _ \<Rightarrow> False"
    using assms(2) by (auto simp: free_rest_def all_core_def dest!: in_set_takeD in_set_dropD)
  have "refs_in ?m" using assms(1) by (simp add: gc_inv_def)
  then have eq: "live = {a. a < length (mem st) \<and> marker_reach ?m ?R a}"
    using reach_marker_reach [OF core _ roots] by (simp add: live_def)
  obtain gs fl where c: "siod_gc_mark_and_sweep save_regs stack st = Some gs" "length (mem gs) = length ?m"
    "\<forall>a<length ?m. marker_reach ?m ?R a \<longrightarrow> mem gs ! a = ?m ! a" "free_list (mem gs) (freelist gs) fl" "distinct fl"
    "set fl = {a. a < length ?m \<and> \<not> marker_reach ?m ?R a}"
    using mark_and_sweep_correct [OF assms(1) refl refl, of save_regs stack] by blast
  have fin: "finite live" "live \<subseteq> {0..<length (mem st)}" unfolding eq by auto
  have "set fl = {0..<length (mem st)} - live" unfolding c(6) l eq by (intro set_eqI) (simp, blast)
  then have n: "length fl = length (mem st) - card live"
    using distinct_card [OF c(5)] fin by (simp add: card_Diff_subset)
  show thesis
  proof (rule that [OF c(1)])
    show "chain_length (Suc (length (mem gs))) (freelist gs) (mem gs) = Some (length (mem st) - card live)"
      using free_list_chain [OF c(4), of "Suc (length (mem gs))"] n c(2) l by simp
    show "\<forall>a\<in>live. mem gs ! a = free_rest st ! a" using c(3) unfolding eq l by simp
    show "card live \<le> length (mem st)" using card_mono [OF _ fin(2)] by simp
  qed (use c(2) l sweep_keeps(1) [OF c(1)] in simp_all)
qed

text \<open>
  C4. gc frees what cannot be reached, and gc-info counts it.  In the mark-and-sweep mode a call of gc on a heap without
  traced closures leaves every cell that can be reached from the registers, the protected locations and the stack as it
  was, and then gc-info gives the number of the other cells as free; the cells that gc-status reports as allocated are
  those that can be reached.
\<close>

theorem gc_info_counts_garbage:
  fixes st :: gc_user and save_regs stack :: "int list"
  defines "live \<equiv> {a. a < length (mem st) \<and> reach (free_rest (gcs.truncate st)) (gc_roots save_regs stack (gcs.truncate st)) a}"
  assumes "\<not> gc_kind_copying st" "gc_inv (gcs.truncate st)" "all_core (gcs.truncate st)" "length (bases st) \<le> nheaps st"
  shows "\<exists>st'. siod_user_gc nan t0 t1 save_regs stack args st = Gc_done st' \<and>
    (\<forall>a\<in>live. mem st' ! a = free_rest (gcs.truncate st) ! a) \<and>
    siod_gc_info 4 st' = Some (Info_number (int (length (mem st) - card live))) \<and>
    siod_nactive_heaps st' * heap_sz st' - the (siod_freelist_length st') = card live \<and>
    siod_gc_info 5 st' = Some (Info_number (int (siod_gc_count st) + 1)) \<and> jmp_ok st'"
proof -
  let ?st = "gcs.truncate st" and ?n = "length (mem st) - card live"
  have m: "mem ?st = mem st" "heap_sz ?st = heap_sz st" by (simp_all add: gcs.defs)
  obtain gs where gs: "siod_gc_mark_and_sweep save_regs stack ?st = Some gs" "length (mem gs) = length (mem st)"
    "heap_next gs = heap_sz st" "\<forall>a\<in>live. mem gs ! a = free_rest ?st ! a" "card live \<le> length (mem st)"
    "chain_length (Suc (length (mem gs))) (freelist gs) (mem gs) = Some ?n"
    by (rule collection_leaves [OF assms(3,4), of save_regs stack, unfolded m, folded live_def]; rule that; assumption)
  let ?st1 = "(case args of None \<Rightarrow> st\<lparr>jmp_ok := False\<rparr> | Some b \<Rightarrow> st\<lparr>jmp_ok := False, siod_gc_messages_flag := b, siod_gc_status_flag := b\<rparr>)"
  have t1: "gcs.truncate ?st1 = ?st\<lparr>gc_cells_collected := gc_cells_collected st, jmp_ok := False\<rparr>"
    by (cases args) (simp_all add: gcs.defs)
  have "siod_gc_mark_and_sweep save_regs stack (gcs.truncate ?st1) = Some (gs\<lparr>jmp_ok := False\<rparr>)"
    unfolding t1 sweep_count_irrelevant gs(1) by simp
  then obtain st' where st': "collect nan t0 t1 save_regs stack ?st1 = Some st'" "mem st' = mem gs" "freelist st' = freelist gs"
    "heap_next st' = heap_next gs" "heap_sz st' = heap_sz ?st1" "nheaps st' = nheaps ?st1" "bases st' = bases ?st1"
    "siod_gc_count st' = Suc (siod_gc_count ?st1)" "gc_kind_copying st' = gc_kind_copying ?st1"
    using collect_outcome [of save_regs stack ?st1 "gs\<lparr>jmp_ok := False\<rparr>" nan t0 t1] by auto
  have old: "heap_sz ?st1 = heap_sz st" "nheaps ?st1 = nheaps st" "bases ?st1 = bases st" "siod_gc_count ?st1 = siod_gc_count st"
    "gc_kind_copying ?st1 = gc_kind_copying st"
    by (cases args; simp)+
  let ?s2 = "st'\<lparr>siod_gc_status_flag := siod_gc_status_flag st, jmp_ok := True\<rparr>"
  have free: "siod_freelist_length ?s2 = Some ?n"
    using gs(3,6) st' old by (simp add: siod_freelist_length_def)
  have "length (mem st) = length (bases st) * heap_sz st" using assms(3) by (simp add: gc_inv_def sized_def gcs.defs)
  then have heaps: "siod_nactive_heaps ?s2 * heap_sz ?s2 = length (mem st)"
    using assms(5) st' old by (simp add: siod_nactive_heaps_def min_def)
  have run: "siod_user_gc nan t0 t1 save_regs stack args st = Gc_done ?s2"
    using st'(1) assms(2) by (cases args) (simp_all add: siod_user_gc_def siod_gc_kind_check_def Let_def)
  have info: "siod_gc_info 4 ?s2 = Some (Info_number (int ?n))" "siod_gc_info 5 ?s2 = Some (Info_number (int (siod_gc_count st) + 1))"
    using free assms(2) st'(8,9) old(4,5) by (simp_all add: siod_gc_info_def)
  have "siod_nactive_heaps ?s2 * heap_sz ?s2 - the (siod_freelist_length ?s2) = card live"
    unfolding free heaps using gs(5) by simp
  then show ?thesis using run info gs(4) by (intro exI [of _ ?s2]) (simp add: st'(2))
qed

text \<open>A heap of three cells: one is on the stack, one is in it, and one is garbage.\<close>

definition small_gc_user :: gc_user where
  "small_gc_user = gcs.extend small_gcs \<lparr>gc_kind_copying = False, siod_gc_count = 0, siod_gc_status_flag = True,
     siod_gc_messages_flag = False, gc_time_taken = DZero False, gc_text = []\<rparr>"

theorem gc_info_counts_garbage_witness:
  "\<forall>nan t0 t1. \<exists>st'. siod_user_gc nan t0 t1 [] [4096] None small_gc_user = Gc_done st' \<and>
     siod_gc_info 5 st' = Some (Info_number 1) \<and> jmp_ok st' \<and>
     siod_gc_info 4 st' = Some (Info_number (int (3 - card {a. a < 3 \<and> reach (free_rest small_gcs) (gc_roots [] [4096] small_gcs) a})))"
proof (intro allI)
  fix nan t0 t1
  have t: "gcs.truncate small_gc_user = small_gcs" by (simp add: small_gc_user_def small_gcs_def gcs.defs)
  have i: "gc_inv (gcs.truncate small_gc_user)" "all_core (gcs.truncate small_gc_user)" unfolding t
    by (auto simp: gc_inv_def small_gcs_def sized_def refs_in_def free_rest_def less_Suc_eq all_core_def)
  have u: "\<not> gc_kind_copying small_gc_user" "length (bases small_gc_user) \<le> nheaps small_gc_user"
    "length (mem small_gc_user) = 3" "siod_gc_count small_gc_user = 0"
    by (simp_all add: small_gc_user_def small_gcs_def gcs.defs)
  from gc_info_counts_garbage [OF u(1) i u(2), of nan t0 t1 "[]" "[4096]" None]
  show "\<exists>st'. siod_user_gc nan t0 t1 [] [4096] None small_gc_user = Gc_done st' \<and>
     siod_gc_info 5 st' = Some (Info_number 1) \<and> jmp_ok st' \<and>
     siod_gc_info 4 st' = Some (Info_number (int (3 - card {a. a < 3 \<and> reach (free_rest small_gcs) (gc_roots [] [4096] small_gcs) a})))"
    unfolding t u(3,4) by fastforce
qed

end
