(* ===== verification/Programs.thy ===== *)
theory Programs
  imports Interp_Theorems Env_Theorems
begin

text \<open>
  The evaluator against a semantics that knows neither a store nor an environment of cells: closures
  applied to their arguments, and first-order recursive programs over integers.  The semantics counts
  the cells that the evaluator takes, so that the theorem states that it ends within them.
\<close>

section \<open>Applying closures\<close>

lemma obj_at_NIL: "obj_at s x = Some ob \<Longrightarrow> x \<noteq> NIL"
  by (auto simp: obj_at_def)

text \<open>
  C6. Applying a closure to as many values as it has parameters evaluates its body in the environment of the
  closure, extended by one frame that binds the parameters to the values: both for apply, and for a
  combination whose operator is the closure, whose arguments are evaluated in the environment of the call.
\<close>

theorem closure_applied:
  assumes "obj_at s fcn = Some (Tc_closure cenv code)" "obj_at s code = Some (Tc_cons formals body)"
    "env_on s cenv frames" "list_on s formals fas fs" "list_on s actuals as vs" "length fs = length vs" "room 2 s"
  shows "\<exists>env' obs. env_on (grow obs s) env' ((fs, as, vs) # frames) \<and> length obs = 2 \<and>
    siod_lapply (Suc n) fcn actuals s = siod_leval n body env' (grow obs s) \<and>
    (\<forall>rc k x op l env s0 c0. obj_at s0 x = Some (Tc_cons op l) \<and> obj_at s0 fcn = Some (Tc_closure cenv code) \<and>
       obj_at s0 code = Some (Tc_cons c0 body) \<and> siod_leval_args k rc l env s0 = (Ret actuals, s) \<longrightarrow>
       leval_call k rc fcn x env s0 = rc (Eval body env') (grow obs s))"
proof -
  obtain env' obs where e: "siod_extend_env actuals formals cenv s = (Ret env', grow obs s)" "length obs = 2"
    "env_on (grow obs s) env' ((fs, as, vs) # frames)"
    using extend_env_refines [OF assms(3-7)] by blast
  have code: "obj_at (grow obs s) code = Some (Tc_cons formals body)" using assms(2) by (rule obj_at_grow)
  note nil = obj_at_NIL [OF assms(1)] obj_at_NIL [OF assms(2)]
  have "siod_lapply (Suc n) fcn actuals s = siod_leval n body env' (grow obs s)"
    using nil by (simp add: siod_lapply_def siod_leval_def serve_def lapply_body_def lapply_closure_def bind_run
        obj_at_look [OF assms(1)] obj_at_look [OF assms(2)] siod_cdr_def siod_car_def e(1))
  moreover have "leval_call k rc fcn x env s0 = rc (Eval body env') (grow obs s)"
    if "obj_at s0 x = Some (Tc_cons op l)" "obj_at s0 fcn = Some (Tc_closure cenv code)"
       "obj_at s0 code = Some (Tc_cons c0 body)" "siod_leval_args k rc l env s0 = (Ret actuals, s)" for rc k x op l env s0 c0
    using nil that by (simp add: leval_call_def leval_closure_def bind_run obj_at_look CDR_def CAR_def assms(2) code e(1))
  ultimately show ?thesis using e(2,3) by blast
qed

theorem closure_applied_witness:
  "\<exists>env' s'. env_on s' env' [([Ref 0], [4], [Ref 5]), ([Ref 0], [4], [Ref 5])] \<and>
     siod_lapply (Suc 1) (Ref 6) (Ref 4) (grow [Tc_closure (Ref 1) (Ref 7), Tc_cons (Ref 3) (Ref 0)] one_frame) =
       siod_leval 1 (Ref 0) env' s'"
proof -
  let ?s = "grow [Tc_closure (Ref 1) (Ref 7), Tc_cons (Ref 3) (Ref 0)] one_frame"
  have c: "obj_at ?s (Ref 6) = Some (Tc_closure (Ref 1) (Ref 7))" "obj_at ?s (Ref 7) = Some (Tc_cons (Ref 3) (Ref 0))"
    "list_on ?s (Ref 3) [3] [Ref 0]" "list_on ?s (Ref 4) [4] [Ref 5]" "room 2 ?s"
    by (simp_all add: obj_at_def nth_append room_def)
  have "length [Ref 0] = length [Ref 5]" by simp
  from closure_applied [OF c(1,2) env_on_grow [OF one_frame_on] c(3,4) this c(5)] show ?thesis by blast
qed

section \<open>Programs and what they mean\<close>

text \<open>
  A program gives each function its parameters and its body; names are the symbols of the store.  The
  value of an expression comes with the cells it takes at most: one for the result of a primitive, one for each argument of
  a call and two for its frame.  Integers are exact, below 2^53, and a product that would be -0 has no value.
\<close>

datatype val = Num int | Truth bool

datatype prim = Plus | Minus | Times | Less

datatype expr = Lit int | Var siod_LISP | Prim prim expr expr | Cond expr expr expr | Call siod_LISP "expr list"

type_synonym program = "siod_LISP \<Rightarrow> (siod_LISP list \<times> expr) option"

definition small :: "int \<Rightarrow> val option" where
  "small k = (if \<bar>k\<bar> < 2 ^ 53 then Some (Num k) else None)"

fun prim_val :: "prim \<Rightarrow> val \<Rightarrow> val \<Rightarrow> val option" where
  "prim_val Plus (Num i) (Num j) = small (i + j)"
| "prim_val Minus (Num i) (Num j) = small (i - j)"
| "prim_val Times (Num i) (Num j) = (if i * j = 0 \<and> (i < 0 \<or> j < 0) then None else small (i * j))"
| "prim_val Less (Num i) (Num j) = Some (Truth (i < j))"
| "prim_val p u v = None"

fun seq_eval :: "(expr \<Rightarrow> (val \<times> nat) option) \<Rightarrow> expr list \<Rightarrow> (val list \<times> nat) option" where
  "seq_eval f [] = Some ([], 0)"
| "seq_eval f (e # es) = (case f e of None \<Rightarrow> None | Some (v, c) \<Rightarrow>
     (case seq_eval f es of None \<Rightarrow> None | Some (vs, d) \<Rightarrow> Some (v # vs, c + d + 1)))"

fun aeval :: "program \<Rightarrow> nat \<Rightarrow> (siod_LISP \<Rightarrow> val option) \<Rightarrow> expr \<Rightarrow> (val \<times> nat) option" where
  "aeval P 0 \<rho> e = None"
| "aeval P (Suc n) \<rho> (Lit i) = map_option (\<lambda>v. (v, 0)) (small i)"
| "aeval P (Suc n) \<rho> (Var y) = map_option (\<lambda>v. (v, 0)) (\<rho> y)"
| "aeval P (Suc n) \<rho> (Prim p a b) = (case aeval P n \<rho> a of None \<Rightarrow> None | Some (u, c) \<Rightarrow>
     (case aeval P n \<rho> b of None \<Rightarrow> None | Some (v, d) \<Rightarrow> map_option (\<lambda>w. (w, c + d + 1)) (prim_val p u v)))"
| "aeval P (Suc n) \<rho> (Cond a b e) = (case aeval P n \<rho> a of None \<Rightarrow> None | Some (u, c) \<Rightarrow>
     map_option (\<lambda>(v, d). (v, c + d)) (aeval P n \<rho> (if u = Truth False then e else b)))"
| "aeval P (Suc n) \<rho> (Call f es) = (case P f of None \<Rightarrow> None | Some (ps, body) \<Rightarrow>
     (case seq_eval (aeval P n \<rho>) es of None \<Rightarrow> None | Some (vs, c) \<Rightarrow>
        if length ps = length vs \<and> length vs \<le> n
        then map_option (\<lambda>(v, d). (v, c + 2 + d)) (aeval P n (map_of (zip ps vs)) body) else None))"

section \<open>Programs in the store\<close>

text \<open>The cell r holds the value v.\<close>

definition val_on :: "siod \<Rightarrow> val \<Rightarrow> siod_LISP \<Rightarrow> bool" where
  "val_on s v r = (case v of Num i \<Rightarrow> \<bar>i\<bar> < 2 ^ 53 \<and> obj_at s r = Some (Tc_flonum (of_long i))
     | Truth b \<Rightarrow> r = (if b then sym_t s else NIL))"

text \<open>The symbol op has the global value ob.\<close>

definition global_on :: "siod \<Rightarrow> siod_LISP \<Rightarrow> siod_LISP \<Rightarrow> obj \<Rightarrow> bool" where
  "global_on s op c ob = (c \<noteq> unbound_marker s \<and> obj_at s c = Some ob \<and> (\<exists>nm. obj_at s op = Some (Tc_symbol nm c)))"

definition prim_cell :: "prim \<Rightarrow> string \<Rightarrow> obj" where
  "prim_cell p nm = (case p of Plus \<Rightarrow> Tc_subr_2n nm F_plus | Minus \<Rightarrow> Tc_subr_2n nm F_difference
     | Times \<Rightarrow> Tc_subr_2n nm F_ltimes | Less \<Rightarrow> Tc_subr_2 nm F_lessp)"

text \<open>
  The list structure x is the expression e.  The set R holds the names of the operators, which no parameter shadows.
\<close>

fun source :: "siod \<Rightarrow> siod_LISP set \<Rightarrow> siod_LISP \<Rightarrow> expr \<Rightarrow> bool"
  and sources :: "siod \<Rightarrow> siod_LISP set \<Rightarrow> siod_LISP list \<Rightarrow> expr list \<Rightarrow> bool" where
  "source s R x (Lit i) = (obj_at s x = Some (Tc_flonum (of_long i)))"
| "source s R x (Var y) = (x = y \<and> (\<exists>nm v. obj_at s y = Some (Tc_symbol nm v)))"
| "source s R x (Prim p a b) = (\<exists>as op xa xb c nm. list_on s x as [op, xa, xb] \<and> op \<in> R \<and>
     global_on s op c (prim_cell p nm) \<and> source s R xa a \<and> source s R xb b)"
| "source s R x (Cond a b e) = (\<exists>as op xa xb xe c nm. list_on s x as [op, xa, xb, xe] \<and> op \<in> R \<and>
     global_on s op c (Tc_msubr nm F_leval_if) \<and> source s R xa a \<and> source s R xb b \<and> source s R xe e)"
| "source s R x (Call f es) = (\<exists>as xs. list_on s x as (f # xs) \<and> f \<in> R \<and> sources s R xs es)"
| "sources s R [] [] = True"
| "sources s R (x # xs) (e # es) = (source s R x e \<and> sources s R xs es)"
| "sources s R xs es = False"

definition program_on :: "siod \<Rightarrow> siod_LISP set \<Rightarrow> program \<Rightarrow> bool" where
  "program_on s R P = (\<forall>f ps body. P f = Some (ps, body) \<longrightarrow> set ps \<inter> R = {} \<and>
     (\<exists>c code formals fas x. global_on s f c (Tc_closure NIL code) \<and> obj_at s code = Some (Tc_cons formals x) \<and>
        list_on s formals fas ps \<and> source s R x body))"

text \<open>The variable of the ring buffer of expressions holds no cons.\<close>

definition no_history :: "siod \<Rightarrow> bool" where
  "no_history s = (\<exists>nm v. obj_at s (sym_eval_history_ptr s) = Some (Tc_symbol nm v) \<and>
     (v = NIL \<or> (\<exists>ob. obj_at s v = Some ob \<and> \<not> is_cons (Some ob))))"

definition ready :: "siod \<Rightarrow> siod_LISP set \<Rightarrow> program \<Rightarrow> bool" where
  "ready s R P = (inums_ok s \<and> sym_t s \<noteq> NIL \<and> no_history s \<and> program_on s R P)"

text \<open>The environment env gives the variables the values \<rho>.\<close>

definition holds_env :: "siod \<Rightarrow> siod_LISP \<Rightarrow> (siod_LISP \<Rightarrow> val option) \<Rightarrow> bool" where
  "holds_env s env \<rho> = (\<exists>frames. env_on s env frames \<and> (\<forall>y. case binding frames y of None \<Rightarrow> \<rho> y = None
     | Some a \<Rightarrow> a < length (cells s) \<and> (\<exists>v r d. \<rho> y = Some v \<and> cells s ! a = Tc_cons r d \<and> val_on s v r)))"

lemma grow_globals [simp]:
  "sym_t (grow obs s) = sym_t s" "unbound_marker (grow obs s) = unbound_marker s" "inums (grow obs s) = inums s"
  "sym_eval_history_ptr (grow obs s) = sym_eval_history_ptr s"
  by (simp_all add: grow_def)

lemma val_on_grow: "val_on s v r \<Longrightarrow> val_on (grow obs s) v r"
  by (auto simp: val_on_def obj_at_grow split: val.splits)

lemma global_on_grow: "global_on s op c ob \<Longrightarrow> global_on (grow obs s) op c ob"
  by (auto simp: global_on_def obj_at_grow)

lemma source_grow: "source s R x e \<Longrightarrow> source (grow obs s) R x e" "sources s R xs es \<Longrightarrow> sources (grow obs s) R xs es"
proof (induction s R x e and s R xs es rule: source_sources.induct)
  case (3 s R x p a b)
  then show ?case by (simp, meson global_on_grow list_seg_grow)
next
  case (4 s R x a b e)
  then show ?case by (simp, meson global_on_grow list_seg_grow)
next
  case (5 s R x f es)
  then show ?case by (simp, meson list_seg_grow)
next
  case (2 s R x y)
  then show ?case by (auto intro: obj_at_grow)
qed (simp_all add: obj_at_grow)

lemma no_history_grow: "no_history s \<Longrightarrow> no_history (grow obs s)"
  unfolding no_history_def grow_globals by (blast intro: obj_at_grow)

lemma ready_grow: "ready s R P \<Longrightarrow> ready (grow obs s) R P"
  unfolding ready_def program_on_def
  by (simp add: inums_ok_def obj_at_grow no_history_grow) (meson global_on_grow obj_at_grow list_seg_grow source_grow(1))

lemma holds_env_grow:
  assumes "holds_env s env \<rho>" shows "holds_env (grow obs s) env \<rho>"
proof -
  obtain frames where f: "env_on s env frames" "\<And>y. case binding frames y of None \<Rightarrow> \<rho> y = None
     | Some a \<Rightarrow> a < length (cells s) \<and> (\<exists>v r d. \<rho> y = Some v \<and> cells s ! a = Tc_cons r d \<and> val_on s v r)"
    using assms unfolding holds_env_def by blast
  have c: "case binding frames y of None \<Rightarrow> \<rho> y = None
     | Some a \<Rightarrow> a < length (cells (grow obs s)) \<and> (\<exists>v r d. \<rho> y = Some v \<and> cells (grow obs s) ! a = Tc_cons r d \<and> val_on (grow obs s) v r)" for y
  proof (cases "binding frames y")
    case (Some a)
    then obtain v r d where "\<rho> y = Some v" "cells s ! a = Tc_cons r d" "a < length (cells s)" "val_on s v r"
      using f(2) [of y] by auto
    then show ?thesis using val_on_grow [of s v r obs] by (simp add: Some nth_append)
  qed (use f(2) [of y] in simp)
  show ?thesis unfolding holds_env_def by (rule exI, rule conjI, rule env_on_grow [OF f(1)], rule allI, rule c)
qed

section \<open>The evaluator runs them\<close>

lemma global_value_run:
  assumes "holds_env s env \<rho>" "\<rho> op = None" "global_on s op c ob"
  shows "variable_value op env s = (Ret c, s)"
proof -
  obtain frames where f: "env_on s env frames" "\<And>y. case binding frames y of None \<Rightarrow> \<rho> y = None
     | Some a \<Rightarrow> a < length (cells s) \<and> (\<exists>v r d. \<rho> y = Some v \<and> cells s ! a = Tc_cons r d \<and> val_on s v r)"
    using assms(1) unfolding holds_env_def by blast
  have n: "binding frames op = None" using f(2) [of op] assms(2) by (cases "binding frames op") auto
  obtain nm where "obj_at s op = Some (Tc_symbol nm c)" "c \<noteq> unbound_marker s" using assms(3) by (auto simp: global_on_def)
  then show ?thesis
    by (simp add: variable_value_def bind_run envlookup_run [OF f(1)] n VCELL_def obj_at_look)
qed

lemma history_run: "ready s R P \<Longrightarrow> eval_history x s = (Ret (), s)"
  by (auto simp: ready_def no_history_def eval_history_def bind_run VCELL_def obj_at_look is_cons_def)

text \<open>A combination up to the switch on the type of its operator.\<close>

lemma leval_combination:
  assumes "ready s R P" "holds_env s env \<rho>" "\<rho> op = None" "global_on s op c ob" "obj_at s x = Some (Tc_cons op l)"
  shows "siod_leval (Suc n) x env s = leval_call n (run n) c x env s"
proof -
  obtain nm where "obj_at s op = Some (Tc_symbol nm c)" using assms(4) by (auto simp: global_on_def)
  then show ?thesis
    by (simp add: siod_leval_def serve_def leval_body_def bind_run history_run [OF assms(1)] obj_at_look [OF assms(5)]
        eval_operator_def obj_at_look global_value_run [OF assms(2-4)])
qed

lemma flocons_grow:
  assumes "inums_ok s" "room 1 s" "\<bar>n\<bar> < 2 ^ 53"
  shows "\<exists>r obs. siod_flocons (of_long n) s = (Ret r, grow obs s) \<and> length obs \<le> 1 \<and> val_on (grow obs s) (Num n) r"
proof (cases "n < int (length (inums s)) \<and> 0 \<le> n")
  case True
  then have o: "obj_at s (inums s ! nat n) = Some (Tc_flonum (of_long n))"
    using assms(1) by (auto simp: inums_ok_def)
  have "dle (DZero False) (of_long n)"
    using dlt_of_long [of 0 n] deq_of_long [of 0 n] assms(3) True by (auto simp: dle_def)
  moreover have "0 < length (inums s)" using True by linarith
  ultimately have "siod_flocons (of_long n) s = (Ret (inums s ! nat n), s)"
    using True assms(3) by (simp add: siod_flocons_def c_long_of_long Let_def dsub_of_long)
  then show ?thesis using o assms(3)
    by (intro exI [of _ "inums s ! nat n"] exI [of _ "[]"]) (simp add: val_on_def)
next
  case False
  have "\<not> dle (DZero False) (of_long n)" if "n < 0"
    using dlt_of_long [of 0 n] deq_of_long [of 0 n] assms(3) that by (simp add: dle_def)
  then have "siod_flocons (of_long n) s = newcell (Tc_flonum (of_long n)) s"
    using False assms(3) by (auto simp: siod_flocons_def c_long_of_long Let_def not_less)
  then show ?thesis
    using newcell_run [of 0 s "Tc_flonum (of_long n)"] assms(2,3)
    by (intro exI [of _ "Ref (length (cells s))"] exI [of _ "[Tc_flonum (of_long n)]"]) (simp add: val_on_def obj_at_def)
qed

lemma list_on_no_vals [simp]: "list_on s d as [] \<longleftrightarrow> d = NIL \<and> as = []"
  by (cases as) auto

lemma two_args:
  "list_on s x as [op, xa, xb] \<Longrightarrow> \<exists>x1 x2. obj_at s x = Some (Tc_cons op x1) \<and> obj_at s x1 = Some (Tc_cons xa x2) \<and>
     obj_at s x2 = Some (Tc_cons xb NIL)"
  by (auto simp: list_seg_Cons_vals obj_at_def)

lemma three_args:
  "list_on s x as [op, xa, xb, xc] \<Longrightarrow> \<exists>x1 x2 x3. obj_at s x = Some (Tc_cons op x1) \<and> obj_at s x1 = Some (Tc_cons xa x2) \<and>
     obj_at s x2 = Some (Tc_cons xb x3) \<and> obj_at s x3 = Some (Tc_cons xc NIL)"
  by (auto simp: list_seg_Cons_vals obj_at_def)

lemma val_nil: "ready s R P \<Longrightarrow> val_on s v r \<Longrightarrow> (r = NIL) = (v = Truth False)"
  by (auto simp: val_on_def ready_def obj_at_def split: val.splits if_splits)

fun prim_fn :: "prim \<Rightarrow> siod_LISP \<Rightarrow> siod_LISP \<Rightarrow> siod_LISP act" where
  "prim_fn Plus = siod_plus"
| "prim_fn Minus = siod_difference"
| "prim_fn Times = siod_ltimes"
| "prim_fn Less = siod_lessp"

lemma prim_run:
  assumes "inums_ok s" "room 1 s" "val_on s u x" "val_on s v y" "prim_val p u v = Some w"
  shows "\<exists>r obs. prim_fn p x y s = (Ret r, grow obs s) \<and> length obs \<le> 1 \<and> val_on (grow obs s) w r"
proof -
  obtain i j where n: "u = Num i" "v = Num j" using assms(5) by (cases u; cases v; cases p) auto
  have b: "\<bar>i\<bar> < 2 ^ 53" "\<bar>j\<bar> < 2 ^ 53" and o: "obj_at s x = Some (Tc_flonum (of_long i))" "obj_at s y = Some (Tc_flonum (of_long j))"
    using assms(3,4) by (auto simp: n val_on_def)
  have f: "flonm m x s = (Ret (of_long i), s)" "flonm m y s = (Ret (of_long j), s)" for m
    using o by (simp_all add: flonm_def bind_run obj_at_look)
  have y: "y \<noteq> NIL" using o(2) by (rule obj_at_NIL)
  have run: "siod_plus x y s = siod_flocons (dadd (of_long i) (of_long j)) s"
    "siod_difference x y s = siod_flocons (dsub (of_long i) (of_long j)) s"
    "siod_ltimes x y s = siod_flocons (dmul (of_long i) (of_long j)) s"
    by (simp_all add: siod_plus_def siod_difference_def siod_ltimes_def y bind_run f)
  have arith: ?thesis if "prim_fn p x y s = siod_flocons (of_long k) s" "\<bar>k\<bar> < 2 ^ 53" "w = Num k" for k
    using flocons_grow [OF assms(1,2) that(2)] that(1,3) by simp
  show ?thesis
  proof (cases p)
    case Plus
    then show ?thesis using assms(5) b by (intro arith [of "i + j"]) (auto simp: n run small_def dadd_of_long split: if_splits)
  next
    case Minus
    then show ?thesis using assms(5) b by (intro arith [of "i - j"]) (auto simp: n run small_def dsub_of_long split: if_splits)
  next
    case Times
    have "dmul (of_long i) (of_long j) = of_long (i * j)" if "\<bar>i * j\<bar> < 2 ^ 53" "\<not> (i * j = 0 \<and> (i < 0 \<or> j < 0))"
      using that b dmul_0 [OF b] dmul_of_long [OF b(1) _ b(2)] by (cases "i = 0 \<or> j = 0") auto
    then show ?thesis using assms(5) Times by (intro arith [of "i * j"]) (auto simp: n run small_def split: if_splits)
  next
    case Less
    then show ?thesis using assms(5) b
      by (auto simp: n siod_lessp_def num_test_def bind_run gets_def f dlt_of_long val_on_def intro!: exI [of _ "[]"])
  qed
qed

text \<open>What the evaluator is to do for the expressions of an environment.\<close>

definition works :: "server \<Rightarrow> (expr \<Rightarrow> (val \<times> nat) option) \<Rightarrow> siod_LISP \<Rightarrow> siod \<Rightarrow> siod_LISP set \<Rightarrow> bool" where
  "works rc f env s R = (\<forall>obs x e v c. source s R x e \<longrightarrow> f e = Some (v, c) \<longrightarrow> room (length obs + c) s \<longrightarrow>
     (\<exists>r o1. rc (Eval x env) (grow obs s) = (Ret r, grow (obs @ o1) s) \<and> length o1 \<le> c \<and> val_on (grow (obs @ o1) s) v r))"

lemma worksD:
  "works rc f env s R \<Longrightarrow> source s R x e \<Longrightarrow> f e = Some (v, c) \<Longrightarrow> room (length obs + c) s \<Longrightarrow>
   \<exists>r o1. rc (Eval x env) (grow obs s) = (Ret r, grow (obs @ o1) s) \<and> length o1 \<le> c \<and> val_on (grow (obs @ o1) s) v r"
  by (simp add: works_def)

text \<open>Values and lists of values survive a change of a cons that is not theirs.\<close>

definition same_but :: "nat \<Rightarrow> siod \<Rightarrow> siod \<Rightarrow> bool" where
  "same_but c s s' = (sym_t s' = sym_t s \<and> length (cells s) \<le> length (cells s') \<and>
     (\<forall>a < length (cells s). a \<noteq> c \<longrightarrow> cells s' ! a = cells s ! a))"

lemma val_on_same_but: "same_but c s s' \<Longrightarrow> c < length (cells s) \<Longrightarrow> cells s ! c = Tc_cons a d \<Longrightarrow> val_on s v r \<Longrightarrow> val_on s' v r"
  by (auto simp: val_on_def same_but_def obj_at_def split: val.splits siod_LISP.splits if_splits)

lemma same_butD: "same_but c s s' \<Longrightarrow> a < length (cells s) \<Longrightarrow> a \<noteq> c \<Longrightarrow> cells s' ! a = cells s ! a"
  by (simp add: same_but_def)

lemma set_cdr_fresh:
  assumes "length (cells s) \<le> c" "c < length (cells s) + length obs" "obs ! (c - length (cells s)) = Tc_cons y d"
  shows "SET_CDR (Ref c) t (grow obs s) = (Ret (), grow (obs[c - length (cells s) := Tc_cons y t]) s)"
  using assms by (simp add: SET_CDR_def bind_run look_def nth_append store_def set_cell_def grow_def list_update_append)

lemma room_le: "room n s \<Longrightarrow> m \<le> n \<Longrightarrow> room m s"
  by (simp add: room_def)

lemma args_loop_run:
  assumes "works rc f env s R"
  shows "sources s R xs es \<Longrightarrow> seq_eval f es = Some (vs, d) \<Longrightarrow> list_on s v2 bs xs \<Longrightarrow> length es < k \<Longrightarrow>
    length (cells s) \<le> c \<Longrightarrow> c < length (cells s) + length obs \<Longrightarrow> obs ! (c - length (cells s)) = Tc_cons y NIL \<Longrightarrow>
    room (length obs + d) s \<Longrightarrow>
    \<exists>obs' cs rs t. args_loop k rc env (Ref c) v2 (grow obs s) = (Ret NIL, grow obs' s) \<and>
      length obs' \<le> length obs + d \<and> same_but c (grow obs s) (grow obs' s) \<and>
      cells (grow obs' s) ! c = Tc_cons y t \<and> list_on (grow obs' s) t cs rs \<and> list_all2 (val_on (grow obs' s)) vs rs"
proof (induction es arbitrary: xs vs d v2 bs k c obs y)
  case Nil
  then have "xs = []" "v2 = NIL" "vs = []" "d = 0" by (cases xs; auto)+
  then show ?case using Nil.prems
    by (cases k) (auto simp: bind_run same_but_def nth_append intro!: exI [of _ obs] exI [of _ NIL])
next
  case (Cons e es)
  let ?L = "length (cells s)"
  obtain x xs' where xs: "xs = x # xs'" "source s R x e" "sources s R xs' es" using Cons.prems(1) by (cases xs) auto
  obtain v c1 ws d1 where f: "f e = Some (v, c1)" "seq_eval f es = Some (ws, d1)" "vs = v # ws" "d = c1 + d1 + 1"
    using Cons.prems(2) by (auto split: option.splits)
  obtain a bs' v3 where l: "v2 = Ref a" "a < ?L" "cells s ! a = Tc_cons x v3" "list_on s v3 bs' xs'"
    using Cons.prems(3) by (auto simp: xs(1) list_seg_Cons_vals)
  obtain k' where k: "k = Suc k'" "length es < k'" using Cons.prems(4) by (cases k) auto
  have "room (length obs + c1) s" using Cons.prems(8) by (rule room_le) (simp add: f)
  from worksD [OF assms xs(2) f(1) this] obtain r o1 where 1:
    "rc (Eval x env) (grow obs s) = (Ret r, grow (obs @ o1) s)" "length o1 \<le> c1" "val_on (grow (obs @ o1) s) v r" by blast
  let ?i = "c - ?L" and ?c = "?L + length (obs @ o1)"
  let ?all = "obs @ o1 @ [Tc_cons r NIL]"
  let ?obs = "?all[?i := Tc_cons y (Ref ?c)]"
  have "room (Suc 0) (grow (obs @ o1) s)" using Cons.prems(8) 1(2) by (simp add: f(4) room_def)
  from cons_run [OF this] have cons: "siod_cons r NIL (grow (obs @ o1) s) = (Ret (Ref ?c), grow ?all s)" by simp
  have i: "?i < length obs" using Cons.prems(5,6) by simp
  have set: "SET_CDR (Ref c) (Ref ?c) (grow ?all s) = (Ret (), grow ?obs s)"
    using set_cdr_fresh [of s c ?all y NIL "Ref ?c"] Cons.prems(5-7) i by (simp add: nth_append)
  have cdr: "CDR v2 (grow ?obs s) = (Ret v3, grow ?obs s)"
    using l by (simp add: CDR_def bind_run look_def nth_append)
  have new: "?obs ! (?c - ?L) = Tc_cons r NIL" using i by (simp add: nth_append)
  have "room (length ?obs + d1) s" using Cons.prems(8) 1(2) by (simp add: f(4) room_def)
  from Cons.IH [OF xs(3) f(2) l(4) k(2) _ _ new this] obtain obs' cs rs t where 2:
    "args_loop k' rc env (Ref ?c) v3 (grow ?obs s) = (Ret NIL, grow obs' s)" "length obs' \<le> length ?obs + d1"
    "same_but ?c (grow ?obs s) (grow obs' s)" "cells (grow obs' s) ! ?c = Tc_cons r t"
    "list_on (grow obs' s) t cs rs" "list_all2 (val_on (grow obs' s)) ws rs" by auto
  have "args_loop k rc env (Ref c) v2 (grow obs s) = (Ret NIL, grow obs' s)"
    using obj_at_look [OF obj_at_grow, of s v2 "Tc_cons x v3" obs] l
    by (simp add: k(1) bind_run 1(1) cons set cdr [unfolded l(1)] 2(1) obj_at_def del: length_append)
  moreover have "length obs' \<le> length obs + d" using 2(2) 1(2) by (simp add: f(4))
  moreover have s1: "same_but c (grow (obs @ o1) s) (grow obs' s)"
    using 2(3) Cons.prems(5,6) by (auto simp: same_but_def nth_append nth_list_update)
  then have "same_but c (grow obs s) (grow obs' s)" by (auto simp: same_but_def nth_append)
  moreover have "cells (grow obs' s) ! c = Tc_cons y (Ref ?c)"
    using same_butD [OF 2(3), of c] Cons.prems(5,6) i by (simp add: nth_append)
  moreover have "val_on (grow obs' s) v r"
    using val_on_same_but [OF s1 _ _ 1(3)] Cons.prems(5-7) i by (simp add: nth_append)
  moreover have "list_on (grow obs' s) (Ref ?c) (?c # cs) (r # rs)"
    using 2(3,4,5) by (auto simp: same_but_def)
  ultimately show ?case using 2(6) unfolding f(3) by blast
qed

lemma leval_args_run:
  assumes "works rc f env s R" "sources s R xs es" "seq_eval f es = Some (vs, d)" "list_on s l bs xs"
    "length es \<le> k" "room d s"
  shows "\<exists>r obs cs rs. siod_leval_args k rc l env s = (Ret r, grow obs s) \<and> length obs \<le> d \<and>
    list_on (grow obs s) r cs rs \<and> list_all2 (val_on (grow obs s)) vs rs"
proof (cases es)
  case Nil
  then have "l = NIL" "vs = []" using assms(2,3,4) by (cases xs; auto)+
  then show ?thesis
    by (intro exI [of _ NIL] exI [of _ "[]"]) (simp add: siod_leval_args_def bind_run)
next
  case (Cons e es')
  let ?L = "length (cells s)"
  obtain x xs' where xs: "xs = x # xs'" "source s R x e" "sources s R xs' es'" using assms(2) by (cases xs) (auto simp: Cons)
  obtain v c1 ws d1 where f: "f e = Some (v, c1)" "seq_eval f es' = Some (ws, d1)" "vs = v # ws" "d = c1 + d1 + 1"
    using assms(3) by (auto simp: Cons split: option.splits)
  obtain a bs' l' where l: "l = Ref a" "a < ?L" "cells s ! a = Tc_cons x l'" "list_on s l' bs' xs'"
    using assms(4) by (auto simp: xs(1) list_seg_Cons_vals)
  have "room (length [] + c1) s" using assms(6) by (simp add: f(4) room_def)
  from worksD [OF assms(1) xs(2) f(1) this] obtain r o1 where 1:
    "rc (Eval x env) s = (Ret r, grow o1 s)" "length o1 \<le> c1" "val_on (grow o1 s) v r" by auto
  let ?c = "?L + length o1" and ?all = "o1 @ [Tc_cons r NIL]"
  have "room (Suc 0) (grow o1 s)" using assms(6) 1(2) by (simp add: f(4) room_def)
  from cons_run [OF this] have cons: "siod_cons r NIL (grow o1 s) = (Ret (Ref ?c), grow ?all s)" by simp
  have cdr: "CDR l (grow ?all s) = (Ret l', grow ?all s)"
    using l by (simp add: CDR_def bind_run look_def nth_append)
  have "length es' < k" "room (length ?all + d1) s" using assms(5,6) 1(2) by (simp_all add: Cons f(4) room_def)
  with args_loop_run [OF assms(1) xs(3) f(2) l(4), of k ?c ?all r] obtain obs' cs rs t where 2:
    "args_loop k rc env (Ref ?c) l' (grow ?all s) = (Ret NIL, grow obs' s)" "length obs' \<le> length ?all + d1"
    "same_but ?c (grow ?all s) (grow obs' s)" "cells (grow obs' s) ! ?c = Tc_cons r t"
    "list_on (grow obs' s) t cs rs" "list_all2 (val_on (grow obs' s)) ws rs" by (auto simp: nth_append)
  have "siod_leval_args k rc l env s = (Ret (Ref ?c), grow obs' s)"
    using obj_at_look [of s l "Tc_cons x l'"] l
    by (simp add: siod_leval_args_def bind_run 1(1) cons cdr [unfolded l(1)] 2(1) obj_at_def)
  moreover have "length obs' \<le> d" using 2(2) 1(2) by (simp add: f(4))
  moreover have "val_on (grow obs' s) v r"
    using 1(3) 2(3) by (intro val_on_same_but [of ?c "grow ?all s" "grow obs' s" r NIL])
      (auto simp: nth_append dest: val_on_grow [of _ _ _ "[Tc_cons r NIL]"])
  moreover have "list_on (grow obs' s) (Ref ?c) (?c # cs) (r # rs)"
    using 2(3,4,5) by (auto simp: same_but_def)
  ultimately show ?thesis using 2(6) unfolding f(3) by blast
qed

text \<open>The frame of a call.\<close>

lemma frame_binding:
  "list_on s l cs rs \<Longrightarrow> list_all2 (val_on s) vs rs \<Longrightarrow> length ps = length vs \<Longrightarrow>
   (case map_of (zip ps cs) y of None \<Rightarrow> map_of (zip ps vs) y = None
     | Some a \<Rightarrow> a < length (cells s) \<and> (\<exists>v r d. map_of (zip ps vs) y = Some v \<and> cells s ! a = Tc_cons r d \<and> val_on s v r))"
proof (induction ps arbitrary: l cs rs vs)
  case (Cons p ps)
  then obtain v vs' where v: "vs = v # vs'" by (cases vs) auto
  with Cons.prems obtain r rs' where r: "rs = r # rs'" "val_on s v r" "list_all2 (val_on s) vs' rs'" by (auto simp: list_all2_Cons1)
  with Cons.prems(1) obtain c cs' d where "cs = c # cs'" "c < length (cells s)" "cells s ! c = Tc_cons r d" "list_on s d cs' rs'"
    by (auto simp: list_seg_Cons_vals)
  with Cons.IH [of d cs' rs' vs'] r v Cons.prems(3) show ?case by (auto split: option.splits)
qed simp

lemma holds_call_frame:
  assumes "env_on s env [(ps, cs, rs)]" "list_on s l cs rs" "list_all2 (val_on s) vs rs" "length ps = length vs"
  shows "holds_env s env (map_of (zip ps vs))"
proof -
  have "case binding [(ps, cs, rs)] y of None \<Rightarrow> map_of (zip ps vs) y = None
     | Some a \<Rightarrow> a < length (cells s) \<and> (\<exists>v r d. map_of (zip ps vs) y = Some v \<and> cells s ! a = Tc_cons r d \<and> val_on s v r)" for y
    using frame_binding [OF assms(2-4), of y] by (simp split: option.splits)
  then show ?thesis unfolding holds_env_def using assms(1) by blast
qed

text \<open>The evaluator runs every expression that has a value at the depth n.\<close>

definition runs :: "program \<Rightarrow> siod_LISP set \<Rightarrow> nat \<Rightarrow> bool" where
  "runs P R n = (\<forall>s env \<rho> x e v c. ready s R P \<and> holds_env s env \<rho> \<and> dom \<rho> \<inter> R = {} \<and> source s R x e \<and>
     aeval P n \<rho> e = Some (v, c) \<and> room c s \<longrightarrow>
     (\<exists>r obs. run n (Eval x env) s = (Ret r, grow obs s) \<and> length obs \<le> c \<and> val_on (grow obs s) v r))"

lemma runsD:
  "runs P R n \<Longrightarrow> ready s R P \<Longrightarrow> holds_env s env \<rho> \<Longrightarrow> dom \<rho> \<inter> R = {} \<Longrightarrow> source s R x e \<Longrightarrow>
   aeval P n \<rho> e = Some (v, c) \<Longrightarrow> room c s \<Longrightarrow>
   \<exists>r obs. run n (Eval x env) s = (Ret r, grow obs s) \<and> length obs \<le> c \<and> val_on (grow obs s) v r"
  by (simp add: runs_def)

lemma works_intro:
  assumes "runs P R n" "ready s R P" "holds_env s env \<rho>" "dom \<rho> \<inter> R = {}"
  shows "works (run n) (aeval P n \<rho>) env s R"
  unfolding works_def
proof (intro allI impI)
  fix obs :: "obj list" and x e v c
  assume "source s R x e" "aeval P n \<rho> e = Some (v, c)" "room (length obs + c) s"
  then have "\<exists>r o1. run n (Eval x env) (grow obs s) = (Ret r, grow o1 (grow obs s)) \<and> length o1 \<le> c \<and>
      val_on (grow o1 (grow obs s)) v r"
    using runsD [OF assms(1) ready_grow [OF assms(2)] holds_env_grow [OF assms(3)] assms(4) source_grow(1)] by simp
  then show "\<exists>r o1. run n (Eval x env) (grow obs s) = (Ret r, grow (obs @ o1) s) \<and> length o1 \<le> c \<and>
      val_on (grow (obs @ o1) s) v r" by simp
qed

text \<open>A combination whose operator is a reserved name.\<close>

lemma global_call:
  assumes "ready s R P" "holds_env s env \<rho>" "dom \<rho> \<inter> R = {}" "op \<in> R" "global_on s op g ob" "list_on s x as (op # l)"
  shows "run (Suc n) (Eval x env) s = leval_call n (run n) g x env s"
proof -
  obtain d where "obj_at s x = Some (Tc_cons op d)" using assms(6) by (auto simp: list_seg_Cons_vals obj_at_def)
  moreover have "\<rho> op = None" using assms(3,4) by (cases "\<rho> op") auto
  ultimately show ?thesis using leval_combination [OF assms(1,2) _ assms(5)] unfolding siod_leval_def by blast
qed

lemma prim_call:
  assumes "works rc f env s R" "obj_at s op = Some (prim_cell p nm)" "list_on s x as [g, xa, xb]"
    "source s R xa a" "source s R xb b" "f a = Some (u, c)" "f b = Some (v, d)" "prim_val p u v = Some w"
    "room (c + d + 1) s" "inums_ok s"
  shows "\<exists>r obs. leval_call (Suc k) rc op x env s = (Ret r, grow obs s) \<and> length obs \<le> c + d + 1 \<and> val_on (grow obs s) w r"
proof -
  obtain x1 x2 where l: "obj_at s x = Some (Tc_cons g x1)" "obj_at s x1 = Some (Tc_cons xa x2)" "obj_at s x2 = Some (Tc_cons xb NIL)"
    using two_args [OF assms(3)] by blast
  have "room (length [] + c) s" using assms(9) by (simp add: room_def)
  from worksD [OF assms(1,4,6) this] obtain ra o1 where 1: "rc (Eval xa env) s = (Ret ra, grow o1 s)" "length o1 \<le> c"
    "val_on (grow o1 s) u ra" by auto
  have "room (length o1 + d) s" using assms(9) 1(2) by (simp add: room_def)
  from worksD [OF assms(1,5,7) this] obtain rb o2 where 2: "rc (Eval xb env) (grow o1 s) = (Ret rb, grow (o1 @ o2) s)"
    "length o2 \<le> d" "val_on (grow (o1 @ o2) s) v rb" by auto
  have "inums_ok (grow (o1 @ o2) s)" "room 1 (grow (o1 @ o2) s)"
    using assms(9,10) 1(2) 2(2) by (auto simp: inums_ok_def obj_at_grow room_def)
  from prim_run [OF this _ 2(3) assms(8), of ra] val_on_grow [OF 1(3), of o2] obtain r o3 where 3:
    "prim_fn p ra rb (grow (o1 @ o2) s) = (Ret r, grow (o1 @ o2 @ o3) s)" "length o3 \<le> 1" "val_on (grow (o1 @ o2 @ o3) s) w r"
    by auto
  note look = obj_at_look [OF obj_at_grow [OF l(1)]] obj_at_look [OF obj_at_grow [OF l(2)]] obj_at_look [OF obj_at_grow [OF l(3)]]
    obj_at_look [OF l(1)] obj_at_look [OF l(2)] obj_at_look [OF l(3)]
  have "leval_call (Suc k) rc op x env s = (Ret r, grow (o1 @ o2 @ o3) s)"
    using obj_at_look [OF assms(2)] 3(1) obj_at_NIL [OF l(2)] obj_at_NIL [OF l(3)]
    by (cases p) (simp_all add: leval_call_def prim_cell_def bind_run CDR_def look ev_car_def siod_car_def siod_cdr_def
        tail_of_def 1(1) 2(1))
  then show ?thesis using 1(2) 2(2) 3(2,3) by (intro exI [of _ r] exI [of _ "o1 @ o2 @ o3"]) simp
qed

lemma if_call:
  assumes "works rc f env s R" "obj_at s op = Some (Tc_msubr nm F_leval_if)" "list_on s x as [g, xa, xb, xe]"
    "source s R xa a" "source s R xb b" "source s R xe e" "f a = Some (u, c)"
    "f (if u = Truth False then e else b) = Some (v, d)" "room (c + d) s" "ready s R P"
  shows "\<exists>r obs. leval_call k rc op x env s = (Ret r, grow obs s) \<and> length obs \<le> c + d \<and> val_on (grow obs s) v r"
proof -
  obtain x1 x2 x3 where l: "obj_at s x = Some (Tc_cons g x1)" "obj_at s x1 = Some (Tc_cons xa x2)"
    "obj_at s x2 = Some (Tc_cons xb x3)" "obj_at s x3 = Some (Tc_cons xe NIL)"
    using three_args [OF assms(3)] by blast
  have "room (length [] + c) s" using assms(9) by (simp add: room_def)
  from worksD [OF assms(1,4,7) this] obtain ra o1 where 1: "rc (Eval xa env) s = (Ret ra, grow o1 s)" "length o1 \<le> c"
    "val_on (grow o1 s) u ra" by auto
  let ?x = "if u = Truth False then xe else xb"
  have "room (length o1 + d) s" "source s R ?x (if u = Truth False then e else b)"
    using assms(5,6,9) 1(2) by (simp_all add: room_def)
  from worksD [OF assms(1) this(2) assms(8) this(1)] obtain r o2 where 2: "rc (Eval ?x env) (grow o1 s) = (Ret r, grow (o1 @ o2) s)"
    "length o2 \<le> d" "val_on (grow (o1 @ o2) s) v r" by auto
  have n: "(ra = NIL) = (u = Truth False)" using val_nil [OF ready_grow [OF assms(10)] 1(3)] .
  note look = obj_at_look [OF obj_at_grow [OF l(2)]] obj_at_look [OF obj_at_grow [OF l(3)]] obj_at_look [OF obj_at_grow [OF l(4)]]
    obj_at_look [OF l(1)] obj_at_look [OF l(2)] obj_at_look [OF l(3)] obj_at_look [OF l(4)]
  have "leval_call k rc op x env s = (Ret r, grow (o1 @ o2) s)"
    using obj_at_look [OF assms(2)] n 2(1)
    by (cases "u = Truth False") (simp_all add: leval_call_def siod_leval_if_def bind_run look ev_car_def siod_car_def siod_cdr_def 1(1))
  then show ?thesis using 1(2) 2(2,3) by (intro exI [of _ r] exI [of _ "o1 @ o2"]) simp
qed

lemma seq_eval_length: "seq_eval f es = Some (vs, c) \<Longrightarrow> length vs = length es"
  by (induction es arbitrary: vs c) (auto split: option.splits)

lemma call_call:
  assumes "works rc f env s R" "list_on s x as (g # xs)" "sources s R xs es" "seq_eval f es = Some (vs, c)"
    "obj_at s op = Some (Tc_closure NIL code)" "obj_at s code = Some (Tc_cons formals body)" "list_on s formals fas ps"
    "length ps = length vs" "length vs \<le> k" "room (c + 2) s"
  shows "\<exists>env' obs. leval_call k rc op x env s = rc (Eval body env') (grow obs s) \<and> length obs \<le> c + 2 \<and>
    holds_env (grow obs s) env' (map_of (zip ps vs))"
proof -
  obtain l bs where l: "obj_at s x = Some (Tc_cons g l)" "list_on s l bs xs"
    using assms(2) by (auto simp: list_seg_Cons_vals obj_at_def)
  have "length es \<le> k" using assms(9) seq_eval_length [OF assms(4)] by simp
  moreover have "room c s" using assms(10) by (simp add: room_def)
  ultimately obtain actuals o1 cs rs where 1: "siod_leval_args k rc l env s = (Ret actuals, grow o1 s)" "length o1 \<le> c"
    "list_on (grow o1 s) actuals cs rs" "list_all2 (val_on (grow o1 s)) vs rs"
    using leval_args_run [OF assms(1,3,4) l(2)] by blast
  have "room 2 (grow o1 s)" using assms(10) 1(2) by (simp add: room_def)
  moreover have "length ps = length rs" using assms(8) 1(4) by (simp add: list_all2_lengthD)
  moreover have e: "env_on (grow o1 s) NIL []" by (simp add: env_on_def)
  ultimately obtain env' o2 where a: "env_on (grow o2 (grow o1 s)) env' [(ps, cs, rs)]" "length o2 = 2"
    "\<forall>rc k x op' l env s0 c0. obj_at s0 x = Some (Tc_cons op' l) \<and> obj_at s0 op = Some (Tc_closure NIL code) \<and>
       obj_at s0 code = Some (Tc_cons c0 body) \<and> siod_leval_args k rc l env s0 = (Ret actuals, grow o1 s) \<longrightarrow>
       leval_call k rc op x env s0 = rc (Eval body env') (grow o2 (grow o1 s))"
    using closure_applied [OF obj_at_grow [OF assms(5)] obj_at_grow [OF assms(6)] e list_seg_grow [OF assms(7)] 1(3)] by blast
  then have 2: "env_on (grow (o1 @ o2) s) env' [(ps, cs, rs)]" "length o2 = 2"
    "leval_call k rc op x env s = rc (Eval body env') (grow (o1 @ o2) s)"
    using l(1) assms(5,6) 1(1) by simp_all
  have "list_on (grow (o1 @ o2) s) actuals cs rs" using list_seg_grow [OF 1(3), of o2] by simp
  moreover have "list_all2 (val_on (grow (o1 @ o2) s)) vs rs"
    using 1(4) by (rule list_all2_mono) (use val_on_grow [of "grow o1 s" _ _ o2] in simp)
  ultimately have "holds_env (grow (o1 @ o2) s) env' (map_of (zip ps vs))"
    using holds_call_frame [OF 2(1)] assms(8) by blast
  then show ?thesis using 1(2) 2(2,3) by (intro exI [of _ env'] exI [of _ "o1 @ o2"]) simp
qed

lemma local_value_run:
  assumes "holds_env s env \<rho>" "\<rho> y = Some v"
  shows "\<exists>r. variable_value y env s = (Ret r, s) \<and> val_on s v r"
proof -
  obtain frames where f: "env_on s env frames" "\<And>y. case binding frames y of None \<Rightarrow> \<rho> y = None
     | Some a \<Rightarrow> a < length (cells s) \<and> (\<exists>v r d. \<rho> y = Some v \<and> cells s ! a = Tc_cons r d \<and> val_on s v r)"
    using assms(1) unfolding holds_env_def by blast
  obtain a r d where "binding frames y = Some a" "a < length (cells s)" "cells s ! a = Tc_cons r d" "val_on s v r"
    using f(2) [of y] assms(2) by (cases "binding frames y") auto
  then show ?thesis by (simp add: variable_value_def bind_run envlookup_run [OF f(1)] CAR_def look_def)
qed

lemma leaf_case:
  assumes "ready s R P" "holds_env s env \<rho>" "source s R x e" "aeval P (Suc n) \<rho> e = Some (v, c)"
    "(\<exists>i. e = Lit i) \<or> (\<exists>y. e = Var y)"
  shows "\<exists>r. run (Suc n) (Eval x env) s = (Ret r, s) \<and> val_on s v r"
proof (cases e)
  case (Lit i)
  then show ?thesis using assms(3,4)
    by (intro exI [of _ x]) (auto simp: serve_def leval_body_def bind_run history_run [OF assms(1)] obj_at_look val_on_def
      small_def split: if_splits)
next
  case (Var y)
  then obtain nm g where y: "x = y" "obj_at s y = Some (Tc_symbol nm g)" "\<rho> y = Some v" using assms(3,4) by auto
  from local_value_run [OF assms(2) y(3)] show ?thesis
    by (simp add: y(1) serve_def leval_body_def bind_run history_run [OF assms(1)] obj_at_look [OF y(2)])
qed (use assms(5) in auto)

lemma prim_case:
  assumes "runs P R n" "ready s R P" "holds_env s env \<rho>" "dom \<rho> \<inter> R = {}" "source s R x (Prim p a b)"
    "aeval P (Suc n) \<rho> (Prim p a b) = Some (v, c)" "room c s"
  shows "\<exists>r obs. run (Suc n) (Eval x env) s = (Ret r, grow obs s) \<and> length obs \<le> c \<and> val_on (grow obs s) v r"
proof -
  obtain as op xa xb g nm where x: "list_on s x as [op, xa, xb]" "op \<in> R" "global_on s op g (prim_cell p nm)"
    "source s R xa a" "source s R xb b" using assms(5) by auto
  obtain u c1 v' c2 where f: "aeval P n \<rho> a = Some (u, c1)" "aeval P n \<rho> b = Some (v', c2)" "prim_val p u v' = Some v"
    "c = c1 + c2 + 1" using assms(6) by (auto split: option.splits)
  obtain k where k: "n = Suc k" using f(1) by (cases n) auto
  have "obj_at s g = Some (prim_cell p nm)" "inums_ok s" using x(3) assms(2) by (auto simp: global_on_def ready_def)
  then show ?thesis using prim_call [OF works_intro [OF assms(1-4)] _ x(1,4,5) f(1-3) _, of g nm k] assms(7)
    unfolding global_call [OF assms(2-4) x(2,3,1)] unfolding f(4) k by blast
qed

lemma cond_case:
  assumes "runs P R n" "ready s R P" "holds_env s env \<rho>" "dom \<rho> \<inter> R = {}" "source s R x (Cond a b e)"
    "aeval P (Suc n) \<rho> (Cond a b e) = Some (v, c)" "room c s"
  shows "\<exists>r obs. run (Suc n) (Eval x env) s = (Ret r, grow obs s) \<and> length obs \<le> c \<and> val_on (grow obs s) v r"
proof -
  obtain as op xa xb xe g nm where x: "list_on s x as [op, xa, xb, xe]" "op \<in> R" "global_on s op g (Tc_msubr nm F_leval_if)"
    "source s R xa a" "source s R xb b" "source s R xe e" using assms(5) by auto
  obtain u c1 c2 where f: "aeval P n \<rho> a = Some (u, c1)" "aeval P n \<rho> (if u = Truth False then e else b) = Some (v, c2)"
    "c = c1 + c2" using assms(6) by (auto split: option.splits)
  have "obj_at s g = Some (Tc_msubr nm F_leval_if)" using x(3) by (simp add: global_on_def)
  then show ?thesis using if_call [OF works_intro [OF assms(1-4)] _ x(1,4,5,6) f(1,2) _ assms(2), of g nm n] assms(7)
    unfolding global_call [OF assms(2-4) x(2,3,1)] f(3) by blast
qed

lemma call_case:
  assumes "runs P R n" "ready s R P" "holds_env s env \<rho>" "dom \<rho> \<inter> R = {}" "source s R x (Call f es)"
    "aeval P (Suc n) \<rho> (Call f es) = Some (v, c)" "room c s"
  shows "\<exists>r obs. run (Suc n) (Eval x env) s = (Ret r, grow obs s) \<and> length obs \<le> c \<and> val_on (grow obs s) v r"
proof -
  obtain ps body vs c1 c2 where e: "P f = Some (ps, body)" "seq_eval (aeval P n \<rho>) es = Some (vs, c1)" "length ps = length vs"
    "length vs \<le> n" "aeval P n (map_of (zip ps vs)) body = Some (v, c2)" "c = c1 + 2 + c2"
    using assms(6) by (auto split: option.splits if_splits)
  obtain as xs where x: "list_on s x as (f # xs)" "f \<in> R" "sources s R xs es" using assms(5) by auto
  obtain g code formals fas xb where p: "global_on s f g (Tc_closure NIL code)" "obj_at s code = Some (Tc_cons formals xb)"
    "list_on s formals fas ps" "source s R xb body" "set ps \<inter> R = {}"
    using assms(2) e(1) unfolding ready_def program_on_def by blast
  have "obj_at s g = Some (Tc_closure NIL code)" "room (c1 + 2) s"
    using p(1) assms(7) by (simp_all add: global_on_def e(6) room_def)
  from call_call [OF works_intro [OF assms(1-4)] x(1,3) e(2) this(1) p(2,3) e(3,4) this(2)] obtain env' o1 where 1:
    "leval_call n (run n) g x env s = run n (Eval xb env') (grow o1 s)" "length o1 \<le> c1 + 2"
    "holds_env (grow o1 s) env' (map_of (zip ps vs))" by blast
  have "dom (map_of (zip ps vs)) \<inter> R = {}" using p(5) by (auto dest!: map_of_SomeD set_zip_leftD)
  moreover have "room c2 (grow o1 s)" using assms(7) 1(2) by (simp add: e(6) room_def)
  ultimately obtain r o2 where "run n (Eval xb env') (grow o1 s) = (Ret r, grow (o1 @ o2) s)" "length o2 \<le> c2"
    "val_on (grow (o1 @ o2) s) v r"
    using runsD [OF assms(1) ready_grow [OF assms(2)] 1(3) _ source_grow(1) [OF p(4)] e(5)] by auto
  then show ?thesis using 1(1,2) unfolding global_call [OF assms(2-4) x(2) p(1) x(1)] e(6)
    by (intro exI [of _ r] exI [of _ "o1 @ o2"]) simp
qed

lemma all_run: "runs P R n"
proof (induction n)
  case (Suc n)
  have "\<exists>r obs. run (Suc n) (Eval x env) s = (Ret r, grow obs s) \<and> length obs \<le> c \<and> val_on (grow obs s) v r"
    if a: "ready s R P" "holds_env s env \<rho>" "dom \<rho> \<inter> R = {}" "source s R x e" "aeval P (Suc n) \<rho> e = Some (v, c)" "room c s"
    for s env \<rho> x e v c
  proof (cases "(\<exists>i. e = Lit i) \<or> (\<exists>y. e = Var y)")
    case True
    from leaf_case [OF a(1,2,4,5) True] obtain r where "run (Suc n) (Eval x env) s = (Ret r, s)" "val_on s v r" by blast
    then show ?thesis by (intro exI [of _ r] exI [of _ "[]"]) simp
  next
    case False
    then consider p a' b' where "e = Prim p a' b'" | a' b' e' where "e = Cond a' b' e'" | f es where "e = Call f es" by (cases e) auto
    then show ?thesis
    proof cases
      case 1
      show ?thesis by (rule prim_case [OF Suc a(1-3) a(4,5) [unfolded 1] a(6)])
    next
      case 2
      show ?thesis by (rule cond_case [OF Suc a(1-3) a(4,5) [unfolded 2] a(6)])
    next
      case 3
      show ?thesis by (rule call_case [OF Suc a(1-3) a(4,5) [unfolded 3] a(6)])
    qed
  qed
  then show ?case unfolding runs_def by blast
qed (simp add: runs_def)

text \<open>
  C8. The evaluator runs recursive programs: if the semantics gives an expression of integers, variables, the
  primitives + - * <, if, and calls of global closures a value at a depth n, and there is room for the cells it counts,
  then leval returns at that depth a cell that holds the value, and all it does to the store is add at most so many cells.
\<close>

theorem leval_runs_programs:
  assumes "ready s R P" "holds_env s env \<rho>" "dom \<rho> \<inter> R = {}" "source s R x e" "aeval P n \<rho> e = Some (v, c)" "room c s"
  shows "\<exists>r obs. siod_leval n x env s = (Ret r, grow obs s) \<and> length obs \<le> c \<and> val_on (grow obs s) v r"
  unfolding siod_leval_def using all_run assms by (rule runsD)

text \<open>The function fact of one parameter, and the expression (fact 3).\<close>

definition fact_example :: siod where
  "fact_example = (small_state
     [Tc_symbol ''if'' (Ref 2), Tc_msubr ''if'' F_leval_if, Tc_symbol ''<'' (Ref 4), Tc_subr_2 ''<'' F_lessp,
      Tc_symbol ''*'' (Ref 6), Tc_subr_2n ''*'' F_ltimes, Tc_symbol ''-'' (Ref 8), Tc_subr_2n ''-'' F_difference,
      Tc_symbol ''fact'' (Ref 10), Tc_closure NIL (Ref 11), Tc_cons (Ref 12) (Ref 14), Tc_cons (Ref 13) NIL,
      Tc_symbol ''n'' NIL,
      Tc_cons (Ref 1) (Ref 15), Tc_cons (Ref 18) (Ref 16), Tc_cons (Ref 32) (Ref 17), Tc_cons (Ref 21) NIL,
      Tc_cons (Ref 3) (Ref 19), Tc_cons (Ref 13) (Ref 20), Tc_cons (Ref 32) NIL,
      Tc_cons (Ref 5) (Ref 22), Tc_cons (Ref 13) (Ref 23), Tc_cons (Ref 24) NIL,
      Tc_cons (Ref 9) (Ref 25), Tc_cons (Ref 26) NIL,
      Tc_cons (Ref 7) (Ref 27), Tc_cons (Ref 13) (Ref 28), Tc_cons (Ref 32) NIL,
      Tc_cons (Ref 9) (Ref 30), Tc_cons (Ref 31) NIL, Tc_flonum (of_long 3), Tc_flonum (of_long 1)])
     \<lparr>heap_size := 100\<rparr>"

definition fact_program :: program where
  "fact_program f = (if f = Ref 9 then Some ([Ref 13],
     Cond (Prim Less (Var (Ref 13)) (Lit 1)) (Lit 1)
       (Prim Times (Var (Ref 13)) (Call (Ref 9) [Prim Minus (Var (Ref 13)) (Lit 1)]))) else None)"

lemma fact_example_cells:
  "cells fact_example = [Tc_symbol ''t'' (Ref 0), Tc_symbol ''if'' (Ref 2), Tc_msubr ''if'' F_leval_if, Tc_symbol ''<'' (Ref 4), Tc_subr_2 ''<'' F_lessp,
      Tc_symbol ''*'' (Ref 6), Tc_subr_2n ''*'' F_ltimes, Tc_symbol ''-'' (Ref 8), Tc_subr_2n ''-'' F_difference,
      Tc_symbol ''fact'' (Ref 10), Tc_closure NIL (Ref 11), Tc_cons (Ref 12) (Ref 14), Tc_cons (Ref 13) NIL,
      Tc_symbol ''n'' NIL,
      Tc_cons (Ref 1) (Ref 15), Tc_cons (Ref 18) (Ref 16), Tc_cons (Ref 32) (Ref 17), Tc_cons (Ref 21) NIL,
      Tc_cons (Ref 3) (Ref 19), Tc_cons (Ref 13) (Ref 20), Tc_cons (Ref 32) NIL,
      Tc_cons (Ref 5) (Ref 22), Tc_cons (Ref 13) (Ref 23), Tc_cons (Ref 24) NIL,
      Tc_cons (Ref 9) (Ref 25), Tc_cons (Ref 26) NIL,
      Tc_cons (Ref 7) (Ref 27), Tc_cons (Ref 13) (Ref 28), Tc_cons (Ref 32) NIL,
      Tc_cons (Ref 9) (Ref 30), Tc_cons (Ref 31) NIL, Tc_flonum (of_long 3), Tc_flonum (of_long 1)]"
  "heap_size fact_example = 100" "inums fact_example = []" "sym_t fact_example = Ref 0" "unbound_marker fact_example = NIL"
  "sym_eval_history_ptr fact_example = Ref 0"
  by (simp_all add: fact_example_def small_state_def)

lemma source_rules:
  "list_on s x as [op, xa, xb] \<Longrightarrow> global_on s op c (prim_cell p nm) \<Longrightarrow> op \<in> R \<Longrightarrow> source s R xa a \<Longrightarrow> source s R xb b \<Longrightarrow>
     source s R x (Prim p a b)"
  "list_on s x as [op, xa, xb, xe] \<Longrightarrow> global_on s op c (Tc_msubr nm F_leval_if) \<Longrightarrow> op \<in> R \<Longrightarrow> source s R xa a \<Longrightarrow>
     source s R xb b \<Longrightarrow> source s R xe e \<Longrightarrow> source s R x (Cond a b e)"
  "list_on s x as (f # xs) \<Longrightarrow> f \<in> R \<Longrightarrow> sources s R xs es \<Longrightarrow> source s R x (Call f es)"
  unfolding source.simps by blast+

abbreviation fact_names :: "siod_LISP set" where
  "fact_names \<equiv> {Ref 1, Ref 3, Ref 5, Ref 7, Ref 9}"

lemma fact_source:
  "source fact_example fact_names (Ref 14)
     (Cond (Prim Less (Var (Ref 13)) (Lit 1)) (Lit 1)
       (Prim Times (Var (Ref 13)) (Call (Ref 9) [Prim Minus (Var (Ref 13)) (Lit 1)])))"
  "source fact_example fact_names (Ref 29) (Call (Ref 9) [Lit 3])"
proof -
  have g: "global_on fact_example (Ref 1) (Ref 2) (Tc_msubr ''if'' F_leval_if)"
    "global_on fact_example (Ref 3) (Ref 4) (prim_cell Less ''<'')" "global_on fact_example (Ref 5) (Ref 6) (prim_cell Times ''*'')"
    "global_on fact_example (Ref 7) (Ref 8) (prim_cell Minus ''-'')"
    by (simp_all add: global_on_def obj_at_def fact_example_cells prim_cell_def)
  have l: "list_on fact_example (Ref 14) [14, 15, 16, 17] [Ref 1, Ref 18, Ref 32, Ref 21]"
    "list_on fact_example (Ref 18) [18, 19, 20] [Ref 3, Ref 13, Ref 32]"
    "list_on fact_example (Ref 21) [21, 22, 23] [Ref 5, Ref 13, Ref 24]"
    "list_on fact_example (Ref 24) [24, 25] [Ref 9, Ref 26]"
    "list_on fact_example (Ref 26) [26, 27, 28] [Ref 7, Ref 13, Ref 32]"
    "list_on fact_example (Ref 29) [29, 30] [Ref 9, Ref 31]"
    by (simp_all add: fact_example_cells)
  have v: "source fact_example fact_names (Ref 13) (Var (Ref 13))" "source fact_example fact_names (Ref 32) (Lit 1)"
    "source fact_example fact_names (Ref 31) (Lit 3)"
    by (simp_all add: obj_at_def fact_example_cells)
  have "source fact_example fact_names (Ref 26) (Prim Minus (Var (Ref 13)) (Lit 1))"
    by (rule source_rules(1) [OF l(5) g(4) _ v(1,2)]) simp
  then have "source fact_example fact_names (Ref 24) (Call (Ref 9) [Prim Minus (Var (Ref 13)) (Lit 1)])"
    by (intro source_rules(3) [OF l(4)]) simp_all
  then have "source fact_example fact_names (Ref 21) (Prim Times (Var (Ref 13)) (Call (Ref 9) [Prim Minus (Var (Ref 13)) (Lit 1)]))"
    by (intro source_rules(1) [OF l(3) g(3) _ v(1)]) simp
  moreover have "source fact_example fact_names (Ref 18) (Prim Less (Var (Ref 13)) (Lit 1))"
    by (rule source_rules(1) [OF l(2) g(2) _ v(1,2)]) simp
  ultimately show "source fact_example fact_names (Ref 14)
     (Cond (Prim Less (Var (Ref 13)) (Lit 1)) (Lit 1)
       (Prim Times (Var (Ref 13)) (Call (Ref 9) [Prim Minus (Var (Ref 13)) (Lit 1)])))"
    by (intro source_rules(2) [OF l(1) g(1) _ _ v(2)]) simp
  show "source fact_example fact_names (Ref 29) (Call (Ref 9) [Lit 3])"
    using v(3) by (intro source_rules(3) [OF l(6)]) simp_all
qed

lemma fact_ready: "ready fact_example fact_names fact_program"
proof -
  have "global_on fact_example (Ref 9) (Ref 10) (Tc_closure NIL (Ref 11))" "obj_at fact_example (Ref 11) = Some (Tc_cons (Ref 12) (Ref 14))"
    "list_on fact_example (Ref 12) [12] [Ref 13]" "set [Ref 13] \<inter> fact_names = {}"
    by (simp_all add: global_on_def obj_at_def fact_example_cells)
  then have "program_on fact_example fact_names fact_program"
    unfolding program_on_def fact_program_def using fact_source(1) by (auto split: if_splits simp del: source.simps list_seg.simps; blast)
  then show ?thesis
    by (simp add: ready_def no_history_def inums_ok_def obj_at_def fact_example_cells is_cons_def)
qed

lemma fact_value: "aeval fact_program 16 (\<lambda>_. None) (Call (Ref 9) [Lit 3]) = Some (Num 6, 22)"
  by (simp add: eval_nat_numeral fact_program_def small_def)

theorem leval_runs_programs_witness:
  "\<exists>r obs. siod_leval 16 (Ref 29) NIL fact_example = (Ret r, grow obs fact_example) \<and>
     obj_at (grow obs fact_example) r = Some (Tc_flonum (of_long 6))"
proof -
  have "holds_env fact_example NIL (\<lambda>_. None)"
    by (auto simp: holds_env_def env_on_def intro!: exI [of _ "[]"])
  from leval_runs_programs [OF fact_ready this _ fact_source(2) fact_value] show ?thesis
    by (auto simp: room_def fact_example_cells val_on_def)
qed

end
