(* ===== verification/Spec2Isabelle.thy ===== *)
theory Spec2Isabelle
  imports Init List_Theorems Env_Theorems Interp_Theorems GC_Mark GC_Copy Array_Theorems Codecs Md5 Data Startup Repl_Facts Higher Load_Trip Writer Fasl Subrs System Md5_Lisp GC_Stats Programs
begin

text \<open>
  A verification development for ulsiod, the Scheme interpreter of src/src: slib.c (the interpreter), sliba.c (arrays,
  strings and lists), slibu.c (the operating system), trace.c, md5.c and the headers ulsiod.h and siodp.h.

  The program.  Lisp objects are cells of one size in a heap; a cell is a type code and the members of a union that the
  code selects.  The reader makes cells from a text, the evaluator (leval, lapply) walks them, looks variables up in
  environments that are lists of frames, calls C functions through subr cells, and the printer writes them as text.
  Errors and throws leave through longjmp, to the frame of a catch or to the read-eval-print loop.  One of two
  collectors recovers cells: stop-and-copy between two evaluations, or mark-and-sweep when the free list is empty.

  The theories and the code they model.
    Prelude, Flonum: words and C strings; IEEE doubles as integers times powers of two with their special values and
      rounding to 53 bits.
    Lisp: struct obj (datatype obj, one constructor for a type code), the globals (record siod), outcomes of C functions.
      An operation is a function of type 'a act, from the state to an outcome and the state after it; the outcomes are
      a return, a longjmp to a catch frame (Jump) or to the loop (Errjmp), an exit, undefined behaviour (Undef) and a
      computation that its fuel did not suffice for (Nofuel).
    Store: err, newcell, cons, car, cdr, strings, symbols, closures (slib.c).
    Wellformed: the invariant wf_state (no dangling pointer in a cell or a global), the relation later of a state and
      one that an operation leaves behind, the judgement okM that each operation is proved to satisfy.
    Numbers: the arithmetic of slib.c.
    Symbols, Symbol_Facts, Symtab: the obarray and its refinement to a finite map from names to symbols.
    Lists, List_Facts, List_Theorems: list operations of slib.c and sliba.c.
    Env, Env_Theorems: envlookup, extend_env, setvar, symbol_value and the refinement to environments as lists of maps.
    Eval, Eval_Sound, Eval_Fuel, Interp_Theorems: leval, lapply, the special forms and macros, catch and throw.
      leval and lapply serve requests (datatype request); the C functions that call back into the evaluator take the
      server of such requests as an argument, and run ties the knot with fuel.
    Programs: closures applied to arguments, and the evaluator against a semantics of first-order recursive programs over
      integers that has no store and counts the cells that an evaluation takes; its cases of the proof follow leval
      through the switch on the operator, leval_args and extend_env.
    Init: init_storage_1 and the entry of a subr.
    GC_Mark: gc_mark, the conservative scan of the stack, the sweep and the heaps of the mark-and-sweep collector; the
      hooks of arrays (sliba.c) and of traced closures (trace.c).
    GC_Copy: gc_stop_and_copy with forwarding pointers.
    Arrays, Array_Theorems: strings and arrays (sliba.c).   Codecs: base64, hexadecimal, URL and HTML encodings.
    Md5: md5.c for words of any width.   Data: typeof, bit operations, property and option lists, datref, mode, stat
      and tm structures.   Hash: sxhash, equal, assoc, member, hash tables.
    Printf, Printf_Facts: number->string, string->number and the conversions of the C library on the exact doubles.
    Printer, Print_Facts: prin1 on every type of object, print-to-string, symbolconc, apropos.
    Reader, Read_Facts: lreadr, lreadparen, lreadtk, lreadstring, lreadsharp, read-from-string.
    Round_Trip: the reader after the printer.
    Startup: the command line, bounded string copies, embedded scripts, the deferral of interrupts.
    Repl, Repl_Facts: repl, repl_driver and repl_c_string.
    Higher: qsort, subset, aref with a default, the benchmarks.
    Files: cells of files and the functions on them (slib.c, sliba.c, slibu.c), on the streams and the disk of the state.
    Load, Load_Facts, Load_Trip: load, require, save-forms; reading back what was saved.
    Writer: writes and swrite.   Fasl: fast-print, fast-read, fast-load and fast-save (sliba.c).
    Subrs: the tables of siod_init_subrs, siod_init_subrs_a, siod_init_trace and siod_init_slibu, ulsiod_init, which goes
      through them, and what they bind.
    System: files, locks, users, processes, times, shared objects and cgi-main (slibu.c) over an operating system.
    Md5_Lisp: the functions of slibu.c on an MD5 context.   GC_Stats: gc, gc-status, gc-info (slib.c).

  Interfaces.  sound_server states what C functions, the reader, load and the loop need of the evaluator that they call, and run
  interprets it;
  order_call states what qsort needs of the function it compares with, and the subr of < interprets it; pure_test states
  what the loops over a list need of the predicate they call, and the comparisons interpret it; better_server states that
  a server with more fuel gives the same answers, and run interprets it; sink states what the printer needs of the
  function it writes with, and the output buffers of strings, of the loop and of files interpret it.

  What the lemmas show.  Each component has lemmas ok_<operation>: from a state without dangling pointers it ends in such
  a state, keeps the types of cells, the names of symbols and the values of numbers, and keeps the stack of catch
  frames on a return.  On top of these the properties give the
  functional behaviour of the components, with C1 to C39 as their numbers in the manifest.

  Fuel.  run, and with it leval and lapply, takes fuel, for an evaluation may not end; the outcome does not depend on it
  (leval_fuel_irrelevant), and for the programs of the theory Programs a depth at which their semantics has a value is
  enough.  Loops over a list are bounded by the size of the heap (bound) where the list may be
  circular, which exceeds the length of every list that ends; a loop that runs out has met a circular list, on which
  the C code does not end.  The reader and the printer take the depth of the recursion; steps bounds what an expression
  needs.  siod_repl takes the number of rounds.

  Choices where C leaves them open, and what is not part of the model.
    Arguments of a C call are evaluated from left to right.  malloc succeeds.  Memory that malloc gives is a parameter
    (memory) where the code reads it before it is written.  Pointers and NaN print as parameters (print_lib), random
    numbers are a parameter (rnd of siod_lqsort), times and the file to load first are fields of repl_env.
    newcell collects in mark-and-sweep mode only, so an evaluation in the model, which runs in copying mode, ends in the
    error of a full store where the heap is full; the collection is between evaluations (repl_collect).
    A stream is its file, a position and the bytes that were pushed back: writes reach the disk at once, and a failing
    write sets the mark of an error.  The disk maps names to contents.  The operating system (record kernel) is an
    arbitrary function from the name and arguments of a call and the state to a reply and a state.  UINT4 of md5.h is a
    word of any width, for md5.h gives it 32 or 64 bits.  The collectors have states of their own (gcs, gcc), where cells
    are the objects of the evaluator; the hooks that free the buffers of arrays and files act in stop-and-copy only.
    The evaluator serves calls of the C functions of Eval by name; a call of another C function through a subr is
    undefined there, though the function itself is modelled in its own theory.

    err does not write its line for debugging to the standard error and calls no hook of a fatal exit; leval does not print the expression at a verbosity of 6 and more.  A string whose buffer has no NUL is
    read up to the end of the buffer (c_string_of); in string-append the pass that adds the lengths and the one that
    copies are one.  An access behind the end of a buffer or an array is undefined (Undef), in memcmp of equal too.

  Not modelled.  User types and what is built on them: tracing (trace.c beyond its hook for the collector) and directory
  streams; pipes, popen, alarms and other signals than the deferral of SIGINT, limits of the CPU time and the stack, exit,
  raw memory access; the branches for Windows, VMS, OSF and the Macintosh; the transcendental functions of the C library;
  the reader's hooks for user-defined syntax, which nothing sets; siod.c, which calls ulsiod_main.
\<close>

end
